(* ===== verification/Nachos_Prelude.thy ===== *)
theory Nachos_Prelude
  imports Main "HOL-Library.Word" "HOL-Library.Monad_Syntax" "HOL-Library.Signed_Division"
begin

text \<open>
  Shared vocabulary of the development.

  Every operation of the kernel that can fail an \<^verbatim>\<open>ASSERT\<close> (threads/utility.h), index an
  array outside its bounds or dereference a null pointer is a function into an \<open>option\<close> type:
  \<open>None\<close> says that the run has no defined continuation (the process aborts, or the
  behaviour of the C++ program is undefined), \<open>Some\<close> carries the result and the new state.
  Operations are chained in the \<open>option\<close> monad with the \<open>do\<close> syntax of the library.

  C++ \<^verbatim>\<open>int\<close> values whose width matters (registers, instruction words, disk images) are
  \<open>32 word\<close>; indices and counters that stay far below the width are \<open>int\<close> or \<open>nat\<close>.
\<close>

unbundle bit_operations_syntax

section \<open>Automation shared by the components\<close>

named_theorems monad_simps \<open>unfolding of the assertion and array primitives\<close>

type_synonym byte = "8 word"
type_synonym word32 = "32 word"

section \<open>Assertions and array accesses\<close>

definition ASSERT :: "bool \<Rightarrow> unit option" where
  "ASSERT c = (if c then Some () else None)"

definition array_get :: "'a list \<Rightarrow> nat \<Rightarrow> 'a option" where
  "array_get xs i = (if i < length xs then Some (xs ! i) else None)"

definition array_set :: "'a list \<Rightarrow> nat \<Rightarrow> 'a \<Rightarrow> 'a list option" where
  "array_set xs i v = (if i < length xs then Some (xs[i := v]) else None)"

lemma ASSERT_True [simp]: "ASSERT True = Some ()"
  by (simp add: ASSERT_def)

lemma ASSERT_False [simp]: "ASSERT False = None"
  by (simp add: ASSERT_def)

lemma ASSERT_eq_Some [simp]: "ASSERT c = Some u \<longleftrightarrow> c"
  by (cases u) (simp add: ASSERT_def)

lemma ASSERT_bind_eq_Some [simp]: "ASSERT c \<bind> f = Some y \<longleftrightarrow> c \<and> f () = Some y"
  by (simp add: ASSERT_def)

lemma array_get_in [simp]: "i < length xs \<Longrightarrow> array_get xs i = Some (xs ! i)"
  by (simp add: array_get_def)

lemma array_get_eq_Some: "array_get xs i = Some v \<longleftrightarrow> i < length xs \<and> v = xs ! i"
  by (auto simp: array_get_def)

lemma array_set_in [simp]: "i < length xs \<Longrightarrow> array_set xs i v = Some (xs[i := v])"
  by (simp add: array_set_def)

lemma array_set_eq_Some: "array_set xs i v = Some ys \<longleftrightarrow> i < length xs \<and> ys = xs[i := v]"
  by (auto simp: array_set_def)

lemmas array_ops = array_get_eq_Some array_set_eq_Some

declare ASSERT_def [monad_simps] array_get_def [monad_simps] array_set_def [monad_simps]

section \<open>Arithmetic macros of threads/utility.h\<close>

definition divRoundDown :: "int \<Rightarrow> int \<Rightarrow> int" where
  "divRoundDown n s = n sdiv s"

definition divRoundUp :: "int \<Rightarrow> int \<Rightarrow> int" where
  "divRoundUp n s = (n sdiv s) + (if n smod s > 0 then 1 else 0)"

lemma sdiv_nonneg [simp]: "0 \<le> n \<Longrightarrow> 0 < s \<Longrightarrow> n sdiv s = n div (s::int)"
  by (cases "n = 0") (auto simp: signed_divide_int_def)

lemma smod_nonneg [simp]: "0 \<le> n \<Longrightarrow> 0 < s \<Longrightarrow> n smod s = n mod (s::int)"
  by (cases "n = 0") (auto simp: signed_modulo_int_def)

lemma divRoundDown_nonneg [simp]: "0 \<le> n \<Longrightarrow> 0 < s \<Longrightarrow> divRoundDown n s = n div s"
  by (simp add: divRoundDown_def)

lemma divRoundUp_nonneg:
  "0 \<le> n \<Longrightarrow> 0 < s \<Longrightarrow> divRoundUp n s = n div s + of_bool (0 < n mod s)"
  by (simp add: divRoundUp_def)

text \<open>Rounding up is enough space and less than one unit more than needed.\<close>

lemma divRoundUp_bounds:
  assumes "0 \<le> n" "0 < s"
  shows "n \<le> divRoundUp n s * s" and "divRoundUp n s * s < n + s"
proof -
  define q where "q = n div s"
  define r where "r = n mod s"
  have q: "n div s = q" and r: "n mod s = r" and eq: "n = q * s + r"
    by (simp_all add: q_def r_def)
  have m: "0 \<le> r" "r < s" using assms r by auto
  show "n \<le> divRoundUp n s * s" "divRoundUp n s * s < n + s"
    using m assms unfolding divRoundUp_nonneg [OF assms] q r
    unfolding eq by (auto simp: distrib_right)
qed

lemma divRoundUp_ge_0: "0 \<le> n \<Longrightarrow> 0 < s \<Longrightarrow> 0 \<le> divRoundUp n s"
  by (simp add: divRoundUp_nonneg pos_imp_zdiv_nonneg_iff)

section \<open>Counting loops\<close>

text \<open>
  \<open>collect_n step n s\<close> models \<^verbatim>\<open>for (i = 0; i < n; i++) a[i] = step();\<close> where the call
  changes the state \<open>s\<close>: the collected values in order, and the final state.
\<close>

fun collect_n :: "('s \<Rightarrow> ('a \<times> 's) option) \<Rightarrow> nat \<Rightarrow> 's \<Rightarrow> ('a list \<times> 's) option" where
  "collect_n step 0 s = Some ([], s)"
| "collect_n step (Suc n) s =
     do { (x, s') \<leftarrow> step s;
          (xs, s'') \<leftarrow> collect_n step n s';
          Some (x # xs, s'') }"

lemma collect_n_length: "collect_n step n s = Some (xs, s') \<Longrightarrow> length xs = n"
  by (induction n arbitrary: s xs s') (auto simp: bind_eq_Some_conv)

text \<open>\<open>each f xs s\<close> models \<^verbatim>\<open>for (i = 0; i < n; i++) f(a[i]);\<close> over an array \<open>xs\<close>.\<close>

fun each :: "('a \<Rightarrow> 's \<Rightarrow> 's option) \<Rightarrow> 'a list \<Rightarrow> 's \<Rightarrow> 's option" where
  "each f [] s = Some s"
| "each f (x # xs) s = f x s \<bind> each f xs"

lemma each_append: "each f (xs @ ys) s = each f xs s \<bind> each f ys"
  by (induction xs arbitrary: s) (simp_all add: bind_assoc split: Option.bind_splits)

section \<open>Single bits of a word\<close>

text \<open>The simplifier writes \<open>push_bit n 1\<close> as \<open>2 ^ n\<close>, so the rules are stated for powers.\<close>

lemma bit_single_iff: "bit (2 ^ n :: 'a::len word) m \<longleftrightarrow> m = n \<and> n < LENGTH('a)"
  by (auto simp: bit_exp_iff)

lemma and_single_iff:
  fixes w :: "'a::len word"
  assumes "n < LENGTH('a)"
  shows "(w AND 2 ^ n = 0) \<longleftrightarrow> \<not> bit w n"
proof
  assume "w AND 2 ^ n = 0"
  then have "\<not> bit (w AND 2 ^ n) n" by simp
  then show "\<not> bit w n" using assms by (simp only: bit_and_iff bit_single_iff) simp
next
  assume "\<not> bit w n"
  then show "w AND 2 ^ n = 0"
    by (intro bit_word_eqI) (auto simp only: bit_and_iff bit_single_iff bit_0_eq bot_bool_def bot_apply)
qed

lemma bit_set_single:
  fixes w :: "'a::len word"
  assumes "n < LENGTH('a)"
  shows "bit (w OR 2 ^ n) m \<longleftrightarrow> m = n \<or> bit w m"
  using assms by (simp only: bit_or_iff bit_single_iff) blast

lemma bit_clear_single:
  fixes w :: "'a::len word"
  assumes "m < LENGTH('a)"
  shows "bit (w AND NOT (2 ^ n)) m \<longleftrightarrow> m \<noteq> n \<and> bit w m"
  using assms by (simp only: bit_and_iff bit_not_iff bit_single_iff possible_bit_word) blast

section \<open>Generic facts on lists\<close>

lemma nth_list_update_if: "i < length xs \<Longrightarrow> xs[i := v] ! j = (if i = j then v else xs ! j)"
  by (cases "i = j") simp_all

lemma take_update_beyond [simp]: "n \<le> i \<Longrightarrow> take n (xs[i := v]) = take n xs"
  by (simp add: list_eq_iff_nth_eq)

end
