(* ===== verification/Machine.thy ===== *)
theory Machine
  imports Nachos_Prelude
begin

text \<open>
  machine/machine.h, machine/machine.cc and machine/translate.cc: the registers and memory of
  the simulated MIPS machine, address translation and memory access.

  The machine runs on a little-endian host (\<^verbatim>\<open>-DHOST_i386\<close>), so \<^verbatim>\<open>WordToHost\<close> and its
  three companions are the identity; the byte swap they perform on a big-endian host is modelled
  too. Main memory is a function from physical addresses below \<open>MemorySize\<close> to bytes.
  \<open>Translate\<close>, \<open>ReadMem\<close> and \<open>WriteMem\<close> return \<open>Inl e\<close> where the code raises the
  exception \<open>e\<close>; the call of \<^verbatim>\<open>RaiseException\<close> is made by the caller of these functions
  (theory \<open>Mips\<close>), since every caller only returns after it.
\<close>

section \<open>Constants and data\<close>

definition SectorSize :: nat where "SectorSize = 512"
definition PageSize :: nat where "PageSize = SectorSize"
definition NumPhysPages :: nat where "NumPhysPages = 128"
definition MemorySize :: nat where "MemorySize = NumPhysPages * PageSize"
definition TLBSize :: nat where "TLBSize = 4"

lemmas machine_sizes = SectorSize_def PageSize_def NumPhysPages_def MemorySize_def TLBSize_def

datatype ExceptionType = NoException | SyscallException | PageFaultException | ReadOnlyException
  | BusErrorException | AddressErrorException | OverflowException | IllegalInstrException
  | NumExceptionTypes

definition StackReg :: nat where "StackReg = 29"
definition RetAddrReg :: nat where "RetAddrReg = 31"
definition NumGPRegs :: nat where "NumGPRegs = 32"
definition HiReg :: nat where "HiReg = 32"
definition LoReg :: nat where "LoReg = 33"
definition PCReg :: nat where "PCReg = 34"
definition NextPCReg :: nat where "NextPCReg = 35"
definition PrevPCReg :: nat where "PrevPCReg = 36"
definition LoadReg :: nat where "LoadReg = 37"
definition LoadValueReg :: nat where "LoadValueReg = 38"
definition BadVAddrReg :: nat where "BadVAddrReg = 39"
definition NumTotalRegs :: nat where "NumTotalRegs = 40"

lemmas reg_defs = StackReg_def RetAddrReg_def NumGPRegs_def HiReg_def LoReg_def PCReg_def
  NextPCReg_def PrevPCReg_def LoadReg_def LoadValueReg_def BadVAddrReg_def NumTotalRegs_def

record TranslationEntry =
  virtualPage :: word32
  physicalPage :: word32
  valid :: bool
  readOnly :: bool
  use_bit :: bool
  dirty :: bool

record machine =
  mainMemory :: "nat \<Rightarrow> byte"
  registers :: "nat \<Rightarrow> word32"
  tlb :: "TranslationEntry list option"
  pageTable :: "TranslationEntry list option"
  pageTableSize :: nat
  singleStep :: bool
  runUntilTime :: int

text \<open>The constructor leaves \<open>pageTableSize\<close> and \<open>runUntilTime\<close> as the allocation gave them.\<close>

definition Machine_new :: "nat \<Rightarrow> int \<Rightarrow> bool \<Rightarrow> machine" where
  "Machine_new junk_size junk_time debug = \<lparr>mainMemory = (\<lambda>_. 0), registers = (\<lambda>_. 0), tlb = None, pageTable = None,
     pageTableSize = junk_size, singleStep = debug, runUntilTime = junk_time\<rparr>"

section \<open>Registers\<close>

definition ReadRegister :: "machine \<Rightarrow> nat \<Rightarrow> word32 option" where
  "ReadRegister m num = do { ASSERT (num < NumTotalRegs); Some (registers m num) }"

definition WriteRegister :: "nat \<Rightarrow> word32 \<Rightarrow> machine \<Rightarrow> machine option" where
  "WriteRegister num v m =
     do { ASSERT (num < NumTotalRegs); Some (m\<lparr>registers := (registers m)(num := v)\<rparr>) }"

section \<open>Byte order\<close>

definition WordToHost :: "bool \<Rightarrow> word32 \<Rightarrow> word32" where
  "WordToHost big_endian w =
     (if big_endian then
        (drop_bit 24 w AND 0x000000ff) OR (drop_bit 8 w AND 0x0000ff00)
        OR (push_bit 8 w AND 0x00ff0000) OR (push_bit 24 w AND 0xff000000)
      else w)"

definition ShortToHost :: "bool \<Rightarrow> 16 word \<Rightarrow> 16 word" where
  "ShortToHost big_endian s =
     (if big_endian then (push_bit 8 s AND 0xff00) OR (drop_bit 8 s AND 0x00ff) else s)"

definition WordToMachine :: "bool \<Rightarrow> word32 \<Rightarrow> word32" where
  "WordToMachine be w = WordToHost be w"

definition ShortToMachine :: "bool \<Rightarrow> 16 word \<Rightarrow> 16 word" where
  "ShortToMachine be s = ShortToHost be s"

section \<open>Address translation\<close>

text \<open>
  The entry used for virtual page \<open>vpn\<close>: \<open>(True, i)\<close> is slot \<open>i\<close> of the TLB and
  \<open>(False, i)\<close> entry \<open>i\<close> of the page table.
\<close>

definition tlb_match :: "nat \<Rightarrow> TranslationEntry \<Rightarrow> bool" where
  "tlb_match vpn e \<longleftrightarrow> valid e \<and> unat (virtualPage e) = vpn"

definition find_entry :: "machine \<Rightarrow> nat \<Rightarrow> (ExceptionType + (bool \<times> nat)) option" where
  "find_entry m vpn =
     (case tlb m of
        None \<Rightarrow>
          (if vpn \<ge> pageTableSize m then Some (Inl AddressErrorException)
           else do {
             pt \<leftarrow> pageTable m;
             e \<leftarrow> array_get pt vpn;
             if \<not> valid e then Some (Inl PageFaultException) else Some (Inr (False, vpn)) })
      | Some t \<Rightarrow> do {
          ASSERT (TLBSize \<le> length t);
          (case filter (\<lambda>i. tlb_match vpn (t ! i)) [0..<TLBSize] of
             [] \<Rightarrow> Some (Inl PageFaultException)
           | i # _ \<Rightarrow> Some (Inr (True, i))) })"

definition get_entry :: "machine \<Rightarrow> bool \<times> nat \<Rightarrow> TranslationEntry option" where
  "get_entry m r = (if fst r then tlb m else pageTable m) \<bind> (\<lambda>t. array_get t (snd r))"

definition set_entry :: "bool \<times> nat \<Rightarrow> TranslationEntry \<Rightarrow> machine \<Rightarrow> machine" where
  "set_entry r e m =
     (if fst r then m\<lparr>tlb := map_option (\<lambda>t. t[snd r := e]) (tlb m)\<rparr>
      else m\<lparr>pageTable := map_option (\<lambda>t. t[snd r := e]) (pageTable m)\<rparr>)"

definition Translate :: "machine \<Rightarrow> word32 \<Rightarrow> nat \<Rightarrow> bool \<Rightarrow> (ExceptionType + (nat \<times> machine)) option"
where
  "Translate m virtAddr sz writing =
     (if (sz = 4 \<and> virtAddr AND 3 \<noteq> 0) \<or> (sz = 2 \<and> virtAddr AND 1 \<noteq> 0)
      then Some (Inl AddressErrorException)
      else do {
        ASSERT (tlb m = None \<or> pageTable m = None);
        ASSERT (tlb m \<noteq> None \<or> pageTable m \<noteq> None);
        let vpn = unat virtAddr div PageSize;
        let offset = unat virtAddr mod PageSize;
        found \<leftarrow> find_entry m vpn;
        (case found of
           Inl e \<Rightarrow> Some (Inl e)
         | Inr r \<Rightarrow> do {
             entry \<leftarrow> get_entry m r;
             if readOnly entry \<and> writing then Some (Inl ReadOnlyException)
             else do {
               let pageFrame = unat (physicalPage entry);
               if pageFrame \<ge> NumPhysPages then Some (Inl BusErrorException)
               else do {
                 let m' = set_entry r (entry\<lparr>use_bit := True, dirty := dirty entry \<or> writing\<rparr>) m;
                 let physAddr = pageFrame * PageSize + offset;
                 ASSERT (physAddr + sz \<le> MemorySize);
                 Some (Inr (physAddr, m')) } } }) })"

section \<open>Memory access\<close>

text \<open>Little-endian loads and stores of one, two and four bytes at a physical address.\<close>

definition load16 :: "(nat \<Rightarrow> byte) \<Rightarrow> nat \<Rightarrow> 16 word" where
  "load16 mem a = ucast (mem a) OR push_bit 8 (ucast (mem (a + 1)))"

definition load32 :: "(nat \<Rightarrow> byte) \<Rightarrow> nat \<Rightarrow> word32" where
  "load32 mem a = ucast (mem a) OR push_bit 8 (ucast (mem (a + 1)))
     OR push_bit 16 (ucast (mem (a + 2))) OR push_bit 24 (ucast (mem (a + 3)))"

definition store16 :: "nat \<Rightarrow> 16 word \<Rightarrow> (nat \<Rightarrow> byte) \<Rightarrow> nat \<Rightarrow> byte" where
  "store16 a v mem = mem(a := ucast v, a + 1 := ucast (drop_bit 8 v))"

definition store32 :: "nat \<Rightarrow> word32 \<Rightarrow> (nat \<Rightarrow> byte) \<Rightarrow> nat \<Rightarrow> byte" where
  "store32 a v mem = mem(a := ucast v, a + 1 := ucast (drop_bit 8 v),
     a + 2 := ucast (drop_bit 16 v), a + 3 := ucast (drop_bit 24 v))"

definition ReadMem :: "machine \<Rightarrow> word32 \<Rightarrow> nat \<Rightarrow> (ExceptionType + (word32 \<times> machine)) option" where
  "ReadMem m addr sz = do {
     t \<leftarrow> Translate m addr sz False;
     (case t of
        Inl e \<Rightarrow> Some (Inl e)
      | Inr (pa, m') \<Rightarrow>
          if sz = 1 then Some (Inr (scast (mainMemory m' pa), m'))
          else if sz = 2 then Some (Inr (ucast (ShortToHost False (load16 (mainMemory m') pa)), m'))
          else if sz = 4 then Some (Inr (WordToHost False (load32 (mainMemory m') pa), m'))
          else None) }"

definition WriteMem :: "machine \<Rightarrow> word32 \<Rightarrow> nat \<Rightarrow> word32 \<Rightarrow> (ExceptionType + machine) option" where
  "WriteMem m addr sz v = do {
     t \<leftarrow> Translate m addr sz True;
     (case t of
        Inl e \<Rightarrow> Some (Inl e)
      | Inr (pa, m') \<Rightarrow>
          if sz = 1 then
            Some (Inr (m'\<lparr>mainMemory := (mainMemory m')(pa := ucast (v AND 0xff))\<rparr>))
          else if sz = 2 then
            Some (Inr (m'\<lparr>mainMemory :=
              store16 pa (ShortToMachine False (ucast (v AND 0xffff))) (mainMemory m')\<rparr>))
          else if sz = 4 then
            Some (Inr (m'\<lparr>mainMemory := store32 pa (WordToMachine False v) (mainMemory m')\<rparr>))
          else None) }"

section \<open>Translation: safety of the physical address\<close>

text \<open>
  The translation tables of a running user program: one linear page table of the announced
  length and no TLB (the configuration the kernel is built with).
\<close>

definition page_tables_ok :: "machine \<Rightarrow> bool" where
  "page_tables_ok m \<longleftrightarrow> tlb m = None \<and> (\<exists>pt. pageTable m = Some pt \<and> length pt = pageTableSize m)"

lemma aligned_and_3: "(a AND 3 = 0) = (unat (a :: word32) mod 4 = 0)"
proof -
  have "a AND 3 = take_bit 2 a"
    using take_bit_eq_mask [of 2 a] by (simp add: mask_eq_exp_minus_1)
  then have "unat (a AND 3) = unat a mod 4"
    by (simp add: take_bit_eq_mod unat_mod)
  then show ?thesis by (metis unat_eq_zero)
qed

lemma aligned_and_1: "(a AND 1 = 0) = (unat (a :: word32) mod 2 = 0)"
proof -
  have "a AND 1 = take_bit 1 a"
    using take_bit_eq_mask [of 1 a] by (simp add: mask_eq_exp_minus_1)
  then have "unat (a AND 1) = unat a mod 2"
    by (simp add: take_bit_eq_mod unat_mod)
  then show ?thesis by (metis unat_eq_zero)
qed

definition valid_size :: "nat \<Rightarrow> bool" where
  "valid_size sz \<longleftrightarrow> sz = 1 \<or> sz = 2 \<or> sz = 4"

lemma aligned_in_page:
  assumes "valid_size sz" "\<not> ((sz = 4 \<and> a AND 3 \<noteq> 0) \<or> (sz = 2 \<and> (a :: word32) AND 1 \<noteq> 0))"
  shows "unat a mod PageSize + sz \<le> PageSize"
proof -
  from assms have "unat a mod sz = 0"
    by (auto simp: valid_size_def aligned_and_3 aligned_and_1)
  moreover have "sz dvd PageSize" using assms(1) by (auto simp: valid_size_def machine_sizes)
  ultimately have d: "sz dvd unat a mod PageSize" by (simp add: dvd_mod mod_eq_0_iff_dvd)
  moreover have "unat a mod PageSize < PageSize" by (simp add: machine_sizes)
  ultimately show ?thesis
    using \<open>sz dvd PageSize\<close> assms(1) by (auto simp: dvd_def valid_size_def machine_sizes)
qed

text \<open>The complete behaviour of \<open>Translate\<close> on a linear page table: which exception, or which address.\<close>

definition translate_spec :: "machine \<Rightarrow> word32 \<Rightarrow> nat \<Rightarrow> bool \<Rightarrow> ExceptionType + (nat \<times> machine)" where
  "translate_spec m a sz writing =
     (let vpn = unat a div PageSize; e = the (pageTable m) ! vpn in
      if unat a mod sz \<noteq> 0 then Inl AddressErrorException
      else if vpn \<ge> pageTableSize m then Inl AddressErrorException
      else if \<not> valid e then Inl PageFaultException
      else if readOnly e \<and> writing then Inl ReadOnlyException
      else if unat (physicalPage e) \<ge> NumPhysPages then Inl BusErrorException
      else Inr (unat (physicalPage e) * PageSize + unat a mod PageSize,
             m\<lparr>pageTable := Some ((the (pageTable m))
               [vpn := e\<lparr>use_bit := True, dirty := dirty e \<or> writing\<rparr>])\<rparr>))"

lemma Translate_eq_spec:
  assumes "page_tables_ok m" "valid_size sz"
  shows "Translate m a sz writing = Some (translate_spec m a sz writing)"
proof (cases "(sz = 4 \<and> a AND 3 \<noteq> 0) \<or> (sz = 2 \<and> a AND 1 \<noteq> 0)")
  case True
  then have "unat a mod sz \<noteq> 0" by (auto simp: aligned_and_3 aligned_and_1)
  then show ?thesis using True by (simp add: Translate_def translate_spec_def)
next
  case False
  then have al: "unat a mod sz = 0"
    using assms(2) by (auto simp: valid_size_def aligned_and_3 aligned_and_1)
  from assms(1) obtain pt where pt: "tlb m = None" "pageTable m = Some pt" "length pt = pageTableSize m"
    by (auto simp: page_tables_ok_def)
  have bound: "f * PageSize + unat a mod PageSize + sz \<le> MemorySize" if "f < NumPhysPages" for f
    using that aligned_in_page [OF assms(2) False] by (simp add: machine_sizes)
  show ?thesis
    unfolding Translate_def translate_spec_def if_not_P [OF False] find_entry_def get_entry_def set_entry_def
    using pt al bound by (simp add: Let_def not_le)
qed


section \<open>Byte order and memory cells\<close>

lemma byte_lane_masks:
  "(0x000000ff :: word32) = mask 8" "(0x0000ff00 :: word32) = push_bit 8 (mask 8)"
  "(0x00ff0000 :: word32) = push_bit 16 (mask 8)" "(0xff000000 :: word32) = push_bit 24 (mask 8)"
  by (simp_all add: mask_eq_exp_minus_1 push_bit_eq_mult)

lemma half_lane_masks:
  "(0x00ff :: 16 word) = mask 8" "(0xff00 :: 16 word) = push_bit 8 (mask 8)"
  by (simp_all add: mask_eq_exp_minus_1 push_bit_eq_mult)


lemma load32_store32: "load32 (store32 a v mem) a = v"
proof (rule bit_word_eqI)
  fix n assume "n < LENGTH(32)"
  then consider "n < 8" | "8 \<le> n" "n < 16" | "16 \<le> n" "n < 24" | "24 \<le> n" "n < 32" by fastforce
  then show "bit (load32 (store32 a v mem) a) n = bit v n"
    by cases (auto simp: load32_def store32_def bit_simps)
qed

lemma load16_store16: "load16 (store16 a v mem) a = v"
  unfolding load16_def store16_def
  by (rule bit_word_eqI) (auto simp: bit_simps)

lemma ucast_and_ff: "(ucast (v AND 0xff) :: byte) = ucast (v :: word32)"
  unfolding byte_lane_masks by (rule bit_word_eqI) (simp add: bit_simps)

lemma ucast_and_ffff: "(ucast (v AND 0xffff) :: 16 word) = ucast (v :: word32)"
proof -
  have m: "(0xffff :: word32) = mask 16" by (simp add: mask_eq_exp_minus_1)
  show ?thesis unfolding m by (rule bit_word_eqI) (simp add: bit_simps)
qed

text \<open>Lane by lane, the byte swap is a permutation that is its own inverse.\<close>

lemma WordToHost_bits:
  "n < 8 \<Longrightarrow> bit (WordToHost True w) n = bit w (n + 24)"
  "8 \<le> n \<Longrightarrow> n < 16 \<Longrightarrow> bit (WordToHost True w) n = bit w (n + 8)"
  "16 \<le> n \<Longrightarrow> n < 24 \<Longrightarrow> bit (WordToHost True w) n = bit w (n - 8)"
  "24 \<le> n \<Longrightarrow> n < 32 \<Longrightarrow> bit (WordToHost True w) n = bit w (n - 24)"
  unfolding WordToHost_def byte_lane_masks by (auto simp: bit_simps add.commute)

lemma WordToHost_involution: "WordToHost be (WordToHost be w) = w"
proof (cases be)
  case True
  have "WordToHost True (WordToHost True w) = w"
  proof (rule bit_word_eqI)
    fix n assume "n < LENGTH(32)"
    then consider "n < 8" | "8 \<le> n" "n < 16" | "16 \<le> n" "n < 24" | "24 \<le> n" "n < 32" by fastforce
    then show "bit (WordToHost True (WordToHost True w)) n = bit w n"
      by cases (simp_all add: WordToHost_bits)
  qed
  with True show ?thesis by simp
qed (simp add: WordToHost_def)

lemma ShortToHost_bits:
  "n < 8 \<Longrightarrow> bit (ShortToHost True w) n = bit w (n + 8)"
  "8 \<le> n \<Longrightarrow> n < 16 \<Longrightarrow> bit (ShortToHost True w) n = bit w (n - 8)"
  unfolding ShortToHost_def half_lane_masks by (auto simp: bit_simps add.commute)

lemma ShortToHost_involution: "ShortToHost be (ShortToHost be s) = s"
proof (cases be)
  case True
  have "ShortToHost True (ShortToHost True s) = s"
  proof (rule bit_word_eqI)
    fix n assume "n < LENGTH(16)"
    then consider "n < 8" | "8 \<le> n" "n < 16" by fastforce
    then show "bit (ShortToHost True (ShortToHost True s)) n = bit s n"
      by cases (simp_all add: ShortToHost_bits)
  qed
  with True show ?thesis by simp
qed (simp add: ShortToHost_def)


section \<open>Reading, writing and isolation\<close>

text \<open>What a size-\<open>sz\<close> read gives back of a stored register value.\<close>

definition read_back :: "nat \<Rightarrow> word32 \<Rightarrow> word32" where
  "read_back sz v = (if sz = 1 then scast (ucast v :: byte)
     else if sz = 2 then ucast (ucast v :: 16 word) else v)"

definition stored :: "nat \<Rightarrow> nat \<Rightarrow> word32 \<Rightarrow> (nat \<Rightarrow> byte) \<Rightarrow> nat \<Rightarrow> byte" where
  "stored pa sz v mem = (if sz = 1 then mem(pa := ucast v)
     else if sz = 2 then store16 pa (ucast v) mem else store32 pa v mem)"

definition loaded :: "nat \<Rightarrow> nat \<Rightarrow> (nat \<Rightarrow> byte) \<Rightarrow> word32" where
  "loaded pa sz mem = (if sz = 1 then scast (mem pa)
     else if sz = 2 then ucast (load16 mem pa) else load32 mem pa)"

lemma loaded_stored: "valid_size sz \<Longrightarrow> loaded pa sz (stored pa sz v mem) = read_back sz v"
  by (auto simp: valid_size_def loaded_def stored_def read_back_def load32_store32 load16_store16)

lemma stored_outside:
  "valid_size sz \<Longrightarrow> q < pa \<or> pa + sz \<le> q \<Longrightarrow> stored pa sz v mem q = mem q"
  by (auto simp: valid_size_def stored_def store16_def store32_def)

lemma loaded_cong:
  assumes "valid_size sz" "\<And>i. i < sz \<Longrightarrow> mem (pa + i) = mem' (pa + i)"
  shows "loaded pa sz mem = loaded pa sz mem'"
  using assms(1) assms(2) [of 0] assms(2) [of 1] assms(2) [of 2] assms(2) [of 3]
  by (elim valid_size_def [THEN iffD1, elim_format] disjE)
    (simp_all add: loaded_def load16_def load32_def)

lemma WriteMem_spec:
  assumes "page_tables_ok m" "valid_size sz"
  shows "WriteMem m a sz v = Some (case translate_spec m a sz True of
     Inl e \<Rightarrow> Inl e | Inr (pa, m') \<Rightarrow> Inr (m'\<lparr>mainMemory := stored pa sz v (mainMemory m')\<rparr>))"
  using assms(2)
  by (auto simp: WriteMem_def Translate_eq_spec [OF assms] stored_def valid_size_def ucast_and_ff
    ucast_and_ffff WordToMachine_def ShortToMachine_def WordToHost_def ShortToHost_def split: sum.split)

lemma ReadMem_spec:
  assumes "page_tables_ok m" "valid_size sz"
  shows "ReadMem m a sz = Some (case translate_spec m a sz False of
     Inl e \<Rightarrow> Inl e | Inr (pa, m') \<Rightarrow> Inr (loaded pa sz (mainMemory m'), m'))"
  using assms(2)
  by (auto simp: ReadMem_def Translate_eq_spec [OF assms] loaded_def valid_size_def
    WordToHost_def ShortToHost_def split: sum.split)

lemma translate_spec_Inr:
  assumes "translate_spec m a sz w = Inr (pa, m')" "page_tables_ok m"
  defines "vpn \<equiv> unat a div PageSize"
  obtains pt e where "pageTable m = Some pt" "vpn < length pt" "e = pt ! vpn" "valid e"
    "\<not> (readOnly e \<and> w)" "unat (physicalPage e) < NumPhysPages"
    "pa = unat (physicalPage e) * PageSize + unat a mod PageSize" "unat a mod sz = 0"
    "m' = m\<lparr>pageTable := Some (pt[vpn := e\<lparr>use_bit := True, dirty := dirty e \<or> w\<rparr>])\<rparr>"
  using assms by (auto simp: translate_spec_def page_tables_ok_def Let_def split: if_splits)

text \<open>The tables stay well formed, and the flags are the only thing a translation changes.\<close>

definition same_mapping :: "machine \<Rightarrow> machine \<Rightarrow> bool" where
  "same_mapping m m' \<longleftrightarrow> registers m' = registers m \<and> tlb m' = tlb m
     \<and> pageTableSize m' = pageTableSize m \<and> singleStep m' = singleStep m \<and> runUntilTime m' = runUntilTime m
     \<and> map_option (map (\<lambda>e. (virtualPage e, physicalPage e, valid e, readOnly e))) (pageTable m') =
       map_option (map (\<lambda>e. (virtualPage e, physicalPage e, valid e, readOnly e))) (pageTable m)"

lemma same_mapping_translate:
  assumes "translate_spec m a sz w = Inr (pa, m')" "page_tables_ok m"
  shows "same_mapping m (m'\<lparr>mainMemory := mem\<rparr>)" "page_tables_ok (m'\<lparr>mainMemory := mem\<rparr>)"
    "mainMemory m' = mainMemory m"
  using assms(2) by - (rule translate_spec_Inr [OF assms],
    auto simp: same_mapping_def page_tables_ok_def map_update list_update_same_conv)+

lemma same_mapping_refl [simp]: "same_mapping m m"
  by (simp add: same_mapping_def)

lemma same_mapping_mem [simp]: "same_mapping m (m'\<lparr>mainMemory := mem\<rparr>) = same_mapping m m'"
  by (simp add: same_mapping_def)


lemma same_mapping_cases:
  assumes "same_mapping m m'" "page_tables_ok m"
  obtains pt pt' where "pageTable m = Some pt" "pageTable m' = Some pt'" "length pt' = length pt"
    "length pt = pageTableSize m" "pageTableSize m' = pageTableSize m"
    "\<And>i. i < length pt \<Longrightarrow> physicalPage (pt' ! i) = physicalPage (pt ! i)
      \<and> valid (pt' ! i) = valid (pt ! i) \<and> readOnly (pt' ! i) = readOnly (pt ! i)"
proof -
  from assms(2) obtain pt where pt: "pageTable m = Some pt" "length pt = pageTableSize m"
    by (auto simp: page_tables_ok_def)
  with assms(1) obtain pt' where pt': "pageTable m' = Some pt'" "pageTableSize m' = pageTableSize m" and
    eq: "map (\<lambda>e. (virtualPage e, physicalPage e, valid e, readOnly e)) pt' =
      map (\<lambda>e. (virtualPage e, physicalPage e, valid e, readOnly e)) pt"
    by (auto simp: same_mapping_def)
  have len: "length pt' = length pt" using map_eq_imp_length_eq [OF eq] .
  have "physicalPage (pt' ! i) = physicalPage (pt ! i)
      \<and> valid (pt' ! i) = valid (pt ! i) \<and> readOnly (pt' ! i) = readOnly (pt ! i)" if "i < length pt" for i
    using arg_cong [OF eq, of "\<lambda>xs. xs ! i"] that len by simp
  with pt pt' len show ?thesis by (intro that)
qed

text \<open>After a successful access the same address still translates, for a read, to the same place.\<close>

lemma translate_spec_again:
  assumes "same_mapping m m'" "page_tables_ok m" "translate_spec m a sz w = Inr (pa, m1)"
  shows "\<exists>m2. translate_spec m' a sz False = Inr (pa, m2)"
proof -
  from assms(1,2) obtain pt pt' where st: "pageTable m = Some pt" "pageTable m' = Some pt'"
    "length pt = pageTableSize m" "pageTableSize m' = pageTableSize m"
    "\<And>i. i < length pt \<Longrightarrow> physicalPage (pt' ! i) = physicalPage (pt ! i)
      \<and> valid (pt' ! i) = valid (pt ! i) \<and> readOnly (pt' ! i) = readOnly (pt ! i)"
    by (rule same_mapping_cases) blast
  from assms(3,2) show ?thesis
    by (rule translate_spec_Inr) (use st in \<open>auto simp: translate_spec_def Let_def\<close>)
qed

text \<open>The bytes of an access lie in the frame of the page, below \<open>MemorySize\<close>.\<close>

lemma translate_spec_frame:
  assumes "translate_spec m a sz w = Inr (pa, m')" "page_tables_ok m" "valid_size sz"
  obtains pt e where "pageTable m = Some pt" "unat a div PageSize < length pt" "e = pt ! (unat a div PageSize)"
    "valid e" "unat (physicalPage e) < NumPhysPages" "pa = unat (physicalPage e) * PageSize + unat a mod PageSize"
    "unat a mod PageSize + sz \<le> PageSize"
proof -
  from assms(1,2) have "unat a mod sz = 0" by (rule translate_spec_Inr)
  then have "\<not> ((sz = 4 \<and> a AND 3 \<noteq> 0) \<or> (sz = 2 \<and> a AND 1 \<noteq> 0))"
    by (auto simp: aligned_and_3 aligned_and_1)
  note page = aligned_in_page [OF assms(3) this]
  show ?thesis
    by (rule translate_spec_Inr [OF assms(1,2)]) (rule that, use page in \<open>auto\<close>)
qed

lemma WriteMem_Inr:
  assumes "page_tables_ok m" "valid_size sz" "WriteMem m a sz v = Some (Inr m')"
  obtains pa m1 where "translate_spec m a sz True = Inr (pa, m1)"
    "m' = m1\<lparr>mainMemory := stored pa sz v (mainMemory m)\<rparr>" "same_mapping m m'" "page_tables_ok m'"
proof -
  from assms(3) obtain pa m1 where t: "translate_spec m a sz True = Inr (pa, m1)"
    and m': "m' = m1\<lparr>mainMemory := stored pa sz v (mainMemory m1)\<rparr>"
    by (auto simp: WriteMem_spec [OF assms(1,2)] split: sum.splits prod.splits)
  with same_mapping_translate [OF t assms(1)] show ?thesis by (intro that) auto
qed

lemma ReadMem_at:
  assumes "page_tables_ok m" "valid_size sz" "translate_spec m a sz False = Inr (pa, m')"
  shows "ReadMem m a sz = Some (Inr (loaded pa sz (mainMemory m), m'))"
  using assms(3) same_mapping_translate(3) [OF assms(3,1)] by (simp add: ReadMem_spec [OF assms(1,2)])

text \<open>Different valid pages are backed by different frames.\<close>

definition frames_injective :: "machine \<Rightarrow> bool" where
  "frames_injective m \<longleftrightarrow> (\<forall>pt i j. pageTable m = Some pt \<longrightarrow> i < length pt \<longrightarrow> j < length pt \<longrightarrow>
     valid (pt ! i) \<longrightarrow> valid (pt ! j) \<longrightarrow> physicalPage (pt ! i) = physicalPage (pt ! j) \<longrightarrow> i = j)"

lemma frames_disjoint:
  assumes "f \<noteq> g" "o1 + s1 \<le> (p :: nat)" "o2 + s2 \<le> p" "0 < s1" "0 < s2"
  shows "f * p + o1 + s1 \<le> g * p + o2 \<or> g * p + o2 + s2 \<le> f * p + o1"
proof (cases "f < g")
  case True
  then have "Suc f * p \<le> g * p" by (intro mult_le_mono1) simp
  with assms show ?thesis by simp
next
  case False
  then have "Suc g * p \<le> f * p" using assms(1) by (intro mult_le_mono1) simp
  with assms show ?thesis by simp
qed

lemma translate_spec_disjoint:
  assumes "page_tables_ok m" "frames_injective m" "valid_size s1" "valid_size s2"
    "translate_spec m a s1 w1 = Inr (pa, m1)" "translate_spec m b s2 w2 = Inr (pb, m2)"
    "unat a + s1 \<le> unat b \<or> unat b + s2 \<le> unat a"
  shows "pa + s1 \<le> pb \<or> pb + s2 \<le> pa"
proof -
  from translate_spec_frame [OF assms(5,1,3)] obtain pt e where A: "pageTable m = Some pt"
    "unat a div PageSize < length pt" "e = pt ! (unat a div PageSize)" "valid e"
    "pa = unat (physicalPage e) * PageSize + unat a mod PageSize" "unat a mod PageSize + s1 \<le> PageSize"
    by metis
  from translate_spec_frame [OF assms(6,1,4)] A(1) obtain d where B:
    "unat b div PageSize < length pt" "d = pt ! (unat b div PageSize)" "valid d"
    "pb = unat (physicalPage d) * PageSize + unat b mod PageSize" "unat b mod PageSize + s2 \<le> PageSize"
    by (metis option.inject)
  show ?thesis
  proof (cases "physicalPage e = physicalPage d")
    case False
    then have "unat (physicalPage e) \<noteq> unat (physicalPage d)" by (auto dest: unsigned_word_eqI)
    from frames_disjoint [OF this A(6) B(5)] assms(3,4) show ?thesis
      by (auto simp: A(5) B(4) valid_size_def)
  next
    case True
    with assms(2) A B have "unat a div PageSize = unat b div PageSize"
      unfolding frames_injective_def by metis
    then have "unat a = unat b div PageSize * PageSize + unat a mod PageSize"
      "unat b = unat b div PageSize * PageSize + unat b mod PageSize" by (metis div_mult_mod_eq)+
    with assms(7) show ?thesis unfolding A(5) B(4) True by linarith
  qed
qed

section \<open>Properties of the memory interface\<close>

text \<open>C8. On a linear page table \<open>Translate\<close> never fails an assertion, for the three access sizes: it
  raises exactly the exception that the checks of \<open>translate_spec\<close> select, in that order, or
  returns the byte of the page's frame and sets the use and dirty flags of that page only.\<close>

theorem translate_total:
  assumes "page_tables_ok m" "valid_size sz"
  shows "Translate m a sz writing = Some (translate_spec m a sz writing)"
  using assms by (rule Translate_eq_spec)

text \<open>A machine with two pages, backed by frames 5 and 3, on which the properties are instantiated.\<close>

definition sample_entry :: "word32 \<Rightarrow> TranslationEntry" where
  "sample_entry f = \<lparr>virtualPage = 0, physicalPage = f, valid = True, readOnly = False, use_bit = False, dirty = False\<rparr>"

definition sample_machine :: machine where
  "sample_machine = (Machine_new 0 0 False)\<lparr>pageTable := Some [sample_entry 5, sample_entry 3], pageTableSize := 2\<rparr>"

lemma sample_machine_ok: "page_tables_ok sample_machine" "frames_injective sample_machine"
  by (auto simp: page_tables_ok_def frames_injective_def sample_machine_def Machine_new_def sample_entry_def nth_Cons' split: if_splits)

lemma valid_sizes: "valid_size 1" "valid_size 2" "valid_size 4"
  by (simp_all add: valid_size_def)

lemma sample_translate:
  "translate_spec sample_machine 516 4 True = Inr (1540, sample_machine\<lparr>pageTable :=
     Some [sample_entry 5, (sample_entry 3)\<lparr>use_bit := True, dirty := True\<rparr>]\<rparr>)"
  by (simp add: translate_spec_def sample_machine_def sample_entry_def machine_sizes)

lemma sample_write:
  "WriteMem sample_machine 516 4 7 = Some (Inr (sample_machine\<lparr>pageTable :=
     Some [sample_entry 5, (sample_entry 3)\<lparr>use_bit := True, dirty := True\<rparr>],
     mainMemory := stored 1540 4 7 (\<lambda>_. 0)\<rparr>))"
  by (subst WriteMem_spec [OF sample_machine_ok(1) valid_sizes(3)], subst sample_translate)
    (simp add: sample_machine_def Machine_new_def)

theorem translate_total_witness:
  "page_tables_ok sample_machine \<and> valid_size 4
     \<and> Translate sample_machine 516 4 True = Some (translate_spec sample_machine 516 4 True)
     \<and> Translate sample_machine 514 4 True = Some (Inl AddressErrorException)"
  using translate_total [OF sample_machine_ok(1) valid_sizes(3), of 516 True]
    translate_total [OF sample_machine_ok(1) valid_sizes(3), of 514 True]
  by (simp add: sample_machine_ok valid_sizes translate_spec_def)

text \<open>C33. A value written with \<open>WriteMem\<close> is read back by \<open>ReadMem\<close> at the same address and size: words
  unchanged, half words zero-extended and bytes sign-extended; the read changes no byte.\<close>

theorem write_then_read:
  assumes "page_tables_ok m" "valid_size sz" "WriteMem m a sz v = Some (Inr m')"
  shows "\<exists>m''. ReadMem m' a sz = Some (Inr (read_back sz v, m'')) \<and> mainMemory m'' = mainMemory m'"
proof -
  from assms obtain pa m1 where w: "translate_spec m a sz True = Inr (pa, m1)"
    "m' = m1\<lparr>mainMemory := stored pa sz v (mainMemory m)\<rparr>" "same_mapping m m'" "page_tables_ok m'"
    by (rule WriteMem_Inr)
  from translate_spec_again [OF w(3) assms(1) w(1)] obtain m2 where
    t: "translate_spec m' a sz False = Inr (pa, m2)" by blast
  from ReadMem_at [OF w(4) assms(2) t] same_mapping_translate(3) [OF t w(4)] show ?thesis
    using loaded_stored [OF assms(2)] by (simp add: w(2))
qed

theorem write_then_read_witness:
  "\<exists>m' m''. WriteMem sample_machine 516 4 7 = Some (Inr m') \<and> ReadMem m' 516 4 = Some (Inr (7, m''))"
  using write_then_read [OF sample_machine_ok(1) valid_sizes(3) sample_write] sample_write
  by (fastforce simp: read_back_def)

text \<open>C34. A store leaves every other location alone: when the pages are backed by different frames, a
  read of a byte range disjoint from the one just written returns what it returned before.\<close>

theorem write_elsewhere:
  assumes "page_tables_ok m" "frames_injective m" "valid_size s1" "valid_size s2"
    "WriteMem m a s1 v = Some (Inr m')" "ReadMem m b s2 = Some (Inr (x, m0))"
    "unat a + s1 \<le> unat b \<or> unat b + s2 \<le> unat a"
  shows "\<exists>m''. ReadMem m' b s2 = Some (Inr (x, m''))"
proof -
  from assms(1,3,5) obtain pa m1 where w: "translate_spec m a s1 True = Inr (pa, m1)"
    "m' = m1\<lparr>mainMemory := stored pa s1 v (mainMemory m)\<rparr>" "same_mapping m m'" "page_tables_ok m'"
    by (rule WriteMem_Inr)
  from assms(6) obtain pb where r: "translate_spec m b s2 False = Inr (pb, m0)"
    and x: "x = loaded pb s2 (mainMemory m)"
    using same_mapping_translate(3) [OF _ assms(1)]
    by (auto simp: ReadMem_spec [OF assms(1,4)] split: sum.splits prod.splits)
  have d: "pa + s1 \<le> pb \<or> pb + s2 \<le> pa"
    using translate_spec_disjoint [OF assms(1-4) w(1) r assms(7)] .
  from translate_spec_again [OF w(3) assms(1) r] obtain m2 where
    t: "translate_spec m' b s2 False = Inr (pb, m2)" by blast
  have "loaded pb s2 (mainMemory m') = x"
    unfolding x w(2) using d by (auto intro!: loaded_cong [OF assms(4)] stored_outside [OF assms(3)])
  with ReadMem_at [OF w(4) assms(4) t] show ?thesis by auto
qed

theorem write_elsewhere_witness:
  "\<exists>m' m''. WriteMem sample_machine 516 4 7 = Some (Inr m') \<and> ReadMem m' 4 4 = Some (Inr (0, m''))"
proof -
  have "\<exists>m0. ReadMem sample_machine 4 4 = Some (Inr (0, m0))"
    by (subst ReadMem_spec [OF sample_machine_ok(1) valid_sizes(3)])
     (simp add: translate_spec_def loaded_def load32_def
      sample_machine_def sample_entry_def Machine_new_def machine_sizes)
  then obtain m0 where r: "ReadMem sample_machine 4 4 = Some (Inr (0, m0))" ..
  have d: "unat (516 :: word32) + 4 \<le> unat (4 :: word32) \<or> unat (4 :: word32) + 4 \<le> unat (516 :: word32)"
    by simp
  from write_elsewhere [OF sample_machine_ok valid_sizes(3,3) sample_write r d] sample_write
  show ?thesis by blast
qed

end
