(* ===== verification/Mips_Multiply.thy ===== *)
theory Mips_Multiply
  imports Machine
begin

text \<open>
  The multiplier of machine/mipssim.cc (\<^verbatim>\<open>Mult\<close>): a shift-and-add loop over the bits of
  \<open>a\<close> on a double word held in two 32-bit halves, on the absolute values, with the sign restored
  at the end. The main result is that the two halves are the 64-bit product, signed or
  unsigned, for all operands (the most negative number included, whose negation wraps).

  \<^verbatim>\<open>a\<close> is a signed variable, so \<^verbatim>\<open>a >>= 1\<close> is an arithmetic shift; comparisons of \<^verbatim>\<open>lo\<close> and
  \<^verbatim>\<open>bLo\<close> are unsigned.
\<close>

section \<open>The multiplication loop\<close>

fun mult_loop :: "nat \<Rightarrow> word32 \<Rightarrow> word32 \<Rightarrow> word32 \<Rightarrow> word32 \<Rightarrow> word32 \<Rightarrow> word32 \<times> word32" where
  "mult_loop 0 a bLo bHi lo hi = (hi, lo)"
| "mult_loop (Suc n) a bLo bHi lo hi =
     (let lo' = (if a AND 1 \<noteq> 0 then lo + bLo else lo);
          hi' = (if a AND 1 \<noteq> 0 then (if lo' < bLo then hi + 1 else hi) + bHi else hi) in
      if a AND 1 \<noteq> 0 \<and> a AND 0xfffffffe = 0 then (hi', lo')
      else mult_loop n (signed_drop_bit 1 a) (push_bit 1 bLo)
             (if bLo AND 0x80000000 \<noteq> 0 then push_bit 1 bHi OR 1 else push_bit 1 bHi) lo' hi')"

definition Mult :: "word32 \<Rightarrow> word32 \<Rightarrow> bool \<Rightarrow> word32 \<times> word32" where
  "Mult a b signedArith =
     (if a = 0 \<or> b = 0 then (0, 0)
      else
        let negative = (signedArith \<and> (sint a < 0 \<longleftrightarrow> \<not> sint b < 0));
            a' = (if signedArith \<and> sint a < 0 then - a else a);
            b' = (if signedArith \<and> sint b < 0 then - b else b);
            (hi, lo) = mult_loop 32 a' b' 0 0 0 in
        if negative then
          (let lo' = NOT lo + 1 in (if lo' = 0 then NOT hi + 1 else NOT hi, lo'))
        else (hi, lo))"

section \<open>Double words\<close>

text \<open>The 64-bit value of a pair of halves.\<close>

definition dword :: "word32 \<Rightarrow> word32 \<Rightarrow> 64 word" where
  "dword hi lo = word_cat hi lo"

lemma ucast_uint: "ucast (x :: word32) = (of_int (uint x) :: 64 word)"
  by simp

lemma uint32_bound: "uint (x :: word32) < 4294967296"
  using uint_lt2p [of x] by simp

definition high :: "word32 \<Rightarrow> 64 word" where
  "high x = ucast x * 4294967296"

lemma dword_eq: "dword hi lo = high hi + ucast lo"
proof -
  have "dword hi lo = word_of_int (concat_bit 32 (uint lo) (uint hi))"
    unfolding dword_def by (simp add: word_cat_eq')
  also have "concat_bit 32 (uint lo) (uint hi) = uint lo + uint hi * 4294967296"
    by (simp add: concat_bit_eq push_bit_eq_mult take_bit_int_eq_self uint32_bound)
  finally show ?thesis by (simp add: high_def)
qed

lemma high_add: "high (x + y) = high x + high y"
proof -
  have u: "uint (x + y) = uint x + uint y - (if uint x + uint y < 2 ^ 32 then 0 else 4294967296)"
    by (simp add: uint_plus_if_size word_size)
  have "(4294967296 :: 64 word) * 4294967296 = 0" by simp
  then show ?thesis unfolding high_def ucast_uint u of_int_diff of_int_add by (simp add: algebra_simps)
qed

lemma high_consts: "high 0 = 0" "high 1 = 4294967296"
  by (simp_all add: high_def)

lemma high_neg: "high (- x) = - high x"
  using high_add [of x "- x"] by (simp add: high_consts eq_neg_iff_add_eq_0 add.commute)

lemma high_diff: "high (x - y) = high x - high y"
  using high_add [of x "- y"] by (simp add: high_neg)

lemma low_carry: "ucast (x + y :: word32) = (ucast x + ucast y - (if x + y < y then 4294967296 else 0) :: 64 word)"
proof -
  have "uint (x + y) = uint x + uint y - (if x + y < y then 4294967296 else 0)"
    using uint32_bound [of x] uint32_bound [of y] uint_ge_0 [of x] uint_ge_0 [of y]
    by (auto simp: uint_plus_if_size word_size word_less_def split: if_splits)
  then show ?thesis unfolding ucast_uint by simp
qed

lemma dword_add:
  "dword ((if lo + bLo < bLo then hi + 1 else hi) + bHi) (lo + bLo) = dword hi lo + dword bHi bLo"
  by (simp add: dword_eq high_add high_consts low_carry)

lemma sign_bit_iff: "(w AND 0x80000000 = 0) = (\<not> bit (w :: word32) 31)"
  using and_single_iff [of 31 w] by simp

lemma bit_twice: "bit (x * 2) n = (0 < n \<and> n < LENGTH('a) \<and> bit x (n - 1))" for x :: "'a::len word"
  by (metis bit_double_iff mult.commute possible_bit_word neq0_conv)

lemma dword_double:
  "dword (if bLo AND 0x80000000 \<noteq> 0 then push_bit 1 bHi OR 1 else push_bit 1 bHi) (push_bit 1 bLo) =
     2 * dword bHi bLo"
proof (rule bit_word_eqI)
  fix n assume n: "n < LENGTH(64)"
  have sh: "push_bit 1 x = x * 2" for x :: word32 by (simp add: push_bit_eq_mult)
  consider "n = 0" | "0 < n" "n < 32" | "n = 32" | "32 < n" by linarith
  then show "bit (dword (if bLo AND 0x80000000 \<noteq> 0 then push_bit 1 bHi OR 1 else push_bit 1 bHi)
      (push_bit 1 bLo)) n = bit (2 * dword bHi bLo) n"
    using n unfolding sh sign_bit_iff
    by cases (auto simp: dword_def bit_word_cat_iff bit_twice bit_simps mult.commute [of 2])
qed

lemma dword_neg:
  "dword (if NOT lo + 1 = 0 then NOT hi + 1 else NOT hi) (NOT lo + 1) = - dword hi lo"
proof -
  have "(ucast (- lo) :: 64 word) = (if lo = 0 then 0 else 4294967296 - ucast lo)"
    using low_carry [of lo "- lo"] by (simp add: word_neq_0_conv [symmetric]) (simp add: algebra_simps eq_diff_eq)
  moreover have "NOT x = - (x + 1)" for x :: word32 by (simp add: not_eq_complement)
  ultimately show ?thesis by (simp add: dword_eq high_neg high_diff high_consts)
qed

section \<open>The loop computes the product\<close>

lemma take_bit_sshift:
  assumes "Suc n \<le> 32"
  shows "take_bit (Suc n) (uint (a :: word32)) =
    of_bool (bit a 0) + 2 * take_bit n (uint (signed_drop_bit 1 a :: word32))"
proof -
  have "take_bit n (uint (signed_drop_bit 1 a)) = take_bit n (uint a div 2)"
    using assms
    by (intro bit_eqI) (auto simp: bit_simps bit_uint_iff bit_Suc [symmetric] min_def not_le)
  moreover have "uint a mod 2 = of_bool (bit a 0)"
    using bit_uint_iff [of a 0] by (auto simp: bit_0 mod_2_eq_odd)
  ultimately show ?thesis by (simp add: take_bit_Suc mult.commute)
qed

lemma mult_loop_dword:
  assumes "n \<le> 32"
  shows "(case mult_loop n a bLo bHi lo hi of (h, l) \<Rightarrow> dword h l) =
    dword hi lo + of_int (take_bit n (uint a)) * dword bHi bLo"
  using assms
proof (induction n arbitrary: a bLo bHi lo hi)
  case 0
  then show ?case by simp
next
  case (Suc n)
  have b: "(a AND 1 \<noteq> 0) = bit a 0" using and_single_iff [of 0 a] by simp
  show ?case
  proof (cases "a AND 1 \<noteq> 0 \<and> a AND 0xfffffffe = 0")
    case True
    have "(0xfffffffe :: word32) = NOT 1" by simp
    then have "a = (a AND 1) OR (a AND 0xfffffffe)"
      by (simp only:) (rule bit_word_eqI, simp only: bit_simps, auto)
    with True have "a = a AND 1" by simp
    also have "\<dots> = 1" using True by (auto simp: and_one_eq mod_2_eq_odd)
    finally show ?thesis using True by (simp add: dword_add Let_def)
  next
    case False
    note IH = Suc.IH [OF Suc_leD [OF Suc.prems]]
    show ?thesis
      using False dword_add [of lo bLo hi bHi]
      by (simp only: mult_loop.simps Let_def if_False IH dword_double take_bit_sshift [OF Suc.prems] b)
       (auto simp: algebra_simps)
  qed
qed

section \<open>Signed values\<close>

lemma sint32_bounds: "- 2147483648 \<le> sint (x :: word32)" "sint (x :: word32) < 2147483648"
  using sint_greater_eq [of x] sint_less [of x] by simp_all

lemma uint32_sint: "uint (x :: word32) = sint x mod 4294967296"
  using uint_sint [of x] by (simp add: take_bit_eq_mod)

lemma ucast_neg_sint:
  assumes "sint (x :: word32) < 0"
  shows "(ucast (- x) :: 64 word) = - scast x"
proof -
  have "uint (- x) = (- sint x) mod 4294967296"
    by (simp only: uint_word_ariths) (simp add: uint32_sint mod_minus_eq)
  also have "\<dots> = - sint x" using assms sint32_bounds [of x] by simp
  finally show ?thesis unfolding ucast_uint by simp
qed

lemma ucast_pos_sint:
  assumes "0 \<le> sint (x :: word32)"
  shows "(ucast x :: 64 word) = scast x"
proof -
  have "uint x = sint x" using assms sint32_bounds [of x] by (simp add: uint32_sint)
  then show ?thesis unfolding ucast_uint by simp
qed

text \<open>C36. The multiplier is exact: the pair (hi, lo) that \<open>Mult\<close> computes is the full 64-bit product of its
  operands, of their signed values when \<open>signedArith\<close> is set and of their unsigned values otherwise.\<close>

theorem Mult_correct:
  assumes "Mult a b s = (hi, lo)"
  shows "dword hi lo = (if s then scast a * scast b else ucast a * ucast b)"
proof -
  have z: "dword 0 x = ucast x" for x by (simp add: dword_eq high_consts)
  have loop: "(case mult_loop 32 x y 0 0 0 of (h, l) \<Rightarrow> dword h l) = ucast x * ucast y" for x y
    using mult_loop_dword [of 32 x y 0 0 0] by (simp add: z take_bit_int_eq_self uint32_bound)
  obtain h l where hl: "mult_loop 32 (if s \<and> sint a < 0 then - a else a) (if s \<and> sint b < 0 then - b else b) 0 0 0 = (h, l)"
    by force
  from loop [of "if s \<and> sint a < 0 then - a else a" "if s \<and> sint b < 0 then - b else b"] hl
  have "dword h l = ucast (if s \<and> sint a < 0 then - a else a) * ucast (if s \<and> sint b < 0 then - b else b)" by simp
  then show ?thesis
    using assms hl dword_neg [of l h]
    by (auto simp: Mult_def Let_def z ucast_neg_sint ucast_pos_sint not_less split: if_splits)
qed

theorem Mult_correct_witness:
  "Mult 3 0xFFFFFFFE True = (0xFFFFFFFF, 0xFFFFFFFA) \<and> dword 0xFFFFFFFF 0xFFFFFFFA = scast (3 :: word32) * scast (0xFFFFFFFE :: word32)"
proof -
  have m: "Mult 3 0xFFFFFFFE True = (0xFFFFFFFF, 0xFFFFFFFA)" by code_simp
  with Mult_correct [OF m] show ?thesis by simp
qed

end
