(* ===== verification/Mips.thy ===== *)
theory Mips
  imports Mips_Multiply
begin

text \<open>
  machine/mipssim.h and machine/mipssim.cc: decoding and execution of one MIPS instruction, the
  delayed load and the entry into the kernel (\<^verbatim>\<open>RaiseException\<close>, machine/machine.cc).

  The switch of \<^verbatim>\<open>Machine::OneInstruction\<close> is split into one definition per group of
  cases. Each case returns \<open>Continue pcAfter nextLoadReg nextLoadValue m\<close> where the code breaks out
  of the switch and \<open>Trap e badVAddr m\<close> where it calls \<^verbatim>\<open>RaiseException\<close> and returns (for a failed
  \<^verbatim>\<open>ReadMem\<close> or \<^verbatim>\<open>WriteMem\<close> the call is made inside these functions with the faulting address).
  \<open>None\<close> is a failed assertion or an operation without a defined result: a shift by 32 or more,
  \<^verbatim>\<open>INT_MIN / -1\<close>, a delayed load into a register number outside the register file.
\<close>

section \<open>Operation codes and tables\<close>

definition OP_ADD :: nat where "OP_ADD = 1"
definition OP_ADDI :: nat where "OP_ADDI = 2"
definition OP_ADDIU :: nat where "OP_ADDIU = 3"
definition OP_ADDU :: nat where "OP_ADDU = 4"
definition OP_AND :: nat where "OP_AND = 5"
definition OP_ANDI :: nat where "OP_ANDI = 6"
definition OP_BEQ :: nat where "OP_BEQ = 7"
definition OP_BGEZ :: nat where "OP_BGEZ = 8"
definition OP_BGEZAL :: nat where "OP_BGEZAL = 9"
definition OP_BGTZ :: nat where "OP_BGTZ = 10"
definition OP_BLEZ :: nat where "OP_BLEZ = 11"
definition OP_BLTZ :: nat where "OP_BLTZ = 12"
definition OP_BLTZAL :: nat where "OP_BLTZAL = 13"
definition OP_BNE :: nat where "OP_BNE = 14"
definition OP_DIV :: nat where "OP_DIV = 16"
definition OP_DIVU :: nat where "OP_DIVU = 17"
definition OP_J :: nat where "OP_J = 18"
definition OP_JAL :: nat where "OP_JAL = 19"
definition OP_JALR :: nat where "OP_JALR = 20"
definition OP_JR :: nat where "OP_JR = 21"
definition OP_LB :: nat where "OP_LB = 22"
definition OP_LBU :: nat where "OP_LBU = 23"
definition OP_LH :: nat where "OP_LH = 24"
definition OP_LHU :: nat where "OP_LHU = 25"
definition OP_LUI :: nat where "OP_LUI = 26"
definition OP_LW :: nat where "OP_LW = 27"
definition OP_LWL :: nat where "OP_LWL = 28"
definition OP_LWR :: nat where "OP_LWR = 29"
definition OP_MFHI :: nat where "OP_MFHI = 31"
definition OP_MFLO :: nat where "OP_MFLO = 32"
definition OP_MTHI :: nat where "OP_MTHI = 34"
definition OP_MTLO :: nat where "OP_MTLO = 35"
definition OP_MULT :: nat where "OP_MULT = 36"
definition OP_MULTU :: nat where "OP_MULTU = 37"
definition OP_NOR :: nat where "OP_NOR = 38"
definition OP_OR :: nat where "OP_OR = 39"
definition OP_ORI :: nat where "OP_ORI = 40"
definition OP_RFE :: nat where "OP_RFE = 41"
definition OP_SB :: nat where "OP_SB = 42"
definition OP_SH :: nat where "OP_SH = 43"
definition OP_SLL :: nat where "OP_SLL = 44"
definition OP_SLLV :: nat where "OP_SLLV = 45"
definition OP_SLT :: nat where "OP_SLT = 46"
definition OP_SLTI :: nat where "OP_SLTI = 47"
definition OP_SLTIU :: nat where "OP_SLTIU = 48"
definition OP_SLTU :: nat where "OP_SLTU = 49"
definition OP_SRA :: nat where "OP_SRA = 50"
definition OP_SRAV :: nat where "OP_SRAV = 51"
definition OP_SRL :: nat where "OP_SRL = 52"
definition OP_SRLV :: nat where "OP_SRLV = 53"
definition OP_SUB :: nat where "OP_SUB = 54"
definition OP_SUBU :: nat where "OP_SUBU = 55"
definition OP_SW :: nat where "OP_SW = 56"
definition OP_SWL :: nat where "OP_SWL = 57"
definition OP_SWR :: nat where "OP_SWR = 58"
definition OP_XOR :: nat where "OP_XOR = 59"
definition OP_XORI :: nat where "OP_XORI = 60"
definition OP_SYSCALL :: nat where "OP_SYSCALL = 61"
definition OP_UNIMP :: nat where "OP_UNIMP = 62"
definition OP_RES :: nat where "OP_RES = 63"
definition R31 :: nat where "R31 = 31"
definition SPECIAL :: nat where "SPECIAL = 100"
definition BCOND :: nat where "BCOND = 101"
definition IFMT :: nat where "IFMT = 1"
definition JFMT :: nat where "JFMT = 2"
definition RFMT :: nat where "RFMT = 3"

lemmas op_defs =
  OP_ADD_def OP_ADDI_def OP_ADDIU_def OP_ADDU_def OP_AND_def OP_ANDI_def OP_BEQ_def OP_BGEZ_def
  OP_BGEZAL_def OP_BGTZ_def OP_BLEZ_def OP_BLTZ_def OP_BLTZAL_def OP_BNE_def OP_DIV_def
  OP_DIVU_def OP_J_def OP_JAL_def OP_JALR_def OP_JR_def OP_LB_def OP_LBU_def OP_LH_def OP_LHU_def
  OP_LUI_def OP_LW_def OP_LWL_def OP_LWR_def OP_MFHI_def OP_MFLO_def OP_MTHI_def OP_MTLO_def
  OP_MULT_def OP_MULTU_def OP_NOR_def OP_OR_def OP_ORI_def OP_RFE_def OP_SB_def OP_SH_def
  OP_SLL_def OP_SLLV_def OP_SLT_def OP_SLTI_def OP_SLTIU_def OP_SLTU_def OP_SRA_def OP_SRAV_def
  OP_SRL_def OP_SRLV_def OP_SUB_def OP_SUBU_def OP_SW_def OP_SWL_def OP_SWR_def OP_XOR_def
  OP_XORI_def OP_SYSCALL_def OP_UNIMP_def OP_RES_def R31_def SPECIAL_def BCOND_def IFMT_def
  JFMT_def RFMT_def

definition SIGN_BIT :: word32 where "SIGN_BIT = 0x80000000"

definition IndexToAddr :: "word32 \<Rightarrow> word32" where
  "IndexToAddr x = push_bit 2 x"

text \<open>Translated operation code and format, by bits 31:26 of the instruction.\<close>

definition opTable :: "(nat \<times> nat) list" where
  "opTable = [
     (SPECIAL, RFMT), (BCOND, IFMT), (OP_J, JFMT), (OP_JAL, JFMT),
     (OP_BEQ, IFMT), (OP_BNE, IFMT), (OP_BLEZ, IFMT), (OP_BGTZ, IFMT),
     (OP_ADDI, IFMT), (OP_ADDIU, IFMT), (OP_SLTI, IFMT), (OP_SLTIU, IFMT),
     (OP_ANDI, IFMT), (OP_ORI, IFMT), (OP_XORI, IFMT), (OP_LUI, IFMT),
     (OP_UNIMP, IFMT), (OP_UNIMP, IFMT), (OP_UNIMP, IFMT), (OP_UNIMP, IFMT),
     (OP_RES, IFMT), (OP_RES, IFMT), (OP_RES, IFMT), (OP_RES, IFMT),
     (OP_RES, IFMT), (OP_RES, IFMT), (OP_RES, IFMT), (OP_RES, IFMT),
     (OP_RES, IFMT), (OP_RES, IFMT), (OP_RES, IFMT), (OP_RES, IFMT),
     (OP_LB, IFMT), (OP_LH, IFMT), (OP_LWL, IFMT), (OP_LW, IFMT),
     (OP_LBU, IFMT), (OP_LHU, IFMT), (OP_LWR, IFMT), (OP_RES, IFMT),
     (OP_SB, IFMT), (OP_SH, IFMT), (OP_SWL, IFMT), (OP_SW, IFMT),
     (OP_RES, IFMT), (OP_RES, IFMT), (OP_SWR, IFMT), (OP_RES, IFMT),
     (OP_UNIMP, IFMT), (OP_UNIMP, IFMT), (OP_UNIMP, IFMT), (OP_UNIMP, IFMT),
     (OP_RES, IFMT), (OP_RES, IFMT), (OP_RES, IFMT), (OP_RES, IFMT),
     (OP_UNIMP, IFMT), (OP_UNIMP, IFMT), (OP_UNIMP, IFMT), (OP_UNIMP, IFMT),
     (OP_RES, IFMT), (OP_RES, IFMT), (OP_RES, IFMT), (OP_RES, IFMT)]"

text \<open>Operation code of a SPECIAL instruction, by its function field.\<close>

definition specialTable :: "nat list" where
  "specialTable = [
     OP_SLL, OP_RES, OP_SRL, OP_SRA, OP_SLLV, OP_RES, OP_SRLV, OP_SRAV,
     OP_JR, OP_JALR, OP_RES, OP_RES, OP_SYSCALL, OP_UNIMP, OP_RES, OP_RES,
     OP_MFHI, OP_MTHI, OP_MFLO, OP_MTLO, OP_RES, OP_RES, OP_RES, OP_RES,
     OP_MULT, OP_MULTU, OP_DIV, OP_DIVU, OP_RES, OP_RES, OP_RES, OP_RES,
     OP_ADD, OP_ADDU, OP_SUB, OP_SUBU, OP_AND, OP_OR, OP_XOR, OP_NOR,
     OP_RES, OP_RES, OP_SLT, OP_SLTU, OP_RES, OP_RES, OP_RES, OP_RES,
     OP_RES, OP_RES, OP_RES, OP_RES, OP_RES, OP_RES, OP_RES, OP_RES,
     OP_RES, OP_RES, OP_RES, OP_RES, OP_RES, OP_RES, OP_RES, OP_RES]"

record Instruction =
  value_word :: word32
  opCode :: nat
  rs :: nat
  rt :: nat
  rd :: nat
  extra :: word32

definition field :: "word32 \<Rightarrow> nat \<Rightarrow> nat \<Rightarrow> nat" where
  "field v shift width = unat (drop_bit shift v AND mask width)"

definition decode_extra :: "nat \<Rightarrow> word32 \<Rightarrow> word32" where
  "decode_extra fmt v =
     (if fmt = IFMT then
        (let e = v AND 0xffff in if e AND 0x8000 \<noteq> 0 then e OR 0xffff0000 else e)
      else if fmt = RFMT then drop_bit 6 v AND 0x1f
      else v AND 0x3ffffff)"

definition decode_bcond :: "word32 \<Rightarrow> nat" where
  "decode_bcond v =
     (let i = v AND 0x1f0000 in
      if i = 0 then OP_BLTZ
      else if i = 0x10000 then OP_BGEZ
      else if i = 0x100000 then OP_BLTZAL
      else if i = 0x110000 then OP_BGEZAL
      else OP_UNIMP)"

definition Decode :: "word32 \<Rightarrow> Instruction" where
  "Decode v =
     (let (op, fmt) = opTable ! field v 26 6 in
      \<lparr>value_word = v,
       opCode = (if op = SPECIAL then specialTable ! field v 0 6
                 else if op = BCOND then decode_bcond v
                 else op),
       rs = field v 21 5, rt = field v 16 5, rd = field v 11 5,
       extra = decode_extra fmt v\<rparr>)"


section \<open>Execution of the instruction groups\<close>

datatype exec_result =
    Continue word32 nat word32 machine  \<comment> \<open>pcAfter, nextLoadReg, nextLoadValue\<close>
  | Trap ExceptionType word32 machine   \<comment> \<open>cause, badVAddr\<close>

definition reg :: "machine \<Rightarrow> nat \<Rightarrow> word32" where
  "reg m n = registers m n"

definition set_reg :: "nat \<Rightarrow> word32 \<Rightarrow> machine \<Rightarrow> machine" where
  "set_reg n v m = m\<lparr>registers := (registers m)(n := v)\<rparr>"

definition continue_with :: "word32 \<Rightarrow> machine \<Rightarrow> exec_result option" where
  "continue_with pcAfter m = Some (Continue pcAfter 0 0 m)"

text \<open>OP_ADD to OP_ANDI.\<close>

definition exec_add :: "Instruction \<Rightarrow> word32 \<Rightarrow> machine \<Rightarrow> exec_result option" where
  "exec_add i pcAfter m =
     (let a = reg m (rs i); b = reg m (rt i); op = opCode i in
      if op = OP_ADD then
        (let sum = a + b in
         if (a XOR b) AND SIGN_BIT = 0 \<and> (a XOR sum) AND SIGN_BIT \<noteq> 0
         then Some (Trap OverflowException 0 m)
         else continue_with pcAfter (set_reg (rd i) sum m))
      else if op = OP_ADDI then
        (let sum = a + extra i in
         if (a XOR extra i) AND SIGN_BIT = 0 \<and> (extra i XOR sum) AND SIGN_BIT \<noteq> 0
         then Some (Trap OverflowException 0 m)
         else continue_with pcAfter (set_reg (rt i) sum m))
      else if op = OP_ADDIU then continue_with pcAfter (set_reg (rt i) (a + extra i) m)
      else if op = OP_ADDU then continue_with pcAfter (set_reg (rd i) (a + b) m)
      else if op = OP_AND then continue_with pcAfter (set_reg (rd i) (a AND b) m)
      else if op = OP_ANDI then continue_with pcAfter (set_reg (rt i) (a AND (extra i AND 0xffff)) m)
      else None)"

text \<open>
  OP_BEQ to OP_BNE. The two linking branches store the return address first and fall through
  to the test, which reads the register file again.
\<close>

definition exec_branch :: "Instruction \<Rightarrow> word32 \<Rightarrow> machine \<Rightarrow> exec_result option" where
  "exec_branch i pcAfter m =
     (let target = reg m NextPCReg + IndexToAddr (extra i);
          link = set_reg R31 (reg m NextPCReg + 4) m;
          op = opCode i;
          jump = (\<lambda>c m. continue_with (if c then target else pcAfter) m) in
      if op = OP_BEQ then jump (reg m (rs i) = reg m (rt i)) m
      else if op = OP_BGEZAL then jump (reg link (rs i) AND SIGN_BIT = 0) link
      else if op = OP_BGEZ then jump (reg m (rs i) AND SIGN_BIT = 0) m
      else if op = OP_BGTZ then jump (sint (reg m (rs i)) > 0) m
      else if op = OP_BLEZ then jump (sint (reg m (rs i)) \<le> 0) m
      else if op = OP_BLTZAL then jump (reg link (rs i) AND SIGN_BIT \<noteq> 0) link
      else if op = OP_BLTZ then jump (reg m (rs i) AND SIGN_BIT \<noteq> 0) m
      else if op = OP_BNE then jump (reg m (rs i) \<noteq> reg m (rt i)) m
      else None)"

text \<open>OP_DIV and OP_DIVU; C++ division truncates toward zero.\<close>

definition exec_div :: "Instruction \<Rightarrow> word32 \<Rightarrow> machine \<Rightarrow> exec_result option" where
  "exec_div i pcAfter m =
     (let a = reg m (rs i); b = reg m (rt i);
          store = (\<lambda>lo hi. continue_with pcAfter (set_reg HiReg hi (set_reg LoReg lo m))) in
      if opCode i = OP_DIV then
        (if b = 0 then store 0 0
         else if a = 0x80000000 \<and> b = - 1 then None
         else store (word_of_int (sint a sdiv sint b)) (word_of_int (sint a smod sint b)))
      else if opCode i = OP_DIVU then
        (if b = 0 then store 0 0 else store (a div b) (a mod b))
      else None)"

text \<open>OP_JAL to OP_JR.\<close>

definition exec_jump :: "Instruction \<Rightarrow> word32 \<Rightarrow> machine \<Rightarrow> exec_result option" where
  "exec_jump i pcAfter m =
     (let link = reg m NextPCReg + 4;
          dest = (pcAfter AND 0xf0000000) OR IndexToAddr (extra i) in
      if opCode i = OP_JAL then continue_with dest (set_reg R31 link m)
      else if opCode i = OP_J then continue_with dest m
      else if opCode i = OP_JALR then
        (let m' = set_reg (rd i) link m in continue_with (reg m' (rs i)) m')
      else if opCode i = OP_JR then continue_with (reg m (rs i)) m
      else None)"

text \<open>A read that returns to \<^verbatim>\<open>OneInstruction\<close> with the value, or traps.\<close>

definition read_or_trap :: "machine \<Rightarrow> word32 \<Rightarrow> nat \<Rightarrow> (word32 \<Rightarrow> machine \<Rightarrow> exec_result option) \<Rightarrow> exec_result option"
where
  "read_or_trap m addr sz k = do {
     r \<leftarrow> ReadMem m addr sz;
     (case r of Inl e \<Rightarrow> Some (Trap e addr m) | Inr (v, m') \<Rightarrow> k v m') }"

definition write_or_trap :: "machine \<Rightarrow> word32 \<Rightarrow> nat \<Rightarrow> word32 \<Rightarrow> word32 \<Rightarrow> exec_result option" where
  "write_or_trap m addr sz v pcAfter = do {
     r \<leftarrow> WriteMem m addr sz v;
     (case r of Inl e \<Rightarrow> Some (Trap e addr m) | Inr m' \<Rightarrow> continue_with pcAfter m') }"

text \<open>OP_LB to OP_LW: the loads, whose result becomes visible one instruction later.\<close>

definition exec_load :: "Instruction \<Rightarrow> word32 \<Rightarrow> machine \<Rightarrow> exec_result option" where
  "exec_load i pcAfter m =
     (let tmp = reg m (rs i) + extra i; op = opCode i in
      if op = OP_LB \<or> op = OP_LBU then
        read_or_trap m tmp 1 (\<lambda>v m'. Some (Continue pcAfter (rt i)
          (if v AND 0x80 \<noteq> 0 \<and> op = OP_LB then v OR 0xffffff00 else v AND 0xff) m'))
      else if op = OP_LH \<or> op = OP_LHU then
        (if tmp AND 1 \<noteq> 0 then Some (Trap AddressErrorException tmp m)
         else read_or_trap m tmp 2 (\<lambda>v m'. Some (Continue pcAfter (rt i)
           (if v AND 0x8000 \<noteq> 0 \<and> op = OP_LH then v OR 0xffff0000 else v AND 0xffff) m')))
      else if op = OP_LUI then continue_with pcAfter (set_reg (rt i) (push_bit 16 (extra i)) m)
      else if op = OP_LW then
        (if tmp AND 3 \<noteq> 0 then Some (Trap AddressErrorException tmp m)
         else read_or_trap m tmp 4 (\<lambda>v m'. Some (Continue pcAfter (rt i) v m')))
      else None)"

text \<open>
  OP_LWL and OP_LWR. The assertion restricts them to aligned addresses; the merge is the
  switch on the two low address bits, right shifts of the signed \<^verbatim>\<open>value\<close> being masked.
\<close>

definition merge_lwl :: "word32 \<Rightarrow> word32 \<Rightarrow> word32 \<Rightarrow> word32" where
  "merge_lwl low old v =
     (if low = 0 then v
      else if low = 1 then (old AND 0xff) OR push_bit 8 v
      else if low = 2 then (old AND 0xffff) OR push_bit 16 v
      else (old AND 0xffffff) OR push_bit 24 v)"

definition merge_lwr :: "word32 \<Rightarrow> word32 \<Rightarrow> word32 \<Rightarrow> word32" where
  "merge_lwr low old v =
     (if low = 0 then (old AND 0xffffff00) OR (signed_drop_bit 24 v AND 0xff)
      else if low = 1 then (old AND 0xffff0000) OR (signed_drop_bit 16 v AND 0xffff)
      else if low = 2 then (old AND 0xff000000) OR (signed_drop_bit 8 v AND 0xffffff)
      else v)"

definition exec_load_unaligned :: "Instruction \<Rightarrow> word32 \<Rightarrow> machine \<Rightarrow> exec_result option" where
  "exec_load_unaligned i pcAfter m =
     (let tmp = reg m (rs i) + extra i in do {
        ASSERT (tmp AND 3 = 0);
        read_or_trap m tmp 4 (\<lambda>v m'.
          let old = (if reg m' LoadReg = of_nat (rt i) then reg m' LoadValueReg else reg m' (rt i)) in
          if opCode i = OP_LWL then Some (Continue pcAfter (rt i) (merge_lwl (tmp AND 3) old v) m')
          else if opCode i = OP_LWR then Some (Continue pcAfter (rt i) (merge_lwr (tmp AND 3) old v) m')
          else None) })"

text \<open>OP_MFHI to OP_MULTU.\<close>

definition exec_hilo :: "Instruction \<Rightarrow> word32 \<Rightarrow> machine \<Rightarrow> exec_result option" where
  "exec_hilo i pcAfter m =
     (let op = opCode i;
          mult = (\<lambda>sg. let (hi, lo) = Mult (reg m (rs i)) (reg m (rt i)) sg in
                  continue_with pcAfter (set_reg LoReg lo (set_reg HiReg hi m))) in
      if op = OP_MFHI then continue_with pcAfter (set_reg (rd i) (reg m HiReg) m)
      else if op = OP_MFLO then continue_with pcAfter (set_reg (rd i) (reg m LoReg) m)
      else if op = OP_MTHI then continue_with pcAfter (set_reg HiReg (reg m (rs i)) m)
      else if op = OP_MTLO then continue_with pcAfter (set_reg LoReg (reg m (rs i)) m)
      else if op = OP_MULT then mult True
      else if op = OP_MULTU then mult False
      else None)"

text \<open>OP_NOR, OP_OR, OP_ORI, OP_XOR and OP_XORI. OP_OR reads \<open>rs\<close> twice, as the code does.\<close>

definition exec_logic :: "Instruction \<Rightarrow> word32 \<Rightarrow> machine \<Rightarrow> exec_result option" where
  "exec_logic i pcAfter m =
     (let a = reg m (rs i); b = reg m (rt i); op = opCode i in
      if op = OP_NOR then continue_with pcAfter (set_reg (rd i) (NOT (a OR b)) m)
      else if op = OP_OR then continue_with pcAfter (set_reg (rd i) (a OR a) m)
      else if op = OP_ORI then continue_with pcAfter (set_reg (rt i) (a OR (extra i AND 0xffff)) m)
      else if op = OP_XOR then continue_with pcAfter (set_reg (rd i) (a XOR b) m)
      else if op = OP_XORI then continue_with pcAfter (set_reg (rt i) (a XOR (extra i AND 0xffff)) m)
      else None)"

text \<open>OP_SB, OP_SH and OP_SW.\<close>

definition exec_store :: "Instruction \<Rightarrow> word32 \<Rightarrow> machine \<Rightarrow> exec_result option" where
  "exec_store i pcAfter m =
     (let addr = reg m (rs i) + extra i; v = reg m (rt i); op = opCode i in
      if op = OP_SB then write_or_trap m addr 1 v pcAfter
      else if op = OP_SH then write_or_trap m addr 2 v pcAfter
      else if op = OP_SW then write_or_trap m addr 4 v pcAfter
      else None)"

text \<open>
  OP_SLL, OP_SLLV and the right shifts. OP_SRL and OP_SRLV shift the signed variable \<^verbatim>\<open>tmp\<close>,
  so they too are arithmetic shifts.
\<close>

definition exec_shift :: "Instruction \<Rightarrow> word32 \<Rightarrow> machine \<Rightarrow> exec_result option" where
  "exec_shift i pcAfter m =
     (let b = reg m (rt i); op = opCode i;
          sh = unat (extra i); shv = unat (reg m (rs i) AND 0x1f);
          put = (\<lambda>v. continue_with pcAfter (set_reg (rd i) v m)) in
      if op = OP_SLLV then put (push_bit shv b)
      else if op = OP_SRAV then put (signed_drop_bit shv b)
      else if op = OP_SRLV then put (signed_drop_bit shv b)
      else if sh \<ge> 32 then None
      else if op = OP_SLL then put (push_bit sh b)
      else if op = OP_SRA then put (signed_drop_bit sh b)
      else if op = OP_SRL then put (signed_drop_bit sh b)
      else None)"

text \<open>OP_SLT to OP_SLTU: signed and unsigned comparisons.\<close>

definition exec_set_less :: "Instruction \<Rightarrow> word32 \<Rightarrow> machine \<Rightarrow> exec_result option" where
  "exec_set_less i pcAfter m =
     (let a = reg m (rs i); b = reg m (rt i); op = opCode i;
          put = (\<lambda>r c. continue_with pcAfter (set_reg r (if c then 1 else 0) m)) in
      if op = OP_SLT then put (rd i) (sint a < sint b)
      else if op = OP_SLTI then put (rt i) (sint a < sint (extra i))
      else if op = OP_SLTIU then put (rt i) (a < extra i)
      else if op = OP_SLTU then put (rd i) (a < b)
      else None)"

text \<open>OP_SUB and OP_SUBU.\<close>

definition exec_sub :: "Instruction \<Rightarrow> word32 \<Rightarrow> machine \<Rightarrow> exec_result option" where
  "exec_sub i pcAfter m =
     (let a = reg m (rs i); b = reg m (rt i); diff = a - b in
      if opCode i = OP_SUB then
        (if (a XOR b) AND SIGN_BIT \<noteq> 0 \<and> (a XOR diff) AND SIGN_BIT \<noteq> 0
         then Some (Trap OverflowException 0 m)
         else continue_with pcAfter (set_reg (rd i) diff m))
      else if opCode i = OP_SUBU then continue_with pcAfter (set_reg (rd i) diff m)
      else None)"

text \<open>OP_SWL and OP_SWR: read the aligned word, merge, write it back.\<close>

definition merge_swl :: "word32 \<Rightarrow> word32 \<Rightarrow> word32 \<Rightarrow> word32" where
  "merge_swl low v r =
     (if low = 0 then r
      else if low = 1 then (v AND 0xff000000) OR (signed_drop_bit 8 r AND 0xffffff)
      else if low = 2 then (v AND 0xffff0000) OR (signed_drop_bit 16 r AND 0xffff)
      else (v AND 0xffffff00) OR (signed_drop_bit 24 r AND 0xff))"

definition merge_swr :: "word32 \<Rightarrow> word32 \<Rightarrow> word32 \<Rightarrow> word32" where
  "merge_swr low v r =
     (if low = 0 then (v AND 0xffffff) OR push_bit 24 r
      else if low = 1 then (v AND 0xffff) OR push_bit 16 r
      else if low = 2 then (v AND 0xff) OR push_bit 8 r
      else r)"

definition exec_store_unaligned :: "Instruction \<Rightarrow> word32 \<Rightarrow> machine \<Rightarrow> exec_result option" where
  "exec_store_unaligned i pcAfter m =
     (let tmp = reg m (rs i) + extra i; addr = tmp AND NOT 3 in do {
        ASSERT (tmp AND 3 = 0);
        read_or_trap m addr 4 (\<lambda>v m'.
          if opCode i = OP_SWL then
            write_or_trap m' addr 4 (merge_swl (tmp AND 3) v (reg m' (rt i))) pcAfter
          else if opCode i = OP_SWR then
            write_or_trap m' addr 4 (merge_swr (tmp AND 3) v (reg m' (rt i))) pcAfter
          else None) })"

text \<open>OP_SYSCALL, OP_RES and OP_UNIMP.\<close>

definition exec_trap :: "Instruction \<Rightarrow> machine \<Rightarrow> exec_result option" where
  "exec_trap i m =
     (if opCode i = OP_SYSCALL then Some (Trap SyscallException 0 m)
      else if opCode i = OP_RES \<or> opCode i = OP_UNIMP then Some (Trap IllegalInstrException 0 m)
      else None)"


section \<open>One instruction\<close>

text \<open>The switch. An operation code that has no case is the \<open>default\<close> branch, a failed assertion.\<close>

definition add_ops :: "nat list" where
  "add_ops = [OP_ADD, OP_ADDI, OP_ADDIU, OP_ADDU, OP_AND, OP_ANDI]"
definition branch_ops :: "nat list" where
  "branch_ops = [OP_BEQ, OP_BGEZAL, OP_BGEZ, OP_BGTZ, OP_BLEZ, OP_BLTZAL, OP_BLTZ, OP_BNE]"
definition jump_ops :: "nat list" where
  "jump_ops = [OP_JAL, OP_J, OP_JALR, OP_JR]"
definition load_ops :: "nat list" where
  "load_ops = [OP_LB, OP_LBU, OP_LH, OP_LHU, OP_LUI, OP_LW]"
definition hilo_ops :: "nat list" where
  "hilo_ops = [OP_MFHI, OP_MFLO, OP_MTHI, OP_MTLO, OP_MULT, OP_MULTU]"
definition logic_ops :: "nat list" where
  "logic_ops = [OP_NOR, OP_OR, OP_ORI, OP_XOR, OP_XORI]"
definition shift_ops :: "nat list" where
  "shift_ops = [OP_SLL, OP_SLLV, OP_SRA, OP_SRAV, OP_SRL, OP_SRLV]"
definition set_less_ops :: "nat list" where
  "set_less_ops = [OP_SLT, OP_SLTI, OP_SLTIU, OP_SLTU]"

lemmas op_groups = add_ops_def branch_ops_def jump_ops_def load_ops_def hilo_ops_def logic_ops_def
  shift_ops_def set_less_ops_def

definition execute :: "Instruction \<Rightarrow> word32 \<Rightarrow> machine \<Rightarrow> exec_result option" where
  "execute i pcAfter m =
     (let op = opCode i in
      if op \<in> set add_ops then exec_add i pcAfter m
      else if op \<in> set branch_ops then exec_branch i pcAfter m
      else if op = OP_DIV \<or> op = OP_DIVU then exec_div i pcAfter m
      else if op \<in> set jump_ops then exec_jump i pcAfter m
      else if op \<in> set load_ops then exec_load i pcAfter m
      else if op = OP_LWL \<or> op = OP_LWR then exec_load_unaligned i pcAfter m
      else if op \<in> set hilo_ops then exec_hilo i pcAfter m
      else if op \<in> set logic_ops then exec_logic i pcAfter m
      else if op = OP_SB \<or> op = OP_SH \<or> op = OP_SW then exec_store i pcAfter m
      else if op \<in> set shift_ops then exec_shift i pcAfter m
      else if op \<in> set set_less_ops then exec_set_less i pcAfter m
      else if op = OP_SUB \<or> op = OP_SUBU then exec_sub i pcAfter m
      else if op = OP_SWL \<or> op = OP_SWR then exec_store_unaligned i pcAfter m
      else exec_trap i m)"

definition DelayedLoad :: "nat \<Rightarrow> word32 \<Rightarrow> machine \<Rightarrow> machine option" where
  "DelayedLoad nextReg nextValue m = do {
     ASSERT (unat (reg m LoadReg) < NumTotalRegs);
     let m1 = set_reg (unat (reg m LoadReg)) (reg m LoadValueReg) m;
     let m2 = set_reg LoadReg (of_nat nextReg) m1;
     let m3 = set_reg LoadValueReg nextValue m2;
     Some (set_reg 0 0 m3) }"

text \<open>
  \<open>step_instruction\<close> is \<^verbatim>\<open>OneInstruction\<close> up to the point where it either has advanced the
  program counters (\<open>Inr\<close>) or calls \<^verbatim>\<open>RaiseException\<close> (\<open>Inl\<close>); \<open>OneInstruction\<close> makes that call.
\<close>

definition advance_pc :: "word32 \<Rightarrow> machine \<Rightarrow> machine" where
  "advance_pc pcAfter m =
     (let m1 = set_reg PrevPCReg (reg m PCReg) m;
          m2 = set_reg PCReg (reg m1 NextPCReg) m1 in
      set_reg NextPCReg pcAfter m2)"

definition step_instruction :: "machine \<Rightarrow> ((ExceptionType \<times> word32 \<times> machine) + machine) option" where
  "step_instruction m = do {
     fetch \<leftarrow> ReadMem m (reg m PCReg) 4;
     (case fetch of
        Inl e \<Rightarrow> Some (Inl (e, reg m PCReg, m))
      | Inr (raw, m1) \<Rightarrow> do {
          res \<leftarrow> execute (Decode raw) (reg m1 NextPCReg + 4) m1;
          (case res of
             Trap e bad m2 \<Rightarrow> Some (Inl (e, bad, m2))
           | Continue pcAfter nextLoadReg nextLoadValue m2 \<Rightarrow> do {
               m3 \<leftarrow> DelayedLoad nextLoadReg nextLoadValue m2;
               Some (Inr (advance_pc pcAfter m3)) }) }) }"

text \<open>
  \<^verbatim>\<open>RaiseException\<close> hands the machine and the kernel state \<open>'k\<close> to the exception handler, between
  two changes of the interrupt status; both are given by the theories of the kernel.
\<close>

datatype MachineStatus = IdleMode | SystemMode | UserMode

definition RaiseException ::
    "(MachineStatus \<Rightarrow> 'k \<Rightarrow> 'k) \<Rightarrow> (ExceptionType \<Rightarrow> machine \<times> 'k \<Rightarrow> (machine \<times> 'k) option)
     \<Rightarrow> ExceptionType \<Rightarrow> word32 \<Rightarrow> machine \<times> 'k \<Rightarrow> (machine \<times> 'k) option" where
  "RaiseException setStatus ExceptionHandler which badVAddr mk = do {
     let (m, k) = mk;
     m1 \<leftarrow> DelayedLoad 0 0 (set_reg BadVAddrReg badVAddr m);
     (m2, k2) \<leftarrow> ExceptionHandler which (m1, setStatus SystemMode k);
     Some (m2, setStatus UserMode k2) }"

definition OneInstruction ::
    "(MachineStatus \<Rightarrow> 'k \<Rightarrow> 'k) \<Rightarrow> (ExceptionType \<Rightarrow> machine \<times> 'k \<Rightarrow> (machine \<times> 'k) option)
     \<Rightarrow> machine \<times> 'k \<Rightarrow> (machine \<times> 'k) option" where
  "OneInstruction setStatus ExceptionHandler mk = do {
     r \<leftarrow> step_instruction (fst mk);
     (case r of
        Inl (e, bad, m) \<Rightarrow> RaiseException setStatus ExceptionHandler e bad (m, snd mk)
      | Inr m \<Rightarrow> Some (m, snd mk)) }"

end
