(* ===== verification/Mips_Correct.thy ===== *)
theory Mips_Correct
  imports Mips
begin

text \<open>
  Correctness of the instruction simulator: decoding always selects a case of the switch,
  the register file keeps its invariant, exceptions are precise, arithmetic traps exactly on signed
  overflow, loads become visible one instruction later.
\<close>

section \<open>Decoding\<close>

lemma field_less: "field v s w < 2 ^ w"
proof -
  have "unat (drop_bit s v AND mask w) = take_bit w (unat (drop_bit s v))"
    by (simp add: take_bit_eq_mask [symmetric] unsigned_take_bit_eq)
  then show ?thesis by (simp add: field_def)
qed

definition case_ops :: "nat list" where
  "case_ops = add_ops @ branch_ops @ [OP_DIV, OP_DIVU] @ jump_ops @ load_ops @ [OP_LWL, OP_LWR] @ hilo_ops
     @ logic_ops @ [OP_SB, OP_SH, OP_SW] @ shift_ops @ set_less_ops @ [OP_SUB, OP_SUBU] @ [OP_SWL, OP_SWR]
     @ [OP_SYSCALL, OP_RES, OP_UNIMP]"

lemma specialTable_ops: "n < 64 \<Longrightarrow> specialTable ! n \<in> set case_ops"
proof -
  assume "n < 64"
  moreover have "length specialTable = 64" by (simp add: specialTable_def)
  moreover have "set specialTable \<subseteq> set case_ops"
    by (simp add: specialTable_def case_ops_def op_groups)
  ultimately show ?thesis by (metis nth_mem subsetD)
qed

lemma opTable_length: "length opTable = 64"
  by (simp add: opTable_def)

text \<open>Only SPECIAL instructions have the register format, and the shifts with a constant are SPECIAL.\<close>

lemma opTable_entry:
  assumes "n < 64"
  shows "fst (opTable ! n) \<in> set case_ops - set shift_ops \<or> opTable ! n = (SPECIAL, RFMT) \<or> fst (opTable ! n) = BCOND"
proof -
  have "\<forall>e \<in> set opTable. fst e \<in> set case_ops - set shift_ops \<or> e = (SPECIAL, RFMT) \<or> fst e = BCOND"
    by (simp add: opTable_def case_ops_def op_groups op_defs)
  with assms show ?thesis by (metis nth_mem opTable_length)
qed

definition wf_instruction :: "Instruction \<Rightarrow> bool" where
  "wf_instruction i \<longleftrightarrow> rs i < 32 \<and> rt i < 32 \<and> rd i < 32 \<and> opCode i \<in> set case_ops
     \<and> (opCode i \<in> set shift_ops \<longrightarrow> unat (extra i) < 32)"

lemma decode_bcond_ops: "decode_bcond v \<in> set case_ops - set shift_ops"
  by (simp add: decode_bcond_def Let_def case_ops_def op_groups op_defs)

lemma special_bcond_not_case: "SPECIAL \<notin> set case_ops" "BCOND \<notin> set case_ops" "SPECIAL \<noteq> BCOND" "RFMT \<noteq> IFMT"
  by (simp_all add: case_ops_def op_groups op_defs)

lemma extra_RFMT: "unat (decode_extra RFMT v) < 32"
proof -
  have "decode_extra RFMT v = drop_bit 6 v AND mask 5"
    by (simp add: decode_extra_def special_bcond_not_case mask_eq_exp_minus_1)
  moreover have "field v 6 5 < 2 ^ 5" by (rule field_less)
  ultimately show ?thesis by (simp add: field_def)
qed

lemma Decode_wf: "wf_instruction (Decode v)"
proof -
  obtain op fmt where e: "opTable ! field v 26 6 = (op, fmt)" by force
  have "field v 26 6 < 64" using field_less [of v 26 6] by simp
  from opTable_entry [OF this] e
  consider "op \<in> set case_ops - set shift_ops" | "op = SPECIAL" "fmt = RFMT" | "op = BCOND" by auto
  then have "opCode (Decode v) \<in> set case_ops
      \<and> (opCode (Decode v) \<in> set shift_ops \<longrightarrow> unat (extra (Decode v)) < 32)"
  proof cases
    case 1
    then show ?thesis using e special_bcond_not_case by (auto simp: Decode_def)
  next
    case 2
    have "field v 0 6 < 64" using field_less [of v 0 6] by simp
    with 2 show ?thesis using e by (simp add: Decode_def specialTable_ops extra_RFMT)
  next
    case 3
    then show ?thesis using e special_bcond_not_case decode_bcond_ops by (simp add: Decode_def)
  qed
  moreover have "rs (Decode v) < 32" "rt (Decode v) < 32" "rd (Decode v) < 32"
    using field_less [of v _ 5] e by (simp_all add: Decode_def)
  ultimately show ?thesis by (simp add: wf_instruction_def)
qed


section \<open>What one instruction may change\<close>

text \<open>
  A completed instruction leaves the registers above \<open>LoReg\<close> to \<^verbatim>\<open>OneInstruction\<close> and names a general
  register for its delayed load; a trapping one has changed neither registers nor memory.
\<close>

fun exec_ok :: "machine \<Rightarrow> exec_result \<Rightarrow> bool" where
  "exec_ok m (Continue p r v m') \<longleftrightarrow> r < 32 \<and> (\<forall>n \<ge> 34. registers m' n = registers m n) \<and> page_tables_ok m'"
| "exec_ok m (Trap e bad m') \<longleftrightarrow> registers m' = registers m \<and> mainMemory m' = mainMemory m \<and> page_tables_ok m'"

lemma set_reg_simps [simp]:
  "registers (set_reg n v m) k = (if k = n then v else registers m k)"
  "mainMemory (set_reg n v m) = mainMemory m" "pageTable (set_reg n v m) = pageTable m"
  "tlb (set_reg n v m) = tlb m" "pageTableSize (set_reg n v m) = pageTableSize m"
  "page_tables_ok (set_reg n v m) = page_tables_ok m"
  by (simp_all add: set_reg_def page_tables_ok_def)

lemma exec_ok_set_reg:
  "n < 34 \<Longrightarrow> exec_ok m (Continue p r v (set_reg n w m')) = exec_ok m (Continue p r v m')"
  by auto

lemma exec_ok_refl:
  "page_tables_ok m \<Longrightarrow> r < 32 \<Longrightarrow> exec_ok m (Continue p r v m)" "page_tables_ok m \<Longrightarrow> exec_ok m (Trap e b m)"
  by simp_all

lemma exec_ok_mapping:
  assumes "page_tables_ok m'" "registers m' = registers m" "r < 32"
  shows "exec_ok m (Continue p r v m')"
  using assms by simp

declare exec_ok.simps [simp del]

lemmas exec_ok_rules = exec_ok_set_reg exec_ok_refl reg_defs R31_def

lemma exec_add_ok:
  assumes "wf_instruction i" "page_tables_ok m" "opCode i \<in> set add_ops"
  shows "\<exists>r. exec_add i pc m = Some r \<and> exec_ok m r"
  using assms unfolding wf_instruction_def add_ops_def
  by (auto simp: exec_add_def Let_def continue_with_def exec_ok_rules op_defs)

lemma exec_branch_ok:
  assumes "wf_instruction i" "page_tables_ok m" "opCode i \<in> set branch_ops"
  shows "\<exists>r. exec_branch i pc m = Some r \<and> exec_ok m r"
  using assms unfolding wf_instruction_def branch_ops_def
  by (auto simp: exec_branch_def Let_def continue_with_def exec_ok_rules op_defs)

lemma exec_jump_ok:
  assumes "wf_instruction i" "page_tables_ok m" "opCode i \<in> set jump_ops"
  shows "\<exists>r. exec_jump i pc m = Some r \<and> exec_ok m r"
  using assms unfolding wf_instruction_def jump_ops_def
  by (auto simp: exec_jump_def Let_def continue_with_def exec_ok_rules op_defs)

lemma exec_hilo_ok:
  assumes "wf_instruction i" "page_tables_ok m" "opCode i \<in> set hilo_ops"
  shows "\<exists>r. exec_hilo i pc m = Some r \<and> exec_ok m r"
  using assms unfolding wf_instruction_def hilo_ops_def
  by (auto simp: exec_hilo_def Let_def continue_with_def exec_ok_rules op_defs split: prod.split)

lemma exec_logic_ok:
  assumes "wf_instruction i" "page_tables_ok m" "opCode i \<in> set logic_ops"
  shows "\<exists>r. exec_logic i pc m = Some r \<and> exec_ok m r"
  using assms unfolding wf_instruction_def logic_ops_def
  by (auto simp: exec_logic_def Let_def continue_with_def exec_ok_rules op_defs)

lemma exec_shift_ok:
  assumes "wf_instruction i" "page_tables_ok m" "opCode i \<in> set shift_ops"
  shows "\<exists>r. exec_shift i pc m = Some r \<and> exec_ok m r"
  using assms unfolding wf_instruction_def shift_ops_def
  by (auto simp: exec_shift_def Let_def continue_with_def exec_ok_rules op_defs)

lemma exec_set_less_ok:
  assumes "wf_instruction i" "page_tables_ok m" "opCode i \<in> set set_less_ops"
  shows "\<exists>r. exec_set_less i pc m = Some r \<and> exec_ok m r"
  using assms unfolding wf_instruction_def set_less_ops_def
  by (auto simp: exec_set_less_def Let_def continue_with_def exec_ok_rules op_defs)

lemma exec_sub_ok:
  assumes "wf_instruction i" "page_tables_ok m" "opCode i = OP_SUB \<or> opCode i = OP_SUBU"
  shows "\<exists>r. exec_sub i pc m = Some r \<and> exec_ok m r"
  using assms unfolding wf_instruction_def
  by (auto simp: exec_sub_def Let_def continue_with_def exec_ok_rules op_defs)

lemma exec_trap_ok:
  assumes "page_tables_ok m" "opCode i \<in> {OP_SYSCALL, OP_RES, OP_UNIMP}"
  shows "\<exists>r. exec_trap i m = Some r \<and> exec_ok m r"
  using assms by (auto simp: exec_trap_def exec_ok_rules op_defs)

text \<open>The one division that has no result.\<close>

definition div_overflow :: "Instruction \<Rightarrow> machine \<Rightarrow> bool" where
  "div_overflow i m \<longleftrightarrow> opCode i = OP_DIV \<and> reg m (rs i) = 0x80000000 \<and> reg m (rt i) = - 1"

lemma exec_div_ok:
  assumes "wf_instruction i" "page_tables_ok m" "opCode i = OP_DIV \<or> opCode i = OP_DIVU" "\<not> div_overflow i m"
  shows "\<exists>r. exec_div i pc m = Some r \<and> exec_ok m r"
  using assms unfolding wf_instruction_def div_overflow_def
  by (auto simp: exec_div_def Let_def continue_with_def exec_ok_rules op_defs)

section \<open>Loads and stores\<close>

lemma read_or_trap_ok:
  assumes "page_tables_ok m" "valid_size sz"
    and k: "\<And>v m'. page_tables_ok m' \<Longrightarrow> registers m' = registers m \<Longrightarrow> mainMemory m' = mainMemory m \<Longrightarrow>
      \<exists>r. k v m' = Some r \<and> exec_ok m r"
  shows "\<exists>r. read_or_trap m a sz k = Some r \<and> exec_ok m r"
proof (cases "translate_spec m a sz False")
  case (Inl e)
  then show ?thesis
    by (simp add: read_or_trap_def ReadMem_spec [OF assms(1,2)] exec_ok_refl assms(1))
next
  case (Inr r)
  obtain pa m' where r: "r = (pa, m')" by force
  note t = Inr [unfolded r]
  from same_mapping_translate [OF t assms(1)] have "page_tables_ok m'" "registers m' = registers m"
    "mainMemory m' = mainMemory m" by (auto simp: same_mapping_def page_tables_ok_def)
  with k show ?thesis by (simp add: read_or_trap_def ReadMem_at [OF assms(1,2) t])
qed

lemma write_or_trap_ok:
  assumes "page_tables_ok m'" "valid_size sz" "registers m' = registers m" "mainMemory m' = mainMemory m"
  shows "\<exists>r. write_or_trap m' a sz v pc = Some r \<and> exec_ok m r"
proof (cases "translate_spec m' a sz True")
  case (Inl e)
  then show ?thesis using assms(3,4)
    by (simp add: write_or_trap_def WriteMem_spec [OF assms(1,2)] assms(1) exec_ok.simps)
next
  case (Inr r)
  obtain pa m2 where r: "r = (pa, m2)" by force
  note t = Inr [unfolded r]
  from same_mapping_translate [OF t assms(1)] have "registers m2 = registers m"
    "page_tables_ok (m2\<lparr>mainMemory := stored pa sz v (mainMemory m2)\<rparr>)"
    using assms(3) by (auto simp: same_mapping_def)
  then show ?thesis
    by (simp add: write_or_trap_def WriteMem_spec [OF assms(1,2)] t continue_with_def exec_ok_mapping)
qed

lemma exec_load_ok:
  assumes "wf_instruction i" "page_tables_ok m" "opCode i \<in> set load_ops"
  shows "\<exists>r. exec_load i pc m = Some r \<and> exec_ok m r"
proof -
  have 1: "\<exists>r. read_or_trap m a sz (\<lambda>v m'. Some (Continue pc (rt i) (f v) m')) = Some r \<and> exec_ok m r"
    if "valid_size sz" for a sz f
    using assms by (intro read_or_trap_ok) (auto simp: wf_instruction_def exec_ok_mapping that)
  have "exec_ok m (Continue pc 0 0 (set_reg (rt i) w m))" for w
    using assms by (auto simp: wf_instruction_def exec_ok_rules)
  then show ?thesis
    using assms(2,3) 1 [OF valid_sizes(1)] 1 [OF valid_sizes(2)] 1 [OF valid_sizes(3)]
    by (auto simp: exec_load_def Let_def load_ops_def continue_with_def exec_ok_refl)
qed

lemma exec_store_ok:
  assumes "page_tables_ok m" "opCode i = OP_SB \<or> opCode i = OP_SH \<or> opCode i = OP_SW"
  shows "\<exists>r. exec_store i pc m = Some r \<and> exec_ok m r"
  using assms write_or_trap_ok [OF assms(1)] valid_sizes by (auto simp: exec_store_def Let_def)

text \<open>The four instructions for unaligned words are only simulated at aligned addresses.\<close>

definition unaligned_access :: "Instruction \<Rightarrow> machine \<Rightarrow> bool" where
  "unaligned_access i m \<longleftrightarrow> opCode i \<in> {OP_LWL, OP_LWR, OP_SWL, OP_SWR} \<and> (reg m (rs i) + extra i) AND 3 \<noteq> 0"

lemma exec_load_unaligned_ok:
  assumes "wf_instruction i" "page_tables_ok m" "opCode i = OP_LWL \<or> opCode i = OP_LWR" "\<not> unaligned_access i m"
  shows "\<exists>r. exec_load_unaligned i pc m = Some r \<and> exec_ok m r"
  using assms unfolding exec_load_unaligned_def Let_def
  by (auto simp: unaligned_access_def wf_instruction_def intro!: read_or_trap_ok valid_sizes exec_ok_mapping)

lemma exec_store_unaligned_ok:
  assumes "page_tables_ok m" "opCode i = OP_SWL \<or> opCode i = OP_SWR" "\<not> unaligned_access i m"
  shows "\<exists>r. exec_store_unaligned i pc m = Some r \<and> exec_ok m r"
  using assms unfolding exec_store_unaligned_def Let_def
  by (auto simp: unaligned_access_def intro!: read_or_trap_ok write_or_trap_ok valid_sizes)

lemma execute_ok:
  assumes "wf_instruction i" "page_tables_ok m" "\<not> div_overflow i m" "\<not> unaligned_access i m"
  shows "\<exists>r. execute i pc m = Some r \<and> exec_ok m r"
proof -
  have ops: "opCode i \<in> set case_ops" using assms(1) by (simp add: wf_instruction_def)
  show ?thesis
    unfolding execute_def Let_def
    using exec_add_ok [OF assms(1,2)] exec_branch_ok [OF assms(1,2)] exec_div_ok [OF assms(1,2) _ assms(3)]
      exec_jump_ok [OF assms(1,2)] exec_load_ok [OF assms(1,2)] exec_load_unaligned_ok [OF assms(1,2) _ assms(4)]
      exec_hilo_ok [OF assms(1,2)] exec_logic_ok [OF assms(1,2)] exec_store_ok [OF assms(2)]
      exec_shift_ok [OF assms(1,2)] exec_set_less_ok [OF assms(1,2)] exec_sub_ok [OF assms(1,2)]
      exec_store_unaligned_ok [OF assms(2) _ assms(4)] exec_trap_ok [OF assms(2)] ops
    by (auto simp: case_ops_def split del: if_split split: if_splits)
qed

lemma execute_undefined:
  "div_overflow i m \<Longrightarrow> execute i pc m = None" "unaligned_access i m \<Longrightarrow> execute i pc m = None"
  by (auto simp: execute_def Let_def div_overflow_def unaligned_access_def exec_div_def op_groups op_defs
    exec_load_unaligned_def exec_store_unaligned_def)

lemma execute_Some_ok:
  "wf_instruction i \<Longrightarrow> page_tables_ok m \<Longrightarrow> execute i pc m = Some r \<Longrightarrow> exec_ok m r"
  by (metis execute_ok execute_undefined option.distinct(1) option.inject)

section \<open>The step of the processor\<close>

definition cpu_ok :: "machine \<Rightarrow> bool" where
  "cpu_ok m \<longleftrightarrow> reg m 0 = 0 \<and> unat (reg m LoadReg) < 32"

lemma DelayedLoad_spec:
  assumes "unat (reg m LoadReg) < 32"
  shows "DelayedLoad r v m = Some (set_reg 0 0 (set_reg LoadValueReg v (set_reg LoadReg (of_nat r)
    (set_reg (unat (reg m LoadReg)) (reg m LoadValueReg) m))))"
  using assms by (simp add: DelayedLoad_def Let_def reg_defs)

lemma fetch_cases:
  assumes "page_tables_ok m"
  obtains (fault) e where "ReadMem m (reg m PCReg) 4 = Some (Inl e)"
  | (fetched) raw m1 where "ReadMem m (reg m PCReg) 4 = Some (Inr (raw, m1))" "registers m1 = registers m"
      "mainMemory m1 = mainMemory m" "page_tables_ok m1"
proof (cases "translate_spec m (reg m PCReg) 4 False")
  case (Inl e)
  then show ?thesis by (intro fault) (simp add: ReadMem_spec [OF assms valid_sizes(3)])
next
  case (Inr r)
  obtain pa m1 where r: "r = (pa, m1)" by force
  note t = Inr [unfolded r]
  from same_mapping_translate [OF t assms] have "registers m1 = registers m" "mainMemory m1 = mainMemory m"
    "page_tables_ok m1" by (auto simp: same_mapping_def page_tables_ok_def)
  with ReadMem_at [OF assms valid_sizes(3) t] show ?thesis by (rule fetched)
qed

lemma step_cases:
  assumes "page_tables_ok m" "cpu_ok m" "step_instruction m = Some r"
  obtains (fault) e where "r = Inl (e, reg m PCReg, m)"
  | (trap) raw m1 e bad m2 where "ReadMem m (reg m PCReg) 4 = Some (Inr (raw, m1))"
      "execute (Decode raw) (reg m NextPCReg + 4) m1 = Some (Trap e bad m2)" "r = Inl (e, bad, m2)"
      "registers m2 = registers m" "mainMemory m2 = mainMemory m" "page_tables_ok m2"
  | (completed) raw m1 pcAfter lr lv m2 where "ReadMem m (reg m PCReg) 4 = Some (Inr (raw, m1))"
      "registers m1 = registers m"
      "execute (Decode raw) (reg m NextPCReg + 4) m1 = Some (Continue pcAfter lr lv m2)"
      "lr < 32" "\<And>n. 34 \<le> n \<Longrightarrow> registers m2 n = registers m n" "page_tables_ok m2"
      "r = Inr (advance_pc pcAfter (set_reg 0 0 (set_reg LoadValueReg lv (set_reg LoadReg (of_nat lr)
        (set_reg (unat (reg m LoadReg)) (reg m LoadValueReg) m2)))))"
  using assms(1)
proof (cases rule: fetch_cases)
  case (fault e)
  with assms(3) show ?thesis by (intro that(1) [of e]) (auto simp: step_instruction_def)
next
  case (fetched raw m1)
  then have pc: "reg m1 NextPCReg = reg m NextPCReg" by (simp add: reg_def)
  with assms(3) fetched(1) obtain res where res: "execute (Decode raw) (reg m NextPCReg + 4) m1 = Some res"
    by (auto simp: step_instruction_def bind_eq_Some_conv)
  note ok = execute_Some_ok [OF Decode_wf fetched(4) res]
  show ?thesis
  proof (cases res)
    case (Trap e bad m2)
    with ok fetched res assms(3) pc show ?thesis
      by (intro that(2) [of raw m1 e bad m2]) (auto simp: step_instruction_def exec_ok.simps)
  next
    case (Continue pcAfter lr lv m2)
    with ok fetched have k: "lr < 32" "\<And>n. 34 \<le> n \<Longrightarrow> registers m2 n = registers m n" "page_tables_ok m2"
      by (auto simp: exec_ok.simps)
    then have l: "reg m2 LoadReg = reg m LoadReg" "reg m2 LoadValueReg = reg m LoadValueReg"
      by (simp_all add: reg_def reg_defs)
    have "unat (reg m2 LoadReg) < 32" using assms(2) l by (simp add: cpu_ok_def)
    from DelayedLoad_spec [OF this] Continue res fetched(1) assms(3) pc l
    have "r = Inr (advance_pc pcAfter (set_reg 0 0 (set_reg LoadValueReg lv (set_reg LoadReg (of_nat lr)
        (set_reg (unat (reg m LoadReg)) (reg m LoadValueReg) m2)))))"
      by (simp add: step_instruction_def)
    with fetched res Continue k show ?thesis by (intro that(3)) auto
  qed
qed

lemma step_defined:
  assumes "page_tables_ok m" "cpu_ok m"
    "\<forall>raw m1. ReadMem m (reg m PCReg) 4 = Some (Inr (raw, m1)) \<longrightarrow>
      \<not> div_overflow (Decode raw) m1 \<and> \<not> unaligned_access (Decode raw) m1"
  shows "\<exists>r. step_instruction m = Some r"
  using assms(1)
proof (cases rule: fetch_cases)
  case (fault e)
  then show ?thesis by (simp add: step_instruction_def)
next
  case (fetched raw m1)
  with assms(3) have "\<not> div_overflow (Decode raw) m1" "\<not> unaligned_access (Decode raw) m1" by auto
  from execute_ok [OF Decode_wf fetched(4) this] obtain res where
    res: "execute (Decode raw) (reg m1 NextPCReg + 4) m1 = Some res" "exec_ok m1 res" by blast
  show ?thesis
  proof (cases res)
    case (Trap e bad m2)
    with res fetched(1) show ?thesis by (simp add: step_instruction_def)
  next
    case (Continue p lr lv m2)
    with res(2) fetched(2) have "reg m2 LoadReg = reg m LoadReg"
      by (simp add: exec_ok.simps reg_def reg_defs)
    with assms(2) have "unat (reg m2 LoadReg) < 32" by (simp add: cpu_ok_def)
    from DelayedLoad_spec [OF this] res(1) Continue fetched(1) show ?thesis
      by (simp add: step_instruction_def)
  qed
qed



section \<open>Signed arithmetic\<close>

lemma bit31_iff: "bit (w :: word32) 31 \<longleftrightarrow> sint w < 0"
  using bit_last_iff [of w] by simp

lemma xor_sign: "(x XOR y) AND SIGN_BIT = 0 \<longleftrightarrow> (sint x < 0 \<longleftrightarrow> sint y < 0)"
  using bit31_iff [of x] bit31_iff [of y] by (simp only: SIGN_BIT_def sign_bit_iff bit_xor_iff) blast

lemma sint_wraps:
  "\<exists>k. sint (a + b) = sint a + sint b + k * 4294967296" "\<exists>k. sint (a - b) = sint a - sint b + k * 4294967296"
  for a b :: word32
proof -
  have "sint (a + b) mod 4294967296 = (sint a + sint b) mod 4294967296"
    using uint_word_ariths(1) [of a b] by (simp add: uint32_sint mod_simps)
  then show "\<exists>k. sint (a + b) = sint a + sint b + k * 4294967296"
    by (metis mod_eqE mult.commute add_diff_cancel_left' diff_add_cancel add.commute)
  have "sint (a - b) mod 4294967296 = (sint a - sint b) mod 4294967296"
    using uint_word_ariths(2) [of a b] by (simp add: uint32_sint mod_simps)
  then show "\<exists>k. sint (a - b) = sint a - sint b + k * 4294967296"
    by (metis mod_eqE mult.commute add_diff_cancel_left' diff_add_cancel add.commute)
qed

definition fits :: "int \<Rightarrow> bool" where
  "fits n \<longleftrightarrow> - 2147483648 \<le> n \<and> n < 2147483648"

lemma wrapped_value:
  assumes "s = n + k * (4294967296 :: int)" "- 2147483648 \<le> s" "s < 2147483648" "- 4294967296 \<le> n" "n < 4294967296"
  shows "fits n \<longleftrightarrow> s = n" "\<not> fits n \<Longrightarrow> s < 0 \<longleftrightarrow> 0 \<le> n"
proof -
  from assms have "- 2 < k" "k < 2" by linarith+
  then have "k = -1 \<or> k = 0 \<or> k = 1" by linarith
  with assms show "fits n \<longleftrightarrow> s = n" "\<not> fits n \<Longrightarrow> s < 0 \<longleftrightarrow> 0 \<le> n"
    by (auto simp: fits_def)
qed

lemma add_overflow_test:
  fixes a b :: word32
  shows "(a XOR b) AND SIGN_BIT = 0 \<and> (a XOR (a + b)) AND SIGN_BIT \<noteq> 0 \<longleftrightarrow> \<not> fits (sint a + sint b)"
    and "fits (sint a + sint b) \<Longrightarrow> sint (a + b) = sint a + sint b"
proof -
  from sint_wraps(1) obtain k where k: "sint (a + b) = sint a + sint b + k * 4294967296" by blast
  note w = wrapped_value [OF k sint32_bounds]
  show "fits (sint a + sint b) \<Longrightarrow> sint (a + b) = sint a + sint b"
    using w(1) sint32_bounds [of a] sint32_bounds [of b] by linarith
  show "(a XOR b) AND SIGN_BIT = 0 \<and> (a XOR (a + b)) AND SIGN_BIT \<noteq> 0 \<longleftrightarrow> \<not> fits (sint a + sint b)"
    using w sint32_bounds [of a] sint32_bounds [of b]
    by (auto simp: xor_sign fits_def)
qed

lemma sub_overflow_test:
  fixes a b :: word32
  shows "(a XOR b) AND SIGN_BIT \<noteq> 0 \<and> (a XOR (a - b)) AND SIGN_BIT \<noteq> 0 \<longleftrightarrow> \<not> fits (sint a - sint b)"
    and "fits (sint a - sint b) \<Longrightarrow> sint (a - b) = sint a - sint b"
proof -
  from sint_wraps(2) obtain k where k: "sint (a - b) = sint a - sint b + k * 4294967296" by blast
  note w = wrapped_value [OF k sint32_bounds]
  show "fits (sint a - sint b) \<Longrightarrow> sint (a - b) = sint a - sint b"
    using w(1) sint32_bounds [of a] sint32_bounds [of b] by linarith
  show "(a XOR b) AND SIGN_BIT \<noteq> 0 \<and> (a XOR (a - b)) AND SIGN_BIT \<noteq> 0 \<longleftrightarrow> \<not> fits (sint a - sint b)"
    using w sint32_bounds [of a] sint32_bounds [of b]
    by (auto simp: xor_sign fits_def)
qed


lemma step_invariant:
  assumes "page_tables_ok m" "cpu_ok m" "step_instruction m = Some (Inr m')"
  shows "cpu_ok m' \<and> page_tables_ok m' \<and> reg m' PCReg = reg m NextPCReg \<and> reg m' PrevPCReg = reg m PCReg"
  using assms
proof (cases rule: step_cases)
  case (completed raw m1 pcAfter lr lv m2)
  then have "unat (of_nat lr :: word32) = lr" by (simp add: unat_of_nat take_bit_nat_eq_self)
  moreover have "unat (reg m LoadReg) < 32" using assms(2) by (simp add: cpu_ok_def)
  ultimately show ?thesis
    using completed by (auto simp: cpu_ok_def advance_pc_def Let_def reg_def reg_defs)
qed auto

section \<open>Delayed loads\<close>

lemma execute_LW:
  assumes "opCode i = OP_LW" "execute i pc m = Some (Continue p lr lv m')"
    "ReadMem m (reg m (rs i) + extra i) 4 = Some (Inr (v, m0))"
  shows "p = pc \<and> lr = rt i \<and> lv = v \<and> m' = m0"
  using assms
  by (simp add: execute_def op_groups op_defs exec_load_def Let_def read_or_trap_def split: if_splits)

lemma step_pending_load:
  assumes "page_tables_ok m" "cpu_ok m" "step_instruction m = Some (Inr m')"
    "unat (reg m LoadReg) = r" "r \<noteq> 0"
  shows "reg m' r = reg m LoadValueReg"
  using assms(1-3)
proof (cases rule: step_cases)
  case (completed raw m1 pcAfter lr lv m2)
  with assms show ?thesis by (auto simp: cpu_ok_def advance_pc_def Let_def reg_def reg_defs)
qed auto


section \<open>A sample program\<close>

text \<open>Two instructions in frame 5: load the word at address 8 into register 2, then a no-op.\<close>

definition program_machine :: machine where
  "program_machine = sample_machine\<lparr>mainMemory := store32 2568 7 (store32 2560 0x8C020008 (\<lambda>_. 0)),
     registers := (\<lambda>_. 0)(NextPCReg := 4)\<rparr>"

lemma program_machine_ok: "page_tables_ok program_machine" "cpu_ok program_machine"
  using sample_machine_ok by (simp_all add: program_machine_def page_tables_ok_def cpu_ok_def reg_def reg_defs)

lemma program_machine_regs: "reg program_machine n = (if n = NextPCReg then 4 else 0)"
  by (simp add: program_machine_def reg_def)

definition program_touched :: machine where
  "program_touched = program_machine\<lparr>pageTable := Some [(sample_entry 5)\<lparr>use_bit := True\<rparr>, sample_entry 3]\<rparr>"

lemma program_touched_ok: "page_tables_ok program_touched"
  using sample_machine_ok
  by (simp add: program_touched_def program_machine_def page_tables_ok_def sample_machine_def Machine_new_def)

lemma program_translate:
  "unat a < 512 \<Longrightarrow> unat a mod 4 = 0 \<Longrightarrow> translate_spec program_machine a 4 False = Inr (2560 + unat a, program_touched)"
  "unat a < 512 \<Longrightarrow> unat a mod 4 = 0 \<Longrightarrow> translate_spec program_touched a 4 False = Inr (2560 + unat a, program_touched)"
  by (simp_all add: translate_spec_def program_touched_def program_machine_def sample_machine_def sample_entry_def
    machine_sizes Let_def)

lemma program_memory: "mainMemory program_machine = store32 2568 7 (store32 2560 0x8C020008 (\<lambda>_. 0))"
  "mainMemory program_touched = mainMemory program_machine"
  by (simp_all add: program_machine_def program_touched_def)

lemma program_fetch:
  "ReadMem program_machine 0 4 = Some (Inr (0x8C020008, program_touched))"
  "ReadMem program_touched 8 4 = Some (Inr (7, program_touched))"
  by (simp_all add: ReadMem_spec program_machine_ok program_touched_ok valid_sizes program_translate
    loaded_def load32_def program_memory store32_def)

lemma program_decode:
  "Decode 0x8C020008 = \<lparr>value_word = 0x8C020008, opCode = OP_LW, rs = 0, rt = 2, rd = 0, extra = 8\<rparr>"
  by (simp add: Decode_def field_def opTable_def op_defs decode_extra_def mask_eq_exp_minus_1)

lemma program_step:
  "step_instruction program_machine = Some (Inr (advance_pc 8 (set_reg 0 0 (set_reg LoadValueReg 7
     (set_reg LoadReg 2 (set_reg 0 0 program_touched))))))"
proof -
  have r: "reg program_touched n = (if n = NextPCReg then 4 else 0)" for n
    by (simp add: program_touched_def program_machine_def reg_def)
  have "execute (Decode 0x8C020008) 8 program_touched = Some (Continue 8 2 7 program_touched)"
    by (simp add: program_decode execute_def op_groups op_defs exec_load_def read_or_trap_def r reg_defs program_fetch)
  then show ?thesis
    by (simp add: step_instruction_def program_machine_regs reg_defs program_fetch r DelayedLoad_def Let_def)
qed

lemma program_no_undefined:
  "\<forall>raw m1. ReadMem program_machine (reg program_machine PCReg) 4 = Some (Inr (raw, m1)) \<longrightarrow>
     \<not> div_overflow (Decode raw) m1 \<and> \<not> unaligned_access (Decode raw) m1"
  by (simp add: program_machine_regs reg_defs program_fetch program_decode div_overflow_def unaligned_access_def op_defs)

text \<open>The same machine stopped at an unaligned program counter.\<close>

definition stuck_machine :: machine where
  "stuck_machine = set_reg PCReg 2 program_machine"

lemma stuck_machine_ok: "page_tables_ok stuck_machine" "cpu_ok stuck_machine"
  using program_machine_ok by (simp_all add: stuck_machine_def cpu_ok_def reg_def reg_defs)

lemma stuck_step: "step_instruction stuck_machine = Some (Inl (AddressErrorException, 2, stuck_machine))"
proof -
  have "reg stuck_machine PCReg = 2" by (simp add: stuck_machine_def reg_def)
  moreover have "ReadMem stuck_machine 2 4 = Some (Inl AddressErrorException)"
    by (simp add: ReadMem_spec stuck_machine_ok valid_sizes translate_spec_def)
  ultimately show ?thesis by (simp add: step_instruction_def)
qed

section \<open>Properties of the simulator\<close>

text \<open>C9. Exceptions are precise: when an instruction traps, no register and no byte of memory has been changed
  by it, so that it can be restarted after the kernel has handled the exception.\<close>

theorem exceptions_precise:
  assumes "page_tables_ok m" "cpu_ok m" "step_instruction m = Some (Inl (e, bad, m'))"
  shows "registers m' = registers m \<and> mainMemory m' = mainMemory m \<and> page_tables_ok m'"
  using assms by (cases rule: step_cases) (use assms(1) in \<open>auto\<close>)

theorem exceptions_precise_witness:
  "page_tables_ok stuck_machine \<and> cpu_ok stuck_machine
     \<and> step_instruction stuck_machine = Some (Inl (AddressErrorException, 2, stuck_machine))
     \<and> registers stuck_machine = registers stuck_machine"
  using exceptions_precise [OF stuck_machine_ok stuck_step] stuck_machine_ok stuck_step by blast

text \<open>C37. Completed instructions keep the register invariant (register 0 is zero, the delayed load names a general
  register) and the page table, and move the program counters: the delay slot is executed next.\<close>

theorem step_keeps_invariant:
  assumes "page_tables_ok m" "cpu_ok m" "step_instruction m = Some (Inr m')"
  shows "cpu_ok m' \<and> page_tables_ok m' \<and> reg m' PCReg = reg m NextPCReg \<and> reg m' PrevPCReg = reg m PCReg"
  using assms by (rule step_invariant)

theorem step_keeps_invariant_witness:
  "\<exists>m'. step_instruction program_machine = Some (Inr m') \<and> cpu_ok m' \<and> reg m' PCReg = 4"
  using step_keeps_invariant [OF program_machine_ok program_step] program_step
  by (auto simp: program_machine_regs)

text \<open>C10. The simulator is total on user code. On a machine with a linear page table and no TLB, with register 0 zero and the number of the
  delayed-load register below 32 (which every instruction keeps), a step never reaches the default case of the switch or fails an assertion, whatever the
  program, except for the two operations that the code leaves undefined (dividing the most negative number by -1, and an unaligned
  word access by one of the four partial-word instructions).\<close>

theorem simulator_never_aborts:
  assumes "page_tables_ok m" "cpu_ok m"
    "\<forall>raw m1. ReadMem m (reg m PCReg) 4 = Some (Inr (raw, m1)) \<longrightarrow>
      \<not> div_overflow (Decode raw) m1 \<and> \<not> unaligned_access (Decode raw) m1"
  shows "\<exists>r. step_instruction m = Some r"
  using assms by (rule step_defined)

theorem simulator_never_aborts_witness:
  "page_tables_ok program_machine \<and> cpu_ok program_machine \<and> (\<exists>r. step_instruction program_machine = Some r)"
  using simulator_never_aborts [OF program_machine_ok program_no_undefined] program_machine_ok by blast

text \<open>C38. Signed arithmetic: OP_ADD, OP_ADDI and OP_SUB raise an overflow exception exactly when the mathematical
  result does not fit in 32 bits, and otherwise store the mathematical result.\<close>

theorem overflow_iff_not_representable:
  fixes i :: Instruction and m :: machine
  defines "a \<equiv> sint (reg m (rs i))" and "b \<equiv> sint (reg m (rt i))" and "c \<equiv> sint (extra i)"
  shows "(opCode i = OP_ADD \<longrightarrow> exec_add i pc m = (if fits (a + b)
      then continue_with pc (set_reg (rd i) (word_of_int (a + b)) m) else Some (Trap OverflowException 0 m)))
    \<and> (opCode i = OP_ADDI \<longrightarrow> exec_add i pc m = (if fits (a + c)
      then continue_with pc (set_reg (rt i) (word_of_int (a + c)) m) else Some (Trap OverflowException 0 m)))
    \<and> (opCode i = OP_SUB \<longrightarrow> exec_sub i pc m = (if fits (a - b)
      then continue_with pc (set_reg (rd i) (word_of_int (a - b)) m) else Some (Trap OverflowException 0 m)))"
proof -
  have plus: "word_of_int (sint x + sint y) = x + y" and minus: "word_of_int (sint x - sint y) = x - y"
    for x y :: word32 by simp_all
  have ov: "(x XOR y) AND SIGN_BIT = 0 \<and> (y XOR (x + y)) AND SIGN_BIT \<noteq> 0 \<longleftrightarrow> \<not> fits (sint x + sint y)"
    for x y :: word32
    using add_overflow_test(1) [of y x] by (simp add: xor.commute add.commute)
  show ?thesis
    unfolding a_def b_def c_def plus minus exec_add_def exec_sub_def Let_def
    by (simp add: add_overflow_test(1) sub_overflow_test(1) ov op_defs)
qed

definition add_instruction :: Instruction where
  "add_instruction = \<lparr>value_word = 0, opCode = OP_ADD, rs = 1, rt = 2, rd = 3, extra = 0\<rparr>"

definition add_machine :: machine where
  "add_machine = set_reg 1 0x7FFFFFFF (set_reg 2 1 program_machine)"

theorem overflow_iff_not_representable_witness:
  "opCode add_instruction = OP_ADD \<and> exec_add add_instruction 8 add_machine = Some (Trap OverflowException 0 add_machine)"
  using overflow_iff_not_representable [of add_instruction 8 add_machine]
  by (simp add: add_instruction_def add_machine_def reg_def fits_def)

text \<open>Loads have one delay slot: after OP_LW the general registers hold what they held before (with the load
  pending from the previous instruction applied), and the loaded word is in the target register after
  the next completed instruction, whatever that instruction is.\<close>

theorem load_delay_slot:
  assumes "page_tables_ok m" "cpu_ok m" "ReadMem m (reg m PCReg) 4 = Some (Inr (raw, m0))"
    "opCode (Decode raw) = OP_LW"
    "ReadMem m0 (reg m (rs (Decode raw)) + extra (Decode raw)) 4 = Some (Inr (v, m1))"
    "step_instruction m = Some (Inr m')"
  shows "(\<forall>r < 32. reg m' r = (if r = 0 then 0 else if r = unat (reg m LoadReg) then reg m LoadValueReg else reg m r))
    \<and> (\<forall>m''. rt (Decode raw) \<noteq> 0 \<longrightarrow> step_instruction m' = Some (Inr m'') \<longrightarrow> reg m'' (rt (Decode raw)) = v)"
  using assms(1,2,6)
proof (cases rule: step_cases)
  case (completed raw' m0' pcAfter lr lv m2)
  then have eq: "raw' = raw" "m0' = m0" "registers m0 = registers m" using assms(3) by auto
  have "ReadMem m0 (reg m0 (rs (Decode raw)) + extra (Decode raw)) 4 = Some (Inr (v, m1))"
    using assms(5) eq by (simp add: reg_def)
  from execute_LW [OF assms(4) completed(3) [unfolded eq] this]
  have l: "lr = rt (Decode raw)" "lv = v" "m2 = m1" by auto
  have "page_tables_ok m0"
    using assms(1) by (cases rule: fetch_cases) (use assms(3) in auto)
  then have "registers m1 = registers m0"
    using assms(5) same_mapping_translate(1) [of m0 _ 4 False _ m1 "mainMemory m1"]
    by (auto simp: ReadMem_spec valid_sizes same_mapping_def split: sum.splits prod.splits)
  then have now: "\<forall>r < 32. reg m' r = (if r = 0 then 0 else if r = unat (reg m LoadReg) then reg m LoadValueReg else reg m r)"
    using completed(7) assms(2) eq l by (auto simp: advance_pc_def Let_def reg_def reg_defs cpu_ok_def)
  have m': "cpu_ok m'" "page_tables_ok m'" "unat (reg m' LoadReg) = rt (Decode raw)" "reg m' LoadValueReg = v"
    using step_invariant [OF assms(1,2,6)] completed(4,7) l
    by (auto simp: advance_pc_def Let_def reg_def reg_defs unat_of_nat take_bit_nat_eq_self)
  with now show ?thesis using step_pending_load [OF m'(2,1) _ m'(3)] by auto
qed auto

theorem load_delay_slot_witness:
  "\<exists>m'. step_instruction program_machine = Some (Inr m') \<and> reg m' 2 = 0
     \<and> (\<forall>m''. step_instruction m' = Some (Inr m'') \<longrightarrow> reg m'' 2 = 7)"
proof -
  have "ReadMem program_machine (reg program_machine PCReg) 4 = Some (Inr (0x8C020008, program_touched))"
    by (simp add: program_machine_regs reg_defs program_fetch)
  moreover have "opCode (Decode 0x8C020008) = OP_LW" by (simp add: program_decode)
  moreover have "ReadMem program_touched (reg program_machine (rs (Decode 0x8C020008)) + extra (Decode 0x8C020008)) 4 =
      Some (Inr (7, program_touched))"
    by (simp add: program_decode program_machine_regs reg_defs program_fetch)
  ultimately show ?thesis
    using load_delay_slot [OF program_machine_ok _ _ _ program_step] program_step
    by (fastforce simp: program_decode program_machine_regs reg_defs)
qed

text \<open>Two instructions differ from the MIPS architecture: OP_OR ignores its second operand and copies the first,
  and OP_SRL shifts in copies of the sign bit, so that it is the same as OP_SRA.\<close>

theorem or_and_srl_deviate:
  "(opCode i = OP_OR \<longrightarrow> exec_logic i pc m = continue_with pc (set_reg (rd i) (reg m (rs i)) m))
   \<and> (opCode i = OP_SRL \<longrightarrow> exec_shift i pc m = exec_shift (i\<lparr>opCode := OP_SRA\<rparr>) pc m)"
  by (simp add: exec_logic_def exec_shift_def op_defs Let_def)

theorem or_and_srl_deviate_witness:
  "opCode (add_instruction\<lparr>opCode := OP_OR\<rparr>) = OP_OR
   \<and> exec_logic (add_instruction\<lparr>opCode := OP_OR\<rparr>) 8 add_machine = continue_with 8 (set_reg 3 0x7FFFFFFF add_machine)"
  using or_and_srl_deviate [of "add_instruction\<lparr>opCode := OP_OR\<rparr>" 8 add_machine]
  by (simp add: add_instruction_def add_machine_def reg_def)

end
