(* ===== verification/Linked_List.thy ===== *)
theory Linked_List
  imports Nachos_Prelude "HOL-Library.Multiset"
begin

text \<open>
  threads/list.h and threads/list.cc: the singly linked list on which the ready queue, the
  semaphore queues, the pending interrupts and the mailboxes are built.

  The list is modelled with its pointers. \<open>cells\<close> is the store of allocated
  \<^verbatim>\<open>ListElement\<close>s, \<open>first_ptr\<close> and \<open>last_ptr\<close> are the two pointers of the class (\<open>None\<close> is
  NULL); \<open>new\<close> takes the next unused address and \<open>delete\<close> removes the cell from the
  store, so that a dangling dereference is \<open>None\<close>. The representation predicate
  \<open>list_rep\<close> relates a list object to the sequence of its (key, item) pairs; every operation
  is shown to act on that sequence, and the locale \<open>kernel_list\<close> is the contract the other
  components use.
\<close>

section \<open>State\<close>

type_synonym addr = nat

record 'a ListElement =
  next_ptr :: "addr option"
  key :: int
  item :: 'a

record 'a klist =
  cells :: "addr \<rightharpoonup> 'a ListElement"
  fresh :: addr
  first_ptr :: "addr option"
  last_ptr :: "addr option"

definition List_new :: "'a klist" where
  "List_new = \<lparr>cells = Map.empty, fresh = 0, first_ptr = None, last_ptr = None\<rparr>"

definition new_ListElement :: "'a \<Rightarrow> int \<Rightarrow> 'a klist \<Rightarrow> addr \<times> 'a klist" where
  "new_ListElement itemPtr sortKey l =
     (fresh l, l\<lparr>cells := (cells l)(fresh l \<mapsto> \<lparr>next_ptr = None, key = sortKey, item = itemPtr\<rparr>),
                 fresh := fresh l + 1\<rparr>)"

definition deref :: "'a klist \<Rightarrow> addr option \<Rightarrow> 'a ListElement option" where
  "deref l p = p \<bind> cells l"

definition set_next :: "addr option \<Rightarrow> addr option \<Rightarrow> 'a klist \<Rightarrow> 'a klist option" where
  "set_next p q l = do {
     a \<leftarrow> p;
     c \<leftarrow> cells l a;
     Some (l\<lparr>cells := (cells l)(a \<mapsto> c\<lparr>next_ptr := q\<rparr>)\<rparr>) }"

section \<open>Operations\<close>

definition IsEmpty :: "'a klist \<Rightarrow> bool" where
  "IsEmpty l \<longleftrightarrow> first_ptr l = None"

definition Append :: "'a \<Rightarrow> 'a klist \<Rightarrow> 'a klist option" where
  "Append x l = (
     let (element, l) = new_ListElement x 0 l in
     if IsEmpty l then Some (l\<lparr>first_ptr := Some element, last_ptr := Some element\<rparr>)
     else do {
       l \<leftarrow> set_next (last_ptr l) (Some element) l;
       Some (l\<lparr>last_ptr := Some element\<rparr>) })"

definition Prepend :: "'a \<Rightarrow> 'a klist \<Rightarrow> 'a klist option" where
  "Prepend x l = (
     let (element, l) = new_ListElement x 0 l in
     if IsEmpty l then Some (l\<lparr>first_ptr := Some element, last_ptr := Some element\<rparr>)
     else do {
       l \<leftarrow> set_next (Some element) (first_ptr l) l;
       Some (l\<lparr>first_ptr := Some element\<rparr>) })"

text \<open>
  The search loop of \<open>SortedInsert\<close>, from the cell \<open>ptr\<close>: the cell after which the new
  one goes, or \<open>None\<close> when the loop falls through to the end of the list.
\<close>

partial_function (option) insert_point ::
    "'a klist \<Rightarrow> int \<Rightarrow> addr option \<Rightarrow> addr option option" where
  "insert_point l sortKey ptr = do {
     p \<leftarrow> deref l ptr;
     if next_ptr p = None then Some None
     else do {
       n \<leftarrow> deref l (next_ptr p);
       if sortKey < key n then Some ptr
       else insert_point l sortKey (next_ptr p) } }"

definition SortedInsert :: "'a \<Rightarrow> int \<Rightarrow> 'a klist \<Rightarrow> 'a klist option" where
  "SortedInsert x sortKey l = (
     let (element, l) = new_ListElement x sortKey l in
     if IsEmpty l then Some (l\<lparr>first_ptr := Some element, last_ptr := Some element\<rparr>)
     else do {
       f \<leftarrow> deref l (first_ptr l);
       if sortKey < key f then do {
         l \<leftarrow> set_next (Some element) (first_ptr l) l;
         Some (l\<lparr>first_ptr := Some element\<rparr>) }
       else do {
         pos \<leftarrow> insert_point l sortKey (first_ptr l);
         (case pos of
            Some ptr \<Rightarrow> do {
              p \<leftarrow> deref l (Some ptr);
              l \<leftarrow> set_next (Some element) (next_ptr p) l;
              set_next (Some ptr) (Some element) l }
          | None \<Rightarrow> do {
              l \<leftarrow> set_next (last_ptr l) (Some element) l;
              Some (l\<lparr>last_ptr := Some element\<rparr>) }) } })"

text \<open>
  \<open>SortedRemove\<close> returns the item and its key, or \<open>None\<close> for the NULL of an empty list;
  \<open>Remove\<close> drops the key.
\<close>

definition SortedRemove :: "'a klist \<Rightarrow> (('a \<times> int) option \<times> 'a klist) option" where
  "SortedRemove l = (
     if IsEmpty l then Some (None, l)
     else do {
       element \<leftarrow> first_ptr l;
       c \<leftarrow> cells l element;
       let l' = (if first_ptr l = last_ptr l then l\<lparr>first_ptr := None, last_ptr := None\<rparr>
                 else l\<lparr>first_ptr := next_ptr c\<rparr>);
       Some (Some (item c, key c), l'\<lparr>cells := (cells l')(element := None)\<rparr>) })"

definition Remove :: "'a klist \<Rightarrow> ('a option \<times> 'a klist) option" where
  "Remove l = do { (r, l') \<leftarrow> SortedRemove l; Some (map_option fst r, l') }"

text \<open>\<open>Mapcar\<close> calls \<open>func\<close> on every item in order; \<open>func\<close> acts on a state \<open>'s\<close>.\<close>

partial_function (option) Mapcar_from ::
    "('a \<Rightarrow> 's \<Rightarrow> 's) \<Rightarrow> 'a klist \<Rightarrow> addr option \<Rightarrow> 's \<Rightarrow> 's option" where
  "Mapcar_from func l ptr s = (
     if ptr = None then Some s
     else do { p \<leftarrow> deref l ptr; Mapcar_from func l (next_ptr p) (func (item p) s) })"

definition Mapcar :: "('a \<Rightarrow> 's \<Rightarrow> 's) \<Rightarrow> 'a klist \<Rightarrow> 's \<Rightarrow> 's option" where
  "Mapcar func l s = Mapcar_from func l (first_ptr l) s"

text \<open>The destructor removes until the list is empty.\<close>

partial_function (option) List_delete :: "'a klist \<Rightarrow> 'a klist option" where
  "List_delete l = do {
     (r, l') \<leftarrow> Remove l;
     if r \<noteq> None then List_delete l' else Some l' }"

section \<open>Segments of cells\<close>

text \<open>\<open>seg h p as q\<close>: following \<open>next_ptr\<close> from \<open>p\<close> visits the cells \<open>as\<close> and ends at \<open>q\<close>.\<close>

fun seg :: "(addr \<rightharpoonup> 'a ListElement) \<Rightarrow> addr option \<Rightarrow> addr list \<Rightarrow> addr option \<Rightarrow> bool" where
  "seg h p [] q \<longleftrightarrow> p = q"
| "seg h p (a # as) q \<longleftrightarrow> p = Some a \<and> (\<exists>c. h a = Some c \<and> seg h (next_ptr c) as q)"

definition kv :: "(addr \<rightharpoonup> 'a ListElement) \<Rightarrow> addr \<Rightarrow> int \<times> 'a" where
  "kv h a = (key (the (h a)), item (the (h a)))"

text \<open>Well-formedness is stated on the four fields, so that it does not see the order of updates.\<close>

definition wf_fields ::
    "(addr \<rightharpoonup> 'a ListElement) \<Rightarrow> addr \<Rightarrow> addr option \<Rightarrow> addr option \<Rightarrow> addr list \<Rightarrow> bool" where
  "wf_fields h n f la as \<longleftrightarrow> seg h f as None \<and> distinct as \<and> dom h = set as
     \<and> (\<forall>a \<in> set as. a < n) \<and> la = (if as = [] then None else Some (last as))"

definition list_rep :: "'a klist \<Rightarrow> (int \<times> 'a) list \<Rightarrow> bool" where
  "list_rep l xs \<longleftrightarrow> (\<exists>as. wf_fields (cells l) (fresh l) (first_ptr l) (last_ptr l) as
     \<and> xs = map (kv (cells l)) as)"

text \<open>The abstract insertion: after all the keys that are not larger.\<close>

fun insert_key :: "int \<Rightarrow> 'a \<Rightarrow> (int \<times> 'a) list \<Rightarrow> (int \<times> 'a) list" where
  "insert_key k x [] = [(k, x)]"
| "insert_key k x (y # ys) = (if k < fst y then (k, x) # y # ys else y # insert_key k x ys)"

lemma seg_upd [simp]: "a \<notin> set as \<Longrightarrow> seg (h(a := v)) p as q = seg h p as q"
  by (induction as arbitrary: p) auto

lemma seg_append: "seg h p (as @ bs) q \<longleftrightarrow> (\<exists>r. seg h p as r \<and> seg h r bs q)"
  by (induction as arbitrary: p) auto

lemma seg_unique: "seg h p as None \<Longrightarrow> seg h p bs None \<Longrightarrow> as = bs"
proof (induction as arbitrary: p bs)
  case Nil
  then show ?case by (cases bs) auto
next
  case (Cons a as)
  then show ?case by (cases bs) auto
qed

lemma map_kv_upd [simp]: "a \<notin> set as \<Longrightarrow> map (kv (h(a := v))) as = map (kv h) as"
  by (auto simp: kv_def)

lemma map_kv_same:
  assumes "h a = Some c" "key c' = key c" "item c' = item c"
  shows "map (kv (h(a \<mapsto> c'))) as = map (kv h) as"
  using assms by (auto simp: kv_def)

lemma insert_key_split:
  assumes "\<forall>y \<in> set ys. fst y \<le> k" "zs = [] \<or> k < fst (hd zs)"
  shows "insert_key k x (ys @ zs) = ys @ (k, x) # zs"
  using assms
proof (induction ys)
  case Nil
  then show ?case by (cases zs) auto
next
  case (Cons y ys)
  then show ?case by auto
qed

text \<open>Linking a new cell \<open>n\<close> behind the cell \<open>z\<close>: the effect all insertions but the first share.\<close>

lemma seg_link_after:
  assumes "seg h p (bs @ z # cs) None" "distinct (bs @ z # cs)" "n \<notin> set (bs @ z # cs)"
    and "h z = Some c" "next_ptr c' = next_ptr c"
  shows "seg (h(n \<mapsto> c', z \<mapsto> c\<lparr>next_ptr := Some n\<rparr>)) p (bs @ z # n # cs) None"
    and "map (kv (h(n \<mapsto> c', z \<mapsto> c\<lparr>next_ptr := Some n\<rparr>))) (bs @ z # n # cs) =
      map (kv h) (bs @ [z]) @ (key c', item c') # map (kv h) cs"
proof -
  from assms(1,4) have "seg h p bs (Some z)" "seg h (next_ptr c) cs None"
    by (auto simp: seg_append)
  with assms show "seg (h(n \<mapsto> c', z \<mapsto> c\<lparr>next_ptr := Some n\<rparr>)) p (bs @ z # n # cs) None"
    by (auto simp: seg_append)
  show "map (kv (h(n \<mapsto> c', z \<mapsto> c\<lparr>next_ptr := Some n\<rparr>))) (bs @ z # n # cs) =
      map (kv h) (bs @ [z]) @ (key c', item c') # map (kv h) cs"
    using assms(2-4) by (auto simp: kv_def)
qed

section \<open>The operations on the represented sequence\<close>

lemma list_repE:
  assumes "list_rep l xs"
  obtains as where "wf_fields (cells l) (fresh l) (first_ptr l) (last_ptr l) as"
    "xs = map (kv (cells l)) as"
  using assms by (auto simp: list_rep_def)

lemma list_repI:
  assumes "wf_fields (cells l) (fresh l) (first_ptr l) (last_ptr l) as" "map (kv (cells l)) as = xs"
  shows "list_rep l xs"
  using assms by (auto simp: list_rep_def)

lemma wf_fields_Nil: "wf_fields h n None la as \<longleftrightarrow> as = [] \<and> h = Map.empty \<and> la = None"
  by (cases as) (auto simp: wf_fields_def)

lemma wf_fields_first: "wf_fields h n f la as \<Longrightarrow> f = None \<longleftrightarrow> as = []"
  by (cases as) (auto simp: wf_fields_def)

lemma list_rep_functional: "list_rep l xs \<Longrightarrow> list_rep l ys \<Longrightarrow> xs = ys"
  by (auto simp: list_rep_def wf_fields_def dest: seg_unique)

lemma list_rep_new: "list_rep List_new []"
  by (auto simp: list_rep_def wf_fields_def List_new_def)

lemma IsEmpty_rep: "list_rep l xs \<Longrightarrow> IsEmpty l \<longleftrightarrow> xs = []"
  by (erule list_repE) (simp add: IsEmpty_def wf_fields_first)

lemma fresh_cell: "wf_fields h n f la as \<Longrightarrow> n \<notin> set as"
  by (auto simp: wf_fields_def)

text \<open>The two ways a new cell is added: in front, or behind a cell of the list.\<close>

lemma wf_fields_front:
  assumes "wf_fields h n f la as" "next_ptr c = f"
  shows "wf_fields (h(n \<mapsto> c)) (Suc n) (Some n) (if as = [] then Some n else la) (n # as)"
    and "map (kv (h(n \<mapsto> c))) (n # as) = (key c, item c) # map (kv h) as"
  using assms fresh_cell [OF assms(1)] by (auto simp: wf_fields_def kv_def less_Suc_eq)

lemma wf_fields_after:
  assumes wf: "wf_fields h n f la (bs @ z # cs)" and z: "h z = Some d" and c: "next_ptr c = next_ptr d"
  shows "wf_fields (h(n \<mapsto> c, z \<mapsto> d\<lparr>next_ptr := Some n\<rparr>)) (Suc n) f
      (if cs = [] then Some n else la) (bs @ z # n # cs)"
    and "map (kv (h(n \<mapsto> c, z \<mapsto> d\<lparr>next_ptr := Some n\<rparr>))) (bs @ z # n # cs) =
      map (kv h) (bs @ [z]) @ (key c, item c) # map (kv h) cs"
proof -
  note fr = fresh_cell [OF wf]
  from wf have s: "seg h f (bs @ z # cs) None" and d: "distinct (bs @ z # cs)"
    by (simp_all add: wf_fields_def)
  note link = seg_link_after [OF s d fr z c]
  show "map (kv (h(n \<mapsto> c, z \<mapsto> d\<lparr>next_ptr := Some n\<rparr>))) (bs @ z # n # cs) =
      map (kv h) (bs @ [z]) @ (key c, item c) # map (kv h) cs"
    by (rule link(2))
  show "wf_fields (h(n \<mapsto> c, z \<mapsto> d\<lparr>next_ptr := Some n\<rparr>)) (Suc n) f
      (if cs = [] then Some n else la) (bs @ z # n # cs)"
    using link(1) wf fr by (auto simp: wf_fields_def less_Suc_eq)
qed

lemma Append_rep:
  assumes "list_rep l xs"
  shows "\<exists>l'. Append x l = Some l' \<and> list_rep l' (xs @ [(0, x)])"
proof -
  from assms obtain as where wf: "wf_fields (cells l) (fresh l) (first_ptr l) (last_ptr l) as"
    and xs: "xs = map (kv (cells l)) as" by (rule list_repE)
  let ?c = "\<lparr>next_ptr = None, key = 0, item = x\<rparr>"
  show ?thesis
  proof (cases as rule: rev_cases)
    case Nil
    then have "first_ptr l = None" using wf_fields_first [OF wf] by simp
    then show ?thesis
      using wf_fields_front [OF wf, of ?c] Nil xs
      by (auto simp: Append_def new_ListElement_def IsEmpty_def intro!: list_repI)
  next
    case (snoc bs z)
    with wf obtain d where d: "cells l z = Some d" "next_ptr d = None" "last_ptr l = Some z"
      "z \<noteq> fresh l" by (auto simp: wf_fields_def seg_append)
    obtain y where y: "first_ptr l = Some y"
      using wf_fields_first [OF wf] snoc by auto
    show ?thesis
      using wf_fields_after [of "cells l" "fresh l" "first_ptr l" "last_ptr l" bs z "[]" d ?c] wf snoc d y xs
      by (auto simp: Append_def new_ListElement_def IsEmpty_def set_next_def intro!: list_repI)
  qed
qed

lemma Prepend_rep:
  assumes "list_rep l xs"
  shows "\<exists>l'. Prepend x l = Some l' \<and> list_rep l' ((0, x) # xs)"
proof -
  from assms obtain as where wf: "wf_fields (cells l) (fresh l) (first_ptr l) (last_ptr l) as"
    and xs: "xs = map (kv (cells l)) as" by (rule list_repE)
  note front = wf_fields_front [OF wf, of "\<lparr>next_ptr = first_ptr l, key = 0, item = x\<rparr>"]
  show ?thesis
    using front xs wf_fields_first [OF wf]
    by (cases "first_ptr l") (auto simp: Prepend_def new_ListElement_def IsEmpty_def set_next_def
      intro!: list_repI)
qed

text \<open>The search loop stops, at the last cell of the prefix whose keys are not larger.\<close>

lemma insert_point_spec:
  assumes "seg (cells l) (Some a) (a # as) None"
  shows "\<exists>ys z zs. a # as = ys @ z # zs \<and> (\<forall>b \<in> set (tl (ys @ [z])). fst (kv (cells l) b) \<le> k)
    \<and> (zs = [] \<or> k < fst (kv (cells l) (hd zs)))
    \<and> insert_point l k (Some a) = Some (if zs = [] then None else Some z)"
  using assms
proof (induction as arbitrary: a)
  case Nil
  then have "insert_point l k (Some a) = Some None"
    by (subst insert_point.simps) (auto simp: deref_def)
  then show ?case by (intro exI [of _ "[]"] exI [of _ a] exI [of _ "[]"]) simp
next
  case (Cons b as)
  then obtain c d where c: "cells l a = Some c" "next_ptr c = Some b" and d: "cells l b = Some d"
    and s: "seg (cells l) (Some b) (b # as) None" by auto
  show ?case
  proof (cases "k < key d")
    case True
    then have "insert_point l k (Some a) = Some (Some a)"
      using c d by (subst insert_point.simps) (simp add: deref_def)
    with True d show ?thesis
      by (intro exI [of _ "[]"] exI [of _ a] exI [of _ "b # as"]) (simp add: kv_def)
  next
    case False
    from Cons.IH [OF s] obtain ys z zs where ih: "b # as = ys @ z # zs"
      "\<forall>e \<in> set (tl (ys @ [z])). fst (kv (cells l) e) \<le> k" "zs = [] \<or> k < fst (kv (cells l) (hd zs))"
      "insert_point l k (Some b) = Some (if zs = [] then None else Some z)" by blast
    have "insert_point l k (Some a) = insert_point l k (Some b)"
      using c d False by (subst insert_point.simps) (simp add: deref_def)
    moreover have "\<forall>e \<in> set (tl ((a # ys) @ [z])). fst (kv (cells l) e) \<le> k"
      using ih(1,2) False d by (cases ys) (auto simp: kv_def)
    ultimately show ?thesis
      using ih by (intro exI [of _ "a # ys"] exI [of _ z] exI [of _ zs]) simp
  qed
qed

lemma SortedInsert_rep:
  assumes "list_rep l xs"
  shows "\<exists>l'. SortedInsert x k l = Some l' \<and> list_rep l' (insert_key k x xs)"
proof -
  from assms obtain as where wf: "wf_fields (cells l) (fresh l) (first_ptr l) (last_ptr l) as"
    and xs: "xs = map (kv (cells l)) as" by (rule list_repE)
  let ?l = "l\<lparr>cells := (cells l)(fresh l \<mapsto> \<lparr>next_ptr = None, key = k, item = x\<rparr>), fresh := Suc (fresh l)\<rparr>"
  show ?thesis
  proof (cases as)
    case Nil
    then have "first_ptr l = None" using wf_fields_first [OF wf] by simp
    then show ?thesis
      using wf_fields_front [OF wf, of "\<lparr>next_ptr = None, key = k, item = x\<rparr>"] Nil xs
      by (auto simp: SortedInsert_def new_ListElement_def IsEmpty_def intro!: list_repI)
  next
    case (Cons a as')
    with wf obtain d where a: "first_ptr l = Some a" "cells l a = Some d" "a \<noteq> fresh l"
      by (auto simp: wf_fields_def)
    show ?thesis
    proof (cases "k < key d")
      case True
      then have "insert_key k x xs = (k, x) # xs"
        using xs Cons a by (simp add: kv_def)
      with True show ?thesis
        using wf_fields_front [OF wf, of "\<lparr>next_ptr = first_ptr l, key = k, item = x\<rparr>"] Cons xs a
        by (auto simp: SortedInsert_def new_ListElement_def IsEmpty_def deref_def set_next_def
          intro!: list_repI)
    next
      case False
      note fr = fresh_cell [OF wf]
      have "seg (cells ?l) (Some a) (a # as') None"
        using wf fr Cons a by (simp add: wf_fields_def)
      from insert_point_spec [OF this] obtain ys z zs where sp: "as = ys @ z # zs"
        "\<forall>b \<in> set (tl (ys @ [z])). fst (kv (cells ?l) b) \<le> k"
        "zs = [] \<or> k < fst (kv (cells ?l) (hd zs))"
        "insert_point ?l k (Some a) = Some (if zs = [] then None else Some z)"
        using Cons by metis
      have kv_old: "kv (cells ?l) b = kv (cells l) b" if "b \<in> set as" for b
        using that fr by (auto simp: kv_def)
      have "hd (ys @ [z]) = a" using sp(1) Cons by (cases ys) auto
      then have le: "\<forall>y \<in> set (map (kv (cells l)) (ys @ [z])). fst y \<le> k"
        using sp(1,2) False a kv_old by (cases ys) (auto simp: kv_def)
      have gt: "map (kv (cells l)) zs = [] \<or> k < fst (hd (map (kv (cells l)) zs))"
        using sp(1,3) kv_old by (cases zs) auto
      have ins: "insert_key k x xs = map (kv (cells l)) (ys @ [z]) @ (k, x) # map (kv (cells l)) zs"
        using insert_key_split [OF le gt] xs sp(1) by simp
      obtain e where e: "cells l z = Some e" "z \<noteq> fresh l" "zs = [] \<Longrightarrow> last_ptr l = Some z"
        using wf sp(1) fr by (auto simp: wf_fields_def seg_append)
      have e0: "zs = [] \<Longrightarrow> next_ptr e = None"
        using wf sp(1) e(1) by (auto simp: wf_fields_def seg_append)
      note after = wf_fields_after [OF wf [unfolded sp(1)] e(1), of "\<lparr>next_ptr = next_ptr e, key = k, item = x\<rparr>"]
      show ?thesis
        using False a e e0 sp(4) after ins
        by (auto simp: SortedInsert_def new_ListElement_def IsEmpty_def deref_def set_next_def
          fun_upd_twist intro!: list_repI split: if_splits)
    qed
  qed
qed

lemma SortedRemove_Nil: "list_rep l [] \<Longrightarrow> SortedRemove l = Some (None, l)"
  by (simp add: SortedRemove_def IsEmpty_rep)

lemma SortedRemove_Cons:
  assumes "list_rep l ((k, x) # xs)"
  shows "\<exists>l'. SortedRemove l = Some (Some (x, k), l') \<and> list_rep l' xs"
proof -
  from assms obtain as0 where wf0: "wf_fields (cells l) (fresh l) (first_ptr l) (last_ptr l) as0"
    and xs0: "(k, x) # xs = map (kv (cells l)) as0" by (rule list_repE)
  then obtain a as where as0: "as0 = a # as" and xs: "xs = map (kv (cells l)) as"
    and kx: "kv (cells l) a = (k, x)" by (auto simp: Cons_eq_map_conv)
  note wf = wf0 [unfolded as0]
  then obtain c where c: "first_ptr l = Some a" "cells l a = Some c" "seg (cells l) (next_ptr c) as None"
    by (auto simp: wf_fields_def)
  have only: "first_ptr l = last_ptr l \<longleftrightarrow> as = []"
    using wf c by (auto simp: wf_fields_def)
  have dm: "dom ((cells l)(a := None)) = set as"
    using wf by (auto simp: wf_fields_def)
  show ?thesis
    using wf c kx xs only dm
    by (auto simp: SortedRemove_def IsEmpty_def wf_fields_def kv_def fun_upd_apply
      intro!: list_repI)
qed

lemma Remove_Nil: "list_rep l [] \<Longrightarrow> Remove l = Some (None, l)"
  by (simp add: Remove_def SortedRemove_Nil)

lemma Remove_Cons:
  "list_rep l ((k, x) # xs) \<Longrightarrow> \<exists>l'. Remove l = Some (Some x, l') \<and> list_rep l' xs"
  by (drule SortedRemove_Cons) (auto simp: Remove_def)

lemma Mapcar_from_seg:
  assumes "seg (cells l) p as None"
  shows "Mapcar_from f l p s = Some (fold f (map (\<lambda>a. snd (kv (cells l) a)) as) s)"
  using assms
proof (induction as arbitrary: p s)
  case Nil
  then show ?case by (simp add: Mapcar_from.simps)
next
  case (Cons a as)
  then show ?case by (subst Mapcar_from.simps) (auto simp: deref_def kv_def)
qed

lemma Mapcar_rep: "list_rep l xs \<Longrightarrow> Mapcar f l s = Some (fold f (map snd xs) s)"
  by (erule list_repE) (simp add: Mapcar_def wf_fields_def Mapcar_from_seg comp_def)

lemma List_delete_rep: "list_rep l xs \<Longrightarrow> \<exists>l'. List_delete l = Some l' \<and> list_rep l' []"
proof (induction xs arbitrary: l)
  case Nil
  then show ?case by (subst List_delete.simps) (simp add: Remove_Nil)
next
  case (Cons y xs)
  obtain k x where y: "y = (k, x)" by force
  from Remove_Cons [OF Cons.prems [unfolded y]] obtain l' where
    "Remove l = Some (Some x, l')" "list_rep l' xs" by blast
  with Cons.IH [of l'] show ?case by (subst List_delete.simps) simp
qed

section \<open>Stability of sorted insertion\<close>

lemma insert_key_set: "set (insert_key k x xs) = insert (k, x) (set xs)"
  by (induction xs) auto

lemma insert_key_length [simp]: "length (insert_key k x xs) = Suc (length xs)"
  by (induction xs) auto

lemma insert_key_sorted: "sorted (map fst xs) \<Longrightarrow> sorted (map fst (insert_key k x xs))"
  by (induction xs) (auto simp: insert_key_set)

text \<open>Items with equal keys keep their order of insertion.\<close>

lemma insert_key_filter:
  "sorted (map fst xs) \<Longrightarrow> filter (\<lambda>y. j = fst y) (insert_key k x xs) =
     filter (\<lambda>y. j = fst y) xs @ (if j = k then [(k, x)] else [])"
proof (induction xs)
  case Nil
  then show ?case by simp
next
  case (Cons y ys)
  then have "k < fst y \<Longrightarrow> filter (\<lambda>z. k = fst z) (y # ys) = []"
    by (auto simp: filter_empty_conv)
  with Cons show ?case by auto
qed

lemma insert_keys_stable:
  "fold (\<lambda>(k, x). insert_key k x) xs [] = sort_key fst xs"
proof -
  have gen: "sorted (map fst (fold (\<lambda>(k, x). insert_key k x) xs ys)) \<and>
      mset (fold (\<lambda>(k, x). insert_key k x) xs ys) = mset xs + mset ys \<and>
      (\<forall>j. filter (\<lambda>y. j = fst y) (fold (\<lambda>(k, x). insert_key k x) xs ys) =
        filter (\<lambda>y. j = fst y) (ys @ xs))" if "sorted (map fst ys)" for ys
    using that
  proof (induction xs arbitrary: ys)
    case Nil
    then show ?case by simp
  next
    case (Cons p xs)
    obtain k x where p: "p = (k, x)" by force
    have m: "mset (insert_key k x ys) = add_mset (k, x) (mset ys)"
      by (induction ys) auto
    from Cons.IH [OF insert_key_sorted [OF Cons.prems]] show ?case
      by (auto simp: p m insert_key_filter [OF Cons.prems])
  qed
  have "sorted (map fst ([] :: (int \<times> 'a) list))" by simp
  note g = gen [OF this]
  show ?thesis
    by (rule properties_for_sort_key [symmetric]) (use g in \<open>auto\<close>)
qed

section \<open>The list contract\<close>

locale kernel_list =
  fixes rep :: "'q \<Rightarrow> (int \<times> 'a) list \<Rightarrow> bool"
    and empty :: 'q
    and is_empty :: "'q \<Rightarrow> bool"
    and append :: "'a \<Rightarrow> 'q \<Rightarrow> 'q option"
    and sorted_insert :: "'a \<Rightarrow> int \<Rightarrow> 'q \<Rightarrow> 'q option"
    and sorted_remove :: "'q \<Rightarrow> (('a \<times> int) option \<times> 'q) option"
  assumes rep_functional: "rep q xs \<Longrightarrow> rep q ys \<Longrightarrow> xs = ys"
    and rep_empty: "rep empty []"
    and rep_is_empty: "rep q xs \<Longrightarrow> is_empty q \<longleftrightarrow> xs = []"
    and rep_append: "rep q xs \<Longrightarrow> \<exists>q'. append x q = Some q' \<and> rep q' (xs @ [(0, x)])"
    and rep_sorted_insert:
      "rep q xs \<Longrightarrow> \<exists>q'. sorted_insert x k q = Some q' \<and> rep q' (insert_key k x xs)"
    and rep_remove_empty: "rep q [] \<Longrightarrow> sorted_remove q = Some (None, q)"
    and rep_remove: "rep q ((k, x) # xs) \<Longrightarrow>
      \<exists>q'. sorted_remove q = Some (Some (x, k), q') \<and> rep q' xs"
begin

lemma append_all:
  "rep q ys \<Longrightarrow> \<exists>q'. each append xs q = Some q' \<and> rep q' (ys @ map (Pair 0) xs)"
proof (induction xs arbitrary: q ys)
  case Nil
  then show ?case by simp
next
  case (Cons x xs)
  from rep_append [OF Cons.prems, of x] obtain q1 where
    "append x q = Some q1" "rep q1 (ys @ [(0, x)])" by blast
  with Cons.IH [of q1 "ys @ [(0, x)]"] show ?case by simp
qed

lemma sorted_insert_all:
  "rep q ys \<Longrightarrow> \<exists>q'. each (\<lambda>(k, x). sorted_insert x k) xs q = Some q'
     \<and> rep q' (fold (\<lambda>(k, x). insert_key k x) xs ys)"
proof (induction xs arbitrary: q ys)
  case Nil
  then show ?case by simp
next
  case (Cons p xs)
  obtain k x where p: "p = (k, x)" by force
  from rep_sorted_insert [OF Cons.prems] obtain q1 where
    "sorted_insert x k q = Some q1" "rep q1 (insert_key k x ys)" by blast
  with Cons.IH [of q1] p show ?case by simp
qed

lemma remove_all:
  "rep q xs \<Longrightarrow> \<exists>q'. collect_n sorted_remove (length xs) q =
     Some (map (\<lambda>(k, x). Some (x, k)) xs, q') \<and> rep q' []"
proof (induction xs arbitrary: q)
  case Nil
  then show ?case by simp
next
  case (Cons p xs)
  obtain k x where p: "p = (k, x)" by force
  from rep_remove [OF Cons.prems [unfolded p]] obtain q1 where
    "sorted_remove q = Some (Some (x, k), q1)" "rep q1 xs" by blast
  with Cons.IH [of q1] p show ?case by auto
qed

text \<open>What comes out is what went in: in order of arrival, or stably sorted by key.\<close>

lemma fifo_order:
  "\<exists>q q'. each append xs empty = Some q
     \<and> collect_n sorted_remove (length xs) q = Some (map (\<lambda>x. Some (x, 0)) xs, q') \<and> rep q' []"
proof -
  from append_all [OF rep_empty, of xs] obtain q where
    q: "each append xs empty = Some q" "rep q (map (Pair 0) xs)" by auto
  from remove_all [OF q(2)] q(1) show ?thesis by (auto simp: comp_def)
qed

lemma priority_order:
  "\<exists>q q'. each (\<lambda>(k, x). sorted_insert x k) xs empty = Some q
     \<and> collect_n sorted_remove (length xs) q =
         Some (map (\<lambda>(k, x). Some (x, k)) (sort_key fst xs), q') \<and> rep q' []"
proof -
  from sorted_insert_all [OF rep_empty, of xs] obtain q where
    q: "each (\<lambda>(k, x). sorted_insert x k) xs empty = Some q" "rep q (sort_key fst xs)"
    by (auto simp: insert_keys_stable)
  from remove_all [OF q(2)] q(1) show ?thesis by auto
qed

end

interpretation kl: kernel_list list_rep List_new IsEmpty Append SortedInsert SortedRemove
  by unfold_locales
    (rule list_rep_functional list_rep_new IsEmpty_rep Append_rep SortedInsert_rep
      SortedRemove_Nil SortedRemove_Cons; assumption)+


section \<open>Properties of the list\<close>

text \<open>A list used with \<open>Append\<close> and \<open>Remove\<close> is a first-in first-out queue: everything appended to a new
  list is removed again in the order of arrival, after which the list is empty and holds no cell.\<close>

theorem list_is_fifo:
  "\<exists>l l'. each Append xs List_new = Some l
     \<and> collect_n Remove (length xs) l = Some (map Some xs, l') \<and> IsEmpty l' \<and> cells l' = Map.empty"
proof -
  have rm: "collect_n Remove (length ys) l = Some (map Some (map snd ys), l')"
    if "collect_n SortedRemove (length ys) l = Some (map (\<lambda>(k, x). Some (x, k)) ys, l')"
    for ys :: "(int \<times> 'a) list" and l l'
    using that by (induction ys arbitrary: l) (auto simp: Remove_def bind_eq_Some_conv split: prod.splits)
  from kl.append_all [OF list_rep_new, of xs] obtain l where
    l: "each Append xs List_new = Some l" "list_rep l (map (Pair 0) xs)" by auto
  from kl.remove_all [OF l(2)] obtain l' where
    l': "collect_n SortedRemove (length xs) l = Some (map (\<lambda>(k, x). Some (x, k)) (map (Pair 0) xs), l')"
      "list_rep l' []" by auto
  from l'(2) have "IsEmpty l'" "cells l' = Map.empty"
    by (auto simp: IsEmpty_rep list_rep_def wf_fields_def)
  with l(1) l'(1) rm [of "map (Pair 0) xs" l l'] show ?thesis by (auto simp: comp_def)
qed

text \<open>C40. \<open>SortedInsert\<close> and \<open>SortedRemove\<close> implement a stable priority queue: whatever is inserted comes out
  sorted by key, and items with equal keys come out in the order of insertion.\<close>

theorem list_is_stable_priority_queue:
  "\<exists>l l'. each (\<lambda>(k, x). SortedInsert x k) xs List_new = Some l
     \<and> collect_n SortedRemove (length xs) l =
         Some (map (\<lambda>(k, x). Some (x, k)) (sort_key fst xs), l') \<and> IsEmpty l'"
proof -
  from kl.priority_order [of xs] obtain l l' where
    "each (\<lambda>(k, x). SortedInsert x k) xs List_new = Some l"
    "collect_n SortedRemove (length xs) l = Some (map (\<lambda>(k, x). Some (x, k)) (sort_key fst xs), l')"
    "list_rep l' []" by blast
  then show ?thesis using IsEmpty_rep [of l' "[]"] by auto
qed

end
