(* ===== verification/Interrupts.thy ===== *)
theory Interrupts
  imports Mips_Correct Linked_List
begin

text \<open>
  machine/interrupt.h, machine/interrupt.cc, machine/stats.h and machine/timer.cc: simulated time
  and the hardware interrupts.

  The state is the record \<open>hw\<close>: the statistics, the fields of the class \<^verbatim>\<open>Interrupt\<close> and the
  machine. It is extensible, so that the devices and the kernel add their own fields. The list
  of pending interrupts is the sequence of (time, interrupt) pairs that the linked list of
  theory \<open>Linked_List\<close> represents; \<open>insert_key\<close> is what its \<open>SortedInsert\<close> does.

  A pending interrupt names its handler by a value of type \<open>'h\<close>. Calling it is the argument \<open>H\<close> of the
  definitions below, a function on the whole state that \<open>None\<close> marks as aborting. Its laws are the
  locale \<open>device_handlers\<close>: a handler runs with interrupts disabled, so simulated time stands still,
  and whatever it schedules is later than now. Ticks are \<open>int\<close>; a run long enough to overflow a
  32-bit tick counter is outside the model.
\<close>

section \<open>State\<close>

datatype IntStatus = IntOff | IntOn

datatype IntType = TimerInt | DiskInt | ConsoleWriteInt | ConsoleReadInt | NetworkSendInt | NetworkRecvInt

record Statistics =
  totalTicks :: int
  idleTicks :: int
  systemTicks :: int
  userTicks :: int
  numDiskReads :: int
  numDiskWrites :: int
  numConsoleCharsRead :: int
  numConsoleCharsWritten :: int
  numPageFaults :: int
  numPacketsSent :: int
  numPacketsRecvd :: int

definition Statistics_new :: Statistics where
  "Statistics_new = \<lparr>totalTicks = 0, idleTicks = 0, systemTicks = 0, userTicks = 0, numDiskReads = 0,
     numDiskWrites = 0, numConsoleCharsRead = 0, numConsoleCharsWritten = 0, numPageFaults = 0,
     numPacketsSent = 0, numPacketsRecvd = 0\<rparr>"

definition UserTick :: int where "UserTick = 1"
definition SystemTick :: int where "SystemTick = 10"
definition RotationTime :: int where "RotationTime = 500"
definition SeekTime :: int where "SeekTime = 500"
definition ConsoleTime :: int where "ConsoleTime = 100"
definition NetworkTime :: int where "NetworkTime = 100"
definition TimerTicks :: int where "TimerTicks = 100"

text \<open>The field \<^verbatim>\<open>when\<close> of a pending interrupt is the key under which it is in the list.\<close>

record 'h PendingInterrupt =
  handler :: 'h
  arg :: int
  int_type :: IntType

record 'h hw =
  stats :: Statistics
  level :: IntStatus
  pending :: "(int \<times> 'h PendingInterrupt) list"
  inHandler :: bool
  yieldOnReturn :: bool
  status :: MachineStatus
  mach :: "machine option"

definition now :: "('h, 'z) hw_scheme \<Rightarrow> int" where
  "now s = totalTicks (stats s)"

text \<open>The constructor; the machine is created by \<^verbatim>\<open>Initialize\<close> (threads/system.cc).\<close>

definition Interrupt_new :: "machine option \<Rightarrow> 'h hw" where
  "Interrupt_new m = \<lparr>stats = Statistics_new, level = IntOff, pending = [], inHandler = False,
     yieldOnReturn = False, status = SystemMode, mach = m\<rparr>"

section \<open>Operations\<close>

definition Schedule :: "'h \<Rightarrow> int \<Rightarrow> int \<Rightarrow> IntType \<Rightarrow> ('h, 'z) hw_scheme \<Rightarrow> ('h, 'z) hw_scheme option" where
  "Schedule h a fromNow ty s = do {
     let when = now s + fromNow;
     ASSERT (fromNow > 0);
     Some (s\<lparr>pending := insert_key when \<lparr>handler = h, arg = a, int_type = ty\<rparr> (pending s)\<rparr>) }"

definition YieldOnReturn :: "('h, 'z) hw_scheme \<Rightarrow> ('h, 'z) hw_scheme option" where
  "YieldOnReturn s = do { ASSERT (inHandler s); Some (s\<lparr>yieldOnReturn := True\<rparr>) }"

definition ChangeLevel :: "IntStatus \<Rightarrow> ('h, 'z) hw_scheme \<Rightarrow> ('h, 'z) hw_scheme" where
  "ChangeLevel l s = s\<lparr>level := l\<rparr>"

definition advance_clock :: "int \<Rightarrow> ('h, 'z) hw_scheme \<Rightarrow> ('h, 'z) hw_scheme" where
  "advance_clock when s =
     s\<lparr>stats := (stats s)\<lparr>idleTicks := idleTicks (stats s) + (when - now s), totalTicks := when\<rparr>\<rparr>"

definition machine_delayed_load :: "('h, 'z) hw_scheme \<Rightarrow> ('h, 'z) hw_scheme option" where
  "machine_delayed_load s =
     (case mach s of
        None \<Rightarrow> Some s
      | Some m \<Rightarrow> do { m' \<leftarrow> DelayedLoad 0 0 m; Some (s\<lparr>mach := Some m'\<rparr>) })"

definition CheckIfDue ::
    "('h \<Rightarrow> int \<Rightarrow> ('h, 'z) hw_scheme \<Rightarrow> ('h, 'z) hw_scheme option) \<Rightarrow> bool \<Rightarrow> ('h, 'z) hw_scheme
     \<Rightarrow> (bool \<times> ('h, 'z) hw_scheme) option" where
  "CheckIfDue H advanceClock s = do {
     ASSERT (level s = IntOff);
     (case pending s of
        [] \<Rightarrow> Some (False, s)
      | (when, toOccur) # rest \<Rightarrow>
          let s1 = s\<lparr>pending := rest\<rparr> in
          if when > now s \<and> \<not> advanceClock then
            Some (False, s1\<lparr>pending := insert_key when toOccur rest\<rparr>)
          else
            let s2 = (if when > now s then advance_clock when s1 else s1) in
            if status s = IdleMode \<and> int_type toOccur = TimerInt \<and> rest = [] then
              Some (False, s2\<lparr>pending := insert_key when toOccur rest\<rparr>)
            else do {
              s3 \<leftarrow> machine_delayed_load s2;
              s4 \<leftarrow> H (handler toOccur) (arg toOccur) (s3\<lparr>inHandler := True, status := SystemMode\<rparr>);
              Some (True, s4\<lparr>status := status s, inHandler := False\<rparr>) }) }"

text \<open>\<^verbatim>\<open>while (CheckIfDue(FALSE)) ;\<close>\<close>

partial_function (option) check_all_due ::
    "('h \<Rightarrow> int \<Rightarrow> ('h, 'z) hw_scheme \<Rightarrow> ('h, 'z) hw_scheme option) \<Rightarrow> ('h, 'z) hw_scheme
     \<Rightarrow> ('h, 'z) hw_scheme option" where
  "check_all_due H s = do {
     (fired, s') \<leftarrow> CheckIfDue H False s;
     if fired then check_all_due H s' else Some s' }"

definition count_tick :: "('h, 'z) hw_scheme \<Rightarrow> ('h, 'z) hw_scheme" where
  "count_tick s =
     (if status s = SystemMode then
        s\<lparr>stats := (stats s)\<lparr>totalTicks := now s + SystemTick, systemTicks := systemTicks (stats s) + SystemTick\<rparr>\<rparr>
      else
        s\<lparr>stats := (stats s)\<lparr>totalTicks := now s + UserTick, userTicks := userTicks (stats s) + UserTick\<rparr>\<rparr>)"

text \<open>\<open>Y\<close> is \<^verbatim>\<open>currentThread->Yield()\<close>.\<close>

definition OneTick ::
    "('h \<Rightarrow> int \<Rightarrow> ('h, 'z) hw_scheme \<Rightarrow> ('h, 'z) hw_scheme option)
     \<Rightarrow> (('h, 'z) hw_scheme \<Rightarrow> ('h, 'z) hw_scheme option) \<Rightarrow> ('h, 'z) hw_scheme \<Rightarrow> ('h, 'z) hw_scheme option" where
  "OneTick H Y s = do {
     let old = status s;
     s1 \<leftarrow> check_all_due H (ChangeLevel IntOff (count_tick s));
     let s2 = ChangeLevel IntOn s1;
     if yieldOnReturn s2 then do {
       s3 \<leftarrow> Y (s2\<lparr>yieldOnReturn := False, status := SystemMode\<rparr>);
       Some (s3\<lparr>status := old\<rparr>) }
     else Some s2 }"

definition SetLevel ::
    "('h \<Rightarrow> int \<Rightarrow> ('h, 'z) hw_scheme \<Rightarrow> ('h, 'z) hw_scheme option)
     \<Rightarrow> (('h, 'z) hw_scheme \<Rightarrow> ('h, 'z) hw_scheme option) \<Rightarrow> IntStatus \<Rightarrow> ('h, 'z) hw_scheme
     \<Rightarrow> (IntStatus \<times> ('h, 'z) hw_scheme) option" where
  "SetLevel H Y l s = do {
     let old = level s;
     ASSERT (l = IntOff \<or> \<not> inHandler s);
     let s1 = ChangeLevel l s;
     if l = IntOn \<and> old = IntOff then do { s2 \<leftarrow> OneTick H Y s1; Some (old, s2) }
     else Some (old, s1) }"

definition Enable ::
    "('h \<Rightarrow> int \<Rightarrow> ('h, 'z) hw_scheme \<Rightarrow> ('h, 'z) hw_scheme option)
     \<Rightarrow> (('h, 'z) hw_scheme \<Rightarrow> ('h, 'z) hw_scheme option) \<Rightarrow> ('h, 'z) hw_scheme \<Rightarrow> ('h, 'z) hw_scheme option" where
  "Enable H Y s = do { (old, s') \<leftarrow> SetLevel H Y IntOn s; Some s' }"

text \<open>\<open>Idle\<close> returns \<open>(True, s)\<close> when it returns to the scheduler and \<open>(False, s)\<close> when it calls \<^verbatim>\<open>Halt\<close>.\<close>

definition Idle ::
    "('h \<Rightarrow> int \<Rightarrow> ('h, 'z) hw_scheme \<Rightarrow> ('h, 'z) hw_scheme option) \<Rightarrow> ('h, 'z) hw_scheme
     \<Rightarrow> (bool \<times> ('h, 'z) hw_scheme) option" where
  "Idle H s = do {
     (fired, s1) \<leftarrow> CheckIfDue H True (s\<lparr>status := IdleMode\<rparr>);
     if fired then do {
       s2 \<leftarrow> check_all_due H s1;
       Some (True, s2\<lparr>yieldOnReturn := False, status := SystemMode\<rparr>) }
     else Some (False, s1) }"

definition setStatus :: "MachineStatus \<Rightarrow> ('h, 'z) hw_scheme \<Rightarrow> ('h, 'z) hw_scheme" where
  "setStatus st s = s\<lparr>status := st\<rparr>"

section \<open>The timer device\<close>

text \<open>\<open>rand\<close> is the value of \<^verbatim>\<open>Random()\<close>, a non-negative \<^verbatim>\<open>int\<close>.\<close>

definition TimeOfNextInterrupt :: "bool \<Rightarrow> nat \<Rightarrow> int" where
  "TimeOfNextInterrupt randomize rand = (if randomize then 1 + int rand mod (TimerTicks * 2) else TimerTicks)"

definition Timer_new :: "'h \<Rightarrow> bool \<Rightarrow> nat \<Rightarrow> ('h, 'z) hw_scheme \<Rightarrow> ('h, 'z) hw_scheme option" where
  "Timer_new timerH randomize rand s = Schedule timerH 0 (TimeOfNextInterrupt randomize rand) TimerInt s"

text \<open>\<^verbatim>\<open>TimerInterruptHandler\<close> of threads/system.cc.\<close>

definition TimerInterruptHandler :: "('h, 'z) hw_scheme \<Rightarrow> ('h, 'z) hw_scheme option" where
  "TimerInterruptHandler s = (if status s \<noteq> IdleMode then YieldOnReturn s else Some s)"

definition TimerExpired :: "'h \<Rightarrow> bool \<Rightarrow> nat \<Rightarrow> ('h, 'z) hw_scheme \<Rightarrow> ('h, 'z) hw_scheme option" where
  "TimerExpired timerH randomize rand s = do {
     s1 \<leftarrow> Schedule timerH 0 (TimeOfNextInterrupt randomize rand) TimerInt s;
     TimerInterruptHandler s1 }"


section \<open>Invariant and handler contract\<close>

definition ticks_ok :: "('h, 'z) hw_scheme \<Rightarrow> bool" where
  "ticks_ok s \<longleftrightarrow> totalTicks (stats s) = idleTicks (stats s) + systemTicks (stats s) + userTicks (stats s)"

definition mach_ok :: "('h, 'z) hw_scheme \<Rightarrow> bool" where
  "mach_ok s \<longleftrightarrow> (\<forall>m. mach s = Some m \<longrightarrow> cpu_ok m)"

definition hw_ok :: "('h, 'z) hw_scheme \<Rightarrow> bool" where
  "hw_ok s \<longleftrightarrow> sorted (map fst (pending s)) \<and> ticks_ok s \<and> mach_ok s"

definition no_due :: "('h, 'z) hw_scheme \<Rightarrow> bool" where
  "no_due s \<longleftrightarrow> (\<forall>q \<in> set (pending s). now s < fst q)"

definition insert_all :: "(int \<times> 'a) list \<Rightarrow> (int \<times> 'a) list \<Rightarrow> (int \<times> 'a) list" where
  "insert_all new ps = fold (\<lambda>(k, p). insert_key k p) new ps"

text \<open>The clock readings, which only \<open>OneTick\<close> and \<open>Idle\<close> change.\<close>

definition clocks :: "('h, 'z) hw_scheme \<Rightarrow> int \<times> int \<times> int \<times> int" where
  "clocks s = (totalTicks (stats s), idleTicks (stats s), systemTicks (stats s), userTicks (stats s))"

definition handler_effect :: "('h, 'z) hw_scheme \<Rightarrow> ('h, 'z) hw_scheme \<Rightarrow> bool" where
  "handler_effect s s' \<longleftrightarrow> clocks s' = clocks s \<and> level s' = IntOff \<and> mach_ok s'
     \<and> (\<exists>new. pending s' = insert_all new (pending s) \<and> (\<forall>q \<in> set new. now s < fst q))"

lemma insert_all_sorted: "sorted (map fst ps) \<Longrightarrow> sorted (map fst (insert_all new ps))"
  unfolding insert_all_def by (induction new arbitrary: ps) (auto simp: insert_key_sorted)

lemma insert_all_set: "set (insert_all new ps) = set new \<union> set ps"
  unfolding insert_all_def by (induction new arbitrary: ps) (auto simp: insert_key_set)

lemma insert_all_later:
  assumes "\<forall>q \<in> set new. t < fst q"
  shows "filter (\<lambda>q. fst q \<le> t) (insert_all new ps) = filter (\<lambda>q. fst q \<le> t) ps"
proof -
  have one: "filter (\<lambda>q. fst q \<le> t) (insert_key k p ps) = filter (\<lambda>q. fst q \<le> t) ps"
    if "t < k" for k and p :: 'a and ps
    using that by (induction ps) auto
  show ?thesis
    using assms unfolding insert_all_def by (induction new arbitrary: ps) (auto simp: one)
qed

lemma insert_key_mset: "mset (insert_key k p ps) = add_mset (k, p) (mset ps)"
  by (induction ps) auto

lemma DelayedLoad_cpu_ok: "cpu_ok m \<Longrightarrow> \<exists>m'. DelayedLoad 0 0 m = Some m' \<and> cpu_ok m'"
  by (simp add: DelayedLoad_spec cpu_ok_def reg_def reg_defs)

lemma machine_delayed_load_ok:
  assumes "mach_ok s"
  shows "\<exists>m. machine_delayed_load s = Some (s\<lparr>mach := m\<rparr>) \<and> mach_ok (s\<lparr>mach := m\<rparr>)"
proof (cases "mach s")
  case None
  then have "s = s\<lparr>mach := None\<rparr>" by simp
  with None show ?thesis by (metis machine_delayed_load_def option.case(1) assms)
next
  case (Some m)
  with assms DelayedLoad_cpu_ok [of m] show ?thesis
    by (auto simp: machine_delayed_load_def mach_ok_def)
qed

text \<open>Nothing is left to do: no interrupt is due, or the machine idles with nothing but the timer pending.\<close>

definition calm :: "('h, 'z) hw_scheme \<Rightarrow> bool" where
  "calm s \<longleftrightarrow> no_due s \<or> status s = IdleMode \<and> (\<exists>k p. pending s = [(k, p)] \<and> int_type p = TimerInt)"

text \<open>
  What serving an interrupt means: it leaves the list of pending ones, a delayed load is completed, and its handler runs on its argument in the kernel,
  after which the machine is in the mode it was in. \<open>due_interrupts\<close> are those whose time has come, in the order of the list: by time, and for equal
  times in the order in which they were scheduled. \<open>requeue\<close> is what a check that finds nothing due does to the list.
\<close>

definition serve_interrupt ::
    "('h \<Rightarrow> int \<Rightarrow> ('h, 'z) hw_scheme \<Rightarrow> ('h, 'z) hw_scheme option) \<Rightarrow> int \<times> 'h PendingInterrupt \<Rightarrow> ('h, 'z) hw_scheme \<Rightarrow> ('h, 'z) hw_scheme option" where
  "serve_interrupt H q s = do {
     s1 \<leftarrow> machine_delayed_load (s\<lparr>pending := remove1 q (pending s)\<rparr>);
     s2 \<leftarrow> H (handler (snd q)) (arg (snd q)) (s1\<lparr>inHandler := True, status := SystemMode\<rparr>);
     Some (s2\<lparr>status := status s, inHandler := False\<rparr>) }"

fun serve_interrupts ::
    "('h \<Rightarrow> int \<Rightarrow> ('h, 'z) hw_scheme \<Rightarrow> ('h, 'z) hw_scheme option) \<Rightarrow> (int \<times> 'h PendingInterrupt) list \<Rightarrow> ('h, 'z) hw_scheme \<Rightarrow> ('h, 'z) hw_scheme option" where
  "serve_interrupts H [] s = Some s"
| "serve_interrupts H (q # qs) s = do { s1 \<leftarrow> serve_interrupt H q s; serve_interrupts H qs s1 }"

definition due_interrupts :: "('h, 'z) hw_scheme \<Rightarrow> (int \<times> 'h PendingInterrupt) list" where
  "due_interrupts s = filter (\<lambda>q. fst q \<le> now s) (pending s)"

definition requeue :: "('h, 'z) hw_scheme \<Rightarrow> ('h, 'z) hw_scheme" where
  "requeue s = s\<lparr>pending := (case pending s of [] \<Rightarrow> [] | (k, p) # rest \<Rightarrow> insert_key k p rest)\<rparr>"

lemma no_due_interrupts: "due_interrupts s = [] \<longleftrightarrow> no_due s"
  by (auto simp: due_interrupts_def no_due_def filter_empty_conv not_le)

lemma due_interrupts_Cons:
  assumes "sorted (map fst (pending s))" "\<not> no_due s"
  shows "\<exists>k p rest. pending s = (k, p) # rest \<and> k \<le> now s \<and> due_interrupts s = (k, p) # filter (\<lambda>q. fst q \<le> now s) rest"
  using assms by (cases "pending s") (fastforce simp: due_interrupts_def no_due_def not_less)+

text \<open>
  The devices. \<open>dev_ok\<close> is the invariant of the part of the state that the devices and the kernel own: it
  depends on the fields that extend \<open>hw\<close> only.
\<close>

locale device_handlers =
  fixes H :: "'h \<Rightarrow> int \<Rightarrow> ('h, 'z) hw_scheme \<Rightarrow> ('h, 'z) hw_scheme option"
    and dev_ok :: "('h, 'z) hw_scheme \<Rightarrow> bool"
  assumes dev_frame: "hw.more s' = hw.more s \<Longrightarrow> dev_ok s' = dev_ok s"
    and handler_law: "hw_ok s \<Longrightarrow> dev_ok s \<Longrightarrow> inHandler s \<Longrightarrow> level s = IntOff \<Longrightarrow> status s = SystemMode \<Longrightarrow>
    \<exists>s'. H h a s = Some s' \<and> handler_effect s s' \<and> dev_ok s'"
begin

lemma dev_ok_hw [simp]:
  "dev_ok (s\<lparr>pending := ps\<rparr>) = dev_ok s" "dev_ok (s\<lparr>stats := st\<rparr>) = dev_ok s" "dev_ok (s\<lparr>mach := m\<rparr>) = dev_ok s"
  "dev_ok (s\<lparr>inHandler := b\<rparr>) = dev_ok s" "dev_ok (s\<lparr>status := u\<rparr>) = dev_ok s" "dev_ok (s\<lparr>level := l\<rparr>) = dev_ok s"
  "dev_ok (s\<lparr>yieldOnReturn := b\<rparr>) = dev_ok s"
  by (rule dev_frame, simp)+

text \<open>Invoking the first pending interrupt: everything but the clock is left to the handler.\<close>

lemma fire:
  assumes "hw_ok s" "dev_ok s" "level s = IntOff"
  shows "\<exists>m s4. machine_delayed_load s = Some (s\<lparr>mach := m\<rparr>)
    \<and> H h a (s\<lparr>mach := m, inHandler := True, status := SystemMode\<rparr>) = Some s4
    \<and> handler_effect s s4 \<and> dev_ok s4"
proof -
  from assms(1) have "mach_ok s" by (simp add: hw_ok_def)
  from machine_delayed_load_ok [OF this] obtain m where m: "machine_delayed_load s = Some (s\<lparr>mach := m\<rparr>)"
    "mach_ok (s\<lparr>mach := m\<rparr>)" by blast
  let ?s = "s\<lparr>mach := m, inHandler := True, status := SystemMode\<rparr>"
  have "hw_ok ?s" using assms(1) m(2) by (simp add: hw_ok_def ticks_ok_def mach_ok_def)
  then obtain s4 where "H h a ?s = Some s4" "handler_effect ?s s4" "dev_ok s4"
    using handler_law [of ?s h a] assms(2,3) by auto
  with m(1) show ?thesis by (auto simp: handler_effect_def clocks_def now_def)
qed

lemma CheckIfDue_now:
  assumes "hw_ok s" "dev_ok s" "level s = IntOff" "\<not> calm s"
  shows "\<exists>s'. CheckIfDue H False s = Some (True, s') \<and> hw_ok s' \<and> dev_ok s' \<and> level s' = IntOff
    \<and> clocks s' = clocks s \<and> status s' = status s
    \<and> length (filter (\<lambda>q. fst q \<le> now s) (pending s')) < length (filter (\<lambda>q. fst q \<le> now s) (pending s))"
proof -
  from assms(4) obtain k p rest where ps: "pending s = (k, p) # rest"
    by (cases "pending s") (auto simp: calm_def no_due_def)
  have due: "k \<le> now s"
    using assms(1,4) ps by (auto simp: calm_def no_due_def hw_ok_def not_le)
  have idle: "\<not> (status s = IdleMode \<and> int_type p = TimerInt \<and> rest = [])"
    using assms(4) ps by (auto simp: calm_def)
  let ?s = "s\<lparr>pending := rest\<rparr>"
  have "hw_ok ?s" using assms(1) ps by (simp add: hw_ok_def ticks_ok_def mach_ok_def)
  from fire [OF this, of "handler p" "arg p"] assms(2,3) obtain m s4 where
    f: "machine_delayed_load ?s = Some (?s\<lparr>mach := m\<rparr>)"
      "H (handler p) (arg p) (?s\<lparr>mach := m, inHandler := True, status := SystemMode\<rparr>) = Some s4"
    and e: "handler_effect ?s s4" "dev_ok s4" by auto
  have "CheckIfDue H False s = Some (True, s4\<lparr>status := status s, inHandler := False\<rparr>)"
    using assms(3) ps due idle f by (simp add: CheckIfDue_def Let_def)
  moreover obtain new where new: "pending s4 = insert_all new rest" "\<forall>q \<in> set new. now s < fst q"
    using e(1) by (auto simp: handler_effect_def now_def)
  ultimately show ?thesis
    using e due ps assms(1) insert_all_later [OF new(2), of rest] insert_all_sorted [of rest new]
    by (auto simp: handler_effect_def clocks_def hw_ok_def ticks_ok_def mach_ok_def)
qed

lemma CheckIfDue_calm:
  assumes "hw_ok s" "level s = IntOff" "calm s"
  shows "\<exists>ps. CheckIfDue H False s = Some (False, s\<lparr>pending := ps\<rparr>) \<and> mset ps = mset (pending s)
    \<and> sorted (map fst ps)"
proof (cases "pending s")
  case Nil
  then have "s\<lparr>pending := []\<rparr> = s" by simp
  with Nil show ?thesis using assms(2) by (intro exI [of _ "[]"]) (simp add: CheckIfDue_def)
next
  case (Cons q rest)
  obtain k p where q: "q = (k, p)" by force
  have "CheckIfDue H False s = Some (False, s\<lparr>pending := insert_key k p rest\<rparr>)"
    using assms(2,3) Cons q by (auto simp: CheckIfDue_def calm_def no_due_def Let_def)
  moreover have "sorted (map fst rest)" using assms(1) Cons by (simp add: hw_ok_def)
  ultimately show ?thesis
    using Cons q insert_key_sorted [of rest k p] by (auto simp: insert_key_mset)
qed

text \<open>The loop over the due interrupts ends, at the same clock reading, with nothing left to do.\<close>

lemma check_all_due_ends:
  assumes "hw_ok s" "dev_ok s" "level s = IntOff"
  shows "\<exists>s'. check_all_due H s = Some s' \<and> hw_ok s' \<and> dev_ok s' \<and> level s' = IntOff
    \<and> clocks s' = clocks s \<and> status s' = status s \<and> calm s'"
  using assms
proof (induction "length (filter (\<lambda>q. fst q \<le> now s) (pending s))" arbitrary: s rule: less_induct)
  case less
  show ?case
  proof (cases "calm s")
    case True
    from CheckIfDue_calm [OF less.prems(1,3) True] obtain ps where
      c: "CheckIfDue H False s = Some (False, s\<lparr>pending := ps\<rparr>)" "mset ps = mset (pending s)" "sorted (map fst ps)"
      by blast
    have "check_all_due H s = Some (s\<lparr>pending := ps\<rparr>)"
      by (subst check_all_due.simps) (simp add: c(1))
    moreover have "calm (s\<lparr>pending := ps\<rparr>)"
      using True c(2) mset_eq_setD [OF c(2)] by (auto simp: calm_def no_due_def now_def)
    ultimately show ?thesis
      using less.prems c(3) by (simp add: hw_ok_def ticks_ok_def mach_ok_def clocks_def)
  next
    case False
    from CheckIfDue_now [OF less.prems False] obtain s1 where
      s1: "CheckIfDue H False s = Some (True, s1)" "hw_ok s1" "dev_ok s1" "level s1 = IntOff"
        "clocks s1 = clocks s" "status s1 = status s"
        "length (filter (\<lambda>q. fst q \<le> now s) (pending s1)) < length (filter (\<lambda>q. fst q \<le> now s) (pending s))"
      by blast
    have "now s1 = now s" using s1(5) by (simp add: clocks_def now_def)
    with less.hyps [of s1] s1 show ?thesis by (subst check_all_due.simps) auto
  qed
qed

text \<open>Outside the idle loop, the loop serves exactly the interrupts that are due, in order.\<close>

lemma check_all_due_serves:
  assumes "hw_ok s" "dev_ok s" "level s = IntOff" "status s \<noteq> IdleMode"
  shows "\<exists>s1. serve_interrupts H (due_interrupts s) s = Some s1 \<and> check_all_due H s = Some (requeue s1)"
  using assms
proof (induction "due_interrupts s" arbitrary: s)
  case Nil
  then have n: "no_due s" by (metis no_due_interrupts)
  have "CheckIfDue H False s = Some (False, requeue s)"
  proof (cases "pending s")
    case Nil
    then have "s\<lparr>pending := []\<rparr> = s" by simp
    then show ?thesis using \<open>level s = IntOff\<close> Nil by (simp add: CheckIfDue_def requeue_def)
  next
    case (Cons q rest)
    then show ?thesis using \<open>level s = IntOff\<close> n by (auto simp: CheckIfDue_def requeue_def no_due_def Let_def split: prod.splits)
  qed
  then have "check_all_due H s = Some (requeue s)" by (subst check_all_due.simps) simp
  then show ?case by (simp add: Nil.hyps [symmetric])
next
  case (Cons q qs)
  then have "\<not> no_due s" by (metis no_due_interrupts list.distinct(1))
  with due_interrupts_Cons [of s] Cons.prems(1) obtain k p rest where ps: "pending s = (k, p) # rest" "k \<le> now s"
    "due_interrupts s = (k, p) # filter (\<lambda>q. fst q \<le> now s) rest" by (auto simp: hw_ok_def)
  have q: "q = (k, p)" "qs = filter (\<lambda>q. fst q \<le> now s) rest" using Cons.hyps(2) ps(3) by simp_all
  let ?s = "s\<lparr>pending := rest\<rparr>"
  have "hw_ok ?s" using Cons.prems(1) ps by (simp add: hw_ok_def ticks_ok_def mach_ok_def)
  from fire [OF this, of "handler p" "arg p"] Cons.prems(2,3) obtain m s4 where
    f: "machine_delayed_load ?s = Some (?s\<lparr>mach := m\<rparr>)"
      "H (handler p) (arg p) (?s\<lparr>mach := m, inHandler := True, status := SystemMode\<rparr>) = Some s4"
    and e: "handler_effect ?s s4" "dev_ok s4" by auto
  let ?s5 = "s4\<lparr>status := status s, inHandler := False\<rparr>"
  have serve: "serve_interrupt H q s = Some ?s5" using f by (simp add: serve_interrupt_def ps(1) q(1))
  have check: "CheckIfDue H False s = Some (True, ?s5)" using Cons.prems(3,4) ps f by (simp add: CheckIfDue_def Let_def)
  obtain new where new: "pending s4 = insert_all new rest" "\<forall>q \<in> set new. now s < fst q" "now s4 = now s" "level s4 = IntOff"
    using e(1) by (auto simp: handler_effect_def now_def clocks_def)
  have "hw_ok ?s5"
    using e(1) new(1) Cons.prems(1) ps insert_all_sorted [of rest new] by (auto simp: handler_effect_def clocks_def hw_ok_def ticks_ok_def mach_ok_def)
  moreover have "now ?s5 = now s" using new(3) by (simp add: now_def)
  then have d: "qs = due_interrupts ?s5" using insert_all_later [OF new(2), of rest] new(1) q(2) by (simp add: due_interrupts_def)
  ultimately obtain s1 where "serve_interrupts H qs ?s5 = Some s1" "check_all_due H ?s5 = Some (requeue s1)"
    using Cons.hyps(1) [OF d] Cons.prems(4) e(2) new(4) unfolding d by auto
  then show ?case unfolding Cons.hyps(2) [symmetric] using serve check by (subst check_all_due.simps) simp
qed

text \<open>
  One tick: the clock moves by the cost of the mode the machine is in, every interrupt that is due
  by then is served, and the state handed to \<open>Y\<close> or returned has interrupts enabled again.
\<close>

lemma OneTick_serves_due:
  assumes "hw_ok s" "dev_ok s" "status s \<noteq> IdleMode"
  shows "\<exists>s2. hw_ok s2 \<and> dev_ok s2 \<and> level s2 = IntOn \<and> clocks s2 = clocks (count_tick s)
    \<and> status s2 = status s \<and> no_due s2
    \<and> (\<exists>s1. serve_interrupts H (due_interrupts (ChangeLevel IntOff (count_tick s))) (ChangeLevel IntOff (count_tick s)) = Some s1
         \<and> s2 = ChangeLevel IntOn (requeue s1))
    \<and> OneTick H Y s = (if yieldOnReturn s2 then
          map_option (\<lambda>s3. s3\<lparr>status := status s\<rparr>) (Y (s2\<lparr>yieldOnReturn := False, status := SystemMode\<rparr>))
        else Some s2)"
proof -
  let ?s = "ChangeLevel IntOff (count_tick s)"
  have st: "status ?s = status s" "level ?s = IntOff" "clocks ?s = clocks (count_tick s)" "dev_ok ?s = dev_ok s"
    by (simp_all add: ChangeLevel_def count_tick_def clocks_def)
  have "hw_ok ?s"
    using assms(1) by (simp add: hw_ok_def ticks_ok_def mach_ok_def ChangeLevel_def count_tick_def now_def)
  then have ok: "hw_ok ?s" "dev_ok ?s" "status ?s \<noteq> IdleMode" using st assms(2,3) by simp_all
  from check_all_due_ends [OF ok(1,2) st(2)] st obtain s1 where s1: "check_all_due H ?s = Some s1" "hw_ok s1"
    "dev_ok s1" "clocks s1 = clocks (count_tick s)" "status s1 = status s" "calm s1" by metis
  obtain r where r: "serve_interrupts H (due_interrupts ?s) ?s = Some r" "s1 = requeue r"
    using check_all_due_serves [OF ok(1,2) st(2) ok(3)] s1(1) by auto
  then have sv: "\<exists>r. serve_interrupts H (due_interrupts ?s) ?s = Some r \<and> ChangeLevel IntOn s1 = ChangeLevel IntOn (requeue r)" by auto
  have "no_due s1" using s1(5,6) assms(3) by (simp add: calm_def)
  with s1 sv show ?thesis
    by (intro exI [of _ "ChangeLevel IntOn s1"])
      (auto simp: OneTick_def Let_def ChangeLevel_def hw_ok_def ticks_ok_def mach_ok_def clocks_def no_due_def
        now_def map_conv_bind_option comp_def)
qed

text \<open>
  The idle loop: when an interrupt is pending, and not only the timer, the clock jumps to the first one
  (never backwards, never past it) and that one and all others due by then are served.
\<close>

lemma Idle_serves_next:
  assumes "hw_ok s" "dev_ok s" "level s = IntOff" "pending s = (k, p) # rest"
    "int_type p \<noteq> TimerInt \<or> rest \<noteq> []"
  shows "\<exists>s'. Idle H s = Some (True, s') \<and> hw_ok s' \<and> dev_ok s' \<and> level s' = IntOff
    \<and> now s' = max (now s) k \<and> idleTicks (stats s') = idleTicks (stats s) + max 0 (k - now s)
    \<and> systemTicks (stats s') = systemTicks (stats s) \<and> userTicks (stats s') = userTicks (stats s)
    \<and> status s' = SystemMode \<and> \<not> yieldOnReturn s'
    \<and> (no_due s' \<or> (\<exists>k p. pending s' = [(k, p)] \<and> int_type p = TimerInt))"
proof -
  let ?s0 = "s\<lparr>status := IdleMode, pending := rest\<rparr>"
  define s2 where "s2 = (if k > now s then advance_clock k ?s0 else ?s0)"
  have s2: "hw_ok s2" "dev_ok s2" "level s2 = IntOff" "now s2 = max (now s) k"
    "idleTicks (stats s2) = idleTicks (stats s) + max 0 (k - now s)"
    "systemTicks (stats s2) = systemTicks (stats s)" "userTicks (stats s2) = userTicks (stats s)"
    using assms by (auto simp: s2_def advance_clock_def hw_ok_def ticks_ok_def mach_ok_def now_def)
  from fire [OF s2(1-3), of "handler p" "arg p"] obtain m s4 where
    f: "machine_delayed_load s2 = Some (s2\<lparr>mach := m\<rparr>)"
      "H (handler p) (arg p) (s2\<lparr>mach := m, inHandler := True, status := SystemMode\<rparr>) = Some s4"
    and e: "handler_effect s2 s4" "dev_ok s4" by blast
  let ?s5 = "s4\<lparr>status := IdleMode, inHandler := False\<rparr>"
  have c: "CheckIfDue H True (s\<lparr>status := IdleMode\<rparr>) = Some (True, ?s5)"
    using assms(3-5) f by (auto simp: CheckIfDue_def Let_def s2_def now_def)
  have "hw_ok ?s5"
    using e(1) s2(1) insert_all_sorted
    by (auto simp: handler_effect_def hw_ok_def ticks_ok_def mach_ok_def clocks_def)
  from check_all_due_ends [OF this] e obtain s6 where s6: "check_all_due H ?s5 = Some s6" "hw_ok s6"
    "dev_ok s6" "level s6 = IntOff" "clocks s6 = clocks ?s5" "calm s6" by (auto simp: handler_effect_def)
  from s6(5) e(1) have "clocks s6 = clocks s2" by (simp add: handler_effect_def clocks_def)
  with s6 c s2 show ?thesis
    by (intro exI [of _ "s6\<lparr>yieldOnReturn := False, status := SystemMode\<rparr>"])
      (auto simp: Idle_def hw_ok_def ticks_ok_def mach_ok_def clocks_def now_def calm_def no_due_def)
qed

end

section \<open>Invariants that relate the pending interrupts to the devices\<close>

text \<open>The delayed load that an interrupt completes has been completed already, as it is while the kernel runs on behalf of a user program.\<close>

definition settled :: "('h, 'z) hw_scheme \<Rightarrow> bool" where
  "settled s \<longleftrightarrow> machine_delayed_load s = Some s"

lemma settled_mach: "settled s \<longleftrightarrow> (\<forall>m. mach s = Some m \<longrightarrow> DelayedLoad 0 0 m = Some m)"
proof (cases "mach s")
  case (Some m)
  show ?thesis
  proof
    assume "settled s"
    then obtain m' where "DelayedLoad 0 0 m = Some m'" "s\<lparr>mach := Some m'\<rparr> = s"
      using Some by (auto simp: settled_def machine_delayed_load_def bind_eq_Some_conv)
    then show "\<forall>m. mach s = Some m \<longrightarrow> DelayedLoad 0 0 m = Some m"
      using Some by (metis option.inject hw.select_convs(7) hw.surjective hw.update_convs(7))
  next
    assume "\<forall>m. mach s = Some m \<longrightarrow> DelayedLoad 0 0 m = Some m"
    then show "settled s" using Some by (simp add: settled_def machine_delayed_load_def)
  qed
qed (simp add: settled_def machine_delayed_load_def)

text \<open>
  \<open>J\<close> is an invariant of the multiset of pending interrupts together with the devices and the kernel: serving one of the
  interrupts keeps it.
\<close>

locale device_protocol = device_handlers H dev_ok
  for H :: "'h \<Rightarrow> int \<Rightarrow> ('h, 'z) hw_scheme \<Rightarrow> ('h, 'z) hw_scheme option"
    and dev_ok :: "('h, 'z) hw_scheme \<Rightarrow> bool" +
  fixes J :: "(int \<times> 'h PendingInterrupt) multiset \<Rightarrow> ('h, 'z) hw_scheme \<Rightarrow> bool"
  assumes J_frame: "hw.more s' = hw.more s \<Longrightarrow> J M s' = J M s"
    and J_law: "J (add_mset (k, p) (mset (pending s))) s \<Longrightarrow> dev_ok s \<Longrightarrow> level s = IntOff \<Longrightarrow>
      H (handler p) (arg p) s = Some s' \<Longrightarrow>
      J (mset (pending s')) s' \<and> mach s' = mach s \<and> yieldOnReturn s' = yieldOnReturn s"
begin

abbreviation kept where
  "kept s \<equiv> hw_ok s \<and> dev_ok s \<and> level s = IntOff \<and> \<not> inHandler s \<and> settled s \<and> J (mset (pending s)) s"

lemma J_hw [simp]:
  "J M (s\<lparr>pending := ps\<rparr>) = J M s" "J M (s\<lparr>stats := st\<rparr>) = J M s" "J M (s\<lparr>mach := m\<rparr>) = J M s"
  "J M (s\<lparr>inHandler := b\<rparr>) = J M s" "J M (s\<lparr>status := u\<rparr>) = J M s" "J M (s\<lparr>level := l\<rparr>) = J M s"
  "J M (s\<lparr>yieldOnReturn := b\<rparr>) = J M s"
  by (rule J_frame, simp)+

lemma CheckIfDue_J:
  assumes "kept s" "CheckIfDue H adv s = Some (b, s')"
  shows "kept s' \<and> mach s' = mach s \<and> yieldOnReturn s' = yieldOnReturn s"
proof (cases "pending s")
  case Nil
  then show ?thesis using assms by (auto simp: CheckIfDue_def bind_eq_Some_conv)
next
  case (Cons q rest)
  obtain k p where q: "q = (k, p)" by force
  have sorted: "sorted (map fst (insert_key k p rest))" "sorted (map fst rest)"
    using assms(1) Cons by (auto simp: hw_ok_def insert_key_sorted)
  define s2 where "s2 = (if k > now s then advance_clock k (s\<lparr>pending := rest\<rparr>) else s\<lparr>pending := rest\<rparr>)"
  have s2: "hw_ok s2" "dev_ok s2" "level s2 = IntOff" "settled s2" "pending s2 = rest" "mach s2 = mach s"
    "yieldOnReturn s2 = yieldOnReturn s" "J (add_mset (k, p) (mset rest)) s2" "\<not> inHandler s2"
    using assms(1) Cons q sorted
    by (auto simp: s2_def advance_clock_def hw_ok_def ticks_ok_def mach_ok_def settled_mach now_def)
  have calm_case: ?thesis if "s' = s2\<lparr>pending := insert_key k p rest\<rparr> \<or> s' = s\<lparr>pending := insert_key k p rest\<rparr>"
    using that assms(1) s2 sorted Cons q
    by (auto simp: hw_ok_def ticks_ok_def mach_ok_def settled_mach insert_key_mset)
  show ?thesis
  proof (cases "(k > now s \<and> \<not> adv) \<or> (status s = IdleMode \<and> int_type p = TimerInt \<and> rest = [])")
    case True
    then show ?thesis
      using assms Cons q calm_case by (auto simp: CheckIfDue_def Let_def s2_def split: if_splits)
  next
    case False
    let ?s3 = "s2\<lparr>inHandler := True, status := SystemMode\<rparr>"
    from False assms Cons q s2(4) obtain s4 where
      h: "H (handler p) (arg p) ?s3 = Some s4" and s': "s' = s4\<lparr>status := status s, inHandler := False\<rparr>"
      by (auto simp: CheckIfDue_def Let_def s2_def settled_def bind_eq_Some_conv split: if_splits)
    have "hw_ok ?s3" using s2(1) by (simp add: hw_ok_def ticks_ok_def mach_ok_def)
    with handler_law [of ?s3 "handler p" "arg p"] s2(2,3) h have e: "handler_effect ?s3 s4" "dev_ok s4" by auto
    have j: "J (mset (pending s4)) s4" "mach s4 = mach s" "yieldOnReturn s4 = yieldOnReturn s"
      using J_law [of k p ?s3 s4] h s2 by auto
    have "hw_ok s4"
      using e(1) s2(1) insert_all_sorted by (auto simp: handler_effect_def hw_ok_def ticks_ok_def clocks_def)
    with e j s' assms(1) show ?thesis
      by (auto simp: handler_effect_def settled_mach hw_ok_def ticks_ok_def mach_ok_def)
  qed
qed

lemma check_all_due_J:
  assumes "check_all_due H s = Some s'" "kept s"
  shows "kept s' \<and> mach s' = mach s \<and> yieldOnReturn s' = yieldOnReturn s"
proof -
  have "G = H \<Longrightarrow> kept s \<Longrightarrow> kept s' \<and> mach s' = mach s \<and> yieldOnReturn s' = yieldOnReturn s"
    if "check_all_due G s = Some s'" for G
    using that
  proof (induction G s s' rule: check_all_due.raw_induct [rotated, consumes 1])
    case (1 due G s s')
    from 1(2) obtain b s1 where c: "CheckIfDue G False s = Some (b, s1)" and
      rest: "if b then due G s1 = Some s' else s1 = s'"
      by (auto simp: bind_eq_Some_conv split: if_splits)
    note k = CheckIfDue_J [OF 1(4) c [unfolded 1(3)]]
    show ?case
    proof (cases b)
      case True
      with rest 1(1) [OF _ 1(3), of s1 s'] k show ?thesis by auto
    next
      case False
      with rest k show ?thesis by simp
    qed
  qed
  with assms show ?thesis by blast
qed

text \<open>One idle round: it returns, having served what is due, and advances the clock when nothing was due before.\<close>

lemma Idle_first_J:
  assumes "hw_ok s" "dev_ok s" "level s = IntOff" "settled s" "pending s = (k, p) # rest" "int_type p \<noteq> TimerInt \<or> rest \<noteq> []"
    and first: "\<And>s2 s4. hw.more s2 = hw.more s \<Longrightarrow> pending s2 = rest \<Longrightarrow> level s2 = IntOff \<Longrightarrow>
      H (handler p) (arg p) s2 = Some s4 \<Longrightarrow> J (mset (pending s4)) s4 \<and> mach s4 = mach s2"
  shows "\<exists>s'. Idle H s = Some (True, s') \<and> kept s' \<and> mach s' = mach s \<and> now s' = max (now s) k
    \<and> status s' = SystemMode \<and> \<not> yieldOnReturn s' \<and> (no_due s' \<or> (\<exists>k p. pending s' = [(k, p)] \<and> int_type p = TimerInt))"
proof -
  from Idle_serves_next [OF assms(1-3,5,6)] obtain s' where s': "Idle H s = Some (True, s')" "hw_ok s'" "dev_ok s'"
    "level s' = IntOff" "now s' = max (now s) k" "status s' = SystemMode" "\<not> yieldOnReturn s'"
    "no_due s' \<or> (\<exists>k p. pending s' = [(k, p)] \<and> int_type p = TimerInt)" by auto
  obtain s1 s5 where c: "CheckIfDue H True (s\<lparr>status := IdleMode\<rparr>) = Some (True, s1)" "check_all_due H s1 = Some s5"
    "s' = s5\<lparr>yieldOnReturn := False, status := SystemMode\<rparr>"
    using s'(1) by (auto simp: Idle_def bind_eq_Some_conv split: if_splits)
  let ?s = "s\<lparr>status := IdleMode, pending := rest\<rparr>"
  define s2 where "s2 = (if k > now s then advance_clock k ?s else ?s)\<lparr>inHandler := True, status := SystemMode\<rparr>"
  have s2: "hw_ok s2" "dev_ok s2" "level s2 = IntOff" "pending s2 = rest" "hw.more s2 = hw.more s" "mach s2 = mach s"
    "settled (if k > now s then advance_clock k ?s else ?s)"
    using assms(1-5)
    by (auto simp: s2_def advance_clock_def hw_ok_def ticks_ok_def mach_ok_def now_def settled_mach)
  from c(1) assms(3,5,6) s2(7) obtain s4 where h: "H (handler p) (arg p) s2 = Some s4" and
    s1: "s1 = s4\<lparr>status := IdleMode, inHandler := False\<rparr>"
    by (auto simp: CheckIfDue_def Let_def s2_def settled_def now_def bind_eq_Some_conv split: if_splits)
  from handler_law [OF s2(1,2) _ s2(3), of "handler p" "arg p"] h have e: "handler_effect s2 s4" "dev_ok s4"
    by (auto simp: s2_def)
  have "hw_ok s1"
    using e(1) s2(1) s1 insert_all_sorted by (auto simp: handler_effect_def hw_ok_def ticks_ok_def mach_ok_def clocks_def)
  with first [OF s2(5,4,3) h] e s1 s2(6) assms(4) have k1: "kept s1" "mach s1 = mach s"
    by (auto simp: settled_mach handler_effect_def)
  from check_all_due_J [OF c(2) k1(1)] have "J (mset (pending s5)) s5" "mach s5 = mach s1" "\<not> inHandler s5" by blast+
  with c(3) k1(2) have "J (mset (pending s')) s'" "\<not> inHandler s'" and m: "mach s' = mach s" by simp_all
  moreover have "settled s'" using m assms(4) by (simp add: settled_mach)
  ultimately show ?thesis using s' by blast
qed

lemma Idle_J:
  assumes "kept s" "pending s = (k, p) # rest" "int_type p \<noteq> TimerInt \<or> rest \<noteq> []"
  shows "\<exists>s'. Idle H s = Some (True, s') \<and> kept s' \<and> mach s' = mach s \<and> now s' = max (now s) k
    \<and> status s' = SystemMode \<and> \<not> yieldOnReturn s' \<and> (no_due s' \<or> (\<exists>k p. pending s' = [(k, p)] \<and> int_type p = TimerInt))"
proof (rule Idle_first_J)
  fix s2 s4 assume h: "hw.more s2 = hw.more s" "pending s2 = rest" "level s2 = IntOff" "H (handler p) (arg p) s2 = Some s4"
  have "J (add_mset (k, p) (mset (pending s2))) s2" "dev_ok s2"
    using assms J_frame [OF h(1)] dev_frame [OF h(1)] h(2) by auto
  with J_law h(3,4) show "J (mset (pending s4)) s4 \<and> mach s4 = mach s2" by blast
qed (use assms in auto)

text \<open>One tick of the clock in system mode.\<close>

lemma OneTick_J:
  assumes "kept (s\<lparr>level := IntOff\<rparr>)" "status s = SystemMode" "\<not> yieldOnReturn s"
  shows "\<exists>s'. OneTick H Y s = Some s' \<and> kept (s'\<lparr>level := IntOff\<rparr>) \<and> level s' = IntOn \<and> mach s' = mach s
    \<and> now s' = now s + SystemTick \<and> status s' = SystemMode \<and> \<not> yieldOnReturn s' \<and> no_due s'"
proof -
  have k0: "hw_ok s" "dev_ok s" using assms(1) by (auto simp: hw_ok_def ticks_ok_def mach_ok_def)
  from OneTick_serves_due [OF k0, of Y] assms(2) obtain s2 where s2: "level s2 = IntOn" "clocks s2 = clocks (count_tick s)"
    "status s2 = status s" "no_due s2"
    "OneTick H Y s = (if yieldOnReturn s2 then
          map_option (\<lambda>s3. s3\<lparr>status := status s\<rparr>) (Y (s2\<lparr>yieldOnReturn := False, status := SystemMode\<rparr>))
        else Some s2)" by auto
  let ?s = "ChangeLevel IntOff (count_tick s)"
  have k: "kept ?s" and m: "mach ?s = mach s" "yieldOnReturn ?s = yieldOnReturn s"
    using assms(1) by (auto simp: hw_ok_def ticks_ok_def mach_ok_def settled_mach ChangeLevel_def count_tick_def now_def)
  from check_all_due_ends k obtain s1 where c: "check_all_due H ?s = Some s1" "clocks s1 = clocks ?s" "status s1 = status ?s"
    "calm s1" by blast
  note k1 = check_all_due_J [OF c(1) k]
  have "OneTick H Y s = Some (ChangeLevel IntOn s1)"
    using c(1) k1 m assms(3) by (simp add: OneTick_def Let_def ChangeLevel_def)
  moreover have "now s1 = now s + SystemTick" "no_due s1"
    using c(2-4) assms(2) by (auto simp: calm_def clocks_def count_tick_def ChangeLevel_def now_def)
  ultimately show ?thesis
    using k1 m c(3) assms(2,3)
    by (auto simp: ChangeLevel_def settled_mach hw_ok_def ticks_ok_def mach_ok_def no_due_def now_def count_tick_def)
qed

end

end
