(* ===== verification/Bitmap.thy ===== *)
theory Bitmap
  imports Nachos_Prelude
begin

text \<open>
  userprog/bitmap.h and userprog/bitmap.cc: an array of bits stored in 32-bit words.

  The state is the class's three fields. The words come from \<^verbatim>\<open>new unsigned int[numWords]\<close>
  and are not initialised by the allocation, so the constructor takes their contents as an
  argument \<open>junk\<close>. The abstraction \<open>marked\<close> is the set of the bits that are on; every
  operation is shown to act on that set, and the locale \<open>slot_allocator\<close> states the contract
  that the file system (disk sectors), the address spaces (page frames), the process table and
  the semaphore table rely on.
\<close>

section \<open>State and operations\<close>

record bitmap =
  numBits :: int
  numWords :: int
  map_words :: "word32 list"

definition BitsInWord :: nat where
  "BitsInWord = 32"

definition Mark :: "bitmap \<Rightarrow> int \<Rightarrow> bitmap option" where
  "Mark b which = do {
     ASSERT (which \<ge> 0 \<and> which < numBits b);
     w \<leftarrow> array_get (map_words b) (nat which div BitsInWord);
     ws \<leftarrow> array_set (map_words b) (nat which div BitsInWord)
             (w OR push_bit (nat which mod BitsInWord) 1);
     Some (b\<lparr>map_words := ws\<rparr>) }"

definition Clear :: "bitmap \<Rightarrow> int \<Rightarrow> bitmap option" where
  "Clear b which = do {
     ASSERT (which \<ge> 0 \<and> which < numBits b);
     w \<leftarrow> array_get (map_words b) (nat which div BitsInWord);
     ws \<leftarrow> array_set (map_words b) (nat which div BitsInWord)
             (w AND NOT (push_bit (nat which mod BitsInWord) 1));
     Some (b\<lparr>map_words := ws\<rparr>) }"

definition Test :: "bitmap \<Rightarrow> int \<Rightarrow> bool option" where
  "Test b which = do {
     ASSERT (which \<ge> 0 \<and> which < numBits b);
     w \<leftarrow> array_get (map_words b) (nat which div BitsInWord);
     Some (w AND push_bit (nat which mod BitsInWord) 1 \<noteq> 0) }"

text \<open>The loops over the bit numbers, from \<open>i\<close> on.\<close>

function Find_from :: "bitmap \<Rightarrow> int \<Rightarrow> (int \<times> bitmap) option" where
  "Find_from b i =
     (if i < numBits b
      then do { t \<leftarrow> Test b i;
                if \<not> t then do { b' \<leftarrow> Mark b i; Some (i, b') }
                else Find_from b (i + 1) }
      else Some (-1, b))"
  by pat_completeness auto
termination
  by (relation "measure (\<lambda>(b, i). nat (numBits b - i))") auto

definition Find :: "bitmap \<Rightarrow> (int \<times> bitmap) option" where
  "Find b = Find_from b 0"

function NumClear_from :: "bitmap \<Rightarrow> int \<Rightarrow> int \<Rightarrow> int option" where
  "NumClear_from b i count =
     (if i < numBits b
      then do { t \<leftarrow> Test b i;
                NumClear_from b (i + 1) (if \<not> t then count + 1 else count) }
      else Some count)"
  by pat_completeness auto
termination
  by (relation "measure (\<lambda>(b, i, c). nat (numBits b - i))") auto

definition NumClear :: "bitmap \<Rightarrow> int option" where
  "NumClear b = NumClear_from b 0 0"

definition BitMap :: "int \<Rightarrow> word32 list \<Rightarrow> bitmap option" where
  "BitMap nitems junk = do {
     ASSERT (int (length junk) = divRoundUp nitems (int BitsInWord));
     each (\<lambda>i b. Clear b i) [0..nitems - 1]
       \<lparr>numBits = nitems, numWords = divRoundUp nitems (int BitsInWord), map_words = junk\<rparr> }"

text \<open>\<open>Print\<close> writes the numbers of the bits that are set; the model returns them.\<close>

definition Print_bits :: "bitmap \<Rightarrow> int list option" where
  "Print_bits b =
     those (map (Test b) [0..numBits b - 1]) \<bind>
       (\<lambda>ts. Some (map fst (filter snd (zip [0..numBits b - 1] ts))))"

declare Find_from.simps [simp del] NumClear_from.simps [simp del]

section \<open>Well-formedness and abstraction\<close>

definition wf_bitmap :: "bitmap \<Rightarrow> bool" where
  "wf_bitmap b \<longleftrightarrow> 0 \<le> numBits b \<and> numWords b = divRoundUp (numBits b) 32
     \<and> int (length (map_words b)) = numWords b"

definition bit_at :: "bitmap \<Rightarrow> int \<Rightarrow> bool" where
  "bit_at b i = bit (map_words b ! (nat i div BitsInWord)) (nat i mod BitsInWord)"

definition in_range :: "bitmap \<Rightarrow> int \<Rightarrow> bool" where
  "in_range b i \<longleftrightarrow> 0 \<le> i \<and> i < numBits b"

definition marked :: "bitmap \<Rightarrow> int set" where
  "marked b = {i. in_range b i \<and> bit_at b i}"

lemma word_index_bound:
  assumes "wf_bitmap b" "in_range b i"
  shows "nat i div BitsInWord < length (map_words b)"
proof -
  have "i < divRoundUp (numBits b) 32 * 32"
    using assms divRoundUp_bounds(1) [of "numBits b" 32]
    by (auto simp: wf_bitmap_def in_range_def)
  then show ?thesis
    using assms by (auto simp: wf_bitmap_def in_range_def BitsInWord_def)
qed

lemma Mark_eq:
  assumes "wf_bitmap b" "in_range b i"
  shows "Mark b i = Some (b\<lparr>map_words := (map_words b)[nat i div BitsInWord :=
     map_words b ! (nat i div BitsInWord) OR push_bit (nat i mod BitsInWord) 1]\<rparr>)"
  using word_index_bound [OF assms] assms(2) by (simp add: Mark_def in_range_def)

lemma Clear_eq:
  assumes "wf_bitmap b" "in_range b i"
  shows "Clear b i = Some (b\<lparr>map_words := (map_words b)[nat i div BitsInWord :=
     map_words b ! (nat i div BitsInWord) AND NOT (push_bit (nat i mod BitsInWord) 1)]\<rparr>)"
  using word_index_bound [OF assms] assms(2) by (simp add: Clear_def in_range_def)

lemma Test_eq:
  assumes "wf_bitmap b" "in_range b i"
  shows "Test b i = Some (i \<in> marked b)"
proof -
  have "nat i mod BitsInWord < LENGTH(32)"
    by (simp add: BitsInWord_def)
  from and_single_iff [OF this] show ?thesis
    using word_index_bound [OF assms] assms(2)
    by (simp add: Test_def in_range_def marked_def bit_at_def)
qed

text \<open>Two bit numbers share word and offset only when they are equal.\<close>

lemma bit_position_inj:
  assumes "0 \<le> i" "0 \<le> j" "nat i div BitsInWord = nat j div BitsInWord"
    "nat i mod BitsInWord = nat j mod BitsInWord"
  shows "i = j"
proof -
  have "nat i = nat j"
    using assms(3,4) by (metis div_mult_mod_eq)
  then show ?thesis using assms(1,2) by simp
qed

text \<open>Changing one word of the storage: what becomes of bit \<open>j\<close>.\<close>

lemma bit_at_update_word:
  assumes "wf_bitmap b" "in_range b i" "in_range b j"
    and upd: "\<And>m. m < BitsInWord \<Longrightarrow>
      bit w m = f (m = nat i mod BitsInWord) (bit (map_words b ! (nat i div BitsInWord)) m)"
    and same: "\<And>x. f False x = x"
  shows "bit_at (b\<lparr>map_words := (map_words b)[nat i div BitsInWord := w]\<rparr>) j =
    f (j = i) (bit_at b j)"
proof -
  have m: "nat j mod BitsInWord < BitsInWord" by (simp add: BitsInWord_def)
  note upd_j = nth_list_update_if [OF word_index_bound [OF assms(1,2)]]
  show ?thesis
  proof (cases "nat i div BitsInWord = nat j div BitsInWord")
    case True
    then have "(nat j mod BitsInWord = nat i mod BitsInWord) = (j = i)"
      using assms(2,3) bit_position_inj [of i j] by (auto simp: in_range_def)
    with True show ?thesis
      using word_index_bound [OF assms(1,3)] by (simp add: bit_at_def upd [OF m])
  next
    case False
    then have "j \<noteq> i" by blast
    with False show ?thesis
      by (simp add: bit_at_def upd_j same)
  qed
qed

lemma Mark_Some:
  assumes "wf_bitmap b" "in_range b i" "Mark b i = Some b'"
  shows "wf_bitmap b'" "numBits b' = numBits b" "marked b' = insert i (marked b)"
proof -
  note b' = assms(3) [unfolded Mark_eq [OF assms(1,2)], simplified, symmetric]
  show wf: "wf_bitmap b'" and n: "numBits b' = numBits b"
    using assms(1) by (auto simp: b' wf_bitmap_def)
  have "bit_at b' j = (j = i \<or> bit_at b j)" if "in_range b j" for j
    unfolding b' by (rule bit_at_update_word [OF assms(1,2) that])
      (auto simp: bit_set_single BitsInWord_def)
  then show "marked b' = insert i (marked b)"
    using assms(2) n by (auto simp: marked_def in_range_def)
qed

lemma Clear_Some:
  assumes "wf_bitmap b" "in_range b i" "Clear b i = Some b'"
  shows "wf_bitmap b'" "numBits b' = numBits b" "marked b' = marked b - {i}"
proof -
  note b' = assms(3) [unfolded Clear_eq [OF assms(1,2)], simplified, symmetric]
  show wf: "wf_bitmap b'" and n: "numBits b' = numBits b"
    using assms(1) by (auto simp: b' wf_bitmap_def)
  have "bit_at b' j = (\<not> j = i \<and> bit_at b j)" if "in_range b j" for j
    unfolding b' by (rule bit_at_update_word [OF assms(1,2) that])
      (auto simp: bit_clear_single BitsInWord_def)
  then show "marked b' = marked b - {i}"
    using assms(2) n by (auto simp: marked_def in_range_def)
qed

lemma Mark_total: "wf_bitmap b \<Longrightarrow> in_range b i \<Longrightarrow> \<exists>b'. Mark b i = Some b'"
  by (simp add: Mark_eq)

lemma Clear_total: "wf_bitmap b \<Longrightarrow> in_range b i \<Longrightarrow> \<exists>b'. Clear b i = Some b'"
  by (simp add: Clear_eq)

lemma Mark_out_of_range: "\<not> in_range b i \<Longrightarrow> Mark b i = None"
  by (auto simp: Mark_def in_range_def)

lemma Clear_out_of_range: "\<not> in_range b i \<Longrightarrow> Clear b i = None"
  by (auto simp: Clear_def in_range_def)

lemma finite_marked [simp]: "finite (marked b)"
  by (rule finite_subset [of _ "{0..<numBits b}"]) (auto simp: marked_def in_range_def)

lemma marked_subset: "marked b \<subseteq> {0..<numBits b}"
  by (auto simp: marked_def in_range_def)

section \<open>Searching and counting\<close>

lemma Find_from_spec:
  assumes "wf_bitmap b" "0 \<le> i" "{0..<i} \<subseteq> marked b"
  shows "(\<exists>k b'. Find_from b i = Some (k, b') \<and> in_range b k \<and> k \<notin> marked b
            \<and> {0..<k} \<subseteq> marked b \<and> Mark b k = Some b')
         \<or> Find_from b i = Some (-1, b) \<and> marked b = {0..<numBits b}"
  using assms
proof (induction b i rule: Find_from.induct)
  case (1 b i)
  show ?case
  proof (cases "i < numBits b")
    case False
    then have "{0..<numBits b} \<subseteq> {0..<i}" by auto
    with "1.prems"(3) marked_subset [of b] have "marked b = {0..<numBits b}" by blast
    with False show ?thesis by (simp add: Find_from.simps [of b i])
  next
    case True
    with "1.prems" have r: "in_range b i" by (simp add: in_range_def)
    note t = Test_eq [OF "1.prems"(1) r]
    show ?thesis
    proof (cases "i \<in> marked b")
      case False
      obtain b' where "Mark b i = Some b'"
        using Mark_total [OF "1.prems"(1) r] by blast
      then have "Find_from b i = Some (i, b')"
        using True False t by (simp add: Find_from.simps [of b i])
      with \<open>Mark b i = Some b'\<close> False r "1.prems"(3) show ?thesis by blast
    next
      case True
      have "{0..<i + 1} = insert i {0..<i}" using "1.prems"(2) by auto
      with True "1.prems"(3) have "{0..<i + 1} \<subseteq> marked b" by simp
      from "1.IH" [OF \<open>i < numBits b\<close> t _ "1.prems"(1) _ this] True "1.prems"(2)
      show ?thesis
        using t \<open>i < numBits b\<close> by (simp add: Find_from.simps [of b i])
    qed
  qed
qed

lemma Find_cases:
  assumes "wf_bitmap b"
  obtains (free) k b' where "Find b = Some (k, b')" "in_range b k" "k \<notin> marked b"
      "{0..<k} \<subseteq> marked b" "Mark b k = Some b'"
  | (full) "Find b = Some (-1, b)" "marked b = {0..<numBits b}"
  using Find_from_spec [OF assms, of 0] by (auto simp: Find_def)

lemma NumClear_from_spec:
  assumes "wf_bitmap b" "0 \<le> i"
  shows "NumClear_from b i c = Some (c + int (card ({i..<numBits b} - marked b)))"
  using assms
proof (induction b i c rule: NumClear_from.induct)
  case (1 b i c)
  show ?case
  proof (cases "i < numBits b")
    case False
    then show ?thesis by (simp add: NumClear_from.simps [of b i])
  next
    case True
    with "1.prems" have r: "in_range b i" by (simp add: in_range_def)
    note t = Test_eq [OF "1.prems"(1) r]
    have split: "{i..<numBits b} = insert i {i + 1..<numBits b}" using True by auto
    have "card ({i..<numBits b} - marked b) =
        of_bool (i \<notin> marked b) + card ({i + 1..<numBits b} - marked b)"
      unfolding split by (simp add: insert_Diff_if)
    then show ?thesis
      using "1.IH" [OF True t "1.prems"(1)] "1.prems"(2) True t
      by (simp add: NumClear_from.simps [of b i])
  qed
qed

lemma NumClear_eq:
  "wf_bitmap b \<Longrightarrow> NumClear b = Some (int (card ({0..<numBits b} - marked b)))"
  by (simp add: NumClear_def NumClear_from_spec)

section \<open>Construction\<close>

lemma Clear_each:
  assumes "wf_bitmap b" "\<forall>i \<in> set is. in_range b i"
  shows "\<exists>b'. each (\<lambda>i b. Clear b i) is b = Some b' \<and> wf_bitmap b' \<and> numBits b' = numBits b
    \<and> marked b' = marked b - set is"
  using assms
proof (induction "is" arbitrary: b)
  case Nil
  then show ?case by simp
next
  case (Cons i "is")
  then obtain b1 where b1: "Clear b i = Some b1" using Clear_total by fastforce
  note c = Clear_Some [OF Cons.prems(1) _ b1]
  have "\<forall>j \<in> set is. in_range b1 j" "wf_bitmap b1"
    using Cons.prems c by (auto simp: in_range_def)
  from Cons.IH [OF this(2,1)] c Cons.prems(2) b1 show ?case by auto
qed

lemma BitMap_correct:
  assumes "0 \<le> n" "int (length junk) = divRoundUp n 32"
  shows "\<exists>b. BitMap n junk = Some b \<and> wf_bitmap b \<and> numBits b = n \<and> marked b = {}"
proof -
  let ?b = "\<lparr>numBits = n, numWords = divRoundUp n (int BitsInWord), map_words = junk\<rparr>"
  have "wf_bitmap ?b" "\<forall>i \<in> set [0..n - 1]. in_range ?b i"
    using assms by (auto simp: wf_bitmap_def in_range_def BitsInWord_def)
  note cl = Clear_each [OF this]
  have "marked ?b - set [0..n - 1] = {}"
    using marked_subset [of ?b] by auto
  with cl show ?thesis
    using assms(2) by (auto simp: BitMap_def BitsInWord_def)
qed

section \<open>The allocator contract\<close>

text \<open>
  What the clients of a bitmap rely on: \<open>used\<close> is the set of allocated slot numbers,
  \<open>find\<close> takes a free slot or reports that there is none, \<open>clear\<close> gives one back.
\<close>

locale slot_allocator =
  fixes inv :: "'b \<Rightarrow> bool"
    and slots :: "'b \<Rightarrow> int"
    and used :: "'b \<Rightarrow> int set"
    and find :: "'b \<Rightarrow> (int \<times> 'b) option"
    and clear :: "'b \<Rightarrow> int \<Rightarrow> 'b option"
    and test :: "'b \<Rightarrow> int \<Rightarrow> bool option"
    and numclear :: "'b \<Rightarrow> int option"
  assumes used_range: "inv b \<Longrightarrow> used b \<subseteq> {0..<slots b}"
    and find_free: "inv b \<Longrightarrow> used b \<noteq> {0..<slots b} \<Longrightarrow>
      \<exists>k b'. find b = Some (k, b') \<and> 0 \<le> k \<and> k < slots b \<and> k \<notin> used b
        \<and> {0..<k} \<subseteq> used b \<and> inv b' \<and> slots b' = slots b \<and> used b' = insert k (used b)"
    and find_full: "inv b \<Longrightarrow> used b = {0..<slots b} \<Longrightarrow> find b = Some (-1, b)"
    and clear_slot: "inv b \<Longrightarrow> 0 \<le> k \<Longrightarrow> k < slots b \<Longrightarrow>
      \<exists>b'. clear b k = Some b' \<and> inv b' \<and> slots b' = slots b \<and> used b' = used b - {k}"
    and test_slot: "inv b \<Longrightarrow> 0 \<le> k \<Longrightarrow> k < slots b \<Longrightarrow> test b k = Some (k \<in> used b)"
    and numclear_free: "inv b \<Longrightarrow> numclear b = Some (int (card ({0..<slots b} - used b)))"
begin

lemma finite_used: "inv b \<Longrightarrow> finite (used b)"
  by (rule finite_subset [OF used_range finite_atLeastLessThan_int])

text \<open>Taking \<open>n\<close> slots in a row when at least \<open>n\<close> are free.\<close>

lemma alloc_n:
  assumes "inv b" "n \<le> card ({0..<slots b} - used b)"
  shows "\<exists>ks b'. collect_n find n b = Some (ks, b') \<and> length ks = n \<and> distinct ks
    \<and> set ks \<subseteq> {0..<slots b} - used b \<and> inv b' \<and> slots b' = slots b \<and> used b' = used b \<union> set ks"
  using assms
proof (induction n arbitrary: b)
  case 0
  then show ?case by simp
next
  case (Suc n)
  from Suc.prems(2) have "card ({0..<slots b} - used b) \<noteq> 0" by linarith
  then have "{0..<slots b} - used b \<noteq> {}" by (metis card.empty)
  then have "used b \<noteq> {0..<slots b}" by auto
  from find_free [OF Suc.prems(1) this] obtain k b1 where
    k: "find b = Some (k, b1)" "0 \<le> k" "k < slots b" "k \<notin> used b"
    and b1: "inv b1" "slots b1 = slots b" "used b1 = insert k (used b)" by blast
  have "{0..<slots b1} - used b1 = ({0..<slots b} - used b) - {k}"
    using b1 by auto
  then have "n \<le> card ({0..<slots b1} - used b1)"
    using Suc.prems(2) k by simp
  from Suc.IH [OF b1(1) this] k b1 show ?case
    by (fastforce simp: bind_eq_Some_conv)
qed

text \<open>Giving back distinct slots.\<close>

lemma free_each:
  assumes "inv b" "set ks \<subseteq> {0..<slots b}"
  shows "\<exists>b'. each (\<lambda>k b. clear b k) ks b = Some b' \<and> inv b' \<and> slots b' = slots b
    \<and> used b' = used b - set ks"
  using assms
proof (induction ks arbitrary: b)
  case Nil
  then show ?case by simp
next
  case (Cons k ks)
  then obtain b1 where "clear b k = Some b1" "inv b1" "slots b1 = slots b" "used b1 = used b - {k}"
    using clear_slot [of b k] by auto
  with Cons.IH [of b1] Cons.prems show ?case by auto
qed

text \<open>Allocating and giving back leaves the set of used slots as it was.\<close>

lemma alloc_free_restores:
  assumes "inv b" "n \<le> card ({0..<slots b} - used b)" "collect_n find n b = Some (ks, b1)"
  shows "\<exists>b2. each (\<lambda>k b. clear b k) ks b1 = Some b2 \<and> inv b2 \<and> used b2 = used b"
proof -
  from alloc_n [OF assms(1,2)] assms(3) have a: "set ks \<subseteq> {0..<slots b} - used b" "inv b1"
    "slots b1 = slots b" "used b1 = used b \<union> set ks" by auto
  then have "set ks \<subseteq> {0..<slots b1}" by auto
  from free_each [OF a(2) this] a show ?thesis by auto
qed

end

interpretation bm: slot_allocator wf_bitmap numBits marked Find Clear Test NumClear
proof unfold_locales
  fix b assume wf: "wf_bitmap b"
  show "marked b \<subseteq> {0..<numBits b}" by (rule marked_subset)
  show "NumClear b = Some (int (card ({0..<numBits b} - marked b)))"
    using wf by (rule NumClear_eq)
  {
    assume "marked b \<noteq> {0..<numBits b}"
    with Find_cases [OF wf] obtain k b' where k: "Find b = Some (k, b')" "in_range b k"
      "k \<notin> marked b" "{0..<k} \<subseteq> marked b" "Mark b k = Some b'" by metis
    with Mark_Some [OF wf k(2,5)] show "\<exists>k b'. Find b = Some (k, b') \<and> 0 \<le> k \<and> k < numBits b
        \<and> k \<notin> marked b \<and> {0..<k} \<subseteq> marked b \<and> wf_bitmap b' \<and> numBits b' = numBits b
        \<and> marked b' = insert k (marked b)"
      by (auto simp: in_range_def)
  }
  {
    assume "marked b = {0..<numBits b}"
    with wf show "Find b = Some (-1, b)"
      using Find_cases [OF wf] by (metis atLeastLessThan_iff in_range_def)
  }
  fix k :: int assume "0 \<le> k" "k < numBits b"
  then have r: "in_range b k" by (simp add: in_range_def)
  show "Test b k = Some (k \<in> marked b)" using wf r by (rule Test_eq)
  show "\<exists>b'. Clear b k = Some b' \<and> wf_bitmap b' \<and> numBits b' = numBits b
      \<and> marked b' = marked b - {k}"
    using Clear_total [OF wf r] Clear_Some [OF wf r] by blast
qed


section \<open>Properties of the bitmap\<close>

text \<open>C39. \<open>Find\<close> is first fit: on a well-formed bitmap it marks and returns the lowest clear bit, and returns
  -1 with the bitmap unchanged exactly when every bit is set; it never fails an assertion.\<close>

theorem find_first_fit:
  assumes "wf_bitmap b"
  shows "(marked b = {0..<numBits b} \<longrightarrow> Find b = Some (-1, b))
    \<and> (marked b \<noteq> {0..<numBits b} \<longrightarrow> (\<exists>k b'. Find b = Some (k, b') \<and> 0 \<le> k \<and> k < numBits b \<and> k \<notin> marked b
        \<and> {0..<k} \<subseteq> marked b \<and> wf_bitmap b' \<and> numBits b' = numBits b \<and> marked b' = insert k (marked b)))"
  using bm.find_full [OF assms] bm.find_free [OF assms] by blast

text \<open>A bitmap of 5 bits, with bits 0, 1 and 3 set.\<close>

definition sample_bitmap :: bitmap where
  "sample_bitmap = \<lparr>numBits = 5, numWords = 1, map_words = [11]\<rparr>"

lemma sample_bitmap_wf: "wf_bitmap sample_bitmap"
  by (simp add: wf_bitmap_def sample_bitmap_def divRoundUp_nonneg)

lemma sample_bitmap_find: "Find sample_bitmap = Some (2, sample_bitmap\<lparr>map_words := [15]\<rparr>)"
  by (simp add: Find_def Find_from.simps Test_def Mark_def sample_bitmap_def BitsInWord_def monad_simps)

theorem find_first_fit_witness:
  "wf_bitmap sample_bitmap \<and> marked sample_bitmap \<noteq> {0..<5} \<and> 2 \<notin> marked sample_bitmap
     \<and> Find sample_bitmap = Some (2, sample_bitmap\<lparr>map_words := [15]\<rparr>)"
proof -
  have "Find sample_bitmap \<noteq> Some (-1, sample_bitmap)" by (simp add: sample_bitmap_find)
  moreover have "numBits sample_bitmap = 5" by (simp add: sample_bitmap_def)
  ultimately show ?thesis using find_first_fit [OF sample_bitmap_wf] sample_bitmap_wf sample_bitmap_find
    by (metis Pair_inject option.inject)
qed

text \<open>Allocation never hands out a slot twice and loses none: with at least \<open>n\<close> clear bits, \<open>n\<close> calls of
  \<open>Find\<close> give \<open>n\<close> distinct bits that were clear, \<open>NumClear\<close> drops by \<open>n\<close>, and \<open>Clear\<close> of these bits
  restores the set of marked bits.\<close>

theorem alloc_then_free:
  assumes "wf_bitmap b" "n \<le> card ({0..<numBits b} - marked b)"
  shows "\<exists>ks b1 b2. collect_n Find n b = Some (ks, b1) \<and> length ks = n \<and> distinct ks
    \<and> set ks \<inter> marked b = {} \<and> NumClear b1 = Some (int (card ({0..<numBits b} - marked b)) - int n)
    \<and> each (\<lambda>k b. Clear b k) ks b1 = Some b2 \<and> wf_bitmap b2 \<and> marked b2 = marked b"
proof -
  from bm.alloc_n [OF assms] obtain ks b1 where a: "collect_n Find n b = Some (ks, b1)" "length ks = n"
    "distinct ks" "set ks \<subseteq> {0..<numBits b} - marked b" "wf_bitmap b1" "numBits b1 = numBits b"
    "marked b1 = marked b \<union> set ks" by blast
  have "card ({0..<numBits b} - marked b - set ks) = card ({0..<numBits b} - marked b) - n"
    using a(2-4) by (simp add: card_Diff_subset distinct_card)
  then have "NumClear b1 = Some (int (card ({0..<numBits b} - marked b)) - int n)"
    using bm.numclear_free [OF a(5)] a(6,7) assms(2) by (simp add: Diff_Un Diff_Diff_Int set_diff_eq Int_def conj_ac)
  with bm.alloc_free_restores [OF assms a(1)] a show ?thesis by blast
qed

theorem alloc_then_free_witness:
  "\<exists>ks b1 b2. collect_n Find 2 sample_bitmap = Some (ks, b1) \<and> length ks = 2
    \<and> each (\<lambda>k b. Clear b k) ks b1 = Some b2 \<and> marked b2 = marked sample_bitmap"
proof -
  have "NumClear sample_bitmap = Some 2"
    by (simp add: NumClear_def NumClear_from.simps Test_def sample_bitmap_def BitsInWord_def monad_simps)
  then have "2 \<le> card ({0..<numBits sample_bitmap} - marked sample_bitmap)"
    by (simp add: NumClear_eq [OF sample_bitmap_wf])
  from alloc_then_free [OF sample_bitmap_wf this] show ?thesis by blast
qed

end
