(* ===== verification/Address_Space.thy ===== *)
theory Address_Space
  imports Mips_Correct Bitmap
begin

text \<open>
  userprog/addrspace.h, userprog/addrspace.cc and bin/noff.h: the address space of a user program.

  An executable file is the list of its bytes. The constructors read the NOFF header, take one
  physical frame per page from the global bitmap \<^verbatim>\<open>gPhysPageBitMap\<close> and copy the code and data
  segments into main memory. \<open>load_result\<close> distinguishes the ways a constructor ends. A copy
  that would leave the memory array, and a deletion that happens twice, are \<open>None\<close>. The lock
  \<^verbatim>\<open>addrLock\<close> is modelled by its value: \<open>P\<close> takes one unit, \<open>V\<close> returns one (the blocking of
  \<open>P\<close> is the subject of theory \<open>Threads\<close>).
\<close>

section \<open>Executable files\<close>

definition NOFFMAGIC :: word32 where "NOFFMAGIC = 0xbadfad"

record Segment =
  virtualAddr :: word32
  inFileAddr :: word32
  seg_size :: word32

record NoffHeader =
  noffMagic :: word32
  code_seg :: Segment
  initData :: Segment
  uninitData :: Segment

definition UserStackSize :: nat where "UserStackSize = 1024"

text \<open>
  \<open>OpenFile::ReadAt\<close> of the stub file system (filesys/openfile.h): seek, which asserts that the
  position is not negative, then read what there is, at most \<open>n\<close> bytes.
\<close>

definition ReadAt_stub :: "byte list \<Rightarrow> nat \<Rightarrow> word32 \<Rightarrow> byte list option" where
  "ReadAt_stub f n pos = do { ASSERT (0 \<le> sint pos); Some (take n (drop (unat pos) f)) }"

text \<open>The word at byte offset \<open>i\<close> of a header of 40 bytes.\<close>

definition word_of_bytes :: "byte list \<Rightarrow> nat \<Rightarrow> word32" where
  "word_of_bytes bs i = load32 (\<lambda>k. if k < length bs then bs ! k else 0) i"

definition header_of_bytes :: "byte list \<Rightarrow> NoffHeader" where
  "header_of_bytes bs =
     (let w = word_of_bytes bs;
          seg = (\<lambda>i. \<lparr>virtualAddr = w i, inFileAddr = w (i + 4), seg_size = w (i + 8)\<rparr>) in
      \<lparr>noffMagic = w 0, code_seg = seg 4, initData = seg 16, uninitData = seg 28\<rparr>)"

definition SwapSegment :: "bool \<Rightarrow> Segment \<Rightarrow> Segment" where
  "SwapSegment be g = \<lparr>virtualAddr = WordToHost be (virtualAddr g), inFileAddr = WordToHost be (inFileAddr g),
     seg_size = WordToHost be (seg_size g)\<rparr>"

definition SwapHeader :: "bool \<Rightarrow> NoffHeader \<Rightarrow> NoffHeader" where
  "SwapHeader be h = \<lparr>noffMagic = WordToHost be (noffMagic h), code_seg = SwapSegment be (code_seg h),
     initData = SwapSegment be (initData h), uninitData = SwapSegment be (uninitData h)\<rparr>"

text \<open>A short read leaves the rest of the local variable as it was, \<open>junk\<close>.\<close>

definition read_header :: "bool \<Rightarrow> byte list \<Rightarrow> byte list \<Rightarrow> NoffHeader option" where
  "read_header be junk f = do {
     got \<leftarrow> ReadAt_stub f 40 0;
     let h = header_of_bytes (got @ drop (length got) junk);
     let h = (if noffMagic h \<noteq> NOFFMAGIC \<and> WordToHost be (noffMagic h) = NOFFMAGIC then SwapHeader be h else h);
     ASSERT (noffMagic h = NOFFMAGIC);
     Some h }"

section \<open>The address space\<close>

record AddrSpace =
  space_table :: "TranslationEntry list"
  numPages :: nat

record frames =
  gPhysPageBitMap :: bitmap
  addrLock :: int
  memory :: "nat \<Rightarrow> byte"

datatype load_result = NoFile | NoMemory frames | Loaded AddrSpace frames

text \<open>The number of pages: an \<^verbatim>\<open>unsigned\<close> sum that wraps, rounded up to pages.\<close>

definition space_pages :: "NoffHeader \<Rightarrow> nat" where
  "space_pages h =
     (let sz = unat (seg_size (code_seg h) + seg_size (initData h) + seg_size (uninitData h)
                     + of_nat UserStackSize) in
      nat (divRoundUp (int sz) (int PageSize)))"

definition new_entry :: "nat \<Rightarrow> int \<Rightarrow> TranslationEntry" where
  "new_entry i frame = \<lparr>virtualPage = of_nat i, physicalPage = word_of_int frame, valid = True, readOnly = False,
     use_bit = False, dirty = False\<rparr>"

definition alloc_table :: "nat \<Rightarrow> bitmap \<Rightarrow> (TranslationEntry list \<times> bitmap) option" where
  "alloc_table n b = do {
     (fs, b') \<leftarrow> collect_n Find n b;
     Some (map (\<lambda>i. new_entry i (fs ! i)) [0..<n], b') }"

text \<open>Copy of bytes to \<^verbatim>\<open>&mainMemory[dst]\<close>, inside the array.\<close>

definition copy_in :: "nat \<Rightarrow> byte list \<Rightarrow> (nat \<Rightarrow> byte) \<Rightarrow> (nat \<Rightarrow> byte) option" where
  "copy_in dst bs mem = do {
     ASSERT (bs = [] \<or> dst + length bs \<le> MemorySize);
     Some (\<lambda>a. if dst \<le> a \<and> a < dst + length bs then bs ! (a - dst) else mem a) }"

text \<open>
  The copy loop of one segment: for every page \<open>i\<close> of the whole space, one page of the file from
  \<open>inFileAddr + i * PageSize\<close> goes to the segment's virtual address plus the base of frame \<open>i\<close>.
\<close>

definition copy_page :: "byte list \<Rightarrow> TranslationEntry list \<Rightarrow> Segment \<Rightarrow> nat \<Rightarrow> (nat \<Rightarrow> byte) \<Rightarrow> (nat \<Rightarrow> byte) option" where
  "copy_page f pt g i mem = do {
     e \<leftarrow> array_get pt i;
     bs \<leftarrow> ReadAt_stub f PageSize (inFileAddr g + of_nat (i * PageSize));
     copy_in (unat (virtualAddr g) + unat (physicalPage e) * PageSize) bs mem }"

definition copy_segment :: "byte list \<Rightarrow> TranslationEntry list \<Rightarrow> Segment \<Rightarrow> nat \<Rightarrow> (nat \<Rightarrow> byte) \<Rightarrow> (nat \<Rightarrow> byte) option" where
  "copy_segment f pt g n mem = (if 0 < sint (seg_size g) then each (copy_page f pt g) [0..<n] mem else Some mem)"

definition lock_P :: "frames \<Rightarrow> frames" where "lock_P s = s\<lparr>addrLock := addrLock s - 1\<rparr>"
definition lock_V :: "frames \<Rightarrow> frames" where "lock_V s = s\<lparr>addrLock := addrLock s + 1\<rparr>"

text \<open>\<^verbatim>\<open>AddrSpace(OpenFile *executable)\<close>\<close>

definition AddrSpace_open :: "bool \<Rightarrow> byte list \<Rightarrow> byte list option \<Rightarrow> frames \<Rightarrow> load_result option" where
  "AddrSpace_open be junk executable s =
     (case executable of
        None \<Rightarrow> Some NoFile
      | Some f \<Rightarrow> do {
          h \<leftarrow> read_header be junk f;
          let s = lock_P s;
          let n = space_pages h;
          free \<leftarrow> NumClear (gPhysPageBitMap s);
          if int n > free then Some (NoMemory (lock_V s))
          else do {
            (pt, b) \<leftarrow> alloc_table n (gPhysPageBitMap s);
            let s = lock_V (s\<lparr>gPhysPageBitMap := b\<rparr>);
            mem \<leftarrow> copy_segment f pt (code_seg h) n (memory s);
            mem \<leftarrow> copy_segment f pt (initData h) n mem;
            Some (Loaded \<lparr>space_table = pt, numPages = n\<rparr> (s\<lparr>memory := mem\<rparr>)) } })"

text \<open>
  \<^verbatim>\<open>AddrSpace(char *filename)\<close>, with the file that \<^verbatim>\<open>fileSystem->Open\<close> found. Its not-enough-memory branch
  does not return: it goes on with zero pages, releases the lock a second time and deletes the
  executable twice.
\<close>

definition AddrSpace_file :: "bool \<Rightarrow> byte list \<Rightarrow> byte list option \<Rightarrow> frames \<Rightarrow> load_result option" where
  "AddrSpace_file be junk executable s =
     (case executable of
        None \<Rightarrow> Some NoFile
      | Some f \<Rightarrow> do {
          h \<leftarrow> read_header be junk f;
          let s = lock_P s;
          free \<leftarrow> NumClear (gPhysPageBitMap s);
          let full = int (space_pages h) > free;
          let n = (if full then 0 else space_pages h);
          let s = (if full then lock_V s else s);
          (pt, b) \<leftarrow> alloc_table n (gPhysPageBitMap s);
          let s = lock_V (s\<lparr>gPhysPageBitMap := b\<rparr>);
          mem \<leftarrow> copy_segment f pt (code_seg h) n (memory s);
          mem \<leftarrow> copy_segment f pt (initData h) n mem;
          ASSERT (\<not> full);
          Some (Loaded \<lparr>space_table = pt, numPages = n\<rparr> (s\<lparr>memory := mem\<rparr>)) })"

definition AddrSpace_delete :: "AddrSpace \<Rightarrow> frames \<Rightarrow> frames option" where
  "AddrSpace_delete sp s = do {
     es \<leftarrow> those (map (array_get (space_table sp)) [0..<numPages sp]);
     b \<leftarrow> each (\<lambda>e b. Clear b (sint (physicalPage e))) es (gPhysPageBitMap s);
     Some (s\<lparr>gPhysPageBitMap := b\<rparr>) }"

definition InitRegisters :: "AddrSpace \<Rightarrow> machine \<Rightarrow> machine option" where
  "InitRegisters sp m = do {
     m \<leftarrow> each (\<lambda>i. WriteRegister i 0) [0..<NumTotalRegs] m;
     m \<leftarrow> WriteRegister PCReg 0 m;
     m \<leftarrow> WriteRegister NextPCReg 4 m;
     WriteRegister StackReg (of_nat (numPages sp * PageSize) - 16) m }"

definition RestoreState :: "AddrSpace \<Rightarrow> machine \<Rightarrow> machine" where
  "RestoreState sp m = m\<lparr>pageTable := Some (space_table sp), pageTableSize := numPages sp\<rparr>"


section \<open>Allocation of frames\<close>

definition frame_list :: "AddrSpace \<Rightarrow> int list" where
  "frame_list sp = map (\<lambda>e. sint (physicalPage e)) (space_table sp)"

lemma frame_word:
  assumes "0 \<le> k" "k < 2147483648"
  shows "sint (word_of_int k :: word32) = k" "unat (word_of_int k :: word32) = nat k"
  using assms
  by (simp_all add: signed_of_int signed_take_bit_int_eq_self unsigned_of_int take_bit_int_eq_self)

lemma alloc_table_spec:
  assumes "wf_bitmap b" "numBits b \<le> 2147483648" "n \<le> card ({0..<numBits b} - marked b)"
  shows "\<exists>pt b'. alloc_table n b = Some (pt, b') \<and> length pt = n \<and> wf_bitmap b' \<and> numBits b' = numBits b
    \<and> distinct (map (\<lambda>e. sint (physicalPage e)) pt)
    \<and> set (map (\<lambda>e. sint (physicalPage e)) pt) \<subseteq> {0..<numBits b} - marked b
    \<and> marked b' = marked b \<union> set (map (\<lambda>e. sint (physicalPage e)) pt)
    \<and> (\<forall>e \<in> set pt. valid e \<and> \<not> readOnly e)"
proof -
  from bm.alloc_n [OF assms(1,3)] obtain fs b' where fs: "collect_n Find n b = Some (fs, b')" "length fs = n"
    "distinct fs" "set fs \<subseteq> {0..<numBits b} - marked b" "wf_bitmap b'" "numBits b' = numBits b"
    "marked b' = marked b \<union> set fs" by blast
  let ?pt = "map (\<lambda>i. new_entry i (fs ! i)) [0..<n]"
  have "sint (physicalPage (new_entry i (fs ! i))) = fs ! i" if "i < n" for i
  proof -
    have "fs ! i \<in> {0..<numBits b}" using fs(2,4) that nth_mem by blast
    with assms(2) show ?thesis by (simp add: new_entry_def frame_word)
  qed
  then have "map (\<lambda>e. sint (physicalPage e)) ?pt = fs"
    using fs(2) by (simp add: list_eq_iff_nth_eq)
  with fs show ?thesis
    by (intro exI [of _ ?pt] exI [of _ b']) (auto simp: alloc_table_def new_entry_def)
qed

text \<open>Whatever the two constructors load, its frames were free, are distinct and are now marked.\<close>

lemma AddrSpace_open_Loaded:
  assumes "AddrSpace_open be junk (Some f) s = Some (Loaded sp s')"
  obtains h mem where "read_header be junk f = Some h" "numPages sp = space_pages h"
    "alloc_table (numPages sp) (gPhysPageBitMap s) = Some (space_table sp, gPhysPageBitMap s')"
    "NumClear (gPhysPageBitMap s) = Some free \<Longrightarrow> int (numPages sp) \<le> free"
    "copy_segment f (space_table sp) (code_seg h) (numPages sp) (memory s) = Some mem"
    "copy_segment f (space_table sp) (initData h) (numPages sp) mem = Some (memory s')"
    "addrLock s' = addrLock s"
  using assms
  by (auto simp: AddrSpace_open_def bind_eq_Some_conv lock_P_def lock_V_def Let_def split: if_splits)

lemma load_allocates:
  assumes "wf_bitmap (gPhysPageBitMap s)" "numBits (gPhysPageBitMap s) \<le> 2147483648"
    "AddrSpace_open be junk (Some f) s = Some (Loaded sp s')"
  shows "length (space_table sp) = numPages sp" "distinct (frame_list sp)"
    "set (frame_list sp) \<subseteq> {0..<numBits (gPhysPageBitMap s)} - marked (gPhysPageBitMap s)"
    "marked (gPhysPageBitMap s') = marked (gPhysPageBitMap s) \<union> set (frame_list sp)"
    "wf_bitmap (gPhysPageBitMap s')" "numBits (gPhysPageBitMap s') = numBits (gPhysPageBitMap s)"
    "addrLock s' = addrLock s" "\<forall>e \<in> set (space_table sp). valid e \<and> \<not> readOnly e"
proof -
  note nc = NumClear_eq [OF assms(1)]
  from assms(3) have a: "alloc_table (numPages sp) (gPhysPageBitMap s) = Some (space_table sp, gPhysPageBitMap s')"
    "int (numPages sp) \<le> int (card ({0..<numBits (gPhysPageBitMap s)} - marked (gPhysPageBitMap s)))"
    "addrLock s' = addrLock s"
    by (auto elim!: AddrSpace_open_Loaded simp: nc)
  then have "numPages sp \<le> card ({0..<numBits (gPhysPageBitMap s)} - marked (gPhysPageBitMap s))" by simp
  from alloc_table_spec [OF assms(1,2) this] a show "length (space_table sp) = numPages sp" "distinct (frame_list sp)"
    "set (frame_list sp) \<subseteq> {0..<numBits (gPhysPageBitMap s)} - marked (gPhysPageBitMap s)"
    "marked (gPhysPageBitMap s') = marked (gPhysPageBitMap s) \<union> set (frame_list sp)"
    "wf_bitmap (gPhysPageBitMap s')" "numBits (gPhysPageBitMap s') = numBits (gPhysPageBitMap s)"
    "addrLock s' = addrLock s" "\<forall>e \<in> set (space_table sp). valid e \<and> \<not> readOnly e"
    unfolding frame_list_def by auto
qed

lemma delete_frees:
  assumes "wf_bitmap (gPhysPageBitMap s)" "length (space_table sp) = numPages sp"
    "set (frame_list sp) \<subseteq> {0..<numBits (gPhysPageBitMap s)}"
  shows "\<exists>s'. AddrSpace_delete sp s = Some s' \<and> wf_bitmap (gPhysPageBitMap s')
    \<and> marked (gPhysPageBitMap s') = marked (gPhysPageBitMap s) - set (frame_list sp)"
proof -
  have all: "those (map (array_get xs) [0..<length xs]) = Some xs" for xs :: "TranslationEntry list"
  proof -
    have "map (array_get xs) [0..<length xs] = map Some xs"
      by (rule nth_equalityI) simp_all
    moreover have "those (map Some xs) = Some xs" by (induction xs) auto
    ultimately show ?thesis by simp
  qed
  have fl: "each (\<lambda>e b. Clear b (sint (physicalPage e))) es = each (\<lambda>k b. Clear b k) (map (\<lambda>e. sint (physicalPage e)) es)"
    for es
  proof (induction es)
    case (Cons e es)
    then show ?case by (intro ext) simp
  qed (simp add: fun_eq_iff)
  from bm.free_each [OF assms(1,3)] obtain b where
    "each (\<lambda>k b. Clear b k) (frame_list sp) (gPhysPageBitMap s) = Some b" "wf_bitmap b"
    "marked b = marked (gPhysPageBitMap s) - set (frame_list sp)" by blast
  then show ?thesis
    using assms(2) all [of "space_table sp"] by (simp add: AddrSpace_delete_def fl frame_list_def)
qed


section \<open>The machine runs inside its address space\<close>

lemma RestoreState_simps [simp]:
  "pageTable (RestoreState sp m) = Some (space_table sp)" "pageTableSize (RestoreState sp m) = numPages sp"
  "tlb (RestoreState sp m) = tlb m" "mainMemory (RestoreState sp m) = mainMemory m"
  "registers (RestoreState sp m) = registers m"
  by (simp_all add: RestoreState_def)

lemma RestoreState_ok:
  "tlb m = None \<Longrightarrow> length (space_table sp) = numPages sp \<Longrightarrow> page_tables_ok (RestoreState sp m)"
  by (simp add: page_tables_ok_def)

lemma RestoreState_injective:
  assumes "distinct (frame_list sp)"
  shows "frames_injective (RestoreState sp m)"
proof -
  have "i = j" if "i < length (space_table sp)" "j < length (space_table sp)"
    "physicalPage (space_table sp ! i) = physicalPage (space_table sp ! j)" for i j
    using assms that nth_eq_iff_index_eq [of "frame_list sp" i j] by (simp add: frame_list_def)
  then show ?thesis by (auto simp: frames_injective_def)
qed

lemma sint_eq_uint32:
  assumes "uint (p :: word32) < 2147483648"
  shows "sint p = uint p"
proof (cases "0 \<le> sint p")
  case True
  then show ?thesis using uint32_sint [of p] sint32_bounds [of p] by simp
next
  case False
  have "uint p = (sint p + 4294967296) mod 4294967296" using uint32_sint [of p] by simp
  also have "\<dots> = sint p + 4294967296" using False sint32_bounds [of p] by (intro mod_pos_pos_trivial) auto
  finally show ?thesis using assms sint32_bounds [of p] by simp
qed

lemma frame_of_page:
  assumes "vpn < length (space_table sp)" "unat (physicalPage (space_table sp ! vpn)) < NumPhysPages"
  shows "int (unat (physicalPage (space_table sp ! vpn))) \<in> set (frame_list sp)"
proof -
  let ?p = "physicalPage (space_table sp ! vpn)"
  have "int (unat ?p) < 128" using assms(2) by (simp only: machine_sizes)
  then have "uint ?p < 128" by simp
  then have "sint ?p = uint ?p" by (intro sint_eq_uint32) linarith
  moreover have "sint ?p \<in> set (frame_list sp)" using assms(1) by (auto simp: frame_list_def)
  ultimately show ?thesis by simp
qed

text \<open>A store through one address space does not reach the frames of another.\<close>

lemma isolation:
  assumes "tlb m = None" "length (space_table sp1) = numPages sp1" "length (space_table sp2) = numPages sp2"
    "set (frame_list sp1) \<inter> set (frame_list sp2) = {}" "valid_size sz1" "valid_size sz2"
    "WriteMem (RestoreState sp1 m) a sz1 v = Some (Inr m1)"
    "ReadMem (RestoreState sp2 m) b sz2 = Some (Inr (x, m2))"
  shows "\<exists>m3. ReadMem (RestoreState sp2 m1) b sz2 = Some (Inr (x, m3))"
proof -
  note ok1 = RestoreState_ok [OF assms(1,2)] and ok2 = RestoreState_ok [OF assms(1,3)]
  from ok1 assms(5,7) obtain pa m0 where w: "translate_spec (RestoreState sp1 m) a sz1 True = Inr (pa, m0)"
    "m1 = m0\<lparr>mainMemory := stored pa sz1 v (mainMemory m)\<rparr>" "same_mapping (RestoreState sp1 m) m1"
    by (rule WriteMem_Inr) simp
  from assms(8) obtain pb where r: "translate_spec (RestoreState sp2 m) b sz2 False = Inr (pb, m2)"
    "x = loaded pb sz2 (mainMemory m)"
    using same_mapping_translate(3) [OF _ ok2]
    by (auto simp: ReadMem_spec [OF ok2 assms(6)] split: sum.splits prod.splits)
  obtain e where A: "unat a div PageSize < length (space_table sp1)" "e = space_table sp1 ! (unat a div PageSize)"
    "unat (physicalPage e) < NumPhysPages" "pa = unat (physicalPage e) * PageSize + unat a mod PageSize"
    "unat a mod PageSize + sz1 \<le> PageSize"
    using translate_spec_frame [OF w(1) ok1 assms(5)] by (metis RestoreState_simps(1) option.inject)
  obtain d where B: "unat b div PageSize < length (space_table sp2)" "d = space_table sp2 ! (unat b div PageSize)"
    "unat (physicalPage d) < NumPhysPages" "pb = unat (physicalPage d) * PageSize + unat b mod PageSize"
    "unat b mod PageSize + sz2 \<le> PageSize"
    using translate_spec_frame [OF r(1) ok2 assms(6)] by (metis RestoreState_simps(1) option.inject)
  have "unat (physicalPage e) \<noteq> unat (physicalPage d)"
    using frame_of_page [OF A(1) A(3) [unfolded A(2)]] frame_of_page [OF B(1) B(3) [unfolded B(2)]] A(2) B(2) assms(4)
    by (metis disjoint_iff)
  from frames_disjoint [OF this A(5) B(5)] have d: "pa + sz1 \<le> pb \<or> pb + sz2 \<le> pa"
    using assms(5,6) A(4) B(4) by (auto simp: valid_size_def)
  have "tlb m1 = None" using w(3) assms(1) by (simp add: same_mapping_def)
  note ok3 = RestoreState_ok [OF this assms(3)]
  have "same_mapping (RestoreState sp2 m) (RestoreState sp2 m1)"
    using w(3) by (simp add: same_mapping_def RestoreState_def)
  from translate_spec_again [OF this ok2 r(1)] obtain m3 where
    t: "translate_spec (RestoreState sp2 m1) b sz2 False = Inr (pb, m3)" by blast
  have "loaded pb sz2 (mainMemory m1) = x"
    unfolding r(2) w(2) using d by (auto intro!: loaded_cong [OF assms(6)] stored_outside [OF assms(5)])
  with ReadMem_at [OF ok3 assms(6) t] show ?thesis by auto
qed

section \<open>Loading the program\<close>

lemma copy_page_Some:
  assumes "copy_page f pt g i mem = Some mem'" "i < length pt"
  shows "mem' = (\<lambda>a. let dst = unat (virtualAddr g) + unat (physicalPage (pt ! i)) * PageSize;
      bs = take PageSize (drop (unat (inFileAddr g + of_nat (i * PageSize))) f) in
    if dst \<le> a \<and> a < dst + length bs then bs ! (a - dst) else mem a)"
  using assms by (auto simp: copy_page_def copy_in_def ReadAt_stub_def Let_def)

text \<open>
  A segment at virtual address 0 is loaded page by page into the frames of its pages: byte \<open>o\<close> of page \<open>i\<close>
  is byte \<open>i * PageSize + o\<close> of the segment in the file.
\<close>

definition file_pos :: "Segment \<Rightarrow> nat \<Rightarrow> nat \<Rightarrow> nat" where
  "file_pos g i off = unat (inFileAddr g + of_nat (i * PageSize)) + off"

lemma copy_pages_at_zero:
  assumes "virtualAddr g = 0" "n \<le> length pt" "distinct (map (\<lambda>e. unat (physicalPage e)) pt)"
    "each (copy_page f pt g) [0..<n] mem = Some mem'"
  shows "i < n \<Longrightarrow> off < PageSize \<Longrightarrow> file_pos g i off < length f \<Longrightarrow>
    mem' (unat (physicalPage (pt ! i)) * PageSize + off) = f ! file_pos g i off"
  using assms(2,4)
proof (induction n arbitrary: mem')
  case 0
  then show ?case by simp
next
  case (Suc n)
  from Suc.prems(5) obtain m1 where m1: "each (copy_page f pt g) [0..<n] mem = Some m1"
    "copy_page f pt g n m1 = Some mem'" by (auto simp: each_append bind_eq_Some_conv)
  have n: "n < length pt" using Suc.prems(4) by simp
  let ?dst = "unat (physicalPage (pt ! n)) * PageSize"
  let ?bs = "take PageSize (drop (unat (inFileAddr g + of_nat (n * PageSize))) f)"
  have mem': "mem' a = (if ?dst \<le> a \<and> a < ?dst + length ?bs then ?bs ! (a - ?dst) else m1 a)" for a
    using copy_page_Some [OF m1(2) n] assms(1) by (simp add: Let_def)
  show ?case
  proof (cases "i = n")
    case True
    then show ?thesis
      using Suc.prems(2,3) by (simp add: mem' file_pos_def less_diff_conv add.commute)
  next
    case False
    with Suc.prems(1) have i: "i < n" by simp
    have "unat (physicalPage (pt ! i)) \<noteq> unat (physicalPage (pt ! n))"
      using nth_eq_iff_index_eq [OF assms(3), of i n] i n by simp
    from frames_disjoint [OF this, of off 1 PageSize 0 PageSize] Suc.prems(2)
    have "unat (physicalPage (pt ! i)) * PageSize + off < ?dst
      \<or> ?dst + PageSize \<le> unat (physicalPage (pt ! i)) * PageSize + off" by (simp add: machine_sizes Suc_le_eq)
    moreover have "length ?bs \<le> PageSize" by simp
    ultimately have "\<not> (?dst \<le> unat (physicalPage (pt ! i)) * PageSize + off \<and>
        unat (physicalPage (pt ! i)) * PageSize + off < ?dst + length ?bs)"
      by linarith
    note outside = if_not_P [OF this]
    show ?thesis
      unfolding mem' outside using Suc.IH [OF i Suc.prems(2,3) _ m1(1)] n by simp
  qed
qed


lemma InitRegisters_spec:
  "InitRegisters sp m = Some (m\<lparr>registers := (\<lambda>n. if n = NextPCReg then 4
     else if n = StackReg then of_nat (numPages sp * PageSize) - 16
     else if n < NumTotalRegs then 0 else registers m n)\<rparr>)"
proof -
  have "each (\<lambda>i. WriteRegister i 0) [0..<n] m =
      Some (m\<lparr>registers := (\<lambda>k. if k < n then 0 else registers m k)\<rparr>)" if "n \<le> NumTotalRegs" for n
    using that
    by (induction n) (auto simp: each_append WriteRegister_def fun_eq_iff less_Suc_eq intro!: arg_cong [where f = "\<lambda>r. registers_update (\<lambda>_. r) m"])
  then show ?thesis
    by (simp add: InitRegisters_def WriteRegister_def reg_defs fun_eq_iff)
qed

section \<open>Properties of address spaces\<close>

text \<open>The sample kernel memory: five frames, of which 0, 1 and 3 are taken.\<close>

definition sample_frames :: frames where
  "sample_frames = \<lparr>gPhysPageBitMap = sample_bitmap, addrLock = 1, memory = (\<lambda>_. 0)\<rparr>"

text \<open>An executable with no segments: the stack needs two pages.\<close>

definition sample_file :: "byte list" where
  "sample_file = [0xad, 0xdf, 0xba, 0] @ replicate 36 0"

lemma sample_bits: "numBits sample_bitmap \<le> 2147483648" "numBits sample_bitmap = 5"
  by (simp_all add: sample_bitmap_def)

lemma sample_header: "read_header False [] sample_file = Some \<lparr>noffMagic = NOFFMAGIC,
    code_seg = \<lparr>virtualAddr = 0, inFileAddr = 0, seg_size = 0\<rparr>,
    initData = \<lparr>virtualAddr = 0, inFileAddr = 0, seg_size = 0\<rparr>,
    uninitData = \<lparr>virtualAddr = 0, inFileAddr = 0, seg_size = 0\<rparr>\<rparr>"
  by (simp add: read_header_def ReadAt_stub_def sample_file_def header_of_bytes_def word_of_bytes_def load32_def
    NOFFMAGIC_def nth_append Let_def)

lemma sample_numclear: "NumClear sample_bitmap = Some 2"
  by (simp add: NumClear_def NumClear_from.simps Test_def sample_bitmap_def BitsInWord_def monad_simps)

lemma sample_alloc: "\<exists>pt b. alloc_table 2 sample_bitmap = Some (pt, b)"
  using alloc_table_spec [OF sample_bitmap_wf sample_bits(1), of 2] sample_numclear
  by (simp add: NumClear_eq [OF sample_bitmap_wf]) blast

lemma sample_load: "\<exists>sp s'. AddrSpace_open False [] (Some sample_file) sample_frames = Some (Loaded sp s')"
  using sample_alloc
  by (auto simp: AddrSpace_open_def sample_header lock_P_def lock_V_def sample_frames_def sample_numclear
    space_pages_def divRoundUp_nonneg machine_sizes UserStackSize_def copy_segment_def Let_def)

text \<open>C35. Loading a program gives it frames that nobody uses: they are distinct, were clear in the frame bitmap, are
  marked afterwards, and no other bit changes; the lock is released. Deleting the space gives exactly
  these frames back.\<close>

theorem load_and_delete:
  assumes "wf_bitmap (gPhysPageBitMap s)" "numBits (gPhysPageBitMap s) \<le> 2147483648"
    "AddrSpace_open be junk (Some f) s = Some (Loaded sp s')"
  shows "length (space_table sp) = numPages sp \<and> distinct (frame_list sp)
    \<and> set (frame_list sp) \<inter> marked (gPhysPageBitMap s) = {}
    \<and> marked (gPhysPageBitMap s') = marked (gPhysPageBitMap s) \<union> set (frame_list sp) \<and> addrLock s' = addrLock s
    \<and> (\<exists>s''. AddrSpace_delete sp s' = Some s'' \<and> marked (gPhysPageBitMap s'') = marked (gPhysPageBitMap s))"
proof -
  note l = load_allocates [OF assms]
  have "set (frame_list sp) \<subseteq> {0..<numBits (gPhysPageBitMap s')}" using l(3,6) by auto
  from delete_frees [OF l(5,1) this] l show ?thesis by auto
qed

theorem load_and_delete_witness:
  "\<exists>sp s' s''. AddrSpace_open False [] (Some sample_file) sample_frames = Some (Loaded sp s')
     \<and> AddrSpace_delete sp s' = Some s'' \<and> marked (gPhysPageBitMap s'') = marked sample_bitmap"
proof -
  obtain sp s' where l: "AddrSpace_open False [] (Some sample_file) sample_frames = Some (Loaded sp s')"
    using sample_load by blast
  have "wf_bitmap (gPhysPageBitMap sample_frames)" "numBits (gPhysPageBitMap sample_frames) \<le> 2147483648"
    by (simp_all add: sample_frames_def sample_bitmap_wf sample_bits)
  from load_and_delete [OF this l] l show ?thesis by (auto simp: sample_frames_def)
qed

text \<open>A program that does not fit is refused without side effects: when there are fewer clear frames than
  pages, the constructor from an open file allocates nothing and releases the lock.\<close>

theorem load_refused:
  assumes "wf_bitmap (gPhysPageBitMap s)" "read_header be junk f = Some h"
    "card ({0..<numBits (gPhysPageBitMap s)} - marked (gPhysPageBitMap s)) < space_pages h"
  shows "AddrSpace_open be junk (Some f) s = Some (NoMemory s)"
  using assms by (simp add: AddrSpace_open_def NumClear_eq lock_P_def lock_V_def Let_def)

theorem load_refused_witness:
  "AddrSpace_open False [] (Some sample_file) (sample_frames\<lparr>gPhysPageBitMap := \<lparr>numBits = 0, numWords = 0, map_words = []\<rparr>\<rparr>) =
     Some (NoMemory (sample_frames\<lparr>gPhysPageBitMap := \<lparr>numBits = 0, numWords = 0, map_words = []\<rparr>\<rparr>))"
proof -
  let ?s = "sample_frames\<lparr>gPhysPageBitMap := \<lparr>numBits = 0, numWords = 0, map_words = []\<rparr>\<rparr>"
  have "wf_bitmap (gPhysPageBitMap ?s)" by (simp add: wf_bitmap_def divRoundUp_nonneg)
  from load_refused [OF this sample_header] show ?thesis
    by (simp add: space_pages_def divRoundUp_nonneg machine_sizes UserStackSize_def)
qed


text \<open>A page that receives bytes of the file lies in the memory of the machine.\<close>

lemma copied_frame_exists:
  assumes "each (copy_page f pt g) [0..<n] mem = Some mem'" "n \<le> length pt" "i < n" "file_pos g i off < length f"
  shows "unat (physicalPage (pt ! i)) < NumPhysPages"
  using assms(1-3)
proof (induction n arbitrary: mem')
  case (Suc n)
  from Suc.prems(1) obtain m1 where m1: "each (copy_page f pt g) [0..<n] mem = Some m1" "copy_page f pt g n m1 = Some mem'"
    by (auto simp: each_append bind_eq_Some_conv)
  show ?case
  proof (cases "i = n")
    case True
    with m1(2) Suc.prems(2) assms(4) have "unat (physicalPage (pt ! i)) * PageSize < MemorySize"
      by (auto simp: copy_page_def copy_in_def ReadAt_stub_def file_pos_def machine_sizes min_def split: if_splits)
    then show ?thesis by (simp add: machine_sizes)
  qed (use Suc m1 in auto)
qed simp

text \<open>Loading puts the program where it will be executed: with the code segment at virtual address 0 and no
  separate data segment, once the space is installed in the machine a byte read at page \<open>i\<close>, offset
  \<open>off\<close> is the corresponding byte of the file.\<close>

theorem loaded_program_is_file:
  assumes "wf_bitmap (gPhysPageBitMap s)" "numBits (gPhysPageBitMap s) \<le> 2147483648"
    "AddrSpace_open be junk (Some f) s = Some (Loaded sp s')" "read_header be junk f = Some h"
    "virtualAddr (code_seg h) = 0" "0 < sint (seg_size (code_seg h))" "sint (seg_size (initData h)) \<le> 0"
    "tlb m = None" "mainMemory m = memory s'"
    "unat a div PageSize < numPages sp" "file_pos (code_seg h) (unat a div PageSize) (unat a mod PageSize) < length f"
  shows "\<exists>m'. ReadMem (RestoreState sp m) a 1 =
    Some (Inr (scast (f ! file_pos (code_seg h) (unat a div PageSize) (unat a mod PageSize)), m'))"
proof -
  let ?i = "unat a div PageSize" and ?o = "unat a mod PageSize" and ?pt = "space_table sp"
  note l = load_allocates [OF assms(1-3)]
  have fr: "0 \<le> sint (physicalPage e)" if "e \<in> set ?pt" for e using l(3) that by (force simp: frame_list_def)
  have un: "int (unat (physicalPage e)) = sint (physicalPage e)" if "e \<in> set ?pt" for e
    using fr [OF that] uint32_sint [of "physicalPage e"] sint32_bounds [of "physicalPage e"] by simp
  have "distinct (map (\<lambda>e. unat (physicalPage e)) ?pt)"
    using l(2) un unfolding frame_list_def distinct_map inj_on_def by metis
  moreover have cp: "each (copy_page f ?pt (code_seg h)) [0..<numPages sp] (memory s) = Some (memory s')"
    using assms(3,4,6,7) by (auto elim!: AddrSpace_open_Loaded simp: copy_segment_def)
  ultimately have mem: "memory s' (unat (physicalPage (?pt ! ?i)) * PageSize + ?o) = f ! file_pos (code_seg h) ?i ?o"
    using copy_pages_at_zero [OF assms(5) _ _ _ assms(10) _ assms(11)] l(1) by (simp add: machine_sizes)
  have e: "?pt ! ?i \<in> set ?pt" using l(1) assms(10) by simp
  have "unat (physicalPage (?pt ! ?i)) < NumPhysPages" using copied_frame_exists [OF cp _ assms(10,11)] l(1) by simp
  then have "\<exists>m2. translate_spec (RestoreState sp m) a 1 False = Inr (unat (physicalPage (?pt ! ?i)) * PageSize + ?o, m2)"
    using l(8) e assms(10) by (simp add: translate_spec_def Let_def)
  then obtain m2 where "translate_spec (RestoreState sp m) a 1 False = Inr (unat (physicalPage (?pt ! ?i)) * PageSize + ?o, m2)"
    by blast
  from ReadMem_at [OF RestoreState_ok [OF assms(8) l(1)] valid_sizes(1) this] mem assms(9) show ?thesis
    by (simp add: loaded_def)
qed


text \<open>A program of four bytes of code, loaded into an empty memory of five frames.\<close>

definition code_file :: "byte list" where
  "code_file = [0xad, 0xdf, 0xba, 0] @ replicate 4 0 @ [40, 0, 0, 0, 4, 0, 0, 0] @ replicate 24 0 @ [11, 22, 33, 44]"

definition code_header :: NoffHeader where
  "code_header = \<lparr>noffMagic = NOFFMAGIC, code_seg = \<lparr>virtualAddr = 0, inFileAddr = 40, seg_size = 4\<rparr>,
    initData = \<lparr>virtualAddr = 0, inFileAddr = 0, seg_size = 0\<rparr>, uninitData = \<lparr>virtualAddr = 0, inFileAddr = 0, seg_size = 0\<rparr>\<rparr>"

definition empty_frames :: frames where
  "empty_frames = \<lparr>gPhysPageBitMap = \<lparr>numBits = 5, numWords = 1, map_words = [0]\<rparr>, addrLock = 1, memory = (\<lambda>_. 0)\<rparr>"

lemma code_file_header: "read_header False [] code_file = Some code_header"
  by (simp add: read_header_def ReadAt_stub_def code_file_def header_of_bytes_def word_of_bytes_def load32_def
    NOFFMAGIC_def nth_append nth_Cons' Let_def code_header_def)

lemma empty_frames_wf: "wf_bitmap (gPhysPageBitMap empty_frames)" "numBits (gPhysPageBitMap empty_frames) \<le> 2147483648"
  by (simp_all add: empty_frames_def wf_bitmap_def divRoundUp_nonneg machine_sizes)

lemma empty_frames_numclear: "NumClear (gPhysPageBitMap empty_frames) = Some 5"
  by (simp add: empty_frames_def NumClear_def NumClear_from.simps Test_def BitsInWord_def monad_simps)

lemma code_alloc: "alloc_table 3 (gPhysPageBitMap empty_frames) =
    Some ([new_entry 0 0, new_entry 1 1, new_entry 2 2], \<lparr>numBits = 5, numWords = 1, map_words = [7]\<rparr>)"
  by (simp add: alloc_table_def empty_frames_def numeral_3_eq_3 Find_def Find_from.simps Test_def Mark_def BitsInWord_def
    monad_simps) (simp add: numeral_2_eq_2)

lemma code_copy: "\<exists>mem. each (copy_page code_file [new_entry 0 0, new_entry 1 1, new_entry 2 2] (code_seg code_header)) [0, 1, 2] (\<lambda>_. 0) = Some mem"
  by (simp add: copy_page_def copy_in_def ReadAt_stub_def code_header_def code_file_def new_entry_def machine_sizes)

lemma code_load: "\<exists>sp s'. AddrSpace_open False [] (Some code_file) empty_frames = Some (Loaded sp s') \<and> numPages sp = 3"
proof -
  have p: "space_pages code_header = 3"
    by (simp add: space_pages_def code_header_def divRoundUp_nonneg machine_sizes UserStackSize_def)
  have "[0..<3] = [0, 1, 2 :: nat]" by (simp add: upt_rec)
  with code_copy obtain mem where
    "each (copy_page code_file [new_entry 0 0, new_entry 1 1, new_entry 2 2] (code_seg code_header)) [0..<3] (\<lambda>_. 0) = Some mem"
    by metis
  moreover have "0 < sint (seg_size (code_seg code_header))" "\<not> 0 < sint (seg_size (initData code_header))"
    by (simp_all add: code_header_def)
  moreover have "memory empty_frames = (\<lambda>_. 0)" by (simp add: empty_frames_def)
  ultimately show ?thesis
    by (simp add: AddrSpace_open_def code_file_header lock_P_def lock_V_def empty_frames_numclear p code_alloc
      copy_segment_def Let_def del: each.simps)
qed

theorem loaded_program_is_file_witness:
  "\<exists>sp s' m'. AddrSpace_open False [] (Some code_file) empty_frames = Some (Loaded sp s')
     \<and> ReadMem (RestoreState sp ((Machine_new 0 0 False)\<lparr>mainMemory := memory s'\<rparr>)) 2 1 = Some (Inr (33, m'))"
proof -
  from code_load obtain sp s' where l: "AddrSpace_open False [] (Some code_file) empty_frames = Some (Loaded sp s')"
    "numPages sp = 3" by blast
  have h: "virtualAddr (code_seg code_header) = 0" "0 < sint (seg_size (code_seg code_header))"
    "sint (seg_size (initData code_header)) \<le> 0" by (simp_all add: code_header_def)
  have b: "unat (2 :: word32) div PageSize < numPages sp"
    "file_pos (code_seg code_header) (unat (2 :: word32) div PageSize) (unat (2 :: word32) mod PageSize) < length code_file"
    by (simp_all add: l(2) machine_sizes file_pos_def code_header_def code_file_def)
  have "file_pos (code_seg code_header) (unat (2 :: word32) div PageSize) (unat (2 :: word32) mod PageSize) = 42"
    by (simp add: machine_sizes file_pos_def code_header_def)
  moreover have "code_file ! 42 = 33" by (simp add: code_file_def nth_append nth_Cons')
  ultimately show ?thesis
    using loaded_program_is_file [OF empty_frames_wf l(1) code_file_header h _ _ b,
        of "(Machine_new 0 0 False)\<lparr>mainMemory := memory s'\<rparr>"] l(1)
    by (auto simp: Machine_new_def)
qed

text \<open>A data segment is not loaded into its own page: the copy loop adds the segment's whole virtual address to the
  base of the frame of page \<open>i\<close>, so for a segment that starts at or after \<open>PageSize\<close> every byte it changes lies
  outside that frame.\<close>

theorem segment_copy_misses_frame:
  assumes "copy_page f pt g i mem = Some mem'" "i < length pt" "PageSize \<le> unat (virtualAddr g)" "mem' x \<noteq> mem x"
  shows "x div PageSize \<noteq> unat (physicalPage (pt ! i))"
proof -
  have "unat (virtualAddr g) + unat (physicalPage (pt ! i)) * PageSize \<le> x"
    using copy_page_Some [OF assms(1,2)] assms(4) by (auto simp: Let_def split: if_splits)
  then have "Suc (unat (physicalPage (pt ! i))) * PageSize \<le> x" using assms(3) by simp
  then have "Suc (unat (physicalPage (pt ! i))) \<le> x div PageSize"
    by (simp add: less_eq_div_iff_mult_less_eq machine_sizes)
  then show ?thesis by simp
qed

theorem segment_copy_misses_frame_witness:
  "\<exists>mem'. copy_page [9] [new_entry 0 3] \<lparr>virtualAddr = 512, inFileAddr = 0, seg_size = 1\<rparr> 0 (\<lambda>_. 0) = Some mem'
     \<and> mem' 2048 = 9 \<and> 2048 div PageSize \<noteq> unat (physicalPage (new_entry 0 3))"
proof -
  let ?mem = "\<lambda>a. if 2048 \<le> a \<and> a < 2049 then 9 else (0 :: byte)"
  have c: "copy_page [9] [new_entry 0 3] \<lparr>virtualAddr = 512, inFileAddr = 0, seg_size = 1\<rparr> 0 (\<lambda>_. 0) = Some ?mem"
    by (simp add: copy_page_def copy_in_def ReadAt_stub_def new_entry_def machine_sizes fun_eq_iff)
  from segment_copy_misses_frame [OF c, of 2048] c show ?thesis by (simp add: machine_sizes)
qed


text \<open>
  The constructor by file name has no defined outcome when memory is short, and a frame number
  beyond the physical memory, which the kernel's bitmap of 256 bits (threads/system.cc) can hand
  out, is a bus error on every access.
\<close>

lemma load_by_name_out_of_memory:
  assumes "wf_bitmap (gPhysPageBitMap s)" "read_header be junk f = Some h"
    "card ({0..<numBits (gPhysPageBitMap s)} - marked (gPhysPageBitMap s)) < space_pages h"
  shows "AddrSpace_file be junk (Some f) s = None"
  using assms
  by (simp add: AddrSpace_file_def NumClear_eq lock_P_def lock_V_def Let_def alloc_table_def copy_segment_def)

lemma frame_beyond_memory:
  assumes "tlb m = None" "length (space_table sp) = numPages sp" "vpn < numPages sp" "unat a = vpn * PageSize"
    "valid (space_table sp ! vpn)" "int NumPhysPages \<le> sint (physicalPage (space_table sp ! vpn))"
  shows "ReadMem (RestoreState sp m) a 4 = Some (Inl BusErrorException)"
proof -
  let ?p = "physicalPage (space_table sp ! vpn)"
  have "uint ?p = sint ?p" using uint32_sint [of ?p] assms(6) sint32_bounds [of ?p] by (simp add: machine_sizes)
  then have "NumPhysPages \<le> unat ?p" using assms(6) by (simp add: unat_eq_nat_uint le_nat_iff del: nat_uint_eq)
  moreover have "unat a div PageSize = vpn" "unat a mod 4 = 0" using assms(4) by (simp_all add: machine_sizes)
  ultimately show ?thesis
    using assms(3,5) by (simp add: ReadMem_spec [OF RestoreState_ok [OF assms(1,2)] valid_sizes(3)] translate_spec_def Let_def)
qed

end
