(* ===== verification/Threads.thy ===== *)
theory Threads
  imports Interrupts Address_Space
begin

text \<open>
  threads/thread.cc, threads/scheduler.cc and threads/synch.cc: thread control blocks, the ready list,
  context switches and semaphores.

  The kernel state extends the hardware state of theory \<open>Interrupts\<close>. Threads and semaphores are
  numbered. The ready list and the semaphore queues are the sequences that the linked lists of
  theory \<open>Linked_List\<close> represent: \<open>Append\<close> adds at the end, \<open>Remove\<close> takes the head.

  \<^verbatim>\<open>SWITCH\<close> (threads/switch.s) saves the kernel stack of the old thread and continues the new one where
  that one called \<^verbatim>\<open>SWITCH\<close>, or in \<^verbatim>\<open>ThreadRoot\<close> if it has never run. \<open>Run\<close> is therefore split at that
  point: its second half is executed only when the next thread has been \<open>started\<close> before. What a thread
  does after it is resumed is its continuation; the step relation \<open>kstep\<close> keeps one per thread and composes
  the operations into interleavings. Every rule of \<open>kstep\<close> is one section of kernel code between disabling and
  re-enabling interrupts.
\<close>

section \<open>State\<close>

datatype ThreadStatus = JUST_CREATED | RUNNING | READY | BLOCKED

text \<open>
  \<open>has_stack\<close>: the pointer \<^verbatim>\<open>stack\<close> is not NULL; \<open>fencepost\<close>: the word at the bottom of the stack still
  holds \<^verbatim>\<open>STACK_FENCEPOST\<close>.
\<close>

record Thread =
  tstatus :: ThreadStatus
  has_stack :: bool
  fencepost :: bool
  started :: bool
  userRegisters :: "nat \<Rightarrow> word32"
  space :: "AddrSpace option"

record Semaphore =
  sem_value :: int
  sem_queue :: "nat list"

record 'h kernel = "'h hw" +
  currentThread :: nat
  readyList :: "nat list"
  threads :: "nat \<Rightarrow> Thread option"
  threadToBeDestroyed :: "nat option"
  sems :: "nat \<Rightarrow> Semaphore"

text \<open>The constructor leaves the saved user registers as the allocation gave them.\<close>

definition Thread_new :: "(nat \<Rightarrow> word32) \<Rightarrow> Thread" where
  "Thread_new junk = \<lparr>tstatus = JUST_CREATED, has_stack = False, fencepost = False, started = False,
     userRegisters = junk, space = None\<rparr>"

definition set_thread :: "nat \<Rightarrow> Thread \<Rightarrow> ('h, 'z) kernel_scheme \<Rightarrow> ('h, 'z) kernel_scheme" where
  "set_thread t tcb s = s\<lparr>threads := (threads s)(t := Some tcb)\<rparr>"

definition setThreadStatus :: "nat \<Rightarrow> ThreadStatus \<Rightarrow> ('h, 'z) kernel_scheme \<Rightarrow> ('h, 'z) kernel_scheme option" where
  "setThreadStatus t st s = do { tcb \<leftarrow> threads s t; Some (set_thread t (tcb\<lparr>tstatus := st\<rparr>) s) }"

section \<open>The scheduler\<close>

definition ReadyToRun :: "nat \<Rightarrow> ('h, 'z) kernel_scheme \<Rightarrow> ('h, 'z) kernel_scheme option" where
  "ReadyToRun t s = do {
     s1 \<leftarrow> setThreadStatus t READY s;
     Some (s1\<lparr>readyList := readyList s1 @ [t]\<rparr>) }"

definition FindNextToRun :: "('h, 'z) kernel_scheme \<Rightarrow> nat option \<times> ('h, 'z) kernel_scheme" where
  "FindNextToRun s =
     (case readyList s of
        [] \<Rightarrow> (None, s)
      | t # ts \<Rightarrow> (Some t, s\<lparr>readyList := ts\<rparr>))"

text \<open>
  Saving and restoring the user state. \<^verbatim>\<open>AddrSpace::SaveState\<close> does nothing, and needs nothing to do: after \<^verbatim>\<open>RestoreState\<close> the machine's
  page table pointer is that of the address space of the running thread, so there is one table, and the use and dirty flags that translation sets are in it.
  The model has a table in the machine and one in the space; \<open>SaveSpace\<close> stands for the shared pointer and brings the flags into the space when the
  thread gives up the processor.
\<close>

definition SaveUserState :: "machine \<Rightarrow> Thread \<Rightarrow> Thread" where
  "SaveUserState m t =
     t\<lparr>userRegisters := (\<lambda>i. if i < NumTotalRegs then registers m i else userRegisters t i)\<rparr>"

definition RestoreUserState :: "Thread \<Rightarrow> machine \<Rightarrow> machine" where
  "RestoreUserState t m =
     m\<lparr>registers := (\<lambda>i. if i < NumTotalRegs then userRegisters t i else registers m i)\<rparr>"

definition SaveSpace :: "machine \<Rightarrow> AddrSpace \<Rightarrow> AddrSpace" where
  "SaveSpace m sp = sp\<lparr>space_table := (case pageTable m of Some pt \<Rightarrow> pt | None \<Rightarrow> space_table sp)\<rparr>"

definition CheckOverflow :: "Thread \<Rightarrow> unit option" where
  "CheckOverflow t = ASSERT (has_stack t \<longrightarrow> fencepost t)"

definition save_current :: "('h, 'z) kernel_scheme \<Rightarrow> ('h, 'z) kernel_scheme option" where
  "save_current s = do {
     t \<leftarrow> threads s (currentThread s);
     (case space t of
        None \<Rightarrow> Some s
      | Some sp \<Rightarrow> do {
          m \<leftarrow> mach s;
          Some (set_thread (currentThread s) ((SaveUserState m t)\<lparr>space := Some (SaveSpace m sp)\<rparr>) s) }) }"

definition delete_carcass :: "('h, 'z) kernel_scheme \<Rightarrow> ('h, 'z) kernel_scheme option" where
  "delete_carcass s =
     (case threadToBeDestroyed s of
        None \<Rightarrow> Some s
      | Some t \<Rightarrow> do {
          ASSERT (t \<noteq> currentThread s);
          Some (s\<lparr>threads := (threads s)(t := None), threadToBeDestroyed := None\<rparr>) })"

definition restore_current :: "('h, 'z) kernel_scheme \<Rightarrow> ('h, 'z) kernel_scheme option" where
  "restore_current s = do {
     t \<leftarrow> threads s (currentThread s);
     (case space t of
        None \<Rightarrow> Some s
      | Some sp \<Rightarrow> do {
          m \<leftarrow> mach s;
          Some (s\<lparr>mach := Some (RestoreState sp (RestoreUserState t m))\<rparr>) }) }"

definition Run :: "nat \<Rightarrow> ('h, 'z) kernel_scheme \<Rightarrow> ('h, 'z) kernel_scheme option" where
  "Run nextThread s = do {
     s1 \<leftarrow> save_current s;
     old \<leftarrow> threads s1 (currentThread s1);
     CheckOverflow old;
     next \<leftarrow> threads s1 nextThread;
     let s2 = set_thread nextThread (next\<lparr>tstatus := RUNNING, started := True\<rparr>) (s1\<lparr>currentThread := nextThread\<rparr>);
     if started next then do { s3 \<leftarrow> delete_carcass s2; restore_current s3 }
     else Some s2 }"

section \<open>Threads\<close>

text \<open>\<^verbatim>\<open>StackAllocate\<close>, as far as the fields of the model show it.\<close>

definition StackAllocate :: "Thread \<Rightarrow> Thread" where
  "StackAllocate t = t\<lparr>has_stack := True, fencepost := True\<rparr>"

definition Fork_section :: "nat \<Rightarrow> ('h, 'z) kernel_scheme \<Rightarrow> ('h, 'z) kernel_scheme option" where
  "Fork_section t s = do {
     tcb \<leftarrow> threads s t;
     ReadyToRun t (set_thread t (StackAllocate tcb) s) }"

text \<open>The part of \<open>Sleep\<close> before its loop, and one round of the loop: the thread found, or an idle round.\<close>

definition Sleep_enter :: "('h, 'z) kernel_scheme \<Rightarrow> ('h, 'z) kernel_scheme option" where
  "Sleep_enter s = do {
     ASSERT (level s = IntOff);
     setThreadStatus (currentThread s) BLOCKED s }"

definition Sleep_round :: "('h, 'z) kernel_scheme \<Rightarrow> (bool \<times> ('h, 'z) kernel_scheme) option" where
  "Sleep_round s =
     (case FindNextToRun s of
        (None, s1) \<Rightarrow> Some (False, s1)
      | (Some t, s1) \<Rightarrow> do { s2 \<leftarrow> Run t s1; Some (True, s2) })"

definition Yield_section :: "('h, 'z) kernel_scheme \<Rightarrow> ('h, 'z) kernel_scheme option" where
  "Yield_section s =
     (case FindNextToRun s of
        (None, s1) \<Rightarrow> Some s1
      | (Some t, s1) \<Rightarrow> do { s2 \<leftarrow> ReadyToRun (currentThread s1) s1; Run t s2 })"

definition Finish_section :: "('h, 'z) kernel_scheme \<Rightarrow> ('h, 'z) kernel_scheme option" where
  "Finish_section s = Sleep_enter (s\<lparr>level := IntOff, threadToBeDestroyed := Some (currentThread s)\<rparr>)"

section \<open>Semaphores\<close>

definition Semaphore_new :: "int \<Rightarrow> Semaphore" where
  "Semaphore_new initialValue = \<lparr>sem_value = initialValue, sem_queue = []\<rparr>"

definition set_sem :: "nat \<Rightarrow> Semaphore \<Rightarrow> ('h, 'z) kernel_scheme \<Rightarrow> ('h, 'z) kernel_scheme" where
  "set_sem k sem s = s\<lparr>sems := (sems s)(k := sem)\<rparr>"

text \<open>One test of the loop in \<open>P\<close>: \<open>True\<close> when the value was consumed, \<open>False\<close> when the thread has gone to sleep.\<close>

definition P_section :: "nat \<Rightarrow> ('h, 'z) kernel_scheme \<Rightarrow> (bool \<times> ('h, 'z) kernel_scheme) option" where
  "P_section k s =
     (let sem = sems s k; s = s\<lparr>level := IntOff\<rparr> in
      if sem_value sem = 0 then do {
        s1 \<leftarrow> Sleep_enter (set_sem k (sem\<lparr>sem_queue := sem_queue sem @ [currentThread s]\<rparr>) s);
        Some (False, s1) }
      else Some (True, set_sem k (sem\<lparr>sem_value := sem_value sem - 1\<rparr>) s))"

definition V_section :: "nat \<Rightarrow> ('h, 'z) kernel_scheme \<Rightarrow> ('h, 'z) kernel_scheme option" where
  "V_section k s =
     (let sem = sems s k in
      (case sem_queue sem of
         [] \<Rightarrow> Some (set_sem k (sem\<lparr>sem_value := sem_value sem + 1\<rparr>) s)
       | t # ts \<Rightarrow> do {
           s1 \<leftarrow> ReadyToRun t (set_sem k (sem\<lparr>sem_queue := ts\<rparr>) s);
           Some (set_sem k (sem\<lparr>sem_queue := ts, sem_value := sem_value sem + 1\<rparr>) s1) }))"

text \<open>\<open>V\<close> as a whole, with the interrupt level set and restored around the section.\<close>

definition V ::
    "('h \<Rightarrow> int \<Rightarrow> ('h, 'z) kernel_scheme \<Rightarrow> ('h, 'z) kernel_scheme option)
     \<Rightarrow> (('h, 'z) kernel_scheme \<Rightarrow> ('h, 'z) kernel_scheme option) \<Rightarrow> nat \<Rightarrow> ('h, 'z) kernel_scheme
     \<Rightarrow> ('h, 'z) kernel_scheme option" where
  "V H Y k s = do {
     (oldLevel, s1) \<leftarrow> SetLevel H Y IntOff s;
     s2 \<leftarrow> V_section k s1;
     (l, s3) \<leftarrow> SetLevel H Y oldLevel s2;
     Some s3 }"


section \<open>Interleavings\<close>

text \<open>
  Where a thread stands: in its own code (\<open>Outside\<close>), in the loop of \<open>P\<close> on a semaphore (\<open>InP\<close>), or past
  \<open>Finish\<close>.
\<close>

datatype continuation = Outside | InP nat | Finishing

datatype event = Took nat | Slept nat | Signalled nat "nat option" | Switched nat | Yielded nat nat
  | Stayed | Created nat | Forked nat | Finished nat

type_synonym ('h, 'z) config = "('h, 'z) kernel_scheme \<times> (nat \<Rightarrow> continuation)"

definition running :: "('h, 'z) kernel_scheme \<Rightarrow> bool" where
  "running s \<longleftrightarrow> (\<exists>t. threads s (currentThread s) = Some t \<and> tstatus t = RUNNING)"

text \<open>
  \<open>signal\<close> covers a \<open>V\<close> by the running thread and one by an interrupt handler, which may happen whether or not a
  thread runs. \<open>switch\<close> is a round of the loop in \<open>Sleep\<close>; the rounds that find no thread only idle, waiting for an
  interrupt, and are not steps. \<open>yield\<close> covers calls of \<open>Yield\<close> and time slices.
\<close>

inductive kstep :: "('h, 'z) config \<Rightarrow> event \<Rightarrow> ('h, 'z) config \<Rightarrow> bool" where
  take: "running s \<Longrightarrow> c (currentThread s) \<in> {Outside, InP k} \<Longrightarrow> P_section k s = Some (True, s') \<Longrightarrow>
    kstep (s, c) (Took k) (s', c(currentThread s := Outside))"
| sleep: "running s \<Longrightarrow> c (currentThread s) \<in> {Outside, InP k} \<Longrightarrow> P_section k s = Some (False, s') \<Longrightarrow>
    kstep (s, c) (Slept k) (s', c(currentThread s := InP k))"
| signal: "(running s \<and> c (currentThread s) = Outside) \<or> inHandler s \<or> \<not> running s \<Longrightarrow> V_section k s = Some s' \<Longrightarrow>
    kstep (s, c) (Signalled k (case sem_queue (sems s k) of [] \<Rightarrow> None | t # ts \<Rightarrow> Some t)) (s', c)"
| switch: "\<not> running s \<Longrightarrow> readyList s = t # ts \<Longrightarrow> Sleep_round s = Some (True, s') \<Longrightarrow>
    kstep (s, c) (Switched t) (s', c)"
| stay: "running s \<Longrightarrow> c (currentThread s) = Outside \<Longrightarrow> readyList s = [] \<Longrightarrow> Yield_section s = Some s' \<Longrightarrow>
    kstep (s, c) Stayed (s', c)"
| yield: "running s \<Longrightarrow> c (currentThread s) = Outside \<Longrightarrow> readyList s = t # ts \<Longrightarrow> Yield_section s = Some s' \<Longrightarrow>
    kstep (s, c) (Yielded t (currentThread s)) (s', c)"
| create: "running s \<Longrightarrow> c (currentThread s) = Outside \<Longrightarrow> threads s t = None \<Longrightarrow>
    kstep (s, c) (Created t) (set_thread t (Thread_new junk) s, c(t := Outside))"
| fork: "running s \<Longrightarrow> c (currentThread s) = Outside \<Longrightarrow> threads s t = Some tcb \<Longrightarrow> tstatus tcb = JUST_CREATED \<Longrightarrow>
    Fork_section t s = Some s' \<Longrightarrow> kstep (s, c) (Forked t) (s', c)"
| finish: "running s \<Longrightarrow> c (currentThread s) = Outside \<Longrightarrow> Finish_section s = Some s' \<Longrightarrow>
    kstep (s, c) (Finished (currentThread s)) (s', c(currentThread s := Finishing))"

inductive ksteps :: "('h, 'z) config \<Rightarrow> event list \<Rightarrow> ('h, 'z) config \<Rightarrow> bool" where
  refl: "ksteps x [] x"
| step: "ksteps x es y \<Longrightarrow> kstep y e z \<Longrightarrow> ksteps x (es @ [e]) z"

inductive_cases kstepE: "kstep x e y"

section \<open>Effects of the operations on the fields\<close>

lemma setThreadStatus_Some:
  "setThreadStatus t st s = Some s' \<longleftrightarrow> (\<exists>tcb. threads s t = Some tcb \<and> s' = s\<lparr>threads := (threads s)(t \<mapsto> tcb\<lparr>tstatus := st\<rparr>)\<rparr>)"
  by (auto simp: setThreadStatus_def set_thread_def bind_eq_Some_conv)

lemma ReadyToRun_Some:
  "ReadyToRun t s = Some s' \<longleftrightarrow> (\<exists>tcb. threads s t = Some tcb \<and>
     s' = s\<lparr>readyList := readyList s @ [t], threads := (threads s)(t \<mapsto> tcb\<lparr>tstatus := READY\<rparr>)\<rparr>)"
  by (auto simp: ReadyToRun_def setThreadStatus_Some bind_eq_Some_conv)

text \<open>What a context switch does to the scheduling state.\<close>

definition same_status :: "('h, 'z) kernel_scheme \<Rightarrow> ('h, 'z) kernel_scheme \<Rightarrow> nat \<Rightarrow> bool" where
  "same_status s s' t \<longleftrightarrow> map_option tstatus (threads s' t) = map_option tstatus (threads s t)"

lemma save_current_Some:
  assumes "save_current s = Some s'"
  shows "readyList s' = readyList s" "currentThread s' = currentThread s" "sems s' = sems s"
    "threadToBeDestroyed s' = threadToBeDestroyed s" "map_option tstatus (threads s' t) = map_option tstatus (threads s t)"
    "map_option started (threads s' t) = map_option started (threads s t)" "mach s' = mach s"
  using assms
  by (auto simp: save_current_def set_thread_def SaveUserState_def bind_eq_Some_conv split: option.splits)

lemma restore_current_Some:
  assumes "restore_current s = Some s'"
  shows "readyList s' = readyList s" "currentThread s' = currentThread s" "sems s' = sems s"
    "threadToBeDestroyed s' = threadToBeDestroyed s" "threads s' = threads s"
  using assms by (auto simp: restore_current_def bind_eq_Some_conv split: option.splits)

lemma delete_carcass_Some:
  assumes "delete_carcass s = Some s'"
  shows "readyList s' = readyList s" "currentThread s' = currentThread s" "sems s' = sems s" "mach s' = mach s"
    "threads s' t = (if threadToBeDestroyed s = Some t then None else threads s t)"
    "threadToBeDestroyed s' = None" "threadToBeDestroyed s \<noteq> Some (currentThread s)"
  using assms by (auto simp: delete_carcass_def bind_eq_Some_conv split: option.splits)

lemma Run_cases:
  assumes "Run n s = Some s'"
  obtains (fresh) s1 old nxt where "save_current s = Some s1" "threads s1 (currentThread s1) = Some old"
      "threads s1 n = Some nxt" "\<not> started nxt"
      "s' = set_thread n (nxt\<lparr>tstatus := RUNNING, started := True\<rparr>) (s1\<lparr>currentThread := n\<rparr>)"
  | (resumed) s1 old nxt s3 where "save_current s = Some s1" "threads s1 (currentThread s1) = Some old"
      "threads s1 n = Some nxt" "started nxt"
      "delete_carcass (set_thread n (nxt\<lparr>tstatus := RUNNING, started := True\<rparr>) (s1\<lparr>currentThread := n\<rparr>)) = Some s3"
      "restore_current s3 = Some s'"
proof -
  from assms obtain s1 old nxt where r: "save_current s = Some s1" "threads s1 (currentThread s1) = Some old"
    "threads s1 n = Some nxt" by (auto simp: Run_def bind_eq_Some_conv)
  let ?s2 = "set_thread n (nxt\<lparr>tstatus := RUNNING, started := True\<rparr>) (s1\<lparr>currentThread := n\<rparr>)"
  have "(if started nxt then delete_carcass ?s2 \<bind> restore_current else Some ?s2) = Some s'"
    using assms r by (auto simp: Run_def bind_eq_Some_conv Let_def)
  with r show ?thesis
    by (cases "started nxt") (auto simp: bind_eq_Some_conv intro: fresh resumed)
qed

lemma Run_Some:
  assumes "Run n s = Some s'"
  shows "readyList s' = readyList s" "currentThread s' = n" "sems s' = sems s"
    "map_option tstatus (threads s' n) = Some RUNNING"
    "t \<noteq> n \<Longrightarrow> map_option tstatus (threads s' t) = map_option tstatus (threads s t)
       \<or> threadToBeDestroyed s = Some t \<and> threads s' t = None \<and> threadToBeDestroyed s' = None"
    "threadToBeDestroyed s' = threadToBeDestroyed s \<or> threadToBeDestroyed s' = None"
proof -
  show "readyList s' = readyList s" "currentThread s' = n" "sems s' = sems s"
    "map_option tstatus (threads s' n) = Some RUNNING"
    using assms
    by - (erule Run_cases, auto simp: set_thread_def save_current_Some delete_carcass_Some(1-5) restore_current_Some
      dest: delete_carcass_Some(7))+
  show "threadToBeDestroyed s' = threadToBeDestroyed s \<or> threadToBeDestroyed s' = None"
    using assms
    by (cases rule: Run_cases) (auto simp: set_thread_def save_current_Some delete_carcass_Some restore_current_Some)
  show "map_option tstatus (threads s' t) = map_option tstatus (threads s t)
       \<or> threadToBeDestroyed s = Some t \<and> threads s' t = None \<and> threadToBeDestroyed s' = None" if "t \<noteq> n"
    using assms
  proof (cases rule: Run_cases)
    case (fresh s1 old nxt)
    with that save_current_Some(5) [OF fresh(1), of t] show ?thesis by (simp add: set_thread_def)
  next
    case (resumed s1 old nxt s3)
    with that save_current_Some [OF resumed(1)] show ?thesis
      by (auto simp: set_thread_def restore_current_Some(4,5) [OF resumed(6)] delete_carcass_Some(5,6) [OF resumed(5)])
  qed
qed

section \<open>Semaphores count\<close>

fun took :: "nat \<Rightarrow> event \<Rightarrow> nat" where
  "took k (Took j) = of_bool (j = k)"
| "took k _ = 0"

fun signalled :: "nat \<Rightarrow> event \<Rightarrow> nat" where
  "signalled k (Signalled j t) = of_bool (j = k)"
| "signalled k _ = 0"

definition P_count :: "nat \<Rightarrow> event list \<Rightarrow> nat" where "P_count k es = sum_list (map (took k) es)"
definition V_count :: "nat \<Rightarrow> event list \<Rightarrow> nat" where "V_count k es = sum_list (map (signalled k) es)"

definition value_of :: "('h, 'z) config \<Rightarrow> nat \<Rightarrow> int" where
  "value_of x k = sem_value (sems (fst x) k)"

lemma Sleep_enter_Some:
  "Sleep_enter s = Some s' \<longleftrightarrow> level s = IntOff \<and> (\<exists>tcb. threads s (currentThread s) = Some tcb
     \<and> s' = s\<lparr>threads := (threads s)(currentThread s \<mapsto> tcb\<lparr>tstatus := BLOCKED\<rparr>)\<rparr>)"
  by (simp add: Sleep_enter_def setThreadStatus_Some)

lemma Yield_section_Some:
  assumes "Yield_section s = Some s'"
  shows "sems s' = sems s"
  using assms
  by (auto simp: Yield_section_def FindNextToRun_def ReadyToRun_Some Run_Some(3) bind_eq_Some_conv split: list.splits)

lemma Sleep_round_Some:
  assumes "Sleep_round s = Some (b, s')"
  shows "sems s' = sems s"
  using assms
  by (auto simp: Sleep_round_def FindNextToRun_def Run_Some(3) bind_eq_Some_conv split: list.splits)

lemma kstep_value:
  assumes "kstep x e y"
  shows "value_of y k = value_of x k + int (signalled k e) - int (took k e)"
    and "0 \<le> value_of x k \<Longrightarrow> 0 \<le> value_of y k"
proof -
  show eq: "value_of y k = value_of x k + int (signalled k e) - int (took k e)"
    using assms
    by (cases rule: kstep.cases)
      (auto simp: value_of_def P_section_def V_section_def Let_def set_sem_def Sleep_enter_Some ReadyToRun_Some
        bind_eq_Some_conv Yield_section_Some Sleep_round_Some set_thread_def Fork_section_def Finish_section_def
        split: if_splits list.splits)
  show "0 \<le> value_of x k \<Longrightarrow> 0 \<le> value_of y k"
    using assms
    by (cases rule: kstep.cases)
      (use eq in \<open>auto simp: value_of_def P_section_def Let_def set_sem_def bind_eq_Some_conv split: if_splits\<close>)
qed

lemma ksteps_value:
  assumes "ksteps x es y"
  shows "value_of y k = value_of x k + int (V_count k es) - int (P_count k es)"
    and "0 \<le> value_of x k \<Longrightarrow> 0 \<le> value_of y k"
proof -
  show "value_of y k = value_of x k + int (V_count k es) - int (P_count k es)"
    using assms by (induction rule: ksteps.induct) (auto simp: kstep_value(1) P_count_def V_count_def)
  show "0 \<le> value_of x k \<Longrightarrow> 0 \<le> value_of y k"
    using assms by (induction rule: ksteps.induct) (auto dest: kstep_value(2))
qed


section \<open>First-in first-out scheduling\<close>

fun ran :: "event \<Rightarrow> nat list" where
  "ran (Switched t) = [t]"
| "ran (Yielded t u) = [t]"
| "ran _ = []"

fun readied :: "event \<Rightarrow> nat list" where
  "readied (Signalled k (Some t)) = [t]"
| "readied (Yielded t u) = [u]"
| "readied (Forked t) = [t]"
| "readied _ = []"

lemma kstep_fifo:
  assumes "kstep x e y"
  shows "ran e @ readyList (fst y) = readyList (fst x) @ readied e"
  using assms
proof (cases rule: kstep.cases)
  case (switch s t ts s' c)
  then obtain s2 where "Run t (s\<lparr>readyList := ts\<rparr>) = Some s2" "s' = s2"
    by (auto simp: Sleep_round_def FindNextToRun_def bind_eq_Some_conv)
  with switch show ?thesis by (auto simp: Run_Some(1))
next
  case (yield s c t ts s')
  then obtain s2 where "ReadyToRun (currentThread s) (s\<lparr>readyList := ts\<rparr>) = Some s2" "Run t s2 = Some s'"
    by (auto simp: Yield_section_def FindNextToRun_def bind_eq_Some_conv)
  with yield show ?thesis by (auto simp: ReadyToRun_Some Run_Some(1))
next
  case (stay s c s')
  then show ?thesis by (simp add: Yield_section_def FindNextToRun_def)
qed (auto simp: P_section_def V_section_def Let_def set_sem_def Sleep_enter_Some ReadyToRun_Some
    bind_eq_Some_conv set_thread_def Fork_section_def Finish_section_def split: if_splits list.splits)

lemma ksteps_fifo:
  "ksteps x es y \<Longrightarrow> concat (map ran es) @ readyList (fst y) = readyList (fst x) @ concat (map readied es)"
proof (induction rule: ksteps.induct)
  case (step x es y e z)
  from kstep_fifo [OF step.hyps(2)] step.IH show ?case
    by simp
qed simp

section \<open>The scheduling invariant\<close>

definition stat :: "('h, 'z) kernel_scheme \<Rightarrow> nat \<Rightarrow> ThreadStatus option" where
  "stat s t = map_option tstatus (threads s t)"

text \<open>
  The status of a thread says where it is: the running one is the current thread, the ready ones are exactly the
  entries of the ready list, a blocked one waits in the queue of the semaphore whose \<open>P\<close> it is in or has finished.
  The invariant is stated on the components it depends on.
\<close>

definition sched_view :: "(nat \<Rightarrow> ThreadStatus option) \<Rightarrow> nat list \<Rightarrow> nat \<Rightarrow> (nat \<Rightarrow> nat list) \<Rightarrow> nat option
    \<Rightarrow> (nat \<Rightarrow> continuation) \<Rightarrow> bool" where
  "sched_view st rl cur q ttd c \<longleftrightarrow>
     distinct rl \<and> (\<forall>t. t \<in> set rl \<longleftrightarrow> st t = Some READY) \<and> (\<forall>t. t \<noteq> cur \<longrightarrow> st t \<noteq> Some RUNNING)
     \<and> (\<forall>k. distinct (q k)) \<and> (\<forall>k t. t \<in> set (q k) \<longleftrightarrow> st t = Some BLOCKED \<and> c t = InP k)
     \<and> (\<forall>t. st t = Some BLOCKED \<longrightarrow> c t \<noteq> Outside) \<and> (\<forall>t. st t = Some JUST_CREATED \<longrightarrow> c t = Outside)
     \<and> (\<forall>t. c t = Finishing \<longrightarrow> st t = Some BLOCKED \<or> st t = None)
     \<and> (\<forall>t. ttd = Some t \<longrightarrow> c t = Finishing \<and> st t = Some BLOCKED)"

definition sched_ok :: "('h, 'z) config \<Rightarrow> bool" where
  "sched_ok x = sched_view (stat (fst x)) (readyList (fst x)) (currentThread (fst x))
     (\<lambda>k. sem_queue (sems (fst x) k)) (threadToBeDestroyed (fst x)) (snd x)"

lemma running_stat: "running s \<longleftrightarrow> stat s (currentThread s) = Some RUNNING"
  by (auto simp: running_def stat_def)

text \<open>A switch to \<open>n\<close>, which has just left the ready list.\<close>

lemma view_run:
  assumes "sched_view st (n # rl) cur q ttd c" "\<forall>t. st t \<noteq> Some RUNNING"
    "st' n = Some RUNNING" "ttd' = ttd \<or> ttd' = None"
    "\<And>t. t \<noteq> n \<Longrightarrow> st' t = st t \<or> ttd = Some t \<and> st' t = None \<and> ttd' = None"
  shows "sched_view st' rl n q ttd' c"
proof -
  have n: "st n = Some READY" "n \<notin> set rl" using assms(1) by (auto simp: sched_view_def)
  have ttd: "c t = Finishing \<and> st t = Some BLOCKED" if "ttd = Some t" for t
    using assms(1) that by (auto simp: sched_view_def)
  have st': "st' t = st t \<or> c t = Finishing \<and> st t = Some BLOCKED \<and> st' t = None \<and> ttd' = None" if "t \<noteq> n" for t
    using assms(5) [OF that] ttd by auto
  show ?thesis
    unfolding sched_view_def
  proof (intro conjI allI impI)
    show "distinct rl" "\<And>k. distinct (q k)" using assms(1) by (auto simp: sched_view_def)
    show "t \<in> set rl \<longleftrightarrow> st' t = Some READY" for t
      using assms(1,3) n st' [of t] by (cases "t = n") (auto simp: sched_view_def)
    show "t \<noteq> n \<Longrightarrow> st' t \<noteq> Some RUNNING" for t
      using assms(2) st' [of t] by (cases "t = n") auto
    show "t \<in> set (q k) \<longleftrightarrow> st' t = Some BLOCKED \<and> c t = InP k" for k t
      using assms(1,3) n st' [of t] by (cases "t = n") (auto simp: sched_view_def)
    show "st' t = Some BLOCKED \<Longrightarrow> c t \<noteq> Outside" "st' t = Some JUST_CREATED \<Longrightarrow> c t = Outside" for t
      using assms(1,3) st' [of t] by (cases "t = n"; auto simp: sched_view_def)+
    show "c t = Finishing \<Longrightarrow> st' t = Some BLOCKED \<or> st' t = None" for t
      using assms(1) n st' [of t] by (cases "t = n") (auto simp: sched_view_def)
    show "ttd' = Some t \<Longrightarrow> c t = Finishing" "ttd' = Some t \<Longrightarrow> st' t = Some BLOCKED" for t
      using ttd [of t] assms(4) n st' [of t] by (cases "t = n"; auto)+
  qed
qed

lemma Run_view:
  assumes "Run n s = Some s'" "sched_view (stat s) (n # readyList s) cur (\<lambda>k. sem_queue (sems s k)) (threadToBeDestroyed s) c"
    "\<forall>t. stat s t \<noteq> Some RUNNING"
  shows "sched_ok (s', c)"
proof -
  have "stat s' t = stat s t \<or> threadToBeDestroyed s = Some t \<and> stat s' t = None \<and> threadToBeDestroyed s' = None"
    if "t \<noteq> n" for t
    using Run_Some(5) [OF assms(1) that] by (auto simp: stat_def)
  moreover have "stat s' n = Some RUNNING" using Run_Some(4) [OF assms(1)] by (simp add: stat_def)
  ultimately have "sched_view (stat s') (readyList s) n (\<lambda>k. sem_queue (sems s k)) (threadToBeDestroyed s') c"
    using view_run [OF assms(2,3)] Run_Some(6) [OF assms(1)] by blast
  then show ?thesis
    using Run_Some(1-3) [OF assms(1)] by (simp add: sched_ok_def)
qed


text \<open>The effect of the other operations on the components.\<close>

lemma view_wake:
  assumes "sched_view st rl cur q ttd c" "q k = t # ts"
  shows "sched_view (st(t := Some READY)) (rl @ [t]) cur (q(k := ts)) ttd c"
proof -
  have t: "st t = Some BLOCKED" "c t = InP k" "t \<notin> set ts"
    using assms by (auto simp: sched_view_def) (metis distinct.simps(2) list.set_intros(1))+
  have q: "set (q j) = {u. st u = Some BLOCKED \<and> c u = InP j}" for j using assms(1) by (auto simp: sched_view_def)
  then have "set ts = {u. st u = Some BLOCKED \<and> c u = InP k} - {t}" using assms(2) t(3) q [of k] by auto
  moreover have "distinct ts" using assms by (auto simp: sched_view_def) (metis distinct.simps(2))
  moreover have "t \<notin> set (q j)" if "j \<noteq> k" for j using q t(2) that by auto
  moreover have "t \<notin> set rl" "ttd \<noteq> Some t" using assms(1) t by (auto simp: sched_view_def)
  ultimately show ?thesis using assms(1) t by (auto simp: sched_view_def)
qed

lemma view_block:
  assumes "sched_view st rl cur q ttd c" "st cur = Some RUNNING"
  shows "sched_view (st(cur := Some BLOCKED)) rl cur (q(k := q k @ [cur])) ttd (c(cur := InP k))"
    and "sched_view (st(cur := Some BLOCKED)) rl cur q (Some cur) (c(cur := Finishing))"
  using assms by (auto simp: sched_view_def)

lemma view_preempt:
  assumes "sched_view st (n # rl) cur q ttd c" "st cur = Some RUNNING"
  shows "sched_view (st(cur := Some READY)) (n # rl @ [cur]) cur q ttd c" "\<forall>t. (st(cur := Some READY)) t \<noteq> Some RUNNING"
proof -
  have "st n = Some READY" using assms(1) by (simp add: sched_view_def) metis
  then have "n \<noteq> cur" using assms(2) by auto
  then show "sched_view (st(cur := Some READY)) (n # rl @ [cur]) cur q ttd c" "\<forall>t. (st(cur := Some READY)) t \<noteq> Some RUNNING"
    using assms by (auto simp: sched_view_def)
qed

lemma view_add:
  assumes "sched_view st rl cur q ttd c"
  shows "st t = None \<Longrightarrow> sched_view (st(t := Some JUST_CREATED)) rl cur q ttd (c(t := Outside))"
    and "st t = Some JUST_CREATED \<Longrightarrow> sched_view (st(t := Some READY)) (rl @ [t]) cur q ttd c"
  using assms by (auto simp: sched_view_def)

lemma view_leave:
  "sched_view st rl cur q ttd c \<Longrightarrow> st cur = Some RUNNING \<Longrightarrow> sched_view st rl cur q ttd (c(cur := Outside))"
  by (auto simp: sched_view_def)

lemma stat_update: "stat (s\<lparr>threads := (threads s)(t \<mapsto> tcb)\<rparr>) = (stat s)(t := Some (tstatus tcb))"
  by (auto simp: stat_def fun_eq_iff)

lemma stat_same [simp]:
  "stat (s\<lparr>level := l\<rparr>) = stat s" "stat (s\<lparr>readyList := r\<rparr>) = stat s" "stat (s\<lparr>sems := q\<rparr>) = stat s"
  "stat (s\<lparr>currentThread := n\<rparr>) = stat s" "stat (s\<lparr>threadToBeDestroyed := d\<rparr>) = stat s"
  by (simp_all add: stat_def fun_eq_iff)


lemma sched_ok_pair: "sched_ok (s, c) = sched_view (stat s) (readyList s) (currentThread s)
    (\<lambda>k. sem_queue (sems s k)) (threadToBeDestroyed s) c"
  by (simp add: sched_ok_def)

lemma take_sched:
  assumes "sched_ok (s, c)" "running s" "P_section k s = Some (True, s')"
  shows "sched_ok (s', c(currentThread s := Outside))"
proof -
  have "stat s' = stat s" "readyList s' = readyList s" "currentThread s' = currentThread s"
    "(\<lambda>k. sem_queue (sems s' k)) = (\<lambda>k. sem_queue (sems s k))" "threadToBeDestroyed s' = threadToBeDestroyed s"
    using assms(3) by (auto simp: P_section_def Let_def set_sem_def bind_eq_Some_conv split: if_splits)
  then show ?thesis using view_leave assms(1,2) by (simp add: sched_ok_pair running_stat)
qed

lemma sleep_sched:
  assumes "sched_ok (s, c)" "running s" "P_section k s = Some (False, s')"
  shows "sched_ok (s', c(currentThread s := InP k))"
proof -
  have "stat s' = (stat s)(currentThread s := Some BLOCKED)" "readyList s' = readyList s"
    "currentThread s' = currentThread s" "threadToBeDestroyed s' = threadToBeDestroyed s"
    "(\<lambda>j. sem_queue (sems s' j)) = (\<lambda>j. sem_queue (sems s j))(k := sem_queue (sems s k) @ [currentThread s])"
    using assms(3)
    by (auto simp: P_section_def Let_def set_sem_def bind_eq_Some_conv Sleep_enter_Some stat_def fun_eq_iff split: if_splits)
  then show ?thesis using view_block(1) assms(1,2) by (simp add: sched_ok_pair running_stat)
qed

lemma V_section_cases:
  assumes "V_section k s = Some s'"
  obtains (nobody) "sem_queue (sems s k) = []" "stat s' = stat s" "readyList s' = readyList s"
      "currentThread s' = currentThread s" "threadToBeDestroyed s' = threadToBeDestroyed s"
      "(\<lambda>j. sem_queue (sems s' j)) = (\<lambda>j. sem_queue (sems s j))"
  | (woken) t ts where "sem_queue (sems s k) = t # ts" "stat s' = (stat s)(t := Some READY)" "readyList s' = readyList s @ [t]"
      "currentThread s' = currentThread s" "threadToBeDestroyed s' = threadToBeDestroyed s"
      "(\<lambda>j. sem_queue (sems s' j)) = (\<lambda>j. sem_queue (sems s j))(k := ts)"
proof (cases "sem_queue (sems s k)")
  case Nil
  then show ?thesis using assms by (intro nobody) (auto simp: V_section_def Let_def set_sem_def)
next
  case (Cons t ts)
  then show ?thesis
    using assms by (intro woken) (auto simp: V_section_def Let_def set_sem_def bind_eq_Some_conv ReadyToRun_Some stat_def fun_eq_iff)
qed

lemma signal_sched:
  assumes "sched_ok (s, c)" "V_section k s = Some s'"
  shows "sched_ok (s', c)"
  using assms(2)
proof (cases rule: V_section_cases)
  case (woken t ts)
  then show ?thesis using view_wake [of _ _ _ _ _ c k t ts] assms(1) by (simp add: sched_ok_pair)
qed (use assms(1) in \<open>simp add: sched_ok_pair\<close>)

lemma switch_sched:
  assumes "sched_ok (s, c)" "\<not> running s" "readyList s = t # ts" "Sleep_round s = Some (True, s')"
  shows "sched_ok (s', c)"
proof -
  from assms(3,4) have r: "Run t (s\<lparr>readyList := ts\<rparr>) = Some s'"
    by (auto simp: Sleep_round_def FindNextToRun_def bind_eq_Some_conv)
  have "\<forall>u. stat s u \<noteq> Some RUNNING"
    using assms(1,2) unfolding sched_ok_pair sched_view_def running_stat by metis
  with Run_view [OF r] assms(1,3) show ?thesis by (simp add: sched_ok_pair)
qed

lemma yield_sched:
  assumes "sched_ok (s, c)" "running s" "readyList s = t # ts" "Yield_section s = Some s'"
  shows "sched_ok (s', c)"
proof -
  from assms(3,4) obtain s2 where r: "ReadyToRun (currentThread s) (s\<lparr>readyList := ts\<rparr>) = Some s2" "Run t s2 = Some s'"
    by (auto simp: Yield_section_def FindNextToRun_def bind_eq_Some_conv)
  from r(1) have s2: "stat s2 = (stat s)(currentThread s := Some READY)" "readyList s2 = ts @ [currentThread s]"
    "sems s2 = sems s" "threadToBeDestroyed s2 = threadToBeDestroyed s"
    by (auto simp: ReadyToRun_Some stat_def fun_eq_iff)
  have "stat s (currentThread s) = Some RUNNING" using assms(2) by (simp add: running_stat)
  with view_preempt [of "stat s" t ts "currentThread s" _ _ c] Run_view [OF r(2), of "currentThread s" c] assms(1,3)
  show ?thesis by (simp add: s2 sched_ok_pair)
qed

lemma fork_sched:
  assumes "sched_ok (s, c)" "threads s t = Some tcb" "tstatus tcb = JUST_CREATED" "Fork_section t s = Some s'"
  shows "sched_ok (s', c)"
proof -
  have "stat s t = Some JUST_CREATED" using assms(2,3) by (simp add: stat_def)
  moreover have "stat s' = (stat s)(t := Some READY)" "readyList s' = readyList s @ [t]"
    "currentThread s' = currentThread s" "sems s' = sems s" "threadToBeDestroyed s' = threadToBeDestroyed s"
    using assms(4) by (auto simp: Fork_section_def ReadyToRun_Some set_thread_def stat_def fun_eq_iff bind_eq_Some_conv)
  ultimately show ?thesis using assms(1) view_add(2) by (simp add: sched_ok_pair)
qed

lemma finish_sched:
  assumes "sched_ok (s, c)" "running s" "Finish_section s = Some s'"
  shows "sched_ok (s', c(currentThread s := Finishing))"
proof -
  have "stat s' = (stat s)(currentThread s := Some BLOCKED)" "readyList s' = readyList s"
    "currentThread s' = currentThread s" "sems s' = sems s" "threadToBeDestroyed s' = Some (currentThread s)"
    using assms(3) by (auto simp: Finish_section_def Sleep_enter_Some stat_def fun_eq_iff)
  then show ?thesis using view_block(2) assms(1,2) by (simp add: sched_ok_pair running_stat)
qed

lemma create_sched:
  "sched_ok (s, c) \<Longrightarrow> threads s t = None \<Longrightarrow> sched_ok (set_thread t (Thread_new junk) s, c(t := Outside))"
  using view_add(1) [of "stat s" "readyList s" "currentThread s" _ "threadToBeDestroyed s" c t]
  by (simp add: sched_ok_pair set_thread_def stat_update Thread_new_def stat_def [of s])

lemma kstep_sched_ok:
  assumes "kstep x e y" "sched_ok x"
  shows "sched_ok y"
  using assms
  by (cases rule: kstep.cases)
    (auto intro: take_sched sleep_sched signal_sched switch_sched yield_sched fork_sched finish_sched create_sched
      simp: Yield_section_def FindNextToRun_def)

lemma ksteps_sched_ok: "ksteps x es y \<Longrightarrow> sched_ok x \<Longrightarrow> sched_ok y"
  by (induction rule: ksteps.induct) (auto intro: kstep_sched_ok)


section \<open>No lost wakeups\<close>

text \<open>The threads that can go on: the ready ones and the running one; and those of them inside \<open>P\<close> on \<open>k\<close>.\<close>

definition runnable :: "('h, 'z) kernel_scheme \<Rightarrow> nat multiset" where
  "runnable s = mset (readyList s) + (if running s then {#currentThread s#} else {#})"

definition retrying :: "('h, 'z) config \<Rightarrow> nat \<Rightarrow> nat" where
  "retrying x k = size (filter_mset (\<lambda>t. snd x t = InP k) (runnable (fst x)))"

definition no_lost_wakeup :: "('h, 'z) config \<Rightarrow> bool" where
  "no_lost_wakeup x \<longleftrightarrow> (\<forall>k. sem_queue (sems (fst x) k) \<noteq> [] \<longrightarrow> value_of x k \<le> int (retrying x k))"

lemma no_lostI:
  "(\<And>j. sem_queue (sems s j) \<noteq> [] \<Longrightarrow> sem_value (sems s j) \<le> int (retrying (s, c) j)) \<Longrightarrow> no_lost_wakeup (s, c)"
  by (simp add: no_lost_wakeup_def value_of_def)

lemma no_lostD:
  "no_lost_wakeup (s, c) \<Longrightarrow> sem_queue (sems s j) \<noteq> [] \<Longrightarrow> sem_value (sems s j) \<le> int (retrying (s, c) j)"
  by (simp add: no_lost_wakeup_def value_of_def)

lemma Run_runnable:
  assumes "Run n s = Some s'"
  shows "runnable s' = mset (readyList s) + {#n#}"
  using Run_Some [OF assms] by (auto simp: runnable_def running_stat stat_def)

lemma retrying_upd:
  assumes "running s" "sched_ok (s, c)"
  shows "retrying (s, c(currentThread s := v)) k =
    size (filter_mset (\<lambda>t. c t = InP k) (mset (readyList s))) + (if v = InP k then 1 else 0)"
proof -
  have "currentThread s \<notin> set (readyList s)"
    using assms unfolding sched_ok_pair sched_view_def running_stat by force
  then have "filter_mset (\<lambda>t. (c(currentThread s := v)) t = InP k) (mset (readyList s)) =
      filter_mset (\<lambda>t. c t = InP k) (mset (readyList s))"
    by (intro filter_mset_cong) auto
  with assms(1) show ?thesis by (auto simp: retrying_def runnable_def)
qed

lemma take_no_lost:
  assumes "no_lost_wakeup (s, c)" "sched_ok (s, c)" "running s" "c (currentThread s) \<in> {Outside, InP k}"
    "P_section k s = Some (True, s')"
  shows "no_lost_wakeup (s', c(currentThread s := Outside))"
proof -
  have s': "stat s' = stat s" "readyList s' = readyList s" "currentThread s' = currentThread s"
    "\<And>j. sem_queue (sems s' j) = sem_queue (sems s j)"
    "\<And>j. sem_value (sems s' j) = sem_value (sems s j) - of_bool (j = k)"
    using assms(5) by (auto simp: P_section_def Let_def set_sem_def bind_eq_Some_conv split: if_splits)
  have "retrying (s', c(currentThread s := Outside)) j = retrying (s, c(currentThread s := Outside)) j" for j
    using s' by (simp add: retrying_def runnable_def running_stat)
  moreover have "retrying (s, c) j \<le> retrying (s, c(currentThread s := Outside)) j + of_bool (j = k)" for j
    using retrying_upd [OF assms(3,2), of Outside j] retrying_upd [OF assms(3,2), of "c (currentThread s)" j] assms(4)
    by auto
  ultimately have r: "int (retrying (s, c) j) \<le> int (retrying (s', c(currentThread s := Outside)) j) + of_bool (j = k)" for j
    by (metis of_nat_add of_nat_le_iff of_nat_of_bool)
  show ?thesis
  proof (rule no_lostI)
    fix j assume "sem_queue (sems s' j) \<noteq> []"
    with no_lostD [OF assms(1), of j] r [of j]
    show "sem_value (sems s' j) \<le> int (retrying (s', c(currentThread s := Outside)) j)" by (simp add: s')
  qed
qed

lemma sleep_no_lost:
  assumes "no_lost_wakeup (s, c)" "sched_ok (s, c)" "running s" "c (currentThread s) \<in> {Outside, InP k}"
    "P_section k s = Some (False, s')"
  shows "no_lost_wakeup (s', c(currentThread s := InP k))"
proof -
  have s': "stat s' (currentThread s) = Some BLOCKED" "readyList s' = readyList s" "currentThread s' = currentThread s"
    "\<And>j. sem_value (sems s' j) = sem_value (sems s j)" "sem_value (sems s k) = 0"
    "\<And>j. j \<noteq> k \<Longrightarrow> sem_queue (sems s' j) = sem_queue (sems s j)"
    using assms(5)
    by (auto simp: P_section_def Let_def set_sem_def bind_eq_Some_conv Sleep_enter_Some stat_def split: if_splits)
  have "currentThread s \<notin> set (readyList s)"
    using assms(2,3) unfolding sched_ok_pair sched_view_def running_stat by force
  then have "filter_mset (\<lambda>t. (c(currentThread s := InP k)) t = InP j) (mset (readyList s)) =
      filter_mset (\<lambda>t. c t = InP j) (mset (readyList s))" for j
    by (intro filter_mset_cong) auto
  then have r: "retrying (s', c(currentThread s := InP k)) j = size (filter_mset (\<lambda>t. c t = InP j) (mset (readyList s)))" for j
    using s'(1-3) by (simp add: retrying_def runnable_def running_stat)
  have "retrying (s, c) j = retrying (s', c(currentThread s := InP k)) j" if "j \<noteq> k" for j
    using retrying_upd [OF assms(3,2), of "c (currentThread s)" j] r [of j] assms(4) that by auto
  note same = this
  show ?thesis
  proof (rule no_lostI)
    fix j assume "sem_queue (sems s' j) \<noteq> []"
    with no_lostD [OF assms(1), of j] same [of j] s' show "sem_value (sems s' j) \<le> int (retrying (s', c(currentThread s := InP k)) j)"
      by (cases "j = k") simp_all
  qed
qed

lemma signal_no_lost:
  assumes "no_lost_wakeup (s, c)" "sched_ok (s, c)" "V_section k s = Some s'"
  shows "no_lost_wakeup (s', c)"
proof -
  have val: "sem_value (sems s' j) = sem_value (sems s j) + of_bool (j = k)" for j
    using assms(3) by (auto simp: V_section_def Let_def set_sem_def bind_eq_Some_conv ReadyToRun_Some split: list.splits)
  from assms(3) show ?thesis
  proof (cases rule: V_section_cases)
    case nobody
    then have "retrying (s', c) j = retrying (s, c) j" "sem_queue (sems s' j) = sem_queue (sems s j)" for j
      by (simp_all add: retrying_def runnable_def running_stat) metis
    with nobody(1) no_lostD [OF assms(1)] show ?thesis by (intro no_lostI) (case_tac "j = k", auto simp: val)
  next
    case (woken t ts)
    then have t: "stat s t = Some BLOCKED" "c t = InP k"
      using assms(2) unfolding sched_ok_pair sched_view_def by (metis list.set_intros(1))+
    have "running s' = running s" using woken(2,4) t(1) by (simp add: running_stat)
    then have r: "retrying (s', c) j = retrying (s, c) j + of_bool (j = k)" for j
      using woken(3,4) t(2) by (simp add: retrying_def runnable_def)
    have q: "sem_queue (sems s' j) \<noteq> [] \<Longrightarrow> sem_queue (sems s j) \<noteq> []" for j
      using woken(1,6) by (auto simp: fun_eq_iff split: if_splits)
    show ?thesis
    proof (rule no_lostI)
      fix j assume "sem_queue (sems s' j) \<noteq> []"
      from no_lostD [OF assms(1) q [OF this]] show "sem_value (sems s' j) \<le> int (retrying (s', c) j)"
        by (simp add: val r)
    qed
  qed
qed


text \<open>The remaining steps move threads between the ready list and the processor, or add threads outside \<open>P\<close>.\<close>

lemma same_runnable_no_lost:
  assumes "no_lost_wakeup (s, c)" "sems s' = sems s" "\<And>k. retrying (s, c) k \<le> retrying (s', c') k"
  shows "no_lost_wakeup (s', c')"
proof (rule no_lostI)
  fix j assume "sem_queue (sems s' j) \<noteq> []"
  with no_lostD [OF assms(1), of j] assms(2,3) show "sem_value (sems s' j) \<le> int (retrying (s', c') j)"
    by (metis order.trans of_nat_le_iff)
qed

lemma switch_no_lost:
  assumes "no_lost_wakeup (s, c)" "\<not> running s" "readyList s = t # ts" "Sleep_round s = Some (True, s')"
  shows "no_lost_wakeup (s', c)"
proof -
  from assms(3,4) have r: "Run t (s\<lparr>readyList := ts\<rparr>) = Some s'"
    by (auto simp: Sleep_round_def FindNextToRun_def bind_eq_Some_conv)
  have "runnable s' = runnable s" using Run_runnable [OF r] assms(2,3) by (simp add: runnable_def)
  then show ?thesis
    using assms(1) Run_Some(3) [OF r] by (intro same_runnable_no_lost [OF assms(1)]) (auto simp: retrying_def)
qed

lemma yield_no_lost:
  assumes "no_lost_wakeup (s, c)" "running s" "readyList s = t # ts" "Yield_section s = Some s'"
  shows "no_lost_wakeup (s', c)"
proof -
  from assms(3,4) obtain s2 where r: "ReadyToRun (currentThread s) (s\<lparr>readyList := ts\<rparr>) = Some s2" "Run t s2 = Some s'"
    by (auto simp: Yield_section_def FindNextToRun_def bind_eq_Some_conv)
  from r(1) have s2: "readyList s2 = ts @ [currentThread s]" "sems s2 = sems s" by (auto simp: ReadyToRun_Some)
  have "runnable s' = runnable s" using Run_runnable [OF r(2)] assms(2,3) s2 by (simp add: runnable_def)
  then show ?thesis
    using assms(1) Run_Some(3) [OF r(2)] s2(2) by (intro same_runnable_no_lost [OF assms(1)]) (auto simp: retrying_def)
qed

lemma fork_no_lost:
  assumes "no_lost_wakeup (s, c)" "running s" "Fork_section t s = Some s'" "threads s t = Some tcb" "tstatus tcb = JUST_CREATED"
  shows "no_lost_wakeup (s', c)"
proof -
  have s': "readyList s' = readyList s @ [t]" "sems s' = sems s" "currentThread s' = currentThread s"
    "stat s' = (stat s)(t := Some READY)"
    using assms(3) by (auto simp: Fork_section_def ReadyToRun_Some set_thread_def bind_eq_Some_conv stat_def fun_eq_iff)
  have "t \<noteq> currentThread s" using assms(2,4,5) by (auto simp: running_stat stat_def)
  then have "running s'" using assms(2) s' by (simp add: running_stat)
  then have "runnable s' = add_mset t (runnable s)" using assms(2) s' by (simp add: runnable_def)
  then show ?thesis using assms(1) s' by (intro same_runnable_no_lost [OF assms(1)]) (auto simp: retrying_def)
qed

lemma finish_no_lost:
  assumes "no_lost_wakeup (s, c)" "sched_ok (s, c)" "running s" "c (currentThread s) = Outside" "Finish_section s = Some s'"
  shows "no_lost_wakeup (s', c(currentThread s := Finishing))"
proof -
  have s': "readyList s' = readyList s" "sems s' = sems s" "currentThread s' = currentThread s"
    "stat s' = (stat s)(currentThread s := Some BLOCKED)"
    using assms(5) by (auto simp: Finish_section_def Sleep_enter_Some stat_def fun_eq_iff)
  have "currentThread s \<notin> set (readyList s)"
    using assms(2,3) unfolding sched_ok_pair sched_view_def running_stat by force
  then have "filter_mset (\<lambda>t. (c(currentThread s := Finishing)) t = InP j) (mset (readyList s)) =
      filter_mset (\<lambda>t. c t = InP j) (mset (readyList s))" for j
    by (intro filter_mset_cong) auto
  then have "retrying (s', c(currentThread s := Finishing)) j = retrying (s, c) j" for j
    using s' assms(3,4) by (simp add: retrying_def runnable_def running_stat)
  then show ?thesis using assms(1) s'(2) by (intro same_runnable_no_lost [OF assms(1)]) auto
qed

lemma create_no_lost:
  assumes "no_lost_wakeup (s, c)" "sched_ok (s, c)" "threads s t = None"
  shows "no_lost_wakeup (set_thread t (Thread_new junk) s, c(t := Outside))"
proof -
  have "t \<notin> set (readyList s)" using assms(2,3) by (auto simp: sched_ok_pair sched_view_def stat_def)
  moreover have "running (set_thread t (Thread_new junk) s) = running s"
    using assms(3) by (auto simp: running_def set_thread_def Thread_new_def)
  moreover have "running s \<Longrightarrow> currentThread s \<noteq> t" using assms(3) by (auto simp: running_def)
  ultimately have "t \<notin># runnable s" "runnable (set_thread t (Thread_new junk) s) = runnable s"
    by (auto simp: runnable_def set_thread_def)
  then have "retrying (set_thread t (Thread_new junk) s, c(t := Outside)) k = retrying (s, c) k" for k
    by (auto simp: retrying_def intro!: arg_cong [of _ _ size] filter_mset_cong)
  then show ?thesis using assms(1) by (intro same_runnable_no_lost [OF assms(1)]) (auto simp: set_thread_def)
qed

lemma kstep_no_lost:
  assumes "kstep x e y" "sched_ok x" "no_lost_wakeup x"
  shows "no_lost_wakeup y"
  using assms
proof (cases rule: kstep.cases)
  case (stay s c s')
  then show ?thesis using assms(3) by (simp add: Yield_section_def FindNextToRun_def)
qed (auto intro: take_no_lost sleep_no_lost signal_no_lost switch_no_lost yield_no_lost fork_no_lost
    finish_no_lost create_no_lost)

lemma ksteps_no_lost: "ksteps x es y \<Longrightarrow> sched_ok x \<Longrightarrow> no_lost_wakeup x \<Longrightarrow> no_lost_wakeup y"
  by (induction rule: ksteps.induct) (auto intro: kstep_no_lost ksteps_sched_ok)


section \<open>Context switches keep the user state\<close>

lemma Run_saves:
  assumes "Run n s = Some s1" "currentThread s \<noteq> n" "threadToBeDestroyed s \<noteq> Some (currentThread s)"
    "threads s (currentThread s) = Some tcb" "space tcb = Some sp" "mach s = Some m"
  shows "threads s1 (currentThread s) = Some ((SaveUserState m tcb)\<lparr>space := Some (SaveSpace m sp)\<rparr>)"
proof -
  have sv: "save_current s = Some (set_thread (currentThread s) ((SaveUserState m tcb)\<lparr>space := Some (SaveSpace m sp)\<rparr>) s)"
    using assms(4-6) by (simp add: save_current_def)
  from assms(1) show ?thesis
  proof (cases rule: Run_cases)
    case (fresh s0 old nxt)
    then show ?thesis using sv assms(2) by (auto simp: set_thread_def)
  next
    case (resumed s0 old nxt s3)
    then show ?thesis
      using sv assms(2,3) by (simp add: restore_current_Some(5) delete_carcass_Some(5)) (auto simp: set_thread_def)
  qed
qed

lemma Run_restores:
  assumes "Run t s = Some s'" "currentThread s \<noteq> t" "threads s t = Some tcb" "started tcb" "space tcb = Some sp"
  shows "\<exists>m. mach s = Some m \<and> mach s' = Some (RestoreState sp (RestoreUserState tcb m))"
proof -
  have other: "threads s1 t = threads s t" if "save_current s = Some s1" for s1
    using that assms(2) by (auto simp: save_current_def set_thread_def bind_eq_Some_conv split: option.splits)
  from assms(1) show ?thesis
  proof (cases rule: Run_cases)
    case (fresh s1 old nxt)
    then show ?thesis using other assms(3,4) by simp
  next
    case (resumed s1 old nxt s3)
    then have nxt: "nxt = tcb" using other assms(3) by simp
    have "threads s3 t = Some (tcb\<lparr>tstatus := RUNNING, started := True\<rparr>)" "currentThread s3 = t" "mach s3 = mach s"
      using delete_carcass_Some(1-5) [OF resumed(5)] delete_carcass_Some(7) [OF resumed(5)] save_current_Some(7) [OF resumed(1)] nxt
      by (auto simp: set_thread_def)
    with resumed(6) assms(5) show ?thesis
      by (auto simp: restore_current_def bind_eq_Some_conv RestoreUserState_def cong: if_cong)
  qed
qed

section \<open>Properties of threads and semaphores\<close>

text \<open>The kernel after start-up: the main thread runs, semaphores are free. The witnesses start from it.\<close>

definition boot :: "unit kernel" where
  "boot = hw.extend (Interrupt_new None) \<lparr>currentThread = 0, readyList = [],
     threads = [0 \<mapsto> (Thread_new (\<lambda>_. 0))\<lparr>tstatus := RUNNING, started := True\<rparr>], threadToBeDestroyed = None,
     sems = (\<lambda>_. Semaphore_new 1)\<rparr>"

abbreviation all_outside :: "nat \<Rightarrow> continuation" where
  "all_outside \<equiv> (\<lambda>_. Outside)"

lemma boot_fields: "currentThread boot = 0" "readyList boot = []" "threadToBeDestroyed boot = None"
  "sems boot = (\<lambda>_. Semaphore_new 1)" "level boot = IntOff" "mach boot = None"
  "threads boot = [0 \<mapsto> (Thread_new (\<lambda>_. 0))\<lparr>tstatus := RUNNING, started := True\<rparr>]"
  by (simp_all add: boot_def hw.defs Interrupt_new_def)

lemma boot_ok: "sched_ok (boot, all_outside)" "\<forall>k. sem_queue (sems boot k) = []" "running boot"
  by (auto simp: sched_ok_pair sched_view_def stat_def boot_fields Semaphore_new_def running_def)

lemma boot_take: "\<exists>y. ksteps (boot, all_outside) [Took 0] y"
proof -
  have "\<exists>s'. P_section 0 boot = Some (True, s')" by (simp add: P_section_def boot_fields Semaphore_new_def)
  then obtain s' where "P_section 0 boot = Some (True, s')" ..
  from kstep.take [OF boot_ok(3) _ this, of all_outside] ksteps.step [OF ksteps.refl]
  show ?thesis by fastforce
qed

text \<open>C2. A semaphore counts: in every interleaving its value is the initial value plus the number of completed \<open>V\<close>
  minus the number of completed \<open>P\<close>; and if it starts non-negative, no more \<open>P\<close> have completed than the
  initial value and the \<open>V\<close> allow (mutual exclusion, for a semaphore initialised to 1).\<close>

theorem semaphore_counts:
  assumes "ksteps x es y"
  shows "value_of y k = value_of x k + int (V_count k es) - int (P_count k es)
    \<and> (0 \<le> value_of x k \<longrightarrow> int (P_count k es) \<le> value_of x k + int (V_count k es))"
  using ksteps_value [OF assms, of k] by linarith

theorem semaphore_counts_witness:
  "\<exists>y. ksteps (boot, all_outside) [Took 0] y \<and> value_of y 0 = 0"
proof -
  from boot_take obtain y where y: "ksteps (boot, all_outside) [Took 0] y" ..
  from semaphore_counts [OF y, of 0] have "value_of y 0 = 0"
    by (simp add: value_of_def boot_fields Semaphore_new_def P_count_def V_count_def)
  with y show ?thesis by blast
qed

text \<open>C5. No wakeup is lost: whenever threads wait in the queue of a semaphore whose value is positive, some thread that
  was woken inside \<open>P\<close> on this semaphore is ready or running and will test the value again.\<close>

theorem semaphore_wakes_waiters:
  assumes "ksteps x es y" "sched_ok x" "\<forall>k. sem_queue (sems (fst x) k) = []"
    "sem_queue (sems (fst y) k) \<noteq> []" "0 < value_of y k"
  shows "\<exists>t. t \<in># runnable (fst y) \<and> snd y t = InP k"
proof -
  have "no_lost_wakeup x" using assms(3) by (simp add: no_lost_wakeup_def)
  from ksteps_no_lost [OF assms(1,2) this] assms(4,5) have "0 < retrying y k"
    by (fastforce simp: no_lost_wakeup_def)
  then have "filter_mset (\<lambda>t. snd y t = InP k) (runnable (fst y)) \<noteq> {#}" unfolding retrying_def by (metis nat_less_le size_empty)
  then obtain t where "t \<in># filter_mset (\<lambda>t. snd y t = InP k) (runnable (fst y))" using multiset_nonemptyE by blast
  then show ?thesis by auto
qed

text \<open>Two threads and a semaphore at zero: both go to sleep, then an interrupt signals the semaphore.\<close>

definition busy :: "unit kernel" where
  "busy = boot\<lparr>readyList := [1], threads := (threads boot)(1 \<mapsto> (Thread_new (\<lambda>_. 0))\<lparr>tstatus := READY\<rparr>),
     sems := (\<lambda>_. Semaphore_new 0)\<rparr>"

lemma busy_ok: "sched_ok (busy, all_outside)" "\<forall>k. sem_queue (sems busy k) = []" "running busy"
  by (auto simp: busy_def sched_ok_pair sched_view_def stat_def boot_fields Semaphore_new_def running_def Thread_new_def)

definition busy1 :: "unit kernel" where
  "busy1 = the (map_option snd (P_section 0 busy))"
definition busy2 :: "unit kernel" where
  "busy2 = the (map_option snd (Sleep_round busy1))"
definition busy3 :: "unit kernel" where
  "busy3 = the (map_option snd (P_section 0 busy2))"
definition busy4 :: "unit kernel" where
  "busy4 = the (V_section 0 busy3)"

lemmas busy_eval = P_section_def Sleep_round_def V_section_def Sleep_enter_def FindNextToRun_def Run_def save_current_def
  setThreadStatus_def set_thread_def set_sem_def ReadyToRun_def CheckOverflow_def running_def boot_fields Semaphore_new_def
  Thread_new_def Let_def

lemma busy1_eval: "P_section 0 busy = Some (False, busy1)" "currentThread busy1 = 0" "readyList busy1 = [1]" "\<not> running busy1"
  by (simp_all add: busy1_def busy_def busy_eval)

lemma busy2_eval: "Sleep_round busy1 = Some (True, busy2)" "currentThread busy2 = 1" "running busy2"
  by (simp_all add: busy2_def busy1_def busy_def busy_eval)

lemma busy3_eval: "P_section 0 busy2 = Some (False, busy3)" "\<not> running busy3" "sem_queue (sems busy3 0) = [0, 1]"
  by (simp_all add: busy3_def busy2_def busy1_def busy_def busy_eval)

lemma busy4_eval: "V_section 0 busy3 = Some busy4" "sem_queue (sems busy4 0) = [1]" "sem_value (sems busy4 0) = 1"
  by (simp_all add: busy4_def busy3_def busy2_def busy1_def busy_def busy_eval)

lemma busy_run: "ksteps (busy, all_outside) [Slept 0, Switched 1, Slept 0, Signalled 0 (Some 0)]
    (busy4, all_outside(0 := InP 0, 1 := InP 0))"
proof -
  have c: "currentThread busy = 0" by (simp add: busy_def boot_fields)
  have "kstep (busy, all_outside) (Slept 0) (busy1, all_outside(0 := InP 0))"
    using kstep.sleep [OF busy_ok(3) _ busy1_eval(1), of all_outside] c by simp
  moreover have "kstep (busy1, all_outside(0 := InP 0)) (Switched 1) (busy2, all_outside(0 := InP 0))"
    by (rule kstep.switch [OF busy1_eval(4,3) busy2_eval(1)])
  moreover have "kstep (busy2, all_outside(0 := InP 0)) (Slept 0) (busy3, all_outside(0 := InP 0, 1 := InP 0))"
    using kstep.sleep [OF busy2_eval(3) _ busy3_eval(1), of "all_outside(0 := InP 0)"] busy2_eval(2) by simp
  moreover have "kstep (busy3, all_outside(0 := InP 0, 1 := InP 0)) (Signalled 0 (Some 0)) (busy4, all_outside(0 := InP 0, 1 := InP 0))"
    using kstep.signal [OF _ busy4_eval(1), of "all_outside(0 := InP 0, 1 := InP 0)"] busy3_eval(2,3) by simp
  ultimately show ?thesis
    using ksteps.step [OF ksteps.step [OF ksteps.step [OF ksteps.step [OF ksteps.refl]]]] by fastforce
qed

theorem semaphore_wakes_waiters_witness:
  "sem_queue (sems busy4 0) = [1] \<and> (\<exists>t. t \<in># runnable busy4 \<and> (all_outside(0 := InP 0, 1 := InP 0)) t = InP 0)"
  using semaphore_wakes_waiters [OF busy_run busy_ok(1), of 0] busy_ok(2) busy4_eval(2,3) by (simp add: value_of_def)

text \<open>C3. Thread status and location agree in every reachable state: at most the current thread is running, the ready
  list holds every ready thread once and nothing else, and a blocked thread that is not finished is in the
  queue of exactly the semaphore whose \<open>P\<close> it called.\<close>

theorem thread_status_invariant:
  assumes "ksteps x es y" "sched_ok x"
  shows "distinct (readyList (fst y)) \<and> (\<forall>t. t \<in> set (readyList (fst y)) \<longleftrightarrow> stat (fst y) t = Some READY)
    \<and> (\<forall>t. stat (fst y) t = Some RUNNING \<longrightarrow> t = currentThread (fst y))
    \<and> (\<forall>k t. t \<in> set (sem_queue (sems (fst y) k)) \<longleftrightarrow> stat (fst y) t = Some BLOCKED \<and> snd y t = InP k)"
  using ksteps_sched_ok [OF assms] unfolding sched_ok_def sched_view_def by blast

theorem thread_status_invariant_witness:
  "\<exists>y. ksteps (boot, all_outside) [Took 0] y \<and> distinct (readyList (fst y))"
proof -
  from boot_take obtain y where y: "ksteps (boot, all_outside) [Took 0] y" ..
  from thread_status_invariant [OF y boot_ok(1)] y show ?thesis by blast
qed

text \<open>C4. Scheduling is first-in first-out: over any interleaving, the threads given the processor are exactly those of
  the initial ready list followed by the threads made ready since, in that order, up to those still waiting in the
  ready list; so a thread with \<open>n\<close> threads before it runs after \<open>n\<close> switches, and none is passed over.\<close>

theorem scheduling_is_fifo:
  assumes "ksteps x es y"
  shows "concat (map ran es) @ readyList (fst y) = readyList (fst x) @ concat (map readied es)"
  using assms by (rule ksteps_fifo)

theorem scheduling_is_fifo_witness:
  "\<exists>y. ksteps (boot, all_outside) [Took 0] y \<and> readyList (fst y) = []"
proof -
  from boot_take obtain y where y: "ksteps (boot, all_outside) [Took 0] y" ..
  from scheduling_is_fifo [OF y] have "readyList (fst y) = []" by (simp add: boot_fields)
  with y show ?thesis by blast
qed

text \<open>C7. A context switch is transparent to a user program: when the kernel switches away from a thread with an address
  space and later back to it, all forty user registers and the page table in the machine are what they were.\<close>

theorem context_switch_transparent:
  assumes "Run n s = Some s1" "currentThread s \<noteq> n" "threadToBeDestroyed s \<noteq> Some (currentThread s)"
    "threads s (currentThread s) = Some tcb" "space tcb = Some sp" "started tcb" "mach s = Some m" "pageTable m = Some pt"
    "threads s2 (currentThread s) = map_option (\<lambda>t. t\<lparr>tstatus := READY\<rparr>) (threads s1 (currentThread s))"
    "currentThread s2 \<noteq> currentThread s" "Run (currentThread s) s2 = Some s3"
  shows "\<exists>m'. mach s3 = Some m' \<and> (\<forall>i < NumTotalRegs. registers m' i = registers m i)
    \<and> pageTable m' = pageTable m \<and> pageTableSize m' = numPages sp"
proof -
  let ?t = "(SaveUserState m tcb)\<lparr>space := Some (SaveSpace m sp), tstatus := READY\<rparr>"
  have "threads s2 (currentThread s) = Some ?t"
    using Run_saves [OF assms(1-5,7)] assms(9) by simp
  moreover have "started ?t" "space ?t = Some (SaveSpace m sp)" using assms(6) by (simp_all add: SaveUserState_def)
  ultimately obtain m2 where "mach s3 = Some (RestoreState (SaveSpace m sp) (RestoreUserState ?t m2))"
    using Run_restores [OF assms(11,10)] by blast
  then show ?thesis
    using assms(8) by (simp add: RestoreState_def RestoreUserState_def SaveUserState_def SaveSpace_def)
qed



text \<open>Thread 0, a user program, is switched out for a new thread 1 and later switched in again.\<close>

definition user_kernel :: "unit kernel" where
  "user_kernel = boot\<lparr>mach := Some sample_machine,
     threads := [0 \<mapsto> (Thread_new (\<lambda>_. 7))\<lparr>tstatus := READY, started := True,
                   space := Some \<lparr>space_table = [sample_entry 5, sample_entry 3], numPages = 2\<rparr>\<rparr>,
                 1 \<mapsto> (Thread_new (\<lambda>_. 0))\<lparr>tstatus := READY\<rparr>]\<rparr>"

definition switched_out :: "unit kernel" where
  "switched_out = the (Run 1 user_kernel)"

definition switched_back :: "unit kernel" where
  "switched_back = the (Run 0 (switched_out\<lparr>threads := (threads switched_out)(0 := map_option (\<lambda>t. t\<lparr>tstatus := READY\<rparr>) (threads switched_out 0))\<rparr>))"

lemma sample_table: "pageTable sample_machine = Some [sample_entry 5, sample_entry 3]"
  by (simp add: sample_machine_def)

lemmas run_eval = Run_def save_current_def restore_current_def delete_carcass_def set_thread_def CheckOverflow_def
  boot_fields Thread_new_def SaveUserState_def SaveSpace_def Let_def sample_table

lemma switched_out_eval: "Run 1 user_kernel = Some switched_out"
  by (simp add: switched_out_def user_kernel_def run_eval)

lemma switched_back_eval:
  "Run 0 (switched_out\<lparr>threads := (threads switched_out)(0 := map_option (\<lambda>t. t\<lparr>tstatus := READY\<rparr>) (threads switched_out 0))\<rparr>) =
     Some switched_back"
  by (simp add: switched_back_def switched_out_def user_kernel_def run_eval)

theorem context_switch_transparent_witness:
  "\<exists>m'. mach switched_back = Some m' \<and> (\<forall>i < NumTotalRegs. registers m' i = registers sample_machine i)
     \<and> pageTable m' = pageTable sample_machine"
proof -
  let ?tcb = "(Thread_new (\<lambda>_. 7))\<lparr>tstatus := READY, started := True,
    space := Some \<lparr>space_table = [sample_entry 5, sample_entry 3], numPages = 2\<rparr>\<rparr>"
  let ?s2 = "switched_out\<lparr>threads := (threads switched_out)(0 := map_option (\<lambda>t. t\<lparr>tstatus := READY\<rparr>) (threads switched_out 0))\<rparr>"
  have f: "currentThread user_kernel = 0" "threadToBeDestroyed user_kernel = None" "threads user_kernel 0 = Some ?tcb"
    "mach user_kernel = Some sample_machine" by (simp_all add: user_kernel_def boot_fields)
  have c1: "currentThread switched_out = 1" using Run_Some(2) [OF switched_out_eval] .
  have "currentThread user_kernel \<noteq> 1" "threadToBeDestroyed user_kernel \<noteq> Some (currentThread user_kernel)"
    "threads user_kernel (currentThread user_kernel) = Some ?tcb"
    "space ?tcb = Some \<lparr>space_table = [sample_entry 5, sample_entry 3], numPages = 2\<rparr>" "started ?tcb"
    using f by simp_all
  note h = context_switch_transparent [OF switched_out_eval this f(4) sample_table]
  have "threads ?s2 (currentThread user_kernel) = map_option (\<lambda>t. t\<lparr>tstatus := READY\<rparr>) (threads switched_out (currentThread user_kernel))"
    "currentThread ?s2 \<noteq> currentThread user_kernel" "Run (currentThread user_kernel) ?s2 = Some switched_back"
    using f(1) c1 switched_back_eval by simp_all
  from h [OF this] show ?thesis by blast
qed

end
