(* ===== verification/Devices.thy ===== *)
theory Devices
  imports Threads
begin

text \<open>
  machine/disk.cc, machine/console.cc, filesys/synchdisk.cc (its interrupt handler) and threads/synchcons.cc
  (its interrupt handlers): the simulated devices and their interrupt handlers.

  The state extends the kernel state with the fields of the classes \<^verbatim>\<open>Timer\<close>, \<^verbatim>\<open>Disk\<close> and \<^verbatim>\<open>Console\<close>.
  The UNIX file behind the disk is the function \<open>sectors\<close>, the keyboard is the list of the results of
  the polls to come (\<open>None\<close>: nothing typed), the display is the list of the characters written. The
  argument of a handler (the device object) is not needed, since there is one device of each kind.
  The interpretation of \<open>device_handlers\<close> at the end shows that these handlers keep the laws on which the
  interrupt simulation rests.
\<close>

section \<open>State\<close>

datatype device_handler = TimerHandler | DiskDone | ConsoleReadPoll | ConsoleWriteDone

definition SectorsPerTrack :: int where "SectorsPerTrack = 32"
definition NumTracks :: int where "NumTracks = 32"
definition NumSectors :: int where "NumSectors = SectorsPerTrack * NumTracks"

definition MagicNumber :: word32 where "MagicNumber = 0x456789ab"
definition MagicSize :: nat where "MagicSize = 4"

definition EOF_char :: byte where "EOF_char = - 1"

record devices = "device_handler kernel" +
  randomize :: bool
  random :: "nat list"
  active :: bool
  lastSector :: int
  bufferInit :: int
  sectors :: "int \<Rightarrow> byte list"
  putBusy :: bool
  incoming :: byte
  keyboard :: "byte option list"
  display :: "byte list"

text \<open>The semaphores of the synchronous disk and console.\<close>

definition disk_sem :: nat where "disk_sem = 0"
definition synchReadAvail :: nat where "synchReadAvail = 1"
definition synchWriteAvail :: nat where "synchWriteAvail = 2"
definition RLineBlock :: nat where "RLineBlock = 3"
definition WLineBlock :: nat where "WLineBlock = 4"

section \<open>Disk geometry and timing\<close>

definition TimeToSeek :: "'z devices_scheme \<Rightarrow> int \<Rightarrow> int \<times> int" where
  "TimeToSeek s newSector =
     (let newTrack = newSector sdiv SectorsPerTrack;
          oldTrack = lastSector s sdiv SectorsPerTrack;
          seek = \<bar>newTrack - oldTrack\<bar> * SeekTime;
          over = (now s + seek) smod RotationTime;
          rotation = (if over > 0 then RotationTime - over else 0) in
      (seek, rotation))"

definition ModuloDiff :: "int \<Rightarrow> int \<Rightarrow> int" where
  "ModuloDiff to from =
     (let toOffset = to smod SectorsPerTrack; fromOffset = from smod SectorsPerTrack in
      ((toOffset - fromOffset) + SectorsPerTrack) smod SectorsPerTrack)"

definition ComputeLatency :: "'z devices_scheme \<Rightarrow> int \<Rightarrow> bool \<Rightarrow> int" where
  "ComputeLatency s newSector writing =
     (let (seek, rotation) = TimeToSeek s newSector;
          timeAfter = now s + seek + rotation in
      if \<not> writing \<and> seek = 0
         \<and> (timeAfter - bufferInit s) sdiv RotationTime > ModuloDiff newSector (bufferInit s sdiv RotationTime)
      then RotationTime
      else seek + (rotation + ModuloDiff newSector (timeAfter sdiv RotationTime) * RotationTime) + RotationTime)"

definition UpdateLast :: "int \<Rightarrow> 'z devices_scheme \<Rightarrow> 'z devices_scheme" where
  "UpdateLast newSector s =
     (let (seek, rotate) = TimeToSeek s newSector in
      s\<lparr>bufferInit := (if seek \<noteq> 0 then now s + seek + rotate else bufferInit s), lastSector := newSector\<rparr>)"

section \<open>Constructors\<close>

text \<open>The UNIX file of the disk is \<open>None\<close> if it cannot be opened; then it is created, with zeros up to its end.\<close>

definition Disk_new :: "byte list option \<Rightarrow> 'z devices_scheme \<Rightarrow> 'z devices_scheme option" where
  "Disk_new file s = do {
     let s1 = s\<lparr>lastSector := 0, bufferInit := 0\<rparr>;
     s2 \<leftarrow> (case file of
         Some bytes \<Rightarrow> do {
           ASSERT (word_of_bytes bytes 0 = MagicNumber);
           Some (s1\<lparr>sectors := (\<lambda>n. take SectorSize (drop (SectorSize * nat n + MagicSize) bytes))\<rparr>) }
       | None \<Rightarrow> Some (s1\<lparr>sectors := (\<lambda>n. replicate SectorSize 0)\<rparr>));
     Some (s2\<lparr>active := False\<rparr>) }"

definition SynchDisk_new :: "byte list option \<Rightarrow> 'z devices_scheme \<Rightarrow> 'z devices_scheme option" where
  "SynchDisk_new file s = Disk_new file (set_sem disk_sem (Semaphore_new 0) s)"

definition Console_new :: "'z devices_scheme \<Rightarrow> 'z devices_scheme option" where
  "Console_new s = Schedule ConsoleReadPoll 0 ConsoleTime ConsoleReadInt (s\<lparr>putBusy := False, incoming := EOF_char\<rparr>)"

definition SynchConsole_new :: "'z devices_scheme \<Rightarrow> 'z devices_scheme option" where
  "SynchConsole_new s = do {
     s1 \<leftarrow> Console_new s;
     let s2 = set_sem synchReadAvail (Semaphore_new 0) s1;
     let s3 = set_sem synchWriteAvail (Semaphore_new 0) s2;
     let s4 = set_sem RLineBlock (Semaphore_new 1) s3;
     Some (set_sem WLineBlock (Semaphore_new 1) s4) }"

section \<open>Disk requests\<close>

definition count_read :: "'z devices_scheme \<Rightarrow> 'z devices_scheme" where
  "count_read s = s\<lparr>stats := (stats s)\<lparr>numDiskReads := numDiskReads (stats s) + 1\<rparr>\<rparr>"
definition count_write :: "'z devices_scheme \<Rightarrow> 'z devices_scheme" where
  "count_write s = s\<lparr>stats := (stats s)\<lparr>numDiskWrites := numDiskWrites (stats s) + 1\<rparr>\<rparr>"

definition ReadRequest :: "int \<Rightarrow> 'z devices_scheme \<Rightarrow> (byte list \<times> 'z devices_scheme) option" where
  "ReadRequest sectorNumber s = do {
     let ticks = ComputeLatency s sectorNumber False;
     ASSERT (\<not> active s);
     ASSERT (sectorNumber \<ge> 0 \<and> sectorNumber < NumSectors);
     let s1 = count_read (UpdateLast sectorNumber (s\<lparr>active := True\<rparr>));
     s2 \<leftarrow> Schedule DiskDone 0 ticks DiskInt s1;
     Some (sectors s sectorNumber, s2) }"

definition WriteRequest :: "int \<Rightarrow> byte list \<Rightarrow> 'z devices_scheme \<Rightarrow> 'z devices_scheme option" where
  "WriteRequest sectorNumber data s = do {
     let ticks = ComputeLatency s sectorNumber True;
     ASSERT (\<not> active s);
     ASSERT (sectorNumber \<ge> 0 \<and> sectorNumber < NumSectors);
     let s1 = s\<lparr>sectors := (sectors s)(sectorNumber := take SectorSize data)\<rparr>;
     let s2 = count_write (UpdateLast sectorNumber (s1\<lparr>active := True\<rparr>));
     Schedule DiskDone 0 ticks DiskInt s2 }"

section \<open>Interrupt handlers\<close>

text \<open>
  A handler calls \<open>V\<close> with interrupts disabled, so \<open>V\<close> changes the level from off to off and
  no tick can occur: the tick routines it is given here always abort.
\<close>

definition V_in_handler :: "nat \<Rightarrow> 'z devices_scheme \<Rightarrow> 'z devices_scheme option" where
  "V_in_handler k s = V (\<lambda>h a s. None) (\<lambda>s. None) k s"

definition RequestDone :: "'z devices_scheme \<Rightarrow> 'z devices_scheme option" where
  "RequestDone s = V_in_handler disk_sem s"

definition Disk_HandleInterrupt :: "'z devices_scheme \<Rightarrow> 'z devices_scheme option" where
  "Disk_HandleInterrupt s = RequestDone (s\<lparr>active := False\<rparr>)"

definition SynchReadFunct :: "'z devices_scheme \<Rightarrow> 'z devices_scheme option" where
  "SynchReadFunct s = V_in_handler synchReadAvail s"
definition SynchWriteFunct :: "'z devices_scheme \<Rightarrow> 'z devices_scheme option" where
  "SynchWriteFunct s = V_in_handler synchWriteAvail s"

definition CheckCharAvail :: "'z devices_scheme \<Rightarrow> 'z devices_scheme option" where
  "CheckCharAvail s = do {
     s1 \<leftarrow> Schedule ConsoleReadPoll 0 ConsoleTime ConsoleReadInt s;
     if incoming s1 \<noteq> EOF_char then Some s1
     else (case keyboard s1 of
         [] \<Rightarrow> Some s1
       | None # ps \<Rightarrow> Some (s1\<lparr>keyboard := ps\<rparr>)
       | Some c # ps \<Rightarrow>
           SynchReadFunct (s1\<lparr>keyboard := ps, incoming := c,
             stats := (stats s1)\<lparr>numConsoleCharsRead := numConsoleCharsRead (stats s1) + 1\<rparr>\<rparr>)) }"

definition WriteDone :: "'z devices_scheme \<Rightarrow> 'z devices_scheme option" where
  "WriteDone s = SynchWriteFunct (s\<lparr>putBusy := False,
     stats := (stats s)\<lparr>numConsoleCharsWritten := numConsoleCharsWritten (stats s) + 1\<rparr>\<rparr>)"

text \<open>The value of \<^verbatim>\<open>Random()\<close> is the next number of the list.\<close>

definition timer_interrupt :: "'z devices_scheme \<Rightarrow> 'z devices_scheme option" where
  "timer_interrupt s =
     (case random s of
        [] \<Rightarrow> TimerExpired TimerHandler (randomize s) 0 s
      | r # more_numbers \<Rightarrow>
          TimerExpired TimerHandler (randomize s) r (if randomize s then s\<lparr>random := more_numbers\<rparr> else s))"

definition run_handler :: "device_handler \<Rightarrow> int \<Rightarrow> 'z devices_scheme \<Rightarrow> 'z devices_scheme option" where
  "run_handler h a s =
     (case h of
        TimerHandler \<Rightarrow> timer_interrupt s
      | DiskDone \<Rightarrow> Disk_HandleInterrupt s
      | ConsoleReadPoll \<Rightarrow> CheckCharAvail s
      | ConsoleWriteDone \<Rightarrow> WriteDone s)"

section \<open>Console requests\<close>

definition GetChar :: "'z devices_scheme \<Rightarrow> byte \<times> 'z devices_scheme" where
  "GetChar s = (incoming s, s\<lparr>incoming := EOF_char\<rparr>)"

definition PutChar :: "byte \<Rightarrow> 'z devices_scheme \<Rightarrow> 'z devices_scheme option" where
  "PutChar ch s = do {
     ASSERT (\<not> putBusy s);
     Schedule ConsoleWriteDone 0 ConsoleTime ConsoleWriteInt (s\<lparr>display := display s @ [ch], putBusy := True\<rparr>) }"

section \<open>The handlers keep the laws of the interrupt simulation\<close>

text \<open>Every thread that waits for a semaphore exists.\<close>

definition waiters_exist :: "('h, 'z) kernel_scheme \<Rightarrow> bool" where
  "waiters_exist s \<longleftrightarrow> (\<forall>k. \<forall>t \<in> set (sem_queue (sems s k)). threads s t \<noteq> None)"

lemma V_section_hw:
  assumes "V_section k s = Some s'"
  shows "stats s' = stats s" "level s' = level s" "pending s' = pending s" "mach s' = mach s" "yieldOnReturn s' = yieldOnReturn s"
    "status s' = status s" "inHandler s' = inHandler s"
  using assms by (auto simp: V_section_def Let_def set_sem_def bind_eq_Some_conv ReadyToRun_Some split: list.splits)

lemma V_interrupts_off:
  assumes "level s = IntOff"
  shows "V H Y k s = V_section k s"
proof -
  have same: "r\<lparr>level := IntOff\<rparr> = r" if "level r = IntOff" for r :: "('a, 'b) kernel_scheme" using that by simp
  show ?thesis
    using assms V_section_hw(2) [of k s]
    by (cases "V_section k s") (auto simp: V_def SetLevel_def ChangeLevel_def Let_def same)
qed

lemma V_section_waiters:
  assumes "waiters_exist s"
  shows "\<exists>s'. V_section k s = Some s' \<and> waiters_exist s'"
proof (cases "sem_queue (sems s k)")
  case Nil
  then show ?thesis using assms by (auto simp: V_section_def Let_def set_sem_def waiters_exist_def)
next
  case (Cons t ts)
  with assms have "threads s t \<noteq> None" unfolding waiters_exist_def by (metis list.set_intros(1))
  then obtain tcb where "threads s t = Some tcb" by blast
  moreover have "\<forall>u \<in> set ts. \<exists>x. threads s u = Some x"
    using Cons assms unfolding waiters_exist_def by (metis list.set_intros(2) option.exhaust)
  ultimately show ?thesis
    using Cons assms
    by (auto simp: V_section_def Let_def set_sem_def ReadyToRun_def setThreadStatus_def set_thread_def waiters_exist_def)
qed

lemma handler_effect_refl: "level s = IntOff \<Longrightarrow> mach_ok s \<Longrightarrow> handler_effect s s"
  by (auto simp: handler_effect_def insert_all_def intro!: exI [of _ "[]"])

lemma handler_effect_trans:
  assumes "handler_effect s s1" "handler_effect s1 s2"
  shows "handler_effect s s2"
proof -
  from assms obtain n1 n2 where n: "pending s1 = insert_all n1 (pending s)" "\<forall>q \<in> set n1. now s < fst q"
    "pending s2 = insert_all n2 (pending s1)" "\<forall>q \<in> set n2. now s1 < fst q"
    by (auto simp: handler_effect_def)
  have "now s1 = now s" using assms(1) by (simp add: handler_effect_def clocks_def now_def)
  with n have "pending s2 = insert_all (n1 @ n2) (pending s)" "\<forall>q \<in> set (n1 @ n2). now s < fst q"
    by (auto simp: insert_all_def)
  with assms show ?thesis unfolding handler_effect_def by metis
qed

text \<open>A change that touches neither the clocks nor the pending interrupts, the level and the machine.\<close>

lemma handler_effect_frame:
  "clocks s' = clocks s \<Longrightarrow> level s' = IntOff \<Longrightarrow> mach s' = mach s \<Longrightarrow> mach_ok s \<Longrightarrow> pending s' = pending s \<Longrightarrow> handler_effect s s'"
  by (auto simp: handler_effect_def insert_all_def mach_ok_def intro!: exI [of _ "[]"])

lemma Schedule_effect:
  assumes "0 < d" "level s = IntOff" "mach_ok s"
  shows "\<exists>s'. Schedule h a d ty s = Some s' \<and> handler_effect s s' \<and> hw.more s' = hw.more s
    \<and> inHandler s' = inHandler s \<and> status s' = status s"
proof -
  let ?p = "\<lparr>handler = h, arg = a, int_type = ty\<rparr>"
  have "insert_key (now s + d) ?p (pending s) = insert_all [(now s + d, ?p)] (pending s)" by (simp add: insert_all_def)
  then show ?thesis
    using assms by (auto simp: Schedule_def handler_effect_def clocks_def mach_ok_def intro!: exI [of _ "[(now s + d, ?p)]"])
qed

lemma V_effect:
  assumes "level s = IntOff" "mach_ok s" "waiters_exist s"
  shows "\<exists>s'. V_in_handler k s = Some s' \<and> handler_effect s s' \<and> waiters_exist s'"
proof -
  from V_section_waiters [OF assms(3), of k] obtain s' where s': "V_section k s = Some s'" "waiters_exist s'" by blast
  with assms V_section_hw [OF s'(1)] show ?thesis
    by (auto simp: V_in_handler_def V_interrupts_off clocks_def intro!: handler_effect_frame)
qed


lemma waiters_exist_more: "hw.more s' = hw.more s \<Longrightarrow> waiters_exist s' = waiters_exist s" for s s' :: "('h, 'z) kernel_scheme"
  by (cases s, cases s') (simp add: waiters_exist_def)

lemma timer_effect:
  assumes "level s = IntOff" "mach_ok s" "waiters_exist s" "inHandler s"
  shows "\<exists>s'. timer_interrupt s = Some s' \<and> handler_effect s s' \<and> waiters_exist s'"
proof -
  have *: "\<exists>s'. TimerExpired TimerHandler b r s0 = Some s' \<and> handler_effect s0 s' \<and> waiters_exist s'"
    if "level s0 = IntOff" "mach_ok s0" "waiters_exist s0" "inHandler s0" for b r and s0 :: "'z devices_scheme"
  proof -
    have "0 < TimeOfNextInterrupt b r" by (simp add: TimeOfNextInterrupt_def TimerTicks_def add_pos_nonneg)
    from Schedule_effect [OF this that(1,2)] obtain s1 where s1:
      "Schedule TimerHandler 0 (TimeOfNextInterrupt b r) TimerInt s0 = Some s1" "handler_effect s0 s1"
      "hw.more s1 = hw.more s0" "inHandler s1 = inHandler s0" by blast
    let ?s2 = "if status s1 \<noteq> IdleMode then s1\<lparr>yieldOnReturn := True\<rparr> else s1"
    have "level s1 = IntOff" "mach_ok s1" using s1(2) by (auto simp: handler_effect_def)
    then have "handler_effect s1 ?s2" by (intro handler_effect_frame) (auto simp: clocks_def)
    moreover have "waiters_exist ?s2" using waiters_exist_more [OF s1(3)] that(3) by (simp add: waiters_exist_def)
    moreover have "TimerExpired TimerHandler b r s0 = Some ?s2"
      using s1(1,4) that(4) by (simp add: TimerExpired_def TimerInterruptHandler_def YieldOnReturn_def)
    ultimately show ?thesis using handler_effect_trans [OF s1(2)] by blast
  qed
  have r: "handler_effect s s' = handler_effect (s\<lparr>random := x\<rparr>) s'" for x s'
    by (simp add: handler_effect_def clocks_def now_def mach_ok_def)
  show ?thesis
    using * [OF assms] * [of "s\<lparr>random := tl (random s)\<rparr>"] assms r
    by (cases "random s") (auto simp: timer_interrupt_def mach_ok_def waiters_exist_def)
qed

lemma disk_effect:
  assumes "level s = IntOff" "mach_ok s" "waiters_exist s"
  shows "\<exists>s'. Disk_HandleInterrupt s = Some s' \<and> handler_effect s s' \<and> waiters_exist s'"
proof -
  let ?s = "s\<lparr>active := False\<rparr>"
  have "handler_effect s ?s" using assms by (intro handler_effect_frame) (auto simp: clocks_def)
  moreover have "mach_ok ?s" "waiters_exist ?s" using assms by (simp_all add: mach_ok_def waiters_exist_def)
  ultimately show ?thesis
    using V_effect [of ?s disk_sem] handler_effect_trans assms(1) unfolding Disk_HandleInterrupt_def RequestDone_def by auto
qed

lemma write_effect:
  assumes "level s = IntOff" "mach_ok s" "waiters_exist s"
  shows "\<exists>s'. WriteDone s = Some s' \<and> handler_effect s s' \<and> waiters_exist s'"
proof -
  let ?s = "s\<lparr>putBusy := False, stats := (stats s)\<lparr>numConsoleCharsWritten := numConsoleCharsWritten (stats s) + 1\<rparr>\<rparr>"
  have "handler_effect s ?s" using assms by (intro handler_effect_frame) (auto simp: clocks_def)
  moreover have "mach_ok ?s" "waiters_exist ?s" using assms by (simp_all add: mach_ok_def waiters_exist_def)
  ultimately show ?thesis
    using V_effect [of ?s synchWriteAvail] handler_effect_trans assms(1) unfolding WriteDone_def SynchWriteFunct_def by auto
qed

lemma poll_effect:
  assumes "level s = IntOff" "mach_ok s" "waiters_exist s"
  shows "\<exists>s'. CheckCharAvail s = Some s' \<and> handler_effect s s' \<and> waiters_exist s'"
proof -
  have "0 < ConsoleTime" by (simp add: ConsoleTime_def)
  from Schedule_effect [OF this assms(1,2)] obtain s1 where s1:
    "Schedule ConsoleReadPoll 0 ConsoleTime ConsoleReadInt s = Some s1" "handler_effect s s1" "hw.more s1 = hw.more s" by blast
  have ok: "level s1 = IntOff" "mach_ok s1" "waiters_exist s1"
    using s1(2) waiters_exist_more [OF s1(3)] assms(3) by (auto simp: handler_effect_def)
  have upd: "handler_effect s1 (s1\<lparr>keyboard := ps\<rparr>)" "waiters_exist (s1\<lparr>keyboard := ps\<rparr>)" for ps
    using ok by (auto intro!: handler_effect_frame simp: clocks_def waiters_exist_def)
  have v: "\<exists>s'. SynchReadFunct (s1\<lparr>keyboard := ps, incoming := c,
      stats := (stats s1)\<lparr>numConsoleCharsRead := numConsoleCharsRead (stats s1) + 1\<rparr>\<rparr>) = Some s' \<and> handler_effect s1 s' \<and> waiters_exist s'"
    for ps c
  proof -
    let ?s = "s1\<lparr>keyboard := ps, incoming := c, stats := (stats s1)\<lparr>numConsoleCharsRead := numConsoleCharsRead (stats s1) + 1\<rparr>\<rparr>"
    have "handler_effect s1 ?s" using ok by (intro handler_effect_frame) (auto simp: clocks_def)
    moreover have "level ?s = IntOff" "mach_ok ?s" "waiters_exist ?s" using ok by (simp_all add: mach_ok_def waiters_exist_def)
    ultimately show ?thesis
      using V_effect [of ?s synchReadAvail] handler_effect_trans unfolding SynchReadFunct_def by blast
  qed
  have "\<exists>s'. CheckCharAvail s = Some s' \<and> handler_effect s1 s' \<and> waiters_exist s'"
    using s1(1) ok v upd handler_effect_refl [of s1]
    by (auto simp: CheckCharAvail_def split: list.split option.split)
  then show ?thesis using handler_effect_trans [OF s1(2)] by blast
qed

interpretation dev: device_handlers "run_handler :: device_handler \<Rightarrow> int \<Rightarrow> 'z devices_scheme \<Rightarrow> 'z devices_scheme option" waiters_exist
proof unfold_locales
  show "hw.more s' = hw.more s \<Longrightarrow> waiters_exist s' = waiters_exist s" for s s' :: "'z devices_scheme"
    by (rule waiters_exist_more)
  show "\<exists>s'. run_handler h a s = Some s' \<and> handler_effect s s' \<and> waiters_exist s'"
    if "hw_ok s" "waiters_exist s" "inHandler s" "level s = IntOff" for s h a
    using that timer_effect [of s] disk_effect [of s] poll_effect [of s] write_effect [of s]
    by (cases h) (auto simp: run_handler_def hw_ok_def)
qed


section \<open>Disk timing\<close>

definition disk_head_ok :: "'z devices_scheme \<Rightarrow> bool" where
  "disk_head_ok s \<longleftrightarrow> 0 \<le> now s \<and> 0 \<le> lastSector s \<and> lastSector s < NumSectors \<and> 0 \<le> bufferInit s"

lemmas disk_sizes = SectorsPerTrack_def NumTracks_def NumSectors_def SeekTime_def RotationTime_def

lemma ModuloDiff_bounds: "0 \<le> from \<Longrightarrow> 0 \<le> to \<Longrightarrow> 0 \<le> ModuloDiff to from \<and> ModuloDiff to from < SectorsPerTrack"
proof -
  assume a: "0 \<le> from" "0 \<le> to"
  then have "0 \<le> to mod 32 - from mod 32 + 32" by (smt (verit) pos_mod_bound pos_mod_sign)
  with a show ?thesis by (simp add: ModuloDiff_def Let_def SectorsPerTrack_def)
qed

lemma TimeToSeek_bounds:
  assumes "disk_head_ok s" "0 \<le> n" "n < NumSectors" "TimeToSeek s n = (seek, rot)"
  shows "0 \<le> seek" "seek \<le> (NumTracks - 1) * SeekTime" "0 \<le> rot" "rot < RotationTime"
proof -
  have d: "0 \<le> n div 32" "n div 32 \<le> 31" "0 \<le> lastSector s div 32" "lastSector s div 32 \<le> 31"
    using assms(1-3) by (auto simp: disk_head_ok_def disk_sizes)
  have seek: "seek = \<bar>n div 32 - lastSector s div 32\<bar> * 500"
    using assms by (auto simp: TimeToSeek_def disk_head_ok_def disk_sizes Let_def)
  with d show s: "0 \<le> seek" "seek \<le> (NumTracks - 1) * SeekTime" by (auto simp: disk_sizes abs_le_iff)
  have "rot = (let over = (now s + seek) mod 500 in if over > 0 then 500 - over else 0)"
    using assms s(1) seek by (auto simp: TimeToSeek_def disk_head_ok_def disk_sizes Let_def)
  moreover have "0 \<le> (now s + seek) mod 500" "(now s + seek) mod 500 < 500" by simp_all
  ultimately show "0 \<le> rot" "rot < RotationTime" by (auto simp: Let_def disk_sizes)
qed

lemma ComputeLatency_bounds:
  assumes "disk_head_ok s" "0 \<le> n" "n < NumSectors"
  shows "RotationTime \<le> ComputeLatency s n w"
    "ComputeLatency s n w \<le> (NumTracks - 1) * SeekTime + (RotationTime - 1) + SectorsPerTrack * RotationTime"
proof -
  obtain seek rot where t: "TimeToSeek s n = (seek, rot)" by force
  note b = TimeToSeek_bounds [OF assms t]
  have "0 \<le> now s + seek + rot" using b assms(1) by (simp add: disk_head_ok_def)
  then have "0 \<le> (now s + seek + rot) sdiv RotationTime" by (simp add: disk_sizes pos_imp_zdiv_nonneg_iff)
  from ModuloDiff_bounds [OF this assms(2)]
  have m: "0 \<le> ModuloDiff n ((now s + seek + rot) sdiv RotationTime)"
    "ModuloDiff n ((now s + seek + rot) sdiv RotationTime) \<le> 31" by (auto simp: SectorsPerTrack_def)
  show "RotationTime \<le> ComputeLatency s n w"
    "ComputeLatency s n w \<le> (NumTracks - 1) * SeekTime + (RotationTime - 1) + SectorsPerTrack * RotationTime"
    using b m by (auto simp: ComputeLatency_def t Let_def disk_sizes)
qed

lemma UpdateLast_fields:
  "sectors (UpdateLast n s) = sectors s" "now (UpdateLast n s) = now s" "pending (UpdateLast n s) = pending s"
  "lastSector (UpdateLast n s) = n" "active (UpdateLast n s) = active s" "sems (UpdateLast n s) = sems s"
  by (simp_all add: UpdateLast_def now_def split: prod.split)

lemma disk_head_UpdateLast:
  assumes "disk_head_ok s" "0 \<le> n" "n < NumSectors"
  shows "disk_head_ok (UpdateLast n s)"
proof -
  obtain seek rot where t: "TimeToSeek s n = (seek, rot)" by force
  note b = TimeToSeek_bounds(1,3) [OF assms t]
  have "bufferInit (UpdateLast n s) = (if seek \<noteq> 0 then now s + seek + rot else bufferInit s)"
    by (simp add: UpdateLast_def t)
  with b assms show ?thesis by (simp add: disk_head_ok_def UpdateLast_fields)
qed

lemma WriteRequest_ok:
  assumes "disk_head_ok s" "\<not> active s" "0 \<le> n" "n < NumSectors"
  shows "\<exists>s'. WriteRequest n data s = Some s' \<and> active s' \<and> disk_head_ok s'
    \<and> sectors s' = (sectors s)(n := take SectorSize data) \<and> now s' = now s
    \<and> pending s' = insert_key (now s + ComputeLatency s n True) \<lparr>handler = DiskDone, arg = 0, int_type = DiskInt\<rparr> (pending s)"
proof -
  have "0 < ComputeLatency s n True"
    using ComputeLatency_bounds(1) [OF assms(1,3,4), of True] by (simp add: disk_sizes)
  moreover have "disk_head_ok (UpdateLast n (s\<lparr>sectors := (sectors s)(n := take SectorSize data), active := True\<rparr>))"
    using assms by (intro disk_head_UpdateLast) (auto simp: disk_head_ok_def now_def)
  ultimately show ?thesis
    using assms by (auto simp: WriteRequest_def Schedule_def count_write_def UpdateLast_fields disk_head_ok_def Let_def now_def)
      (simp_all add: UpdateLast_fields [unfolded now_def])
qed

lemma ReadRequest_ok:
  assumes "disk_head_ok s" "\<not> active s" "0 \<le> n" "n < NumSectors"
  shows "\<exists>s'. ReadRequest n s = Some (sectors s n, s') \<and> active s' \<and> sectors s' = sectors s \<and> now s' = now s
    \<and> pending s' = insert_key (now s + ComputeLatency s n False) \<lparr>handler = DiskDone, arg = 0, int_type = DiskInt\<rparr> (pending s)"
proof -
  have "0 < ComputeLatency s n False"
    using ComputeLatency_bounds(1) [OF assms(1,3,4), of False] by (simp add: disk_sizes)
  then show ?thesis
    using assms by (auto simp: ReadRequest_def Schedule_def count_read_def UpdateLast_fields Let_def now_def)
      (simp_all add: UpdateLast_fields [unfolded now_def])
qed


lemma V_section_devices:
  fixes s s' :: "'z devices_scheme"
  assumes "V_section k s = Some s'"
  shows "sectors s' = sectors s" "active s' = active s" "lastSector s' = lastSector s" "bufferInit s' = bufferInit s"
    "sem_value (sems s' k) = sem_value (sems s k) + 1"
  using assms by (auto simp: V_section_def Let_def set_sem_def bind_eq_Some_conv ReadyToRun_Some split: list.splits)

lemma HandleInterrupt_fields:
  assumes "Disk_HandleInterrupt s = Some s'" "level s = IntOff"
  shows "sectors s' = sectors s" "\<not> active s'" "disk_head_ok s' = disk_head_ok s"
    "sem_value (sems s' disk_sem) = sem_value (sems s disk_sem) + 1"
proof -
  have "V_section disk_sem (s\<lparr>active := False\<rparr>) = Some s'"
    using assms by (simp add: Disk_HandleInterrupt_def RequestDone_def V_in_handler_def V_interrupts_off)
  note v = V_section_devices [OF this] V_section_hw(1) [OF this]
  show "sectors s' = sectors s" "\<not> active s'" "disk_head_ok s' = disk_head_ok s"
    "sem_value (sems s' disk_sem) = sem_value (sems s disk_sem) + 1"
    using v by (simp_all add: disk_head_ok_def now_def)
qed

text \<open>Without a working lock around it, a second request before the first has completed fails its assertion.\<close>

lemma request_while_active: "active s \<Longrightarrow> ReadRequest n s = None \<and> WriteRequest n data s = None"
  by (simp add: ReadRequest_def WriteRequest_def Let_def)

section \<open>Properties of the devices\<close>

text \<open>The devices at start-up, with one character typed.\<close>

definition sample_devices :: devices where
  "sample_devices = \<lparr>stats = Statistics_new, level = IntOff,
     pending = [(5, \<lparr>handler = ConsoleReadPoll, arg = 0, int_type = ConsoleReadInt\<rparr>),
       (100, \<lparr>handler = TimerHandler, arg = 0, int_type = TimerInt\<rparr>)],
     inHandler = False, yieldOnReturn = False, status = SystemMode, mach = None, currentThread = 0, readyList = [],
     threads = threads boot, threadToBeDestroyed = None, sems = (\<lambda>_. Semaphore_new 0), randomize = False, random = [],
     active = False, lastSector = 0, bufferInit = 0, sectors = (\<lambda>_. []), putBusy = False, incoming = EOF_char,
     keyboard = [Some 65], display = []\<rparr>"

lemma sample_devices_ok: "hw_ok sample_devices" "waiters_exist sample_devices" "level sample_devices = IntOff"
  "disk_head_ok sample_devices" "\<not> active sample_devices" "status sample_devices \<noteq> IdleMode"
  by (simp_all add: sample_devices_def hw_ok_def ticks_ok_def mach_ok_def waiters_exist_def Semaphore_new_def
    Statistics_new_def disk_head_ok_def now_def disk_sizes)

text \<open>C32. A tick of the clock is: advance the time by the cost of the current mode, switch interrupts off, run the handlers of exactly the
  interrupts that are due by then, each once, in the order of their times and for equal times in the order in which they were scheduled, switch interrupts on
  and yield if a handler asked for it. The loop over the due interrupts ends, the handlers pass their assertions, none that is due is
  left, and the total time is advanced by exactly the tick of the mode and stays the sum of idle, system and user time.\<close>

theorem tick_serves_interrupts:
  assumes "hw_ok s" "waiters_exist s" "status s \<noteq> IdleMode"
  shows "\<exists>s1 s2. serve_interrupts run_handler (due_interrupts (ChangeLevel IntOff (count_tick s))) (ChangeLevel IntOff (count_tick s)) = Some s1
    \<and> s2 = ChangeLevel IntOn (requeue s1)
    \<and> hw_ok s2 \<and> waiters_exist s2 \<and> level s2 = IntOn \<and> status s2 = status s \<and> no_due s2
    \<and> now s2 = now s + (if status s = SystemMode then SystemTick else UserTick)
    \<and> OneTick run_handler Y s = (if yieldOnReturn s2 then
          map_option (\<lambda>s3. s3\<lparr>status := status s\<rparr>) (Y (s2\<lparr>yieldOnReturn := False, status := SystemMode\<rparr>))
        else Some s2)"
proof -
  from dev.OneTick_serves_due [OF assms, of Y] obtain s1 s2 where s2:
    "hw_ok s2" "waiters_exist s2" "level s2 = IntOn" "clocks s2 = clocks (count_tick s)" "status s2 = status s" "no_due s2"
    "serve_interrupts run_handler (due_interrupts (ChangeLevel IntOff (count_tick s))) (ChangeLevel IntOff (count_tick s)) = Some s1"
    "s2 = ChangeLevel IntOn (requeue s1)"
    "OneTick run_handler Y s = (if yieldOnReturn s2 then
          map_option (\<lambda>s3. s3\<lparr>status := status s\<rparr>) (Y (s2\<lparr>yieldOnReturn := False, status := SystemMode\<rparr>))
        else Some s2)" by metis
  have "now s2 = now s + (if status s = SystemMode then SystemTick else UserTick)"
    using s2(4) by (auto simp: clocks_def count_tick_def now_def split: if_splits)
  with s2 show ?thesis by metis
qed

text \<open>At the first tick the poll of the console is due, the timer is not; the poll receives the character that was typed.\<close>

lemma sample_due:
  "due_interrupts (ChangeLevel IntOff (count_tick sample_devices)) = [(5, \<lparr>handler = ConsoleReadPoll, arg = 0, int_type = ConsoleReadInt\<rparr>)]"
  by (simp add: sample_devices_def due_interrupts_def ChangeLevel_def count_tick_def now_def Statistics_new_def SystemTick_def)

lemma sample_poll:
  "serve_interrupts run_handler [(5, \<lparr>handler = ConsoleReadPoll, arg = 0, int_type = ConsoleReadInt\<rparr>)] (ChangeLevel IntOff (count_tick sample_devices)) = Some s1 \<Longrightarrow>
     incoming s1 = 65 \<and> keyboard s1 = [] \<and> sem_value (sems s1 synchReadAvail) = 1 \<and> \<not> yieldOnReturn s1"
  by (auto simp: sample_devices_def ChangeLevel_def count_tick_def now_def Statistics_new_def SystemTick_def serve_interrupt_def machine_delayed_load_def
      run_handler_def CheckCharAvail_def Schedule_def bind_eq_Some_conv SynchReadFunct_def V_in_handler_def V_def SetLevel_def V_section_def Let_def
      set_sem_def Semaphore_new_def ConsoleTime_def split: if_splits)

theorem tick_serves_interrupts_witness:
  "\<exists>s2 :: devices. OneTick run_handler (\<lambda>s. None) sample_devices = Some s2 \<and> hw_ok s2 \<and> no_due s2 \<and> now s2 = 10 \<and> incoming s2 = 65 \<and> keyboard s2 = []"
proof -
  have n: "now sample_devices = 0" "status sample_devices = SystemMode"
    by (simp_all add: sample_devices_def now_def Statistics_new_def)
  from tick_serves_interrupts [OF sample_devices_ok(1,2,6), of "\<lambda>s. None"] obtain s1 s2 :: devices where
    s: "serve_interrupts run_handler (due_interrupts (ChangeLevel IntOff (count_tick sample_devices))) (ChangeLevel IntOff (count_tick sample_devices)) = Some s1"
      "s2 = ChangeLevel IntOn (requeue s1)" "hw_ok s2" "no_due s2"
      "now s2 = now sample_devices + (if status sample_devices = SystemMode then SystemTick else UserTick)"
      "OneTick run_handler (\<lambda>s. None) sample_devices = (if yieldOnReturn s2 then
          map_option (\<lambda>s3. s3\<lparr>status := status sample_devices\<rparr>) ((\<lambda>s. None) (s2\<lparr>yieldOnReturn := False, status := SystemMode\<rparr>)) else Some s2)"
    by blast
  note p = sample_poll [OF s(1) [unfolded sample_due]]
  have "incoming s2 = 65" "keyboard s2 = []" "\<not> yieldOnReturn s2" using p by (simp_all add: s(2) ChangeLevel_def requeue_def)
  then show ?thesis using s(3-6) n by (intro exI [of _ s2]) (simp add: SystemTick_def)
qed

text \<open>Idling skips no interrupt: with an interrupt pending, and not only the timer, \<open>Idle\<close> moves the clock to the earliest one,
  charges the difference to idle time, runs its handler and all others due by then, and returns to the scheduler.\<close>

theorem idle_serves_next:
  assumes "hw_ok s" "waiters_exist s" "level s = IntOff" "pending s = (k, p) # rest" "int_type p \<noteq> TimerInt \<or> rest \<noteq> []"
  shows "\<exists>s'. Idle run_handler s = Some (True, s') \<and> hw_ok s' \<and> waiters_exist s' \<and> now s' = max (now s) k
    \<and> idleTicks (stats s') = idleTicks (stats s) + max 0 (k - now s) \<and> status s' = SystemMode"
  using dev.Idle_serves_next [OF assms] by blast

theorem idle_serves_next_witness:
  "\<exists>s'. Idle run_handler sample_devices = Some (True, s') \<and> now s' = 5 \<and> idleTicks (stats s') = 5"
proof -
  have "pending sample_devices = (5, \<lparr>handler = ConsoleReadPoll, arg = 0, int_type = ConsoleReadInt\<rparr>)
      # [(100, \<lparr>handler = TimerHandler, arg = 0, int_type = TimerInt\<rparr>)]"
    by (simp add: sample_devices_def)
  from idle_serves_next [OF sample_devices_ok(1,2,3) this] show ?thesis
    by (auto simp: sample_devices_def now_def Statistics_new_def)
qed

text \<open>Disk latency is bounded: a request for any sector takes at least one sector rotation and at most a seek over all tracks,
  the rest of a sector and a full rotation; in particular it is positive, as scheduling an interrupt requires.\<close>

theorem disk_latency_bounds:
  assumes "disk_head_ok s" "0 \<le> n" "n < NumSectors"
  shows "RotationTime \<le> ComputeLatency s n w
    \<and> ComputeLatency s n w \<le> (NumTracks - 1) * SeekTime + (RotationTime - 1) + SectorsPerTrack * RotationTime"
  using ComputeLatency_bounds [OF assms] by blast

theorem disk_latency_bounds_witness:
  "disk_head_ok sample_devices \<and> 500 \<le> ComputeLatency sample_devices 1023 True \<and> ComputeLatency sample_devices 1023 True \<le> 31999"
  using disk_latency_bounds [OF sample_devices_ok(4), of 1023 True] sample_devices_ok(4) by (simp add: disk_sizes)

text \<open>The disk stores what is written: a write request succeeds when none is in progress and schedules one completion
  interrupt; once that interrupt has freed the disk, a read of the sector returns the written bytes and a read of any
  other sector what it held before.\<close>

theorem disk_read_after_write:
  assumes "disk_head_ok s" "\<not> active s" "level s = IntOff" "0 \<le> n" "n < NumSectors" "0 \<le> j" "j < NumSectors"
  shows "\<exists>s1. WriteRequest n data s = Some s1
    \<and> pending s1 = insert_key (now s + ComputeLatency s n True) \<lparr>handler = DiskDone, arg = 0, int_type = DiskInt\<rparr> (pending s)
    \<and> (\<forall>s2. Disk_HandleInterrupt s1 = Some s2 \<longrightarrow>
        (\<exists>s3. ReadRequest j s2 = Some (if j = n then take SectorSize data else sectors s j, s3)))"
proof -
  from WriteRequest_ok [OF assms(1,2,4,5), of data] obtain s1 where w: "WriteRequest n data s = Some s1" "disk_head_ok s1"
    "sectors s1 = (sectors s)(n := take SectorSize data)"
    "pending s1 = insert_key (now s + ComputeLatency s n True) \<lparr>handler = DiskDone, arg = 0, int_type = DiskInt\<rparr> (pending s)"
    by blast
  have l: "level s1 = IntOff"
    using w(1) assms(3) by (auto simp: WriteRequest_def Schedule_def count_write_def UpdateLast_def Let_def split: prod.splits)
  have "\<exists>s3. ReadRequest j s2 = Some (if j = n then take SectorSize data else sectors s j, s3)"
    if h: "Disk_HandleInterrupt s1 = Some s2" for s2
    using ReadRequest_ok [of s2 j] HandleInterrupt_fields [OF h l] w(2,3) assms(6,7) by (auto split: if_splits)
  with w show ?thesis by blast
qed

theorem disk_read_after_write_witness:
  "\<exists>s1. WriteRequest 3 [1, 2] sample_devices = Some s1 \<and> (\<forall>s2. Disk_HandleInterrupt s1 = Some s2 \<longrightarrow> (\<exists>s3. ReadRequest 3 s2 = Some ([1, 2], s3)))"
proof -
  have "(0 :: int) \<le> 3" "3 < NumSectors" by (simp_all add: disk_sizes)
  from disk_read_after_write [OF sample_devices_ok(4,5,3) this this, of "[1, 2]"] show ?thesis by (auto simp: machine_sizes)
qed

end
