(* ===== verification/Open_File.thy ===== *)
theory Open_File
  imports Devices
begin

text \<open>
  filesys/filehdr.cc and filesys/openfile.cc: file headers and open files of the Nachos file system.

  The file system sees the disk through \<^verbatim>\<open>synchDisk\<close> (filesys/synchdisk.cc) as an array of sectors:
  \<open>ReadSector\<close> and \<open>WriteSector\<close> are its operations on the contents, with the assertion of the raw
  disk on the sector number. A file header is one sector of 128 integers. An open file is
  shown to be an array of bytes: \<open>ReadAt\<close> returns a slice of it and \<open>WriteAt\<close> replaces a slice, whatever
  the alignment of the request, and both stop at the end of the file.

  Signed overflow of \<^verbatim>\<open>position + numBytes\<close>, an index outside \<^verbatim>\<open>dataSectors\<close> and a copy outside a buffer are
  undefined in C++: the model has no result (\<open>None\<close>) for them.
\<close>

section \<open>Sectors\<close>

type_synonym disk = "int \<Rightarrow> byte list"

definition ReadSector :: "int \<Rightarrow> disk \<Rightarrow> byte list option" where
  "ReadSector sectorNumber d = do {
     ASSERT (sectorNumber \<ge> 0 \<and> sectorNumber < NumSectors);
     Some (d sectorNumber) }"

text \<open>The source copies 512 bytes from the buffer; \<open>data\<close> is that buffer, of at least this length wherever the file system calls it.\<close>

definition WriteSector :: "int \<Rightarrow> byte list \<Rightarrow> disk \<Rightarrow> disk option" where
  "WriteSector sectorNumber data d = do {
     ASSERT (sectorNumber \<ge> 0 \<and> sectorNumber < NumSectors);
     Some (d(sectorNumber := take SectorSize data)) }"

section \<open>Integers in memory\<close>

definition bytes_of_word :: "word32 \<Rightarrow> byte list" where
  "bytes_of_word w = [ucast w, ucast (drop_bit 8 w), ucast (drop_bit 16 w), ucast (drop_bit 24 w)]"

definition int_at :: "byte list \<Rightarrow> nat \<Rightarrow> int" where
  "int_at bs i = sint (word_of_bytes bs i)"

section \<open>File headers\<close>

record FileHeader =
  numBytes :: int
  numSectors :: int
  dataSectors :: "int list"

definition NumDirect :: nat where
  "NumDirect = (SectorSize - 2 * 4) div 4"

definition MaxFileSize :: nat where
  "MaxFileSize = NumDirect * SectorSize"

definition header_bytes :: "FileHeader \<Rightarrow> byte list" where
  "header_bytes h = concat (map (\<lambda>n. bytes_of_word (word_of_int n)) (numBytes h # numSectors h # dataSectors h))"

definition header_of_sector :: "byte list \<Rightarrow> FileHeader" where
  "header_of_sector bs = \<lparr>numBytes = int_at bs 0, numSectors = int_at bs 4,
     dataSectors = map (\<lambda>i. int_at bs (8 + 4 * i)) [0..<NumDirect]\<rparr>"

definition Allocate :: "FileHeader \<Rightarrow> bitmap \<Rightarrow> int \<Rightarrow> (bool \<times> FileHeader \<times> bitmap) option" where
  "Allocate h freeMap fileSize = do {
     let n = divRoundUp fileSize (int SectorSize);
     let h1 = h\<lparr>numBytes := fileSize, numSectors := n\<rparr>;
     clear \<leftarrow> NumClear freeMap;
     if clear < n then Some (False, h1, freeMap)
     else do {
       (found, freeMap') \<leftarrow> collect_n Find (nat n) freeMap;
       ASSERT (nat n \<le> length (dataSectors h));
       Some (True, h1\<lparr>dataSectors := found @ drop (nat n) (dataSectors h)\<rparr>, freeMap') } }"

definition Deallocate :: "FileHeader \<Rightarrow> bitmap \<Rightarrow> bitmap option" where
  "Deallocate h freeMap =
     each (\<lambda>i b. do {
         sector \<leftarrow> array_get (dataSectors h) i;
         t \<leftarrow> Test b sector;
         ASSERT t;
         Clear b sector })
       [0..<nat (numSectors h)] freeMap"

definition Header_FetchFrom :: "int \<Rightarrow> disk \<Rightarrow> FileHeader option" where
  "Header_FetchFrom sector d = do { bs \<leftarrow> ReadSector sector d; Some (header_of_sector bs) }"

definition Header_WriteBack :: "FileHeader \<Rightarrow> int \<Rightarrow> disk \<Rightarrow> disk option" where
  "Header_WriteBack h sector d = WriteSector sector (header_bytes h) d"

definition ByteToSector :: "FileHeader \<Rightarrow> int \<Rightarrow> int option" where
  "ByteToSector h offset = do {
     ASSERT (0 \<le> offset sdiv int SectorSize);
     array_get (dataSectors h) (nat (offset sdiv int SectorSize)) }"

definition FileLength :: "FileHeader \<Rightarrow> int" where
  "FileLength h = numBytes h"

section \<open>Open files\<close>

record OpenFile =
  hdr :: FileHeader
  seekPosition :: int
  file_type :: int

text \<open>The constructor without a type leaves the field uninitialised: its value is an argument here.\<close>

definition OpenFile_new :: "int \<Rightarrow> int \<Rightarrow> disk \<Rightarrow> OpenFile option" where
  "OpenFile_new sector type d = do {
     h \<leftarrow> Header_FetchFrom sector d;
     Some \<lparr>hdr = h, seekPosition = 0, file_type = type\<rparr> }"

definition Seek :: "int \<Rightarrow> OpenFile \<Rightarrow> OpenFile" where
  "Seek position f = f\<lparr>seekPosition := position\<rparr>"

definition int_sum :: "int \<Rightarrow> int \<Rightarrow> int option" where
  "int_sum a b = do { ASSERT (fits (a + b)); Some (a + b) }"

definition read_sector_at :: "FileHeader \<Rightarrow> disk \<Rightarrow> int \<Rightarrow> byte list option" where
  "read_sector_at h d i = do { s \<leftarrow> ByteToSector h (i * int SectorSize); ReadSector s d }"

definition write_sector_at :: "FileHeader \<Rightarrow> byte list \<Rightarrow> int \<Rightarrow> int \<Rightarrow> disk \<Rightarrow> disk option" where
  "write_sector_at h buf firstSector i d = do {
     s \<leftarrow> ByteToSector h (i * int SectorSize);
     WriteSector s (drop (nat ((i - firstSector) * int SectorSize)) buf) d }"

text \<open>\<^verbatim>\<open>bcopy(bs, &buf[off], n)\<close>\<close>

definition blit :: "byte list \<Rightarrow> int \<Rightarrow> byte list \<Rightarrow> byte list option" where
  "blit buf off bs = do {
     ASSERT (0 \<le> off \<and> off + int (length bs) \<le> int (length buf));
     Some (take (nat off) buf @ bs @ drop (nat off + length bs) buf) }"

definition ReadAt :: "OpenFile \<Rightarrow> int \<Rightarrow> int \<Rightarrow> disk \<Rightarrow> byte list option" where
  "ReadAt f n position d =
     (let fileLength = FileLength (hdr f) in
      if n \<le> 0 \<or> position \<ge> fileLength then Some []
      else do {
        end \<leftarrow> int_sum position n;
        let n = (if end > fileLength then fileLength - position else n);
        let firstSector = divRoundDown position (int SectorSize);
        let lastSector = divRoundDown (position + n - 1) (int SectorSize);
        bufs \<leftarrow> those (map (read_sector_at (hdr f) d) [firstSector..lastSector]);
        ASSERT (0 \<le> position - firstSector * int SectorSize);
        Some (take (nat n) (drop (nat (position - firstSector * int SectorSize)) (concat bufs))) })"

text \<open>The buffer comes from \<^verbatim>\<open>new char[]\<close>: its initial contents are the argument \<open>junk\<close>.\<close>

definition WriteAt :: "(nat \<Rightarrow> byte) \<Rightarrow> OpenFile \<Rightarrow> byte list \<Rightarrow> int \<Rightarrow> int \<Rightarrow> disk \<Rightarrow> (int \<times> disk) option" where
  "WriteAt junk f from n position d =
     (let fileLength = FileLength (hdr f) in
      if n \<le> 0 \<or> position \<ge> fileLength then Some (0, d)
      else do {
        end \<leftarrow> int_sum position n;
        let n = (if end > fileLength then fileLength - position else n);
        let firstSector = divRoundDown position (int SectorSize);
        let lastSector = divRoundDown (position + n - 1) (int SectorSize);
        let buf = map junk [0..<nat (1 + lastSector - firstSector) * SectorSize];
        let firstAligned = (position = firstSector * int SectorSize);
        let lastAligned = (position + n = (lastSector + 1) * int SectorSize);
        buf \<leftarrow> (if \<not> firstAligned then do {
                   bs \<leftarrow> ReadAt f (int SectorSize) (firstSector * int SectorSize) d;
                   blit buf 0 bs }
               else Some buf);
        buf \<leftarrow> (if \<not> lastAligned \<and> (firstSector \<noteq> lastSector \<or> firstAligned) then do {
                   bs \<leftarrow> ReadAt f (int SectorSize) (lastSector * int SectorSize) d;
                   blit buf ((lastSector - firstSector) * int SectorSize) bs }
               else Some buf);
        ASSERT (nat n \<le> length from);
        buf \<leftarrow> blit buf (position - firstSector * int SectorSize) (take (nat n) from);
        d' \<leftarrow> each (write_sector_at (hdr f) buf firstSector) [firstSector..lastSector] d;
        Some (n, d') })"

definition Read :: "OpenFile \<Rightarrow> int \<Rightarrow> disk \<Rightarrow> (byte list \<times> OpenFile) option" where
  "Read f n d = do {
     bs \<leftarrow> ReadAt f n (seekPosition f) d;
     Some (bs, f\<lparr>seekPosition := seekPosition f + int (length bs)\<rparr>) }"

definition Write :: "(nat \<Rightarrow> byte) \<Rightarrow> OpenFile \<Rightarrow> byte list \<Rightarrow> int \<Rightarrow> disk \<Rightarrow> (int \<times> OpenFile \<times> disk) option" where
  "Write junk f from n d = do {
     (result, d') \<leftarrow> WriteAt junk f from n (seekPosition f) d;
     Some (result, f\<lparr>seekPosition := seekPosition f + result\<rparr>, d') }"

definition Length :: "OpenFile \<Rightarrow> int" where
  "Length f = FileLength (hdr f)"

definition GetCurrentPos :: "OpenFile \<Rightarrow> int" where
  "GetCurrentPos f = seekPosition f"


section \<open>Concatenation of blocks of equal size\<close>

lemma drop_blocks: "\<forall>b \<in> set bs. length b = k \<Longrightarrow> drop (a * k) (concat bs) = concat (drop a bs)"
proof (induction bs arbitrary: a)
  case (Cons b bs)
  then show ?case by (cases a) auto
qed simp

lemma take_blocks: "\<forall>b \<in> set bs. length b = k \<Longrightarrow> take (a * k) (concat bs) = concat (take a bs)"
proof (induction bs arbitrary: a)
  case (Cons b bs)
  then show ?case by (cases a) auto
qed simp

lemma length_blocks: "\<forall>b \<in> set bs. length b = k \<Longrightarrow> length (concat bs) = length bs * k"
  by (induction bs) auto

lemma nth_blocks:
  assumes "\<forall>b \<in> set bs. length b = k" "j < length bs * k"
  shows "concat bs ! j = bs ! (j div k) ! (j mod k)"
proof -
  have k: "0 < k" using assms(2) by (cases k) auto
  have i: "j div k < length bs" using assms(2) by (simp add: less_mult_imp_div_less)
  have "concat bs ! j = drop (j div k * k) (concat bs) ! (j mod k)"
    using i length_blocks [OF assms(1)] by (subst nth_drop) auto
  also have "\<dots> = concat (bs ! (j div k) # drop (Suc (j div k)) bs) ! (j mod k)"
    using drop_blocks [OF assms(1)] i by (simp add: Cons_nth_drop_Suc)
  also have "\<dots> = bs ! (j div k) ! (j mod k)"
    using assms(1) i k by (simp add: nth_append)
  finally show ?thesis .
qed

section \<open>Headers on disk\<close>

lemma length_bytes_of_word [simp]: "length (bytes_of_word w) = 4"
  by (simp add: bytes_of_word_def)

lemma word_of_bytes_of_word:
  assumes "drop i bs = bytes_of_word w @ rest"
  shows "word_of_bytes bs i = w"
proof -
  have l: "i + 4 \<le> length bs" using arg_cong [OF assms, of length] by simp
  have n: "bs ! (i + j) = bytes_of_word w ! j" if "j < 4" for j
    using assms l that by (metis le_add1 le_trans length_bytes_of_word nth_append nth_drop)
  have "load32 (\<lambda>k. if k < length bs then bs ! k else 0) i = load32 (store32 i w (\<lambda>_. 0)) i"
    using l n [of 0] n [of 1] n [of 2] n [of 3]
    by (simp add: load32_def store32_def bytes_of_word_def)
  then show ?thesis by (simp add: word_of_bytes_def load32_store32)
qed

lemma int_at_bytes:
  assumes "i < length ns" "\<forall>n \<in> set ns. fits n"
  shows "int_at (concat (map (\<lambda>n. bytes_of_word (word_of_int n)) ns)) (4 * i) = ns ! i"
proof -
  let ?bs = "map (\<lambda>n. bytes_of_word (word_of_int n)) ns"
  have "drop (i * 4) (concat ?bs) = concat (drop i ?bs)" by (rule drop_blocks) auto
  also have "drop i ?bs = bytes_of_word (word_of_int (ns ! i)) # drop (Suc i) ?bs"
    using assms(1) by (simp add: Cons_nth_drop_Suc [symmetric] drop_map)
  finally have "word_of_bytes (concat ?bs) (4 * i) = word_of_int (ns ! i)"
    by (intro word_of_bytes_of_word) (simp add: mult.commute)
  moreover have "fits (ns ! i)" using assms by auto
  ultimately show ?thesis
    by (simp add: int_at_def fits_def signed_of_int signed_take_bit_int_eq_self)
qed

text \<open>What is written to a sector comes back: the header fills exactly one sector.\<close>

definition header_wf :: "FileHeader \<Rightarrow> bool" where
  "header_wf h \<longleftrightarrow> length (dataSectors h) = NumDirect \<and> fits (numBytes h) \<and> fits (numSectors h)
     \<and> (\<forall>n \<in> set (dataSectors h). fits n)"

lemma header_bytes_length: "header_wf h \<Longrightarrow> length (header_bytes h) = SectorSize"
  by (simp add: header_bytes_def header_wf_def NumDirect_def machine_sizes length_concat comp_def sum_list_triv)

lemma header_round_trip:
  assumes "header_wf h"
  shows "header_of_sector (header_bytes h) = h"
proof -
  let ?ns = "numBytes h # numSectors h # dataSectors h"
  have f: "\<forall>n \<in> set ?ns. fits n" using assms by (auto simp: header_wf_def)
  have at: "int_at (header_bytes h) (4 * i) = ?ns ! i" if "i < length ?ns" for i
    unfolding header_bytes_def using int_at_bytes [OF that f] .
  have "int_at (header_bytes h) (8 + 4 * i) = dataSectors h ! i" if "i < NumDirect" for i
    using at [of "Suc (Suc i)"] that assms by (simp add: header_wf_def)
  then have "map (\<lambda>i. int_at (header_bytes h) (8 + 4 * i)) [0..<NumDirect] = dataSectors h"
    using assms by (auto simp: header_wf_def list_eq_iff_nth_eq)
  then show ?thesis
    using at [of 0] at [of 1] by (simp add: header_of_sector_def)
qed

section \<open>A file is an array of bytes\<close>

definition disk_ok :: "disk \<Rightarrow> bool" where
  "disk_ok d \<longleftrightarrow> (\<forall>n. 0 \<le> n \<and> n < NumSectors \<longrightarrow> length (d n) = SectorSize)"

definition file_sectors :: "FileHeader \<Rightarrow> int list" where
  "file_sectors h = take (nat (numSectors h)) (dataSectors h)"

definition header_ok :: "FileHeader \<Rightarrow> bool" where
  "header_ok h \<longleftrightarrow> 0 \<le> numBytes h \<and> numSectors h = divRoundUp (numBytes h) (int SectorSize)
     \<and> nat (numSectors h) \<le> length (dataSectors h) \<and> distinct (file_sectors h) \<and> set (file_sectors h) \<subseteq> {0..<NumSectors}"

definition raw_data :: "FileHeader \<Rightarrow> disk \<Rightarrow> byte list" where
  "raw_data h d = concat (map d (file_sectors h))"

definition file_data :: "FileHeader \<Rightarrow> disk \<Rightarrow> byte list" where
  "file_data h d = take (nat (numBytes h)) (raw_data h d)"

lemma file_sectors_length: "header_ok h \<Longrightarrow> length (file_sectors h) = nat (numSectors h)"
  by (auto simp: header_ok_def file_sectors_def)

lemma header_sizes:
  assumes "header_ok h"
  shows "nat (numBytes h) \<le> length (file_sectors h) * 512" "length (file_sectors h) * 512 < nat (numBytes h) + 512"
proof -
  have 0: "0 \<le> numBytes h" and n: "numSectors h = divRoundUp (numBytes h) 512"
    using assms by (auto simp: header_ok_def machine_sizes)
  have "int (length (file_sectors h)) = divRoundUp (numBytes h) 512"
    using file_sectors_length [OF assms] n 0 by (simp add: divRoundUp_ge_0)
  with divRoundUp_bounds [OF 0, of 512]
  show "nat (numBytes h) \<le> length (file_sectors h) * 512" "length (file_sectors h) * 512 < nat (numBytes h) + 512"
    by linarith+
qed

lemma blocks_ok:
  assumes "disk_ok d" "header_ok h"
  shows "\<forall>b \<in> set (map d (file_sectors h)). length b = 512"
  using assms by (auto simp: disk_ok_def header_ok_def machine_sizes)

lemma raw_data_length: "disk_ok d \<Longrightarrow> header_ok h \<Longrightarrow> length (raw_data h d) = length (file_sectors h) * 512"
  using length_blocks [OF blocks_ok] by (simp add: raw_data_def)

lemma file_data_length [simp]: "disk_ok d \<Longrightarrow> header_ok h \<Longrightarrow> length (file_data h d) = nat (numBytes h)"
  using header_sizes(1) by (simp add: file_data_def raw_data_length)

lemma raw_data_nth:
  assumes "disk_ok d" "header_ok h" "j < length (file_sectors h) * 512"
  shows "raw_data h d ! j = d (file_sectors h ! (j div 512)) ! (j mod 512)"
  using nth_blocks [OF blocks_ok [OF assms(1,2)], of j] assms(3)
  by (simp add: raw_data_def less_mult_imp_div_less)

lemma file_sector_range:
  assumes "header_ok h" "i < length (file_sectors h)"
  shows "0 \<le> file_sectors h ! i" "file_sectors h ! i < NumSectors"
proof -
  have "file_sectors h ! i \<in> {0..<NumSectors}" using assms nth_mem unfolding header_ok_def by blast
  then show "0 \<le> file_sectors h ! i" "file_sectors h ! i < NumSectors" by simp_all
qed

lemma ByteToSector_eq:
  assumes "header_ok h" "i < length (file_sectors h)"
  shows "ByteToSector h (int i * int SectorSize) = Some (file_sectors h ! i)"
  using assms by (simp add: ByteToSector_def machine_sizes file_sectors_def)

lemma read_sector_eq:
  assumes "header_ok h" "i < length (file_sectors h)"
  shows "read_sector_at h d (int i) = Some (d (file_sectors h ! i))"
  using file_sector_range [OF assms]
  by (simp add: read_sector_at_def ByteToSector_eq [OF assms] ReadSector_def)

lemma upto_nat: "[int a..int b] = map int [a..<Suc b]"
  by (rule nth_equalityI) (auto simp: nth_append)

lemma those_map_Some: "(\<And>x. x \<in> set xs \<Longrightarrow> f x = Some (g x)) \<Longrightarrow> those (map f xs) = Some (map g xs)"
  by (induction xs) auto

lemma read_sectors_eq:
  assumes "header_ok h" "disk_ok d" "b < length (file_sectors h)" "a \<le> b"
  shows "\<exists>bufs. those (map (read_sector_at h d) [int a..int b]) = Some bufs
    \<and> concat bufs = take ((Suc b - a) * 512) (drop (a * 512) (raw_data h d))"
proof -
  have "those (map (read_sector_at h d) [int a..int b]) = Some (map (\<lambda>i. d (file_sectors h ! nat i)) [int a..int b])"
    using assms by (intro those_map_Some) (auto simp: upto_nat read_sector_eq)
  moreover have "map (\<lambda>i. d (file_sectors h ! nat i)) [int a..int b] = take (Suc b - a) (drop a (map d (file_sectors h)))"
    unfolding upto_nat map_map comp_def nat_int using assms
    by (subst list_eq_iff_nth_eq) (auto simp del: upt_Suc)
  moreover have "concat (take (Suc b - a) (drop a (map d (file_sectors h)))) = take ((Suc b - a) * 512) (drop (a * 512) (raw_data h d))"
    unfolding raw_data_def drop_blocks [OF blocks_ok [OF assms(2,1)]]
    using blocks_ok [OF assms(2,1)] by (intro take_blocks [symmetric]) (meson in_set_dropD)
  ultimately show ?thesis by simp
qed

text \<open>The sectors \<open>a\<close> to \<open>b\<close> of a request for \<open>m\<close> bytes inside the file.\<close>

lemma request_sectors:
  assumes "header_ok h" "0 \<le> position" "0 < m" "position + m \<le> numBytes h"
  defines "a \<equiv> nat position div 512" and "b \<equiv> nat (position + m - 1) div 512"
  shows "a \<le> b" "b < length (file_sectors h)" "position div 512 = int a" "(position + m - 1) div 512 = int b"
    "a * 512 \<le> nat position" "nat position < Suc a * 512" "nat position + nat m \<le> Suc b * 512" "b * 512 < nat position + nat m"
proof -
  show "a \<le> b" unfolding a_def b_def using assms(3) by (intro div_le_mono) linarith
  have "nat (position + m - 1) < nat (numBytes h)" using assms(2-4) by linarith
  then show "b < length (file_sectors h)"
    using header_sizes(1) [OF assms(1)] unfolding b_def by (intro less_mult_imp_div_less) linarith
  show "position div 512 = int a" "(position + m - 1) div 512 = int b"
    using assms(2,3) unfolding a_def b_def by (simp_all add: zdiv_int)
  show "a * 512 \<le> nat position" "nat position < Suc a * 512" unfolding a_def by simp_all
  have "nat position + nat m = Suc (nat (position + m - 1))" using assms(2,3) by linarith
  then show "nat position + nat m \<le> Suc b * 512" "b * 512 < nat position + nat m" unfolding b_def by simp_all
qed

text \<open>\<open>ReadAt\<close> returns the requested slice of the file.\<close>

lemma ReadAt_correct:
  assumes "header_ok (hdr f)" "disk_ok d" "0 \<le> position" "fits (position + n)"
  shows "ReadAt f n position d = Some (take (nat n) (drop (nat position) (file_data (hdr f) d)))"
proof (cases "n \<le> 0 \<or> position \<ge> numBytes (hdr f)")
  case True
  with assms show ?thesis by (auto simp: ReadAt_def FileLength_def Let_def)
next
  case False
  define m where "m = (if position + n > numBytes (hdr f) then numBytes (hdr f) - position else n)"
  have m: "0 < m" "position + m \<le> numBytes (hdr f)" "nat m = min (nat n) (nat (numBytes (hdr f)) - nat position)"
    using False assms(3) by (auto simp: m_def min_def)
  define a where "a = nat position div 512"
  define b where "b = nat (position + m - 1) div 512"
  note ab = request_sectors [OF assms(1,3) m(1,2), folded a_def b_def]
  obtain bufs where bufs: "those (map (read_sector_at (hdr f) d) [int a..int b]) = Some bufs"
    "concat bufs = take ((Suc b - a) * 512) (drop (a * 512) (raw_data (hdr f) d))"
    using read_sectors_eq [OF assms(1,2) ab(2,1)] by blast
  have off: "nat (position - int a * 512) = nat position - a * 512" "int a * 512 \<le> position"
    using assms(3) ab(5) by linarith+
  have "take (nat m) (drop (nat position - a * 512) (concat bufs)) = take (nat m) (drop (nat position) (raw_data (hdr f) d))"
    using ab(1,5,7) unfolding bufs(2) by (auto simp: drop_take algebra_simps min_def)
  also have "\<dots> = take (nat n) (drop (nat position) (file_data (hdr f) d))"
    using m(3) by (simp add: file_data_def drop_take min.commute)
  finally show ?thesis
    using False assms(3,4) bufs(1) off m(1)
    unfolding ReadAt_def FileLength_def int_sum_def Let_def
    by (simp add: m_def [symmetric] ab(3,4) SectorSize_def)
qed

section \<open>Writing to a file\<close>

lemma write_sector_eq:
  assumes "header_ok h" "i < length (file_sectors h)" "a \<le> i"
  shows "write_sector_at h buf (int a) (int i) d = Some (d(file_sectors h ! i := take 512 (drop ((i - a) * 512) buf)))"
proof -
  have "nat ((int i - int a) * int SectorSize) = (i - a) * 512"
    using assms(3) by (simp add: SectorSize_def nat_mult_distrib nat_diff_distrib)
  then show ?thesis
    using file_sector_range [OF assms(1,2)]
    by (simp only: write_sector_at_def ByteToSector_eq [OF assms(1,2)] WriteSector_def) (simp add: SectorSize_def)
qed

lemma write_sectors:
  assumes "header_ok h" "b < length (file_sectors h)" "a \<le> b"
  shows "\<exists>d'. each (write_sector_at h buf (int a)) [int a..int b] d = Some d'
    \<and> (\<forall>i < length (file_sectors h). d' (file_sectors h ! i) =
        (if a \<le> i \<and> i \<le> b then take 512 (drop ((i - a) * 512) buf) else d (file_sectors h ! i)))
    \<and> (\<forall>n. n \<notin> set (file_sectors h) \<longrightarrow> d' n = d n)"
  using assms(3,2)
proof (induction b rule: dec_induct)
  case base
  then show ?case
    using assms(1) write_sector_eq [OF assms(1), of a a]
    by (auto simp: header_ok_def nth_eq_iff_index_eq)
next
  case (step b)
  then obtain d1 where d1: "each (write_sector_at h buf (int a)) [int a..int b] d = Some d1"
    "\<forall>i < length (file_sectors h). d1 (file_sectors h ! i) =
        (if a \<le> i \<and> i \<le> b then take 512 (drop ((i - a) * 512) buf) else d (file_sectors h ! i))"
    "\<forall>n. n \<notin> set (file_sectors h) \<longrightarrow> d1 n = d n" by auto
  have "[int a..int (Suc b)] = [int a..int b] @ [int (Suc b)]"
    unfolding upto_nat using step.hyps by simp
  moreover have "write_sector_at h buf (int a) (int (Suc b)) d1 =
      Some (d1(file_sectors h ! Suc b := take 512 (drop ((Suc b - a) * 512) buf)))"
    using step by (intro write_sector_eq [OF assms(1)]) simp_all
  moreover have "distinct (file_sectors h)" using assms(1) by (simp add: header_ok_def)
  ultimately show ?case
    using d1 step.prems step.hyps
    by (auto simp: each_append nth_eq_iff_index_eq le_Suc_eq)
qed

text \<open>The bytes of a file after the sectors \<open>a\<close> to \<open>b\<close> have been replaced by the buffer.\<close>

lemma raw_data_after_write:
  assumes "header_ok h" "disk_ok d" "disk_ok d'" "length buf = (Suc b - a) * 512"
    "\<forall>i < length (file_sectors h). d' (file_sectors h ! i) =
        (if a \<le> i \<and> i \<le> b then take 512 (drop ((i - a) * 512) buf) else d (file_sectors h ! i))"
    "j < length (file_sectors h) * 512"
  shows "raw_data h d' ! j = (if a * 512 \<le> j \<and> j < Suc b * 512 then buf ! (j - a * 512) else raw_data h d ! j)"
proof -
  have i: "j div 512 < length (file_sectors h)" using assms(6) by (simp add: less_mult_imp_div_less)
  have r: "a \<le> j div 512 \<and> j div 512 \<le> b \<longleftrightarrow> a * 512 \<le> j \<and> j < Suc b * 512" by auto
  show ?thesis
  proof (cases "a \<le> j div 512 \<and> j div 512 \<le> b")
    case True
    have "(j div 512 - a) * 512 + j mod 512 = j - a * 512"
      using True by (simp add: diff_mult_distrib)
    moreover have "(j div 512 - a) * 512 \<le> length buf"
      using True assms(4) by (simp add: diff_le_mono le_SucI)
    moreover have "j - a * 512 < length buf" using r True assms(4) by (simp add: diff_mult_distrib) linarith
    ultimately show ?thesis
      using True assms(5) i raw_data_nth [OF assms(3,1,6)] r by simp
  next
    case False
    with r show ?thesis
      using raw_data_nth [OF assms(3,1,6)] raw_data_nth [OF assms(2,1,6)] assms(5) i by auto
  qed
qed

lemma blit_Some:
  assumes "off + length bs \<le> length buf"
  shows "\<exists>buf'. blit buf (int off) bs = Some buf' \<and> length buf' = length buf
    \<and> (\<forall>j < length buf. buf' ! j = (if off \<le> j \<and> j < off + length bs then bs ! (j - off) else buf ! j))"
  using assms by (auto simp: blit_def nth_append min_def)

text \<open>The two partial sectors of a request for the bytes \<open>p\<close> to \<open>p + m - 1\<close> of a file with contents \<open>xs\<close>.\<close>

lemma fill_first:
  assumes "p + m \<le> length xs" "a * 512 \<le> p" "length buf = (Suc b - a) * 512" "a \<le> b"
  shows "\<exists>buf1. (if p \<noteq> a * 512 then blit buf 0 (take 512 (drop (a * 512) xs)) else Some buf) = Some buf1
    \<and> length buf1 = length buf
    \<and> (\<forall>j. p \<noteq> a * 512 \<and> a * 512 \<le> j \<and> j < Suc a * 512 \<and> j < length xs \<longrightarrow> buf1 ! (j - a * 512) = xs ! j)"
proof (cases "p = a * 512")
  case False
  have "512 \<le> length buf" using assms(3,4) by (simp add: Suc_diff_le)
  with blit_Some [of 0 "take 512 (drop (a * 512) xs)" buf] False show ?thesis
    by fastforce
qed simp

lemma fill_last:
  assumes "p + m \<le> length xs" "a * 512 \<le> p" "p < Suc a * 512" "p + m \<le> Suc b * 512" "b * 512 < p + m"
    "length buf = (Suc b - a) * 512" "a \<le> b"
    "\<forall>j. p \<noteq> a * 512 \<and> a * 512 \<le> j \<and> j < Suc a * 512 \<and> j < length xs \<longrightarrow> buf ! (j - a * 512) = xs ! j"
  shows "\<exists>buf2. (if p + m \<noteq> Suc b * 512 \<and> (a \<noteq> b \<or> p = a * 512)
      then blit buf (int ((b - a) * 512)) (take 512 (drop (b * 512) xs)) else Some buf) = Some buf2
    \<and> length buf2 = length buf
    \<and> (\<forall>j. a * 512 \<le> j \<and> j < Suc b * 512 \<and> j < length xs \<and> \<not> (p \<le> j \<and> j < p + m) \<longrightarrow> buf2 ! (j - a * 512) = xs ! j)"
proof (cases "p + m \<noteq> Suc b * 512 \<and> (a \<noteq> b \<or> p = a * 512)")
  case True
  let ?bs = "take 512 (drop (b * 512) xs)"
  have len: "length buf = (b - a) * 512 + 512" using assms(6,7) by (simp add: Suc_diff_le)
  then obtain buf2 where b2: "blit buf (int ((b - a) * 512)) ?bs = Some buf2" "length buf2 = length buf"
    "\<forall>j < length buf. buf2 ! j = (if (b - a) * 512 \<le> j \<and> j < (b - a) * 512 + length ?bs then ?bs ! (j - (b - a) * 512) else buf ! j)"
    using blit_Some [of "(b - a) * 512" ?bs buf] by auto
  have "buf2 ! (j - a * 512) = xs ! j"
    if j: "a * 512 \<le> j" "j < Suc b * 512" "j < length xs" "\<not> (p \<le> j \<and> j < p + m)" for j
  proof (cases "b * 512 \<le> j")
    case True
    then show ?thesis using b2(3) [rule_format, of "j - a * 512"] j len assms(7) by (auto simp: diff_mult_distrib)
  next
    case False
    then have "j < p" "j - a * 512 < (b - a) * 512" using j assms(5,7) by (auto simp: diff_mult_distrib)
    then show ?thesis using b2(3) [rule_format, of "j - a * 512"] j len assms(3,8) by auto
  qed
  with True b2 show ?thesis by (intro exI [of _ buf2]) auto
next
  case False
  have "buf ! (j - a * 512) = xs ! j"
    if j: "a * 512 \<le> j" "j < Suc b * 512" "j < length xs" "\<not> (p \<le> j \<and> j < p + m)" for j
    using False j assms(3,8) by (cases "j < p") auto
  with False show ?thesis by (intro exI [of _ buf]) auto
qed

text \<open>The bytes of the request are copied over the buffer.\<close>

lemma fill_middle:
  assumes "a * 512 \<le> p" "p + m \<le> Suc b * 512" "length buf = (Suc b - a) * 512" "m \<le> length from" "a \<le> b"
    "\<forall>j. a * 512 \<le> j \<and> j < Suc b * 512 \<and> j < length xs \<and> \<not> (p \<le> j \<and> j < p + m) \<longrightarrow> buf ! (j - a * 512) = xs ! j"
  shows "\<exists>buf3. blit buf (int (p - a * 512)) (take m from) = Some buf3 \<and> length buf3 = length buf
    \<and> (\<forall>j. a * 512 \<le> j \<and> j < Suc b * 512 \<and> j < length xs \<longrightarrow>
        buf3 ! (j - a * 512) = (if p \<le> j \<and> j < p + m then from ! (j - p) else xs ! j))"
proof -
  have "p - a * 512 + length (take m from) \<le> length buf"
    using assms(1-5) by (simp add: diff_mult_distrib diff_le_mono)
  from blit_Some [OF this] obtain buf3 where b3: "blit buf (int (p - a * 512)) (take m from) = Some buf3"
    "length buf3 = length buf"
    "\<forall>j < length buf. buf3 ! j = (if p - a * 512 \<le> j \<and> j < p - a * 512 + m then take m from ! (j - (p - a * 512)) else buf ! j)"
    using assms(4) by auto
  have "buf3 ! (j - a * 512) = (if p \<le> j \<and> j < p + m then from ! (j - p) else xs ! j)"
    if j: "a * 512 \<le> j" "j < Suc b * 512" "j < length xs" for j
  proof -
    have "j - a * 512 < length buf" using j assms(3) by (simp add: diff_mult_distrib)
    then have b: "buf3 ! (j - a * 512) = (if p - a * 512 \<le> j - a * 512 \<and> j - a * 512 < p - a * 512 + m
        then take m from ! (j - a * 512 - (p - a * 512)) else buf ! (j - a * 512))" using b3(3) by blast
    show ?thesis
    proof (cases "p \<le> j \<and> j < p + m")
      case True
      then have i: "j - a * 512 - (p - a * 512) = j - p" "j - p < m" using assms(1) by auto
      have "p - a * 512 \<le> j - a * 512" "j - a * 512 < p - a * 512 + m" using True assms(1) by auto
      with b i True show ?thesis by simp
    next
      case False
      then have "\<not> (p - a * 512 \<le> j - a * 512 \<and> j - a * 512 < p - a * 512 + m)" using j(1) assms(1) by auto
      then have "buf3 ! (j - a * 512) = buf ! (j - a * 512)" using b by (simp only: if_False)
      also have "\<dots> = xs ! j" using assms(6) [rule_format, of j] False j by simp
      finally show ?thesis using False by (simp only: if_False)
    qed
  qed
  with b3(1,2) show ?thesis by blast
qed

lemma header_small: "header_ok h \<Longrightarrow> length (file_sectors h) \<le> 1024"
proof -
  assume "header_ok h"
  then have "distinct (file_sectors h)" "set (file_sectors h) \<subseteq> {0..<1024}"
    by (auto simp: header_ok_def disk_sizes)
  then show ?thesis using card_mono [of "{0..<1024 :: int}" "set (file_sectors h)"] by (simp add: distinct_card)
qed

text \<open>The sectors of the request after the write: the new bytes inside it, the old ones around it.\<close>

lemma WriteAt_inside:
  assumes "header_ok (hdr f)" "disk_ok d" "0 \<le> position" "fits (position + n)" "0 < n" "position < numBytes (hdr f)"
    "nat n \<le> length from"
  defines "m \<equiv> (if position + n > numBytes (hdr f) then numBytes (hdr f) - position else n)"
  defines "a \<equiv> nat position div 512" and "b \<equiv> nat (position + m - 1) div 512"
  shows "\<exists>d' buf. WriteAt junk f from n position d = Some (m, d') \<and> length buf = (Suc b - a) * 512
    \<and> each (write_sector_at (hdr f) buf (int a)) [int a..int b] d = Some d'
    \<and> (\<forall>j. a * 512 \<le> j \<and> j < Suc b * 512 \<and> j < nat (numBytes (hdr f)) \<longrightarrow> buf ! (j - a * 512) =
        (if nat position \<le> j \<and> j < nat position + nat m then from ! (j - nat position) else file_data (hdr f) d ! j))"
proof -
  let ?xs = "file_data (hdr f) d" and ?p = "nat position" and ?buf0 = "map junk [0..<nat (1 + int b - int a) * SectorSize]"
  have m: "0 < m" "position + m \<le> numBytes (hdr f)" using assms(3,5,6) by (auto simp: m_def)
  note ab = request_sectors [OF assms(1,3) m, folded a_def b_def]
  have len: "length ?xs = nat (numBytes (hdr f))" using assms(1,2) by simp
  have pm: "?p + nat m \<le> length ?xs" using len m assms(3) by linarith
  have l0: "length ?buf0 = (Suc b - a) * 512" using ab(1) by (simp add: SectorSize_def nat_diff_distrib Suc_diff_le nat_add_distrib)
  have fitting: "fits (int (i * 512) + 512)" if "i \<le> b" for i
    using that ab(2) header_small [OF assms(1)] by (simp add: fits_def)
  have rd: "ReadAt f 512 (int i * 512) d = Some (take 512 (drop (i * 512) ?xs))" if "i \<le> b" for i
    using ReadAt_correct [OF assms(1,2) _ fitting [OF that]] by (simp add: nat_mult_distrib)
  obtain buf1 where b1: "(if ?p \<noteq> a * 512 then blit ?buf0 0 (take 512 (drop (a * 512) ?xs)) else Some ?buf0) = Some buf1"
    "length buf1 = length ?buf0"
    "\<forall>j. ?p \<noteq> a * 512 \<and> a * 512 \<le> j \<and> j < Suc a * 512 \<and> j < length ?xs \<longrightarrow> buf1 ! (j - a * 512) = ?xs ! j"
    using fill_first [OF pm ab(5) l0 ab(1)] by auto
  obtain buf2 where b2: "(if ?p + nat m \<noteq> Suc b * 512 \<and> (a \<noteq> b \<or> ?p = a * 512)
      then blit buf1 (int ((b - a) * 512)) (take 512 (drop (b * 512) ?xs)) else Some buf1) = Some buf2"
    "length buf2 = length buf1"
    "\<forall>j. a * 512 \<le> j \<and> j < Suc b * 512 \<and> j < length ?xs \<and> \<not> (?p \<le> j \<and> j < ?p + nat m) \<longrightarrow> buf2 ! (j - a * 512) = ?xs ! j"
    using fill_last [OF pm ab(5,6,7,8) _ ab(1) b1(3)] b1(2) l0 by auto
  have nm: "nat m \<le> length from" using assms(5,7) unfolding m_def by (auto split: if_splits)
  have l2: "length buf2 = (Suc b - a) * 512" using b2(2) b1(2) l0 by simp
  obtain buf3 where b3: "blit buf2 (int (?p - a * 512)) (take (nat m) from) = Some buf3" "length buf3 = length buf2"
    "\<forall>j. a * 512 \<le> j \<and> j < Suc b * 512 \<and> j < length ?xs \<longrightarrow>
      buf3 ! (j - a * 512) = (if ?p \<le> j \<and> j < ?p + nat m then from ! (j - ?p) else ?xs ! j)"
    using fill_middle [OF ab(5,7) l2 nm ab(1) b2(3)] by auto
  obtain d' where d': "each (write_sector_at (hdr f) buf3 (int a)) [int a..int b] d = Some d'"
    using write_sectors [OF assms(1) ab(2,1)] by blast
  have c: "position = int a * 512 \<longleftrightarrow> ?p = a * 512" "position + m = int b * 512 + 512 \<longleftrightarrow> ?p + nat m = 512 + b * 512"
    "(int b - int a) * 512 = int ((b - a) * 512)" "position - int a * 512 = int (?p - a * 512)"
    using assms(3) m(1) ab(1,5) by (auto simp: of_nat_diff)
  have "WriteAt junk f from n position d = Some (m, d')"
    using assms(3-6) m(1) nm b1(1) b2(1) b3(1) d'
    unfolding WriteAt_def FileLength_def int_sum_def Let_def
    by (simp add: m_def [symmetric] ab(3,4) SectorSize_def c rd ab(1) split del: if_split cong: if_cong)
  with d' b3(2,3) l2 len show ?thesis by (intro exI [of _ d'] exI [of _ buf3]) simp
qed

lemma disk_ok_write:
  assumes "header_ok h" "disk_ok d" "b < length (file_sectors h)" "length buf = (Suc b - a) * 512"
    "\<forall>i < length (file_sectors h). d' (file_sectors h ! i) =
        (if a \<le> i \<and> i \<le> b then take 512 (drop ((i - a) * 512) buf) else d (file_sectors h ! i))"
    "\<forall>n. n \<notin> set (file_sectors h) \<longrightarrow> d' n = d n"
  shows "disk_ok d'"
  unfolding disk_ok_def
proof (intro allI impI)
  fix n assume n: "0 \<le> n \<and> n < NumSectors"
  show "length (d' n) = SectorSize"
  proof (cases "n \<in> set (file_sectors h)")
    case True
    then obtain i where i: "i < length (file_sectors h)" "n = file_sectors h ! i" by (metis in_set_conv_nth)
    have "512 \<le> length buf - (i - a) * 512" if "a \<le> i" "i \<le> b"
    proof -
      have "length buf - (i - a) * 512 = (Suc b - i) * 512" using that assms(4) by (simp add: diff_mult_distrib)
      with that show ?thesis by (simp add: Suc_diff_le)
    qed
    with i assms(2,5) n show ?thesis by (auto simp: disk_ok_def SectorSize_def)
  qed (use assms(2,6) n in \<open>auto simp: disk_ok_def\<close>)
qed

lemma WriteAt_correct:
  assumes "header_ok (hdr f)" "disk_ok d" "0 \<le> position" "fits (position + n)" "nat n \<le> length from"
  defines "xs \<equiv> file_data (hdr f) d"
  defines "new \<equiv> take (length xs - nat position) (take (nat n) from)"
  shows "\<exists>d'. WriteAt junk f from n position d = Some (int (length new), d') \<and> disk_ok d'
    \<and> file_data (hdr f) d' = take (nat position) xs @ new @ drop (nat position + length new) xs
    \<and> (\<forall>s. s \<notin> set (file_sectors (hdr f)) \<longrightarrow> d' s = d s)"
proof (cases "n \<le> 0 \<or> position \<ge> numBytes (hdr f)")
  case True
  then have "new = []" using assms(1,2) by (auto simp: new_def xs_def)
  with True assms(1,2) show ?thesis
    by (auto simp: WriteAt_def FileLength_def Let_def xs_def)
next
  case False
  define m where "m = (if position + n > numBytes (hdr f) then numBytes (hdr f) - position else n)"
  define a where "a = nat position div 512"
  define b where "b = nat (position + m - 1) div 512"
  have m: "0 < m" "position + m \<le> numBytes (hdr f)" using False assms(3) by (auto simp: m_def)
  note ab = request_sectors [OF assms(1,3) m, folded a_def b_def]
  from False have "0 < n" "position < numBytes (hdr f)" by auto
  from WriteAt_inside [OF assms(1-4) this assms(5), folded m_def, folded a_def b_def] obtain d' buf where
    w: "WriteAt junk f from n position d = Some (m, d')" "length buf = (Suc b - a) * 512"
      "each (write_sector_at (hdr f) buf (int a)) [int a..int b] d = Some d'"
      "\<forall>j. a * 512 \<le> j \<and> j < Suc b * 512 \<and> j < nat (numBytes (hdr f)) \<longrightarrow> buf ! (j - a * 512) =
        (if nat position \<le> j \<and> j < nat position + nat m then from ! (j - nat position) else xs ! j)"
    unfolding xs_def by blast
  have d': "\<forall>i < length (file_sectors (hdr f)). d' (file_sectors (hdr f) ! i) =
        (if a \<le> i \<and> i \<le> b then take 512 (drop ((i - a) * 512) buf) else d (file_sectors (hdr f) ! i))"
    "\<forall>n. n \<notin> set (file_sectors (hdr f)) \<longrightarrow> d' n = d n"
    using write_sectors [OF assms(1) ab(2,1), of buf d] w(3) by auto
  have ok: "disk_ok d'" by (rule disk_ok_write [OF assms(1,2) ab(2) w(2) d'])
  have len: "length xs = nat (numBytes (hdr f))" "length (file_data (hdr f) d') = nat (numBytes (hdr f))"
    using assms(1,2) ok by (simp_all add: xs_def)
  have mm: "nat m = min (nat n) (nat (numBytes (hdr f)) - nat position)" using False assms(3) by (auto simp: m_def min_def)
  then have ml: "nat m \<le> length from" using assms(5) by linarith
  from mm have "new = take (nat m) from" by (simp add: new_def len(1) min.commute)
  then have new: "length new = nat m" "\<And>i. i < nat m \<Longrightarrow> new ! i = from ! i"
    using ml by simp_all
  have "file_data (hdr f) d' ! j = (take (nat position) xs @ new @ drop (nat position + length new) xs) ! j"
    if j: "j < nat (numBytes (hdr f))" for j
  proof -
    have jr: "j < length (file_sectors (hdr f)) * 512" using j header_sizes(1) [OF assms(1)] by linarith
    have "file_data (hdr f) d' ! j = (if nat position \<le> j \<and> j < nat position + nat m then from ! (j - nat position) else xs ! j)"
      using raw_data_after_write [OF assms(1,2) ok w(2) d'(1) jr] w(4) j ab(5,7)
      by (auto simp: file_data_def xs_def)
    then show ?thesis using j new len(1) by (auto simp: nth_append)
  qed
  moreover have "nat position + nat m \<le> nat (numBytes (hdr f))" using m assms(3) by linarith
  ultimately have "file_data (hdr f) d' = take (nat position) xs @ new @ drop (nat position + length new) xs"
    using len new(1) by (intro nth_equalityI) auto
  with w(1) ok d'(2) new(1) m(1) show ?thesis by (intro exI [of _ d']) simp
qed

section \<open>Allocation of data sectors\<close>

lemma Allocate_no_space:
  assumes "wf_bitmap m" "int (card ({0..<numBits m} - marked m)) < divRoundUp fileSize (int SectorSize)"
  shows "\<exists>h'. Allocate h m fileSize = Some (False, h', m)"
  using assms by (simp add: Allocate_def NumClear_eq Let_def)

lemma Allocate_ok:
  assumes "wf_bitmap m" "numBits m = NumSectors" "0 \<le> fileSize"
    "divRoundUp fileSize (int SectorSize) \<le> int (card ({0..<numBits m} - marked m))"
    "nat (divRoundUp fileSize (int SectorSize)) \<le> length (dataSectors h)"
  shows "\<exists>h' m'. Allocate h m fileSize = Some (True, h', m') \<and> header_ok h' \<and> numBytes h' = fileSize
    \<and> set (file_sectors h') \<inter> marked m = {} \<and> wf_bitmap m' \<and> numBits m' = numBits m
    \<and> marked m' = marked m \<union> set (file_sectors h')
    \<and> dataSectors h' = file_sectors h' @ drop (nat (numSectors h')) (dataSectors h)"
proof -
  let ?n = "divRoundUp fileSize (int SectorSize)"
  have n: "0 \<le> ?n" using assms(3) by (simp add: divRoundUp_ge_0 SectorSize_def)
  with assms(4) have "nat ?n \<le> card ({0..<numBits m} - marked m)" by linarith
  from bm.alloc_n [OF assms(1) this] obtain fs m' where fs: "collect_n Find (nat ?n) m = Some (fs, m')"
    "length fs = nat ?n" "distinct fs" "set fs \<subseteq> {0..<numBits m} - marked m" "wf_bitmap m'" "numBits m' = numBits m"
    "marked m' = marked m \<union> set fs" by blast
  let ?h = "h\<lparr>numBytes := fileSize, numSectors := ?n, dataSectors := fs @ drop (nat ?n) (dataSectors h)\<rparr>"
  have "Allocate h m fileSize = Some (True, ?h, m')"
    using assms(4,5) fs(1) by (simp add: Allocate_def NumClear_eq [OF assms(1)] Let_def)
  moreover have f: "file_sectors ?h = fs" using fs(2) by (simp add: file_sectors_def)
  moreover have "header_ok ?h"
    using f fs(2-4) assms(2,3,5) by (auto simp: header_ok_def)
  ultimately show ?thesis using fs(4-7) by (intro exI [of _ ?h] exI [of _ m']) auto
qed

text \<open>\<open>Allocate\<close> does not compare the size with the room in the header: a file of more than \<open>NumDirect\<close> sectors
  is written past the end of \<open>dataSectors\<close>.\<close>

lemma Allocate_too_big:
  assumes "wf_bitmap m" "length (dataSectors h) = NumDirect" "0 \<le> fileSize"
    "int NumDirect < divRoundUp fileSize (int SectorSize)"
    "divRoundUp fileSize (int SectorSize) \<le> int (card ({0..<numBits m} - marked m))"
  shows "Allocate h m fileSize = None"
proof -
  have "\<not> nat (divRoundUp fileSize (int SectorSize)) \<le> NumDirect" using assms(4) by linarith
  then show ?thesis
    using assms by (simp add: Allocate_def NumClear_eq Let_def split: bind_splits)
qed

lemma Deallocate_each:
  assumes "wf_bitmap m" "distinct ss" "set ss \<subseteq> marked m"
  shows "\<exists>m'. each (\<lambda>s b. do { t \<leftarrow> Test b s; ASSERT t; Clear b s }) ss m = Some m' \<and> wf_bitmap m'
    \<and> numBits m' = numBits m \<and> marked m' = marked m - set ss"
  using assms
proof (induction ss arbitrary: m)
  case (Cons s ss)
  then have r: "in_range m s" "s \<in> marked m" by (auto simp: marked_def)
  obtain m1 where m1: "Clear m s = Some m1" using Clear_total [OF Cons.prems(1) r(1)] by blast
  note c = Clear_Some [OF Cons.prems(1) r(1) m1]
  have "set ss \<subseteq> marked m1" using c(3) Cons.prems(2,3) by auto
  with Cons.IH [OF c(1)] Cons.prems(2) obtain m' where
    "each (\<lambda>s b. do { t \<leftarrow> Test b s; ASSERT t; Clear b s }) ss m1 = Some m'" "wf_bitmap m'"
    "numBits m' = numBits m1" "marked m' = marked m1 - set ss" by auto
  then show ?case using r m1 c Test_eq [OF Cons.prems(1) r(1)] by auto
qed simp

lemma each_cong: "(\<And>x s. x \<in> set xs \<Longrightarrow> f x s = g x s) \<Longrightarrow> each f xs s = each g xs s"
proof (induction xs arbitrary: s)
  case (Cons x xs)
  then show ?case by (cases "g x s") auto
qed simp

lemma each_map: "each f (map g xs) s = each (\<lambda>x. f (g x)) xs s"
proof (induction xs arbitrary: s)
  case (Cons x xs)
  then show ?case by (cases "f (g x) s") auto
qed simp

lemma Deallocate_ok:
  assumes "wf_bitmap m" "header_ok h" "set (file_sectors h) \<subseteq> marked m"
  shows "\<exists>m'. Deallocate h m = Some m' \<and> wf_bitmap m' \<and> numBits m' = numBits m \<and> marked m' = marked m - set (file_sectors h)"
proof -
  have l: "nat (numSectors h) \<le> length (dataSectors h)" using assms(2) unfolding header_ok_def by blast
  then have "file_sectors h = map ((!) (dataSectors h)) [0..<nat (numSectors h)]"
    by (simp add: file_sectors_def list_eq_iff_nth_eq)
  then have "Deallocate h m = each (\<lambda>s b. do { t \<leftarrow> Test b s; ASSERT t; Clear b s }) (file_sectors h) m"
    using l by (simp add: Deallocate_def each_map) (rule each_cong, simp)
  with Deallocate_each [OF assms(1) _ assms(3)] assms(2) show ?thesis by (simp add: header_ok_def)
qed

section \<open>Properties of open files\<close>

text \<open>A file of 600 bytes in the sectors 9 and 5.\<close>

definition sample_open_file :: OpenFile where
  "sample_open_file = \<lparr>hdr = \<lparr>numBytes = 600, numSectors = 2, dataSectors = 9 # 5 # replicate 124 0\<rparr>, seekPosition = 0, file_type = 0\<rparr>"

lemma sample_open_file_ok: "header_ok (hdr sample_open_file)" "disk_ok (\<lambda>_. replicate 512 0)"
  by (simp_all add: header_ok_def sample_open_file_def file_sectors_def divRoundUp_nonneg SectorSize_def disk_sizes disk_ok_def)

lemma sample_file_data: "file_data (hdr sample_open_file) (\<lambda>_. replicate 512 0) = replicate 600 0"
  by (simp add: file_data_def raw_data_def sample_open_file_def file_sectors_def replicate_add [symmetric])

text \<open>C19. An open file is an array of bytes: whatever the position and size of a request and however it is aligned to
  sectors, \<open>ReadAt\<close> returns that slice of the file, cut at its end, and \<open>WriteAt\<close> replaces that slice and nothing else: the rest of the
  file and all sectors that do not belong to it are unchanged, whatever was in the buffer before.\<close>

theorem open_file_is_byte_array:
  assumes "header_ok (hdr f)" "disk_ok d" "0 \<le> position" "fits (position + n)" "nat n \<le> length from"
  defines "xs \<equiv> file_data (hdr f) d"
  defines "new \<equiv> take (length xs - nat position) (take (nat n) from)"
  shows "ReadAt f n position d = Some (take (nat n) (drop (nat position) xs))
    \<and> (\<exists>d'. WriteAt junk f from n position d = Some (int (length new), d') \<and> disk_ok d'
        \<and> file_data (hdr f) d' = take (nat position) xs @ new @ drop (nat position + length new) xs
        \<and> (\<forall>s. s \<notin> set (file_sectors (hdr f)) \<longrightarrow> d' s = d s))"
  unfolding new_def xs_def using ReadAt_correct [OF assms(1-4)] WriteAt_correct [OF assms(1-5)] by blast

theorem open_file_is_byte_array_witness:
  "\<exists>d'. WriteAt (\<lambda>i. 99) sample_open_file [1, 2, 3, 4] 4 510 (\<lambda>_. replicate 512 0) = Some (4, d')
     \<and> file_data (hdr sample_open_file) d' = replicate 510 0 @ [1, 2, 3, 4] @ replicate 86 0"
proof -
  have "fits (510 + 4)" "nat 4 \<le> length [1, 2, 3, 4 :: byte]" "(0 :: int) \<le> 510" by (simp_all add: fits_def)
  from open_file_is_byte_array [OF sample_open_file_ok this(3,1,2)] show ?thesis
    unfolding sample_file_data by (auto simp: drop_replicate take_replicate)
qed

end
