(* ===== verification/Directory.thy ===== *)
theory Directory
  imports Open_File
begin

text \<open>
  filesys/directory.h and filesys/directory.cc: the table of file names, and its form on disk.

  File names are C strings: lists of bytes, of which the functions of the C library look at those before the first zero.
  An entry takes \<^verbatim>\<open>sizeof(DirectoryEntry)\<close> = 20 bytes: \<^verbatim>\<open>inUse\<close> and three bytes of padding, \<^verbatim>\<open>sector\<close>, ten bytes of
  \<^verbatim>\<open>name\<close> and two bytes of padding; padding is written as zeros. A new table is not
  initialised apart from \<^verbatim>\<open>inUse\<close>, so the constructor takes its contents as an argument.
\<close>

section \<open>C strings\<close>

definition cstr :: "nat \<Rightarrow> byte list \<Rightarrow> byte list" where
  "cstr n s = takeWhile (\<lambda>c. c \<noteq> 0) (take n s)"

definition strncmp_eq :: "byte list \<Rightarrow> byte list \<Rightarrow> nat \<Rightarrow> bool" where
  "strncmp_eq s t n \<longleftrightarrow> cstr n s = cstr n t"

definition strncpy :: "byte list \<Rightarrow> byte list \<Rightarrow> nat \<Rightarrow> byte list" where
  "strncpy dst src n = cstr n src @ replicate (n - length (cstr n src)) 0 @ drop n dst"

section \<open>The table\<close>

definition FileNameMaxLen :: nat where "FileNameMaxLen = 9"

record DirectoryEntry =
  inUse :: bool
  sector :: int
  entry_name :: "byte list"

record Directory =
  tableSize :: nat
  table :: "DirectoryEntry list"

definition Directory_new :: "DirectoryEntry list \<Rightarrow> nat \<Rightarrow> Directory" where
  "Directory_new raw sz = \<lparr>tableSize = sz, table = map (\<lambda>e. e\<lparr>inUse := False\<rparr>) (take sz raw)\<rparr>"

fun first_index :: "('a \<Rightarrow> bool) \<Rightarrow> 'a list \<Rightarrow> int \<Rightarrow> int" where
  "first_index p [] i = -1"
| "first_index p (x # xs) i = (if p x then i else first_index p xs (i + 1))"

definition FindIndex :: "Directory \<Rightarrow> byte list \<Rightarrow> int" where
  "FindIndex dir name = first_index (\<lambda>e. inUse e \<and> strncmp_eq (entry_name e) name FileNameMaxLen) (table dir) 0"

definition Directory_Find :: "Directory \<Rightarrow> byte list \<Rightarrow> int" where
  "Directory_Find dir name = (let i = FindIndex dir name in if i \<noteq> -1 then sector (table dir ! nat i) else -1)"

definition Add :: "Directory \<Rightarrow> byte list \<Rightarrow> int \<Rightarrow> bool \<times> Directory" where
  "Add dir name newSector =
     (if FindIndex dir name \<noteq> -1 then (False, dir)
      else let i = first_index (\<lambda>e. \<not> inUse e) (table dir) 0 in
        if i = -1 then (False, dir)
        else let e = table dir ! nat i in
          (True, dir\<lparr>table := (table dir)[nat i :=
             e\<lparr>inUse := True, entry_name := strncpy (entry_name e) name FileNameMaxLen, sector := newSector\<rparr>]\<rparr>))"

definition Directory_Remove :: "Directory \<Rightarrow> byte list \<Rightarrow> bool \<times> Directory" where
  "Directory_Remove dir name =
     (let i = FindIndex dir name in
      if i = -1 then (False, dir)
      else (True, dir\<lparr>table := (table dir)[nat i := (table dir ! nat i)\<lparr>inUse := False\<rparr>]\<rparr>))"

text \<open>\<open>List\<close> prints the names of the entries in use; the model returns them.\<close>

definition Directory_List :: "Directory \<Rightarrow> byte list list" where
  "Directory_List dir = map (\<lambda>e. cstr (length (entry_name e)) (entry_name e)) (filter inUse (table dir))"

section \<open>The table in memory and on disk\<close>

definition entry_size :: nat where "entry_size = 20"

definition entry_bytes :: "DirectoryEntry \<Rightarrow> byte list" where
  "entry_bytes e = [if inUse e then 1 else 0, 0, 0, 0] @ bytes_of_word (word_of_int (sector e)) @ entry_name e @ [0, 0]"

definition entry_of_bytes :: "byte list \<Rightarrow> DirectoryEntry" where
  "entry_of_bytes bs = \<lparr>inUse = (bs ! 0 \<noteq> 0), sector = int_at bs 4, entry_name = take 10 (drop 8 bs)\<rparr>"

definition table_bytes :: "DirectoryEntry list \<Rightarrow> byte list" where
  "table_bytes t = concat (map entry_bytes t)"

definition table_of_bytes :: "nat \<Rightarrow> byte list \<Rightarrow> DirectoryEntry list" where
  "table_of_bytes n bs = map (\<lambda>i. entry_of_bytes (take entry_size (drop (i * entry_size) bs))) [0..<n]"

definition Directory_FetchFrom :: "Directory \<Rightarrow> OpenFile \<Rightarrow> disk \<Rightarrow> Directory option" where
  "Directory_FetchFrom dir file d = do {
     bs \<leftarrow> ReadAt file (int (tableSize dir * entry_size)) 0 d;
     Some (dir\<lparr>table := table_of_bytes (tableSize dir) (bs @ drop (length bs) (table_bytes (table dir)))\<rparr>) }"

definition Directory_WriteBack :: "(nat \<Rightarrow> byte) \<Rightarrow> Directory \<Rightarrow> OpenFile \<Rightarrow> disk \<Rightarrow> disk option" where
  "Directory_WriteBack junk dir file d = do {
     (r, d') \<leftarrow> WriteAt junk file (table_bytes (table dir)) (int (tableSize dir * entry_size)) 0 d;
     Some d' }"

section \<open>Searching\<close>

lemma first_index_cases:
  assumes "0 \<le> i"
  shows "(first_index p xs i = -1 \<and> (\<forall>x \<in> set xs. \<not> p x))
    \<or> (\<exists>k < length xs. first_index p xs i = i + int k \<and> p (xs ! k) \<and> (\<forall>j < k. \<not> p (xs ! j)))"
  using assms
proof (induction xs arbitrary: i)
  case (Cons x xs)
  show ?case
  proof (cases "p x")
    case True
    then show ?thesis by (intro disjI2 exI [of _ 0]) simp
  next
    case False
    have "0 \<le> i + 1" using Cons.prems by simp
    with Cons.IH consider (none) "first_index p xs (i + 1) = -1" "\<forall>x \<in> set xs. \<not> p x"
      | (some) k where "k < length xs" "first_index p xs (i + 1) = i + 1 + int k" "p (xs ! k)" "\<forall>j<k. \<not> p (xs ! j)"
      by blast
    then show ?thesis
    proof cases
      case none
      with False show ?thesis by simp
    next
      case some
      then have "\<forall>j < Suc k. \<not> p ((x # xs) ! j)" using False by (auto simp: less_Suc_eq_0_disj)
      with some False show ?thesis by (intro disjI2 exI [of _ "Suc k"]) simp
    qed
  qed
qed simp

lemma first_index_None: "first_index p xs 0 = -1 \<longleftrightarrow> (\<forall>x \<in> set xs. \<not> p x)"
  using first_index_cases [of 0 p xs] by force

lemma first_index_Some:
  assumes "first_index p xs 0 \<noteq> -1"
  obtains k where "first_index p xs 0 = int k" "k < length xs" "p (xs ! k)" "\<forall>j < k. \<not> p (xs ! j)"
  using first_index_cases [of 0 p xs] assms by auto

section \<open>C strings: copies compare equal\<close>

lemma cstr_length: "length (cstr n s) \<le> n"
  using length_takeWhile_le [of "\<lambda>c. c \<noteq> 0" "take n s"] by (simp add: cstr_def)

lemma cstr_strncpy: "cstr n (strncpy dst src n) = cstr n src"
proof -
  let ?c = "cstr n src"
  have "take n (strncpy dst src n) = ?c @ replicate (n - length ?c) 0"
    using cstr_length [of n src] by (simp add: strncpy_def)
  moreover have "\<forall>c \<in> set ?c. c \<noteq> 0" by (auto simp: cstr_def dest: set_takeWhileD)
  ultimately have "takeWhile (\<lambda>c. c \<noteq> 0) (take n (strncpy dst src n)) = ?c"
    by (cases "n - length ?c") simp_all
  then show ?thesis by (simp add: cstr_def)
qed

lemma strncpy_length: "n \<le> length dst \<Longrightarrow> length (strncpy dst src n) = length dst"
  using cstr_length [of n src] by (simp add: strncpy_def)

section \<open>The directory as a finite map\<close>

definition live :: "DirectoryEntry list \<Rightarrow> DirectoryEntry list" where
  "live t = filter inUse t"

definition key :: "DirectoryEntry \<Rightarrow> byte list" where
  "key e = cstr FileNameMaxLen (entry_name e)"

definition dir_map :: "DirectoryEntry list \<Rightarrow> byte list \<Rightarrow> int option" where
  "dir_map t = map_of (map (\<lambda>e. (key e, sector e)) (live t))"

definition entry_ok :: "DirectoryEntry \<Rightarrow> bool" where
  "entry_ok e \<longleftrightarrow> length (entry_name e) = 10 \<and> fits (sector e)"

lemma live_update:
  assumes "i < length t"
  shows "live (t[i := e]) = live (take i t) @ (if inUse e then [e] else []) @ live (drop (Suc i) t)"
    and "live t = live (take i t) @ (if inUse (t ! i) then [t ! i] else []) @ live (drop (Suc i) t)"
proof -
  show "live (t[i := e]) = live (take i t) @ (if inUse e then [e] else []) @ live (drop (Suc i) t)"
    using assms by (simp add: live_def upd_conv_take_nth_drop)
  show "live t = live (take i t) @ (if inUse (t ! i) then [t ! i] else []) @ live (drop (Suc i) t)"
    using arg_cong [OF id_take_nth_drop [OF assms], of "filter inUse"] by (simp add: live_def)
qed

lemma FindIndex_None: "FindIndex dir name = -1 \<longleftrightarrow> cstr FileNameMaxLen name \<notin> key ` set (live (table dir))"
  by (auto simp: FindIndex_def first_index_None strncmp_eq_def live_def key_def image_iff)

lemma FindIndex_Some:
  assumes "FindIndex dir name \<noteq> -1"
  obtains k where "FindIndex dir name = int k" "k < length (table dir)" "inUse (table dir ! k)"
    "key (table dir ! k) = cstr FileNameMaxLen name"
    "cstr FileNameMaxLen name \<notin> key ` set (live (take k (table dir)))"
proof -
  let ?p = "\<lambda>e. inUse e \<and> strncmp_eq (entry_name e) name FileNameMaxLen"
  obtain k where k: "first_index ?p (table dir) 0 = int k" "k < length (table dir)" "?p (table dir ! k)"
    "\<forall>j < k. \<not> ?p (table dir ! j)"
    by (rule first_index_Some [of ?p "table dir"]) (use assms in \<open>simp_all add: FindIndex_def\<close>)
  have "cstr FileNameMaxLen name \<notin> key ` set (live (take k (table dir)))"
    using k(4) by (auto simp: live_def key_def strncmp_eq_def in_set_conv_nth)
  with k that show ?thesis by (simp add: FindIndex_def key_def strncmp_eq_def)
qed

text \<open>\<open>Find\<close> is lookup in the map of the entries in use.\<close>

lemma Directory_Find_map:
  "Directory_Find dir name = (case dir_map (table dir) (cstr FileNameMaxLen name) of None \<Rightarrow> -1 | Some s \<Rightarrow> s)"
proof (cases "FindIndex dir name = -1")
  case True
  then have "cstr FileNameMaxLen name \<notin> fst ` set (map (\<lambda>e. (key e, sector e)) (live (table dir)))"
    unfolding FindIndex_None by force
  then have "dir_map (table dir) (cstr FileNameMaxLen name) = None"
    unfolding dir_map_def map_of_eq_None_iff .
  with True show ?thesis by (simp add: Directory_Find_def)
next
  case False
  then obtain k where k: "FindIndex dir name = int k" "k < length (table dir)" "inUse (table dir ! k)"
    "key (table dir ! k) = cstr FileNameMaxLen name"
    "cstr FileNameMaxLen name \<notin> key ` set (live (take k (table dir)))" by (rule FindIndex_Some)
  have "map_of (map (\<lambda>e. (key e, sector e)) (live (take k (table dir)))) (cstr FileNameMaxLen name) = None"
    using k(5) by (auto simp: map_of_eq_None_iff)
  with k live_update(2) [OF k(2)] show ?thesis
    by (simp add: Directory_Find_def dir_map_def map_add_def)
qed

text \<open>Which entries are in use after \<open>Add\<close> and \<open>Remove\<close>.\<close>

lemma Add_live:
  assumes "Add dir name s = (True, dir')"
  obtains xs e ys where "live (table dir) = xs @ ys" "live (table dir') = xs @ e # ys" "key e = cstr FileNameMaxLen name"
    "sector e = s" "cstr FileNameMaxLen name \<notin> key ` set (live (table dir))" "tableSize dir' = tableSize dir"
    "length (table dir') = length (table dir)"
    "fits s \<Longrightarrow> \<forall>e \<in> set (table dir). entry_ok e \<Longrightarrow> \<forall>e \<in> set (table dir'). entry_ok e"
proof -
  have n: "FindIndex dir name = -1" "first_index (\<lambda>e. \<not> inUse e) (table dir) 0 \<noteq> -1"
    using assms by (auto simp: Add_def Let_def split: if_splits)
  then obtain k where k: "first_index (\<lambda>e. \<not> inUse e) (table dir) 0 = int k" "k < length (table dir)" "\<not> inUse (table dir ! k)"
    by (auto elim: first_index_Some)
  let ?old = "table dir ! k"
  let ?e = "?old\<lparr>inUse := True, entry_name := strncpy (entry_name ?old) name FileNameMaxLen, sector := s\<rparr>"
  have d': "dir' = dir\<lparr>table := (table dir)[k := ?e]\<rparr>" using assms n k by (simp add: Add_def Let_def)
  have "\<forall>e \<in> set ((table dir)[k := ?e]). entry_ok e" if "fits s" "\<forall>e \<in> set (table dir). entry_ok e"
  proof -
    have "entry_ok ?old" using that(2) k(2) by simp
    then have "entry_ok ?e" using that(1) by (simp add: entry_ok_def strncpy_length FileNameMaxLen_def)
    with that(2) show ?thesis using set_update_subset_insert [of "table dir" k ?e] by blast
  qed
  note ok = this
  show ?thesis
  proof (rule that [of "live (take k (table dir))" "live (drop (Suc k) (table dir))" ?e])
    show "live (table dir) = live (take k (table dir)) @ live (drop (Suc k) (table dir))"
      using live_update(2) [OF k(2)] k(3) by simp
    show "live (table dir') = live (take k (table dir)) @ ?e # live (drop (Suc k) (table dir))"
      using live_update(1) [OF k(2), of ?e] d' by simp
    show "cstr FileNameMaxLen name \<notin> key ` set (live (table dir))" using n(1) unfolding FindIndex_None .
    show "\<forall>e \<in> set (table dir'). entry_ok e" if "fits s" "\<forall>e \<in> set (table dir). entry_ok e"
      unfolding d' using ok [OF that] by simp
  qed (simp_all add: d' key_def cstr_strncpy)
qed

lemma Remove_live:
  assumes "Directory_Remove dir name = (True, dir')"
  obtains xs e ys where "live (table dir) = xs @ e # ys" "live (table dir') = xs @ ys" "key e = cstr FileNameMaxLen name"
    "sector e = Directory_Find dir name" "tableSize dir' = tableSize dir" "length (table dir') = length (table dir)"
    "\<forall>e \<in> set (table dir). entry_ok e \<Longrightarrow> \<forall>e \<in> set (table dir'). entry_ok e"
proof -
  have "FindIndex dir name \<noteq> -1" using assms by (auto simp: Directory_Remove_def Let_def)
  then obtain k where k: "FindIndex dir name = int k" "k < length (table dir)" "inUse (table dir ! k)"
    "key (table dir ! k) = cstr FileNameMaxLen name" by (rule FindIndex_Some)
  let ?e = "(table dir ! k)\<lparr>inUse := False\<rparr>"
  have d': "dir' = dir\<lparr>table := (table dir)[k := ?e]\<rparr>" using assms k(1) by (simp add: Directory_Remove_def)
  have "\<forall>e \<in> set ((table dir)[k := ?e]). entry_ok e" if "\<forall>e \<in> set (table dir). entry_ok e"
  proof -
    have "entry_ok ?e" using that k(2) by (simp add: entry_ok_def)
    with that show ?thesis using set_update_subset_insert [of "table dir" k ?e] by blast
  qed
  then show ?thesis
    using that [of "live (take k (table dir))" "table dir ! k" "live (drop (Suc k) (table dir))"] live_update(1) [OF k(2), of ?e] live_update(2) [OF k(2)] k d'
    by (simp add: Directory_Find_def)
qed

lemma Remove_iff: "fst (Directory_Remove dir name) \<longleftrightarrow> FindIndex dir name \<noteq> -1"
  by (simp add: Directory_Remove_def Let_def)

section \<open>The table on disk\<close>

lemma entry_bytes_length: "entry_ok e \<Longrightarrow> length (entry_bytes e) = 20"
  by (simp add: entry_bytes_def entry_ok_def)

lemma entry_round_trip:
  assumes "entry_ok e"
  shows "entry_of_bytes (entry_bytes e) = e"
proof -
  have "word_of_bytes (entry_bytes e) 4 = word_of_int (sector e)"
    by (rule word_of_bytes_of_word [where rest = "entry_name e @ [0, 0]"]) (simp add: entry_bytes_def)
  then have "int_at (entry_bytes e) 4 = sector e"
    using assms by (simp add: int_at_def entry_ok_def fits_def signed_of_int signed_take_bit_int_eq_self)
  moreover have "take 10 (drop 8 (entry_bytes e)) = entry_name e"
    using assms by (simp add: entry_bytes_def bytes_of_word_def entry_ok_def)
  ultimately show ?thesis by (simp add: entry_of_bytes_def entry_bytes_def)
qed

lemma table_round_trip:
  assumes "\<forall>e \<in> set t. entry_ok e"
  shows "table_of_bytes (length t) (table_bytes t @ rest) = t"
proof -
  have b: "\<forall>b \<in> set (map entry_bytes t). length b = 20" using assms by (auto simp: entry_bytes_length)
  have l: "length (table_bytes t) = length t * 20" using length_blocks [OF b] by (simp add: table_bytes_def)
  have "entry_of_bytes (take entry_size (drop (i * entry_size) (table_bytes t @ rest))) = t ! i" if i: "i < length t" for i
  proof -
    have "drop (i * 20) (table_bytes t) = concat (drop i (map entry_bytes t))"
      unfolding table_bytes_def by (rule drop_blocks [OF b])
    also have "drop i (map entry_bytes t) = entry_bytes (t ! i) # drop (Suc i) (map entry_bytes t)"
      using i by (simp add: Cons_nth_drop_Suc [symmetric] drop_map)
    finally have d: "drop (i * 20) (table_bytes t) = concat (entry_bytes (t ! i) # drop (Suc i) (map entry_bytes t))" .
    have ok: "entry_ok (t ! i)" using i assms by simp
    have "20 \<le> length (drop (i * 20) (table_bytes t))" using i l by simp
    then have "take 20 (drop (i * 20) (table_bytes t @ rest)) = take 20 (drop (i * 20) (table_bytes t))" by simp
    also have "\<dots> = entry_bytes (t ! i)" unfolding d using entry_bytes_length [OF ok] by simp
    finally have "take 20 (drop (i * 20) (table_bytes t @ rest)) = entry_bytes (t ! i)" .
    then show ?thesis using entry_round_trip [OF ok] by (simp only: entry_size_def)
  qed
  then show ?thesis unfolding table_of_bytes_def by (intro nth_equalityI) simp_all
qed

lemma table_bytes_length: "\<forall>e \<in> set t. entry_ok e \<Longrightarrow> length (table_bytes t) = length t * 20"
  using length_blocks [of "map entry_bytes t" 20] by (auto simp: table_bytes_def entry_bytes_length)

end
