(* ===== verification/File_System.thy ===== *)
theory File_System
  imports Directory
begin

text \<open>
  filesys/filesys.h and filesys/filesys.cc: the Nachos file system on the simulated disk, and the transfer of the bitmap of free
  sectors to and from its file (userprog/bitmap.cc).

  The state is the class's fields together with the contents of the disk. Memory that the code
  allocates without initialising it is an argument, the record \<open>uninit\<close>: results do not depend on it, apart from
  bytes on disk that no file owns. The invariant \<open>fs_ok\<close> says that the bitmap on disk marks exactly the sectors in use,
  each by one owner, and the theorems show that formatting establishes it, that creating and removing
  files keeps it, and that these operations are updates of a finite map from names to files.
\<close>

section \<open>Uninitialised memory\<close>

record uninit =
  raw_table :: "DirectoryEntry list"
  raw_words :: "word32 list"
  raw_header :: FileHeader
  raw_bytes :: "nat \<Rightarrow> nat \<Rightarrow> byte"
  raw_type :: int

section \<open>The bitmap on disk\<close>

definition words_bytes :: "word32 list \<Rightarrow> byte list" where
  "words_bytes ws = concat (map bytes_of_word ws)"

definition words_of_bytes :: "nat \<Rightarrow> byte list \<Rightarrow> word32 list" where
  "words_of_bytes n bs = map (\<lambda>i. word_of_bytes bs (4 * i)) [0..<n]"

definition BitMap_FetchFrom :: "bitmap \<Rightarrow> OpenFile \<Rightarrow> disk \<Rightarrow> bitmap option" where
  "BitMap_FetchFrom b file d = do {
     bs \<leftarrow> ReadAt file (numWords b * 4) 0 d;
     Some (b\<lparr>map_words := words_of_bytes (nat (numWords b)) (bs @ drop (length bs) (words_bytes (map_words b)))\<rparr>) }"

definition BitMap_WriteBack :: "(nat \<Rightarrow> byte) \<Rightarrow> bitmap \<Rightarrow> OpenFile \<Rightarrow> disk \<Rightarrow> disk option" where
  "BitMap_WriteBack junk b file d = do {
     (r, d') \<leftarrow> WriteAt junk file (words_bytes (map_words b)) (numWords b * 4) 0 d;
     Some d' }"

section \<open>The file system\<close>

definition FreeMapSector :: int where "FreeMapSector = 0"
definition DirectorySector :: int where "DirectorySector = 1"
definition BitsInByte :: int where "BitsInByte = 8"
definition FreeMapFileSize :: int where "FreeMapFileSize = NumSectors div BitsInByte"
definition NumDirEntries :: nat where "NumDirEntries = 10"
definition DirectoryFileSize :: int where "DirectoryFileSize = int (entry_size * NumDirEntries)"

record FileSystem =
  freeMapFile :: OpenFile
  directoryFile :: OpenFile
  openState :: "OpenFile option list"
  fs_index :: int
  fs_disk :: disk

definition read_directory :: "uninit \<Rightarrow> FileSystem \<Rightarrow> Directory option" where
  "read_directory u fs = Directory_FetchFrom (Directory_new (raw_table u) NumDirEntries) (directoryFile fs) (fs_disk fs)"

definition read_free_map :: "uninit \<Rightarrow> FileSystem \<Rightarrow> bitmap option" where
  "read_free_map u fs = do {
     freeMap \<leftarrow> BitMap NumSectors (raw_words u);
     BitMap_FetchFrom freeMap (freeMapFile fs) (fs_disk fs) }"

definition Create :: "uninit \<Rightarrow> byte list \<Rightarrow> int \<Rightarrow> FileSystem \<Rightarrow> (bool \<times> FileSystem) option" where
  "Create u name initialSize fs = do {
     directory \<leftarrow> read_directory u fs;
     if Directory_Find directory name \<noteq> -1 then Some (False, fs)
     else do {
       freeMap \<leftarrow> read_free_map u fs;
       (sector, freeMap) \<leftarrow> Find freeMap;
       if sector = -1 then Some (False, fs)
       else let (added, directory) = Add directory name sector in
         if \<not> added then Some (False, fs)
         else do {
           (success, h, freeMap) \<leftarrow> Allocate (raw_header u) freeMap initialSize;
           if \<not> success then Some (False, fs)
           else do {
             d \<leftarrow> Header_WriteBack h sector (fs_disk fs);
             d \<leftarrow> Directory_WriteBack (raw_bytes u 0) directory (directoryFile fs) d;
             d \<leftarrow> BitMap_WriteBack (raw_bytes u 1) freeMap (freeMapFile fs) d;
             Some (True, fs\<lparr>fs_disk := d\<rparr>) } } } }"

definition Open :: "uninit \<Rightarrow> byte list \<Rightarrow> FileSystem \<Rightarrow> OpenFile option option" where
  "Open u name fs = do {
     directory \<leftarrow> read_directory u fs;
     let sector = Directory_Find directory name;
     if sector \<ge> 0 then do {
       f \<leftarrow> OpenFile_new sector (raw_type u) (fs_disk fs);
       Some (Some f) }
     else Some None }"

fun free_slot :: "'a option list \<Rightarrow> int \<Rightarrow> int" where
  "free_slot [] i = -1"
| "free_slot (x # xs) i = (if x = None then i else free_slot xs (i + 1))"

definition FindFreeSlot :: "FileSystem \<Rightarrow> int" where
  "FindFreeSlot fs = free_slot (drop 2 (openState fs)) 2"

text \<open>\<^verbatim>\<open>Open(char *name, int type)\<close>: without a free slot the index is -1, outside the array.\<close>

definition Open_type :: "uninit \<Rightarrow> byte list \<Rightarrow> int \<Rightarrow> FileSystem \<Rightarrow> (OpenFile option \<times> FileSystem) option" where
  "Open_type u name type fs = do {
     let freeSlot = FindFreeSlot fs;
     directory \<leftarrow> read_directory u fs;
     let sector = Directory_Find directory name;
     fs \<leftarrow> (if sector \<ge> 0 then do {
              f \<leftarrow> OpenFile_new sector type (fs_disk fs);
              ASSERT (0 \<le> freeSlot);
              os \<leftarrow> array_set (openState fs) (nat freeSlot) (Some f);
              Some (fs\<lparr>openState := os\<rparr>) }
            else Some fs);
     ASSERT (0 \<le> freeSlot);
     r \<leftarrow> array_get (openState fs) (nat freeSlot);
     Some (r, fs) }"

definition FileSystem_Remove :: "uninit \<Rightarrow> byte list \<Rightarrow> FileSystem \<Rightarrow> (bool \<times> FileSystem) option" where
  "FileSystem_Remove u name fs = do {
     directory \<leftarrow> read_directory u fs;
     let sector = Directory_Find directory name;
     if sector = -1 then Some (False, fs)
     else do {
       fileHdr \<leftarrow> Header_FetchFrom sector (fs_disk fs);
       freeMap \<leftarrow> read_free_map u fs;
       freeMap \<leftarrow> Deallocate fileHdr freeMap;
       freeMap \<leftarrow> Clear freeMap sector;
       let directory = snd (Directory_Remove directory name);
       d \<leftarrow> BitMap_WriteBack (raw_bytes u 0) freeMap (freeMapFile fs) (fs_disk fs);
       d \<leftarrow> Directory_WriteBack (raw_bytes u 1) directory (directoryFile fs) d;
       Some (True, fs\<lparr>fs_disk := d\<rparr>) } }"

text \<open>\<open>List\<close> prints the names; the model returns them.\<close>

definition FileSystem_List :: "uninit \<Rightarrow> FileSystem \<Rightarrow> byte list list option" where
  "FileSystem_List u fs = do { directory \<leftarrow> read_directory u fs; Some (Directory_List directory) }"

text \<open>The constructor: formatting, then the open file table and the two console files.\<close>

definition format_disk :: "uninit \<Rightarrow> disk \<Rightarrow> (OpenFile \<times> OpenFile \<times> disk) option" where
  "format_disk u d = do {
     freeMap \<leftarrow> BitMap NumSectors (raw_words u);
     let directory = Directory_new (raw_table u) NumDirEntries;
     freeMap \<leftarrow> Mark freeMap FreeMapSector;
     freeMap \<leftarrow> Mark freeMap DirectorySector;
     (ok, mapHdr, freeMap) \<leftarrow> Allocate (raw_header u) freeMap FreeMapFileSize;
     ASSERT ok;
     (ok, dirHdr, freeMap) \<leftarrow> Allocate (raw_header u) freeMap DirectoryFileSize;
     ASSERT ok;
     d \<leftarrow> Header_WriteBack mapHdr FreeMapSector d;
     d \<leftarrow> Header_WriteBack dirHdr DirectorySector d;
     mapFile \<leftarrow> OpenFile_new FreeMapSector (raw_type u) d;
     dirFile \<leftarrow> OpenFile_new DirectorySector (raw_type u) d;
     d \<leftarrow> BitMap_WriteBack (raw_bytes u 0) freeMap mapFile d;
     d \<leftarrow> Directory_WriteBack (raw_bytes u 1) directory dirFile d;
     Some (mapFile, dirFile, d) }"

definition open_disk :: "uninit \<Rightarrow> disk \<Rightarrow> (OpenFile \<times> OpenFile \<times> disk) option" where
  "open_disk u d = do {
     mapFile \<leftarrow> OpenFile_new FreeMapSector (raw_type u) d;
     dirFile \<leftarrow> OpenFile_new DirectorySector (raw_type u) d;
     Some (mapFile, dirFile, d) }"

definition stdin_name :: "byte list" where "stdin_name = [115, 116, 100, 105, 110]"
definition stdout_name :: "byte list" where "stdout_name = [115, 116, 100, 111, 117, 116]"

definition open_standard :: "uninit \<Rightarrow> byte list \<Rightarrow> int \<Rightarrow> FileSystem \<Rightarrow> FileSystem option" where
  "open_standard u name type fs = do {
     (f, fs) \<leftarrow> Open_type u name type fs;
     os \<leftarrow> array_set (openState fs) (nat (fs_index fs)) f;
     Some (fs\<lparr>openState := os, fs_index := fs_index fs + 1\<rparr>) }"

definition FileSystem_new :: "uninit \<Rightarrow> bool \<Rightarrow> disk \<Rightarrow> FileSystem option" where
  "FileSystem_new u format d = do {
     (mapFile, dirFile, d) \<leftarrow> (if format then format_disk u d else open_disk u d);
     let fs = \<lparr>freeMapFile = mapFile, directoryFile = dirFile, openState = replicate 10 None, fs_index = 0, fs_disk = d\<rparr>;
     fs \<leftarrow> open_standard u stdin_name 2 fs;
     fs \<leftarrow> open_standard u stdout_name 3 fs;
     (ok, fs) \<leftarrow> Create u stdin_name 0 fs;
     (ok, fs) \<leftarrow> Create u stdout_name 0 fs;
     Some fs }"

section \<open>Whole files\<close>

lemma read_whole:
  assumes "header_ok (hdr f)" "disk_ok d"
  shows "ReadAt f (numBytes (hdr f)) 0 d = Some (file_data (hdr f) d)"
proof -
  have "numBytes (hdr f) \<le> 1024 * 512" using header_small [OF assms(1)] header_sizes(1) [OF assms(1)] by linarith
  moreover have "0 \<le> numBytes (hdr f)" using assms(1) by (simp add: header_ok_def)
  ultimately have "fits (0 + numBytes (hdr f))" by (simp add: fits_def)
  from ReadAt_correct [OF assms _ this] assms show ?thesis by simp
qed

lemma write_whole:
  assumes "header_ok (hdr f)" "disk_ok d" "int (length bs) = numBytes (hdr f)"
  shows "\<exists>d'. WriteAt junk f bs (numBytes (hdr f)) 0 d = Some (numBytes (hdr f), d') \<and> disk_ok d'
    \<and> file_data (hdr f) d' = bs \<and> (\<forall>s. s \<notin> set (file_sectors (hdr f)) \<longrightarrow> d' s = d s)"
proof -
  have "numBytes (hdr f) \<le> 1024 * 512" using header_small [OF assms(1)] header_sizes(1) [OF assms(1)] by linarith
  moreover have "0 \<le> numBytes (hdr f)" using assms(1) by (simp add: header_ok_def)
  ultimately have "fits (0 + numBytes (hdr f))" by (simp add: fits_def)
  moreover have n: "nat (numBytes (hdr f)) = length bs" using assms(3) by simp
  ultimately show ?thesis
    using WriteAt_correct [OF assms(1,2), of 0 "numBytes (hdr f)" bs junk] assms by auto
qed

lemma file_data_cong: "(\<And>s. s \<in> set (file_sectors h) \<Longrightarrow> d' s = d s) \<Longrightarrow> file_data h d' = file_data h d"
  by (simp add: file_data_def raw_data_def cong: map_cong)

lemma words_bytes_length: "length (words_bytes ws) = length ws * 4"
  using length_blocks [of "map bytes_of_word ws" 4] by (simp add: words_bytes_def)

lemma words_round_trip: "words_of_bytes (length ws) (words_bytes ws @ rest) = ws"
proof -
  have "word_of_bytes (words_bytes ws @ rest) (4 * i) = ws ! i" if "i < length ws" for i
  proof (rule word_of_bytes_of_word)
    have "drop (i * 4) (words_bytes ws) = concat (drop i (map bytes_of_word ws))"
      unfolding words_bytes_def by (rule drop_blocks) auto
    also have "drop i (map bytes_of_word ws) = bytes_of_word (ws ! i) # drop (Suc i) (map bytes_of_word ws)"
      using that by (simp add: Cons_nth_drop_Suc [symmetric] drop_map)
    finally have "drop (i * 4) (words_bytes ws) = bytes_of_word (ws ! i) @ concat (drop (Suc i) (map bytes_of_word ws))" by simp
    moreover have "i * 4 \<le> length (words_bytes ws)" using that by (simp add: words_bytes_length)
    ultimately show "drop (4 * i) (words_bytes ws @ rest) =
        bytes_of_word (ws ! i) @ (concat (drop (Suc i) (map bytes_of_word ws)) @ rest)"
      by (simp add: mult.commute)
  qed
  then show ?thesis unfolding words_of_bytes_def by (intro nth_equalityI) simp_all
qed

section \<open>What the disk says\<close>

definition disk_dir :: "FileSystem \<Rightarrow> DirectoryEntry list" where
  "disk_dir fs = table_of_bytes NumDirEntries (file_data (hdr (directoryFile fs)) (fs_disk fs))"

definition disk_map :: "FileSystem \<Rightarrow> bitmap" where
  "disk_map fs = \<lparr>numBits = NumSectors, numWords = 32,
     map_words = words_of_bytes 32 (file_data (hdr (freeMapFile fs)) (fs_disk fs))\<rparr>"

definition header_at :: "disk \<Rightarrow> int \<Rightarrow> FileHeader" where
  "header_at d s = header_of_sector (d s)"

definition system_sectors :: "FileSystem \<Rightarrow> int list" where
  "system_sectors fs = [FreeMapSector, DirectorySector] @ file_sectors (hdr (freeMapFile fs)) @ file_sectors (hdr (directoryFile fs))"

definition entry_sectors :: "disk \<Rightarrow> DirectoryEntry \<Rightarrow> int list" where
  "entry_sectors d e = sector e # file_sectors (header_at d (sector e))"

definition used_sectors :: "FileSystem \<Rightarrow> int list" where
  "used_sectors fs = system_sectors fs @ concat (map (entry_sectors (fs_disk fs)) (live (disk_dir fs)))"

text \<open>The two files that describe the file system.\<close>

definition meta_ok :: "FileSystem \<Rightarrow> bool" where
  "meta_ok fs \<longleftrightarrow> disk_ok (fs_disk fs) \<and> header_ok (hdr (freeMapFile fs)) \<and> numBytes (hdr (freeMapFile fs)) = FreeMapFileSize
     \<and> header_ok (hdr (directoryFile fs)) \<and> numBytes (hdr (directoryFile fs)) = DirectoryFileSize
     \<and> (\<forall>e \<in> set (disk_dir fs). entry_ok e)"

definition fs_ok :: "FileSystem \<Rightarrow> bool" where
  "fs_ok fs \<longleftrightarrow> meta_ok fs \<and> (\<forall>e \<in> set (live (disk_dir fs)). header_ok (header_at (fs_disk fs) (sector e)))
     \<and> distinct (map key (live (disk_dir fs))) \<and> distinct (used_sectors fs) \<and> set (used_sectors fs) = marked (disk_map fs)"

text \<open>The abstract file system: the header of each file by its name.\<close>

definition files :: "FileSystem \<Rightarrow> byte list \<Rightarrow> FileHeader option" where
  "files fs name = map_option (header_at (fs_disk fs)) (dir_map (disk_dir fs) name)"

text \<open>What every run of the C++ program guarantees of uninitialised memory: its size.\<close>

definition uninit_ok :: "uninit \<Rightarrow> bool" where
  "uninit_ok u \<longleftrightarrow> length (raw_table u) = NumDirEntries \<and> (\<forall>e \<in> set (raw_table u). entry_ok e) \<and> length (raw_words u) = 32
     \<and> header_wf (raw_header u)"

lemmas fs_sizes = FreeMapFileSize_def DirectoryFileSize_def NumDirEntries_def entry_size_def BitsInByte_def disk_sizes

lemma table_of_bytes_length [simp]: "length (table_of_bytes n bs) = n"
  by (simp add: table_of_bytes_def)

lemma words_of_bytes_length [simp]: "length (words_of_bytes n bs) = n"
  by (simp add: words_of_bytes_def)

lemma disk_map_wf: "wf_bitmap (disk_map fs)" "numBits (disk_map fs) = NumSectors"
  by (simp_all add: disk_map_def wf_bitmap_def divRoundUp_nonneg disk_sizes)

lemma read_directory_eq:
  assumes "meta_ok fs" "uninit_ok u"
  shows "read_directory u fs = Some \<lparr>tableSize = NumDirEntries, table = disk_dir fs\<rparr>"
proof -
  let ?f = "directoryFile fs"
  have ok: "header_ok (hdr ?f)" "disk_ok (fs_disk fs)" "numBytes (hdr ?f) = 200"
    using assms(1) by (simp_all add: meta_ok_def fs_sizes)
  have "drop (length (file_data (hdr ?f) (fs_disk fs))) (table_bytes (table (Directory_new (raw_table u) NumDirEntries))) = []"
  proof -
    have "\<forall>e \<in> set (table (Directory_new (raw_table u) NumDirEntries)). entry_ok e"
      using assms(2) by (auto simp: Directory_new_def uninit_ok_def entry_ok_def)
    from table_bytes_length [OF this] show ?thesis
      using ok assms(2) by (simp add: Directory_new_def uninit_ok_def NumDirEntries_def)
  qed
  then show ?thesis
    using read_whole [OF ok(1,2)] ok(3)
    by (simp add: read_directory_def Directory_FetchFrom_def disk_dir_def Directory_new_def fs_sizes)
qed

lemma read_free_map_eq:
  assumes "meta_ok fs" "uninit_ok u"
  shows "read_free_map u fs = Some (disk_map fs)"
proof -
  let ?f = "freeMapFile fs"
  have ok: "header_ok (hdr ?f)" "disk_ok (fs_disk fs)" "numBytes (hdr ?f) = 128"
    using assms(1) by (simp_all add: meta_ok_def fs_sizes)
  have "int (length (raw_words u)) = divRoundUp NumSectors 32"
    using assms(2) by (simp add: uninit_ok_def divRoundUp_nonneg disk_sizes)
  with BitMap_correct [of NumSectors "raw_words u"] obtain b where b: "BitMap NumSectors (raw_words u) = Some b"
    "wf_bitmap b" "numBits b = NumSectors" by (auto simp: disk_sizes)
  have w: "numWords b = 32" "length (map_words b) = 32" using b(2,3) by (simp_all add: wf_bitmap_def divRoundUp_nonneg disk_sizes)
  then have "drop (length (file_data (hdr ?f) (fs_disk fs))) (words_bytes (map_words b)) = []"
    using ok by (simp add: words_bytes_length)
  moreover have "b\<lparr>map_words := ws\<rparr> = \<lparr>numBits = NumSectors, numWords = 32, map_words = ws\<rparr>" for ws
    using b(3) w(1) by (cases b) simp
  ultimately show ?thesis
    using read_whole [OF ok(1,2)] ok(3) b(1) w(1)
    by (simp add: read_free_map_def BitMap_FetchFrom_def disk_map_def)
qed

section \<open>Writing the directory and the bitmap back\<close>

lemma write_directory:
  assumes "header_ok (hdr f)" "disk_ok d" "numBytes (hdr f) = DirectoryFileSize" "length t = NumDirEntries" "\<forall>e \<in> set t. entry_ok e"
  shows "\<exists>d'. Directory_WriteBack junk \<lparr>tableSize = NumDirEntries, table = t\<rparr> f d = Some d' \<and> disk_ok d'
    \<and> table_of_bytes NumDirEntries (file_data (hdr f) d') = t \<and> (\<forall>s. s \<notin> set (file_sectors (hdr f)) \<longrightarrow> d' s = d s)"
proof -
  have l: "int (length (table_bytes t)) = numBytes (hdr f)"
    using table_bytes_length [OF assms(5)] assms(3,4) by (simp add: fs_sizes)
  have "table_of_bytes NumDirEntries (table_bytes t) = t"
    using table_round_trip [OF assms(5), of "[]"] assms(4) by simp
  moreover have "int (NumDirEntries * entry_size) = numBytes (hdr f)" using assms(3) by (simp add: fs_sizes)
  ultimately show ?thesis
    using write_whole [OF assms(1,2) l, of junk] by (auto simp: Directory_WriteBack_def)
qed

definition map_of_file :: "FileHeader \<Rightarrow> disk \<Rightarrow> bitmap" where
  "map_of_file h d = \<lparr>numBits = NumSectors, numWords = 32, map_words = words_of_bytes 32 (file_data h d)\<rparr>"

lemma write_free_map:
  assumes "header_ok (hdr f)" "disk_ok d" "numBytes (hdr f) = FreeMapFileSize" "wf_bitmap b" "numBits b = NumSectors"
  shows "\<exists>d'. BitMap_WriteBack junk b f d = Some d' \<and> disk_ok d'
    \<and> map_of_file (hdr f) d' = b \<and> (\<forall>s. s \<notin> set (file_sectors (hdr f)) \<longrightarrow> d' s = d s)"
proof -
  have w: "numWords b = 32" "length (map_words b) = 32"
    using assms(4,5) by (simp_all add: wf_bitmap_def divRoundUp_nonneg disk_sizes)
  then have l: "int (length (words_bytes (map_words b))) = numBytes (hdr f)"
    using assms(3) by (simp add: words_bytes_length fs_sizes)
  have "map_of_file (hdr f) d' = b" if "file_data (hdr f) d' = words_bytes (map_words b)" for d'
    using words_round_trip [of "map_words b" "[]"] that w assms(5) by (cases b) (simp add: map_of_file_def)
  moreover have "numWords b * 4 = numBytes (hdr f)" using assms(3) w by (simp add: fs_sizes)
  ultimately show ?thesis
    using write_whole [OF assms(1,2) l, of junk] by (auto simp: BitMap_WriteBack_def)
qed

text \<open>Both files written back, in either order, from any disk.\<close>

abbreviation dir_file :: "FileSystem \<Rightarrow> FileHeader" where "dir_file fs \<equiv> hdr (directoryFile fs)"
abbreviation map_file :: "FileSystem \<Rightarrow> FileHeader" where "map_file fs \<equiv> hdr (freeMapFile fs)"

definition meta_written :: "FileSystem \<Rightarrow> DirectoryEntry list \<Rightarrow> bitmap \<Rightarrow> disk \<Rightarrow> disk \<Rightarrow> bool" where
  "meta_written fs t b d d' \<longleftrightarrow> disk_ok d' \<and> table_of_bytes NumDirEntries (file_data (dir_file fs) d') = t
     \<and> map_of_file (map_file fs) d' = b
     \<and> (\<forall>s. s \<notin> set (file_sectors (dir_file fs)) \<union> set (file_sectors (map_file fs)) \<longrightarrow> d' s = d s)"

lemma write_meta:
  assumes "header_ok (dir_file fs)" "numBytes (dir_file fs) = DirectoryFileSize" "header_ok (map_file fs)"
    "numBytes (map_file fs) = FreeMapFileSize" "set (file_sectors (dir_file fs)) \<inter> set (file_sectors (map_file fs)) = {}"
    "disk_ok d" "length t = NumDirEntries" "\<forall>e \<in> set t. entry_ok e" "wf_bitmap b" "numBits b = NumSectors"
  shows "\<exists>d1 d'. Directory_WriteBack j0 \<lparr>tableSize = NumDirEntries, table = t\<rparr> (directoryFile fs) d = Some d1
      \<and> BitMap_WriteBack j1 b (freeMapFile fs) d1 = Some d' \<and> meta_written fs t b d d'"
    "\<exists>d1 d'. BitMap_WriteBack j0 b (freeMapFile fs) d = Some d1
      \<and> Directory_WriteBack j1 \<lparr>tableSize = NumDirEntries, table = t\<rparr> (directoryFile fs) d1 = Some d' \<and> meta_written fs t b d d'"
proof -
  obtain d1 where d1: "Directory_WriteBack j0 \<lparr>tableSize = NumDirEntries, table = t\<rparr> (directoryFile fs) d = Some d1" "disk_ok d1"
    "table_of_bytes NumDirEntries (file_data (dir_file fs) d1) = t" "\<forall>s. s \<notin> set (file_sectors (dir_file fs)) \<longrightarrow> d1 s = d s"
    using write_directory [OF assms(1,6,2,7,8)] by blast
  obtain d2 where d2: "BitMap_WriteBack j1 b (freeMapFile fs) d1 = Some d2" "disk_ok d2" "map_of_file (map_file fs) d2 = b"
    "\<forall>s. s \<notin> set (file_sectors (map_file fs)) \<longrightarrow> d2 s = d1 s"
    using write_free_map [OF assms(3) d1(2) assms(4,9,10)] by blast
  have "file_data (dir_file fs) d2 = file_data (dir_file fs) d1" using d2(4) assms(5) by (intro file_data_cong) blast
  with d1 d2 show "\<exists>d1 d'. Directory_WriteBack j0 \<lparr>tableSize = NumDirEntries, table = t\<rparr> (directoryFile fs) d = Some d1
      \<and> BitMap_WriteBack j1 b (freeMapFile fs) d1 = Some d' \<and> meta_written fs t b d d'"
    by (auto simp: meta_written_def)
next
  obtain d1 where d1: "BitMap_WriteBack j0 b (freeMapFile fs) d = Some d1" "disk_ok d1" "map_of_file (map_file fs) d1 = b"
    "\<forall>s. s \<notin> set (file_sectors (map_file fs)) \<longrightarrow> d1 s = d s"
    using write_free_map [OF assms(3,6,4,9,10)] by blast
  obtain d2 where d2: "Directory_WriteBack j1 \<lparr>tableSize = NumDirEntries, table = t\<rparr> (directoryFile fs) d1 = Some d2" "disk_ok d2"
    "table_of_bytes NumDirEntries (file_data (dir_file fs) d2) = t" "\<forall>s. s \<notin> set (file_sectors (dir_file fs)) \<longrightarrow> d2 s = d1 s"
    using write_directory [OF assms(1) d1(2) assms(2,7,8)] by blast
  have "file_data (map_file fs) d2 = file_data (map_file fs) d1" using d2(4) assms(5) by (intro file_data_cong) blast
  with d1 d2 show "\<exists>d1 d'. BitMap_WriteBack j0 b (freeMapFile fs) d = Some d1
      \<and> Directory_WriteBack j1 \<lparr>tableSize = NumDirEntries, table = t\<rparr> (directoryFile fs) d1 = Some d' \<and> meta_written fs t b d d'"
    by (auto simp: meta_written_def map_of_file_def)
qed

section \<open>The invariant after a change of the directory\<close>

lemma fs_ok_meta: "fs_ok fs \<Longrightarrow> meta_ok fs"
  by (simp add: fs_ok_def)

lemma used_range: "fs_ok fs \<Longrightarrow> set (used_sectors fs) \<subseteq> {0..<NumSectors}"
  using marked_subset [of "disk_map fs"] disk_map_wf(2) by (simp add: fs_ok_def)

lemma meta_disjoint: "fs_ok fs \<Longrightarrow> set (file_sectors (dir_file fs)) \<inter> set (file_sectors (map_file fs)) = {}"
  by (auto simp: fs_ok_def used_sectors_def system_sectors_def)

lemma entry_used: "e \<in> set (live (disk_dir fs)) \<Longrightarrow> set (entry_sectors (fs_disk fs) e) \<subseteq> set (used_sectors fs)"
  by (auto simp: used_sectors_def)

lemma entry_not_system:
  assumes "fs_ok fs" "e \<in> set (live (disk_dir fs))"
  shows "set (entry_sectors (fs_disk fs) e) \<inter> set (system_sectors fs) = {}"
  using assms by (auto simp: fs_ok_def used_sectors_def)

text \<open>
  If the new disk holds the table \<open>t\<close> and the bitmap \<open>b\<close>, and agrees with the old one on the sectors of the
  entries that stay, then the invariant holds when the new entries satisfy it.
\<close>

lemma fs_ok_after:
  assumes "meta_ok fs" "length t = NumDirEntries" "meta_written fs t b d d'" "\<forall>e \<in> set t. entry_ok e"
    "\<forall>e \<in> set (live t). header_ok (header_at d' (sector e))" "distinct (map key (live t))"
    "distinct (system_sectors fs @ concat (map (entry_sectors d') (live t)))"
    "set (system_sectors fs @ concat (map (entry_sectors d') (live t))) = marked b"
  shows "fs_ok (fs\<lparr>fs_disk := d'\<rparr>)" "disk_dir (fs\<lparr>fs_disk := d'\<rparr>) = t" "disk_map (fs\<lparr>fs_disk := d'\<rparr>) = b"
proof -
  show t: "disk_dir (fs\<lparr>fs_disk := d'\<rparr>) = t" using assms(3) by (simp add: disk_dir_def meta_written_def)
  show b: "disk_map (fs\<lparr>fs_disk := d'\<rparr>) = b" using assms(3) by (simp add: disk_map_def meta_written_def map_of_file_def)
  have "meta_ok (fs\<lparr>fs_disk := d'\<rparr>)" using assms(1,3,4) t by (simp add: meta_ok_def meta_written_def)
  moreover have "used_sectors (fs\<lparr>fs_disk := d'\<rparr>) = system_sectors fs @ concat (map (entry_sectors d') (live t))"
    by (simp add: used_sectors_def t system_sectors_def)
  ultimately show "fs_ok (fs\<lparr>fs_disk := d'\<rparr>)" using assms(5-8) by (simp add: fs_ok_def t b)
qed

lemma dir_map_insert:
  assumes "live t = xs @ ys" "live t' = xs @ e # ys" "key e \<notin> key ` set (live t)"
  shows "dir_map t' = (dir_map t)(key e \<mapsto> sector e)"
proof -
  have "map_of (map (\<lambda>e. (key e, sector e)) ys) (key e) = None" using assms(1,3) by (auto simp: map_of_eq_None_iff)
  moreover have "map_of (map (\<lambda>e. (key e, sector e)) xs) (key e) = None" using assms(1,3) by (auto simp: map_of_eq_None_iff)
  ultimately show ?thesis unfolding dir_map_def assms(1,2)
    by (intro ext) (auto simp: map_add_def split: option.splits)
qed

lemma dir_map_sector: "dir_map t name = Some s \<Longrightarrow> \<exists>e \<in> set (live t). sector e = s \<and> key e = name"
  unfolding dir_map_def by (drule map_of_SomeD) auto

section \<open>Creating a file\<close>

text \<open>When there is room for a file: its name is new, the directory has a free entry, and there are enough free sectors
  for its header and its data.\<close>

definition room :: "FileSystem \<Rightarrow> byte list \<Rightarrow> int \<Rightarrow> bool" where
  "room fs name n \<longleftrightarrow> files fs (cstr FileNameMaxLen name) = None \<and> length (live (disk_dir fs)) < NumDirEntries
     \<and> int (length (used_sectors fs)) + 1 + divRoundUp n (int SectorSize) \<le> NumSectors"

lemma card_free:
  assumes "wf_bitmap b" "numBits b = NumSectors"
  shows "int (card ({0..<numBits b} - marked b)) = NumSectors - int (card (marked b))"
proof -
  have "card ({0..<numBits b} - marked b) = card {0..<numBits b} - card (marked b)"
    using marked_subset by (intro card_Diff_subset) auto
  moreover have "card (marked b) \<le> card {0..<numBits b}" using marked_subset by (intro card_mono) auto
  ultimately show ?thesis using assms(2) by (simp add: disk_sizes)
qed

lemma card_used: "fs_ok fs \<Longrightarrow> card (marked (disk_map fs)) = length (used_sectors fs)"
  unfolding fs_ok_def by (metis distinct_card)

lemma length_live: "length (live t) \<le> length t" by (simp add: live_def)

lemma Add_full: "length (live (table dir)) = length (table dir) \<Longrightarrow> \<not> fst (Add dir name s)"
proof -
  assume "length (live (table dir)) = length (table dir)"
  then have "\<forall>e \<in> set (table dir). inUse e" unfolding live_def by (metis filter_id_conv length_filter_less less_irrefl)
  then show ?thesis by (simp add: Add_def first_index_None Let_def)
qed

lemma Add_possible:
  assumes "length (live (table dir)) < length (table dir)" "FindIndex dir name = -1"
  shows "fst (Add dir name s)"
proof -
  have "\<not> (\<forall>e \<in> set (table dir). inUse e)"
  proof
    assume "\<forall>e \<in> set (table dir). inUse e"
    then have "live (table dir) = table dir" by (simp add: live_def)
    with assms(1) show False by simp
  qed
  then show ?thesis using assms(2) by (simp add: Add_def first_index_None Let_def)
qed

lemma header_wf_allocated:
  assumes "header_ok h" "header_wf h0" "dataSectors h = file_sectors h @ drop (nat (numSectors h)) (dataSectors h0)"
    "length (file_sectors h) \<le> NumDirect"
  shows "header_wf h"
proof -
  have n: "0 \<le> numBytes h" "length (file_sectors h) = nat (numSectors h)" "0 \<le> numSectors h"
    using assms(1) file_sectors_length [OF assms(1)] by (auto simp: header_ok_def divRoundUp_ge_0 SectorSize_def)
  have "fits n" if "n \<in> set (file_sectors h)" for n using that assms(1) by (auto simp: header_ok_def fits_def disk_sizes)
  moreover have "fits n" if "n \<in> set (drop (nat (numSectors h)) (dataSectors h0))" for n
    using that assms(2) by (auto simp: header_wf_def dest: in_set_dropD)
  moreover have "fits (numBytes h)" "fits (numSectors h)"
    using n header_sizes(1) [OF assms(1)] header_small [OF assms(1)] by (auto simp: fits_def)
  moreover have "length (dataSectors h) = NumDirect"
    using assms(2,4) n(2) unfolding assms(3) by (simp add: header_wf_def)
  ultimately show ?thesis unfolding header_wf_def by (subst (2) assms(3)) auto
qed

lemma Header_WriteBack_eq:
  assumes "header_wf h" "0 \<le> k" "k < NumSectors"
  shows "Header_WriteBack h k d = Some (d(k := header_bytes h))"
  using assms header_bytes_length [OF assms(1)] by (simp add: Header_WriteBack_def WriteSector_def)

text \<open>
  The disk \<open>d'\<close> after a header \<open>h\<close> was stored in the free sector \<open>k\<close> and the directory and the bitmap were written: the
  entries that were in use are as before.
\<close>

lemma old_entries_kept:
  assumes "fs_ok fs" "k \<notin> set (used_sectors fs)" "meta_written fs t b ((fs_disk fs)(k := x)) d'" "e \<in> set (live (disk_dir fs))"
  shows "header_at d' (sector e) = header_at (fs_disk fs) (sector e)" "entry_sectors d' e = entry_sectors (fs_disk fs) e"
    "file_data (header_at (fs_disk fs) (sector e)) d' = file_data (header_at (fs_disk fs) (sector e)) (fs_disk fs)"
proof -
  have agree: "d' s = fs_disk fs s" if "s \<in> set (entry_sectors (fs_disk fs) e)" for s
  proof -
    have "s \<notin> set (file_sectors (dir_file fs)) \<union> set (file_sectors (map_file fs))"
      using entry_not_system [OF assms(1,4)] that by (auto simp: system_sectors_def)
    moreover have "s \<noteq> k" using entry_used [OF assms(4)] that assms(2) by auto
    ultimately show ?thesis using assms(3) by (simp add: meta_written_def)
  qed
  then show h: "header_at d' (sector e) = header_at (fs_disk fs) (sector e)"
    by (simp add: header_at_def entry_sectors_def)
  then show "entry_sectors d' e = entry_sectors (fs_disk fs) e" by (simp add: entry_sectors_def)
  show "file_data (header_at (fs_disk fs) (sector e)) d' = file_data (header_at (fs_disk fs) (sector e)) (fs_disk fs)"
    using agree by (intro file_data_cong) (simp add: entry_sectors_def)
qed

lemma Create_success:
  assumes "fs_ok fs" "k \<notin> set (used_sectors fs)" "0 \<le> k" "k < NumSectors" "header_ok h" "header_wf h"
    "set (file_sectors h) \<inter> insert k (set (used_sectors fs)) = {}"
    "wf_bitmap b" "numBits b = NumSectors" "marked b = insert k (set (used_sectors fs)) \<union> set (file_sectors h)"
    "Add \<lparr>tableSize = NumDirEntries, table = disk_dir fs\<rparr> name k = (True, dir')"
  shows "\<exists>d1 d2 d'. Header_WriteBack h k (fs_disk fs) = Some d1 \<and> Directory_WriteBack j0 dir' (directoryFile fs) d1 = Some d2
    \<and> BitMap_WriteBack j1 b (freeMapFile fs) d2 = Some d' \<and> fs_ok (fs\<lparr>fs_disk := d'\<rparr>)
    \<and> files (fs\<lparr>fs_disk := d'\<rparr>) = (files fs)(cstr FileNameMaxLen name \<mapsto> h)
    \<and> (\<forall>nm h'. files fs nm = Some h' \<longrightarrow> file_data h' d' = file_data h' (fs_disk fs))
    \<and> length (used_sectors (fs\<lparr>fs_disk := d'\<rparr>)) = length (used_sectors fs) + 1 + length (file_sectors h)
    \<and> length (live (disk_dir (fs\<lparr>fs_disk := d'\<rparr>))) = length (live (disk_dir fs)) + 1"
proof -
  let ?d = "fs_disk fs" and ?d1 = "(fs_disk fs)(k := header_bytes h)"
  note m = fs_ok_meta [OF assms(1)]
  obtain xs e ys where a: "live (disk_dir fs) = xs @ ys" "live (table dir') = xs @ e # ys" "key e = cstr FileNameMaxLen name"
    "sector e = k" "cstr FileNameMaxLen name \<notin> key ` set (live (disk_dir fs))" "tableSize dir' = NumDirEntries"
    "length (table dir') = NumDirEntries" "\<forall>e \<in> set (table dir'). entry_ok e"
    using Add_live [OF assms(11)] assms(3,4) m
    by (simp add: disk_dir_def meta_ok_def fits_def disk_sizes) metis
  have dir': "dir' = \<lparr>tableSize = NumDirEntries, table = table dir'\<rparr>" using a(6) by (cases dir') simp
  have ok1: "disk_ok ?d1" using m header_bytes_length [OF assms(6)] by (simp add: meta_ok_def disk_ok_def)
  obtain d2 d' where w: "Directory_WriteBack j0 dir' (directoryFile fs) ?d1 = Some d2"
    "BitMap_WriteBack j1 b (freeMapFile fs) d2 = Some d'" "meta_written fs (table dir') b ?d1 d'"
    using write_meta(1) [OF _ _ _ _ meta_disjoint [OF assms(1)] ok1 a(7,8) assms(8,9), of j0 j1] m dir'
    by (auto simp: meta_ok_def)
  note old = old_entries_kept [OF assms(1,2) w(3)]
  have "k \<notin> set (file_sectors (dir_file fs)) \<union> set (file_sectors (map_file fs))"
    using assms(2) by (auto simp: used_sectors_def system_sectors_def)
  then have hk: "header_at d' k = h" using w(3) header_round_trip [OF assms(6)] by (simp add: meta_written_def header_at_def)
  have es: "map (entry_sectors d') (live (table dir')) = map (entry_sectors ?d) xs @ (k # file_sectors h) # map (entry_sectors ?d) ys"
    using old(2) a(1,2,4) hk by (auto simp: entry_sectors_def)
  have u: "used_sectors fs = system_sectors fs @ concat (map (entry_sectors ?d) xs) @ concat (map (entry_sectors ?d) ys)"
    by (simp add: used_sectors_def a(1))
  have hs: "\<forall>e \<in> set (live (table dir')). header_ok (header_at d' (sector e))"
    using old(1) hk a(1,2,4) assms(1,5) by (auto simp: fs_ok_def)
  have ks: "distinct (map key (live (table dir')))" using a assms(1) by (auto simp: fs_ok_def)
  have "distinct (used_sectors fs)" "distinct (file_sectors h)" using assms(1,5) by (auto simp: fs_ok_def header_ok_def)
  then have ds: "distinct (system_sectors fs @ concat (map (entry_sectors d') (live (table dir'))))"
    unfolding es using assms(2,7) unfolding u by auto
  have ms: "set (system_sectors fs @ concat (map (entry_sectors d') (live (table dir')))) = marked b"
    unfolding es assms(10) u by auto
  have "fs_ok (fs\<lparr>fs_disk := d'\<rparr>) \<and> disk_dir (fs\<lparr>fs_disk := d'\<rparr>) = table dir'"
    using fs_ok_after(1,2) [OF m a(7) w(3) a(8) hs ks ds ms] by blast
  moreover have "files (fs\<lparr>fs_disk := d'\<rparr>) = (files fs)(cstr FileNameMaxLen name \<mapsto> h)"
  proof
    fix nm
    have dm: "dir_map (table dir') = (dir_map (disk_dir fs))(key e \<mapsto> k)"
      using dir_map_insert [OF a(1,2)] a(3-5) by simp
    have "header_at d' s = header_at ?d s" if "dir_map (disk_dir fs) nm = Some s" for s
      using dir_map_sector [OF that] old(1) by auto
    then show "files (fs\<lparr>fs_disk := d'\<rparr>) nm = ((files fs)(cstr FileNameMaxLen name \<mapsto> h)) nm"
      using calculation dm hk a(3) by (cases "dir_map (disk_dir fs) nm") (auto simp: files_def)
  qed
  moreover have "file_data h' d' = file_data h' ?d" if "files fs nm = Some h'" for nm h'
    using that old(3) by (auto simp: files_def dest!: dir_map_sector)
  moreover have "used_sectors (fs\<lparr>fs_disk := d'\<rparr>) = system_sectors fs @ concat (map (entry_sectors d') (live (table dir')))"
    using calculation(1) by (simp add: used_sectors_def system_sectors_def)
  then have "length (used_sectors (fs\<lparr>fs_disk := d'\<rparr>)) = length (used_sectors fs) + 1 + length (file_sectors h)"
    unfolding es u by simp
  moreover have "length (live (disk_dir (fs\<lparr>fs_disk := d'\<rparr>))) = length (live (disk_dir fs)) + 1"
    using calculation(1) by (simp add: a(1,2))
  ultimately show ?thesis
    using w(1,2) Header_WriteBack_eq [OF assms(6,3,4)] by auto
qed

lemma find_name:
  assumes "fs_ok fs"
  shows "Directory_Find \<lparr>tableSize = NumDirEntries, table = disk_dir fs\<rparr> name = -1 \<longleftrightarrow> files fs (cstr FileNameMaxLen name) = None"
    "Directory_Find \<lparr>tableSize = NumDirEntries, table = disk_dir fs\<rparr> name = s \<Longrightarrow> s \<noteq> -1 \<Longrightarrow>
      0 \<le> s \<and> s < NumSectors \<and> dir_map (disk_dir fs) (cstr FileNameMaxLen name) = Some s"
proof -
  have r: "0 \<le> s \<and> s < NumSectors" if s: "dir_map (disk_dir fs) nm = Some s" for nm s
  proof -
    obtain e where e: "e \<in> set (live (disk_dir fs))" "sector e = s" using dir_map_sector [OF s] by blast
    then have "s \<in> set (used_sectors fs)" using entry_used [OF e(1)] by (simp add: entry_sectors_def)
    then show ?thesis using used_range [OF assms] by auto
  qed
  show "Directory_Find \<lparr>tableSize = NumDirEntries, table = disk_dir fs\<rparr> name = -1 \<longleftrightarrow> files fs (cstr FileNameMaxLen name) = None"
    using r [of "cstr FileNameMaxLen name"] unfolding Directory_Find_map files_def by (auto split: option.splits)
  show "0 \<le> s \<and> s < NumSectors \<and> dir_map (disk_dir fs) (cstr FileNameMaxLen name) = Some s"
    if "Directory_Find \<lparr>tableSize = NumDirEntries, table = disk_dir fs\<rparr> name = s" "s \<noteq> -1"
    using that r [of "cstr FileNameMaxLen name"] unfolding Directory_Find_map by (auto split: option.splits)
qed

lemma Create_refused:
  assumes "fs_ok fs" "uninit_ok u" "0 \<le> n" "\<not> room fs name n"
  shows "Create u name n fs = Some (False, fs)"
proof (cases "files fs (cstr FileNameMaxLen name) = None")
  case False
  then show ?thesis
    using read_directory_eq [OF fs_ok_meta [OF assms(1)] assms(2)] find_name(1) [OF assms(1)] by (simp add: Create_def)
next
  case True
  let ?dir = "\<lparr>tableSize = NumDirEntries, table = disk_dir fs\<rparr>"
  note rd = read_directory_eq [OF fs_ok_meta [OF assms(1)] assms(2)] read_free_map_eq [OF fs_ok_meta [OF assms(1)] assms(2)]
  note wf = disk_map_wf [of fs]
  have dir: "Directory_Find ?dir name = -1" using find_name(1) [OF assms(1)] True by simp
  consider (free) k b1 where "Find (disk_map fs) = Some (k, b1)" "in_range (disk_map fs) k" "k \<notin> marked (disk_map fs)"
      "Mark (disk_map fs) k = Some b1"
    | (full) "Find (disk_map fs) = Some (-1, disk_map fs)"
    using Find_cases [OF wf(1)] by metis
  then show ?thesis
  proof cases
    case full
    with rd dir show ?thesis by (simp add: Create_def)
  next
    case (free k b1)
    note mk = Mark_Some [OF wf(1) free(2,4)]
    have k: "k \<noteq> -1" using free(2) by (auto simp: in_range_def)
    show ?thesis
    proof (cases "fst (Add ?dir name k)")
      case False
      with rd dir free(1) k show ?thesis by (auto simp: Create_def Let_def split: prod.splits)
    next
      case added: True
      then have "length (live (disk_dir fs)) \<noteq> NumDirEntries" using Add_full [of ?dir name k] by (auto simp: disk_dir_def)
      then have "length (live (disk_dir fs)) < NumDirEntries" using length_live [of "disk_dir fs"] by (simp add: disk_dir_def)
      with assms(4) True have "NumSectors < int (length (used_sectors fs)) + 1 + divRoundUp n (int SectorSize)"
        by (simp add: room_def)
      moreover have "card (marked b1) = Suc (length (used_sectors fs))" using mk(3) free(3) card_used [OF assms(1)] by simp
      ultimately have "int (card ({0..<numBits b1} - marked b1)) < divRoundUp n (int SectorSize)"
        using card_free [OF mk(1)] mk(2) wf(2) by simp
      from Allocate_no_space [OF mk(1) this, of "raw_header u"] rd dir free(1) k added show ?thesis
        by (auto simp: Create_def Let_def split: prod.splits)
    qed
  qed
qed

text \<open>The last part of \<open>Create\<close>, after the allocation.\<close>

definition write_new_file :: "uninit \<Rightarrow> FileSystem \<Rightarrow> int \<Rightarrow> Directory \<Rightarrow> bool \<times> FileHeader \<times> bitmap \<Rightarrow> (bool \<times> FileSystem) option" where
  "write_new_file u fs k dir = (\<lambda>(success, h, freeMap).
     if \<not> success then Some (False, fs)
     else do {
       d \<leftarrow> Header_WriteBack h k (fs_disk fs);
       d \<leftarrow> Directory_WriteBack (raw_bytes u 0) dir (directoryFile fs) d;
       d \<leftarrow> BitMap_WriteBack (raw_bytes u 1) freeMap (freeMapFile fs) d;
       Some (True, fs\<lparr>fs_disk := d\<rparr>) })"

text \<open>With room for the file, \<open>Create\<close> gets as far as the allocation of the data sectors, for which there are enough.\<close>

lemma Create_allocates:
  assumes "fs_ok fs" "uninit_ok u" "0 \<le> n" "room fs name n"
  obtains k b1 dir' where "in_range (disk_map fs) k" "k \<notin> marked (disk_map fs)" "Mark (disk_map fs) k = Some b1"
    "Add \<lparr>tableSize = NumDirEntries, table = disk_dir fs\<rparr> name k = (True, dir')" "divRoundUp n (int SectorSize) \<le> int (card ({0..<numBits b1} - marked b1))"
    "Create u name n fs = Option.bind (Allocate (raw_header u) b1 n) (write_new_file u fs k dir')"
proof -
  let ?dir = "\<lparr>tableSize = NumDirEntries, table = disk_dir fs\<rparr>" and ?n = "divRoundUp n (int SectorSize)"
  note rd = read_directory_eq [OF fs_ok_meta [OF assms(1)] assms(2)] read_free_map_eq [OF fs_ok_meta [OF assms(1)] assms(2)]
  note wf = disk_map_wf [of fs]
  have dir: "Directory_Find ?dir name = -1" using find_name(1) [OF assms(1)] assms(4) by (simp add: room_def)
  have n: "0 \<le> ?n" using divRoundUp_ge_0 [of n "int SectorSize"] assms(3) by (simp add: SectorSize_def)
  have "int (card (marked (disk_map fs))) < NumSectors" using assms(4) n card_used [OF assms(1)] by (simp add: room_def)
  then have "marked (disk_map fs) \<noteq> {0..<numBits (disk_map fs)}" using wf(2) by (auto simp: disk_sizes)
  then obtain k b1 where k: "Find (disk_map fs) = Some (k, b1)" "in_range (disk_map fs) k" "k \<notin> marked (disk_map fs)"
    "Mark (disk_map fs) k = Some b1" by (cases rule: Find_cases [OF wf(1)]) auto
  note mk = Mark_Some [OF wf(1) k(2,4)]
  have kr: "0 \<le> k" using k(2) by (simp add: in_range_def)
  have "FindIndex ?dir name = -1"
    using assms(4) unfolding FindIndex_None room_def files_def dir_map_def by (auto simp: map_of_eq_None_iff image_iff)
  then have "fst (Add ?dir name k)" using assms(4) by (intro Add_possible) (simp_all add: room_def disk_dir_def)
  then obtain dir' where add: "Add ?dir name k = (True, dir')" by (metis (full_types) prod.collapse)
  have "card (marked b1) = Suc (length (used_sectors fs))" using mk(3) k(3) card_used [OF assms(1)] by simp
  then have "?n \<le> int (card ({0..<numBits b1} - marked b1))"
    using card_free [OF mk(1)] mk(2) wf(2) assms(4) by (simp add: room_def)
  moreover have "Create u name n fs = Option.bind (Allocate (raw_header u) b1 n) (write_new_file u fs k dir')"
    using rd dir k(1) kr add by (simp add: Create_def write_new_file_def)
  ultimately show thesis using that [OF k(2-4) add] by blast
qed

text \<open>A file of more than \<open>MaxFileSize\<close> bytes for which there is room on the disk: its sector numbers are written past the end of the header.\<close>

lemma Create_too_big:
  assumes "fs_ok fs" "uninit_ok u" "int MaxFileSize < n" "room fs name n"
  shows "Create u name n fs = None"
proof -
  have n: "0 \<le> n" using assms(3) by simp
  obtain k b1 dir' where c: "in_range (disk_map fs) k" "Mark (disk_map fs) k = Some b1"
    "divRoundUp n (int SectorSize) \<le> int (card ({0..<numBits b1} - marked b1))"
    "Create u name n fs = Option.bind (Allocate (raw_header u) b1 n) (write_new_file u fs k dir')"
    by (rule Create_allocates [OF assms(1,2) n assms(4)])
  have "int NumDirect < divRoundUp n (int SectorSize)"
    using divRoundUp_bounds [of n "int SectorSize"] assms(3) n by (simp add: MaxFileSize_def NumDirect_def SectorSize_def)
  moreover have "length (dataSectors (raw_header u)) = NumDirect" using assms(2) by (simp add: uninit_ok_def header_wf_def)
  ultimately show ?thesis using c(3,4) Allocate_too_big [OF Mark_Some(1) [OF disk_map_wf(1) c(1,2)] _ n] by simp
qed

lemma Create_accepted:
  assumes "fs_ok fs" "uninit_ok u" "0 \<le> n" "n \<le> int MaxFileSize" "room fs name n"
  shows "\<exists>d' h. Create u name n fs = Some (True, fs\<lparr>fs_disk := d'\<rparr>) \<and> fs_ok (fs\<lparr>fs_disk := d'\<rparr>) \<and> numBytes h = n
    \<and> files (fs\<lparr>fs_disk := d'\<rparr>) = (files fs)(cstr FileNameMaxLen name \<mapsto> h)
    \<and> (\<forall>nm h'. files fs nm = Some h' \<longrightarrow> file_data h' d' = file_data h' (fs_disk fs))
    \<and> length (used_sectors (fs\<lparr>fs_disk := d'\<rparr>)) = length (used_sectors fs) + 1 + nat (divRoundUp n (int SectorSize))
    \<and> length (live (disk_dir (fs\<lparr>fs_disk := d'\<rparr>))) = length (live (disk_dir fs)) + 1"
proof -
  let ?n = "divRoundUp n (int SectorSize)"
  note wf = disk_map_wf [of fs]
  have used: "set (used_sectors fs) = marked (disk_map fs)" using assms(1) by (simp add: fs_ok_def)
  have n: "0 \<le> ?n" "?n \<le> int NumDirect"
    using divRoundUp_bounds [of n "int SectorSize"] divRoundUp_ge_0 [of n "int SectorSize"] assms(3,4)
    by (auto simp: MaxFileSize_def NumDirect_def SectorSize_def)
  obtain k b1 dir' where k: "in_range (disk_map fs) k" "k \<notin> marked (disk_map fs)" "Mark (disk_map fs) k = Some b1"
    and add: "Add \<lparr>tableSize = NumDirEntries, table = disk_dir fs\<rparr> name k = (True, dir')"
    and space: "?n \<le> int (card ({0..<numBits b1} - marked b1))"
    and cr: "Create u name n fs = Option.bind (Allocate (raw_header u) b1 n) (write_new_file u fs k dir')"
    by (rule Create_allocates [OF assms(1-3,5)])
  note mk = Mark_Some [OF wf(1) k(1,3)]
  have kr: "0 \<le> k" "k < NumSectors" using k(1) wf(2) by (simp_all add: in_range_def)
  note space
  moreover have "nat ?n \<le> length (dataSectors (raw_header u))" using n assms(2) by (simp add: uninit_ok_def header_wf_def)
  ultimately obtain h b where al: "Allocate (raw_header u) b1 n = Some (True, h, b)" "header_ok h" "numBytes h = n"
    "set (file_sectors h) \<inter> marked b1 = {}" "wf_bitmap b" "numBits b = numBits b1" "marked b = marked b1 \<union> set (file_sectors h)"
    "dataSectors h = file_sectors h @ drop (nat (numSectors h)) (dataSectors (raw_header u))"
    using Allocate_ok [OF mk(1) _ assms(3), of "raw_header u"] mk(2) wf(2) by auto
  have ls: "length (file_sectors h) = nat ?n" using file_sectors_length [OF al(2)] al(2,3) by (auto simp: header_ok_def)
  then have hw: "header_wf h" using header_wf_allocated [OF al(2) _ al(8)] assms(2) n by (simp add: uninit_ok_def)
  have sets: "k \<notin> set (used_sectors fs)" "set (file_sectors h) \<inter> insert k (set (used_sectors fs)) = {}"
    "marked b = insert k (set (used_sectors fs)) \<union> set (file_sectors h)" "numBits b = NumSectors"
    using k(2) al(4,6,7) mk(2,3) wf(2) used by auto
  obtain d1 d2 d' where "Header_WriteBack h k (fs_disk fs) = Some d1" "Directory_WriteBack (raw_bytes u 0) dir' (directoryFile fs) d1 = Some d2"
    "BitMap_WriteBack (raw_bytes u 1) b (freeMapFile fs) d2 = Some d'" "fs_ok (fs\<lparr>fs_disk := d'\<rparr>)"
    "files (fs\<lparr>fs_disk := d'\<rparr>) = (files fs)(cstr FileNameMaxLen name \<mapsto> h)"
    "\<forall>nm h'. files fs nm = Some h' \<longrightarrow> file_data h' d' = file_data h' (fs_disk fs)"
    "length (used_sectors (fs\<lparr>fs_disk := d'\<rparr>)) = length (used_sectors fs) + 1 + nat ?n"
    "length (live (disk_dir (fs\<lparr>fs_disk := d'\<rparr>))) = length (live (disk_dir fs)) + 1"
    using Create_success [OF assms(1) sets(1) kr al(2) hw sets(2) al(5) sets(4,3) add] unfolding ls [symmetric] by blast
  then show ?thesis using al(1,3) by (intro exI [of _ d'] exI [of _ h]) (auto simp: cr write_new_file_def)
qed

section \<open>Removing a file\<close>

lemma old_entries_kept_meta:
  assumes "fs_ok fs" "meta_written fs t b (fs_disk fs) d'" "e \<in> set (live (disk_dir fs))"
  shows "header_at d' (sector e) = header_at (fs_disk fs) (sector e)" "entry_sectors d' e = entry_sectors (fs_disk fs) e"
    "file_data (header_at (fs_disk fs) (sector e)) d' = file_data (header_at (fs_disk fs) (sector e)) (fs_disk fs)"
proof -
  have "-1 \<notin> set (used_sectors fs)" using used_range [OF assms(1)] by auto
  note old = old_entries_kept [OF assms(1) this _ assms(3), of t b "fs_disk fs (-1)" d']
  show "header_at d' (sector e) = header_at (fs_disk fs) (sector e)" "entry_sectors d' e = entry_sectors (fs_disk fs) e"
    "file_data (header_at (fs_disk fs) (sector e)) d' = file_data (header_at (fs_disk fs) (sector e)) (fs_disk fs)"
    using old assms(2) by simp_all
qed

lemma dir_map_delete:
  assumes "live t = xs @ e # ys" "live t' = xs @ ys" "distinct (map key (live t))"
  shows "dir_map t' = (dir_map t)(key e := None)" "dir_map t (key e) = Some (sector e)"
proof -
  have n: "map_of (map (\<lambda>e. (key e, sector e)) xs) (key e) = None" "map_of (map (\<lambda>e. (key e, sector e)) ys) (key e) = None"
    using assms(1,3) by (auto simp: map_of_eq_None_iff)
  then show "dir_map t' = (dir_map t)(key e := None)" unfolding dir_map_def assms(1,2)
    by (intro ext) (auto simp: map_add_def split: option.splits)
  show "dir_map t (key e) = Some (sector e)" using n unfolding dir_map_def assms(1) by (simp add: map_add_def)
qed

lemma Remove_missing:
  assumes "fs_ok fs" "uninit_ok u" "files fs (cstr FileNameMaxLen name) = None"
  shows "FileSystem_Remove u name fs = Some (False, fs)"
  using read_directory_eq [OF fs_ok_meta [OF assms(1)] assms(2)] find_name(1) [OF assms(1)] assms(3) by (simp add: FileSystem_Remove_def)

lemma free_entry:
  assumes "fs_ok fs" "e \<in> set (live (disk_dir fs))"
  shows "\<exists>b1 b. Deallocate (header_at (fs_disk fs) (sector e)) (disk_map fs) = Some b1 \<and> Clear b1 (sector e) = Some b
    \<and> wf_bitmap b \<and> numBits b = NumSectors \<and> marked b = marked (disk_map fs) - set (entry_sectors (fs_disk fs) e)"
proof -
  let ?h = "header_at (fs_disk fs) (sector e)"
  have u: "set (entry_sectors (fs_disk fs) e) \<subseteq> marked (disk_map fs)"
    using entry_used [OF assms(2)] assms(1) by (simp add: fs_ok_def)
  have "header_ok ?h" using assms by (simp add: fs_ok_def)
  moreover have "set (file_sectors ?h) \<subseteq> marked (disk_map fs)" using u by (simp add: entry_sectors_def)
  ultimately obtain b1 where b1: "Deallocate ?h (disk_map fs) = Some b1" "wf_bitmap b1" "numBits b1 = NumSectors"
    "marked b1 = marked (disk_map fs) - set (file_sectors ?h)"
    using Deallocate_ok [OF disk_map_wf(1) [of fs], of ?h] disk_map_wf(2) [of fs] by auto
  have "sector e \<in> marked (disk_map fs)" using u by (simp add: entry_sectors_def)
  then have "in_range b1 (sector e)" using b1(3) disk_map_wf(2) [of fs] by (simp add: marked_def in_range_def)
  then obtain b where "Clear b1 (sector e) = Some b" "wf_bitmap b" "numBits b = NumSectors" "marked b = marked b1 - {sector e}"
    using Clear_total [OF b1(2)] Clear_Some [OF b1(2)] b1(3) by metis
  then show ?thesis using b1 by (auto simp: entry_sectors_def)
qed

lemma Remove_present:
  assumes "fs_ok fs" "uninit_ok u" "files fs (cstr FileNameMaxLen name) \<noteq> None"
  shows "\<exists>d'. FileSystem_Remove u name fs = Some (True, fs\<lparr>fs_disk := d'\<rparr>) \<and> fs_ok (fs\<lparr>fs_disk := d'\<rparr>)
    \<and> files (fs\<lparr>fs_disk := d'\<rparr>) = (files fs)(cstr FileNameMaxLen name := None)
    \<and> (\<forall>nm h'. files fs nm = Some h' \<longrightarrow> file_data h' d' = file_data h' (fs_disk fs))"
proof -
  let ?dir = "\<lparr>tableSize = NumDirEntries, table = disk_dir fs\<rparr>" and ?d = "fs_disk fs"
  note m = fs_ok_meta [OF assms(1)]
  note rd = read_directory_eq [OF m assms(2)] read_free_map_eq [OF m assms(2)]
  define k where "k = Directory_Find ?dir name"
  have k: "k \<noteq> -1" using find_name(1) [OF assms(1)] assms(3) by (simp add: k_def)
  have kr: "0 \<le> k" "k < NumSectors" using find_name(2) [OF assms(1) k_def [symmetric] k] by auto
  have "fst (Directory_Remove ?dir name)" using k by (auto simp: Remove_iff k_def Directory_Find_def)
  then obtain dir' where rm: "Directory_Remove ?dir name = (True, dir')" by (metis (full_types) prod.collapse)
  obtain xs e ys where r: "live (disk_dir fs) = xs @ e # ys" "live (table dir') = xs @ ys" "key e = cstr FileNameMaxLen name"
    "sector e = k" "tableSize dir' = NumDirEntries" "length (table dir') = NumDirEntries" "\<forall>e \<in> set (table dir'). entry_ok e"
    using Remove_live [OF rm] m unfolding k_def by (simp add: disk_dir_def meta_ok_def) metis
  have dir': "dir' = \<lparr>tableSize = NumDirEntries, table = table dir'\<rparr>" using r(5) by (cases dir') simp
  have e: "e \<in> set (live (disk_dir fs))" using r(1) by simp
  let ?h = "header_at ?d k"
  have u: "used_sectors fs = system_sectors fs @ concat (map (entry_sectors ?d) xs) @ entry_sectors ?d e @ concat (map (entry_sectors ?d) ys)"
    by (simp add: used_sectors_def r(1))
  have used: "set (used_sectors fs) = marked (disk_map fs)" "distinct (used_sectors fs)" using assms(1) by (simp_all add: fs_ok_def)
  obtain b1 b where b: "Deallocate ?h (disk_map fs) = Some b1" "wf_bitmap b" "numBits b = NumSectors" "Clear b1 k = Some b"
    "marked b = marked (disk_map fs) - set (entry_sectors ?d e)" using free_entry [OF assms(1) e] r(4) by auto
  have "disk_ok ?d" using m by (simp add: meta_ok_def)
  then obtain d1 d' where w: "BitMap_WriteBack (raw_bytes u 0) b (freeMapFile fs) ?d = Some d1"
    "Directory_WriteBack (raw_bytes u 1) dir' (directoryFile fs) d1 = Some d'" "meta_written fs (table dir') b ?d d'"
    using write_meta(2) [OF _ _ _ _ meta_disjoint [OF assms(1)] _ r(6,7) b(2,3), of ?d "raw_bytes u 0" "raw_bytes u 1"] m dir'
    by (auto simp: meta_ok_def)
  note old = old_entries_kept_meta [OF assms(1) w(3)]
  have es: "map (entry_sectors d') (live (table dir')) = map (entry_sectors ?d) xs @ map (entry_sectors ?d) ys"
    using old(2) r(1,2) by auto
  have hs: "\<forall>e \<in> set (live (table dir')). header_ok (header_at d' (sector e))"
    using old(1) r(1,2) assms(1) by (auto simp: fs_ok_def)
  have dk: "distinct (map key (live (disk_dir fs)))" using assms(1) by (simp add: fs_ok_def)
  then have ks: "distinct (map key (live (table dir')))" using r(1,2) by auto
  have ds: "distinct (system_sectors fs @ concat (map (entry_sectors d') (live (table dir'))))"
    unfolding es using used(2) unfolding u by auto
  have ms: "set (system_sectors fs @ concat (map (entry_sectors d') (live (table dir')))) = marked b"
    unfolding es b(5) used(1) [symmetric] using used(2) unfolding u by auto
  note ok = fs_ok_after(1,2) [OF m r(6) w(3) r(7) hs ks ds ms]
  have dm: "dir_map (table dir') = (dir_map (disk_dir fs))(key e := None)" by (rule dir_map_delete(1) [OF r(1,2) dk])
  have "files (fs\<lparr>fs_disk := d'\<rparr>) nm = ((files fs)(cstr FileNameMaxLen name := None)) nm" for nm
  proof -
    have "header_at d' s = header_at ?d s" if s: "dir_map (disk_dir fs) nm = Some s" for s
      using dir_map_sector [OF s] old(1) by auto
    then show ?thesis using ok(2) dm r(3) by (cases "dir_map (disk_dir fs) nm") (auto simp: files_def)
  qed
  moreover have "file_data h' d' = file_data h' ?d" if "files fs nm = Some h'" for nm h'
    using that old(3) by (auto simp: files_def dest!: dir_map_sector)
  moreover have "FileSystem_Remove u name fs = Some (True, fs\<lparr>fs_disk := d'\<rparr>)"
    using rd k kr b(1,4) w(1,2) rm
    by (simp add: FileSystem_Remove_def k_def [symmetric] Let_def Header_FetchFrom_def ReadSector_def header_at_def)
  ultimately show ?thesis using ok(1) by (intro exI [of _ d']) auto
qed

section \<open>Formatting\<close>

lemma table_of_bytes_ok:
  assumes "n * entry_size \<le> length bs"
  shows "\<forall>e \<in> set (table_of_bytes n bs). entry_ok e"
proof
  fix e assume "e \<in> set (table_of_bytes n bs)"
  then obtain i where i: "i < n" "e = entry_of_bytes (take entry_size (drop (i * entry_size) bs))"
    by (auto simp: table_of_bytes_def)
  have "i * 20 + 20 \<le> length bs" using i(1) assms by (simp add: entry_size_def)
  then show "entry_ok e"
    using sint_greater_eq [of "word_of_bytes (take entry_size (drop (i * entry_size) bs)) 4"]
      sint_less [of "word_of_bytes (take entry_size (drop (i * entry_size) bs)) 4"]
    by (simp add: i(2) entry_ok_def entry_of_bytes_def entry_size_def int_at_def fits_def)
qed

lemma meta_ok_intro:
  assumes "disk_ok (fs_disk fs)" "header_ok (map_file fs)" "numBytes (map_file fs) = FreeMapFileSize"
    "header_ok (dir_file fs)" "numBytes (dir_file fs) = DirectoryFileSize"
  shows "meta_ok fs"
proof -
  have "NumDirEntries * entry_size \<le> length (file_data (dir_file fs) (fs_disk fs))" using assms by (simp add: fs_sizes)
  then show ?thesis using assms table_of_bytes_ok unfolding meta_ok_def disk_dir_def by blast
qed

lemma Allocate_system:
  assumes "wf_bitmap b" "numBits b = NumSectors" "header_wf h0" "0 \<le> n" "n \<le> 512" "card (marked b) < 1000"
  shows "\<exists>h b'. Allocate h0 b n = Some (True, h, b') \<and> header_ok h \<and> header_wf h \<and> numBytes h = n
    \<and> set (file_sectors h) \<inter> marked b = {} \<and> wf_bitmap b' \<and> numBits b' = NumSectors
    \<and> marked b' = marked b \<union> set (file_sectors h) \<and> length (file_sectors h) \<le> 1"
proof -
  have s: "divRoundUp n (int SectorSize) \<le> 1" "0 \<le> divRoundUp n (int SectorSize)"
    using divRoundUp_bounds(2) [of n 512] divRoundUp_ge_0 [of n 512] assms(4,5) by (auto simp: SectorSize_def)
  have "int (card (marked b)) < 1000" using assms(6) by simp
  then have "divRoundUp n (int SectorSize) \<le> int (card ({0..<numBits b} - marked b))"
    using card_free [OF assms(1,2)] s(1) by (simp add: disk_sizes)
  moreover have "nat (divRoundUp n (int SectorSize)) \<le> length (dataSectors h0)"
    using s assms(3) by (simp add: header_wf_def NumDirect_def SectorSize_def)
  ultimately obtain h b' where h: "Allocate h0 b n = Some (True, h, b')" "header_ok h" "numBytes h = n"
    "set (file_sectors h) \<inter> marked b = {}" "wf_bitmap b'" "numBits b' = numBits b" "marked b' = marked b \<union> set (file_sectors h)"
    "dataSectors h = file_sectors h @ drop (nat (numSectors h)) (dataSectors h0)"
    using Allocate_ok [OF assms(1,2,4)] by blast
  have l: "length (file_sectors h) \<le> 1" using file_sectors_length [OF h(2)] h(2,3) s(1) by (auto simp: header_ok_def)
  then have "header_wf h" using header_wf_allocated [OF h(2) assms(3) h(8)] by (simp add: NumDirect_def SectorSize_def)
  with h l assms(2) show ?thesis by auto
qed

lemma OpenFile_new_eq:
  assumes "header_wf h" "d s = header_bytes h" "0 \<le> s" "s < NumSectors"
  shows "OpenFile_new s ty d = Some \<lparr>hdr = h, seekPosition = 0, file_type = ty\<rparr>"
  using assms header_round_trip [OF assms(1)] by (simp add: OpenFile_new_def Header_FetchFrom_def ReadSector_def)

text \<open>The record that the constructor builds from the two open files.\<close>

definition fs_of :: "OpenFile option list \<Rightarrow> int \<Rightarrow> OpenFile \<times> OpenFile \<times> disk \<Rightarrow> FileSystem" where
  "fs_of os i = (\<lambda>(mf, df, d). \<lparr>freeMapFile = mf, directoryFile = df, openState = os, fs_index = i, fs_disk = d\<rparr>)"

lemma format_allocates:
  assumes "uninit_ok u"
  shows "\<exists>b0 b1 b2 mh b3 dh b4. BitMap NumSectors (raw_words u) = Some b0 \<and> Mark b0 0 = Some b1 \<and> Mark b1 1 = Some b2
    \<and> Allocate (raw_header u) b2 FreeMapFileSize = Some (True, mh, b3) \<and> Allocate (raw_header u) b3 DirectoryFileSize = Some (True, dh, b4)
    \<and> header_ok mh \<and> header_wf mh \<and> numBytes mh = FreeMapFileSize \<and> header_ok dh \<and> header_wf dh \<and> numBytes dh = DirectoryFileSize
    \<and> wf_bitmap b4 \<and> numBits b4 = NumSectors \<and> distinct ([0, 1] @ file_sectors mh @ file_sectors dh)
    \<and> set ([0, 1] @ file_sectors mh @ file_sectors dh) = marked b4 \<and> length (file_sectors mh) \<le> 1 \<and> length (file_sectors dh) \<le> 1"
proof -
  have "int (length (raw_words u)) = divRoundUp NumSectors 32" "0 \<le> NumSectors" "header_wf (raw_header u)"
    using assms by (simp_all add: uninit_ok_def divRoundUp_nonneg disk_sizes)
  then obtain b0 where b0: "BitMap NumSectors (raw_words u) = Some b0" "wf_bitmap b0" "numBits b0 = NumSectors" "marked b0 = {}"
    and hw: "header_wf (raw_header u)" using BitMap_correct by blast
  have r0: "in_range b0 0" using b0(3) by (simp add: in_range_def disk_sizes)
  obtain b1 where b1: "Mark b0 0 = Some b1" using Mark_total [OF b0(2) r0] by blast
  note m1 = Mark_Some [OF b0(2) r0 b1]
  have r1: "in_range b1 1" using m1(2) b0(3) by (simp add: in_range_def disk_sizes)
  obtain b2 where b2: "Mark b1 1 = Some b2" using Mark_total [OF m1(1) r1] by blast
  note m2 = Mark_Some [OF m1(1) r1 b2]
  have mk2: "marked b2 = {0, 1}" "numBits b2 = NumSectors" using m1 m2 b0 by auto
  obtain mh b3 where a1: "Allocate (raw_header u) b2 FreeMapFileSize = Some (True, mh, b3)" "header_ok mh" "header_wf mh"
    "numBytes mh = FreeMapFileSize" "set (file_sectors mh) \<inter> marked b2 = {}" "wf_bitmap b3" "numBits b3 = NumSectors"
    "marked b3 = marked b2 \<union> set (file_sectors mh)" "length (file_sectors mh) \<le> 1"
    using Allocate_system [OF m2(1) mk2(2) hw, of FreeMapFileSize] mk2(1) by (auto simp: fs_sizes)
  have "card (marked b3) \<le> card (marked b2) + card (set (file_sectors mh))" unfolding a1(8) by (rule card_Un_le)
  also have "\<dots> \<le> 3" using a1(9) mk2(1) card_length [of "file_sectors mh"] by auto
  finally have c3: "card (marked b3) < 1000" by simp
  obtain dh b4 where a2: "Allocate (raw_header u) b3 DirectoryFileSize = Some (True, dh, b4)" "header_ok dh" "header_wf dh"
    "numBytes dh = DirectoryFileSize" "set (file_sectors dh) \<inter> marked b3 = {}" "wf_bitmap b4" "numBits b4 = NumSectors"
    "marked b4 = marked b3 \<union> set (file_sectors dh)" "length (file_sectors dh) \<le> 1"
    using Allocate_system [OF a1(6,7) hw _ _ c3, of DirectoryFileSize] by (auto simp: fs_sizes)
  have "distinct ([0, 1] @ file_sectors mh @ file_sectors dh)" "set ([0, 1] @ file_sectors mh @ file_sectors dh) = marked b4"
    using a1(2,5,8) a2(2,5,8) mk2(1) by (auto simp: header_ok_def)
  then show ?thesis using b0(1) b1 b2 a1 a2 by blast
qed

lemma format_disk_ok:
  assumes "disk_ok d" "uninit_ok u"
  shows "\<exists>r. format_disk u d = Some r \<and> fs_ok (fs_of os i r) \<and> live (disk_dir (fs_of os i r)) = [] \<and> length (used_sectors (fs_of os i r)) \<le> 4"
proof -
  obtain b0 b1 b2 mh b3 dh b4 where b: "BitMap NumSectors (raw_words u) = Some b0" "Mark b0 0 = Some b1" "Mark b1 1 = Some b2"
    "Allocate (raw_header u) b2 FreeMapFileSize = Some (True, mh, b3)" "Allocate (raw_header u) b3 DirectoryFileSize = Some (True, dh, b4)"
    and mh: "header_ok mh" "header_wf mh" "numBytes mh = FreeMapFileSize" and dh: "header_ok dh" "header_wf dh" "numBytes dh = DirectoryFileSize"
    and b4: "wf_bitmap b4" "numBits b4 = NumSectors" and dist: "distinct ([0, 1] @ file_sectors mh @ file_sectors dh)"
    and used: "set ([0, 1] @ file_sectors mh @ file_sectors dh) = marked b4"
    and len: "length (file_sectors mh) \<le> 1" "length (file_sectors dh) \<le> 1"
    using format_allocates [OF assms(2)] by blast
  let ?d = "d(0 := header_bytes mh, 1 := header_bytes dh)"
  let ?mf = "\<lparr>hdr = mh, seekPosition = 0, file_type = raw_type u\<rparr>" and ?df = "\<lparr>hdr = dh, seekPosition = 0, file_type = raw_type u\<rparr>"
  let ?fs = "fs_of os i (?mf, ?df, ?d)" and ?t = "map (\<lambda>e. e\<lparr>inUse := False\<rparr>) (raw_table u)"
  have ok: "disk_ok ?d" using assms(1) header_bytes_length [OF mh(2)] header_bytes_length [OF dh(2)] by (simp add: disk_ok_def)
  have m: "meta_ok ?fs" using ok mh dh by (intro meta_ok_intro) (simp_all add: fs_of_def)
  have t: "length ?t = NumDirEntries" "\<forall>e \<in> set ?t. entry_ok e" "live ?t = []"
    using assms(2) by (auto simp: uninit_ok_def entry_ok_def live_def)
  have dj: "set (file_sectors (dir_file ?fs)) \<inter> set (file_sectors (map_file ?fs)) = {}" using dist by (auto simp: fs_of_def)
  obtain d1 d' where w: "BitMap_WriteBack (raw_bytes u 0) b4 ?mf ?d = Some d1"
    "Directory_WriteBack (raw_bytes u 1) \<lparr>tableSize = NumDirEntries, table = ?t\<rparr> ?df d1 = Some d'" "meta_written ?fs ?t b4 ?d d'"
    using write_meta(2) [OF _ _ _ _ dj ok t(1,2) b4, of "raw_bytes u 0" "raw_bytes u 1"] mh dh by (auto simp: fs_of_def)
  have sy: "system_sectors ?fs = [0, 1] @ file_sectors mh @ file_sectors dh"
    by (simp add: system_sectors_def fs_of_def FreeMapSector_def DirectorySector_def)
  have ds: "distinct (system_sectors ?fs @ concat (map (entry_sectors d') (live ?t)))"
    using dist unfolding sy t(3) by simp
  have ms: "set (system_sectors ?fs @ concat (map (entry_sectors d') (live ?t))) = marked b4"
    using used unfolding sy t(3) by simp
  have f: "fs_of os i (?mf, ?df, d') = ?fs\<lparr>fs_disk := d'\<rparr>" by (simp add: fs_of_def)
  note res = fs_ok_after(1,2) [OF m t(1) w(3) t(2) _ _ ds ms, unfolded t(3), simplified, folded f]
  have "header_bytes mh = ?d 0" "header_bytes dh = ?d 1" by simp_all
  then have "format_disk u d = Some (?mf, ?df, d')"
    using b w(1,2) OpenFile_new_eq [OF mh(2), of ?d 0 "raw_type u"] OpenFile_new_eq [OF dh(2), of ?d 1 "raw_type u"]
      Header_WriteBack_eq [OF mh(2), of 0 d] Header_WriteBack_eq [OF dh(2), of 1 "d(0 := header_bytes mh)"] assms(2)
    by (simp add: format_disk_def Directory_new_def uninit_ok_def FreeMapSector_def DirectorySector_def disk_sizes)
  moreover have "length (used_sectors (fs_of os i (?mf, ?df, d'))) \<le> 4"
    using res(2) len t(3) sy by (simp add: used_sectors_def system_sectors_def fs_of_def)
  ultimately show ?thesis using res t(3) by (intro exI [of _ "(?mf, ?df, d')"]) simp
qed

section \<open>The constructor\<close>

lemma fs_view_cong:
  assumes "freeMapFile fs' = freeMapFile fs" "directoryFile fs' = directoryFile fs" "fs_disk fs' = fs_disk fs"
  shows "fs_ok fs' = fs_ok fs" "files fs' = files fs" "disk_dir fs' = disk_dir fs" "used_sectors fs' = used_sectors fs"
proof -
  show d: "disk_dir fs' = disk_dir fs" using assms by (simp add: disk_dir_def)
  show u: "used_sectors fs' = used_sectors fs" using assms d by (simp add: used_sectors_def system_sectors_def)
  have "disk_map fs' = disk_map fs" "meta_ok fs' = meta_ok fs" using assms d by (simp_all add: disk_map_def meta_ok_def)
  then show "fs_ok fs' = fs_ok fs" using assms d u by (simp add: fs_ok_def)
  show "files fs' = files fs" using assms d by (intro ext) (simp add: files_def)
qed

lemma open_standard_missing:
  assumes "fs_ok fs" "uninit_ok u" "files fs (cstr FileNameMaxLen name) = None" "openState fs = replicate 10 None" "0 \<le> fs_index fs" "fs_index fs < 10"
  shows "open_standard u name ty fs = Some (fs\<lparr>fs_index := fs_index fs + 1\<rparr>)"
proof -
  have "FindFreeSlot fs = 2" by (simp add: FindFreeSlot_def assms(4) eval_nat_numeral)
  moreover have "Directory_Find \<lparr>tableSize = NumDirEntries, table = disk_dir fs\<rparr> name = -1" using find_name(1) [OF assms(1)] assms(3) by simp
  moreover have "(replicate 10 None)[nat (fs_index fs) := None] = (replicate 10 None :: OpenFile option list)"
    by (metis list_update_id list_update_beyond not_less nth_replicate length_replicate)
  moreover have "fs\<lparr>openState := replicate 10 None, fs_index := j\<rparr> = fs\<lparr>fs_index := j\<rparr>" for j using assms(4) by (cases fs) simp
  ultimately show ?thesis
    using read_directory_eq [OF fs_ok_meta [OF assms(1)] assms(2)] assms(4-6)
    by (simp add: open_standard_def Open_type_def)
qed

lemma room_few:
  assumes "files fs (cstr FileNameMaxLen name) = None" "length (live (disk_dir fs)) < 10" "length (used_sectors fs) \<le> 1000"
  shows "room fs name 0"
  using assms by (simp add: room_def NumDirEntries_def divRoundUp_nonneg SectorSize_def disk_sizes)

lemma standard_names: "cstr FileNameMaxLen stdin_name = stdin_name" "cstr FileNameMaxLen stdout_name = stdout_name" "stdin_name \<noteq> stdout_name"
  by (simp_all add: cstr_def FileNameMaxLen_def stdin_name_def stdout_name_def)

lemma FileSystem_new_format:
  assumes "disk_ok d" "uninit_ok u"
  shows "\<exists>fs h1 h2. FileSystem_new u True d = Some fs \<and> fs_ok fs \<and> openState fs = replicate 10 None
    \<and> files fs = [stdin_name \<mapsto> h1, stdout_name \<mapsto> h2] \<and> numBytes h1 = 0 \<and> numBytes h2 = 0
    \<and> length (used_sectors fs) \<le> 6 \<and> length (live (disk_dir fs)) = 2"
proof -
  obtain r where r: "format_disk u d = Some r" "fs_ok (fs_of (replicate 10 None) 0 r)"
    "live (disk_dir (fs_of (replicate 10 None) 0 r)) = []" "length (used_sectors (fs_of (replicate 10 None) 0 r)) \<le> 4"
    using format_disk_ok [OF assms] by blast
  let ?f0 = "fs_of (replicate 10 None) 0 r"
  define f2 where "f2 = ?f0\<lparr>fs_index := 2\<rparr>"
  have o: "openState ?f0 = replicate 10 None" "fs_index ?f0 = 0" by (simp_all add: fs_of_def split: prod.split)
  note v = fs_view_cong [of "?f0\<lparr>fs_index := 1\<rparr>" ?f0, simplified] and v2 = fs_view_cong [of f2 ?f0, unfolded f2_def, simplified, folded f2_def]
  have e: "files ?f0 = Map.empty" by (intro ext) (simp add: files_def dir_map_def r(3))
  have s1: "open_standard u stdin_name 2 ?f0 = Some (?f0\<lparr>fs_index := 1\<rparr>)"
    using open_standard_missing [OF r(2) assms(2)] e o by simp
  have s2: "open_standard u stdout_name 3 (?f0\<lparr>fs_index := 1\<rparr>) = Some f2"
    using open_standard_missing [OF _ assms(2), of "?f0\<lparr>fs_index := 1\<rparr>" stdout_name 3] v r(2) e o by (simp add: f2_def)
  have f2: "fs_ok f2" "files f2 = Map.empty" "length (live (disk_dir f2)) = 0" "length (used_sectors f2) \<le> 4"
    using v2 r e by simp_all
  obtain d1 h1 where c1: "Create u stdin_name 0 f2 = Some (True, f2\<lparr>fs_disk := d1\<rparr>)" "fs_ok (f2\<lparr>fs_disk := d1\<rparr>)" "numBytes h1 = 0"
    "files (f2\<lparr>fs_disk := d1\<rparr>) = (files f2)(stdin_name \<mapsto> h1)" "length (used_sectors (f2\<lparr>fs_disk := d1\<rparr>)) \<le> 5"
    "length (live (disk_dir (f2\<lparr>fs_disk := d1\<rparr>))) = 1"
    using Create_accepted [OF f2(1) assms(2) _ _ room_few, of stdin_name] f2(2-4) standard_names
    by (auto simp: divRoundUp_nonneg SectorSize_def)
  obtain d2 h2 where c2: "Create u stdout_name 0 (f2\<lparr>fs_disk := d1\<rparr>) = Some (True, f2\<lparr>fs_disk := d2\<rparr>)" "fs_ok (f2\<lparr>fs_disk := d2\<rparr>)"
    "numBytes h2 = 0" "files (f2\<lparr>fs_disk := d2\<rparr>) = (files (f2\<lparr>fs_disk := d1\<rparr>))(stdout_name \<mapsto> h2)"
    "length (used_sectors (f2\<lparr>fs_disk := d2\<rparr>)) \<le> 6" "length (live (disk_dir (f2\<lparr>fs_disk := d2\<rparr>))) = 2"
    using Create_accepted [OF c1(2) assms(2) _ _ room_few, of stdout_name] c1(4-6) f2(2) standard_names
    by (auto simp: divRoundUp_nonneg SectorSize_def)
  have "FileSystem_new u True d = Some (f2\<lparr>fs_disk := d2\<rparr>)"
    using r(1) s1 s2 c1(1) c2(1) by (cases r) (simp add: FileSystem_new_def fs_of_def)
  moreover have "openState (f2\<lparr>fs_disk := d2\<rparr>) = replicate 10 None" using o by (simp add: f2_def)
  ultimately show ?thesis using c2(2-6) c1(3,4) f2(2) by auto
qed

text \<open>\<open>Open\<close> finds exactly the files of the map.\<close>

lemma Open_files:
  assumes "fs_ok fs" "uninit_ok u"
  shows "Open u name fs = Some (map_option (\<lambda>h. \<lparr>hdr = h, seekPosition = 0, file_type = raw_type u\<rparr>) (files fs (cstr FileNameMaxLen name)))"
proof (cases "files fs (cstr FileNameMaxLen name) = None")
  case True
  then have "Directory_Find \<lparr>tableSize = NumDirEntries, table = disk_dir fs\<rparr> name = -1" using find_name(1) [OF assms(1)] by simp
  with True read_directory_eq [OF fs_ok_meta [OF assms(1)] assms(2)] show ?thesis by (simp add: Open_def)
next
  case False
  define k where "k = Directory_Find \<lparr>tableSize = NumDirEntries, table = disk_dir fs\<rparr> name"
  have "k \<noteq> -1" using False find_name(1) [OF assms(1)] by (simp add: k_def)
  note k = find_name(2) [OF assms(1) k_def [symmetric] this]
  with read_directory_eq [OF fs_ok_meta [OF assms(1)] assms(2)] show ?thesis
    by (simp add: Open_def k_def [symmetric] files_def OpenFile_new_def Header_FetchFrom_def ReadSector_def header_at_def Let_def)
qed

section \<open>The contract of a file store\<close>

text \<open>
  What a client of the file system relies on: a map from names to files, that creating a file extends or leaves unchanged
  and removing a file shrinks. The keys are the parts of the names that the store compares.
\<close>

datatype 'n request = CreateFile 'n int | RemoveFile 'n

definition serve :: "('n \<Rightarrow> int \<Rightarrow> 'f \<Rightarrow> (bool \<times> 'f) option) \<Rightarrow> ('n \<Rightarrow> 'f \<Rightarrow> (bool \<times> 'f) option) \<Rightarrow> 'n request \<Rightarrow> 'f \<Rightarrow> 'f option" where
  "serve create remove r f = map_option snd (case r of CreateFile nm n \<Rightarrow> create nm n f | RemoveFile nm \<Rightarrow> remove nm f)"

definition legal :: "int \<Rightarrow> 'n request \<Rightarrow> bool" where
  "legal max_size r \<longleftrightarrow> (case r of CreateFile nm n \<Rightarrow> 0 \<le> n \<and> n \<le> max_size | RemoveFile nm \<Rightarrow> True)"

definition about :: "'n request \<Rightarrow> 'n" where
  "about r = (case r of CreateFile nm n \<Rightarrow> nm | RemoveFile nm \<Rightarrow> nm)"

locale file_store =
  fixes inv :: "'f \<Rightarrow> bool"
    and view :: "'f \<Rightarrow> 'n \<Rightarrow> 'h option"
    and norm :: "'n \<Rightarrow> 'n"
    and max_size :: int
    and create :: "'n \<Rightarrow> int \<Rightarrow> 'f \<Rightarrow> (bool \<times> 'f) option"
    and remove :: "'n \<Rightarrow> 'f \<Rightarrow> (bool \<times> 'f) option"
  assumes create_law: "inv f \<Longrightarrow> 0 \<le> n \<Longrightarrow> n \<le> max_size \<Longrightarrow>
      \<exists>ok f'. create nm n f = Some (ok, f') \<and> inv f' \<and> (if ok then \<exists>h. view f' = (view f)(norm nm \<mapsto> h) else f' = f)"
    and remove_law: "inv f \<Longrightarrow>
      \<exists>ok f'. remove nm f = Some (ok, f') \<and> inv f' \<and> (ok \<longleftrightarrow> view f (norm nm) \<noteq> None) \<and> view f' = (view f)(norm nm := None)"
begin

lemma serve_one:
  assumes "inv f" "legal max_size r"
  shows "\<exists>f'. serve create remove r f = Some f' \<and> inv f' \<and> (\<forall>nm. nm \<noteq> norm (about r) \<longrightarrow> view f' nm = view f nm)"
proof (cases r)
  case (CreateFile nm n)
  with assms create_law [of f n nm] show ?thesis by (fastforce simp: serve_def legal_def about_def split: if_splits)
next
  case (RemoveFile nm)
  with assms remove_law [of f nm] show ?thesis by (fastforce simp: serve_def about_def)
qed

text \<open>No sequence of requests gets stuck or breaks the invariant, and a file that it does not name stays.\<close>

lemma serve_all:
  assumes "inv f" "\<forall>r \<in> set reqs. legal max_size r"
  shows "\<exists>f'. each (serve create remove) reqs f = Some f' \<and> inv f' \<and> (\<forall>nm. nm \<notin> (norm \<circ> about) ` set reqs \<longrightarrow> view f' nm = view f nm)"
  using assms
proof (induction reqs arbitrary: f)
  case (Cons r reqs)
  then obtain f1 where f1: "serve create remove r f = Some f1" "inv f1" "\<forall>nm. nm \<noteq> norm (about r) \<longrightarrow> view f1 nm = view f nm"
    using serve_one by force
  from Cons.IH [OF f1(2)] Cons.prems obtain f' where "each (serve create remove) reqs f1 = Some f'" "inv f'"
    "\<forall>nm. nm \<notin> (norm \<circ> about) ` set reqs \<longrightarrow> view f' nm = view f1 nm" by auto
  with f1 show ?case by auto
qed simp

end

lemma Create_law:
  assumes "fs_ok fs" "uninit_ok u" "0 \<le> n" "n \<le> int MaxFileSize"
  shows "\<exists>ok fs'. Create u name n fs = Some (ok, fs') \<and> fs_ok fs'
    \<and> (if ok then \<exists>h. files fs' = (files fs)(cstr FileNameMaxLen name \<mapsto> h) else fs' = fs)"
proof (cases "room fs name n")
  case True
  from Create_accepted [OF assms True] obtain d' h where "Create u name n fs = Some (True, fs\<lparr>fs_disk := d'\<rparr>)"
    "fs_ok (fs\<lparr>fs_disk := d'\<rparr>)" "files (fs\<lparr>fs_disk := d'\<rparr>) = (files fs)(cstr FileNameMaxLen name \<mapsto> h)" by blast
  then show ?thesis by (intro exI [of _ True] exI [of _ "fs\<lparr>fs_disk := d'\<rparr>"]) auto
next
  case False
  from Create_refused [OF assms(1-3) False] assms(1) show ?thesis by (intro exI [of _ False] exI [of _ fs]) simp
qed

lemma Remove_law:
  assumes "fs_ok fs" "uninit_ok u"
  shows "\<exists>ok fs'. FileSystem_Remove u name fs = Some (ok, fs') \<and> fs_ok fs' \<and> (ok \<longleftrightarrow> files fs (cstr FileNameMaxLen name) \<noteq> None)
    \<and> files fs' = (files fs)(cstr FileNameMaxLen name := None)"
proof (cases "files fs (cstr FileNameMaxLen name) = None")
  case True
  then have "(files fs)(cstr FileNameMaxLen name := None) = files fs" by (intro ext) simp
  with True Remove_missing [OF assms True] assms(1) show ?thesis by (intro exI [of _ False] exI [of _ fs]) simp
next
  case False
  with Remove_present [OF assms False] show ?thesis by auto
qed

text \<open>Every call may find different garbage in memory; the interpretation is for any fixed one, made legal.\<close>

definition blank_uninit :: uninit where
  "blank_uninit = \<lparr>raw_table = replicate 10 \<lparr>inUse = False, sector = 0, entry_name = replicate 10 0\<rparr>, raw_words = replicate 32 0,
     raw_header = \<lparr>numBytes = 0, numSectors = 0, dataSectors = replicate 126 0\<rparr>, raw_bytes = (\<lambda>_ _. 0), raw_type = 0\<rparr>"

lemma blank_uninit_ok: "uninit_ok blank_uninit"
  by (simp add: uninit_ok_def blank_uninit_def NumDirEntries_def entry_ok_def fits_def header_wf_def NumDirect_def SectorSize_def)

definition some_uninit :: "uninit \<Rightarrow> uninit" where
  "some_uninit u = (if uninit_ok u then u else blank_uninit)"

interpretation nfs: file_store fs_ok files "cstr FileNameMaxLen" "int MaxFileSize" "Create (some_uninit u)" "FileSystem_Remove (some_uninit u)"
  for u
proof unfold_locales
  have u: "uninit_ok (some_uninit u)" by (simp add: some_uninit_def blank_uninit_ok)
  show "\<exists>ok f'. Create (some_uninit u) nm n f = Some (ok, f') \<and> fs_ok f' \<and>
      (if ok then \<exists>h. files f' = (files f)(cstr FileNameMaxLen nm \<mapsto> h) else f' = f)"
    if "fs_ok f" "0 \<le> n" "n \<le> int MaxFileSize" for f n nm using Create_law [OF that(1) u that(2,3)] .
  show "\<exists>ok f'. FileSystem_Remove (some_uninit u) nm f = Some (ok, f') \<and> fs_ok f' \<and> (ok \<longleftrightarrow> files f (cstr FileNameMaxLen nm) \<noteq> None)
      \<and> files f' = (files f)(cstr FileNameMaxLen nm := None)"
    if "fs_ok f" for f nm using Remove_law [OF that u] .
qed

section \<open>Properties of the file system\<close>

text \<open>C12. Creating a file of a non-negative size. Without room for it, because the name is taken (on its first nine characters), the directory has
  no free entry or there are not enough free sectors for header and data, the call returns FALSE and nothing on the disk has changed. With room
  and at most \<open>MaxFileSize\<close> = 64512 bytes it succeeds: the map of files gets one new file of the requested size, the
  contents of all other files are unchanged, and the bitmap on disk still marks exactly the sectors in use, each once. With room and a larger size
  its behaviour is undefined: the sector numbers are written past the end of the header.\<close>

theorem create_file:
  assumes "fs_ok fs" "uninit_ok u" "0 \<le> n"
  shows "if room fs name n \<and> int MaxFileSize < n then Create u name n fs = None
    else \<exists>fs'. Create u name n fs = Some (room fs name n, fs') \<and> fs_ok fs' \<and>
     (if room fs name n then (\<exists>h. numBytes h = n \<and> files fs' = (files fs)(cstr FileNameMaxLen name \<mapsto> h))
         \<and> (\<forall>nm h. files fs nm = Some h \<longrightarrow> file_data h (fs_disk fs') = file_data h (fs_disk fs))
      else fs' = fs)"
proof (cases "room fs name n")
  case True
  show ?thesis
  proof (cases "n \<le> int MaxFileSize")
    case small: True
    from Create_accepted [OF assms small True] obtain d' h where "Create u name n fs = Some (True, fs\<lparr>fs_disk := d'\<rparr>)"
      "fs_ok (fs\<lparr>fs_disk := d'\<rparr>)" "numBytes h = n" "files (fs\<lparr>fs_disk := d'\<rparr>) = (files fs)(cstr FileNameMaxLen name \<mapsto> h)"
      "\<forall>nm h. files fs nm = Some h \<longrightarrow> file_data h d' = file_data h (fs_disk fs)" by blast
    with True small show ?thesis by (simp add: exI [of _ "fs\<lparr>fs_disk := d'\<rparr>"]) auto
  qed (simp add: True Create_too_big [OF assms(1,2) _ True])
next
  case False
  with Create_refused [OF assms False] assms(1) show ?thesis by simp
qed

text \<open>C13. Removing a file: the call succeeds exactly when the file exists; then the map of files loses this file and no other, the
  contents of the others are unchanged and exactly the sectors of the file are free again. Otherwise nothing has changed.\<close>

theorem remove_file:
  assumes "fs_ok fs" "uninit_ok u"
  shows "if files fs (cstr FileNameMaxLen name) = None then FileSystem_Remove u name fs = Some (False, fs)
    else \<exists>fs'. FileSystem_Remove u name fs = Some (True, fs') \<and> fs_ok fs' \<and> files fs' = (files fs)(cstr FileNameMaxLen name := None)
      \<and> (\<forall>nm h. files fs nm = Some h \<longrightarrow> file_data h (fs_disk fs') = file_data h (fs_disk fs))"
proof (cases "files fs (cstr FileNameMaxLen name) = None")
  case False
  from Remove_present [OF assms False] obtain d' where "FileSystem_Remove u name fs = Some (True, fs\<lparr>fs_disk := d'\<rparr>)"
    "fs_ok (fs\<lparr>fs_disk := d'\<rparr>)" "files (fs\<lparr>fs_disk := d'\<rparr>) = (files fs)(cstr FileNameMaxLen name := None)"
    "\<forall>nm h. files fs nm = Some h \<longrightarrow> file_data h d' = file_data h (fs_disk fs)" by blast
  with False show ?thesis by (simp only: if_False) (intro exI [of _ "fs\<lparr>fs_disk := d'\<rparr>"], simp)
qed (simp add: Remove_missing [OF assms])

text \<open>C14. Formatting and running: the constructor with \<open>format\<close> succeeds on every disk and leaves a consistent file system that holds
  exactly the two empty console files; from there every sequence of requests to create a file of between 0 and \<open>MaxFileSize\<close> bytes and to remove a file runs
  without a failed assertion, keeps the file system consistent, and \<open>Open\<close> finds exactly the files of the map. (A larger file is undefined behaviour where the disk has room
  for it.) The console files were opened before they were created, so the table of open files is empty.\<close>

theorem format_and_run:
  assumes "disk_ok d" "uninit_ok u" "\<forall>r \<in> set reqs. legal (int MaxFileSize) r"
  shows "\<exists>fs fs'. FileSystem_new u True d = Some fs \<and> fs_ok fs \<and> dom (files fs) = {stdin_name, stdout_name}
    \<and> openState fs = replicate 10 None \<and> each (serve (Create u) (FileSystem_Remove u)) reqs fs = Some fs' \<and> fs_ok fs'
    \<and> (\<forall>name. Open u name fs' = Some (map_option (\<lambda>h. \<lparr>hdr = h, seekPosition = 0, file_type = raw_type u\<rparr>)
          (files fs' (cstr FileNameMaxLen name))))"
proof -
  obtain fs h1 h2 where f: "FileSystem_new u True d = Some fs" "fs_ok fs" "openState fs = replicate 10 None"
    "files fs = [stdin_name \<mapsto> h1, stdout_name \<mapsto> h2]" using FileSystem_new_format [OF assms(1,2)] by blast
  have "some_uninit u = u" using assms(2) by (simp add: some_uninit_def)
  with nfs.serve_all [OF f(2) assms(3), of u] obtain fs' where f': "each (serve (Create u) (FileSystem_Remove u)) reqs fs = Some fs'" "fs_ok fs'"
    by auto
  have "Open u name fs' = Some (map_option (\<lambda>h. \<lparr>hdr = h, seekPosition = 0, file_type = raw_type u\<rparr>) (files fs' (cstr FileNameMaxLen name)))" for name
    by (rule Open_files [OF f'(2) assms(2)])
  with f f' show ?thesis by (intro exI [of _ fs] exI [of _ fs']) auto
qed

lemma blank_disk_ok: "disk_ok (\<lambda>_. replicate 512 0)"
  by (simp add: disk_ok_def SectorSize_def)

theorem format_and_run_witness:
  "\<exists>fs fs'. FileSystem_new blank_uninit True (\<lambda>_. replicate 512 0) = Some fs
     \<and> each (serve (Create blank_uninit) (FileSystem_Remove blank_uninit)) [CreateFile [65] 600, RemoveFile stdin_name] fs = Some fs' \<and> fs_ok fs'"
proof -
  have "\<forall>r \<in> set [CreateFile [65] 600, RemoveFile stdin_name]. legal (int MaxFileSize) r"
    by (simp add: legal_def MaxFileSize_def NumDirect_def SectorSize_def)
  from format_and_run [OF blank_disk_ok blank_uninit_ok this] show ?thesis by blast
qed

text \<open>A freshly formatted file system, for the witnesses.\<close>

lemma formatted: "\<exists>fs. FileSystem_new blank_uninit True (\<lambda>_. replicate 512 0) = Some fs \<and> fs_ok fs \<and> files fs stdin_name \<noteq> None"
  using FileSystem_new_format [OF blank_disk_ok blank_uninit_ok] standard_names(3) by fastforce

theorem create_file_witness:
  "\<exists>fs fs' h. FileSystem_new blank_uninit True (\<lambda>_. replicate 512 0) = Some fs \<and> Create blank_uninit stdin_name 5 fs = Some (False, fs)
    \<and> Create blank_uninit [98] 600 fs = Some (True, fs') \<and> files fs' = (files fs)([98] \<mapsto> h) \<and> numBytes h = 600 \<and> Create blank_uninit [98] 70000 fs = None"
proof -
  obtain fs h1 h2 where fs: "FileSystem_new blank_uninit True (\<lambda>_. replicate 512 0) = Some fs" "fs_ok fs"
    "files fs = [stdin_name \<mapsto> h1, stdout_name \<mapsto> h2]" "length (live (disk_dir fs)) = 2" "length (used_sectors fs) \<le> 6"
    using FileSystem_new_format [OF blank_disk_ok blank_uninit_ok] by blast
  have nm: "cstr FileNameMaxLen [98] = [98]" "([98] :: byte list) \<noteq> stdin_name" "([98] :: byte list) \<noteq> stdout_name"
    by (simp_all add: cstr_def FileNameMaxLen_def stdin_name_def stdout_name_def)
  have r: "\<not> room fs stdin_name 5" "room fs [98] 600" "room fs [98] 70000"
    using fs(3-5) nm standard_names by (auto simp: room_def NumDirEntries_def divRoundUp_nonneg SectorSize_def disk_sizes)
  have m: "int MaxFileSize = 64512" by (simp add: MaxFileSize_def NumDirect_def SectorSize_def)
  from create_file [OF fs(2) blank_uninit_ok, of 5 stdin_name] create_file [OF fs(2) blank_uninit_ok, of 600 "[98]"]
    create_file [OF fs(2) blank_uninit_ok, of 70000 "[98]"] fs(1) r m nm(1) show ?thesis by auto
qed

theorem remove_file_witness:
  "\<exists>fs fs'. FileSystem_new blank_uninit True (\<lambda>_. replicate 512 0) = Some fs \<and> FileSystem_Remove blank_uninit stdin_name fs = Some (True, fs')
     \<and> files fs stdin_name \<noteq> None \<and> files fs' stdin_name = None"
proof -
  obtain fs where fs: "FileSystem_new blank_uninit True (\<lambda>_. replicate 512 0) = Some fs" "fs_ok fs" "files fs stdin_name \<noteq> None"
    using formatted by blast
  with remove_file [OF fs(2) blank_uninit_ok, of stdin_name] standard_names(1) show ?thesis by auto
qed

end
