(* ===== verification/Thread_Test.thy ===== *)
theory Thread_Test
  imports Threads
begin

text \<open>
  threads/threadtest.cc, and the part of threads/main.cc that calls it in a kernel without user programs: two threads that print and yield in turn.

  The threads run between the atomic sections of theory \<open>Threads\<close>, with no timer. \<open>SimpleThreads\<close> runs the loop of \<^verbatim>\<open>SimpleThread\<close> in whatever
  thread has the processor, with the counter of each thread in \<open>num\<close>, until a thread leaves its loop; it gives the arguments of the messages.
\<close>

section \<open>The test\<close>

partial_function (option) SimpleThreads ::
    "(nat \<Rightarrow> int) \<Rightarrow> ('h, 'z) kernel_scheme \<Rightarrow> (nat \<Rightarrow> nat) \<Rightarrow> ((int \<times> nat) list \<times> ('h, 'z) kernel_scheme) option" where
  "SimpleThreads which s num =
     (let t = currentThread s in
      if num t < 5 then do {
        s1 \<leftarrow> Yield_section s;
        (out, s2) \<leftarrow> SimpleThreads which s1 (num(t := num t + 1));
        Some ((which t, num t) # out, s2) }
      else Some ([], s))"

text \<open>\<open>t\<close> is the new thread object, \<open>junk\<close> its uninitialised registers.\<close>

definition ThreadTest1 :: "nat \<Rightarrow> (nat \<Rightarrow> word32) \<Rightarrow> ('h, 'z) kernel_scheme \<Rightarrow> ((int \<times> nat) list \<times> ('h, 'z) kernel_scheme) option" where
  "ThreadTest1 t junk s = do {
     s1 \<leftarrow> Fork_section t (set_thread t (Thread_new junk) s);
     SimpleThreads (\<lambda>u. if u = t then 1 else 0) s1 (\<lambda>_. 0) }"

text \<open>\<open>None\<close> in the result is the message that no test is specified.\<close>

definition ThreadTest ::
    "int \<Rightarrow> nat \<Rightarrow> (nat \<Rightarrow> word32) \<Rightarrow> ('h, 'z) kernel_scheme \<Rightarrow> ((int \<times> nat) list option \<times> ('h, 'z) kernel_scheme) option" where
  "ThreadTest testnum t junk s =
     (if testnum = 1 then do { (out, s1) \<leftarrow> ThreadTest1 t junk s; Some (Some out, s1) } else Some (None, s))"

text \<open>\<^verbatim>\<open>atoi\<close>, on numbers that fit: spaces, a sign, digits.\<close>

fun leading_number :: "int \<Rightarrow> byte list \<Rightarrow> int" where
  "leading_number n [] = n"
| "leading_number n (c # cs) = (if 48 \<le> c \<and> c \<le> 57 then leading_number (10 * n + (uint c - 48)) cs else n)"

definition atoi :: "byte list \<Rightarrow> int" where
  "atoi bs = (case dropWhile (\<lambda>c. c = 32 \<or> 9 \<le> c \<and> c \<le> 13) bs of
     [] \<Rightarrow> 0 | c # cs \<Rightarrow> if c = 45 then - leading_number 0 cs else if c = 43 then leading_number 0 cs else leading_number 0 (c # cs))"

text \<open>\<^verbatim>\<open>argv[0][1]\<close>: a string ends with a zero byte, and the empty string has no second byte.\<close>

definition second_char :: "byte list \<Rightarrow> byte option" where
  "second_char a = (if a = [] then None else Some ((a @ [0]) ! 1))"

text \<open>The loop over the arguments in \<^verbatim>\<open>main\<close>, from the value of \<^verbatim>\<open>testnum\<close> before it; \<^verbatim>\<open>-q\<close> at the end reads through a null pointer.\<close>

fun test_number :: "byte list list \<Rightarrow> int \<Rightarrow> int option" where
  "test_number [] testnum = Some testnum"
| "test_number (a # argv) testnum = do {
     c \<leftarrow> second_char a;
     if c = 113 then (case argv of [] \<Rightarrow> None | n # argv1 \<Rightarrow> test_number argv1 (atoi n))
     else test_number argv 1 }"

definition threads_main :: "byte list list \<Rightarrow> nat \<Rightarrow> (nat \<Rightarrow> word32) \<Rightarrow> ('h, 'z) kernel_scheme \<Rightarrow> ((int \<times> nat) list option \<times> ('h, 'z) kernel_scheme) option" where
  "threads_main argv t junk s = do { testnum \<leftarrow> test_number argv 1; ThreadTest testnum t junk s }"

section \<open>The threads alternate\<close>

text \<open>Thread \<open>a\<close> runs and only thread \<open>b\<close> is ready; both are kernel threads with intact stacks.\<close>

definition sound_thread :: "Thread \<Rightarrow> bool" where
  "sound_thread t \<longleftrightarrow> space t = None \<and> (has_stack t \<longrightarrow> fencepost t)"

definition in_turn :: "('h, 'z) kernel_scheme \<Rightarrow> nat \<Rightarrow> nat \<Rightarrow> bool" where
  "in_turn s a b \<longleftrightarrow> a \<noteq> b \<and> currentThread s = a \<and> readyList s = [b] \<and> threadToBeDestroyed s = None
     \<and> (\<exists>x y. threads s a = Some x \<and> sound_thread x \<and> threads s b = Some y \<and> sound_thread y)"

lemma Yield_in_turn:
  assumes "in_turn s a b"
  shows "\<exists>s'. Yield_section s = Some s' \<and> in_turn s' b a"
proof -
  from assms obtain x y where t: "a \<noteq> b" "currentThread s = a" "readyList s = [b]" "threadToBeDestroyed s = None" "threads s a = Some x" "sound_thread x"
    "threads s b = Some y" "sound_thread y" by (auto simp: in_turn_def)
  let ?s1 = "s\<lparr>threads := (threads s)(a \<mapsto> x\<lparr>tstatus := READY\<rparr>), readyList := [a]\<rparr>"
  have "Yield_section s = Run b ?s1"
    using t by (simp add: Yield_section_def FindNextToRun_def ReadyToRun_def setThreadStatus_def set_thread_def)
  also have "\<dots> = Some (set_thread b (y\<lparr>tstatus := RUNNING, started := True\<rparr>) (?s1\<lparr>currentThread := b\<rparr>))"
    using t by (auto simp: Run_def save_current_def CheckOverflow_def sound_thread_def delete_carcass_def restore_current_def set_thread_def Let_def)
  finally show ?thesis using t by (simp add: in_turn_def set_thread_def sound_thread_def)
qed

lemma two_rounds:
  assumes "in_turn s a b" "num a < 5" "num b < 5"
  shows "\<exists>s'. in_turn s' a b \<and> SimpleThreads which s num = map_option (\<lambda>(out, r). ((which a, num a) # (which b, num b) # out, r))
    (SimpleThreads which s' (num(a := num a + 1, b := num b + 1)))"
proof -
  from Yield_in_turn [OF assms(1)] obtain s1 where s1: "Yield_section s = Some s1" "in_turn s1 b a" by blast
  from Yield_in_turn [OF s1(2)] obtain s2 where s2: "Yield_section s1 = Some s2" "in_turn s2 a b" by blast
  have "currentThread s = a" "currentThread s1 = b" "a \<noteq> b" using assms(1) s1(2) by (simp_all add: in_turn_def)
  with assms s1(1) s2(1) have "SimpleThreads which s num = map_option (\<lambda>(out, r). ((which a, num a) # (which b, num b) # out, r))
      (SimpleThreads which s2 (num(a := num a + 1, b := num b + 1)))"
    by (subst SimpleThreads.simps, subst SimpleThreads.simps) (auto simp: map_option_case split: option.splits prod.splits)
  with s2(2) show ?thesis by blast
qed

lemma SimpleThreads_alternate:
  assumes "in_turn s a b" "num a = k" "num b = k" "k \<le> 5"
  shows "\<exists>s'. SimpleThreads which s num = Some (concat (map (\<lambda>i. [(which a, i), (which b, i)]) [k..<5]), s') \<and> in_turn s' a b"
  using assms
proof (induction "5 - k" arbitrary: k s num)
  case 0
  then have "currentThread s = a" "\<not> num a < 5" "k = 5" by (simp_all add: in_turn_def)
  then have "SimpleThreads which s num = Some ([], s)" by (subst SimpleThreads.simps) (simp add: Let_def)
  with 0 show ?case by simp
next
  case (Suc n)
  then have k: "k < 5" "a \<noteq> b" by (simp_all add: in_turn_def)
  from two_rounds [OF Suc.prems(1), of num which] Suc.prems(2,3) k obtain s1 where s1: "in_turn s1 a b"
    "SimpleThreads which s num = map_option (\<lambda>(out, r). ((which a, k) # (which b, k) # out, r)) (SimpleThreads which s1 (num(a := k + 1, b := k + 1)))"
    by auto
  have "n = 5 - (k + 1)" using Suc.hyps(2) by simp
  from Suc.hyps(1) [OF this s1(1), of "num(a := k + 1, b := k + 1)"] k obtain s2 where
    "SimpleThreads which s1 (num(a := k + 1, b := k + 1)) = Some (concat (map (\<lambda>i. [(which a, i), (which b, i)]) [k + 1..<5]), s2)" "in_turn s2 a b" by auto
  then show ?case using s1(2) k(1) by (simp add: upt_rec [of k 5])
qed

text \<open>The messages of the test: threads 0 and 1 in turn, each five times; the first thread has the processor again when it leaves its loop.\<close>

theorem thread_test_alternates:
  assumes "currentThread s = a" "readyList s = []" "threadToBeDestroyed s = None" "threads s a = Some x" "sound_thread x" "threads s t = None"
  shows "\<exists>s'. ThreadTest 1 t junk s = Some (Some [(0, 0), (1, 0), (0, 1), (1, 1), (0, 2), (1, 2), (0, 3), (1, 3), (0, 4), (1, 4)], s')
    \<and> currentThread s' = a \<and> readyList s' = [t]"
proof -
  let ?tcb = "(StackAllocate (Thread_new junk))\<lparr>tstatus := READY\<rparr>"
  let ?s = "s\<lparr>readyList := [t], threads := (threads s)(t \<mapsto> ?tcb)\<rparr>"
  have ne: "a \<noteq> t" using assms(4,6) by auto
  have f: "Fork_section t (set_thread t (Thread_new junk) s) = Some ?s"
    using assms(2) by (simp add: Fork_section_def ReadyToRun_def setThreadStatus_def set_thread_def)
  have "in_turn ?s a t" using assms(1,3-5) ne by (simp add: in_turn_def sound_thread_def StackAllocate_def Thread_new_def)
  from SimpleThreads_alternate [OF this, of "\<lambda>_. 0" 0 "\<lambda>u. if u = t then 1 else 0"] obtain s' where
    "SimpleThreads (\<lambda>u. if u = t then 1 else 0) ?s (\<lambda>_. 0)
      = Some (concat (map (\<lambda>i. [(if a = t then 1 else 0, i), (if t = t then 1 else 0, i)]) [0..<5]), s')" "in_turn s' a t" by auto
  with f ne show ?thesis by (auto simp: ThreadTest_def ThreadTest1_def in_turn_def upt_rec)
qed

text \<open>Only the last argument counts: any argument after \<^verbatim>\<open>-q n\<close> that is not again \<^verbatim>\<open>-q\<close> selects test 1.\<close>

theorem later_argument_selects_test_1:
  assumes "test_number argv n = Some k" "second_char a = Some c" "c \<noteq> 113"
  shows "test_number (argv @ [a]) n = Some 1"
  using assms(1)
proof (induction argv n rule: test_number.induct)
  case (1 n)
  then show ?case using assms(2,3) by simp
next
  case (2 b argv n)
  from 2(3) obtain d where d: "second_char b = Some d" by (cases "second_char b") simp_all
  show ?case
  proof (cases "d = 113")
    case True
    with 2(3) d obtain m argv1 where "argv = m # argv1" "test_number argv1 (atoi m) = Some k" by (cases argv) simp_all
    with 2(1) [OF d True] d True show ?thesis by simp
  next
    case False
    with 2(2) [OF d False] 2(3) d show ?thesis by simp
  qed
qed

end
