(* ===== verification/File_Tools.thy ===== *)
theory File_Tools
  imports File_System Thread_Test
begin

text \<open>
  filesys/fstest.cc, and the part of threads/main.cc that calls it when the kernel is built with its own file system: the commands that copy a
  file of the host into the file system and print, remove and list files, and the performance test.

  The file of the host that \<^verbatim>\<open>Copy\<close> reads is an argument: its bytes, or \<open>None\<close> when it cannot be opened. What a command prints is its result; the
  output of \<^verbatim>\<open>stats->Print\<close> and the debugging output are left out. The records \<open>uninit\<close> stand for the memory that each call finds uninitialised, and
  \<open>junk\<close> for the buffers of the writes, one for each number of bytes that are still to be written.
\<close>

section \<open>Operations\<close>

definition TransferSize :: nat where "TransferSize = 10"

datatype report = CannotOpenInput | CannotCreateOutput | Copied

text \<open>\<^verbatim>\<open>fread\<close> returns the next bytes of the file, at most \<^verbatim>\<open>TransferSize\<close>, and 0 at its end.\<close>

function copy_chunks :: "(nat \<Rightarrow> nat \<Rightarrow> byte) \<Rightarrow> OpenFile \<Rightarrow> byte list \<Rightarrow> disk \<Rightarrow> (OpenFile \<times> disk) option" where
  "copy_chunks junk openFile bs d =
     (let buffer = take TransferSize bs in
      if length buffer > 0 then do {
        (n, openFile1, d1) \<leftarrow> Write (junk (length bs)) openFile buffer (int (length buffer)) d;
        copy_chunks junk openFile1 (drop TransferSize bs) d1 }
      else Some (openFile, d))"
  by auto
termination by (relation "measure (\<lambda>(junk, f, bs, d). length bs)") (auto simp: TransferSize_def)

declare copy_chunks.simps [simp del]

definition Copy ::
    "uninit \<Rightarrow> uninit \<Rightarrow> (nat \<Rightarrow> nat \<Rightarrow> byte) \<Rightarrow> byte list option \<Rightarrow> byte list \<Rightarrow> FileSystem \<Rightarrow> (report \<times> FileSystem) option" where
  "Copy u1 u2 junk from to fs =
     (case from of
        None \<Rightarrow> Some (CannotOpenInput, fs)
      | Some bs \<Rightarrow> do {
          let fileLength = int (length bs);
          (created, fs1) \<leftarrow> Create u1 to fileLength fs;
          if \<not> created then Some (CannotCreateOutput, fs1)
          else do {
            opened \<leftarrow> Open u2 to fs1;
            openFile \<leftarrow> opened;
            (f, d) \<leftarrow> copy_chunks junk openFile bs (fs_disk fs1);
            Some (Copied, fs1\<lparr>fs_disk := d\<rparr>) } })"

partial_function (option) print_chunks :: "OpenFile \<Rightarrow> disk \<Rightarrow> byte list option" where
  "print_chunks openFile d = do {
     (buffer, openFile1) \<leftarrow> Read openFile (int TransferSize) d;
     if length buffer > 0 then do { more \<leftarrow> print_chunks openFile1 d; Some (buffer @ more) }
     else Some [] }"

text \<open>The bytes that are printed; \<open>Some None\<close> is the message that the file cannot be opened.\<close>

definition Print :: "uninit \<Rightarrow> byte list \<Rightarrow> FileSystem \<Rightarrow> byte list option option" where
  "Print u name fs = do {
     opened \<leftarrow> Open u name fs;
     (case opened of
        None \<Rightarrow> Some None
      | Some openFile \<Rightarrow> do { bs \<leftarrow> print_chunks openFile (fs_disk fs); Some (Some bs) }) }"

text \<open>The performance test. Its messages are \<open>CannotCreate\<close>, \<open>CannotOpen\<close>, \<open>CannotWrite\<close>, \<open>CannotRead\<close> and \<open>CannotRemove\<close>.\<close>

datatype complaint = CannotCreate | CannotOpen | CannotWrite | CannotRead | CannotRemove

definition FileName :: "byte list" where "FileName = [84, 101, 115, 116, 70, 105, 108, 101]"
definition Contents :: "byte list" where "Contents = [49, 50, 51, 52, 53, 54, 55, 56, 57, 48]"
definition ContentSize :: nat where "ContentSize = length Contents"
definition FileSize :: nat where "FileSize = ContentSize * 5000"

fun write_contents :: "(nat \<Rightarrow> nat \<Rightarrow> byte) \<Rightarrow> nat \<Rightarrow> OpenFile \<Rightarrow> disk \<Rightarrow> (complaint list \<times> disk) option" where
  "write_contents junk 0 openFile d = Some ([], d)"
| "write_contents junk (Suc i) openFile d = do {
     (n, openFile1, d1) \<leftarrow> Write (junk (Suc i)) openFile Contents (int ContentSize) d;
     if n < 10 then Some ([CannotWrite], d1)
     else write_contents junk i openFile1 d1 }"

definition FileWrite :: "uninit \<Rightarrow> uninit \<Rightarrow> (nat \<Rightarrow> nat \<Rightarrow> byte) \<Rightarrow> FileSystem \<Rightarrow> (complaint list \<times> FileSystem) option" where
  "FileWrite u1 u2 junk fs = do {
     (created, fs1) \<leftarrow> Create u1 FileName 0 fs;
     if \<not> created then Some ([CannotCreate], fs1)
     else do {
       opened \<leftarrow> Open u2 FileName fs1;
       (case opened of
          None \<Rightarrow> Some ([CannotOpen], fs1)
        | Some openFile \<Rightarrow> do {
            (msg, d) \<leftarrow> write_contents junk (FileSize div ContentSize) openFile (fs_disk fs1);
            Some (msg, fs1\<lparr>fs_disk := d\<rparr>) }) } }"

text \<open>\<^verbatim>\<open>strncmp\<close> of the buffer with ten bytes without a zero.\<close>

fun read_contents :: "nat \<Rightarrow> OpenFile \<Rightarrow> disk \<Rightarrow> complaint list option" where
  "read_contents 0 openFile d = Some []"
| "read_contents (Suc i) openFile d = do {
     (buffer, openFile1) \<leftarrow> Read openFile (int ContentSize) d;
     if length buffer < 10 \<or> buffer \<noteq> Contents then Some [CannotRead]
     else read_contents i openFile1 d }"

definition FileRead :: "uninit \<Rightarrow> FileSystem \<Rightarrow> complaint list option" where
  "FileRead u fs = do {
     opened \<leftarrow> Open u FileName fs;
     (case opened of None \<Rightarrow> Some [CannotOpen] | Some openFile \<Rightarrow> read_contents (FileSize div ContentSize) openFile (fs_disk fs)) }"

definition PerformanceTest ::
    "uninit \<Rightarrow> uninit \<Rightarrow> uninit \<Rightarrow> uninit \<Rightarrow> (nat \<Rightarrow> nat \<Rightarrow> byte) \<Rightarrow> FileSystem \<Rightarrow> (complaint list \<times> FileSystem) option" where
  "PerformanceTest u1 u2 u3 u4 junk fs = do {
     (msg, fs1) \<leftarrow> FileWrite u1 u2 junk fs;
     msg1 \<leftarrow> FileRead u3 fs1;
     (removed, fs2) \<leftarrow> FileSystem_Remove u4 FileName fs1;
     Some (msg @ msg1 @ (if removed then [] else [CannotRemove]), fs2) }"

text \<open>The commands in threads/main.cc. \<open>host\<close> has the files of the host; \<open>mem\<close> and \<open>junk\<close> supply the uninitialised memory of a command by the
  number of arguments that are left. The table that \<^verbatim>\<open>-D\<close> prints is left out.\<close>

datatype printed = CopyReport report | PrintedFile "byte list option" | Listing "byte list list" | FullListing | Complaints "complaint list"

definition arg_cp :: "byte list" where "arg_cp = [45, 99, 112]"
definition arg_p :: "byte list" where "arg_p = [45, 112]"
definition arg_r :: "byte list" where "arg_r = [45, 114]"
definition arg_l :: "byte list" where "arg_l = [45, 108]"
definition arg_D :: "byte list" where "arg_D = [45, 68]"
definition arg_t :: "byte list" where "arg_t = [45, 116]"

definition command ::
    "(byte list \<Rightarrow> byte list option) \<Rightarrow> (nat \<Rightarrow> uninit) \<Rightarrow> (nat \<Rightarrow> nat \<Rightarrow> byte) \<Rightarrow> byte list list \<Rightarrow> FileSystem
     \<Rightarrow> (printed list \<times> nat \<times> FileSystem) option" where
  "command host mem junk argv fs =
     (let argc = length argv; a = argv ! 0 in
      if a = arg_cp then do {
        ASSERT (argc > 2);
        (r, fs1) \<leftarrow> Copy (mem 0) (mem 1) junk (host (argv ! 1)) (argv ! 2) fs;
        Some ([CopyReport r], 3, fs1) }
      else if a = arg_p then do {
        ASSERT (argc > 1);
        r \<leftarrow> Print (mem 0) (argv ! 1) fs;
        Some ([PrintedFile r], 2, fs) }
      else if a = arg_r then do {
        ASSERT (argc > 1);
        (r, fs1) \<leftarrow> FileSystem_Remove (mem 0) (argv ! 1) fs;
        Some ([], 2, fs1) }
      else if a = arg_l then do { names \<leftarrow> FileSystem_List (mem 0) fs; Some ([Listing names], 1, fs) }
      else if a = arg_D then Some ([FullListing], 1, fs)
      else if a = arg_t then do {
        (msg, fs1) \<leftarrow> PerformanceTest (mem 0) (mem 1) (mem 2) (mem 3) junk fs;
        Some ([Complaints msg], 1, fs1) }
      else Some ([], 1, fs))"

function commands ::
    "(byte list \<Rightarrow> byte list option) \<Rightarrow> (nat \<Rightarrow> nat \<Rightarrow> uninit) \<Rightarrow> (nat \<Rightarrow> nat \<Rightarrow> nat \<Rightarrow> byte) \<Rightarrow> byte list list \<Rightarrow> FileSystem
     \<Rightarrow> (printed list \<times> FileSystem) option" where
  "commands host mem junk argv fs =
     (if argv = [] then Some ([], fs)
      else do {
        (out, argCount, fs1) \<leftarrow> command host (mem (length argv)) (junk (length argv)) argv fs;
        (more, fs2) \<leftarrow> commands host mem junk (drop argCount argv) fs1;
        Some (out @ more, fs2) })"
  by auto
termination
  by (relation "measure (\<lambda>(host, mem, junk, argv, fs). length argv)")
    (auto simp: command_def Let_def bind_eq_Some_conv split: if_splits)

declare commands.simps [simp del]

text \<open>
  The loop in \<^verbatim>\<open>main\<close>. When \<^verbatim>\<open>THREADS\<close> is defined, as filesys/Makefile does, the arguments are those that the loop of the thread test leaves: it ends with
  \<^verbatim>\<open>argc\<close> = 0, or before with an access through a null pointer, so there are none. The network build has the file system without \<^verbatim>\<open>THREADS\<close>.
\<close>

definition main_commands ::
    "bool \<Rightarrow> (byte list \<Rightarrow> byte list option) \<Rightarrow> (nat \<Rightarrow> nat \<Rightarrow> uninit) \<Rightarrow> (nat \<Rightarrow> nat \<Rightarrow> nat \<Rightarrow> byte) \<Rightarrow> byte list list \<Rightarrow> FileSystem
     \<Rightarrow> (printed list \<times> FileSystem) option" where
  "main_commands threads_defined host mem junk argv fs = do {
     args \<leftarrow> (if threads_defined then do { testnum \<leftarrow> test_number argv 1; Some [] } else Some argv);
     commands host mem junk args fs }"

section \<open>A file that is written in pieces\<close>

lemma entries_disjoint:
  assumes "fs_ok fs" "e \<in> set (live (disk_dir fs))"
  shows "distinct (entry_sectors (fs_disk fs) e)"
    "e' \<in> set (live (disk_dir fs)) \<Longrightarrow> e' \<noteq> e \<Longrightarrow> set (entry_sectors (fs_disk fs) e) \<inter> set (entry_sectors (fs_disk fs) e') = {}"
proof -
  obtain xs ys where l: "live (disk_dir fs) = xs @ e # ys" using assms(2) by (meson split_list)
  then have d: "distinct (concat (map (entry_sectors (fs_disk fs)) (xs @ e # ys)))" using assms(1) by (simp add: fs_ok_def used_sectors_def)
  then show "distinct (entry_sectors (fs_disk fs) e)" by simp
  show "set (entry_sectors (fs_disk fs) e) \<inter> set (entry_sectors (fs_disk fs) e') = {}" if "e' \<in> set (live (disk_dir fs))" "e' \<noteq> e"
    using d that l by auto
qed

text \<open>Writing to the sectors of one file keeps the file system and all other files.\<close>

lemma fs_ok_write:
  assumes "fs_ok fs" "files fs nm = Some h" "disk_ok d'" "\<And>s. s \<notin> set (file_sectors h) \<Longrightarrow> d' s = fs_disk fs s"
  shows "fs_ok (fs\<lparr>fs_disk := d'\<rparr>)" "files (fs\<lparr>fs_disk := d'\<rparr>) = files fs"
    "\<And>nm' h'. files fs nm' = Some h' \<Longrightarrow> nm' \<noteq> nm \<Longrightarrow> file_data h' d' = file_data h' (fs_disk fs)" "header_ok h"
proof -
  obtain e where e: "e \<in> set (live (disk_dir fs))" "h = header_at (fs_disk fs) (sector e)" "key e = nm"
    using assms(2) dir_map_sector by (fastforce simp: files_def)
  have data: "set (file_sectors h) \<subseteq> set (entry_sectors (fs_disk fs) e)" using e(2) by (auto simp: entry_sectors_def)
  have sys: "d' s = fs_disk fs s" if "s \<in> set (system_sectors fs)" for s
    using entry_not_system [OF assms(1) e(1)] data that by (intro assms(4)) auto
  have head: "d' (sector x) = fs_disk fs (sector x)" if "x \<in> set (live (disk_dir fs))" for x
  proof (rule assms(4), cases "x = e")
    case True
    with entries_disjoint(1) [OF assms(1) e(1)] e(2) show "sector x \<notin> set (file_sectors h)" by (simp add: entry_sectors_def)
  next
    case False
    with entries_disjoint(2) [OF assms(1) e(1) that] data show "sector x \<notin> set (file_sectors h)" by (auto simp: entry_sectors_def)
  qed
  have meta: "file_data (hdr (directoryFile fs)) d' = file_data (hdr (directoryFile fs)) (fs_disk fs)"
    "file_data (hdr (freeMapFile fs)) d' = file_data (hdr (freeMapFile fs)) (fs_disk fs)"
    using sys by (auto intro!: file_data_cong simp: system_sectors_def)
  let ?fs = "fs\<lparr>fs_disk := d'\<rparr>"
  have dir: "disk_dir ?fs = disk_dir fs" "disk_map ?fs = disk_map fs" using meta by (simp_all add: disk_dir_def disk_map_def)
  have hdrs: "header_at d' (sector x) = header_at (fs_disk fs) (sector x)" if "x \<in> set (live (disk_dir fs))" for x
    using head [OF that] by (simp add: header_at_def)
  then have "map (entry_sectors d') (live (disk_dir fs)) = map (entry_sectors (fs_disk fs)) (live (disk_dir fs))" by (simp add: entry_sectors_def)
  then have "concat (map (entry_sectors d') (live (disk_dir fs))) = concat (map (entry_sectors (fs_disk fs)) (live (disk_dir fs)))" by (rule arg_cong)
  then have "used_sectors ?fs = used_sectors fs" using dir by (simp add: used_sectors_def system_sectors_def)
  moreover have "meta_ok ?fs" using assms(1,3) dir by (simp add: fs_ok_def meta_ok_def)
  ultimately show "fs_ok ?fs" using assms(1) dir hdrs by (simp add: fs_ok_def)
  show "files ?fs = files fs"
  proof
    fix nm
    show "files ?fs nm = files fs nm"
    proof (cases "dir_map (disk_dir fs) nm")
      case (Some k)
      then obtain x where "x \<in> set (live (disk_dir fs))" "sector x = k" using dir_map_sector by blast
      with Some hdrs [of x] dir show ?thesis by (simp add: files_def)
    qed (simp add: files_def dir)
  qed
  show "header_ok h" using assms(1) e by (auto simp: fs_ok_def)
  show "file_data h' d' = file_data h' (fs_disk fs)" if f: "files fs nm' = Some h'" "nm' \<noteq> nm" for nm' h'
  proof (rule file_data_cong, rule assms(4))
    fix s assume s: "s \<in> set (file_sectors h')"
    obtain x where x: "x \<in> set (live (disk_dir fs))" "h' = header_at (fs_disk fs) (sector x)" "key x = nm'"
      using f(1) dir_map_sector by (fastforce simp: files_def)
    then have "x \<noteq> e" using e(3) f(2) by auto
    from entries_disjoint(2) [OF assms(1) e(1) x(1) this] data s x(2) show "s \<notin> set (file_sectors h)" by (auto simp: entry_sectors_def)
  qed
qed

lemma take_min_length [simp]: "take (min (length xs) n) xs = take n xs"
  by (simp add: min_def)

text \<open>Positions in a file are far from the bounds of an \<^verbatim>\<open>int\<close>.\<close>

lemma position_fits:
  assumes "header_ok h" "p \<le> nat (numBytes h)" "n \<le> 10"
  shows "fits (int p + int n)"
proof -
  have "numBytes h \<le> 1024 * 512" using header_small [OF assms(1)] header_sizes(1) [OF assms(1)] by linarith
  then show ?thesis using assms(2,3) by (simp add: fits_def)
qed

lemma copy_chunks_correct:
  assumes "header_ok (hdr f)" "disk_ok d" "seekPosition f = int p" "p + length bs \<le> nat (numBytes (hdr f))"
  shows "\<exists>f' d'. copy_chunks junk f bs d = Some (f', d') \<and> disk_ok d' \<and> (\<forall>s. s \<notin> set (file_sectors (hdr f)) \<longrightarrow> d' s = d s)
    \<and> file_data (hdr f) d' = take p (file_data (hdr f) d) @ bs @ drop (p + length bs) (file_data (hdr f) d)"
  using assms
proof (induction "length bs" arbitrary: f bs d p rule: less_induct)
  case less
  note h = less.prems
  show ?case
  proof (cases "bs = []")
    case True
    with h(2) show ?thesis by (subst copy_chunks.simps) simp
  next
    case False
    let ?b = "take TransferSize bs" and ?r = "drop TransferSize bs" and ?xs = "file_data (hdr f) d"
    have lb: "0 < length ?b" "length ?b \<le> 10" "length ?b + length ?r = length bs" using False by (auto simp: TransferSize_def)
    have lx: "length ?xs = nat (numBytes (hdr f))" using h(1,2) by simp
    have fit: "fits (int p + int (length ?b))" using h(4) lb(2) by (intro position_fits [OF h(1)]) simp_all
    have new: "take (length ?xs - nat (int p)) (take (nat (int (length ?b))) ?b) = ?b" using lx h(4) lb(3) by (simp add: min_def)
    from WriteAt_correct [OF h(1,2) of_nat_0_le_iff fit, of ?b "junk (length bs)", unfolded new] obtain d1 where
      d1: "WriteAt (junk (length bs)) f ?b (int (length ?b)) (int p) d = Some (int (length ?b), d1)" "disk_ok d1"
      "file_data (hdr f) d1 = take p ?xs @ ?b @ drop (p + length ?b) ?xs" "\<forall>s. s \<notin> set (file_sectors (hdr f)) \<longrightarrow> d1 s = d s"
      by auto
    let ?f = "f\<lparr>seekPosition := int p + int (length ?b)\<rparr>"
    from less.hyps [of ?r ?f d1 "p + length ?b"] h d1(2) lb obtain f' d' where d': "copy_chunks junk ?f ?r d1 = Some (f', d')" "disk_ok d'"
      "\<forall>s. s \<notin> set (file_sectors (hdr f)) \<longrightarrow> d' s = d1 s"
      "file_data (hdr f) d' = take (p + length ?b) (file_data (hdr f) d1) @ ?r @ drop (p + length ?b + length ?r) (file_data (hdr f) d1)" by auto
    have lp: "length (take p ?xs) = p" using h(4) lx by simp
    have "take (p + length ?b) (file_data (hdr f) d1) = take p ?xs @ ?b" unfolding d1(3) using lp by simp
    moreover have "drop (p + length ?b + length ?r) (file_data (hdr f) d1) = drop (p + length bs) ?xs"
      unfolding d1(3) using lp lb(3) by (simp add: add.assoc [symmetric] add.commute [of p])
    ultimately have "file_data (hdr f) d' = take p ?xs @ bs @ drop (p + length bs) ?xs" using d'(4) by simp
    moreover have "copy_chunks junk f bs d = Some (f', d')"
      using False d1(1) d'(1) h(3) lb(1) by (subst copy_chunks.simps) (simp add: Write_def)
    ultimately show ?thesis using d'(2,3) d1(4) by auto
  qed
qed

lemma print_chunks_correct:
  assumes "header_ok (hdr f)" "disk_ok d" "seekPosition f = int p" "p \<le> nat (numBytes (hdr f))"
  shows "print_chunks f d = Some (drop p (file_data (hdr f) d))"
  using assms
proof (induction "nat (numBytes (hdr f)) - p" arbitrary: f p rule: less_induct)
  case less
  note h = less.prems
  let ?xs = "file_data (hdr f) d" and ?b = "take 10 (drop p (file_data (hdr f) d))"
  have lx: "length ?xs = nat (numBytes (hdr f))" using h(1,2) by simp
  have "fits (int p + int 10)" using position_fits [OF h(1,4), of 10] by simp
  with ReadAt_correct [OF h(1,2), of "int p" 10] have r: "Read f (int TransferSize) d = Some (?b, f\<lparr>seekPosition := int p + int (length ?b)\<rparr>)"
    using h(3) by (simp add: Read_def TransferSize_def)
  show ?case
  proof (cases "p = nat (numBytes (hdr f))")
    case True
    with r lx show ?thesis by (subst print_chunks.simps) simp
  next
    case False
    define b where "b = take 10 (drop p ?xs)"
    define k where "k = length b"
    let ?f = "f\<lparr>seekPosition := int (p + k)\<rparr>"
    have k: "0 < k" "p + k \<le> nat (numBytes (hdr f))" using False h(4) lx by (auto simp: k_def b_def)
    have "b = take k (drop p ?xs)" by (simp add: k_def b_def min_def)
    then have split: "b @ drop (p + k) ?xs = drop p ?xs" by (metis append_take_drop_id drop_drop add.commute)
    from less.hyps [of ?f "p + k"] h k have "print_chunks ?f d = Some (drop (p + k) ?xs)" by simp
    moreover have "Read f (int TransferSize) d = Some (b, ?f)" using r by (simp add: b_def [symmetric] k_def)
    ultimately show ?thesis using k(1) split by (subst print_chunks.simps) (simp add: k_def)
  qed
qed

section \<open>The commands on the map of files\<close>

text \<open>The contents of the files by their names.\<close>

definition contents :: "FileSystem \<Rightarrow> byte list \<Rightarrow> byte list option" where
  "contents fs nm = map_option (\<lambda>h. file_data h (fs_disk fs)) (files fs nm)"

lemma Print_contents:
  assumes "fs_ok fs" "uninit_ok u"
  shows "Print u name fs = Some (contents fs (cstr FileNameMaxLen name))"
proof (cases "files fs (cstr FileNameMaxLen name)")
  case None
  then show ?thesis by (simp add: Print_def Open_files [OF assms] contents_def)
next
  case (Some h)
  from fs_ok_write(4) [OF assms(1) Some] assms(1) have "header_ok h" "disk_ok (fs_disk fs)" by (auto simp: fs_ok_def meta_ok_def)
  with print_chunks_correct [of "\<lparr>hdr = h, seekPosition = 0, file_type = raw_type u\<rparr>" "fs_disk fs" 0] Some show ?thesis
    by (simp add: Print_def Open_files [OF assms] contents_def)
qed

lemma Create_contents:
  assumes "fs_ok fs" "uninit_ok u" "0 \<le> n" "n \<le> int MaxFileSize" "room fs name n"
  obtains d h where "Create u name n fs = Some (True, fs\<lparr>fs_disk := d\<rparr>)" "fs_ok (fs\<lparr>fs_disk := d\<rparr>)" "numBytes h = n"
    "files (fs\<lparr>fs_disk := d\<rparr>) (cstr FileNameMaxLen name) = Some h"
    "\<And>nm. nm \<noteq> cstr FileNameMaxLen name \<Longrightarrow> contents (fs\<lparr>fs_disk := d\<rparr>) nm = contents fs nm"
proof -
  from Create_accepted [OF assms] obtain d h where c: "Create u name n fs = Some (True, fs\<lparr>fs_disk := d\<rparr>)" "fs_ok (fs\<lparr>fs_disk := d\<rparr>)" "numBytes h = n"
    "files (fs\<lparr>fs_disk := d\<rparr>) = (files fs)(cstr FileNameMaxLen name \<mapsto> h)"
    "\<forall>nm h'. files fs nm = Some h' \<longrightarrow> file_data h' d = file_data h' (fs_disk fs)" by blast
  have "contents (fs\<lparr>fs_disk := d\<rparr>) nm = contents fs nm" if "nm \<noteq> cstr FileNameMaxLen name" for nm
    using that c(4,5) by (cases "files fs nm") (simp_all add: contents_def)
  with c show thesis by (intro that [of d h]) simp_all
qed

lemma Copy_contents:
  assumes "fs_ok fs" "uninit_ok u1" "uninit_ok u2" "length bs \<le> MaxFileSize" "room fs to (int (length bs))"
  shows "\<exists>fs'. Copy u1 u2 junk (Some bs) to fs = Some (Copied, fs') \<and> fs_ok fs' \<and> contents fs' = (contents fs)(cstr FileNameMaxLen to \<mapsto> bs)"
proof -
  let ?nm = "cstr FileNameMaxLen to"
  have "int (length bs) \<le> int MaxFileSize" using assms(4) by simp
  from Create_contents [OF assms(1,2) _ this assms(5)] obtain d h where c: "Create u1 to (int (length bs)) fs = Some (True, fs\<lparr>fs_disk := d\<rparr>)"
    "fs_ok (fs\<lparr>fs_disk := d\<rparr>)" "numBytes h = int (length bs)" "files (fs\<lparr>fs_disk := d\<rparr>) ?nm = Some h"
    "\<And>nm. nm \<noteq> ?nm \<Longrightarrow> contents (fs\<lparr>fs_disk := d\<rparr>) nm = contents fs nm" by auto
  let ?f = "\<lparr>hdr = h, seekPosition = 0, file_type = raw_type u2\<rparr>" and ?fs = "fs\<lparr>fs_disk := d\<rparr>"
  have ok: "header_ok h" "disk_ok d" using fs_ok_write(4) [OF c(2,4), of d] c(2) by (auto simp: fs_ok_def meta_ok_def)
  from copy_chunks_correct [of ?f d 0 bs junk] ok c(3) obtain f' d' where d': "copy_chunks junk ?f bs d = Some (f', d')" "disk_ok d'"
    "\<forall>s. s \<notin> set (file_sectors h) \<longrightarrow> d' s = d s" "file_data h d' = bs" by auto
  note w = fs_ok_write [OF c(2,4) d'(2), simplified, OF d'(3) [rule_format]]
  have "contents (fs\<lparr>fs_disk := d'\<rparr>) nm = ((contents fs)(?nm \<mapsto> bs)) nm" for nm
  proof (cases "nm = ?nm")
    case True
    with w(2) c(4) d'(4) show ?thesis by (simp add: contents_def)
  next
    case False
    with w(2,3) c(5) [OF False] show ?thesis by (cases "files (fs\<lparr>fs_disk := d\<rparr>) nm") (auto simp: contents_def)
  qed
  then have "contents (fs\<lparr>fs_disk := d'\<rparr>) = (contents fs)(?nm \<mapsto> bs)" by (rule ext)
  moreover have "Copy u1 u2 junk (Some bs) to fs = Some (Copied, fs\<lparr>fs_disk := d'\<rparr>)"
    using c(1) Open_files [OF c(2) assms(3), of to] c(4) d'(1) by (simp add: Copy_def)
  ultimately show ?thesis using w(1) by blast
qed

section \<open>Properties of the file commands\<close>

text \<open>A build with \<^verbatim>\<open>THREADS\<close> executes no command.\<close>

lemma no_commands_with_threads: "main_commands True host mem junk argv fs \<in> {None, Some ([], fs)}"
  by (cases "test_number argv 1") (simp_all add: main_commands_def commands.simps)

text \<open>C15. Copying a file and printing it, with the command line \<^verbatim>\<open>-cp from to -p to\<close> on a consistent file system. In a build without \<^verbatim>\<open>THREADS\<close>
  (network/Makefile) and for a host file that exists: when the name is new, there is room and the file has at most \<open>MaxFileSize\<close> = 64512 bytes, the copy is
  reported, exactly the bytes of the host file are printed, the map from names to contents gets this one entry, no other file changes, and the file system
  stays consistent. Without room for it, or with the name taken, the refusal is reported, nothing changes, and the file that has the name already, if there is one, is printed. A larger
  file for which there is room is undefined behaviour. In a build with \<^verbatim>\<open>THREADS\<close> (filesys/Makefile) the command line does nothing at all, unless it crashes.\<close>

theorem copy_then_print:
  assumes "fs_ok fs" "\<forall>i j. uninit_ok (mem i j)" "host from = Some bs"
  shows "(if room fs to (int (length bs)) then
      if length bs \<le> MaxFileSize then
        \<exists>fs'. main_commands False host mem junk [arg_cp, from, to, arg_p, to] fs = Some ([CopyReport Copied, PrintedFile (Some bs)], fs')
          \<and> fs_ok fs' \<and> contents fs' = (contents fs)(cstr FileNameMaxLen to \<mapsto> bs)
      else main_commands False host mem junk [arg_cp, from, to, arg_p, to] fs = None
    else main_commands False host mem junk [arg_cp, from, to, arg_p, to] fs
      = Some ([CopyReport CannotCreateOutput, PrintedFile (contents fs (cstr FileNameMaxLen to))], fs))
    \<and> main_commands True host mem junk [arg_cp, from, to, arg_p, to] fs \<in> {None, Some ([], fs)}"
proof -
  let ?run = "main_commands False host mem junk [arg_cp, from, to, arg_p, to] fs"
  have run: "?run = Some ([CopyReport r, PrintedFile (contents fs1 (cstr FileNameMaxLen to))], fs1)"
    if "Copy (mem 5 0) (mem 5 1) (junk 5) (Some bs) to fs = Some (r, fs1)" "fs_ok fs1" for r fs1
    using that assms(2,3) Print_contents [of fs1 "mem 2 0" to]
    by (simp add: main_commands_def commands.simps [of host mem junk] command_def arg_cp_def arg_p_def eval_nat_numeral)
  have u: "uninit_ok (mem 5 0)" "uninit_ok (mem 5 1)" using assms(2) by simp_all
  consider (small) "room fs to (int (length bs))" "length bs \<le> MaxFileSize" | (large) "room fs to (int (length bs))" "MaxFileSize < length bs"
    | (no_room) "\<not> room fs to (int (length bs))" by linarith
  then show ?thesis
  proof cases
    case small
    from Copy_contents [OF assms(1) u small(2,1)] obtain fs' where
      "Copy (mem 5 0) (mem 5 1) (junk 5) (Some bs) to fs = Some (Copied, fs')" "fs_ok fs'" "contents fs' = (contents fs)(cstr FileNameMaxLen to \<mapsto> bs)"
      by blast
    with run small no_commands_with_threads show ?thesis by simp
  next
    case large
    then have "Create (mem 5 0) to (int (length bs)) fs = None" using Create_too_big [OF assms(1) u(1) _ large(1)] by simp
    then have "?run = None"
      using assms(3) by (simp add: main_commands_def commands.simps [of host mem junk] command_def arg_cp_def arg_p_def eval_nat_numeral Copy_def)
    then show ?thesis using large no_commands_with_threads by simp
  next
    case no_room
    from Create_refused [OF assms(1) u(1) _ no_room]
    have "Copy (mem 5 0) (mem 5 1) (junk 5) (Some bs) to fs = Some (CannotCreateOutput, fs)" by (simp add: Copy_def)
    with run [OF _ assms(1)] no_room no_commands_with_threads show ?thesis by simp
  qed
qed

theorem copy_then_print_witness:
  "\<exists>fs fs'. FileSystem_new blank_uninit True (\<lambda>_. replicate 512 0) = Some fs
     \<and> main_commands False (\<lambda>_. Some [72, 105]) (\<lambda>_ _. blank_uninit) (\<lambda>_ _ _. 7) [arg_cp, [97], [98], arg_p, [98]] fs
       = Some ([CopyReport Copied, PrintedFile (Some [72, 105])], fs')"
proof -
  from FileSystem_new_format [OF blank_disk_ok blank_uninit_ok] obtain fs h1 h2 where
    fs: "FileSystem_new blank_uninit True (\<lambda>_. replicate 512 0) = Some fs" "fs_ok fs" "files fs = [stdin_name \<mapsto> h1, stdout_name \<mapsto> h2]"
      "length (used_sectors fs) \<le> 6" "length (live (disk_dir fs)) = 2" by blast
  have "room fs [98] 2"
    using fs(3-5) by (simp add: room_def cstr_def FileNameMaxLen_def stdin_name_def stdout_name_def NumDirEntries_def divRoundUp_nonneg SectorSize_def disk_sizes)
  with copy_then_print [OF fs(2), of "\<lambda>_ _. blank_uninit" "\<lambda>_. Some [72, 105]" "[97]" "[72, 105]" "[98]" "\<lambda>_ _ _. 7"] blank_uninit_ok fs(1) show ?thesis
    by (auto simp: MaxFileSize_def NumDirect_def SectorSize_def)
qed

text \<open>The performance test creates an empty file, and files do not grow: its first write and its first read fail, and it leaves the file system as it was.\<close>

theorem performance_test_fails:
  assumes "fs_ok fs" "uninit_ok u1" "uninit_ok u2" "uninit_ok u3" "uninit_ok u4" "room fs FileName 0"
  shows "\<exists>fs'. PerformanceTest u1 u2 u3 u4 junk fs = Some ([CannotWrite, CannotRead], fs') \<and> fs_ok fs' \<and> contents fs' = contents fs"
proof -
  let ?nm = "cstr FileNameMaxLen FileName"
  from Create_contents [OF assms(1,2) _ _ assms(6)] obtain d h where c: "Create u1 FileName 0 fs = Some (True, fs\<lparr>fs_disk := d\<rparr>)"
    "fs_ok (fs\<lparr>fs_disk := d\<rparr>)" "numBytes h = 0" "files (fs\<lparr>fs_disk := d\<rparr>) ?nm = Some h"
    "\<And>nm. nm \<noteq> ?nm \<Longrightarrow> contents (fs\<lparr>fs_disk := d\<rparr>) nm = contents fs nm" by auto
  let ?fs = "fs\<lparr>fs_disk := d\<rparr>" and ?f = "\<lambda>u. \<lparr>hdr = h, seekPosition = 0, file_type = raw_type u\<rparr>"
  have "FileSize div ContentSize \<noteq> 0" by (simp add: FileSize_def ContentSize_def Contents_def)
  then obtain k where n: "FileSize div ContentSize = Suc k" by (cases "FileSize div ContentSize") auto
  have w: "FileWrite u1 u2 junk fs = Some ([CannotWrite], ?fs)"
    using c(1,3,4) Open_files [OF c(2) assms(3), of FileName] by (simp add: FileWrite_def n Write_def WriteAt_def FileLength_def Let_def)
  have r: "FileRead u3 ?fs = Some [CannotRead]"
    using c(3,4) Open_files [OF c(2) assms(4), of FileName] by (simp add: FileRead_def n Read_def ReadAt_def FileLength_def Let_def)
  from Remove_present [OF c(2) assms(5), of FileName] c(4) obtain d' where d': "FileSystem_Remove u4 FileName ?fs = Some (True, fs\<lparr>fs_disk := d'\<rparr>)"
    "fs_ok (fs\<lparr>fs_disk := d'\<rparr>)" "files (fs\<lparr>fs_disk := d'\<rparr>) = (files ?fs)(?nm := None)"
    "\<forall>nm h. files ?fs nm = Some h \<longrightarrow> file_data h d' = file_data h d" by auto
  have "contents (fs\<lparr>fs_disk := d'\<rparr>) nm = contents fs nm" for nm
  proof (cases "nm = ?nm")
    case True
    with d'(3) assms(6) show ?thesis by (simp add: contents_def room_def)
  next
    case False
    with c(5) [OF False] d'(3,4) show ?thesis by (cases "files ?fs nm") (auto simp: contents_def)
  qed
  then have "contents (fs\<lparr>fs_disk := d'\<rparr>) = contents fs" by (rule ext)
  with w r d'(1,2) show ?thesis by (simp add: PerformanceTest_def)
qed

end
