(* ===== verification/Synch_Devices.thy ===== *)
theory Synch_Devices
  imports Devices Open_File
begin

text \<open>
  threads/synch.cc (\<^verbatim>\<open>P\<close> as a whole), threads/thread.cc (the loop of \<^verbatim>\<open>Sleep\<close>), filesys/synchdisk.cc and
  threads/synchcons.cc: operations that wait for a device.

  A thread that waits goes through the idle loop of the scheduler, in which the interrupts are served that wake it. What the other
  threads do while the processor is theirs is the parameter \<open>others\<close>: given the waiting thread and the state in which another
  thread has been switched to, it is the state in which the waiting thread runs again. \<open>Y\<close> is \<^verbatim>\<open>currentThread->Yield()\<close>,
  called at the end of a time slice.
\<close>

section \<open>Operations\<close>

text \<open>\<^verbatim>\<open>Halt\<close> ends the simulation: \<open>Halts\<close> has the state at that point.\<close>

datatype ('a, 's) outcome = Halts 's | Returns 'a 's

definition then_run :: "('a, 's) outcome option \<Rightarrow> ('a \<Rightarrow> 's \<Rightarrow> ('b, 's) outcome option) \<Rightarrow> ('b, 's) outcome option" where
  "then_run m f = do { r \<leftarrow> m; (case r of Halts s \<Rightarrow> Some (Halts s) | Returns a s \<Rightarrow> f a s) }"

text \<open>The waiting operations are the same for every table \<open>H\<close> of interrupt handlers.\<close>

partial_function (option) Sleep_loop ::
    "('h \<Rightarrow> int \<Rightarrow> ('h, 'z) kernel_scheme \<Rightarrow> ('h, 'z) kernel_scheme option) \<Rightarrow> ('h, 'z) kernel_scheme
     \<Rightarrow> (unit, ('h, 'z) kernel_scheme) outcome option" where
  "Sleep_loop H s = do {
     (found, s1) \<leftarrow> Sleep_round s;
     if found then Some (Returns () s1)
     else do {
       (back, s2) \<leftarrow> Idle H s1;
       if back then Sleep_loop H s2 else Some (Halts s2) } }"

partial_function (option) P_loop ::
    "('h \<Rightarrow> int \<Rightarrow> ('h, 'z) kernel_scheme \<Rightarrow> ('h, 'z) kernel_scheme option)
     \<Rightarrow> (nat \<Rightarrow> ('h, 'z) kernel_scheme \<Rightarrow> (unit, ('h, 'z) kernel_scheme) outcome option) \<Rightarrow> nat \<Rightarrow> ('h, 'z) kernel_scheme
     \<Rightarrow> (unit, ('h, 'z) kernel_scheme) outcome option" where
  "P_loop H others k s = do {
     (took, s1) \<leftarrow> P_section k s;
     if took then Some (Returns () s1)
     else do {
       r \<leftarrow> Sleep_loop H s1;
       (case r of
          Halts s2 \<Rightarrow> Some (Halts s2)
        | Returns u s2 \<Rightarrow>
            if currentThread s2 = currentThread s then P_loop H others k s2
            else do {
              r' \<leftarrow> others (currentThread s) s2;
              (case r' of Halts s3 \<Rightarrow> Some (Halts s3) | Returns u' s3 \<Rightarrow> P_loop H others k s3) }) } }"

definition P_with ::
    "('h \<Rightarrow> int \<Rightarrow> ('h, 'z) kernel_scheme \<Rightarrow> ('h, 'z) kernel_scheme option)
     \<Rightarrow> (('h, 'z) kernel_scheme \<Rightarrow> ('h, 'z) kernel_scheme option)
     \<Rightarrow> (nat \<Rightarrow> ('h, 'z) kernel_scheme \<Rightarrow> (unit, ('h, 'z) kernel_scheme) outcome option) \<Rightarrow> nat \<Rightarrow> ('h, 'z) kernel_scheme
     \<Rightarrow> (unit, ('h, 'z) kernel_scheme) outcome option" where
  "P_with H Y others k s = do {
     (oldLevel, s1) \<leftarrow> SetLevel H Y IntOff s;
     then_run (P_loop H others k s1) (\<lambda>u s2. do {
       (l, s3) \<leftarrow> SetLevel H Y oldLevel s2;
       Some (Returns () s3) }) }"

definition Semaphore_P ::
    "('z devices_scheme \<Rightarrow> 'z devices_scheme option)
     \<Rightarrow> (nat \<Rightarrow> 'z devices_scheme \<Rightarrow> (unit, 'z devices_scheme) outcome option) \<Rightarrow> nat \<Rightarrow> 'z devices_scheme
     \<Rightarrow> (unit, 'z devices_scheme) outcome option" where
  "Semaphore_P Y others k s = P_with run_handler Y others k s"

definition Semaphore_V ::
    "('z devices_scheme \<Rightarrow> 'z devices_scheme option) \<Rightarrow> nat \<Rightarrow> 'z devices_scheme \<Rightarrow> 'z devices_scheme option" where
  "Semaphore_V Y k s = V run_handler Y k s"

text \<open>The synchronous disk. The operations of \<^verbatim>\<open>Lock\<close> (threads/synch.cc) are empty.\<close>

definition Lock_Acquire :: "'s \<Rightarrow> 's" where "Lock_Acquire s = s"
definition Lock_Release :: "'s \<Rightarrow> 's" where "Lock_Release s = s"

definition SynchDisk_ReadSector ::
    "('z devices_scheme \<Rightarrow> 'z devices_scheme option)
     \<Rightarrow> (nat \<Rightarrow> 'z devices_scheme \<Rightarrow> (unit, 'z devices_scheme) outcome option) \<Rightarrow> int \<Rightarrow> 'z devices_scheme
     \<Rightarrow> (byte list, 'z devices_scheme) outcome option" where
  "SynchDisk_ReadSector Y others sectorNumber s = do {
     (data, s1) \<leftarrow> ReadRequest sectorNumber (Lock_Acquire s);
     then_run (Semaphore_P Y others disk_sem s1) (\<lambda>u s2. Some (Returns data (Lock_Release s2))) }"

definition SynchDisk_WriteSector ::
    "('z devices_scheme \<Rightarrow> 'z devices_scheme option)
     \<Rightarrow> (nat \<Rightarrow> 'z devices_scheme \<Rightarrow> (unit, 'z devices_scheme) outcome option) \<Rightarrow> int \<Rightarrow> byte list \<Rightarrow> 'z devices_scheme
     \<Rightarrow> (unit, 'z devices_scheme) outcome option" where
  "SynchDisk_WriteSector Y others sectorNumber data s = do {
     s1 \<leftarrow> WriteRequest sectorNumber data (Lock_Acquire s);
     then_run (Semaphore_P Y others disk_sem s1) (\<lambda>u s2. Some (Returns () (Lock_Release s2))) }"

text \<open>The synchronous console. \<open>ch0\<close> is the value of the local variable \<^verbatim>\<open>ch\<close> before its first assignment.\<close>

fun put_chars ::
    "('z devices_scheme \<Rightarrow> 'z devices_scheme option)
     \<Rightarrow> (nat \<Rightarrow> 'z devices_scheme \<Rightarrow> (unit, 'z devices_scheme) outcome option) \<Rightarrow> byte list \<Rightarrow> 'z devices_scheme
     \<Rightarrow> (unit, 'z devices_scheme) outcome option" where
  "put_chars Y others [] s = Some (Returns () s)"
| "put_chars Y others (c # cs) s = do {
     s1 \<leftarrow> PutChar c s;
     then_run (Semaphore_P Y others synchWriteAvail s1) (\<lambda>u. put_chars Y others cs) }"

definition SynchConsole_Write ::
    "('z devices_scheme \<Rightarrow> 'z devices_scheme option)
     \<Rightarrow> (nat \<Rightarrow> 'z devices_scheme \<Rightarrow> (unit, 'z devices_scheme) outcome option) \<Rightarrow> byte list \<Rightarrow> int \<Rightarrow> 'z devices_scheme
     \<Rightarrow> (int, 'z devices_scheme) outcome option" where
  "SynchConsole_Write Y others from nbytes s =
     then_run (Semaphore_P Y others WLineBlock s) (\<lambda>u s1. do {
       ASSERT (nat nbytes \<le> length from);
       then_run (put_chars Y others (take (nat nbytes) from) s1) (\<lambda>u s2. do {
         s3 \<leftarrow> Semaphore_V Y WLineBlock s2;
         Some (Returns nbytes s3) }) })"

partial_function (option) read_char ::
    "('z devices_scheme \<Rightarrow> 'z devices_scheme option)
     \<Rightarrow> (nat \<Rightarrow> 'z devices_scheme \<Rightarrow> (unit, 'z devices_scheme) outcome option) \<Rightarrow> 'z devices_scheme
     \<Rightarrow> (byte, 'z devices_scheme) outcome option" where
  "read_char Y others s = do {
     r \<leftarrow> Semaphore_P Y others synchReadAvail s;
     (case r of
        Halts s1 \<Rightarrow> Some (Halts s1)
      | Returns u s1 \<Rightarrow>
          (let (ch, s2) = GetChar s1 in
           if ch = EOF_char then read_char Y others s2 else Some (Returns ch s2))) }"

fun read_chars ::
    "('z devices_scheme \<Rightarrow> 'z devices_scheme option)
     \<Rightarrow> (nat \<Rightarrow> 'z devices_scheme \<Rightarrow> (unit, 'z devices_scheme) outcome option) \<Rightarrow> nat \<Rightarrow> byte list \<Rightarrow> byte
     \<Rightarrow> 'z devices_scheme \<Rightarrow> (byte \<times> byte list, 'z devices_scheme) outcome option" where
  "read_chars Y others 0 got ch s = Some (Returns (ch, got) s)"
| "read_chars Y others (Suc left) got ch s =
     then_run (read_char Y others s) (\<lambda>c s1.
       if c = 10 \<or> c = 1 then Some (Returns (c, got) s1)
       else read_chars Y others left (got @ [c]) c s1)"

definition SynchConsole_Read ::
    "('z devices_scheme \<Rightarrow> 'z devices_scheme option)
     \<Rightarrow> (nat \<Rightarrow> 'z devices_scheme \<Rightarrow> (unit, 'z devices_scheme) outcome option) \<Rightarrow> byte \<Rightarrow> int \<Rightarrow> 'z devices_scheme
     \<Rightarrow> (int \<times> byte list, 'z devices_scheme) outcome option" where
  "SynchConsole_Read Y others ch0 nbytes s =
     then_run (Semaphore_P Y others RLineBlock s) (\<lambda>u s1.
       then_run (read_chars Y others (nat nbytes) [] ch0 s1) (\<lambda>(ch, got) s2. do {
         s3 \<leftarrow> Semaphore_V Y RLineBlock s2;
         Some (Returns (if ch = 1 then -1 else int (length got), got @ replicate (nat nbytes - length got) 0) s3) }))"

lemma then_run_simps [simp]:
  "then_run None f = None" "then_run (Some (Halts s)) f = Some (Halts s)" "then_run (Some (Returns a s)) f = f a s"
  by (simp_all add: then_run_def)

lemma then_run_Returns:
  "then_run m f = Some (Returns b s') \<longleftrightarrow> (\<exists>a s1. m = Some (Returns a s1) \<and> f a s1 = Some (Returns b s'))"
proof (cases m)
  case (Some r)
  then show ?thesis by (cases r) simp_all
qed simp

section \<open>A thread that waits alone\<close>

text \<open>The characters to come: the one the console holds, and those that the polls will find. A typed \<^verbatim>\<open>EOF\<close> is not delivered.\<close>

fun keys :: "byte option list \<Rightarrow> byte list" where
  "keys [] = []"
| "keys (None # ks) = keys ks"
| "keys (Some c # ks) = c # keys ks"

definition typed :: "'z devices_scheme \<Rightarrow> byte list" where
  "typed s = (if incoming s = EOF_char then [] else [incoming s]) @ filter (\<lambda>c. c \<noteq> EOF_char) (keys (keyboard s))"

text \<open>How often \<open>P\<close> can still be passed on a semaphore, when every request in progress completes.\<close>

definition tokens :: "'z devices_scheme \<Rightarrow> nat \<Rightarrow> int" where
  "tokens s j = sem_value (sems s j) +
     (if j = disk_sem then of_bool (active s) else if j = synchWriteAvail then of_bool (putBusy s)
      else if j = synchReadAvail then int (length (keys (keyboard s))) else 0)"

definition pend_of :: "device_handler \<Rightarrow> (int \<times> device_handler PendingInterrupt) multiset \<Rightarrow> nat" where
  "pend_of h M = size (filter_mset (\<lambda>q. handler (snd q) = h) M)"

text \<open>Each request in progress has its completion interrupt pending, the keyboard is being polled, and there is no timer.
  A character held by the console has been signalled; \<open>g\<close> says that the signal has been consumed and the character is about to be fetched.\<close>

definition device_sync :: "bool \<Rightarrow> (int \<times> device_handler PendingInterrupt) multiset \<Rightarrow> 'z devices_scheme \<Rightarrow> bool" where
  "device_sync g M s \<longleftrightarrow> (\<forall>q \<in># M. handler (snd q) \<noteq> TimerHandler \<and> int_type (snd q) \<noteq> TimerInt)
     \<and> pend_of DiskDone M = of_bool (active s) \<and> pend_of ConsoleWriteDone M = of_bool (putBusy s) \<and> pend_of ConsoleReadPoll M = 1
     \<and> (incoming s \<noteq> EOF_char \<longrightarrow> g \<or> 0 < sem_value (sems s synchReadAvail)) \<and> (\<forall>j. 0 \<le> sem_value (sems s j))"

text \<open>What the interrupt handlers leave alone.\<close>

definition frozen :: "'z devices_scheme \<Rightarrow> 'z devices_scheme \<Rightarrow> bool" where
  "frozen s0 s \<longleftrightarrow> currentThread s = currentThread s0 \<and> threadToBeDestroyed s = threadToBeDestroyed s0
     \<and> (\<forall>t. map_option (tstatus_update (\<lambda>_. RUNNING)) (threads s t) = map_option (tstatus_update (\<lambda>_. RUNNING)) (threads s0 t))
     \<and> (\<forall>t. t \<noteq> currentThread s0 \<longrightarrow> threads s t = threads s0 t)
     \<and> randomize s = randomize s0 \<and> random s = random s0 \<and> lastSector s = lastSector s0 \<and> bufferInit s = bufferInit s0
     \<and> sectors s = sectors s0 \<and> display s = display s0 \<and> devices.more s = devices.more s0 \<and> typed s = typed s0 \<and> tokens s = tokens s0"

text \<open>The current thread runs; it sleeps on the semaphore \<open>k\<close>; or it has been woken. No other thread waits, and while the current
  thread sleeps no other is ready.\<close>

definition up :: "'z devices_scheme \<Rightarrow> bool" where
  "up s \<longleftrightarrow> stat s (currentThread s) = Some RUNNING \<and> (\<forall>j. sem_queue (sems s j) = [])"
definition asleep :: "nat \<Rightarrow> 'z devices_scheme \<Rightarrow> bool" where
  "asleep k s \<longleftrightarrow> readyList s = [] \<and> stat s (currentThread s) = Some BLOCKED \<and> sem_value (sems s k) = 0
     \<and> (\<forall>j. sem_queue (sems s j) = (if j = k then [currentThread s] else []))"
definition awake :: "nat \<Rightarrow> 'z devices_scheme \<Rightarrow> bool" where
  "awake k s \<longleftrightarrow> readyList s = [currentThread s] \<and> stat s (currentThread s) = Some READY \<and> 0 < sem_value (sems s k)
     \<and> (\<forall>j. sem_queue (sems s j) = [])"

fun phase :: "nat option \<Rightarrow> 'z devices_scheme \<Rightarrow> bool" where
  "phase None s = up s"
| "phase (Some k) s = (asleep k s \<or> awake k s)"

definition wait_inv :: "bool \<Rightarrow> int \<Rightarrow> 'z devices_scheme \<Rightarrow> nat option \<Rightarrow> (int \<times> device_handler PendingInterrupt) multiset
    \<Rightarrow> 'z devices_scheme \<Rightarrow> bool" where
  "wait_inv g T s0 w M s \<longleftrightarrow> device_sync g M s \<and> frozen s0 s \<and> phase w s \<and> (w = None \<longrightarrow> readyList s = readyList s0)
     \<and> (\<forall>q \<in># M. handler (snd q) \<noteq> ConsoleReadPoll \<longrightarrow> fst q \<le> T)"

lemmas semaphore_ids = disk_sem_def synchReadAvail_def synchWriteAvail_def RLineBlock_def WLineBlock_def

text \<open>A \<open>V\<close> in such a state wakes at most the thread itself.\<close>

lemma V_alone_cases:
  assumes "V_section j s = Some s'" "phase w s"
  obtains (count) "sem_queue (sems s j) = []"
      "s' = s\<lparr>sems := (sems s)(j := (sems s j)\<lparr>sem_value := sem_value (sems s j) + 1\<rparr>)\<rparr>"
    | (wake) tcb where "w = Some j" "asleep j s" "threads s (currentThread s) = Some tcb"
      "s' = s\<lparr>readyList := [currentThread s], threads := (threads s)(currentThread s \<mapsto> tcb\<lparr>tstatus := READY\<rparr>),
        sems := (sems s)(j := (sems s j)\<lparr>sem_queue := [], sem_value := 1\<rparr>)\<rparr>"
proof (cases "sem_queue (sems s j)")
  case Nil
  then have "s' = s\<lparr>sems := (sems s)(j := (sems s j)\<lparr>sem_value := sem_value (sems s j) + 1\<rparr>)\<rparr>"
    using assms(1) by (simp add: V_section_def Let_def set_sem_def)
  then show thesis using Nil count by blast
next
  case (Cons t ts)
  obtain k where w: "w = Some k" "asleep k s" using assms(2) Cons by (cases w) (auto simp: up_def awake_def)
  then have "k = j" using Cons by (metis asleep_def list.distinct(1))
  with Cons w have a: "w = Some j" "asleep j s" "t = currentThread s" "ts = []" "readyList s = []" "sem_value (sems s j) = 0"
    by (simp_all add: asleep_def)
  then obtain tcb where tcb: "threads s (currentThread s) = Some tcb" by (auto simp: asleep_def stat_def)
  have "s' = s\<lparr>readyList := [currentThread s], threads := (threads s)(currentThread s \<mapsto> tcb\<lparr>tstatus := READY\<rparr>),
        sems := (sems s)(j := (sems s j)\<lparr>sem_queue := [], sem_value := 1\<rparr>)\<rparr>"
    using assms(1) Cons a tcb by (auto simp: V_section_def Let_def set_sem_def bind_eq_Some_conv ReadyToRun_Some)
  with a tcb show thesis using wake by blast
qed

lemma V_wakes_self:
  assumes "V_section j s = Some s'" "phase w s" "\<forall>j. 0 \<le> sem_value (sems s j)"
  shows "phase w s'" "sem_value (sems s' i) = sem_value (sems s i) + of_bool (i = j)" "w = None \<Longrightarrow> readyList s' = readyList s"
proof -
  have "phase w s' \<and> sem_value (sems s' i) = sem_value (sems s i) + of_bool (i = j) \<and> (w = None \<longrightarrow> readyList s' = readyList s)"
    using assms(1,2)
  proof (cases rule: V_alone_cases)
    case count
    have st: "stat s' t = stat s t" "readyList s' = readyList s" "currentThread s' = currentThread s"
      "sem_queue (sems s' i) = sem_queue (sems s i)"
      "sem_value (sems s' i) = sem_value (sems s i) + of_bool (i = j)" for t i
      using count(2) by (simp_all add: stat_def)
    show ?thesis
      using count(1) assms(2,3) by (cases w) (auto simp: up_def asleep_def awake_def st intro: add_pos_nonneg)
  next
    case (wake tcb)
    then show ?thesis by (simp add: asleep_def awake_def stat_def)
  qed
  then show "phase w s'" "sem_value (sems s' i) = sem_value (sems s i) + of_bool (i = j)" "w = None \<Longrightarrow> readyList s' = readyList s" by blast+
qed

lemma V_frame:
  assumes "V_section j s = Some s'" "phase w s"
  shows "currentThread s' = currentThread s"
    "threadToBeDestroyed s' = threadToBeDestroyed s" "devices.more s' = devices.more s"
    "randomize s' = randomize s" "random s' = random s" "lastSector s' = lastSector s" "bufferInit s' = bufferInit s"
    "sectors s' = sectors s" "display s' = display s" "incoming s' = incoming s" "keyboard s' = keyboard s"
    "active s' = active s" "putBusy s' = putBusy s"
    "map_option (tstatus_update (\<lambda>_. RUNNING)) (threads s' t) = map_option (tstatus_update (\<lambda>_. RUNNING)) (threads s t)"
    "t \<noteq> currentThread s \<Longrightarrow> threads s' t = threads s t"
  using assms by (cases rule: V_alone_cases; simp)+

lemma phase_cong:
  assumes "readyList s' = readyList s" "threads s' = threads s" "currentThread s' = currentThread s" "sems s' = sems s"
  shows "phase w s' = phase w s"
  using assms by (cases w) (simp_all add: up_def asleep_def awake_def stat_def)

text \<open>A handler changes fields of its device (the state \<open>s1\<close>) and calls \<open>V\<close>, which makes up for the token it took.\<close>

lemma handler_V:
  assumes "V_section j s1 = Some s'" "frozen s0 s" "phase w s" "\<forall>j. 0 \<le> sem_value (sems s j)"
    "readyList s1 = readyList s" "threads s1 = threads s" "currentThread s1 = currentThread s" "sems s1 = sems s"
    "threadToBeDestroyed s1 = threadToBeDestroyed s" "devices.more s1 = devices.more s" "randomize s1 = randomize s"
    "random s1 = random s" "lastSector s1 = lastSector s" "bufferInit s1 = bufferInit s" "sectors s1 = sectors s"
    "display s1 = display s" "typed s1 = typed s" "\<And>i. tokens s i = tokens s1 i + of_bool (i = j)"
  shows "frozen s0 s'" "phase w s'" "\<forall>j. 0 \<le> sem_value (sems s' j)"
    "sem_value (sems s' i) = sem_value (sems s i) + of_bool (i = j)"
    "active s' = active s1" "putBusy s' = putBusy s1" "incoming s' = incoming s1" "keyboard s' = keyboard s1"
    "pending s' = pending s1" "mach s' = mach s1" "yieldOnReturn s' = yieldOnReturn s1" "w = None \<Longrightarrow> readyList s' = readyList s"
proof -
  have p: "phase w s1" using assms(3) by (simp add: phase_cong [OF assms(5-8)])
  have nn: "\<forall>j. 0 \<le> sem_value (sems s1 j)" using assms(4,8) by simp
  note v = V_wakes_self [OF assms(1) p nn] and fr = V_frame [OF assms(1) p] and hw = V_section_hw [OF assms(1)]
  show "phase w s'" by (rule v(1))
  show "\<forall>j. 0 \<le> sem_value (sems s' j)" using v(2) nn by simp
  show "sem_value (sems s' i) = sem_value (sems s i) + of_bool (i = j)" using v(2) assms(8) by simp
  show "w = None \<Longrightarrow> readyList s' = readyList s" using v(3) assms(5) by simp
  show "active s' = active s1" "putBusy s' = putBusy s1" "incoming s' = incoming s1" "keyboard s' = keyboard s1"
    "pending s' = pending s1" "mach s' = mach s1" "yieldOnReturn s' = yieldOnReturn s1"
    using fr hw by simp_all
  have "tokens s' i = tokens s i" for i
    using assms(18) [of i] v(2) [of i] by (simp add: tokens_def fr)
  then have t: "tokens s' = tokens s" by (rule ext)
  have "typed s' = typed s1" by (simp add: typed_def fr)
  then have y: "typed s' = typed s" using assms(17) by simp
  show "frozen s0 s'"
    using assms(2,6,7,9-16) t y fr unfolding frozen_def by simp
qed

lemma pend_of_add: "pend_of h (add_mset q M) = of_bool (handler (snd q) = h) + pend_of h M"
  by (simp add: pend_of_def)

lemma wait_inv_disk:
  assumes "wait_inv g T s0 w (add_mset (t, p) (mset (pending s))) s" "level s = IntOff" "handler p = DiskDone"
    "run_handler (handler p) (arg p) s = Some s'"
  shows "wait_inv g T s0 w (mset (pending s')) s' \<and> mach s' = mach s \<and> yieldOnReturn s' = yieldOnReturn s"
proof -
  let ?s1 = "s\<lparr>active := False\<rparr>"
  have v: "V_section disk_sem ?s1 = Some s'"
    using assms by (simp add: run_handler_def Disk_HandleInterrupt_def RequestDone_def V_in_handler_def V_interrupts_off)
  have a: "active s" "pend_of DiskDone (mset (pending s)) = 0"
    using assms(1,3) by (auto simp: wait_inv_def device_sync_def pend_of_add of_bool_def split: if_splits)
  have tok: "tokens s i = tokens ?s1 i + of_bool (i = disk_sem)" for i
    using a(1) by (simp add: tokens_def semaphore_ids)
  have inv: "frozen s0 s" "phase w s" "\<forall>j. 0 \<le> sem_value (sems s j)"
    using assms(1) by (auto simp: wait_inv_def device_sync_def)
  note h = handler_V [OF v inv _ _ _ _ _ _ _ _ _ _ _ _ _ tok, simplified]
  show ?thesis
    using assms(1,3) a h by (auto simp: wait_inv_def device_sync_def pend_of_add typed_def)
qed

lemma wait_inv_write:
  assumes "wait_inv g T s0 w (add_mset (t, p) (mset (pending s))) s" "level s = IntOff" "handler p = ConsoleWriteDone"
    "run_handler (handler p) (arg p) s = Some s'"
  shows "wait_inv g T s0 w (mset (pending s')) s' \<and> mach s' = mach s \<and> yieldOnReturn s' = yieldOnReturn s"
proof -
  let ?s1 = "s\<lparr>putBusy := False, stats := (stats s)\<lparr>numConsoleCharsWritten := numConsoleCharsWritten (stats s) + 1\<rparr>\<rparr>"
  have v: "V_section synchWriteAvail ?s1 = Some s'"
    using assms by (simp add: run_handler_def WriteDone_def SynchWriteFunct_def V_in_handler_def V_interrupts_off)
  have a: "putBusy s" "pend_of ConsoleWriteDone (mset (pending s)) = 0"
    using assms(1,3) by (auto simp: wait_inv_def device_sync_def pend_of_add of_bool_def split: if_splits)
  have tok: "tokens s i = tokens ?s1 i + of_bool (i = synchWriteAvail)" for i
    using a(1) by (simp add: tokens_def semaphore_ids)
  have inv: "frozen s0 s" "phase w s" "\<forall>j. 0 \<le> sem_value (sems s j)"
    using assms(1) by (auto simp: wait_inv_def device_sync_def)
  note h = handler_V [OF v inv _ _ _ _ _ _ _ _ _ _ _ _ _ tok, simplified]
  show ?thesis
    using assms(1,3) a h by (auto simp: wait_inv_def device_sync_def pend_of_add typed_def)
qed

lemma wait_inv_poll:
  assumes "wait_inv g T s0 w (add_mset (t, p) (mset (pending s))) s" "level s = IntOff" "handler p = ConsoleReadPoll"
    "run_handler (handler p) (arg p) s = Some s'"
  shows "wait_inv g T s0 w (mset (pending s')) s' \<and> mach s' = mach s \<and> yieldOnReturn s' = yieldOnReturn s"
proof -
  let ?q = "(now s + ConsoleTime, \<lparr>handler = ConsoleReadPoll, arg = 0, int_type = ConsoleReadInt\<rparr>)"
  let ?s1 = "s\<lparr>pending := insert_key (fst ?q) (snd ?q) (pending s)\<rparr>"
  have inv: "frozen s0 s" "phase w s" "\<forall>j. 0 \<le> sem_value (sems s j)"
    using assms(1) by (auto simp: wait_inv_def device_sync_def)
  have same: "frozen s0 s2" "phase w s2"
    if "s2 = ?s1 \<or> (\<exists>ps. keyboard s = None # ps \<and> s2 = ?s1\<lparr>keyboard := ps\<rparr>)" for s2
  proof -
    have k: "keys (keyboard s2) = keys (keyboard s)" using that by auto
    have f: "readyList s2 = readyList s" "threads s2 = threads s" "currentThread s2 = currentThread s" "sems s2 = sems s"
      "threadToBeDestroyed s2 = threadToBeDestroyed s" "devices.more s2 = devices.more s" "randomize s2 = randomize s"
      "random s2 = random s" "lastSector s2 = lastSector s" "bufferInit s2 = bufferInit s" "sectors s2 = sectors s"
      "display s2 = display s" "active s2 = active s" "putBusy s2 = putBusy s" "incoming s2 = incoming s"
      using that by auto
    have "typed s2 = typed s" "tokens s2 = tokens s" using f k by (simp_all add: typed_def tokens_def fun_eq_iff)
    then show "frozen s0 s2" using inv(1) f by (simp add: frozen_def)
    show "phase w s2" using inv(2) by (simp only: phase_cong [OF f(1-4)])
  qed
  have p0: "pend_of ConsoleReadPoll (mset (pending s)) = 0" using assms(1,3) by (simp add: wait_inv_def device_sync_def pend_of_add)
  have s1: "Schedule ConsoleReadPoll 0 ConsoleTime ConsoleReadInt s = Some ?s1" by (simp add: Schedule_def ConsoleTime_def)
  consider (busy) "s' = ?s1" | (none) ps where "keyboard s = None # ps" "s' = ?s1\<lparr>keyboard := ps\<rparr>"
    | (some) c ps where "incoming s = EOF_char" "keyboard s = Some c # ps"
      "V_section synchReadAvail (?s1\<lparr>keyboard := ps, incoming := c,
             stats := (stats ?s1)\<lparr>numConsoleCharsRead := numConsoleCharsRead (stats ?s1) + 1\<rparr>\<rparr>) = Some s'"
  proof -
    have c: "CheckCharAvail s = Some s'" using assms(3,4) by (simp add: run_handler_def)
    show thesis
    proof (cases "incoming s \<noteq> EOF_char \<or> keyboard s = []")
      case True
      with c s1 have "s' = ?s1" by (auto simp: CheckCharAvail_def split: if_splits)
      then show thesis by (rule busy)
    next
      case False
      then obtain x ps where k: "incoming s = EOF_char" "keyboard s = x # ps" by (cases "keyboard s") auto
      show thesis
      proof (cases x)
        case None
        with c s1 k show thesis by (intro none [of ps]) (simp_all add: CheckCharAvail_def)
      next
        case (Some a)
        with c s1 k assms(2) show thesis
          by (intro some [of a ps]) (simp_all add: CheckCharAvail_def SynchReadFunct_def V_in_handler_def V_interrupts_off)
      qed
    qed
  qed
  then show ?thesis
  proof cases
    case busy
    with same [of s'] assms(1,3) p0 show ?thesis by (auto simp: wait_inv_def device_sync_def pend_of_add insert_key_mset)
  next
    case (none ps)
    with same [of s'] assms(1,3) p0 show ?thesis by (auto simp: wait_inv_def device_sync_def pend_of_add insert_key_mset)
  next
    case (some c ps)
    let ?s2 = "?s1\<lparr>keyboard := ps, incoming := c, stats := (stats ?s1)\<lparr>numConsoleCharsRead := numConsoleCharsRead (stats ?s1) + 1\<rparr>\<rparr>"
    have tok: "tokens s i = tokens ?s2 i + of_bool (i = synchReadAvail)" for i
      using some(1,2) by (simp add: tokens_def semaphore_ids)
    have ty: "typed ?s2 = typed s" using some(1,2) by (simp add: typed_def)
    note h = handler_V [OF some(3) inv _ _ _ _ _ _ _ _ _ _ _ _ ty tok, simplified]
    show ?thesis
      using assms(1,3) p0 h by (auto simp: wait_inv_def device_sync_def pend_of_add insert_key_mset intro: add_nonneg_pos)
  qed
qed

lemma wait_inv_law:
  assumes "wait_inv g T s0 w (add_mset (t, p) (mset (pending s))) s" "level s = IntOff"
    "run_handler (handler p) (arg p) s = Some s'"
  shows "wait_inv g T s0 w (mset (pending s')) s' \<and> mach s' = mach s \<and> yieldOnReturn s' = yieldOnReturn s"
proof (cases "handler p")
  case TimerHandler
  with assms(1) show ?thesis by (simp add: wait_inv_def device_sync_def)
qed (use wait_inv_disk [OF assms(1,2) _ assms(3)] wait_inv_write [OF assms(1,2) _ assms(3)] wait_inv_poll [OF assms(1,2) _ assms(3)]
  in auto)

interpretation waiting: device_protocol "run_handler :: device_handler \<Rightarrow> int \<Rightarrow> 'z devices_scheme \<Rightarrow> 'z devices_scheme option"
    waiters_exist "wait_inv g T s0 w" for g T s0 w
proof unfold_locales
  fix s s' :: "'z devices_scheme" and M
  assume m: "hw.more s' = hw.more s"
  then have "readyList s' = readyList s" "threads s' = threads s" "currentThread s' = currentThread s" "sems s' = sems s"
    "threadToBeDestroyed s' = threadToBeDestroyed s" "devices.more s' = devices.more s" "randomize s' = randomize s"
    "random s' = random s" "lastSector s' = lastSector s" "bufferInit s' = bufferInit s" "sectors s' = sectors s"
    "display s' = display s" "active s' = active s" "putBusy s' = putBusy s" "incoming s' = incoming s" "keyboard s' = keyboard s"
    by (cases s, cases s', simp)+
  note f = this
  have "typed s' = typed s" "tokens s' = tokens s" using f by (simp_all add: typed_def tokens_def fun_eq_iff)
  then show "wait_inv g T s0 w M s' = wait_inv g T s0 w M s"
    using f by (simp add: wait_inv_def device_sync_def frozen_def phase_cong [OF f(1-4)])
qed (use wait_inv_law in blast)

section \<open>Waiting ends\<close>

lemma Sleep_loop_wakes:
  fixes f :: "('h, 'z) kernel_scheme \<Rightarrow> nat"
  assumes "I s" and step: "\<And>s. I s \<Longrightarrow> readyList s = [] \<Longrightarrow>
    \<exists>s'. Idle H s = Some (True, s') \<and> I s' \<and> (readyList s' = [] \<longrightarrow> f s' < f s)"
  shows "\<exists>s' t ts. I s' \<and> readyList s' = t # ts
    \<and> Sleep_loop H s = map_option (Returns ()) (Run t (s'\<lparr>readyList := ts\<rparr>))"
  using assms(1)
proof (induction "f s" arbitrary: s rule: less_induct)
  case less
  have woken: "Sleep_loop H s2 = map_option (Returns ()) (Run t (s2\<lparr>readyList := ts\<rparr>))" if "readyList s2 = t # ts" for s2 t ts
    using that
    by (subst Sleep_loop.simps) (simp add: Sleep_round_def FindNextToRun_def map_conv_bind_option comp_def)
  show ?case
  proof (cases "readyList s")
    case Nil
    from step [OF less.prems Nil] obtain s1 where s1: "Idle H s = Some (True, s1)" "I s1" "readyList s1 = [] \<longrightarrow> f s1 < f s"
      by blast
    have l: "Sleep_loop H s = Sleep_loop H s1"
      using Nil s1(1) by (subst Sleep_loop.simps) (simp add: Sleep_round_def FindNextToRun_def)
    show ?thesis
    proof (cases "readyList s1")
      case Nil
      with less.hyps [OF _ s1(2)] s1(3) l show ?thesis by simp
    next
      case (Cons t ts)
      with woken [OF Cons] s1(2) l show ?thesis by auto
    qed
  next
    case (Cons t ts)
    with woken [OF Cons] less.prems show ?thesis by blast
  qed
qed

text \<open>The kernel on behalf of a thread that is alone: no interrupt handler runs, and interrupts are enabled (in \<open>held\<close>: disabled).\<close>

definition tcb_ok :: "('h, 'z) kernel_scheme \<Rightarrow> bool" where
  "tcb_ok s \<longleftrightarrow> (\<exists>t. threads s (currentThread s) = Some t \<and> started t \<and> (has_stack t \<longrightarrow> fencepost t)
     \<and> (\<forall>sp. space t = Some sp \<longrightarrow> (\<exists>m pt. mach s = Some m \<and> pageTable m = Some pt \<and> pageTableSize m = numPages sp)))"

definition alone :: "bool \<Rightarrow> 'z devices_scheme \<Rightarrow> bool" where
  "alone g s \<longleftrightarrow> hw_ok s \<and> settled s \<and> status s = SystemMode \<and> \<not> yieldOnReturn s \<and> \<not> inHandler s
     \<and> up s \<and> tcb_ok s \<and> threadToBeDestroyed s = None \<and> device_sync g (mset (pending s)) s"

definition enabled :: "bool \<Rightarrow> 'z devices_scheme \<Rightarrow> bool" where "enabled g s \<longleftrightarrow> level s = IntOn \<and> alone g s"
definition quiet :: "bool \<Rightarrow> 'z devices_scheme \<Rightarrow> bool" where "quiet g s \<longleftrightarrow> enabled g s \<and> readyList s = []"
definition held :: "bool \<Rightarrow> 'z devices_scheme \<Rightarrow> bool" where "held g s \<longleftrightarrow> level s = IntOff \<and> alone g s"

definition kept_fields :: "'z devices_scheme \<Rightarrow> 'z devices_scheme \<Rightarrow> bool" where
  "kept_fields s s' \<longleftrightarrow> mach s' = mach s \<and> readyList s' = readyList s \<and> currentThread s' = currentThread s \<and> (\<forall>t. t \<noteq> currentThread s \<longrightarrow> threads s' t = threads s t)
     \<and> randomize s' = randomize s \<and> random s' = random s \<and> lastSector s' = lastSector s \<and> bufferInit s' = bufferInit s
     \<and> sectors s' = sectors s \<and> display s' = display s \<and> devices.more s' = devices.more s \<and> typed s' = typed s \<and> now s \<le> now s'"

lemma restore_same:
  assumes "pageTable m = Some pt" "pageTableSize m = numPages sp" "\<And>i. i < NumTotalRegs \<Longrightarrow> userRegisters t i = registers m i"
  shows "RestoreState (SaveSpace m sp) (RestoreUserState t m) = m"
proof -
  have "(\<lambda>i. if i < NumTotalRegs then userRegisters t i else registers m i) = registers m" using assms(3) by auto
  then show ?thesis using assms(1,2) by (simp add: RestoreState_def SaveSpace_def RestoreUserState_def)
qed

lemma Run_self:
  assumes "threads s (currentThread s) = Some t" "started t" "has_stack t \<longrightarrow> fencepost t" "threadToBeDestroyed s = None"
    "\<forall>sp. space t = Some sp \<longrightarrow> (\<exists>m pt. mach s = Some m \<and> pageTable m = Some pt \<and> pageTableSize m = numPages sp)"
  shows "\<exists>t'. Run (currentThread s) s = Some (s\<lparr>threads := (threads s)(currentThread s \<mapsto> t')\<rparr>) \<and> tstatus t' = RUNNING
    \<and> started t' \<and> (has_stack t' \<longrightarrow> fencepost t') \<and> map_option numPages (space t') = map_option numPages (space t)"
proof (cases "space t")
  case None
  let ?t = "t\<lparr>tstatus := RUNNING, started := True\<rparr>"
  have "Run (currentThread s) s = Some (s\<lparr>threads := (threads s)(currentThread s \<mapsto> ?t)\<rparr>)"
    using assms None by (simp add: Run_def save_current_def CheckOverflow_def delete_carcass_def restore_current_def set_thread_def Let_def)
  then show ?thesis using assms(2,3) by (intro exI [of _ ?t]) simp
next
  case (Some sp)
  then obtain m pt where m: "mach s = Some m" "pageTable m = Some pt" "pageTableSize m = numPages sp" using assms(5) by blast
  let ?saved = "(SaveUserState m t)\<lparr>space := Some (SaveSpace m sp)\<rparr>"
  let ?t = "?saved\<lparr>tstatus := RUNNING, started := True\<rparr>"
  have f: "has_stack ?saved = has_stack t" "fencepost ?saved = fencepost t" "started ?saved = started t" by (simp_all add: SaveUserState_def)
  have r: "RestoreState (SaveSpace m sp) (RestoreUserState ?t m) = m"
    by (rule restore_same [OF m(2,3)]) (simp add: SaveUserState_def)
  have "s\<lparr>mach := Some m, threads := x\<rparr> = s\<lparr>threads := x\<rparr>" for x using m(1) by simp
  then have "Run (currentThread s) s = Some (s\<lparr>threads := (threads s)(currentThread s \<mapsto> ?t)\<rparr>)"
    using assms(1-4) Some m(1) r f
    by (simp add: Run_def save_current_def CheckOverflow_def delete_carcass_def restore_current_def set_thread_def Let_def)
  then show ?thesis using assms(2,3) f Some by (intro exI [of _ ?t]) (simp add: SaveSpace_def)
qed

subsection \<open>Waiting for the disk or the display: the completion interrupt has a time\<close>

lemma pend_of_pos: "0 < pend_of h M \<Longrightarrow> \<exists>q. q \<in># M \<and> handler (snd q) = h"
proof -
  assume "0 < pend_of h M"
  then obtain q where "q \<in># filter_mset (\<lambda>q. handler (snd q) = h) M"
    unfolding pend_of_def by (metis multiset_nonemptyE nonempty_has_size)
  then have "q \<in># M" "handler (snd q) = h" by simp_all
  then show ?thesis by blast
qed

lemma asleep_pending:
  assumes "wait_inv g T s0 (Some k) M s" "asleep k s" "k \<in> {disk_sem, synchWriteAvail}" "0 < tokens s0 k"
  shows "\<exists>q. q \<in># M \<and> fst q \<le> T"
proof -
  have t: "0 < tokens s k" "sem_value (sems s k) = 0" using assms(1,2,4) by (auto simp: wait_inv_def frozen_def asleep_def)
  have "0 < pend_of (if k = disk_sem then DiskDone else ConsoleWriteDone) M"
    using assms(1,3) t by (auto simp: wait_inv_def device_sync_def tokens_def semaphore_ids split: if_splits)
  from pend_of_pos [OF this] obtain q where "q \<in># M" "handler (snd q) \<noteq> ConsoleReadPoll" by (auto split: if_splits)
  with assms(1) show ?thesis unfolding wait_inv_def by blast
qed

definition ready_to_wake :: "bool \<Rightarrow> int \<Rightarrow> 'z devices_scheme \<Rightarrow> nat \<Rightarrow> 'z devices_scheme \<Rightarrow> bool" where
  "ready_to_wake g T s0 k s \<longleftrightarrow> hw_ok s \<and> waiters_exist s \<and> level s = IntOff \<and> \<not> inHandler s \<and> settled s
     \<and> wait_inv g T s0 (Some k) (mset (pending s)) s \<and> mach s = mach s0 \<and> now s0 \<le> now s
     \<and> (awake k s \<longrightarrow> status s = SystemMode \<and> \<not> yieldOnReturn s)"

lemma wait_inv_no_timer: "wait_inv g T s0 w (mset (pending s)) s \<Longrightarrow> pending s = (t, p) # rest \<Longrightarrow> int_type p \<noteq> TimerInt"
  by (simp add: wait_inv_def device_sync_def)

lemma asleep_readyList: "phase (Some k) s \<Longrightarrow> readyList s = [] \<longleftrightarrow> asleep k s"
  by (auto simp: asleep_def awake_def)

lemma idle_round_timed:
  assumes i: "ready_to_wake g T s0 k s" and r: "readyList s = []" and k: "k \<in> {disk_sem, synchWriteAvail}" and t: "0 < tokens s0 k"
  shows "\<exists>s'. Idle run_handler s = Some (True, s') \<and> ready_to_wake g T s0 k s' \<and>
    (readyList s' = [] \<longrightarrow> nat (T - now s') + of_bool (\<not> no_due s') < nat (T - now s) + of_bool (\<not> no_due s))"
proof -
  have w: "wait_inv g T s0 (Some k) (mset (pending s)) s" using i by (simp add: ready_to_wake_def)
  have a: "asleep k s" using asleep_readyList [of k s] r w by (simp add: wait_inv_def)
  from asleep_pending [OF w a k t] obtain t0 p rest where ps: "pending s = (t0, p) # rest" by (cases "pending s") auto
  from waiting.Idle_J [of s g T s0 "Some k", OF _ ps] i wait_inv_no_timer [OF w ps] obtain s' where s': "Idle run_handler s = Some (True, s')"
    "hw_ok s'" "waiters_exist s'" "level s' = IntOff" "\<not> inHandler s'" "settled s'" "wait_inv g T s0 (Some k) (mset (pending s')) s'"
    "mach s' = mach s" "now s' = max (now s) t0" "status s' = SystemMode" "\<not> yieldOnReturn s'"
    "no_due s' \<or> (\<exists>k p. pending s' = [(k, p)] \<and> int_type p = TimerInt)" by (auto simp: ready_to_wake_def)
  have nd: "no_due s'" using s'(12) wait_inv_no_timer [OF s'(7)] by auto
  have "ready_to_wake g T s0 k s'" using i s' by (auto simp: ready_to_wake_def)
  moreover have "nat (T - now s') < nat (T - now s) + of_bool (\<not> no_due s)" if r': "readyList s' = []"
  proof -
    have "asleep k s'" using asleep_readyList [of k s'] r' s'(7) by (simp add: wait_inv_def)
    from asleep_pending [OF s'(7) this k t] nd have "now s' < T" by (auto simp: no_due_def)
    moreover have "no_due s \<Longrightarrow> now s < t0" using ps by (simp add: no_due_def)
    ultimately show ?thesis using s'(9) by (auto simp: of_bool_def)
  qed
  ultimately show ?thesis using s'(1) nd by auto
qed

subsection \<open>Waiting for the keyboard: every poll uses up one entry\<close>

definition poll_measure :: "(int \<times> device_handler PendingInterrupt) multiset \<Rightarrow> 'z devices_scheme \<Rightarrow> nat" where
  "poll_measure M s = size (filter_mset (\<lambda>q. handler (snd q) \<noteq> ConsoleReadPoll) M) + length (keyboard s)"

lemma V_section_keyboard:
  assumes "V_section j s = Some s'"
  shows "keyboard s' = keyboard s" "readyList s \<noteq> [] \<Longrightarrow> readyList s' \<noteq> []"
  using assms by (auto simp: V_section_def Let_def set_sem_def bind_eq_Some_conv ReadyToRun_Some split: list.splits)

lemma handler_shape:
  assumes "run_handler (handler p) a s = Some s'" "level s = IntOff" "handler p \<noteq> TimerHandler"
  shows "readyList s \<noteq> [] \<Longrightarrow> readyList s' \<noteq> []"
    "filter_mset (\<lambda>q. handler (snd q) \<noteq> ConsoleReadPoll) (mset (pending s')) = filter_mset (\<lambda>q. handler (snd q) \<noteq> ConsoleReadPoll) (mset (pending s))"
    "keyboard s' = (if handler p = ConsoleReadPoll \<and> incoming s = EOF_char then tl (keyboard s) else keyboard s)"
proof -
  have eq: "V_in_handler j r = V_section j r" if "level r = IntOff" for j and r :: "'z devices_scheme"
    using that by (simp add: V_in_handler_def V_interrupts_off)
  have "(readyList s \<noteq> [] \<longrightarrow> readyList s' \<noteq> []) \<and>
    filter_mset (\<lambda>q. handler (snd q) \<noteq> ConsoleReadPoll) (mset (pending s')) = filter_mset (\<lambda>q. handler (snd q) \<noteq> ConsoleReadPoll) (mset (pending s)) \<and>
    keyboard s' = (if handler p = ConsoleReadPoll \<and> incoming s = EOF_char then tl (keyboard s) else keyboard s)"
  proof (cases "handler p")
    case TimerHandler
    with assms(3) show ?thesis by simp
  next
    case DiskDone
    with assms have "V_section disk_sem (s\<lparr>active := False\<rparr>) = Some s'"
      by (simp add: run_handler_def Disk_HandleInterrupt_def RequestDone_def eq)
    from V_section_keyboard [OF this] V_section_hw(3) [OF this] DiskDone show ?thesis by simp
  next
    case ConsoleWriteDone
    with assms have "V_section synchWriteAvail (s\<lparr>putBusy := False,
        stats := (stats s)\<lparr>numConsoleCharsWritten := numConsoleCharsWritten (stats s) + 1\<rparr>\<rparr>) = Some s'"
      by (simp add: run_handler_def WriteDone_def SynchWriteFunct_def eq)
    from V_section_keyboard [OF this] V_section_hw(3) [OF this] ConsoleWriteDone show ?thesis by simp
  next
    case ConsoleReadPoll
    let ?s1 = "s\<lparr>pending := insert_key (now s + ConsoleTime) \<lparr>handler = ConsoleReadPoll, arg = 0, int_type = ConsoleReadInt\<rparr> (pending s)\<rparr>"
    have s1: "Schedule ConsoleReadPoll 0 ConsoleTime ConsoleReadInt s = Some ?s1" by (simp add: Schedule_def ConsoleTime_def)
    have c: "CheckCharAvail s = Some s'" using assms(1) ConsoleReadPoll by (simp add: run_handler_def)
    show ?thesis
    proof (cases "incoming s \<noteq> EOF_char \<or> keyboard s = []")
      case True
      with c s1 have "s' = ?s1" by (auto simp: CheckCharAvail_def split: if_splits)
      with True ConsoleReadPoll show ?thesis by (auto simp: insert_key_mset)
    next
      case False
      then obtain x ps where k: "incoming s = EOF_char" "keyboard s = x # ps" by (cases "keyboard s") auto
      show ?thesis
      proof (cases x)
        case None
        with c s1 k have "s' = ?s1\<lparr>keyboard := ps\<rparr>" by (simp add: CheckCharAvail_def)
        with k ConsoleReadPoll show ?thesis by (simp add: insert_key_mset)
      next
        case (Some c')
        with c s1 k assms(2) have "V_section synchReadAvail (?s1\<lparr>keyboard := ps, incoming := c',
             stats := (stats ?s1)\<lparr>numConsoleCharsRead := numConsoleCharsRead (stats ?s1) + 1\<rparr>\<rparr>) = Some s'"
          by (simp add: CheckCharAvail_def SynchReadFunct_def eq)
        from V_section_keyboard [OF this] V_section_hw(3) [OF this] k ConsoleReadPoll show ?thesis
          by (simp add: insert_key_mset)
      qed
    qed
  qed
  then show "readyList s \<noteq> [] \<Longrightarrow> readyList s' \<noteq> []"
    "filter_mset (\<lambda>q. handler (snd q) \<noteq> ConsoleReadPoll) (mset (pending s')) = filter_mset (\<lambda>q. handler (snd q) \<noteq> ConsoleReadPoll) (mset (pending s))"
    "keyboard s' = (if handler p = ConsoleReadPoll \<and> incoming s = EOF_char then tl (keyboard s) else keyboard s)" by blast+
qed

lemma asleep_keyboard:
  assumes "wait_inv False T s0 (Some synchReadAvail) M s" "0 < tokens s0 synchReadAvail" "asleep synchReadAvail s"
  shows "keyboard s \<noteq> []" "incoming s = EOF_char"
proof -
  have "0 < tokens s synchReadAvail" using assms(1,2) by (simp add: wait_inv_def frozen_def)
  with assms(3) have "keys (keyboard s) \<noteq> []" by (auto simp: tokens_def asleep_def semaphore_ids)
  then show "keyboard s \<noteq> []" by auto
  show "incoming s = EOF_char" using assms(1,3) by (auto simp: wait_inv_def device_sync_def asleep_def)
qed

lemma poll_step:
  assumes "wait_inv False T s0 (Some synchReadAvail) (add_mset (t, p) (mset (pending s))) s" "0 < tokens s0 synchReadAvail"
    "level s = IntOff" "run_handler (handler p) (arg p) s = Some s'" "asleep synchReadAvail s'"
  shows "asleep synchReadAvail s" "poll_measure (mset (pending s')) s' < poll_measure (add_mset (t, p) (mset (pending s))) s"
proof -
  have nt: "handler p \<noteq> TimerHandler" using assms(1) by (simp add: wait_inv_def device_sync_def)
  note h = handler_shape [OF assms(4,3) nt]
  have "readyList s = []" using h(1) assms(5) by (auto simp: asleep_def)
  then show a: "asleep synchReadAvail s" using assms(1) by (auto simp: wait_inv_def awake_def)
  show "poll_measure (mset (pending s')) s' < poll_measure (add_mset (t, p) (mset (pending s))) s"
    using h(2,3) asleep_keyboard [OF assms(1,2) a] by (simp add: poll_measure_def)
qed

definition poll_inv :: "nat \<Rightarrow> int \<Rightarrow> 'z devices_scheme \<Rightarrow> (int \<times> device_handler PendingInterrupt) multiset \<Rightarrow> 'z devices_scheme \<Rightarrow> bool" where
  "poll_inv n T s0 M s \<longleftrightarrow> wait_inv False T s0 (Some synchReadAvail) M s \<and> 0 < tokens s0 synchReadAvail
     \<and> (asleep synchReadAvail s \<longrightarrow> poll_measure M s \<le> n)"

interpretation polling: device_protocol "run_handler :: device_handler \<Rightarrow> int \<Rightarrow> 'z devices_scheme \<Rightarrow> 'z devices_scheme option"
    waiters_exist "poll_inv n T s0" for n T s0
proof unfold_locales
  fix s s' :: "'z devices_scheme" and M
  assume m: "hw.more s' = hw.more s"
  then have "asleep synchReadAvail s' = asleep synchReadAvail s" "keyboard s' = keyboard s"
    by (cases s, cases s', simp add: asleep_def stat_def)+
  then show "poll_inv n T s0 M s' = poll_inv n T s0 M s"
    using waiting.J_frame [OF m] by (simp add: poll_inv_def poll_measure_def)
next
  fix k p and s s' :: "'z devices_scheme"
  assume h: "poll_inv n T s0 (add_mset (k, p) (mset (pending s))) s" "level s = IntOff" "run_handler (handler p) (arg p) s = Some s'"
  then have "wait_inv False T s0 (Some synchReadAvail) (add_mset (k, p) (mset (pending s))) s" "0 < tokens s0 synchReadAvail"
    by (simp_all add: poll_inv_def)
  with wait_inv_law [OF this(1) h(2,3)] poll_step [OF this h(2,3)] h(1)
  show "poll_inv n T s0 (mset (pending s')) s' \<and> mach s' = mach s \<and> yieldOnReturn s' = yieldOnReturn s"
    by (auto simp: poll_inv_def)
qed

lemma idle_round_polled:
  assumes i: "ready_to_wake False T s0 synchReadAvail s" and r: "readyList s = []" and t: "0 < tokens s0 synchReadAvail"
  shows "\<exists>s'. Idle run_handler s = Some (True, s') \<and> ready_to_wake False T s0 synchReadAvail s' \<and>
    (readyList s' = [] \<longrightarrow> poll_measure (mset (pending s')) s' < poll_measure (mset (pending s)) s)"
proof -
  have w: "wait_inv False T s0 (Some synchReadAvail) (mset (pending s)) s" using i by (simp add: ready_to_wake_def)
  have a: "asleep synchReadAvail s" using asleep_readyList [of synchReadAvail s] r w by (simp add: wait_inv_def)
  obtain t0 p rest where ps: "pending s = (t0, p) # rest"
    using w by (cases "pending s") (auto simp: wait_inv_def device_sync_def pend_of_def)
  let ?n = "poll_measure (mset (pending s)) s - 1"
  have first: "poll_inv ?n T s0 (mset (pending s4)) s4 \<and> mach s4 = mach s2"
    if h: "hw.more s2 = hw.more s" "pending s2 = rest" "level s2 = IntOff" "run_handler (handler p) (arg p) s2 = Some s4" for s2 s4
  proof -
    have w2: "wait_inv False T s0 (Some synchReadAvail) (add_mset (t0, p) (mset (pending s2))) s2"
      using w ps waiting.J_frame [OF h(1)] h(2) by simp
    have "keyboard s2 = keyboard s" using h(1) by (cases s, cases s2) simp
    then have "poll_measure (add_mset (t0, p) (mset (pending s2))) s2 = poll_measure (mset (pending s)) s"
      using ps h(2) by (simp add: poll_measure_def)
    with wait_inv_law [OF w2 h(3,4)] poll_step [OF w2 t h(3,4)] t show ?thesis by (auto simp: poll_inv_def)
  qed
  have pre: "hw_ok s" "waiters_exist s" "level s = IntOff" "settled s" using i by (auto simp: ready_to_wake_def)
  from polling.Idle_first_J [OF pre ps, of ?n T s0] first wait_inv_no_timer [OF w ps] obtain s' where s':
    "Idle run_handler s = Some (True, s')" "hw_ok s'" "waiters_exist s'" "level s' = IntOff" "\<not> inHandler s'" "settled s'"
    "poll_inv ?n T s0 (mset (pending s')) s'" "mach s' = mach s" "now s' = max (now s) t0" "status s' = SystemMode" "\<not> yieldOnReturn s'"
    by auto
  have "0 < poll_measure (mset (pending s)) s"
    using asleep_keyboard(1) [OF w t a] by (simp add: poll_measure_def)
  moreover have "asleep synchReadAvail s'" if "readyList s' = []"
    using that s'(7) asleep_readyList [of synchReadAvail s'] by (auto simp: poll_inv_def wait_inv_def)
  ultimately show ?thesis using i s' by (auto simp: ready_to_wake_def poll_inv_def)
qed

subsection \<open>\<open>P\<close> returns when a token is left\<close>

lemma asleep_wakes:
  assumes i: "ready_to_wake g T s0 k s" and a: "asleep k s" and t: "0 < tokens s0 k" and g: "k = synchReadAvail \<Longrightarrow> \<not> g"
  shows "\<exists>s'. ready_to_wake g T s0 k s' \<and> awake k s' \<and> Sleep_loop run_handler s = map_option (Returns ()) (Run (currentThread s') (s'\<lparr>readyList := []\<rparr>))"
proof -
  have w: "wait_inv g T s0 (Some k) (mset (pending s)) s" using i by (simp add: ready_to_wake_def)
  have "0 < tokens s k" using w t by (simp add: wait_inv_def frozen_def)
  then have k: "k \<in> {disk_sem, synchWriteAvail} \<or> k = synchReadAvail"
    using a by (auto simp: tokens_def asleep_def split: if_splits)
  have "\<exists>s' t ts. ready_to_wake g T s0 k s' \<and> readyList s' = t # ts \<and> Sleep_loop run_handler s = map_option (Returns ()) (Run t (s'\<lparr>readyList := ts\<rparr>))"
  proof (cases "k = synchReadAvail")
    case True
    show ?thesis
      by (rule Sleep_loop_wakes [where I = "ready_to_wake g T s0 k" and f = "\<lambda>s. poll_measure (mset (pending s)) s", OF i])
        (use True idle_round_polled t g in auto)
  next
    case False
    with k have "k \<in> {disk_sem, synchWriteAvail}" by blast
    then show ?thesis
      by (intro Sleep_loop_wakes [where I = "ready_to_wake g T s0 k" and f = "\<lambda>s. nat (T - now s) + of_bool (\<not> no_due s)", OF i])
        (use idle_round_timed t in blast)
  qed
  then obtain s' u us where s': "ready_to_wake g T s0 k s'" "readyList s' = u # us"
    "Sleep_loop run_handler s = map_option (Returns ()) (Run u (s'\<lparr>readyList := us\<rparr>))" by blast
  have "phase (Some k) s'" using s'(1) by (simp add: ready_to_wake_def wait_inv_def)
  with s'(2) have "awake k s'" using asleep_readyList [of k s'] by auto
  moreover from this s'(2) have "u = currentThread s'" "us = []" by (simp_all add: awake_def)
  ultimately show ?thesis using s'(1,3) by auto
qed

lemma mset_bound: "\<exists>T :: int. \<forall>q \<in># M. f q \<le> T"
  by (intro exI [of _ "Max (insert 0 (f ` set_mset M))"]) auto

lemma frozen_tcb_ok:
  assumes "frozen s0 s" "tcb_ok s0" "mach s = mach s0"
  shows "tcb_ok s"
proof -
  obtain t0 where t0: "threads s0 (currentThread s0) = Some t0" "started t0" "has_stack t0 \<longrightarrow> fencepost t0"
    "\<forall>sp. space t0 = Some sp \<longrightarrow> (\<exists>m pt. mach s0 = Some m \<and> pageTable m = Some pt \<and> pageTableSize m = numPages sp)"
    using assms(2) by (auto simp: tcb_ok_def)
  have c: "currentThread s = currentThread s0" using assms(1) by (simp add: frozen_def)
  have "map_option (tstatus_update (\<lambda>_. RUNNING)) (threads s (currentThread s0)) = Some (t0\<lparr>tstatus := RUNNING\<rparr>)"
    using assms(1) t0(1) by (simp add: frozen_def)
  then obtain t where t: "threads s (currentThread s0) = Some t" "t\<lparr>tstatus := RUNNING\<rparr> = t0\<lparr>tstatus := RUNNING\<rparr>" by auto
  then have "started t = started t0" "has_stack t = has_stack t0" "fencepost t = fencepost t0" "space t = space t0"
    by (cases t, cases t0, simp)+
  with t0 t(1) c assms(3) show ?thesis by (auto simp: tcb_ok_def)
qed

lemma frozen_kept_fields:
  assumes "frozen s0 s" "mach s = mach s0" "now s0 \<le> now s"
  shows "kept_fields s0 (s\<lparr>readyList := readyList s0\<rparr>)" "tokens s = tokens s0" "threadToBeDestroyed s = threadToBeDestroyed s0"
proof -
  have "typed (s\<lparr>readyList := r\<rparr>) = typed s" "now (s\<lparr>readyList := r\<rparr>) = now s" for r by (simp_all add: typed_def now_def)
  then show "kept_fields s0 (s\<lparr>readyList := readyList s0\<rparr>)" "tokens s = tokens s0" "threadToBeDestroyed s = threadToBeDestroyed s0"
    using assms by (auto simp: frozen_def kept_fields_def)
qed

lemma up_waiters: "up s \<Longrightarrow> waiters_exist s"
  by (simp add: up_def waiters_exist_def)

lemma level_irrelevant [simp]:
  "settled (s\<lparr>level := l\<rparr>) = settled s" "hw_ok (s\<lparr>level := l\<rparr>) = hw_ok s" "up (r\<lparr>level := l\<rparr>) = up r"
  "tcb_ok (r\<lparr>level := l\<rparr>) = tcb_ok r" "device_sync g M (r\<lparr>level := l\<rparr>) = device_sync g M r" "now (s\<lparr>level := l\<rparr>) = now s"
  "tokens (r\<lparr>level := l\<rparr>) = tokens r" "typed (r\<lparr>level := l\<rparr>) = typed r" "waiters_exist (r\<lparr>level := l\<rparr>) = waiters_exist r"
  "frozen s0 (r\<lparr>level := l\<rparr>) = frozen s0 r" "frozen (r\<lparr>level := l\<rparr>) r' = frozen r r'"
  "kept_fields (r\<lparr>level := l\<rparr>) r' = kept_fields r r'"
  by (simp_all add: settled_mach hw_ok_def ticks_ok_def mach_ok_def up_def stat_def tcb_ok_def device_sync_def now_def tokens_def
    typed_def waiters_exist_def frozen_def kept_fields_def fun_eq_iff)

lemma alone_level [simp]: "alone g (s\<lparr>level := l\<rparr>) = alone g s"
  unfolding alone_def by (simp only: level_irrelevant) simp

lemma frozen_refl [simp]: "frozen s s"
  by (simp add: frozen_def)

lemma SetLevel_on:
  assumes "held g s"
  shows "\<exists>s'. SetLevel run_handler Y IntOn s = Some (IntOff, s') \<and> enabled g s' \<and> kept_fields s s' \<and> tokens s' = tokens s"
proof -
  let ?s = "s\<lparr>level := IntOn\<rparr>"
  have q: "hw_ok s" "settled s" "status s = SystemMode" "\<not> yieldOnReturn s" "\<not> inHandler s" "up s" "tcb_ok s"
    "threadToBeDestroyed s = None" "device_sync g (mset (pending s)) s" "level s = IntOff"
    using assms by (simp_all add: held_def alone_def)
  obtain T where T: "\<forall>q \<in># mset (pending s). fst q \<le> (T :: int)" using mset_bound [of "mset (pending s)" fst] by blast
  have "wait_inv g T s None (mset (pending s)) s" using q(6,9) T by (simp add: wait_inv_def)
  then have "hw_ok (?s\<lparr>level := IntOff\<rparr>) \<and> waiters_exist (?s\<lparr>level := IntOff\<rparr>) \<and> level (?s\<lparr>level := IntOff\<rparr>) = IntOff
      \<and> \<not> inHandler (?s\<lparr>level := IntOff\<rparr>) \<and> settled (?s\<lparr>level := IntOff\<rparr>)
      \<and> wait_inv g T s None (mset (pending (?s\<lparr>level := IntOff\<rparr>))) (?s\<lparr>level := IntOff\<rparr>)"
    using q(1,2,5) up_waiters [OF q(6)] by simp
  from waiting.OneTick_J [OF this, of Y] q(3,4) obtain s' where s': "OneTick run_handler Y ?s = Some s'"
    "hw_ok s'" "\<not> inHandler s'" "settled s'"
    "wait_inv g T s None (mset (pending s')) s'" "level s' = IntOn" "mach s' = mach s" "now s' = now s + SystemTick"
    "status s' = SystemMode" "\<not> yieldOnReturn s'" by auto
  have f: "frozen s s'" and u: "up s'" "device_sync g (mset (pending s')) s'" using s'(5) by (simp_all add: wait_inv_def)
  have n: "now s \<le> now s'" using s'(8) by (simp add: SystemTick_def)
  have "s'\<lparr>readyList := readyList s\<rparr> = s'" using s'(5) by (simp add: wait_inv_def)
  note k = frozen_kept_fields [OF f s'(7) n, unfolded this] frozen_tcb_ok [OF f q(7) s'(7)]
  have "SetLevel run_handler Y IntOn s = Some (IntOff, s')"
    using s'(1) q(5,10) by (simp add: SetLevel_def ChangeLevel_def Let_def)
  moreover have "enabled g s'" using s' u k q(8) by (simp add: enabled_def alone_def)
  ultimately show ?thesis using k(1,2) by blast
qed

lemma kept_fields_refl [simp]: "kept_fields s s"
  by (simp add: kept_fields_def)

lemma kept_fields_trans: "kept_fields a b \<Longrightarrow> kept_fields b c \<Longrightarrow> kept_fields a c"
  by (simp add: kept_fields_def)

definition take_token :: "nat \<Rightarrow> 'z devices_scheme \<Rightarrow> 'z devices_scheme" where
  "take_token k s = set_sem k ((sems s k)\<lparr>sem_value := sem_value (sems s k) - 1\<rparr>) s"

lemma take_token_held:
  assumes "held g s" "0 < sem_value (sems s k)"
  shows "held (g \<or> k = synchReadAvail) (take_token k s)" "kept_fields s (take_token k s)"
    "tokens (take_token k s) = (tokens s)(k := tokens s k - 1)"
    "P_loop run_handler others k s = Some (Returns () (take_token k s))"
proof -
  have f: "tcb_ok (take_token k s) = tcb_ok s" "hw_ok (take_token k s) = hw_ok s" "settled (take_token k s) = settled s"
    "up (take_token k s) = up s" "level (take_token k s) = level s" "pending (take_token k s) = pending s" "status (take_token k s) = status s"
    "yieldOnReturn (take_token k s) = yieldOnReturn s" "inHandler (take_token k s) = inHandler s"
    "threadToBeDestroyed (take_token k s) = threadToBeDestroyed s"
    by (auto simp: take_token_def set_sem_def tcb_ok_def hw_ok_def ticks_ok_def mach_ok_def settled_mach up_def stat_def)
  have "device_sync g (mset (pending s)) s" using assms(1) by (simp add: held_def alone_def)
  then have "device_sync (g \<or> k = synchReadAvail) (mset (pending s)) (take_token k s)"
    using assms(2) by (auto simp: device_sync_def take_token_def set_sem_def)
  with assms(1) show "held (g \<or> k = synchReadAvail) (take_token k s)" by (simp add: held_def alone_def f)
  show "kept_fields s (take_token k s)" by (simp add: kept_fields_def take_token_def set_sem_def now_def typed_def)
  show "tokens (take_token k s) = (tokens s)(k := tokens s k - 1)" by (auto simp: tokens_def take_token_def set_sem_def)
  have "s\<lparr>level := IntOff\<rparr> = s" using assms(1) by (simp add: held_def)
  then show "P_loop run_handler others k s = Some (Returns () (take_token k s))"
    using assms(2) by (subst P_loop.simps) (simp add: P_section_def Let_def take_token_def)
qed

lemma P_sleeps:
  assumes "held g s" "sem_value (sems s k) = 0" "readyList s = []"
  shows "\<exists>s1 T. P_section k s = Some (False, s1) \<and> ready_to_wake g T s1 k s1 \<and> asleep k s1 \<and> tcb_ok s1 \<and> threadToBeDestroyed s1 = None
    \<and> kept_fields s s1 \<and> tokens s1 = tokens s"
proof -
  have a: "hw_ok s" "settled s" "\<not> inHandler s" "up s" "tcb_ok s" "threadToBeDestroyed s = None"
    "device_sync g (mset (pending s)) s" "level s = IntOff"
    using assms(1) by (simp_all add: held_def alone_def)
  then obtain t where t: "threads s (currentThread s) = Some t" by (auto simp: tcb_ok_def)
  let ?q = "(sems s k)\<lparr>sem_queue := sem_queue (sems s k) @ [currentThread s]\<rparr>"
  define s1 where "s1 = s\<lparr>sems := (sems s)(k := ?q), threads := (threads s)(currentThread s \<mapsto> t\<lparr>tstatus := BLOCKED\<rparr>)\<rparr>"
  have "s\<lparr>level := IntOff\<rparr> = s" using a(8) by simp
  then have "P_section k s = Some (False, s1)"
    using assms(2) a(8) t
    by (simp add: P_section_def Let_def Sleep_enter_def set_sem_def setThreadStatus_def set_thread_def s1_def)
  moreover have fields: "hw_ok s1" "settled s1" "\<not> inHandler s1" "tcb_ok s1" "threadToBeDestroyed s1 = None" "level s1 = IntOff"
    "pending s1 = pending s" "device_sync g (mset (pending s)) s1" "tokens s1 = tokens s" "asleep k s1" "kept_fields s s1"
    using a assms(2,3) t
    by (auto simp: s1_def hw_ok_def ticks_ok_def mach_ok_def settled_mach tcb_ok_def device_sync_def tokens_def asleep_def up_def stat_def
      kept_fields_def typed_def now_def fun_eq_iff)
  moreover have "waiters_exist s1" using fields(10) by (auto simp: asleep_def waiters_exist_def stat_def split: if_splits)
  moreover obtain T where "\<forall>q \<in># mset (pending s). fst q \<le> (T :: int)" using mset_bound [of "mset (pending s)" fst] by blast
  ultimately have "ready_to_wake g T s1 k s1"
    by (simp add: ready_to_wake_def wait_inv_def) (auto simp: asleep_def awake_def)
  with fields \<open>P_section k s = Some (False, s1)\<close> show ?thesis by blast
qed

lemma P_wakes:
  assumes "ready_to_wake g T s1 k s2" "awake k s2" "tcb_ok s1" "threadToBeDestroyed s1 = None" "readyList s1 = []"
  shows "\<exists>s3. Run (currentThread s2) (s2\<lparr>readyList := []\<rparr>) = Some s3 \<and> held g s3 \<and> 0 < sem_value (sems s3 k)
    \<and> kept_fields s1 s3 \<and> tokens s3 = tokens s1"
proof -
  have w: "frozen s1 s2" "device_sync g (mset (pending s2)) s2" "mach s2 = mach s1" "now s1 \<le> now s2" "level s2 = IntOff"
    "hw_ok s2" "settled s2" "\<not> inHandler s2" "status s2 = SystemMode" "\<not> yieldOnReturn s2"
    using assms(1,2) by (auto simp: ready_to_wake_def wait_inv_def)
  note kf = frozen_kept_fields [OF w(1,3,4)]
  from frozen_tcb_ok [OF w(1) assms(3) w(3)] obtain t where t: "threads s2 (currentThread s2) = Some t" "started t"
    "has_stack t \<longrightarrow> fencepost t"
    "\<forall>sp. space t = Some sp \<longrightarrow> (\<exists>m pt. mach s2 = Some m \<and> pageTable m = Some pt \<and> pageTableSize m = numPages sp)"
    by (auto simp: tcb_ok_def)
  let ?s = "s2\<lparr>readyList := []\<rparr>"
  from Run_self [of ?s t] t kf(3) assms(4) obtain t' where r: "Run (currentThread s2) ?s = Some (?s\<lparr>threads := (threads s2)(currentThread s2 \<mapsto> t')\<rparr>)"
    "tstatus t' = RUNNING" "started t'" "has_stack t' \<longrightarrow> fencepost t'" "map_option numPages (space t') = map_option numPages (space t)"
    by auto
  let ?s3 = "?s\<lparr>threads := (threads s2)(currentThread s2 \<mapsto> t')\<rparr>"
  have "tcb_ok ?s3" using r(3-5) t(4) by (cases "space t'"; cases "space t") (auto simp: tcb_ok_def)
  moreover have "up ?s3" using assms(2) r(2) by (simp add: up_def awake_def stat_def)
  ultimately have "held g ?s3"
    using w kf(3) assms(4)
    by (simp add: held_def alone_def hw_ok_def ticks_ok_def mach_ok_def settled_mach device_sync_def)
  moreover have "typed ?s3 = typed ?s" "now ?s3 = now ?s" by (simp_all add: typed_def now_def)
  then have "kept_fields s1 ?s3" using kf(1) assms(5) by (simp add: kept_fields_def)
  moreover have "tokens ?s3 = tokens s2" by (rule ext) (simp add: tokens_def)
  then have "tokens ?s3 = tokens s1" using kf(2) by simp
  ultimately show ?thesis using r(1) assms(2) by (auto simp: awake_def)
qed

lemma P_loop_returns:
  assumes "held g s" "0 < tokens s k" "k = synchReadAvail \<Longrightarrow> \<not> g" "readyList s = [] \<or> 0 < sem_value (sems s k)"
  shows "\<exists>s'. P_loop run_handler others k s = Some (Returns () s') \<and> held (g \<or> k = synchReadAvail) s' \<and> kept_fields s s'
    \<and> tokens s' = (tokens s)(k := tokens s k - 1)"
proof (cases "sem_value (sems s k) = 0")
  case True
  then have r: "readyList s = []" using assms(4) by simp
  from P_sleeps [OF assms(1) True r] obtain s1 T where s1: "P_section k s = Some (False, s1)" "ready_to_wake g T s1 k s1" "asleep k s1"
    "tcb_ok s1" "threadToBeDestroyed s1 = None" "kept_fields s s1" "tokens s1 = tokens s" by blast
  from asleep_wakes [OF s1(2,3)] assms(2,3) s1(7) obtain s2 where s2: "ready_to_wake g T s1 k s2" "awake k s2"
    "Sleep_loop run_handler s1 = map_option (Returns ()) (Run (currentThread s2) (s2\<lparr>readyList := []\<rparr>))" by auto
  have "readyList s1 = []" using r s1(6) by (simp add: kept_fields_def)
  from P_wakes [OF s2(1,2) s1(4,5) this] obtain s3 where s3: "Run (currentThread s2) (s2\<lparr>readyList := []\<rparr>) = Some s3" "held g s3"
    "0 < sem_value (sems s3 k)" "kept_fields s1 s3" "tokens s3 = tokens s1" by blast
  have k: "kept_fields s s3" by (rule kept_fields_trans [OF s1(6) s3(4)])
  then have "currentThread s3 = currentThread s" by (simp add: kept_fields_def)
  then have "P_loop run_handler others k s = P_loop run_handler others k s3"
    using s1(1) s2(3) s3(1) by (subst P_loop.simps) simp
  with take_token_held [OF s3(2,3)] kept_fields_trans [OF k] s1(7) s3(5) show ?thesis by auto
next
  case False
  then have "0 < sem_value (sems s k)" using assms(1) by (auto simp: held_def alone_def device_sync_def order_less_le)
  from take_token_held [OF assms(1) this] show ?thesis by blast
qed

lemma P_enabled:
  assumes "enabled g s" "0 < tokens s k" "k = synchReadAvail \<Longrightarrow> \<not> g" "readyList s = [] \<or> 0 < sem_value (sems s k)"
  shows "\<exists>s'. Semaphore_P Y others k s = Some (Returns () s') \<and> enabled (g \<or> k = synchReadAvail) s' \<and> kept_fields s s'
    \<and> tokens s' = (tokens s)(k := tokens s k - 1)"
proof -
  let ?s = "s\<lparr>level := IntOff\<rparr>"
  have h: "held g ?s" using assms(1) by (simp add: held_def enabled_def)
  have off: "SetLevel run_handler Y IntOff s = Some (IntOn, ?s)"
    using assms(1) by (simp add: SetLevel_def ChangeLevel_def enabled_def Let_def)
  from P_loop_returns [OF h, of k others] assms(2-4) obtain s1 where s1: "P_loop run_handler others k ?s = Some (Returns () s1)"
    "held (g \<or> k = synchReadAvail) s1" "kept_fields s s1" "tokens s1 = (tokens s)(k := tokens s k - 1)" by auto
  from SetLevel_on [OF s1(2), of Y] obtain s2 where "SetLevel run_handler Y IntOn s1 = Some (IntOff, s2)"
    "enabled (g \<or> k = synchReadAvail) s2" "kept_fields s1 s2" "tokens s2 = tokens s1" by blast
  with off s1 kept_fields_trans show ?thesis by (auto simp: Semaphore_P_def P_with_def then_run_def)
qed

lemma V_enabled:
  assumes "enabled g s"
  shows "\<exists>s'. Semaphore_V Y k s = Some s' \<and> enabled g s' \<and> kept_fields s s' \<and> tokens s' = (tokens s)(k := tokens s k + 1)"
proof -
  let ?s = "s\<lparr>level := IntOff\<rparr>"
  define s1 where "s1 = ?s\<lparr>sems := (sems s)(k := (sems s k)\<lparr>sem_value := sem_value (sems s k) + 1\<rparr>)\<rparr>"
  have a: "alone g s" "level s = IntOn" using assms by (simp_all add: enabled_def)
  have off: "SetLevel run_handler Y IntOff s = Some (IntOn, ?s)"
    using a(2) by (simp add: SetLevel_def ChangeLevel_def Let_def)
  have "sem_queue (sems s k) = []" using a(1) by (simp add: alone_def up_def)
  then have v: "V_section k ?s = Some s1" by (simp add: V_section_def Let_def set_sem_def s1_def)
  have f: "tcb_ok s1 = tcb_ok s" "hw_ok s1 = hw_ok s" "settled s1 = settled s" "pending s1 = pending s" "status s1 = status s"
    "yieldOnReturn s1 = yieldOnReturn s" "inHandler s1 = inHandler s" "threadToBeDestroyed s1 = threadToBeDestroyed s" "level s1 = IntOff"
    by (simp_all add: s1_def tcb_ok_def hw_ok_def ticks_ok_def mach_ok_def settled_mach)
  have "up s1" using a(1) by (auto simp: alone_def s1_def up_def stat_def)
  moreover have "device_sync g (mset (pending s)) s1" using a(1) by (auto simp: alone_def device_sync_def s1_def intro: add_nonneg_pos)
  ultimately have "held g s1" using a(1) by (simp add: held_def alone_def f)
  from SetLevel_on [OF this, of Y] obtain s2 where s2: "SetLevel run_handler Y IntOn s1 = Some (IntOff, s2)" "enabled g s2" "kept_fields s1 s2"
    "tokens s2 = tokens s1" by blast
  have "kept_fields s s1" by (simp add: kept_fields_def s1_def now_def typed_def)
  moreover have "tokens s1 = (tokens s)(k := tokens s k + 1)" by (auto simp: tokens_def s1_def)
  ultimately show ?thesis
    using off v s2 kept_fields_trans by (auto simp: Semaphore_V_def V_def)
qed

lemma P_returns:
  assumes "quiet g s" "0 < tokens s k" "k = synchReadAvail \<Longrightarrow> \<not> g"
  shows "\<exists>s'. Semaphore_P Y others k s = Some (Returns () s') \<and> quiet (g \<or> k = synchReadAvail) s' \<and> kept_fields s s'
    \<and> tokens s' = (tokens s)(k := tokens s k - 1)"
proof -
  have "enabled g s" "readyList s = []" using assms(1) by (simp_all add: quiet_def)
  with P_enabled [of g s k Y others] assms(2,3) obtain s' where "Semaphore_P Y others k s = Some (Returns () s')"
    "enabled (g \<or> k = synchReadAvail) s'" "kept_fields s s'" "tokens s' = (tokens s)(k := tokens s k - 1)" by auto
  with \<open>readyList s = []\<close> show ?thesis by (auto simp: quiet_def kept_fields_def)
qed

lemma V_returns:
  assumes "quiet g s"
  shows "\<exists>s'. Semaphore_V Y k s = Some s' \<and> quiet g s' \<and> kept_fields s s' \<and> tokens s' = (tokens s)(k := tokens s k + 1)"
  using V_enabled [of g s Y k] assms by (auto simp: quiet_def kept_fields_def)

section \<open>The synchronous disk\<close>

text \<open>No request is in progress and none has completed unnoticed.\<close>

definition disk_idle :: "'z devices_scheme \<Rightarrow> bool" where
  "disk_idle s \<longleftrightarrow> quiet False s \<and> disk_head_ok s \<and> tokens s disk_sem = 0"

lemma disk_idle_inactive: "disk_idle s \<Longrightarrow> \<not> active s"
proof
  assume i: "disk_idle s" "active s"
  then have "0 \<le> sem_value (sems s disk_sem)" by (simp add: disk_idle_def quiet_def enabled_def alone_def device_sync_def)
  with i show False by (simp add: disk_idle_def tokens_def)
qed

lemma disk_started:
  assumes "quiet g s" "\<not> active s" "active s1" "handler p = DiskDone" "int_type p = DiskInt" "pending s1 = insert_key t p (pending s)"
    "clocks s1 = clocks s" "level s1 = level s" "mach s1 = mach s" "status s1 = status s" "yieldOnReturn s1 = yieldOnReturn s"
    "inHandler s1 = inHandler s" "threadToBeDestroyed s1 = threadToBeDestroyed s" "sems s1 = sems s" "threads s1 = threads s"
    "currentThread s1 = currentThread s" "readyList s1 = readyList s" "putBusy s1 = putBusy s" "incoming s1 = incoming s"
    "keyboard s1 = keyboard s"
  shows "quiet g s1" "tokens s1 = (tokens s)(disk_sem := tokens s disk_sem + 1)" "typed s1 = typed s"
proof -
  have a: "alone g s" using assms(1) by (simp add: quiet_def enabled_def)
  have "hw_ok s1" "settled s1" "up s1" "tcb_ok s1" "device_sync g (mset (pending s1)) s1"
    using a assms(2-20) by (auto simp: alone_def hw_ok_def ticks_ok_def mach_ok_def clocks_def insert_key_sorted settled_mach up_def
      stat_def tcb_ok_def device_sync_def insert_key_mset pend_of_add)
  with assms a show "quiet g s1" by (simp add: quiet_def enabled_def alone_def)
  show "tokens s1 = (tokens s)(disk_sem := tokens s disk_sem + 1)" "typed s1 = typed s"
    using assms(2,3,14,18-20) by (auto simp: tokens_def typed_def semaphore_ids)
qed

lemma disk_waits:
  assumes "disk_head_ok s1" "quiet False s1" "tokens s1 = (tokens s)(disk_sem := 1)" "tokens s disk_sem = 0"
  shows "\<exists>s'. Semaphore_P Y others disk_sem s1 = Some (Returns () s') \<and> disk_idle s' \<and> kept_fields s1 s' \<and> tokens s' = tokens s"
proof -
  have "disk_sem \<noteq> synchReadAvail" by (simp add: semaphore_ids)
  with P_returns [OF assms(2), of disk_sem Y others] assms(3,4) obtain s' where
    s': "Semaphore_P Y others disk_sem s1 = Some (Returns () s')" "quiet False s'" "kept_fields s1 s'"
      "tokens s' = (tokens s1)(disk_sem := 0)" by auto
  have t: "tokens s' = tokens s" using s'(4) assms(3,4) by auto
  moreover have "disk_head_ok s'" using assms(1) s'(3) by (simp add: kept_fields_def disk_head_ok_def)
  ultimately show ?thesis using s' assms(4) by (auto simp: disk_idle_def)
qed

lemma ReadSector_returns:
  assumes "disk_idle s" "0 \<le> n" "n < NumSectors"
  shows "\<exists>s'. SynchDisk_ReadSector Y others n s = Some (Returns (sectors s n) s') \<and> disk_idle s' \<and> tokens s' = tokens s
    \<and> sectors s' = sectors s \<and> display s' = display s \<and> typed s' = typed s \<and> mach s' = mach s \<and> devices.more s' = devices.more s"
proof -
  have i: "quiet False s" "disk_head_ok s" "tokens s disk_sem = 0" "\<not> active s"
    using assms(1) disk_idle_inactive by (auto simp: disk_idle_def)
  let ?p = "\<lparr>handler = DiskDone, arg = 0, int_type = DiskInt\<rparr>" and ?t = "now s + ComputeLatency s n False"
  from ReadRequest_ok [OF i(2,4) assms(2,3)] obtain s1 where s1: "ReadRequest n s = Some (sectors s n, s1)" "active s1"
    "sectors s1 = sectors s" "now s1 = now s" "pending s1 = insert_key ?t ?p (pending s)" by blast
  have f: "clocks s1 = clocks s" "level s1 = level s" "mach s1 = mach s" "status s1 = status s" "yieldOnReturn s1 = yieldOnReturn s"
    "inHandler s1 = inHandler s" "threadToBeDestroyed s1 = threadToBeDestroyed s" "sems s1 = sems s" "threads s1 = threads s"
    "currentThread s1 = currentThread s" "readyList s1 = readyList s" "putBusy s1 = putBusy s" "incoming s1 = incoming s"
    "keyboard s1 = keyboard s" "display s1 = display s" "devices.more s1 = devices.more s"
    using s1(1) by (auto simp: ReadRequest_def Schedule_def count_read_def UpdateLast_def clocks_def Let_def bind_eq_Some_conv split: prod.splits)
  have h: "disk_head_ok s1"
    using disk_head_UpdateLast [of "s\<lparr>active := True\<rparr>" n] i(2) assms(2,3) s1(1)
    by (auto simp: ReadRequest_def Schedule_def count_read_def Let_def disk_head_ok_def now_def bind_eq_Some_conv)
  note d = disk_started [OF i(1,4) s1(2) _ _ s1(5) f(1-14)]
  from disk_waits [OF h, of s Y others] d i(3) obtain s' where "Semaphore_P Y others disk_sem s1 = Some (Returns () s')" "disk_idle s'"
    "kept_fields s1 s'" "tokens s' = tokens s" by auto
  with s1(1,3) f d(3) show ?thesis
    by (auto simp: SynchDisk_ReadSector_def Lock_Acquire_def Lock_Release_def then_run_def kept_fields_def)
qed

lemma WriteSector_returns:
  assumes "disk_idle s" "0 \<le> n" "n < NumSectors"
  shows "\<exists>s'. SynchDisk_WriteSector Y others n data s = Some (Returns () s') \<and> disk_idle s' \<and> tokens s' = tokens s
    \<and> sectors s' = (sectors s)(n := take SectorSize data) \<and> display s' = display s \<and> typed s' = typed s \<and> mach s' = mach s
    \<and> devices.more s' = devices.more s"
proof -
  have i: "quiet False s" "disk_head_ok s" "tokens s disk_sem = 0" "\<not> active s"
    using assms(1) disk_idle_inactive by (auto simp: disk_idle_def)
  let ?p = "\<lparr>handler = DiskDone, arg = 0, int_type = DiskInt\<rparr>" and ?t = "now s + ComputeLatency s n True"
  from WriteRequest_ok [OF i(2,4) assms(2,3), of data] obtain s1 where s1: "WriteRequest n data s = Some s1" "active s1" "disk_head_ok s1"
    "sectors s1 = (sectors s)(n := take SectorSize data)" "pending s1 = insert_key ?t ?p (pending s)" by blast
  have f: "clocks s1 = clocks s" "level s1 = level s" "mach s1 = mach s" "status s1 = status s" "yieldOnReturn s1 = yieldOnReturn s"
    "inHandler s1 = inHandler s" "threadToBeDestroyed s1 = threadToBeDestroyed s" "sems s1 = sems s" "threads s1 = threads s"
    "currentThread s1 = currentThread s" "readyList s1 = readyList s" "putBusy s1 = putBusy s" "incoming s1 = incoming s"
    "keyboard s1 = keyboard s" "display s1 = display s" "devices.more s1 = devices.more s"
    using s1(1) by (auto simp: WriteRequest_def Schedule_def count_write_def UpdateLast_def clocks_def Let_def bind_eq_Some_conv split: prod.splits)
  note d = disk_started [OF i(1,4) s1(2) _ _ s1(5) f(1-14)]
  from disk_waits [OF s1(3), of s Y others] d i(3) obtain s' where "Semaphore_P Y others disk_sem s1 = Some (Returns () s')" "disk_idle s'"
    "kept_fields s1 s'" "tokens s' = tokens s" by auto
  with s1(1,4) f d(3) show ?thesis
    by (auto simp: SynchDisk_WriteSector_def Lock_Acquire_def Lock_Release_def then_run_def kept_fields_def)
qed

section \<open>The synchronous console\<close>

lemma char_sent:
  assumes "quiet False s" "tokens s synchWriteAvail = 0"
  shows "\<exists>s'. put_chars Y others [c] s = Some (Returns () s') \<and> quiet False s' \<and> tokens s' = tokens s \<and> typed s' = typed s
    \<and> display s' = display s @ [c] \<and> kept_fields (s\<lparr>display := display s @ [c]\<rparr>) s'"
proof -
  have a: "alone False s" "level s = IntOn" "readyList s = []" using assms(1) by (simp_all add: quiet_def enabled_def)
  have "0 \<le> sem_value (sems s synchWriteAvail)" using a(1) by (simp add: alone_def device_sync_def)
  with assms(2) have b: "\<not> putBusy s" by (auto simp: tokens_def semaphore_ids)
  let ?p = "\<lparr>handler = ConsoleWriteDone, arg = 0, int_type = ConsoleWriteInt\<rparr>"
  define s1 where "s1 = s\<lparr>display := display s @ [c], putBusy := True, pending := insert_key (now s + ConsoleTime) ?p (pending s)\<rparr>"
  have p: "PutChar c s = Some s1" using b by (simp add: PutChar_def Schedule_def ConsoleTime_def s1_def now_def)
  have "device_sync False (mset (pending s)) s" using a(1) by (simp add: alone_def)
  then have "device_sync False (mset (pending s1)) s1"
    using b by (auto simp: device_sync_def s1_def insert_key_mset pend_of_add)
  moreover have "hw_ok s1" "settled s1" "up s1" "tcb_ok s1"
    using a(1) by (auto simp: s1_def alone_def hw_ok_def ticks_ok_def mach_ok_def insert_key_sorted settled_mach up_def stat_def tcb_ok_def)
  ultimately have q: "quiet False s1" using a by (simp add: quiet_def enabled_def alone_def s1_def)
  have t: "tokens s1 = (tokens s)(synchWriteAvail := 1)" "typed s1 = typed s"
    using b assms(2) by (auto simp: tokens_def typed_def s1_def semaphore_ids)
  have "synchWriteAvail \<noteq> synchReadAvail" by (simp add: semaphore_ids)
  with P_returns [OF q, of synchWriteAvail Y others] t(1) obtain s' where
    s': "Semaphore_P Y others synchWriteAvail s1 = Some (Returns () s')" "quiet False s'" "kept_fields s1 s'"
      "tokens s' = (tokens s1)(synchWriteAvail := 0)" by auto
  have k: "kept_fields (s\<lparr>display := display s @ [c]\<rparr>) s'"
    using s'(3) t(2) by (simp add: kept_fields_def s1_def typed_def now_def)
  moreover have "tokens s' = tokens s" using s'(4) t(1) assms(2) by auto
  moreover have "display s' = display s @ [c]" "typed s' = typed s" using s'(3) t(2) by (simp_all add: kept_fields_def s1_def)
  ultimately show ?thesis using p s'(1,2) by (auto simp: then_run_def)
qed

text \<open>The console operations leave the machine, the other threads, the disk and the rest of the kernel as they are.\<close>

definition console_only :: "'z devices_scheme \<Rightarrow> 'z devices_scheme \<Rightarrow> bool" where
  "console_only s s' \<longleftrightarrow> mach s' = mach s \<and> currentThread s' = currentThread s \<and> (\<forall>t. t \<noteq> currentThread s \<longrightarrow> threads s' t = threads s t)
     \<and> sectors s' = sectors s \<and> lastSector s' = lastSector s \<and> bufferInit s' = bufferInit s \<and> devices.more s' = devices.more s \<and> now s \<le> now s'"

lemma console_only_refl [simp]: "console_only s s"
  by (simp add: console_only_def)

lemma console_only_trans: "console_only a b \<Longrightarrow> console_only b c \<Longrightarrow> console_only a c"
  by (simp add: console_only_def)

lemma kept_console: "kept_fields s s' \<Longrightarrow> console_only s s'" "kept_fields (s\<lparr>display := d\<rparr>) s' \<Longrightarrow> console_only s s'"
  by (simp_all add: kept_fields_def console_only_def now_def)

lemma put_chars_returns:
  assumes "quiet False s" "tokens s synchWriteAvail = 0"
  shows "\<exists>s'. put_chars Y others cs s = Some (Returns () s') \<and> quiet False s' \<and> tokens s' = tokens s \<and> typed s' = typed s
    \<and> display s' = display s @ cs \<and> console_only s s'"
  using assms
proof (induction cs arbitrary: s)
  case (Cons c cs)
  from char_sent [OF Cons.prems, of Y others c] obtain s1 where s1: "put_chars Y others [c] s = Some (Returns () s1)" "quiet False s1"
    "tokens s1 = tokens s" "typed s1 = typed s" "display s1 = display s @ [c]" "console_only s s1"
    using kept_console(2) by blast
  have "put_chars Y others (c # cs) s = put_chars Y others cs s1"
    using s1(1) by (auto simp: then_run_Returns bind_eq_Some_conv)
  with Cons.IH [OF s1(2)] Cons.prems(2) s1(3-6) console_only_trans [OF s1(6)] show ?case by auto
qed simp

lemma SynchConsole_Write_returns:
  assumes "quiet False s" "tokens s synchWriteAvail = 0" "tokens s WLineBlock = 1" "nat n \<le> length from"
  shows "\<exists>s'. SynchConsole_Write Y others from n s = Some (Returns n s') \<and> quiet False s' \<and> tokens s' = tokens s \<and> typed s' = typed s
    \<and> display s' = display s @ take (nat n) from \<and> console_only s s'"
proof -
  have ids: "WLineBlock \<noteq> synchReadAvail" "WLineBlock \<noteq> synchWriteAvail" by (simp_all add: semaphore_ids)
  from P_returns [OF assms(1), of WLineBlock Y others] assms(3) ids(1) obtain s1 where
    s1: "Semaphore_P Y others WLineBlock s = Some (Returns () s1)" "quiet False s1" "kept_fields s s1" "tokens s1 = (tokens s)(WLineBlock := 0)"
    by auto
  have "tokens s1 synchWriteAvail = 0" using s1(4) ids(2) assms(2) by auto
  from put_chars_returns [OF s1(2) this, of Y others "take (nat n) from"] obtain s2 where
    s2: "put_chars Y others (take (nat n) from) s1 = Some (Returns () s2)" "quiet False s2" "tokens s2 = tokens s1" "typed s2 = typed s1"
      "display s2 = display s1 @ take (nat n) from" "console_only s1 s2" by blast
  from V_returns [OF s2(2), of Y WLineBlock] obtain s3 where s3: "Semaphore_V Y WLineBlock s2 = Some s3" "quiet False s3" "kept_fields s2 s3"
    "tokens s3 = (tokens s2)(WLineBlock := tokens s2 WLineBlock + 1)" by blast
  have "tokens s3 = tokens s" using s3(4) s2(3) s1(4) assms(3) by auto
  moreover have "typed s3 = typed s" "display s3 = display s @ take (nat n) from"
    using s1(3) s2(4,5) s3(3) by (simp_all add: kept_fields_def)
  moreover have "console_only s s3" using kept_console(1) [OF s1(3)] s2(6) kept_console(1) [OF s3(3)] console_only_trans by blast
  ultimately show ?thesis
    using s1(1) s2(1) s3(1,2) assms(4) by (auto simp: SynchConsole_Write_def then_run_def)
qed

text \<open>Reading one character.\<close>

lemma typed_token: "quiet False s \<Longrightarrow> typed s \<noteq> [] \<Longrightarrow> 0 < tokens s synchReadAvail"
proof -
  assume a: "quiet False s" "typed s \<noteq> []"
  then have "0 \<le> sem_value (sems s synchReadAvail)" "incoming s \<noteq> EOF_char \<longrightarrow> 0 < sem_value (sems s synchReadAvail)"
    by (auto simp: quiet_def enabled_def alone_def device_sync_def)
  moreover have "incoming s = EOF_char \<longrightarrow> keys (keyboard s) \<noteq> []" using a(2) by (auto simp: typed_def)
  ultimately show ?thesis by (cases "keys (keyboard s)") (auto simp: tokens_def semaphore_ids)
qed

lemma GetChar_quiet:
  assumes "quiet True s"
  shows "quiet False (s\<lparr>incoming := EOF_char\<rparr>)" "tokens (s\<lparr>incoming := EOF_char\<rparr>) = tokens s"
    "typed s = (if incoming s = EOF_char then [] else [incoming s]) @ typed (s\<lparr>incoming := EOF_char\<rparr>)"
    "console_only s (s\<lparr>incoming := EOF_char\<rparr>)"
proof -
  have "device_sync False M (s\<lparr>incoming := EOF_char\<rparr>)" if "device_sync True M s" for M using that by (simp add: device_sync_def)
  then show "quiet False (s\<lparr>incoming := EOF_char\<rparr>)"
    using assms by (simp add: quiet_def enabled_def alone_def hw_ok_def ticks_ok_def mach_ok_def settled_mach up_def stat_def tcb_ok_def)
  show "tokens (s\<lparr>incoming := EOF_char\<rparr>) = tokens s" by (rule ext) (simp add: tokens_def)
  show "typed s = (if incoming s = EOF_char then [] else [incoming s]) @ typed (s\<lparr>incoming := EOF_char\<rparr>)" by (simp add: typed_def)
  show "console_only s (s\<lparr>incoming := EOF_char\<rparr>)" by (simp add: console_only_def now_def)
qed

lemma read_char_returns:
  assumes "quiet False s" "typed s = c # cs"
  shows "\<exists>s' i. read_char Y others s = Some (Returns c s') \<and> quiet False s' \<and> typed s' = cs \<and> display s' = display s
    \<and> tokens s' = (tokens s)(synchReadAvail := i) \<and> console_only s s'"
  using assms
proof (induction "nat (tokens s synchReadAvail)" arbitrary: s rule: less_induct)
  case less
  note t = typed_token [OF less.prems(1)]
  from P_returns [OF less.prems(1), of synchReadAvail Y others] t less.prems(2) obtain s1 where
    s1: "Semaphore_P Y others synchReadAvail s = Some (Returns () s1)" "quiet True s1" "kept_fields s s1"
      "tokens s1 = (tokens s)(synchReadAvail := tokens s synchReadAvail - 1)" by auto
  let ?s2 = "s1\<lparr>incoming := EOF_char\<rparr>"
  note g = GetChar_quiet [OF s1(2)]
  have c2: "console_only s ?s2" using console_only_trans [OF kept_console(1) [OF s1(3)] g(4)] .
  have ty: "typed s1 = c # cs" "display s1 = display s" using s1(3) less.prems(2) by (simp_all add: kept_fields_def)
  have r: "read_char Y others s = (if incoming s1 = EOF_char then read_char Y others ?s2 else Some (Returns (incoming s1) ?s2))"
    by (subst read_char.simps) (simp add: s1(1) GetChar_def)
  show ?case
  proof (cases "incoming s1 = EOF_char")
    case True
    have "typed ?s2 = c # cs" using g(3) ty(1) True by simp
    moreover have "nat (tokens ?s2 synchReadAvail) < nat (tokens s synchReadAvail)" using t less.prems(2) s1(4) g(2) by simp
    ultimately obtain s' i where s': "read_char Y others ?s2 = Some (Returns c s')" "quiet False s'" "typed s' = cs" "display s' = display ?s2"
      "tokens s' = (tokens ?s2)(synchReadAvail := i)" "console_only ?s2 s'"
      using less.hyps [of ?s2] g(1) by blast
    have "tokens s' = (tokens s)(synchReadAvail := i)" using s'(5) g(2) s1(4) by simp
    moreover have "console_only s s'" using console_only_trans [OF c2 s'(6)] .
    ultimately show ?thesis using s' r True ty(2) by auto
  next
    case False
    then have "incoming s1 = c" "typed ?s2 = cs" using g(3) ty(1) by auto
    then show ?thesis using r False g(1,2) s1(4) c2 ty(2) by auto
  qed
qed

text \<open>Reading a line: what the characters to come give, \<open>None\<close> if the line does not end. The last component is what is left.\<close>

fun read_line :: "nat \<Rightarrow> byte \<Rightarrow> byte list \<Rightarrow> (byte \<times> byte list \<times> byte list) option" where
  "read_line 0 ch cs = Some (ch, [], cs)"
| "read_line (Suc n) ch [] = None"
| "read_line (Suc n) ch (c # cs) =
     (if c = 10 \<or> c = 1 then Some (c, [], cs)
      else map_option (\<lambda>(ch, got, rest). (ch, c # got, rest)) (read_line n c cs))"

lemma read_chars_returns:
  assumes "quiet False s" "read_line n ch (typed s) = Some (ch', got', rest)"
  shows "\<exists>s' i. read_chars Y others n got ch s = Some (Returns (ch', got @ got') s') \<and> quiet False s' \<and> typed s' = rest
    \<and> display s' = display s \<and> tokens s' = (tokens s)(synchReadAvail := i) \<and> console_only s s'"
  using assms
proof (induction n arbitrary: ch s got got')
  case 0
  then show ?case by (intro exI [of _ s] exI [of _ "tokens s synchReadAvail"]) simp
next
  case (Suc n)
  then obtain c cs where cs: "typed s = c # cs" by (cases "typed s") auto
  from read_char_returns [OF Suc.prems(1) cs, of Y others] obtain s1 i where s1: "read_char Y others s = Some (Returns c s1)" "quiet False s1"
    "typed s1 = cs" "display s1 = display s" "tokens s1 = (tokens s)(synchReadAvail := i)" "console_only s s1" by blast
  show ?case
  proof (cases "c = 10 \<or> c = 1")
    case True
    then show ?thesis using Suc.prems(2) cs s1 by (intro exI [of _ s1] exI [of _ i]) auto
  next
    case False
    then obtain got1 where got1: "read_line n c (typed s1) = Some (ch', got1, rest)" "got' = c # got1"
      using Suc.prems(2) cs s1(3) by auto
    from Suc.IH [OF s1(2) got1(1), of "got @ [c]"] obtain s2 j where s2:
      "read_chars Y others n (got @ [c]) c s1 = Some (Returns (ch', (got @ [c]) @ got1) s2)" "quiet False s2" "typed s2 = rest"
      "display s2 = display s1" "tokens s2 = (tokens s1)(synchReadAvail := j)" "console_only s1 s2" by blast
    have "tokens s2 = (tokens s)(synchReadAvail := j)" using s2(5) s1(5) by simp
    with s2 s1 False got1(2) console_only_trans [OF s1(6) s2(6)] show ?thesis by (intro exI [of _ s2] exI [of _ j]) simp
  qed
qed

lemma SynchConsole_Read_returns:
  assumes "quiet False s" "tokens s RLineBlock = 1" "read_line (nat n) ch0 (typed s) = Some (ch, got, rest)"
  shows "\<exists>s' i. SynchConsole_Read Y others ch0 n s
      = Some (Returns (if ch = 1 then -1 else int (length got), got @ replicate (nat n - length got) 0) s')
    \<and> quiet False s' \<and> typed s' = rest \<and> display s' = display s \<and> tokens s' = (tokens s)(synchReadAvail := i) \<and> console_only s s'"
proof -
  have ids: "RLineBlock \<noteq> synchReadAvail" by (simp add: semaphore_ids)
  from P_returns [OF assms(1), of RLineBlock Y others] assms(2) ids obtain s1 where
    s1: "Semaphore_P Y others RLineBlock s = Some (Returns () s1)" "quiet False s1" "kept_fields s s1" "tokens s1 = (tokens s)(RLineBlock := 0)"
    by auto
  have "typed s1 = typed s" using s1(3) by (simp add: kept_fields_def)
  with read_chars_returns [OF s1(2), of "nat n" ch0 ch got rest Y others "[]"] assms(3) obtain s2 i where
    s2: "read_chars Y others (nat n) [] ch0 s1 = Some (Returns (ch, got) s2)" "quiet False s2" "typed s2 = rest"
      "display s2 = display s1" "tokens s2 = (tokens s1)(synchReadAvail := i)" "console_only s1 s2" by auto
  from V_returns [OF s2(2), of Y RLineBlock] obtain s3 where s3: "Semaphore_V Y RLineBlock s2 = Some s3" "quiet False s3" "kept_fields s2 s3"
    "tokens s3 = (tokens s2)(RLineBlock := tokens s2 RLineBlock + 1)" by blast
  have "tokens s3 = (tokens s)(synchReadAvail := i)" using s3(4) s2(5) s1(4) assms(2) ids by (auto simp: fun_eq_iff)
  moreover have "typed s3 = rest" "display s3 = display s" using s1(3) s2(3,4) s3(3) by (simp_all add: kept_fields_def)
  moreover have "console_only s s3" using kept_console(1) [OF s1(3)] s2(6) kept_console(1) [OF s3(3)] console_only_trans by blast
  ultimately show ?thesis
    using s1(1) s2(1) s3(1,2) by (intro exI [of _ s3] exI [of _ i]) (simp add: SynchConsole_Read_def)
qed

section \<open>The interface to the file system\<close>

text \<open>
  The file system relies on sectors that are read and written one at a time (\<open>ReadSector\<close> and \<open>WriteSector\<close> on the contents of
  the disk). A sector store implements them on states with more detail.
\<close>

datatype sector_request = Get int | Put int "byte list"

fun run_abstract :: "sector_request list \<Rightarrow> disk \<Rightarrow> (byte list list \<times> disk) option" where
  "run_abstract [] d = Some ([], d)"
| "run_abstract (Get n # qs) d = do { x \<leftarrow> ReadSector n d; (xs, d') \<leftarrow> run_abstract qs d; Some (x # xs, d') }"
| "run_abstract (Put n data # qs) d = do { d1 \<leftarrow> WriteSector n data d; run_abstract qs d1 }"

fun run_store :: "(int \<Rightarrow> 's \<Rightarrow> (byte list \<times> 's) option) \<Rightarrow> (int \<Rightarrow> byte list \<Rightarrow> 's \<Rightarrow> (unit \<times> 's) option) \<Rightarrow> sector_request list \<Rightarrow> 's
    \<Rightarrow> (byte list list \<times> 's) option" where
  "run_store fetch store [] s = Some ([], s)"
| "run_store fetch store (Get n # qs) s = do { (x, s1) \<leftarrow> fetch n s; (xs, s') \<leftarrow> run_store fetch store qs s1; Some (x # xs, s') }"
| "run_store fetch store (Put n data # qs) s = do { (u, s1) \<leftarrow> store n data s; run_store fetch store qs s1 }"

locale sector_store =
  fixes contents :: "'s \<Rightarrow> disk" and ok :: "'s \<Rightarrow> bool"
    and fetch :: "int \<Rightarrow> 's \<Rightarrow> (byte list \<times> 's) option" and store :: "int \<Rightarrow> byte list \<Rightarrow> 's \<Rightarrow> (unit \<times> 's) option"
  assumes fetch_law: "ok s \<Longrightarrow> ReadSector n (contents s) = Some x \<Longrightarrow> \<exists>s'. fetch n s = Some (x, s') \<and> ok s' \<and> contents s' = contents s"
    and store_law: "ok s \<Longrightarrow> WriteSector n data (contents s) = Some d \<Longrightarrow> \<exists>s'. store n data s = Some ((), s') \<and> ok s' \<and> contents s' = d"
    and fetch_fail: "ok s \<Longrightarrow> ReadSector n (contents s) = None \<Longrightarrow> fetch n s = None"
    and store_fail: "ok s \<Longrightarrow> WriteSector n data (contents s) = None \<Longrightarrow> store n data s = None"
begin

lemma simulates:
  assumes "ok s"
  shows "case run_abstract qs (contents s) of
      None \<Rightarrow> run_store fetch store qs s = None
    | Some (xs, d) \<Rightarrow> \<exists>s'. run_store fetch store qs s = Some (xs, s') \<and> ok s' \<and> contents s' = d"
  using assms
proof (induction qs arbitrary: s)
  case Nil
  then show ?case by simp
next
  case (Cons q qs)
  show ?case
  proof (cases q)
    case (Get n)
    show ?thesis
    proof (cases "ReadSector n (contents s)")
      case None
      with Get fetch_fail [OF Cons.prems None] show ?thesis by simp
    next
      case (Some x)
      from fetch_law [OF Cons.prems Some] obtain s1 where s1: "fetch n s = Some (x, s1)" "ok s1" "contents s1 = contents s" by blast
      with Cons.IH [OF s1(2)] Some Get show ?thesis
        by (cases "run_abstract qs (contents s)") auto
    qed
  next
    case (Put n data)
    show ?thesis
    proof (cases "WriteSector n data (contents s)")
      case None
      with Put store_fail [OF Cons.prems None] show ?thesis by simp
    next
      case (Some d)
      from store_law [OF Cons.prems Some] obtain s1 where s1: "store n data s = Some ((), s1)" "ok s1" "contents s1 = d" by blast
      with Cons.IH [OF s1(2)] Some Put show ?thesis by (cases "run_abstract qs d") auto
    qed
  qed
qed

end

definition returned :: "('a, 's) outcome option \<Rightarrow> ('a \<times> 's) option" where
  "returned m = (case m of Some (Returns a s) \<Rightarrow> Some (a, s) | _ \<Rightarrow> None)"

lemma returned_simps [simp]: "returned None = None" "returned (Some (Halts s)) = None" "returned (Some (Returns a s)) = Some (a, s)"
  by (simp_all add: returned_def)

lemma bad_sector:
  assumes "\<not> (0 \<le> n \<and> n < NumSectors)"
  shows "SynchDisk_ReadSector Y others n s = None" "SynchDisk_WriteSector Y others n data s = None"
  using assms by (auto simp: SynchDisk_ReadSector_def SynchDisk_WriteSector_def ReadRequest_def WriteRequest_def Lock_Acquire_def Let_def
    ASSERT_def)

interpretation synch_disk: sector_store sectors disk_idle
  "\<lambda>n s. returned (SynchDisk_ReadSector Y others n s)" "\<lambda>n data s. returned (SynchDisk_WriteSector Y others n data s)" for Y others
proof unfold_locales
  fix n and s :: "'a devices_scheme" and x data d
  assume i: "disk_idle s"
  show "ReadSector n (sectors s) = Some x \<Longrightarrow>
      \<exists>s'. returned (SynchDisk_ReadSector Y others n s) = Some (x, s') \<and> disk_idle s' \<and> sectors s' = sectors s"
    using ReadSector_returns [OF i, of n Y others] by (auto simp: ReadSector_def)
  show "WriteSector n data (sectors s) = Some d \<Longrightarrow>
      \<exists>s'. returned (SynchDisk_WriteSector Y others n data s) = Some ((), s') \<and> disk_idle s' \<and> sectors s' = d"
    using WriteSector_returns [OF i, of n Y others data] by (auto simp: WriteSector_def)
  show "ReadSector n (sectors s) = None \<Longrightarrow> returned (SynchDisk_ReadSector Y others n s) = None"
    using bad_sector(1) [of n Y others s] by (auto simp: ReadSector_def ASSERT_def split: if_splits)
  show "WriteSector n data (sectors s) = None \<Longrightarrow> returned (SynchDisk_WriteSector Y others n data s) = None"
    using bad_sector(2) [of n Y others data s] by (auto simp: WriteSector_def ASSERT_def split: if_splits)
qed

section \<open>Properties of the synchronous devices\<close>

text \<open>The devices while the main thread runs alone: the keyboard is polled, three characters are about to be typed.\<close>

definition sample_quiet :: devices where
  "sample_quiet = sample_devices\<lparr>level := IntOn, keyboard := [None, Some 72, Some 105, None, Some 10],
     pending := [(100, \<lparr>handler = ConsoleReadPoll, arg = 0, int_type = ConsoleReadInt\<rparr>)],
     sems := (\<lambda>k. Semaphore_new (of_bool (k = RLineBlock \<or> k = WLineBlock)))\<rparr>"

lemma sample_quiet_ok: "quiet False sample_quiet" "disk_idle sample_quiet" "tokens sample_quiet synchWriteAvail = 0"
  "tokens sample_quiet WLineBlock = 1" "tokens sample_quiet RLineBlock = 1" "typed sample_quiet = [72, 105, 10]"
  "display sample_quiet = []" "sectors sample_quiet = (\<lambda>_. [])"
proof -
  show q: "quiet False sample_quiet"
    by (simp add: quiet_def enabled_def alone_def sample_quiet_def sample_devices_def hw_ok_def ticks_ok_def mach_ok_def settled_mach up_def stat_def
      tcb_ok_def device_sync_def pend_of_def Statistics_new_def boot_def Semaphore_new_def Thread_new_def hw.extend_def Interrupt_new_def)
  show "disk_idle sample_quiet"
    using q by (simp add: disk_idle_def disk_head_ok_def tokens_def sample_quiet_def sample_devices_def now_def Statistics_new_def
      disk_sizes Semaphore_new_def semaphore_ids)
  show "tokens sample_quiet synchWriteAvail = 0" "tokens sample_quiet WLineBlock = 1" "tokens sample_quiet RLineBlock = 1"
    by (simp_all add: tokens_def sample_quiet_def sample_devices_def Semaphore_new_def semaphore_ids)
  show "typed sample_quiet = [72, 105, 10]" "display sample_quiet = []" "sectors sample_quiet = (\<lambda>_. [])"
    by (simp_all add: typed_def sample_quiet_def sample_devices_def EOF_char_def)
qed

text \<open>C16. The synchronous disk implements the sectors on which the file system is built: from an idle disk, any sequence of
  \<open>ReadSector\<close> and \<open>WriteSector\<close> calls by a thread that is alone returns, through the request, the sleep, the idle loop, the
  completion interrupt and the wake-up, with the sectors and the data of the abstract operations, and leaves the disk idle; a sector
  number outside the disk fails the assertion in both.\<close>

theorem synch_disk_refines:
  assumes "disk_idle s"
  shows "case run_abstract qs (sectors s) of
      None \<Rightarrow> run_store (\<lambda>n s. returned (SynchDisk_ReadSector Y others n s)) (\<lambda>n data s. returned (SynchDisk_WriteSector Y others n data s)) qs s = None
    | Some (xs, d) \<Rightarrow> \<exists>s'. run_store (\<lambda>n s. returned (SynchDisk_ReadSector Y others n s))
        (\<lambda>n data s. returned (SynchDisk_WriteSector Y others n data s)) qs s = Some (xs, s') \<and> disk_idle s' \<and> sectors s' = d"
  by (rule synch_disk.simulates [OF assms])

theorem synch_disk_refines_witness:
  "disk_idle sample_quiet \<and> (\<exists>s'. run_store (\<lambda>n s. returned (SynchDisk_ReadSector (\<lambda>s. None) (\<lambda>t s. None) n s))
    (\<lambda>n data s. returned (SynchDisk_WriteSector (\<lambda>s. None) (\<lambda>t s. None) n data s)) [Put 3 [1, 2], Get 3, Get 4] sample_quiet = Some ([[1, 2], []], s'))"
proof -
  have "run_abstract [Put 3 [1, 2], Get 3, Get 4] (sectors sample_quiet) = Some ([[1, 2], []], (\<lambda>_. [])(3 := [1, 2]))"
    by (simp add: sample_quiet_ok(8) ReadSector_def WriteSector_def disk_sizes machine_sizes)
  with synch_disk_refines [OF sample_quiet_ok(2), where qs = "[Put 3 [1, 2], Get 3, Get 4]" and Y = "\<lambda>s. None" and others = "\<lambda>t s. None"] sample_quiet_ok(2)
  show ?thesis by auto
qed

text \<open>C17. \<^verbatim>\<open>SynchConsole::Write\<close> returns and prints: when no other thread is ready or waits and the console is free, the call sends every
  character, waiting for the completion interrupt of each, displays exactly the bytes of the buffer in order, and releases the console.\<close>

theorem console_write_displays:
  assumes "quiet False s" "tokens s synchWriteAvail = 0" "tokens s WLineBlock = 1" "nat n \<le> length from"
  shows "\<exists>s'. SynchConsole_Write Y others from n s = Some (Returns n s') \<and> display s' = display s @ take (nat n) from
    \<and> quiet False s' \<and> tokens s' = tokens s \<and> typed s' = typed s \<and> mach s' = mach s"
  using SynchConsole_Write_returns [OF assms, of Y others] by (auto simp: console_only_def)

theorem console_write_displays_witness:
  "\<exists>s'. SynchConsole_Write (\<lambda>s. None) (\<lambda>t s. None) [79, 75] 2 sample_quiet = Some (Returns 2 s') \<and> display s' = [79, 75]"
  using console_write_displays [OF sample_quiet_ok(1,3,4), of 2 "[79, 75]" "\<lambda>s. None" "\<lambda>t s. None"] sample_quiet_ok(7) by auto

text \<open>C18. \<^verbatim>\<open>SynchConsole::Read\<close> returns the line that is typed: whatever the timing of the polls, when the characters to come contain a line
  end within the limit (or enough characters), the call returns with the characters before it, none lost and none duplicated, the rest of
  the buffer zero, and the characters after it left for the next call; a control-A makes the result -1.\<close>

theorem console_read_gets_line:
  assumes "quiet False s" "tokens s RLineBlock = 1" "read_line (nat n) ch0 (typed s) = Some (ch, got, rest)"
  shows "\<exists>s' i. SynchConsole_Read Y others ch0 n s
      = Some (Returns (if ch = 1 then -1 else int (length got), got @ replicate (nat n - length got) 0) s')
    \<and> typed s' = rest \<and> quiet False s' \<and> display s' = display s \<and> tokens s' = (tokens s)(synchReadAvail := i) \<and> mach s' = mach s"
  using SynchConsole_Read_returns [OF assms, of Y others] by (auto simp: console_only_def)

theorem console_read_gets_line_witness:
  "\<exists>s'. SynchConsole_Read (\<lambda>s. None) (\<lambda>t s. None) 0 5 sample_quiet = Some (Returns (2, [72, 105, 0, 0, 0]) s') \<and> typed s' = []"
proof -
  have "read_line (nat 5) 0 (typed sample_quiet) = Some (10, [72, 105], [])"
  proof -
    have "nat 5 = Suc (Suc (Suc (Suc (Suc 0))))" by simp
    then show ?thesis by (simp only: sample_quiet_ok(6) read_line.simps) simp
  qed
  from console_read_gets_line [OF sample_quiet_ok(1,5) this, of "\<lambda>s. None" "\<lambda>t s. None"] show ?thesis
    by (auto simp: numeral_3_eq_3)
qed

end
