(* ===== verification/Host_Files.thy ===== *)
theory Host_Files
  imports Directory
begin

text \<open>
  machine/sysdep.cc (files), and the classes \<^verbatim>\<open>OpenFile\<close> and \<^verbatim>\<open>FileSystem\<close> of filesys/openfile.h and filesys/filesys.h
  under \<^verbatim>\<open>FILESYS_STUB\<close>, the configuration in which user programs run: files are files of the host.

  The host is modelled by what the kernel uses of POSIX: names refer to inodes, a descriptor is an inode with an offset, the lowest free
  descriptor is used next, a write beyond the end fills the gap with zeros, an unlinked file lives on while it is open. Names in
  \<open>denied\<close> are those the host refuses to open (directories, missing permissions). Descriptors 0 to 2 are taken by the terminal.
\<close>

section \<open>The host\<close>

record host =
  inodes :: "nat \<Rightarrow> byte list"
  names :: "byte list \<Rightarrow> nat option"
  fds :: "(nat \<times> int) option list"
  next_inode :: nat
  denied :: "byte list \<Rightarrow> bool"

fun lowest_free :: "'a option list \<Rightarrow> nat" where
  "lowest_free [] = 0"
| "lowest_free (x # xs) = (if x = None then 0 else Suc (lowest_free xs))"

definition new_fd :: "nat \<Rightarrow> host \<Rightarrow> int \<times> host" where
  "new_fd inode h =
     (let k = lowest_free (fds h) in
      (int k + 3, h\<lparr>fds := (fds h @ [None])[k := Some (inode, 0)]\<rparr>))"

definition fd_entry :: "int \<Rightarrow> host \<Rightarrow> (nat \<times> int) option" where
  "fd_entry fd h = (if 3 \<le> fd \<and> nat (fd - 3) < length (fds h) then fds h ! nat (fd - 3) else None)"

definition set_fd :: "int \<Rightarrow> (nat \<times> int) option \<Rightarrow> host \<Rightarrow> host" where
  "set_fd fd e h = h\<lparr>fds := (fds h)[nat (fd - 3) := e]\<rparr>"

definition overwrite :: "byte list \<Rightarrow> nat \<Rightarrow> byte list \<Rightarrow> byte list" where
  "overwrite xs off bs = take off (xs @ replicate (off - length xs) 0) @ bs @ drop (off + length bs) xs"

section \<open>Files of machine/sysdep.cc\<close>

definition OpenForWrite :: "byte list \<Rightarrow> host \<Rightarrow> (int \<times> host) option" where
  "OpenForWrite name h = do {
     ASSERT (\<not> denied h name);
     (case names h name of
        Some i \<Rightarrow> Some (new_fd i (h\<lparr>inodes := (inodes h)(i := [])\<rparr>))
      | None \<Rightarrow> Some (new_fd (next_inode h)
          (h\<lparr>inodes := (inodes h)(next_inode h := []), names := (names h)(name \<mapsto> next_inode h), next_inode := next_inode h + 1\<rparr>))) }"

definition OpenForReadWrite :: "byte list \<Rightarrow> bool \<Rightarrow> host \<Rightarrow> (int \<times> host) option" where
  "OpenForReadWrite name crashOnError h =
     (case (if denied h name then None else names h name) of
        Some i \<Rightarrow> Some (new_fd i h)
      | None \<Rightarrow> do { ASSERT (\<not> crashOnError); Some (-1, h) })"

definition ReadPartial :: "int \<Rightarrow> int \<Rightarrow> host \<Rightarrow> (byte list \<times> host) option" where
  "ReadPartial fd nBytes h = do {
     (i, off) \<leftarrow> fd_entry fd h;
     ASSERT (0 \<le> nBytes);
     let bs = take (nat nBytes) (drop (nat off) (inodes h i));
     Some (bs, set_fd fd (Some (i, off + int (length bs))) h) }"

definition WriteFile :: "int \<Rightarrow> byte list \<Rightarrow> host \<Rightarrow> host option" where
  "WriteFile fd bs h = do {
     (i, off) \<leftarrow> fd_entry fd h;
     Some (set_fd fd (Some (i, off + int (length bs)))
       (h\<lparr>inodes := (inodes h)(i := if bs = [] then inodes h i else overwrite (inodes h i) (nat off) bs)\<rparr>)) }"

definition Lseek_set :: "int \<Rightarrow> int \<Rightarrow> host \<Rightarrow> host option" where
  "Lseek_set fd offset h = do {
     (i, off) \<leftarrow> fd_entry fd h;
     ASSERT (0 \<le> offset);
     Some (set_fd fd (Some (i, offset)) h) }"

definition Lseek_end :: "int \<Rightarrow> host \<Rightarrow> host option" where
  "Lseek_end fd h = do {
     (i, off) \<leftarrow> fd_entry fd h;
     Some (set_fd fd (Some (i, int (length (inodes h i)))) h) }"

definition Tell :: "int \<Rightarrow> host \<Rightarrow> int option" where
  "Tell fd h = map_option snd (fd_entry fd h)"

definition Close :: "int \<Rightarrow> host \<Rightarrow> host option" where
  "Close fd h = do { e \<leftarrow> fd_entry fd h; Some (set_fd fd None h) }"

definition Unlink :: "byte list \<Rightarrow> host \<Rightarrow> bool \<times> host" where
  "Unlink name h = (names h name = None, h\<lparr>names := (names h)(name := None)\<rparr>)"

section \<open>\<^verbatim>\<open>OpenFile\<close> over host files\<close>

record StubFile =
  stub_fd :: int
  currentOffset :: int
  stub_type :: int

definition StubFile_new :: "int \<Rightarrow> int \<Rightarrow> StubFile" where
  "StubFile_new f t = \<lparr>stub_fd = f, currentOffset = 0, stub_type = t\<rparr>"

definition StubFile_delete :: "StubFile \<Rightarrow> host \<Rightarrow> host option" where
  "StubFile_delete f h = Close (stub_fd f) h"

definition Stub_Seek :: "int \<Rightarrow> StubFile \<Rightarrow> host \<Rightarrow> (int \<times> StubFile \<times> host) option" where
  "Stub_Seek pos f h = do {
     h \<leftarrow> Lseek_set (stub_fd f) pos h;
     off \<leftarrow> Tell (stub_fd f) h;
     Some (off, f\<lparr>currentOffset := off\<rparr>, h) }"

definition Stub_ReadAt :: "int \<Rightarrow> int \<Rightarrow> StubFile \<Rightarrow> host \<Rightarrow> (byte list \<times> host) option" where
  "Stub_ReadAt nbytes position f h = do {
     h \<leftarrow> Lseek_set (stub_fd f) position h;
     ReadPartial (stub_fd f) nbytes h }"

definition Stub_WriteAt :: "byte list \<Rightarrow> int \<Rightarrow> int \<Rightarrow> StubFile \<Rightarrow> host \<Rightarrow> (int \<times> host) option" where
  "Stub_WriteAt from nbytes position f h = do {
     h \<leftarrow> Lseek_set (stub_fd f) position h;
     ASSERT (0 \<le> nbytes \<and> nat nbytes \<le> length from);
     h \<leftarrow> WriteFile (stub_fd f) (take (nat nbytes) from) h;
     Some (nbytes, h) }"

definition Stub_Read :: "int \<Rightarrow> StubFile \<Rightarrow> host \<Rightarrow> (byte list \<times> StubFile \<times> host) option" where
  "Stub_Read nbytes f h = do {
     (bs, h) \<leftarrow> Stub_ReadAt nbytes (currentOffset f) f h;
     Some (bs, f\<lparr>currentOffset := currentOffset f + int (length bs)\<rparr>, h) }"

definition Stub_Write :: "byte list \<Rightarrow> int \<Rightarrow> StubFile \<Rightarrow> host \<Rightarrow> (int \<times> StubFile \<times> host) option" where
  "Stub_Write from nbytes f h = do {
     (n, h) \<leftarrow> Stub_WriteAt from nbytes (currentOffset f) f h;
     Some (n, f\<lparr>currentOffset := currentOffset f + n\<rparr>, h) }"

definition Stub_Length :: "StubFile \<Rightarrow> host \<Rightarrow> (int \<times> host) option" where
  "Stub_Length f h = do {
     h \<leftarrow> Lseek_end (stub_fd f) h;
     len \<leftarrow> Tell (stub_fd f) h;
     h \<leftarrow> Lseek_set (stub_fd f) (currentOffset f) h;
     Some (len, h) }"

definition Stub_GetCurrentPos :: "StubFile \<Rightarrow> host \<Rightarrow> (int \<times> StubFile) option" where
  "Stub_GetCurrentPos f h = do { off \<leftarrow> Tell (stub_fd f) h; Some (off, f\<lparr>currentOffset := off\<rparr>) }"

section \<open>\<^verbatim>\<open>FileSystem\<close> over host files\<close>

record StubFS =
  stub_open :: "StubFile option list"
  stub_index :: nat
  hst :: host

definition Stub_Create :: "byte list \<Rightarrow> int \<Rightarrow> host \<Rightarrow> (bool \<times> host) option" where
  "Stub_Create name initialSize h = do {
     (fd, h) \<leftarrow> OpenForWrite name h;
     if fd = -1 then Some (False, h)
     else do { h \<leftarrow> Close fd h; Some (True, h) } }"

definition Stub_Open :: "byte list \<Rightarrow> int \<Rightarrow> host \<Rightarrow> (StubFile option \<times> host) option" where
  "Stub_Open name type h = do {
     (fd, h) \<leftarrow> OpenForReadWrite name False h;
     if fd = -1 then Some (None, h) else Some (Some (StubFile_new fd type), h) }"

definition Stub_FindFreeSlot :: "StubFS \<Rightarrow> int" where
  "Stub_FindFreeSlot fs =
     (let k = lowest_free (drop 2 (stub_open fs)) in if 2 + k < length (stub_open fs) then int (2 + k) else -1)"

definition Stub_Remove :: "byte list \<Rightarrow> host \<Rightarrow> bool \<times> host" where
  "Stub_Remove name h = (let (failed, h) = Unlink name h in (\<not> failed, h))"

definition stub_standard :: "byte list \<Rightarrow> int \<Rightarrow> StubFS \<Rightarrow> StubFS option" where
  "stub_standard name type fs = do {
     (f, h) \<leftarrow> Stub_Open name type (hst fs);
     os \<leftarrow> array_set (stub_open fs) (stub_index fs) f;
     Some (fs\<lparr>stub_open := os, stub_index := stub_index fs + 1, hst := h\<rparr>) }"

definition StubFS_new :: "host \<Rightarrow> StubFS option" where
  "StubFS_new h = do {
     (ok, h) \<leftarrow> Stub_Create [115, 116, 100, 105, 110] 0 h;
     (ok, h) \<leftarrow> Stub_Create [115, 116, 100, 111, 117, 116] 0 h;
     fs \<leftarrow> stub_standard [115, 116, 100, 105, 110] 2 \<lparr>stub_open = replicate 10 None, stub_index = 0, hst = h\<rparr>;
     stub_standard [115, 116, 100, 111, 117, 116] 3 fs }"

section \<open>Descriptors\<close>

lemma lowest_free_le: "lowest_free xs \<le> length xs"
  by (induction xs) auto

lemma lowest_free_taken: "k < lowest_free xs \<Longrightarrow> xs ! k \<noteq> None"
proof (induction xs arbitrary: k)
  case (Cons x xs)
  then show ?case by (cases k) (auto split: if_splits)
qed simp

lemma lowest_free_is_free: "lowest_free xs < length xs \<Longrightarrow> xs ! lowest_free xs = None"
  by (induction xs) auto

lemma new_fd_entry:
  assumes "new_fd i h = (fd, h')"
  shows "fd_entry fd h' = Some (i, 0)" "fd \<noteq> -1" "3 \<le> fd" "inodes h' = inodes h" "names h' = names h"
    "fd_entry fd h = None" "f \<noteq> fd \<Longrightarrow> fd_entry f h' = fd_entry f h"
proof -
  let ?k = "lowest_free (fds h)"
  have fd: "fd = int ?k + 3" and h': "h' = h\<lparr>fds := (fds h @ [None])[?k := Some (i, 0)]\<rparr>"
    using assms by (auto simp: new_fd_def Let_def)
  have k: "?k < length (fds h @ [None])" using lowest_free_le [of "fds h"] by simp
  then show "fd_entry fd h' = Some (i, 0)" by (simp add: fd_entry_def fd h')
  show "fd \<noteq> -1" "3 \<le> fd" by (simp_all add: fd)
  show "inodes h' = inodes h" "names h' = names h" by (simp_all add: h')
  show "fd_entry fd h = None" using lowest_free_is_free [of "fds h"] by (simp add: fd_entry_def fd)
  show "fd_entry f h' = fd_entry f h" if "f \<noteq> fd"
    using that k by (auto simp: fd_entry_def h' fd nth_list_update nth_append)
qed

lemma set_fd_entry:
  assumes "fd_entry fd h \<noteq> None"
  shows "fd_entry fd (set_fd fd e h) = e" "f \<noteq> fd \<Longrightarrow> fd_entry f (set_fd fd e h) = fd_entry f h"
  using assms by (auto simp: fd_entry_def set_fd_def nth_list_update split: if_splits)

lemma set_fd_fields [simp]: "inodes (set_fd fd e h) = inodes h" "names (set_fd fd e h) = names h" "denied (set_fd fd e h) = denied h"
  "next_inode (set_fd fd e h) = next_inode h"
  by (simp_all add: set_fd_def)

lemma fd_entry_inodes [simp]: "fd_entry fd (h\<lparr>inodes := x\<rparr>) = fd_entry fd h"
  by (simp add: fd_entry_def)

section \<open>Reading and writing through a descriptor\<close>

lemma overwrite_slice: "take (length bs) (drop off (overwrite xs off bs)) = bs"
  by (simp add: overwrite_def min_def)

lemma overwrite_before: "j < off \<Longrightarrow> j < length xs \<Longrightarrow> overwrite xs off bs ! j = xs ! j"
  by (simp add: overwrite_def nth_append)

lemma overwrite_length: "length (overwrite xs off bs) = max (length xs) (off + length bs)"
  by (simp add: overwrite_def min_def max_def)

lemma Stub_Read_eq:
  assumes "fd_entry (stub_fd f) h = Some (i, off)" "0 \<le> currentOffset f" "0 \<le> n"
  defines "bs \<equiv> take (nat n) (drop (nat (currentOffset f)) (inodes h i))"
  shows "\<exists>h'. Stub_Read n f h = Some (bs, f\<lparr>currentOffset := currentOffset f + int (length bs)\<rparr>, h') \<and> inodes h' = inodes h
    \<and> names h' = names h \<and> fd_entry (stub_fd f) h' = Some (i, currentOffset f + int (length bs))
    \<and> (\<forall>g. g \<noteq> stub_fd f \<longrightarrow> fd_entry g h' = fd_entry g h)"
  using assms(1-3) unfolding bs_def
  by (auto simp: Stub_Read_def Stub_ReadAt_def Lseek_set_def ReadPartial_def set_fd_entry)

lemma Stub_Write_eq:
  assumes "fd_entry (stub_fd f) h = Some (i, off)" "0 \<le> currentOffset f" "0 < n" "nat n \<le> length from"
  shows "\<exists>h'. Stub_Write from n f h = Some (n, f\<lparr>currentOffset := currentOffset f + n\<rparr>, h')
    \<and> inodes h' = (inodes h)(i := overwrite (inodes h i) (nat (currentOffset f)) (take (nat n) from))
    \<and> names h' = names h \<and> fd_entry (stub_fd f) h' = Some (i, currentOffset f + n)
    \<and> (\<forall>g. g \<noteq> stub_fd f \<longrightarrow> fd_entry g h' = fd_entry g h)"
  using assms
  by (auto simp: Stub_Write_def Stub_WriteAt_def Lseek_set_def WriteFile_def set_fd_entry)

section \<open>The host as a map from names to contents\<close>

definition host_ok :: "host \<Rightarrow> bool" where
  "host_ok h \<longleftrightarrow> inj_on (names h) (dom (names h)) \<and> (\<forall>n i. names h n = Some i \<longrightarrow> i < next_inode h)"

definition host_files :: "host \<Rightarrow> byte list \<Rightarrow> byte list option" where
  "host_files h n = (if denied h n then None else map_option (inodes h) (names h n))"

lemma host_files_cong: "names h' = names h \<Longrightarrow> inodes h' = inodes h \<Longrightarrow> denied h' = denied h \<Longrightarrow> host_files h' = host_files h"
  by (rule ext) (simp add: host_files_def)

lemma host_ok_cong: "names h' = names h \<Longrightarrow> next_inode h' = next_inode h \<Longrightarrow> host_ok h' = host_ok h"
  by (simp add: host_ok_def)

lemma new_fd_fields:
  assumes "new_fd i h = (fd, h')"
  shows "names h' = names h" "inodes h' = inodes h" "denied h' = denied h" "next_inode h' = next_inode h"
  using assms by (auto simp: new_fd_def Let_def)

lemma OpenForWrite_empties:
  assumes "host_ok h" "\<not> denied h name"
  shows "\<exists>fd h'. OpenForWrite name h = Some (fd, h') \<and> 3 \<le> fd \<and> fd_entry fd h' \<noteq> None \<and> host_ok h' \<and> host_files h' = (host_files h)(name \<mapsto> [])
    \<and> denied h' = denied h"
proof (cases "names h name")
  case (Some i)
  let ?h = "h\<lparr>inodes := (inodes h)(i := [])\<rparr>"
  obtain fd h' where n: "new_fd i ?h = (fd, h')" by force
  note f = new_fd_fields [OF n]
  have other: "names h x \<noteq> Some i" if "x \<noteq> name" for x
    using assms(1) Some that inj_onD [of "names h" "dom (names h)" x name] by (auto simp: host_ok_def dom_def)
  have "host_files ?h x = ((host_files h)(name \<mapsto> [])) x" for x
    using assms(2) Some other [of x] by (cases "names h x") (auto simp: host_files_def)
  then have "host_files ?h = (host_files h)(name \<mapsto> [])" by (rule ext)
  moreover have "host_files h' = host_files ?h" by (rule host_files_cong [OF f(1-3)])
  moreover have "host_ok h'" using assms(1) host_ok_cong [OF f(1,4)] by (simp add: host_ok_def)
  moreover have "OpenForWrite name h = Some (fd, h')" using assms(2) Some n by (simp add: OpenForWrite_def)
  ultimately show ?thesis using f(3) new_fd_entry(1,3) [OF n] by (intro exI [of _ fd] exI [of _ h']) simp
next
  case None
  let ?h = "h\<lparr>inodes := (inodes h)(next_inode h := []), names := (names h)(name \<mapsto> next_inode h), next_inode := next_inode h + 1\<rparr>"
  obtain fd h' where n: "new_fd (next_inode h) ?h = (fd, h')" by force
  note f = new_fd_fields [OF n]
  have lt: "names h x = Some i \<Longrightarrow> i < next_inode h" for x i using assms(1) by (auto simp: host_ok_def)
  have "host_files ?h x = ((host_files h)(name \<mapsto> [])) x" for x
    using assms(2) None lt [of x] by (cases "names h x") (auto simp: host_files_def)
  then have "host_files ?h = (host_files h)(name \<mapsto> [])" by (rule ext)
  moreover have "host_files h' = host_files ?h" by (rule host_files_cong [OF f(1-3)])
  moreover have "inj_on (names ?h) (dom (names ?h))" using assms(1) lt by (fastforce simp: host_ok_def inj_on_def)
  then have "host_ok h'" using lt host_ok_cong [OF f(1,4)] by (auto simp: host_ok_def less_SucI)
  moreover have "OpenForWrite name h = Some (fd, h')" using assms(2) None n by (simp add: OpenForWrite_def)
  ultimately show ?thesis using f(3) new_fd_entry(1,3) [OF n] by (intro exI [of _ fd] exI [of _ h']) simp
qed

lemma Stub_Create_eq:
  assumes "host_ok h" "\<not> denied h name"
  shows "\<exists>h'. Stub_Create name sz h = Some (True, h') \<and> host_ok h' \<and> host_files h' = (host_files h)(name \<mapsto> []) \<and> denied h' = denied h"
proof -
  from OpenForWrite_empties [OF assms] obtain fd h1 where h1: "OpenForWrite name h = Some (fd, h1)" "3 \<le> fd" "fd_entry fd h1 \<noteq> None"
    "host_ok h1" "host_files h1 = (host_files h)(name \<mapsto> [])" "denied h1 = denied h" by blast
  have "host_files (set_fd fd None h1) = host_files h1" "host_ok (set_fd fd None h1) = host_ok h1"
    by (auto intro!: host_files_cong host_ok_cong simp: set_fd_def)
  with h1 show ?thesis by (auto simp: Stub_Create_def Close_def)
qed

lemma Stub_Open_eq:
  assumes "host_ok h"
  shows "case host_files h name of
      None \<Rightarrow> Stub_Open name t h = Some (None, h)
    | Some bs \<Rightarrow> \<exists>fd ino h'. Stub_Open name t h = Some (Some (StubFile_new fd t), h') \<and> fd_entry fd h' = Some (ino, 0) \<and> inodes h' ino = bs
        \<and> host_ok h' \<and> host_files h' = host_files h \<and> denied h' = denied h \<and> fd_entry fd h = None \<and> (\<forall>g. g \<noteq> fd \<longrightarrow> fd_entry g h' = fd_entry g h)"
proof (cases "host_files h name")
  case None
  then show ?thesis by (auto simp: host_files_def Stub_Open_def OpenForReadWrite_def split: if_splits)
next
  case (Some bs)
  then obtain i where i: "\<not> denied h name" "names h name = Some i" "inodes h i = bs" by (auto simp: host_files_def split: if_splits)
  obtain fd h' where n: "new_fd i h = (fd, h')" by force
  note f = new_fd_fields [OF n] and e = new_fd_entry [OF n]
  have "host_files h' = host_files h" "host_ok h' = host_ok h" using host_files_cong [OF f(1-3)] host_ok_cong [OF f(1,4)] by simp_all
  then show ?thesis using Some i n f e assms by (auto simp: Stub_Open_def OpenForReadWrite_def)
qed

definition host_stdin :: "byte list" where "host_stdin = [115, 116, 100, 105, 110]"
definition host_stdout :: "byte list" where "host_stdout = [115, 116, 100, 111, 117, 116]"

lemma stub_standard_eq:
  assumes "host_ok (hst fs)" "host_files (hst fs) name \<noteq> None" "stub_index fs < length (stub_open fs)"
  shows "\<exists>f h. stub_standard name t fs = Some (fs\<lparr>stub_open := (stub_open fs)[stub_index fs := Some f], stub_index := stub_index fs + 1, hst := h\<rparr>)
    \<and> stub_type f = t \<and> host_ok h \<and> host_files h = host_files (hst fs)"
proof -
  from Stub_Open_eq [OF assms(1), of name t] assms(2) obtain fd h where h: "Stub_Open name t (hst fs) = Some (Some (StubFile_new fd t), h)"
    "host_ok h" "host_files h = host_files (hst fs)" by auto
  then show ?thesis using assms(3)
    by (intro exI [of _ "StubFile_new fd t"] exI [of _ h]) (simp add: stub_standard_def StubFile_new_def)
qed

lemma StubFS_new_eq:
  assumes "host_ok h" "\<not> denied h host_stdin" "\<not> denied h host_stdout"
  shows "\<exists>fs f0 f1. StubFS_new h = Some fs \<and> stub_open fs = [Some f0, Some f1] @ replicate 8 None \<and> stub_type f0 = 2 \<and> stub_type f1 = 3
    \<and> host_ok (hst fs) \<and> host_files (hst fs) = (host_files h)(host_stdin \<mapsto> [], host_stdout \<mapsto> [])"
proof -
  from Stub_Create_eq [OF assms(1,2), of 0] obtain h1 where h1: "Stub_Create host_stdin 0 h = Some (True, h1)" "host_ok h1"
    "host_files h1 = (host_files h)(host_stdin \<mapsto> [])" "denied h1 = denied h" by blast
  from Stub_Create_eq [OF h1(2), of host_stdout 0] assms(3) h1(4) obtain h2 where h2: "Stub_Create host_stdout 0 h1 = Some (True, h2)" "host_ok h2"
    "host_files h2 = (host_files h1)(host_stdout \<mapsto> [])" by auto
  let ?fs = "\<lparr>stub_open = replicate 10 None, stub_index = 0, hst = h2\<rparr>"
  have "host_files h2 host_stdin \<noteq> None" "host_files h2 host_stdout \<noteq> None" using h1(3) h2(3) by auto
  with stub_standard_eq [of ?fs host_stdin 2] h1(3) h2(2,3) obtain f0 h3 where 3: "stub_standard host_stdin 2 ?fs
      = Some \<lparr>stub_open = (replicate 10 None)[0 := Some f0], stub_index = 1, hst = h3\<rparr>" "stub_type f0 = 2" "host_ok h3" "host_files h3 = host_files h2"
    by auto
  let ?fs3 = "\<lparr>stub_open = (replicate 10 None)[0 := Some f0], stub_index = 1, hst = h3\<rparr>"
  have "host_files h3 host_stdout \<noteq> None" using 3(4) h2(3) by simp
  with stub_standard_eq [of ?fs3 host_stdout 3] 3(3,4) h2(3) obtain f1 h4 where 4: "stub_standard host_stdout 3 ?fs3
      = Some \<lparr>stub_open = (replicate 10 None)[0 := Some f0, 1 := Some f1], stub_index = 2, hst = h4\<rparr>" "stub_type f1 = 3" "host_ok h4" "host_files h4 = host_files h3"
    by auto
  have "StubFS_new h = Some \<lparr>stub_open = (replicate 10 None)[0 := Some f0, 1 := Some f1], stub_index = 2, hst = h4\<rparr>"
    using h1(1) h2(1) 3(1) 4(1) by (simp add: StubFS_new_def host_stdin_def host_stdout_def)
  moreover have "(replicate 10 None)[0 := Some f0, 1 := Some f1] = [Some f0, Some f1] @ replicate 8 None" by (simp add: numeral_eq_Suc)
  ultimately show ?thesis using 3 4 h1(3) h2(3) by auto
qed

text \<open>When the host refuses one of the two files, the assertion in \<open>OpenForWrite\<close> fails.\<close>

lemma StubFS_new_denied:
  assumes "denied h host_stdin \<or> denied h host_stdout"
  shows "StubFS_new h = None"
proof -
  have "denied h' = denied h" if "Stub_Create name n h = Some (b, h')" for name n b h'
    using that by (auto simp: Stub_Create_def OpenForWrite_def Close_def new_fd_def set_fd_def Let_def bind_eq_Some_conv split: option.splits if_splits prod.splits)
  moreover have "Stub_Create name n h' = None" if "denied h' name" for name n h'
    using that by (simp add: Stub_Create_def OpenForWrite_def)
  ultimately show ?thesis using assms
    by (cases "Stub_Create host_stdin 0 h") (auto simp: StubFS_new_def host_stdin_def [symmetric] host_stdout_def [symmetric])
qed

end
