(* ===== verification/Kernel_State.thy ===== *)
theory Kernel_State
  imports Synch_Devices Host_Files
begin

text \<open>
  threads/system.cc (the global objects), userprog/stable.h, userprog/pcb.h and userprog/ptable.h (the data of the tables):
  the state of the kernel as the system calls see it. It extends the devices and the scheduler with the file system, the frames,
  the table of user semaphores and the table of processes.

  Semaphores are numbered; 0 to 4 are those of the synchronous devices and \<open>next_sem\<close> is the next one to be created. Threads are numbered
  likewise. Names are C strings: their characters up to the terminating zero.
\<close>

section \<open>State\<close>

text \<open>\<^verbatim>\<open>class Sem\<close> and \<^verbatim>\<open>class STable\<close>.\<close>

record Sem =
  sem_name :: "byte list"
  sem_id :: nat

record STable =
  stab_bm :: bitmap
  semTab :: "Sem option list"

text \<open>\<^verbatim>\<open>class PCB\<close>. The buffer of the file name is not initialised by the constructor.\<close>

record PCB =
  joinsem :: nat
  exitsem :: nat
  multex :: nat
  exitcode :: int
  numwait :: int
  parentID :: int
  pcb_filename :: "byte list option"
  pcb_thread :: "nat option"

text \<open>A pointer in the process table: null, to an object, or to an object whose destructor has run.\<close>

datatype pcb_cell = NullPCB | Live PCB | Freed

record PTable =
  ptab_bm :: bitmap
  pcbs :: "pcb_cell list"
  psize :: int
  bmsem :: nat

text \<open>
  The fields \<open>processID\<close> and \<open>threadName\<close> are members of \<^verbatim>\<open>class Thread\<close>; the name is \<open>None\<close> when the memory it points to has been
  freed. \<open>forkArg\<close> is the argument with which a forked thread will call \<^verbatim>\<open>StartProcessWithID\<close>.
\<close>

record nachos = devices +
  fileSystem :: StubFS
  physPages :: bitmap
  addrLockSem :: nat
  sem_table :: STable
  proc_table :: PTable
  next_sem :: nat
  next_thread :: nat
  processID :: "nat \<Rightarrow> int"
  threadName :: "nat \<Rightarrow> byte list option"
  forkArg :: "nat \<Rightarrow> int option"

definition MAX_SEMAPHORE :: int where "MAX_SEMAPHORE = 10"
definition MAX_PROCESS :: int where "MAX_PROCESS = 10"

text \<open>\<^verbatim>\<open>new Semaphore(name, value)\<close>.\<close>

definition new_semaphore :: "int \<Rightarrow> nachos \<Rightarrow> nat \<times> nachos" where
  "new_semaphore initial s =
     (next_sem s, (set_sem (next_sem s) (Semaphore_new initial) s)\<lparr>next_sem := next_sem s + 1\<rparr>)"

section \<open>The state of the devices does not depend on the tables\<close>

lemma table_updates [simp]:
  fixes s :: nachos
  shows "alone g (s\<lparr>sem_table := a\<rparr>) = alone g s" "alone g (s\<lparr>proc_table := b\<rparr>) = alone g s" "alone g (s\<lparr>next_sem := n\<rparr>) = alone g s"
    "alone g (s\<lparr>next_thread := n\<rparr>) = alone g s" "alone g (s\<lparr>processID := c\<rparr>) = alone g s" "alone g (s\<lparr>threadName := d\<rparr>) = alone g s"
    "alone g (s\<lparr>forkArg := e\<rparr>) = alone g s" "alone g (s\<lparr>fileSystem := f\<rparr>) = alone g s" "alone g (s\<lparr>physPages := h\<rparr>) = alone g s"
  by (simp_all add: alone_def hw_ok_def ticks_ok_def mach_ok_def settled_mach up_def stat_def tcb_ok_def device_sync_def)

lemma table_tokens [simp]:
  fixes s :: nachos
  shows "tokens (s\<lparr>sem_table := a\<rparr>) = tokens s" "tokens (s\<lparr>proc_table := b\<rparr>) = tokens s" "tokens (s\<lparr>next_sem := n\<rparr>) = tokens s"
    "tokens (s\<lparr>next_thread := n\<rparr>) = tokens s" "tokens (s\<lparr>processID := c\<rparr>) = tokens s" "tokens (s\<lparr>threadName := d\<rparr>) = tokens s"
    "tokens (s\<lparr>forkArg := e\<rparr>) = tokens s" "tokens (s\<lparr>fileSystem := f\<rparr>) = tokens s" "tokens (s\<lparr>physPages := h\<rparr>) = tokens s"
  by (rule ext, simp add: tokens_def)+

lemma table_enabled [simp]:
  fixes s :: nachos
  shows "enabled g (s\<lparr>sem_table := a\<rparr>) = enabled g s" "enabled g (s\<lparr>proc_table := b\<rparr>) = enabled g s" "enabled g (s\<lparr>next_sem := n\<rparr>) = enabled g s"
    "enabled g (s\<lparr>next_thread := n\<rparr>) = enabled g s" "enabled g (s\<lparr>processID := c\<rparr>) = enabled g s" "enabled g (s\<lparr>threadName := d\<rparr>) = enabled g s"
    "enabled g (s\<lparr>forkArg := e\<rparr>) = enabled g s" "enabled g (s\<lparr>fileSystem := f\<rparr>) = enabled g s" "enabled g (s\<lparr>physPages := h\<rparr>) = enabled g s"
  by (simp_all add: enabled_def)

text \<open>Waiting leaves the tables alone.\<close>

lemma more_tables:
  fixes s s' :: nachos
  assumes "devices.more s' = devices.more s"
  shows "sem_table s' = sem_table s" "proc_table s' = proc_table s" "next_sem s' = next_sem s" "next_thread s' = next_thread s"
    "processID s' = processID s" "threadName s' = threadName s" "forkArg s' = forkArg s" "fileSystem s' = fileSystem s"
    "physPages s' = physPages s" "addrLockSem s' = addrLockSem s"
  using assms by (cases s, cases s', simp)+

lemma kept_tables:
  fixes s s' :: nachos
  assumes "kept_fields s s'"
  shows "sem_table s' = sem_table s" "proc_table s' = proc_table s" "next_sem s' = next_sem s" "next_thread s' = next_thread s"
    "processID s' = processID s" "threadName s' = threadName s" "forkArg s' = forkArg s" "fileSystem s' = fileSystem s"
    "physPages s' = physPages s" "addrLockSem s' = addrLockSem s" "currentThread s' = currentThread s" "mach s' = mach s"
    "readyList s' = readyList s" "\<And>t. t \<noteq> currentThread s \<Longrightarrow> threads s' t = threads s t"
proof -
  have m: "devices.more s' = devices.more s" using assms by (simp add: kept_fields_def)
  show "sem_table s' = sem_table s" "proc_table s' = proc_table s" "next_sem s' = next_sem s" "next_thread s' = next_thread s"
    "processID s' = processID s" "threadName s' = threadName s" "forkArg s' = forkArg s" "fileSystem s' = fileSystem s"
    "physPages s' = physPages s" "addrLockSem s' = addrLockSem s"
    using more_tables [OF m] by simp_all
qed (use assms in \<open>simp_all add: kept_fields_def\<close>)

text \<open>Creating a semaphore.\<close>

lemma new_semaphore_enabled:
  assumes "new_semaphore i s = (k, s')" "enabled g s" "5 \<le> next_sem s" "0 \<le> i"
  shows "enabled g s'" "tokens s' = (tokens s)(next_sem s := i)" "k = next_sem s"
    "s' = s\<lparr>sems := (sems s)(next_sem s := Semaphore_new i), next_sem := Suc (next_sem s)\<rparr>"
proof -
  show s': "s' = s\<lparr>sems := (sems s)(next_sem s := Semaphore_new i), next_sem := Suc (next_sem s)\<rparr>" "k = next_sem s"
    using assms(1) by (auto simp: new_semaphore_def set_sem_def)
  have a: "alone g s" "level s = IntOn" using assms(2) by (simp_all add: enabled_def)
  have "device_sync g (mset (pending s)) s'" "up s'"
    using a(1) assms(3,4) s' by (auto simp: alone_def device_sync_def up_def stat_def Semaphore_new_def semaphore_ids)
  then show "enabled g s'"
    using a s' by (simp add: enabled_def alone_def hw_ok_def ticks_ok_def mach_ok_def settled_mach tcb_ok_def)
  show "tokens s' = (tokens s)(next_sem s := i)"
    using s' assms(3) by (auto simp: tokens_def Semaphore_new_def semaphore_ids)
qed

end
