(* ===== verification/Semaphore_Table.thy ===== *)
theory Semaphore_Table
  imports Kernel_State
begin

text \<open>
  userprog/stable.cc: the table of named semaphores.

  \<open>Create\<close> and \<open>FindFreeSlot\<close> have paths that reach the end of a non-void function without a \<^verbatim>\<open>return\<close>. What the caller receives then is
  undefined in C++ and is a parameter here: \<open>flow r\<close> where the last call in the function returned \<open>r\<close>, and \<open>left\<close> where the last action was the
  construction of a \<^verbatim>\<open>Sem\<close>. Nothing is assumed of \<open>flow\<close> and \<open>left\<close>: the lemmas say what happens for each value, and the table is as intended exactly when
  the caller happens to receive the result of the call, \<open>flow r = r\<close>, as with a compiler that leaves it in the result register.
\<close>

section \<open>Operations\<close>

definition STable_new :: "word32 list \<Rightarrow> STable option" where
  "STable_new junk = do {
     b \<leftarrow> BitMap MAX_SEMAPHORE junk;
     Some \<lparr>stab_bm = b, semTab = replicate (nat MAX_SEMAPHORE) None\<rparr> }"

text \<open>The constructor of \<^verbatim>\<open>Sem\<close> copies the name into an array of 50 characters.\<close>

definition Sem_new :: "byte list \<Rightarrow> int \<Rightarrow> nachos \<Rightarrow> (Sem \<times> nachos) option" where
  "Sem_new na i s = do {
     ASSERT (length na < 50);
     let (k, s1) = new_semaphore i s;
     Some (\<lparr>sem_name = na, sem_id = k\<rparr>, s1) }"

definition Sem_Wait ::
    "(nachos \<Rightarrow> nachos option) \<Rightarrow> (nat \<Rightarrow> nachos \<Rightarrow> (unit, nachos) outcome option) \<Rightarrow> Sem \<Rightarrow> nachos \<Rightarrow> (unit, nachos) outcome option" where
  "Sem_Wait Y others sm s = Semaphore_P Y others (sem_id sm) s"

definition Sem_Signal :: "(nachos \<Rightarrow> nachos option) \<Rightarrow> Sem \<Rightarrow> nachos \<Rightarrow> nachos option" where
  "Sem_Signal Y sm s = Semaphore_V Y (sem_id sm) s"

text \<open>The search for a name, shared by the loops of \<open>Create\<close>, \<open>Wait\<close> and \<open>Signal\<close>: the first slot that is in use and has it.\<close>

fun stable_lookup :: "STable \<Rightarrow> byte list \<Rightarrow> int list \<Rightarrow> Sem option option" where
  "stable_lookup t name [] = Some None"
| "stable_lookup t name (i # is) = do {
     taken \<leftarrow> Test (stab_bm t) i;
     if taken then do {
       e \<leftarrow> array_get (semTab t) (nat i);
       sm \<leftarrow> e;
       if name = sem_name sm then Some (Some sm) else stable_lookup t name is }
     else stable_lookup t name is }"

definition STable_FindFreeSlot :: "(int \<Rightarrow> int) \<Rightarrow> STable \<Rightarrow> (int \<times> STable) option" where
  "STable_FindFreeSlot flow t = do {
     (r, b) \<leftarrow> Find (stab_bm t);
     Some (flow r, t\<lparr>stab_bm := b\<rparr>) }"

definition STable_Create :: "(int \<Rightarrow> int) \<Rightarrow> int \<Rightarrow> byte list \<Rightarrow> int \<Rightarrow> nachos \<Rightarrow> (int \<times> nachos) option" where
  "STable_Create flow left name init s = do {
     known \<leftarrow> stable_lookup (sem_table s) name [0..MAX_SEMAPHORE - 1];
     if known \<noteq> None then Some (-1, s)
     else do {
       (freeSpace, t) \<leftarrow> STable_FindFreeSlot flow (sem_table s);
       if freeSpace < 0 then Some (-1, s\<lparr>sem_table := t\<rparr>)
       else do {
         (sm, s1) \<leftarrow> Sem_new name init (s\<lparr>sem_table := t\<rparr>);
         tab \<leftarrow> array_set (semTab t) (nat freeSpace) (Some sm);
         Some (left, s1\<lparr>sem_table := t\<lparr>semTab := tab\<rparr>\<rparr>) } } }"

definition STable_Wait ::
    "(nachos \<Rightarrow> nachos option) \<Rightarrow> (nat \<Rightarrow> nachos \<Rightarrow> (unit, nachos) outcome option) \<Rightarrow> byte list \<Rightarrow> nachos \<Rightarrow> (int, nachos) outcome option" where
  "STable_Wait Y others name s = do {
     known \<leftarrow> stable_lookup (sem_table s) name [0..MAX_SEMAPHORE - 1];
     (case known of
        None \<Rightarrow> Some (Returns (-1) s)
      | Some sm \<Rightarrow> then_run (Sem_Wait Y others sm s) (\<lambda>u s1. Some (Returns 0 s1))) }"

definition STable_Signal :: "(nachos \<Rightarrow> nachos option) \<Rightarrow> byte list \<Rightarrow> nachos \<Rightarrow> (int \<times> nachos) option" where
  "STable_Signal Y name s = do {
     known \<leftarrow> stable_lookup (sem_table s) name [0..MAX_SEMAPHORE - 1];
     (case known of
        None \<Rightarrow> Some (-1, s)
      | Some sm \<Rightarrow> do { s1 \<leftarrow> Sem_Signal Y sm s; Some (0, s1) }) }"

section \<open>The table as a map from names to semaphores\<close>

definition slot_sem :: "STable \<Rightarrow> int \<Rightarrow> Sem option" where
  "slot_sem t i = (if i \<in> marked (stab_bm t) then semTab t ! nat i else None)"

definition live_sems :: "STable \<Rightarrow> Sem list" where
  "live_sems t = List.map_filter (slot_sem t) [0..MAX_SEMAPHORE - 1]"

definition sem_map :: "STable \<Rightarrow> byte list \<Rightarrow> nat option" where
  "sem_map t name = map_option sem_id (find (\<lambda>sm. name = sem_name sm) (live_sems t))"

definition stable_ok :: "STable \<Rightarrow> bool" where
  "stable_ok t \<longleftrightarrow> wf_bitmap (stab_bm t) \<and> numBits (stab_bm t) = MAX_SEMAPHORE \<and> int (length (semTab t)) = MAX_SEMAPHORE
     \<and> (\<forall>i \<in> marked (stab_bm t). semTab t ! nat i \<noteq> None) \<and> (\<forall>i \<in> {0..<MAX_SEMAPHORE} - marked (stab_bm t). semTab t ! nat i = None)"

definition slots_free :: "STable \<Rightarrow> bool" where
  "slots_free t \<longleftrightarrow> marked (stab_bm t) \<noteq> {0..<MAX_SEMAPHORE}"

lemma lookup_live:
  assumes "stable_ok t" "set is \<subseteq> {0..<MAX_SEMAPHORE}"
  shows "stable_lookup t name is = Some (find (\<lambda>sm. name = sem_name sm) (List.map_filter (slot_sem t) is))"
  using assms(2)
proof (induction "is")
  case (Cons i "is")
  then have r: "in_range (stab_bm t) i" "nat i < length (semTab t)"
    using assms(1) by (auto simp: stable_ok_def in_range_def)
  have "wf_bitmap (stab_bm t)" using assms(1) by (simp add: stable_ok_def)
  note t = Test_eq [OF this r(1)]
  show ?case
  proof (cases "i \<in> marked (stab_bm t)")
    case True
    then obtain sm where "semTab t ! nat i = Some sm" using assms(1) by (auto simp: stable_ok_def)
    with True t r(2) Cons show ?thesis by (simp add: slot_sem_def List.map_filter_def)
  next
    case False
    with t Cons show ?thesis by (simp add: slot_sem_def List.map_filter_def)
  qed
qed (simp add: List.map_filter_def)

lemma lookup_sem_map:
  assumes "stable_ok t"
  obtains sm where "stable_lookup t name [0..MAX_SEMAPHORE - 1] = Some (Some sm)" "sem_map t name = Some (sem_id sm)"
  | "stable_lookup t name [0..MAX_SEMAPHORE - 1] = Some None" "sem_map t name = None"
proof -
  have "set [0..MAX_SEMAPHORE - 1] \<subseteq> {0..<MAX_SEMAPHORE}" by auto
  from lookup_live [OF assms this, of name] that show thesis
    by (cases "find (\<lambda>sm. name = sem_name sm) (live_sems t)") (auto simp: sem_map_def live_sems_def)
qed

text \<open>Filling a free slot: a search that the new entry does not match is not affected, and one that failed now finds it.\<close>

lemma find_filled_slot:
  assumes "f k = None"
  shows "\<not> P e \<Longrightarrow> find P (List.map_filter (f(k := Some e)) is) = find P (List.map_filter f is)"
    "P e \<Longrightarrow> k \<in> set is \<Longrightarrow> find P (List.map_filter f is) = None \<Longrightarrow> find P (List.map_filter (f(k := Some e)) is) = Some e"
proof -
  show "find P (List.map_filter (f(k := Some e)) is) = find P (List.map_filter f is)" if "\<not> P e"
    using that assms by (induction "is") (auto simp: List.map_filter_def)
  show "find P (List.map_filter (f(k := Some e)) is) = Some e" if "P e" "k \<in> set is" "find P (List.map_filter f is) = None"
    using that assms
    by (induction "is") (fastforce simp: List.map_filter_def split: if_splits option.splits)+
qed

lemma new_semaphore_fields:
  assumes "new_semaphore i s = (k, s')"
  shows "k = next_sem s" "sems s' = (sems s)(next_sem s := Semaphore_new i)" "sem_table s' = sem_table s" "next_sem s' = Suc (next_sem s)"
    "s' = s\<lparr>sems := (sems s)(next_sem s := Semaphore_new i), next_sem := Suc (next_sem s)\<rparr>"
  using assms by (auto simp: new_semaphore_def set_sem_def)

lemma Create_known:
  assumes "stable_ok (sem_table s)" "sem_map (sem_table s) name \<noteq> None"
  shows "STable_Create flow left name init s = Some (-1, s)"
  using assms(2) by (cases rule: lookup_sem_map [OF assms(1), of name]) (auto simp: STable_Create_def)

lemma Create_full:
  assumes "stable_ok (sem_table s)" "sem_map (sem_table s) name = None" "\<not> slots_free (sem_table s)"
  shows "flow (-1) < 0 \<Longrightarrow> STable_Create flow left name init s = Some (-1, s)"
    "0 \<le> flow (-1) \<Longrightarrow> STable_Create flow left name init s = Some (r, s') \<Longrightarrow>
       semTab (sem_table s') = (semTab (sem_table s))[nat (flow (-1)) := Some \<lparr>sem_name = name, sem_id = next_sem s\<rparr>]"
proof -
  have f: "Find (stab_bm (sem_table s)) = Some (-1, stab_bm (sem_table s))"
    by (rule Find_cases [of "stab_bm (sem_table s)"])
      (use assms(1,3) in \<open>auto simp: stable_ok_def slots_free_def in_range_def\<close>)
  have l: "stable_lookup (sem_table s) name [0..MAX_SEMAPHORE - 1] = Some None"
    using assms(2) by (cases rule: lookup_sem_map [OF assms(1), of name]) auto
  show "STable_Create flow left name init s = Some (-1, s)" if "flow (-1) < 0"
    using f l that by (simp add: STable_Create_def STable_FindFreeSlot_def)
  show "semTab (sem_table s') = (semTab (sem_table s))[nat (flow (-1)) := Some \<lparr>sem_name = name, sem_id = next_sem s\<rparr>]"
    if "0 \<le> flow (-1)" "STable_Create flow left name init s = Some (r, s')"
    using f l that
    by (auto simp: STable_Create_def STable_FindFreeSlot_def Sem_new_def new_semaphore_def Let_def bind_eq_Some_conv array_set_def split: if_splits)
qed

text \<open>The lowest slot that is free.\<close>

definition first_free_slot :: "STable \<Rightarrow> int \<Rightarrow> bool" where
  "first_free_slot t k \<longleftrightarrow> k \<in> {0..<MAX_SEMAPHORE} - marked (stab_bm t) \<and> {0..<k} \<subseteq> marked (stab_bm t)"

lemma first_free_slot_unique: "first_free_slot t k \<Longrightarrow> first_free_slot t k' \<Longrightarrow> k' = k"
  by (rule linorder_cases [of k k']) (auto simp: first_free_slot_def subset_iff)

lemma Find_first_free_slot:
  assumes "stable_ok t" "slots_free t"
  obtains k b where "first_free_slot t k" "Find (stab_bm t) = Some (k, b)" "in_range (stab_bm t) k" "Mark (stab_bm t) k = Some b"
proof -
  have wf: "wf_bitmap (stab_bm t)" and n: "numBits (stab_bm t) = MAX_SEMAPHORE" using assms(1) by (auto simp: stable_ok_def)
  show thesis
    by (rule Find_cases [OF wf]) (use assms(2) n that in \<open>auto simp: slots_free_def first_free_slot_def in_range_def\<close>)
qed

text \<open>When the caller of \<open>FindFreeSlot\<close> receives something else, the slot stays marked without an entry, or \<open>Create\<close> writes outside of the table.\<close>

lemma Create_wrong_slot:
  assumes ok: "stable_ok (sem_table s)" and new: "sem_map (sem_table s) name = None" and k: "slots_free (sem_table s)" "first_free_slot (sem_table s) k" "flow k \<noteq> k"
    and c: "STable_Create flow left name init s = Some (r, s')"
  shows "\<not> stable_ok (sem_table s')"
proof -
  let ?t = "sem_table s"
  have wf: "wf_bitmap (stab_bm ?t)" using ok by (simp add: stable_ok_def)
  obtain b where b: "Find (stab_bm ?t) = Some (k, b)" "in_range (stab_bm ?t) k" "Mark (stab_bm ?t) k = Some b"
    using Find_first_free_slot [OF ok k(1)] first_free_slot_unique [OF k(2)] by metis
  have none: "semTab ?t ! nat k = None" and k0: "0 \<le> k" using ok k(2) by (auto simp: stable_ok_def first_free_slot_def)
  have "stable_lookup ?t name [0..MAX_SEMAPHORE - 1] = Some None"
    using new by (cases rule: lookup_sem_map [OF ok, of name]) auto
  with c b(1) k(3) k0 have "stab_bm (sem_table s') = b" "semTab (sem_table s') ! nat k = semTab ?t ! nat k"
    by (auto simp: STable_Create_def STable_FindFreeSlot_def Sem_new_def new_semaphore_def Let_def bind_eq_Some_conv array_set_def split: if_splits)
  then show ?thesis using none Mark_Some(3) [OF wf b(2,3)] by (auto simp: stable_ok_def)
qed

lemma Create_new:
  assumes "stable_ok (sem_table s)" "sem_map (sem_table s) name = None" "slots_free (sem_table s)" "first_free_slot (sem_table s) k" "flow k = k" "length name < 50"
  shows "\<exists>t'. STable_Create flow left name init s = Some (left, s\<lparr>sems := (sems s)(next_sem s := Semaphore_new init),
      next_sem := Suc (next_sem s), sem_table := t'\<rparr>) \<and> stable_ok t' \<and> sem_map t' = (sem_map (sem_table s))(name \<mapsto> next_sem s)"
proof -
  let ?t = "sem_table s"
  have wf: "wf_bitmap (stab_bm ?t)" and n: "numBits (stab_bm ?t) = MAX_SEMAPHORE" "int (length (semTab ?t)) = MAX_SEMAPHORE"
    using assms(1) by (auto simp: stable_ok_def)
  obtain b where k: "Find (stab_bm ?t) = Some (k, b)" "in_range (stab_bm ?t) k" "k \<notin> marked (stab_bm ?t)" "Mark (stab_bm ?t) k = Some b"
    using Find_first_free_slot [OF assms(1,3)] first_free_slot_unique [OF assms(4)] assms(4) by (metis DiffD2 first_free_slot_def)
  note m = Mark_Some [OF wf k(2,4)]
  have r: "0 \<le> k" "nat k < length (semTab ?t)" using k(2) n by (auto simp: in_range_def)
  let ?sm = "\<lparr>sem_name = name, sem_id = next_sem s\<rparr>"
  let ?t' = "?t\<lparr>stab_bm := b, semTab := (semTab ?t)[nat k := Some ?sm]\<rparr>"
  let ?s' = "s\<lparr>sems := (sems s)(next_sem s := Semaphore_new init), next_sem := Suc (next_sem s), sem_table := ?t'\<rparr>"
  have slot: "slot_sem ?t k = None" using k(3) by (simp add: slot_sem_def)
  have slots: "List.map_filter (slot_sem ?t') is = List.map_filter ((slot_sem ?t)(k := Some ?sm)) is" if "set is \<subseteq> {0..<MAX_SEMAPHORE}" for "is"
  proof -
    have "slot_sem ?t' i = ((slot_sem ?t)(k := Some ?sm)) i" if "i \<in> {0..<MAX_SEMAPHORE}" for i
      using that r m(3) by (auto simp: slot_sem_def nth_list_update)
    with that have "\<forall>i \<in> set is. slot_sem ?t' i = ((slot_sem ?t)(k := Some ?sm)) i" by blast
    then show ?thesis by (induction "is") (auto simp: List.map_filter_def)
  qed
  have all: "set [0..MAX_SEMAPHORE - 1] \<subseteq> {0..<MAX_SEMAPHORE}" and ks: "k \<in> set [0..MAX_SEMAPHORE - 1]"
    using k(2) n by (auto simp: in_range_def)
  have "sem_map ?t' x = ((sem_map ?t)(name \<mapsto> next_sem s)) x" for x
  proof (cases "x = name")
    case True
    have "find (\<lambda>sm. name = sem_name sm) (List.map_filter (slot_sem ?t) [0..MAX_SEMAPHORE - 1]) = None"
      using assms(2) by (simp add: sem_map_def live_sems_def)
    with find_filled_slot(2) [where f = "slot_sem ?t", OF slot _ ks, where P = "\<lambda>sm. name = sem_name sm" and e = ?sm] True
    show ?thesis by (simp add: sem_map_def live_sems_def slots [OF all])
  next
    case False
    with find_filled_slot(1) [where f = "slot_sem ?t", OF slot, where P = "\<lambda>sm. x = sem_name sm" and e = ?sm]
    show ?thesis by (simp add: sem_map_def live_sems_def slots [OF all])
  qed
  then have map: "sem_map ?t' = (sem_map ?t)(name \<mapsto> next_sem s)" by (rule ext)
  have ok: "stable_ok ?t'" using assms(1) m r by (auto simp: stable_ok_def nth_list_update)
  have "stable_lookup ?t name [0..MAX_SEMAPHORE - 1] = Some None"
    using assms(2) by (cases rule: lookup_sem_map [OF assms(1), of name]) auto
  then have "STable_Create flow left name init s = Some (left, ?s')"
    using k(1) r assms(5,6)
    by (simp add: STable_Create_def STable_FindFreeSlot_def Sem_new_def new_semaphore_def set_sem_def Let_def)
  with ok map show ?thesis by blast
qed

lemma STable_new_ok:
  assumes "length junk = 1"
  shows "\<exists>t. STable_new junk = Some t \<and> stable_ok t \<and> sem_map t = Map.empty \<and> slots_free t"
proof -
  have "int (length junk) = divRoundUp MAX_SEMAPHORE 32" using assms by (simp add: MAX_SEMAPHORE_def divRoundUp_nonneg)
  from BitMap_correct [OF _ this] obtain b where b: "BitMap MAX_SEMAPHORE junk = Some b" "wf_bitmap b" "numBits b = MAX_SEMAPHORE" "marked b = {}"
    by (auto simp: MAX_SEMAPHORE_def)
  let ?t = "\<lparr>stab_bm = b, semTab = replicate (nat MAX_SEMAPHORE) None\<rparr>"
  have "slot_sem ?t i = None" for i using b(4) by (simp add: slot_sem_def)
  then have "live_sems ?t = []" by (simp add: live_sems_def List.map_filter_def)
  then have "sem_map ?t = Map.empty" by (rule_tac ext) (simp add: sem_map_def)
  moreover have "stable_ok ?t" "slots_free ?t" using b by (auto simp: stable_ok_def slots_free_def MAX_SEMAPHORE_def)
  ultimately show ?thesis using b(1) by (simp add: STable_new_def)
qed

section \<open>The interface to the system calls\<close>

text \<open>Clients rely on names that, once bound, stay bound to the same semaphore whatever else is created.\<close>

locale name_table =
  fixes ok :: "'t \<Rightarrow> bool" and binding :: "'t \<Rightarrow> byte list \<Rightarrow> nat option" and create :: "byte list \<Rightarrow> int \<Rightarrow> 't \<Rightarrow> 't"
  assumes create_ok: "ok t \<Longrightarrow> length name < 50 \<Longrightarrow> ok (create name init t)"
    and create_binding: "ok t \<Longrightarrow> length name < 50 \<Longrightarrow>
      binding (create name init t) = binding t \<or> binding t name = None \<and> (\<exists>k. binding (create name init t) = (binding t)(name \<mapsto> k))"
begin

lemma bindings_persist:
  assumes "ok t" "\<forall>(n, i) \<in> set cs. length n < 50"
  shows "ok (fold (\<lambda>(n, i). create n i) cs t) \<and> binding t \<subseteq>\<^sub>m binding (fold (\<lambda>(n, i). create n i) cs t)"
  using assms
proof (induction cs arbitrary: t)
  case (Cons c cs)
  obtain n i where c: "c = (n, i)" by force
  with Cons.prems have l: "length n < 50" by simp
  have "binding t \<subseteq>\<^sub>m binding (create n i t)"
    using create_binding [OF Cons.prems(1) l, of i] by (auto simp: map_le_def)
  with Cons.IH [OF create_ok [OF Cons.prems(1) l, of i]] Cons.prems(2) c show ?case
    by (auto intro: map_le_trans)
qed simp

end

definition create_state :: "int \<Rightarrow> byte list \<Rightarrow> int \<Rightarrow> nachos \<Rightarrow> nachos" where
  "create_state left name init s = (case STable_Create (\<lambda>r. r) left name init s of Some (r, s') \<Rightarrow> s' | None \<Rightarrow> s)"

lemma create_state_cases:
  assumes "stable_ok (sem_table s)" "length name < 50"
  shows "create_state left name init s = s \<or> sem_map (sem_table s) name = None \<and> stable_ok (sem_table (create_state left name init s))
    \<and> sem_map (sem_table (create_state left name init s)) = (sem_map (sem_table s))(name \<mapsto> next_sem s)"
proof (cases "sem_map (sem_table s) name = None \<and> slots_free (sem_table s)")
  case True
  then obtain k where k: "first_free_slot (sem_table s) k" using Find_first_free_slot [OF assms(1)] by metis
  with True obtain t' where "STable_Create (\<lambda>r. r) left name init s = Some (left, s\<lparr>sems := (sems s)(next_sem s := Semaphore_new init),
      next_sem := Suc (next_sem s), sem_table := t'\<rparr>)" "stable_ok t'" "sem_map t' = (sem_map (sem_table s))(name \<mapsto> next_sem s)"
    using Create_new [OF assms(1) _ _ k _ assms(2), where flow = "\<lambda>r. r"] by auto
  with True show ?thesis by (simp add: create_state_def)
next
  case False
  then show ?thesis
    using Create_known [OF assms(1), of name "\<lambda>r. r" left init] Create_full(1) [OF assms(1), of name "\<lambda>r. r" left init]
    by (cases "sem_map (sem_table s) name") (auto simp: create_state_def)
qed

interpretation named: name_table "\<lambda>s. stable_ok (sem_table s)" "\<lambda>s. sem_map (sem_table s)" "create_state left" for left
proof unfold_locales
  fix t :: nachos and name :: "byte list" and init
  assume "stable_ok (sem_table t)" "length name < 50"
  note c = create_state_cases [OF this, of left init]
  show "stable_ok (sem_table (create_state left name init t))" using c \<open>stable_ok (sem_table t)\<close> by auto
  show "sem_map (sem_table (create_state left name init t)) = sem_map (sem_table t) \<or>
       sem_map (sem_table t) name = None \<and> (\<exists>k. sem_map (sem_table (create_state left name init t)) = (sem_map (sem_table t))(name \<mapsto> k))"
    using c by auto
qed

section \<open>Properties of the semaphore table\<close>

text \<open>A kernel whose table is \<open>t\<close>.\<close>

definition sample_kernel :: "STable \<Rightarrow> nachos" where
  "sample_kernel t = devices.extend sample_quiet
     \<lparr>fileSystem = \<lparr>stub_open = replicate 10 None, stub_index = 0,
        hst = \<lparr>inodes = (\<lambda>_. []), names = Map.empty, fds = [], next_inode = 0, denied = (\<lambda>_. False)\<rparr>\<rparr>,
      physPages = \<lparr>numBits = 256, numWords = 8, map_words = replicate 8 0\<rparr>, addrLockSem = 5, sem_table = t,
      proc_table = \<lparr>ptab_bm = \<lparr>numBits = 10, numWords = 1, map_words = [1]\<rparr>, pcbs = replicate 10 NullPCB, psize = 10, bmsem = 6\<rparr>,
      next_sem = 7, next_thread = 1, processID = (\<lambda>_. 0), threadName = (\<lambda>_. Some []), forkArg = Map.empty\<rparr>"

lemma sample_kernel_fields [simp]: "sem_table (sample_kernel t) = t" "next_sem (sample_kernel t) = 7"
  by (simp_all add: sample_kernel_def devices.extend_def sample_quiet_def sample_devices_def)

text \<open>C31. The table of user semaphores is a map from names to semaphores, as far as the C++ standard lets it be. \<open>Wait\<close> and \<open>Signal\<close> are
  \<open>P\<close> and \<open>V\<close> on the semaphore of the name, and fail with -1, changing nothing, when there is none; \<open>Create\<close> refuses a name that is bound. For a new
  name \<open>Create\<close> depends on what it receives from \<open>FindFreeSlot\<close>, which lacks its return statement (stable.cc:88-90); nothing is assumed of that
  value, \<open>flow r\<close> where the search returned \<open>r\<close>. With a free slot, the name is bound to a fresh semaphore with the given value, no
  other semaphore changed, if the value received is the number of the lowest free slot, and in every other case \<open>Create\<close> writes out of bounds or leaves a table in
  which a slot is marked that has no entry. With all ten slots taken, \<open>Create\<close> refuses and changes nothing if the value received is negative, and otherwise
  writes out of bounds or overwrites the entry at that number.\<close>

theorem semaphore_table_is_map:
  assumes "stable_ok (sem_table s)" "length name < 50"
  shows "case sem_map (sem_table s) name of
      Some k \<Rightarrow> STable_Create flow left name init s = Some (-1, s)
        \<and> STable_Signal Y name s = map_option (\<lambda>s'. (0, s')) (Semaphore_V Y k s)
        \<and> STable_Wait Y others name s = then_run (Semaphore_P Y others k s) (\<lambda>u s'. Some (Returns 0 s'))
    | None \<Rightarrow> STable_Signal Y name s = Some (-1, s) \<and> STable_Wait Y others name s = Some (Returns (-1) s)
        \<and> (if slots_free (sem_table s) then
             \<exists>k. first_free_slot (sem_table s) k
             \<and> (if flow k = k then \<exists>s'. STable_Create flow left name init s = Some (left, s') \<and> stable_ok (sem_table s')
                  \<and> sem_map (sem_table s') = (sem_map (sem_table s))(name \<mapsto> next_sem s) \<and> sems s' = (sems s)(next_sem s := Semaphore_new init)
                else \<forall>r s'. STable_Create flow left name init s = Some (r, s') \<longrightarrow> \<not> stable_ok (sem_table s'))
           else if flow (-1) < 0 then STable_Create flow left name init s = Some (-1, s)
           else \<forall>r s'. STable_Create flow left name init s = Some (r, s') \<longrightarrow>
             semTab (sem_table s') = (semTab (sem_table s))[nat (flow (-1)) := Some \<lparr>sem_name = name, sem_id = next_sem s\<rparr>])"
proof (cases rule: lookup_sem_map [OF assms(1), of name])
  case (1 sm)
  then show ?thesis
    using Create_known [OF assms(1), of name flow left init]
    by (auto simp: STable_Signal_def STable_Wait_def Sem_Signal_def Sem_Wait_def map_conv_bind_option comp_def)
next
  case 2
  have ends: "STable_Signal Y name s = Some (-1, s)" "STable_Wait Y others name s = Some (Returns (-1) s)"
    using 2 by (simp_all add: STable_Signal_def STable_Wait_def)
  show ?thesis
  proof (cases "slots_free (sem_table s)")
    case True
    obtain k where k: "first_free_slot (sem_table s) k" using Find_first_free_slot [OF assms(1) True] by metis
    have "\<exists>s'. STable_Create flow left name init s = Some (left, s') \<and> stable_ok (sem_table s')
        \<and> sem_map (sem_table s') = (sem_map (sem_table s))(name \<mapsto> next_sem s) \<and> sems s' = (sems s)(next_sem s := Semaphore_new init)" if "flow k = k"
      using Create_new [where flow = flow and k = k, OF assms(1) 2(2) True k that assms(2), of left init] by auto
    moreover have "\<not> stable_ok (sem_table s')" if "flow k \<noteq> k" "STable_Create flow left name init s = Some (r, s')" for r s'
      using Create_wrong_slot [OF assms(1) 2(2) True k that] .
    ultimately show ?thesis using ends 2(2) True k by auto
  next
    case False
    then show ?thesis using ends 2(2) Create_full [OF assms(1) 2(2) False, of flow left init] by auto
  qed
qed

theorem semaphore_table_is_map_witness:
  "\<exists>t s'. STable_new [0] = Some t \<and> STable_Create (\<lambda>r. r) 0 [109] 3 (sample_kernel t) = Some (0, s') \<and> sem_map (sem_table s') [109] = Some 7
    \<and> sem_value (sems s' 7) = 3"
proof -
  obtain t where t: "STable_new [0] = Some t" "stable_ok t" "sem_map t = Map.empty" "slots_free t"
    using STable_new_ok [of "[0]"] by auto
  have "stable_ok (sem_table (sample_kernel t))" "length ([109] :: byte list) < 50" using t(2) by simp_all
  from semaphore_table_is_map [OF this, where flow = "\<lambda>r. r" and left = 0 and init = 3 and Y = "\<lambda>s. None"
    and others = "\<lambda>x s. None"] t show ?thesis
    by (auto simp: Semaphore_new_def)
qed

end
