(* ===== verification/Process_Table.thy ===== *)
theory Process_Table
  imports Semaphore_Table
begin

text \<open>
  userprog/pcb.cc, userprog/ptable.cc, \<^verbatim>\<open>Thread::Fork\<close>, \<^verbatim>\<open>Thread::FreeSpace\<close> and \<^verbatim>\<open>Thread::Finish\<close> as they are used there: processes.

  Reading through a null or dangling pointer, an index outside the array of processes and a name that does not fit its buffer have no result
  (\<open>None\<close>). The name of a forked thread points to memory that the system call frees; \<open>stale\<close> is what that memory holds when it is read later.
  \<open>junk\<close> stands for the registers that a new thread object does not initialise. A thread that finishes never returns from the call: the
  result is \<open>Returns None s\<close> with \<open>s\<close> the state in which the scheduler takes over.
\<close>

section \<open>Process control blocks\<close>

definition PCB_default :: "nachos \<Rightarrow> PCB \<times> nachos" where
  "PCB_default s =
     (let (j, s1) = new_semaphore 0 s; (e, s2) = new_semaphore 0 s1; (m, s3) = new_semaphore 1 s2 in
      (\<lparr>joinsem = j, exitsem = e, multex = m, exitcode = 0, numwait = 0, parentID = -1, pcb_filename = None, pcb_thread = None\<rparr>, s3))"

definition PCB_new :: "int \<Rightarrow> nachos \<Rightarrow> PCB \<times> nachos" where
  "PCB_new i s =
     (let par = (if i = 0 then -1 else processID s (currentThread s));
          (j, s1) = new_semaphore 0 s; (e, s2) = new_semaphore 0 s1; (m, s3) = new_semaphore 1 s2 in
      (\<lparr>joinsem = j, exitsem = e, multex = m, exitcode = 0, numwait = 0, parentID = par, pcb_filename = None, pcb_thread = None\<rparr>, s3))"

text \<open>The object that \<^verbatim>\<open>pcb[i]\<close> points to.\<close>

definition get_pcb :: "int \<Rightarrow> nachos \<Rightarrow> PCB option" where
  "get_pcb i s =
     (if 0 \<le> i \<and> nat i < length (pcbs (proc_table s)) then (case pcbs (proc_table s) ! nat i of Live p \<Rightarrow> Some p | _ \<Rightarrow> None) else None)"

definition set_cell :: "int \<Rightarrow> pcb_cell \<Rightarrow> nachos \<Rightarrow> nachos" where
  "set_cell i c s = s\<lparr>proc_table := (proc_table s)\<lparr>pcbs := (pcbs (proc_table s))[nat i := c]\<rparr>\<rparr>"

definition JoinWait ::
    "(nachos \<Rightarrow> nachos option) \<Rightarrow> (nat \<Rightarrow> nachos \<Rightarrow> (unit, nachos) outcome option) \<Rightarrow> int \<Rightarrow> nachos \<Rightarrow> (unit, nachos) outcome option" where
  "JoinWait Y others i s = do { p \<leftarrow> get_pcb i s; Semaphore_P Y others (joinsem p) s }"

definition ExitWait ::
    "(nachos \<Rightarrow> nachos option) \<Rightarrow> (nat \<Rightarrow> nachos \<Rightarrow> (unit, nachos) outcome option) \<Rightarrow> int \<Rightarrow> nachos \<Rightarrow> (unit, nachos) outcome option" where
  "ExitWait Y others i s = do { p \<leftarrow> get_pcb i s; Semaphore_P Y others (exitsem p) s }"

definition JoinRelease :: "(nachos \<Rightarrow> nachos option) \<Rightarrow> int \<Rightarrow> nachos \<Rightarrow> nachos option" where
  "JoinRelease Y i s = do { p \<leftarrow> get_pcb i s; Semaphore_V Y (joinsem p) s }"

definition ExitRelease :: "(nachos \<Rightarrow> nachos option) \<Rightarrow> int \<Rightarrow> nachos \<Rightarrow> nachos option" where
  "ExitRelease Y i s = do { p \<leftarrow> get_pcb i s; Semaphore_V Y (exitsem p) s }"

definition IncNumWait ::
    "(nachos \<Rightarrow> nachos option) \<Rightarrow> (nat \<Rightarrow> nachos \<Rightarrow> (unit, nachos) outcome option) \<Rightarrow> int \<Rightarrow> nachos \<Rightarrow> (unit, nachos) outcome option" where
  "IncNumWait Y others i s = do {
     p \<leftarrow> get_pcb i s;
     then_run (Semaphore_P Y others (multex p) s) (\<lambda>u s1. do {
       p1 \<leftarrow> get_pcb i s1;
       s2 \<leftarrow> Semaphore_V Y (multex p1) (set_cell i (Live (p1\<lparr>numwait := numwait p1 + 1\<rparr>)) s1);
       Some (Returns () s2) }) }"

definition DecNumWait ::
    "(nachos \<Rightarrow> nachos option) \<Rightarrow> (nat \<Rightarrow> nachos \<Rightarrow> (unit, nachos) outcome option) \<Rightarrow> int \<Rightarrow> nachos \<Rightarrow> (unit, nachos) outcome option" where
  "DecNumWait Y others i s = do {
     p \<leftarrow> get_pcb i s;
     then_run (Semaphore_P Y others (multex p) s) (\<lambda>u s1. do {
       p1 \<leftarrow> get_pcb i s1;
       let p2 = (if numwait p1 > 0 then p1\<lparr>numwait := numwait p1 - 1\<rparr> else p1);
       s2 \<leftarrow> Semaphore_V Y (multex p2) (set_cell i (Live p2) s1);
       Some (Returns () s2) }) }"

definition SetExitCode :: "int \<Rightarrow> int \<Rightarrow> nachos \<Rightarrow> nachos option" where
  "SetExitCode i ec s = do { p \<leftarrow> get_pcb i s; Some (set_cell i (Live (p\<lparr>exitcode := ec\<rparr>)) s) }"

definition GetExitCode :: "int \<Rightarrow> nachos \<Rightarrow> int option" where
  "GetExitCode i s = map_option exitcode (get_pcb i s)"

definition GetNumWait :: "int \<Rightarrow> nachos \<Rightarrow> int option" where
  "GetNumWait i s = map_option numwait (get_pcb i s)"

definition GetID :: "int \<Rightarrow> nachos \<Rightarrow> int option" where
  "GetID i s = do { p \<leftarrow> get_pcb i s; t \<leftarrow> pcb_thread p; Some (processID s t) }"

definition SetFileName :: "byte list \<Rightarrow> PCB \<Rightarrow> PCB option" where
  "SetFileName fn p = do { ASSERT (length fn < 32); Some (p\<lparr>pcb_filename := Some fn\<rparr>) }"

definition PCB_GetFileName :: "int \<Rightarrow> nachos \<Rightarrow> byte list option" where
  "PCB_GetFileName i s = do { p \<leftarrow> get_pcb i s; pcb_filename p }"

section \<open>Threads of processes\<close>

text \<open>\<^verbatim>\<open>new Thread(name)\<close>.\<close>

definition new_thread :: "(nat \<Rightarrow> word32) \<Rightarrow> byte list \<Rightarrow> nachos \<Rightarrow> nat \<times> nachos" where
  "new_thread junk name s =
     (next_thread s, (set_thread (next_thread s) (Thread_new junk) s)\<lparr>next_thread := next_thread s + 1,
        threadName := (threadName s)(next_thread s := Some name)\<rparr>)"

definition Thread_Fork :: "(nachos \<Rightarrow> nachos option) \<Rightarrow> nat \<Rightarrow> int \<Rightarrow> nachos \<Rightarrow> nachos option" where
  "Thread_Fork Y t a s = do {
     (oldLevel, s1) \<leftarrow> SetLevel run_handler Y IntOff (s\<lparr>forkArg := (forkArg s)(t \<mapsto> a)\<rparr>);
     s2 \<leftarrow> Fork_section t s1;
     (l, s3) \<leftarrow> SetLevel run_handler Y oldLevel s2;
     Some s3 }"

definition FreeSpace :: "nat \<Rightarrow> nachos \<Rightarrow> nachos option" where
  "FreeSpace t s = do {
     tcb \<leftarrow> threads s t;
     (case space tcb of
        None \<Rightarrow> Some s
      | Some sp \<Rightarrow> do {
          fr \<leftarrow> AddrSpace_delete sp \<lparr>gPhysPageBitMap = physPages s, addrLock = sem_value (sems s (addrLockSem s)), memory = (\<lambda>_. 0)\<rparr>;
          Some (s\<lparr>physPages := gPhysPageBitMap fr\<rparr>) }) }"

definition Thread_Finish :: "nat \<Rightarrow> nachos \<Rightarrow> nachos option" where
  "Thread_Finish t s = do { ASSERT (t = currentThread s); Finish_section s }"

definition PCB_Exec ::
    "(nachos \<Rightarrow> nachos option) \<Rightarrow> (nat \<Rightarrow> nachos \<Rightarrow> (unit, nachos) outcome option) \<Rightarrow> (nat \<Rightarrow> word32) \<Rightarrow> byte list \<Rightarrow> int \<Rightarrow> nachos
     \<Rightarrow> (int, nachos) outcome option" where
  "PCB_Exec Y others junk fname pid s = do {
     p \<leftarrow> get_pcb pid s;
     then_run (Semaphore_P Y others (multex p) s) (\<lambda>u s1. do {
       p1 \<leftarrow> get_pcb pid s1;
       let (t, s2) = new_thread junk fname s1;
       let s3 = s2\<lparr>processID := (processID s2)(t := pid)\<rparr>;
       let p2 = p1\<lparr>pcb_thread := Some t, parentID := processID s3 (currentThread s3)\<rparr>;
       s4 \<leftarrow> Thread_Fork Y t pid (set_cell pid (Live p2) s3);
       s5 \<leftarrow> Semaphore_V Y (multex p2) s4;
       Some (Returns pid s5) }) }"

text \<open>The destructor. The semaphores of a deleted block are not used again; finishing the thread does not return.\<close>

definition PCB_delete :: "int \<Rightarrow> nachos \<Rightarrow> (bool \<times> nachos) option" where
  "PCB_delete i s = do {
     p \<leftarrow> get_pcb i s;
     let s1 = set_cell i Freed s;
     (case pcb_thread p of
        None \<Rightarrow> Some (True, s1)
      | Some t \<Rightarrow> do { s2 \<leftarrow> FreeSpace t s1; s3 \<leftarrow> Thread_Finish t s2; Some (False, s3) }) }"

section \<open>The process table\<close>

text \<open>\<^verbatim>\<open>"./test/testab"\<close>\<close>

definition testab :: "byte list" where
  "testab = [46, 47, 116, 101, 115, 116, 47, 116, 101, 115, 116, 97, 98]"

text \<open>A negative size leaves every member uninitialised; there is no result for it.\<close>

definition PTable_new :: "int \<Rightarrow> word32 list \<Rightarrow> nachos \<Rightarrow> nachos option" where
  "PTable_new sz junk s = do {
     ASSERT (0 \<le> sz);
     b \<leftarrow> BitMap sz junk;
     let (k, s1) = new_semaphore 1 s;
     b1 \<leftarrow> Mark b 0;
     let (p, s2) = PCB_new 0 s1;
     p1 \<leftarrow> SetFileName testab p;
     Some (s2\<lparr>proc_table := \<lparr>ptab_bm = b1, pcbs = (replicate (nat MAX_PROCESS) NullPCB)[0 := Live (p1\<lparr>parentID := -1\<rparr>)],
       psize = sz, bmsem = k\<rparr>\<rparr>) }"

definition GetFreeSlot :: "nachos \<Rightarrow> (int \<times> nachos) option" where
  "GetFreeSlot s = do {
     (k, b) \<leftarrow> Find (ptab_bm (proc_table s));
     Some (k, s\<lparr>proc_table := (proc_table s)\<lparr>ptab_bm := b\<rparr>\<rparr>) }"

definition IsExist :: "int \<Rightarrow> nachos \<Rightarrow> bool option" where
  "IsExist pid s = Test (ptab_bm (proc_table s)) pid"

definition PTable_Remove :: "int \<Rightarrow> nachos \<Rightarrow> (bool \<times> nachos) option" where
  "PTable_Remove pid s = do {
     b \<leftarrow> Clear (ptab_bm (proc_table s)) pid;
     let s1 = s\<lparr>proc_table := (proc_table s)\<lparr>ptab_bm := b\<rparr>\<rparr>;
     c \<leftarrow> array_get (pcbs (proc_table s1)) (nat pid);
     if c = NullPCB then Some (True, s1) else PCB_delete pid s1 }"

definition PTable_GetFileName :: "int \<Rightarrow> nachos \<Rightarrow> byte list option" where
  "PTable_GetFileName i s = PCB_GetFileName i s"

definition current_name :: "byte list \<Rightarrow> nachos \<Rightarrow> byte list" where
  "current_name stale s = (case threadName s (currentThread s) of Some n \<Rightarrow> n | None \<Rightarrow> stale)"

definition ExecUpdate ::
    "(nachos \<Rightarrow> nachos option) \<Rightarrow> (nat \<Rightarrow> nachos \<Rightarrow> (unit, nachos) outcome option) \<Rightarrow> byte list \<Rightarrow> (nat \<Rightarrow> word32) \<Rightarrow> byte list option \<Rightarrow> nachos
     \<Rightarrow> (int, nachos) outcome option" where
  "ExecUpdate Y others stale junk name s =
     then_run (Semaphore_P Y others (bmsem (proc_table s)) s) (\<lambda>u s1.
       let fail = (\<lambda>s. do { s' \<leftarrow> Semaphore_V Y (bmsem (proc_table s)) s; Some (Returns (-1) s') }) in
       (case name of
          None \<Rightarrow> fail s1
        | Some name \<Rightarrow> do {
            fn \<leftarrow> PCB_GetFileName 0 s1;
            if name = fn \<or> name = current_name stale s1 then fail s1
            else do {
              (freespace, s2) \<leftarrow> GetFreeSlot s1;
              if freespace < 0 then fail s2
              else do {
                let (p, s3) = PCB_new freespace s2;
                ASSERT (nat freespace < length (pcbs (proc_table s3)));
                p1 \<leftarrow> SetFileName name p;
                let s4 = set_cell freespace (Live (p1\<lparr>parentID := processID s3 (currentThread s3)\<rparr>)) s3;
                then_run (PCB_Exec Y others junk name freespace s4) (\<lambda>pid s5. do {
                  s6 \<leftarrow> Semaphore_V Y (bmsem (proc_table s5)) s5;
                  Some (Returns pid s6) }) } } }))"

definition ExitUpdate ::
    "(nachos \<Rightarrow> nachos option) \<Rightarrow> (nat \<Rightarrow> nachos \<Rightarrow> (unit, nachos) outcome option) \<Rightarrow> int \<Rightarrow> nachos \<Rightarrow> (int option, nachos) outcome option" where
  "ExitUpdate Y others ec s =
     (let pid = processID s (currentThread s) in
      if pid = 0 then do { s1 \<leftarrow> FreeSpace (currentThread s) s; Some (Halts s1) }
      else do {
        found \<leftarrow> IsExist pid s;
        if \<not> found then Some (Returns (Some (-1)) s)
        else do {
          s1 \<leftarrow> SetExitCode pid ec s;
          p \<leftarrow> get_pcb pid s1;
          then_run (DecNumWait Y others (parentID p) s1) (\<lambda>u s2. do {
            s3 \<leftarrow> JoinRelease Y pid s2;
            then_run (ExitWait Y others pid s3) (\<lambda>u s4. do {
              (back, s5) \<leftarrow> PTable_Remove pid s4;
              Some (Returns (if back then Some ec else None) s5) }) }) } })"

definition JoinUpdate ::
    "(nachos \<Rightarrow> nachos option) \<Rightarrow> (nat \<Rightarrow> nachos \<Rightarrow> (unit, nachos) outcome option) \<Rightarrow> int \<Rightarrow> nachos \<Rightarrow> (int, nachos) outcome option" where
  "JoinUpdate Y others pid s =
     (if pid < 0 \<or> pid > MAX_PROCESS then Some (Returns (-1) s)
      else do {
        p \<leftarrow> get_pcb pid s;
        if processID s (currentThread s) \<noteq> parentID p then Some (Returns (-1) s)
        else then_run (IncNumWait Y others (parentID p) s) (\<lambda>u s1.
          then_run (JoinWait Y others pid s1) (\<lambda>u s2. do {
            ec \<leftarrow> GetExitCode pid s2;
            s3 \<leftarrow> ExitRelease Y pid s2;
            Some (Returns ec s3) })) })"

section \<open>Invariant\<close>

definition ptable_ok :: "nachos \<Rightarrow> bool" where
  "ptable_ok s \<longleftrightarrow> wf_bitmap (ptab_bm (proc_table s)) \<and> numBits (ptab_bm (proc_table s)) = MAX_PROCESS
     \<and> int (length (pcbs (proc_table s))) = MAX_PROCESS \<and> 0 \<in> marked (ptab_bm (proc_table s))
     \<and> (\<forall>i \<in> marked (ptab_bm (proc_table s)). \<exists>p fn. pcbs (proc_table s) ! nat i = Live p \<and> pcb_filename p = Some fn)"

text \<open>Semaphore and thread numbers to come are unused.\<close>

definition fresh_ok :: "nachos \<Rightarrow> bool" where
  "fresh_ok s \<longleftrightarrow> 5 \<le> next_sem s \<and> bmsem (proc_table s) < next_sem s \<and> currentThread s < next_thread s \<and> (\<forall>t \<ge> next_thread s. threads s t = None)"

lemma get_pcb_eq:
  assumes "ptable_ok s" "i \<in> marked (ptab_bm (proc_table s))"
  shows "\<exists>p fn. get_pcb i s = Some p \<and> pcbs (proc_table s) ! nat i = Live p \<and> pcb_filename p = Some fn"
proof -
  have "0 \<le> i" "i < MAX_PROCESS" using assms by (auto simp: ptable_ok_def marked_def in_range_def)
  moreover obtain p fn where "pcbs (proc_table s) ! nat i = Live p" "pcb_filename p = Some fn" using assms by (auto simp: ptable_ok_def)
  ultimately show ?thesis using assms(1) by (auto simp: get_pcb_def ptable_ok_def)
qed

lemma get_pcb_cong: "proc_table s' = proc_table s \<Longrightarrow> get_pcb i s' = get_pcb i s"
  by (simp add: get_pcb_def)

lemma get_pcb_set [simp]:
  "0 \<le> i \<Longrightarrow> nat i < length (pcbs (proc_table s)) \<Longrightarrow> get_pcb i (set_cell i c s) = (case c of Live p \<Rightarrow> Some p | _ \<Rightarrow> None)"
  "0 \<le> i \<Longrightarrow> 0 \<le> j \<Longrightarrow> i \<noteq> j \<Longrightarrow> get_pcb j (set_cell i c s) = get_pcb j s"
  by (auto simp: get_pcb_def set_cell_def nth_list_update nat_eq_iff split: pcb_cell.split)

lemma set_cell_fields [simp]:
  "enabled g (set_cell i c s) = enabled g s" "tokens (set_cell i c s) = tokens s" "processID (set_cell i c s) = processID s"
  "currentThread (set_cell i c s) = currentThread s" "next_sem (set_cell i c s) = next_sem s" "next_thread (set_cell i c s) = next_thread s"
  "readyList (set_cell i c s) = readyList s" "threads (set_cell i c s) = threads s" "sems (set_cell i c s) = sems s"
  "proc_table (set_cell i c s) = (proc_table s)\<lparr>pcbs := (pcbs (proc_table s))[nat i := c]\<rparr>" "sem_table (set_cell i c s) = sem_table s"
  "threadName (set_cell i c s) = threadName s" "forkArg (set_cell i c s) = forkArg s" "mach (set_cell i c s) = mach s"
  by (simp_all add: set_cell_def)

section \<open>Starting a process\<close>

lemma PCB_new_enabled:
  assumes "PCB_new i s = (p, s')" "enabled g s" "5 \<le> next_sem s"
  shows "enabled g s'" "tokens s' = (tokens s)(next_sem s := 0, next_sem s + 1 := 0, next_sem s + 2 := 1)"
    "joinsem p = next_sem s" "exitsem p = next_sem s + 1" "multex p = next_sem s + 2" "exitcode p = 0" "numwait p = 0" "pcb_thread p = None"
    "next_sem s' = next_sem s + 3" "proc_table s' = proc_table s" "processID s' = processID s" "currentThread s' = currentThread s"
    "next_thread s' = next_thread s" "threads s' = threads s" "readyList s' = readyList s" "sem_table s' = sem_table s"
    "threadName s' = threadName s" "forkArg s' = forkArg s" "mach s' = mach s" "sem_value (sems s' (next_sem s + 2)) = 1"
    "\<And>k. k < next_sem s \<Longrightarrow> sems s' k = sems s k"
proof -
  obtain j s1 where 1: "new_semaphore 0 s = (j, s1)" by force
  obtain e s2 where 2: "new_semaphore 0 s1 = (e, s2)" by force
  obtain m s3 where 3: "new_semaphore 1 s2 = (m, s3)" by force
  have p: "s' = s3" "p = \<lparr>joinsem = j, exitsem = e, multex = m, exitcode = 0, numwait = 0,
      parentID = (if i = 0 then -1 else processID s (currentThread s)), pcb_filename = None, pcb_thread = None\<rparr>"
    using assms(1) 1 2 3 by (auto simp: PCB_new_def)
  note n1 = new_semaphore_enabled [OF 1 assms(2,3) order_refl]
  have f1: "next_sem s1 = Suc (next_sem s)" using n1(4) by simp
  then have l1: "5 \<le> next_sem s1" using assms(3) by simp
  note n2 = new_semaphore_enabled [OF 2 n1(1) l1 order_refl]
  have f2: "next_sem s2 = Suc (Suc (next_sem s))" using n2(4) f1 by simp
  then have l2: "5 \<le> next_sem s2" using assms(3) by simp
  note n3 = new_semaphore_enabled [OF 3 n2(1) l2 zero_le_one]
  show "enabled g s'" using n3(1) p(1) by simp
  show "joinsem p = next_sem s" "exitsem p = next_sem s + 1" "multex p = next_sem s + 2" "exitcode p = 0" "numwait p = 0" "pcb_thread p = None"
    using p(2) n1(3) n2(3) n3(3) f1 f2 by simp_all
  have s3: "s3 = s\<lparr>sems := (sems s)(next_sem s := Semaphore_new 0, Suc (next_sem s) := Semaphore_new 0, Suc (Suc (next_sem s)) := Semaphore_new 1),
      next_sem := next_sem s + 3\<rparr>"
    by (simp add: n3(4) f2, simp add: n2(4) f1, simp add: n1(4))
  show "tokens s' = (tokens s)(next_sem s := 0, next_sem s + 1 := 0, next_sem s + 2 := 1)"
    using p(1) n1(2) n2(2) n3(2) f1 f2 by simp
  show "next_sem s' = next_sem s + 3" "proc_table s' = proc_table s" "processID s' = processID s" "currentThread s' = currentThread s"
    "next_thread s' = next_thread s" "threads s' = threads s" "readyList s' = readyList s" "sem_table s' = sem_table s"
    "threadName s' = threadName s" "forkArg s' = forkArg s" "mach s' = mach s" "sem_value (sems s' (next_sem s + 2)) = 1"
    "\<And>k. k < next_sem s \<Longrightarrow> sems s' k = sems s k"
    by (simp_all add: p(1) s3 Semaphore_new_def)
qed

lemma Fork_enabled:
  fixes a :: int
  assumes "enabled g s" "threads s t = Some tcb" "t \<noteq> currentThread s"
  defines "f \<equiv> s\<lparr>forkArg := (forkArg s)(t \<mapsto> a), threads := (threads s)(t \<mapsto> (StackAllocate tcb)\<lparr>tstatus := READY\<rparr>), readyList := readyList s @ [t]\<rparr>"
  shows "\<exists>s'. Thread_Fork Y t a s = Some s' \<and> enabled g s' \<and> kept_fields f s' \<and> tokens s' = tokens s"
proof -
  let ?s1 = "s\<lparr>forkArg := (forkArg s)(t \<mapsto> a), level := IntOff\<rparr>"
  have a: "alone g s" "level s = IntOn" using assms(1) by (simp_all add: enabled_def)
  have off: "SetLevel run_handler Y IntOff (s\<lparr>forkArg := (forkArg s)(t \<mapsto> a)\<rparr>) = Some (IntOn, ?s1)"
    using a(2) by (simp add: SetLevel_def ChangeLevel_def Let_def)
  define s2 where "s2 = f\<lparr>level := IntOff\<rparr>"
  have sec: "Fork_section t ?s1 = Some s2"
    using assms(2) by (simp add: Fork_section_def ReadyToRun_def setThreadStatus_def set_thread_def s2_def f_def)
  have "alone g f"
    using a(1) assms(3) by (auto simp: f_def alone_def hw_ok_def ticks_ok_def mach_ok_def settled_mach up_def stat_def tcb_ok_def device_sync_def)
  then have "held g s2" by (simp add: held_def s2_def)
  from SetLevel_on [OF this, of Y] obtain s' where s': "SetLevel run_handler Y IntOn s2 = Some (IntOff, s')" "enabled g s'"
    "kept_fields s2 s'" "tokens s' = tokens s2" by blast
  have "tokens s2 = tokens s" by (rule ext) (simp add: tokens_def s2_def f_def)
  moreover have "kept_fields f s'" using s'(3) by (simp add: s2_def)
  ultimately show ?thesis using off sec s' by (auto simp: Thread_Fork_def)
qed

lemma new_thread_enabled:
  assumes "new_thread junk fname s = (t, s')" "enabled g s" "currentThread s < next_thread s"
  shows "enabled g s'" "tokens s' = tokens s" "t = next_thread s"
    "s' = s\<lparr>threads := (threads s)(t \<mapsto> Thread_new junk), next_thread := next_thread s + 1, threadName := (threadName s)(t := Some fname)\<rparr>"
proof -
  show t: "t = next_thread s" and s': "s' = s\<lparr>threads := (threads s)(t \<mapsto> Thread_new junk), next_thread := next_thread s + 1,
      threadName := (threadName s)(t := Some fname)\<rparr>"
    using assms(1) by (auto simp: new_thread_def set_thread_def)
  have "alone g (s\<lparr>threads := (threads s)(t \<mapsto> Thread_new junk)\<rparr>)"
    using assms(2,3) t
    by (auto simp: enabled_def alone_def hw_ok_def ticks_ok_def mach_ok_def settled_mach up_def stat_def tcb_ok_def device_sync_def)
  then show "enabled g s'" using assms(2) s' by (simp add: enabled_def)
  show "tokens s' = tokens s" by (rule ext) (simp add: s' tokens_def)
qed

lemma PCB_Exec_enabled:
  assumes e: "enabled g s" and p: "get_pcb k s = Some p" and v: "0 < sem_value (sems s (multex p))" "5 \<le> multex p" and f: "fresh_ok s"
  shows "\<exists>s'. PCB_Exec Y others junk fname k s = Some (Returns k s') \<and> enabled g s' \<and> tokens s' = tokens s
    \<and> readyList s' = readyList s @ [next_thread s]
    \<and> proc_table s' = (proc_table s)\<lparr>pcbs := (pcbs (proc_table s))[nat k :=
        Live (p\<lparr>pcb_thread := Some (next_thread s), parentID := processID s (currentThread s)\<rparr>)]\<rparr>
    \<and> processID s' = (processID s)(next_thread s := k) \<and> forkArg s' = (forkArg s)(next_thread s \<mapsto> k)
    \<and> currentThread s' = currentThread s \<and> mach s' = mach s \<and> next_sem s' = next_sem s \<and> fresh_ok s'"
proof -
  let ?t = "next_thread s"
  have r: "0 \<le> k" "nat k < length (pcbs (proc_table s))" using p by (auto simp: get_pcb_def split: if_splits)
  have ids: "multex p \<noteq> synchReadAvail" "0 < tokens s (multex p)" using v by (auto simp: tokens_def semaphore_ids)
  from P_enabled [OF e ids(2), of Y others] ids(1) v(1) obtain s1 where s1: "Semaphore_P Y others (multex p) s = Some (Returns () s1)"
    "enabled g s1" "kept_fields s s1" "tokens s1 = (tokens s)(multex p := tokens s (multex p) - 1)" by auto
  note k1 = kept_tables [OF s1(3)]
  have p1: "get_pcb k s1 = Some p" using p get_pcb_cong [OF k1(2)] by simp
  have c: "currentThread s < ?t" "\<forall>t \<ge> ?t. threads s t = None" using f by (simp_all add: fresh_ok_def)
  obtain s2 where 2: "new_thread junk fname s1 = (?t, s2)" using k1(4) by (simp add: new_thread_def)
  have "currentThread s1 < next_thread s1" using c(1) k1(4,11) by simp
  note n = new_thread_enabled [OF 2 s1(2) this]
  let ?p2 = "p\<lparr>pcb_thread := Some ?t, parentID := processID s (currentThread s)\<rparr>"
  let ?s3 = "set_cell k (Live ?p2) (s2\<lparr>processID := (processID s2)(?t := k)\<rparr>)"
  have e3: "enabled g ?s3" "threads ?s3 ?t = Some (Thread_new junk)" "?t \<noteq> currentThread ?s3" "tokens ?s3 = tokens s1"
  proof -
    have c2: "currentThread s2 = currentThread s" by (simp add: n(4) k1(11))
    show "enabled g ?s3" "tokens ?s3 = tokens s1" using n(1,2) by simp_all
    show "threads ?s3 ?t = Some (Thread_new junk)" by (simp add: n(4))
    show "?t \<noteq> currentThread ?s3" using c(1) c2 by simp
  qed
  from Fork_enabled [OF e3(1-3), where a = k and Y = Y] obtain s4 where s4: "Thread_Fork Y ?t k ?s3 = Some s4" "enabled g s4"
    "kept_fields (?s3\<lparr>forkArg := (forkArg ?s3)(?t \<mapsto> k), threads := (threads ?s3)(?t \<mapsto> (StackAllocate (Thread_new junk))\<lparr>tstatus := READY\<rparr>),
        readyList := readyList ?s3 @ [?t]\<rparr>) s4" "tokens s4 = tokens ?s3" by blast
  note k4 = kept_tables [OF s4(3), simplified]
  from V_enabled [OF s4(2), of Y "multex p"] obtain s5 where s5: "Semaphore_V Y (multex p) s4 = Some s5" "enabled g s5" "kept_fields s4 s5"
    "tokens s5 = (tokens s4)(multex p := tokens s4 (multex p) + 1)" by blast
  note k5 = kept_tables [OF s5(3)]
  have "processID s2 (currentThread s2) = processID s (currentThread s)" "?t \<noteq> currentThread s2" using n(4) k1 c(1) by auto
  then have "PCB_Exec Y others junk fname k s = Some (Returns k s5)"
    using p s1(1) p1 2 s4(1) s5(1) by (simp add: PCB_Exec_def)
  moreover have "tokens s5 = tokens s" using s5(4) s4(4) e3(4) s1(4) by auto
  moreover have fl: "readyList s5 = readyList s @ [?t]" "currentThread s5 = currentThread s" "mach s5 = mach s" "next_sem s5 = next_sem s"
    using k5 k4 n(4) k1 by (simp_all add: set_cell_def)
  moreover have pt: "proc_table s5 = (proc_table s)\<lparr>pcbs := (pcbs (proc_table s))[nat k := Live ?p2]\<rparr>"
    using k5(2) k4(2) n(4) k1(2) by simp
  moreover have "processID s5 = (processID s)(?t := k)" "forkArg s5 = (forkArg s)(?t \<mapsto> k)"
    using k5 k4 n(4) k1 by (simp_all add: set_cell_def)
  moreover have "fresh_ok s5"
  proof -
    have "next_thread s5 = ?t + 1" using k5(4) k4(4) n(4) k1(4) by simp
    moreover have "threads s5 t = None" if "?t < t" for t
      using that c k5(14) [of t] k4(14) [of t] k4(11) k5(11) n(4) k1(11) k1(14) [of t] by simp
    ultimately show ?thesis using f fl(2,4) pt by (auto simp: fresh_ok_def)
  qed
  ultimately show ?thesis using s5(2) by blast
qed

text \<open>The calls that fail leave the table as it is.\<close>

lemma Exec_refused:
  assumes e: "enabled g s" and p: "ptable_ok s" and b: "0 < sem_value (sems s (bmsem (proc_table s)))" "5 \<le> bmsem (proc_table s)"
    and r: "PCB_GetFileName 0 s = Some name \<or> current_name stale s = name \<or> marked (ptab_bm (proc_table s)) = {0..<MAX_PROCESS}"
  shows "\<exists>s'. ExecUpdate Y others stale junk (Some name) s = Some (Returns (-1) s') \<and> enabled g s' \<and> kept_fields s s' \<and> tokens s' = tokens s"
proof -
  let ?k = "bmsem (proc_table s)"
  have ids: "?k \<noteq> synchReadAvail" "0 < tokens s ?k" using b by (auto simp: tokens_def semaphore_ids)
  from P_enabled [OF e ids(2), of Y others] ids(1) b(1) obtain s1 where s1: "Semaphore_P Y others ?k s = Some (Returns () s1)"
    "enabled g s1" "kept_fields s s1" "tokens s1 = (tokens s)(?k := tokens s ?k - 1)" by auto
  note k1 = kept_tables [OF s1(3)]
  from V_enabled [OF s1(2), of Y ?k] obtain s2 where s2: "Semaphore_V Y ?k s1 = Some s2" "enabled g s2" "kept_fields s1 s2"
    "tokens s2 = (tokens s1)(?k := tokens s1 ?k + 1)" by blast
  have t: "tokens s2 = tokens s" "kept_fields s s2" using s2(3,4) s1(3,4) kept_fields_trans by (auto simp: fun_eq_iff)
  have wf: "wf_bitmap (ptab_bm (proc_table s))" "numBits (ptab_bm (proc_table s)) = MAX_PROCESS" "0 \<in> marked (ptab_bm (proc_table s))"
    using p by (simp_all add: ptable_ok_def)
  obtain p0 fn where p0: "get_pcb 0 s = Some p0" "pcb_filename p0 = Some fn" using get_pcb_eq [OF p wf(3)] by blast
  have g1: "PCB_GetFileName 0 s1 = Some fn" using p0 get_pcb_cong [OF k1(2), of 0] by (simp add: PCB_GetFileName_def)
  have c1: "current_name stale s1 = current_name stale s" using k1(6,11) by (simp add: current_name_def)
  show ?thesis
  proof (cases "name = fn \<or> name = current_name stale s")
    case True
    then show ?thesis using s1(1) g1 c1 k1(2) s2(1,2) t by (auto simp: ExecUpdate_def Let_def)
  next
    case False
    then have "marked (ptab_bm (proc_table s)) = {0..<MAX_PROCESS}" using r p0 by (auto simp: PCB_GetFileName_def)
    then have "Find (ptab_bm (proc_table s)) = Some (-1, ptab_bm (proc_table s))"
      by (rule_tac Find_cases [OF wf(1)]) (use wf(2) in \<open>auto simp: in_range_def\<close>)
    then have "GetFreeSlot s1 = Some (-1, s1)" using k1(2) by (simp add: GetFreeSlot_def)
    then show ?thesis using s1(1) g1 c1 k1(2) s2(1,2) t False by (auto simp: ExecUpdate_def Let_def)
  qed
qed

lemma Exec_starts:
  assumes e: "enabled g s" and p: "ptable_ok s" and b: "0 < sem_value (sems s (bmsem (proc_table s)))" "5 \<le> bmsem (proc_table s)"
    and f: "fresh_ok s" and n: "PCB_GetFileName 0 s \<noteq> Some name" "current_name stale s \<noteq> name" "length name < 32"
    and free: "marked (ptab_bm (proc_table s)) \<noteq> {0..<MAX_PROCESS}"
  shows "\<exists>k s'. ExecUpdate Y others stale junk (Some name) s = Some (Returns k s') \<and> enabled g s' \<and> ptable_ok s' \<and> fresh_ok s'
    \<and> k \<notin> marked (ptab_bm (proc_table s)) \<and> {0..<k} \<subseteq> marked (ptab_bm (proc_table s)) \<and> 0 < k \<and> k < MAX_PROCESS
    \<and> marked (ptab_bm (proc_table s')) = insert k (marked (ptab_bm (proc_table s)))
    \<and> (\<forall>i. 0 \<le> i \<longrightarrow> i \<noteq> k \<longrightarrow> get_pcb i s' = get_pcb i s)
    \<and> get_pcb k s' = Some \<lparr>joinsem = next_sem s, exitsem = next_sem s + 1, multex = next_sem s + 2, exitcode = 0, numwait = 0,
        parentID = processID s (currentThread s), pcb_filename = Some name, pcb_thread = Some (next_thread s)\<rparr>
    \<and> readyList s' = readyList s @ [next_thread s] \<and> processID s' = (processID s)(next_thread s := k)
    \<and> forkArg s' = (forkArg s)(next_thread s \<mapsto> k) \<and> currentThread s' = currentThread s \<and> mach s' = mach s
    \<and> tokens s' = (tokens s)(next_sem s := 0, next_sem s + 1 := 0, next_sem s + 2 := 1)"
proof -
  let ?b = "bmsem (proc_table s)" and ?bm = "ptab_bm (proc_table s)"
  have ids: "?b \<noteq> synchReadAvail" "0 < tokens s ?b" using b by (auto simp: tokens_def semaphore_ids)
  from P_enabled [OF e ids(2), of Y others] ids(1) b(1) obtain s1 where s1: "Semaphore_P Y others ?b s = Some (Returns () s1)"
    "enabled g s1" "kept_fields s s1" "tokens s1 = (tokens s)(?b := tokens s ?b - 1)" by auto
  note k1 = kept_tables [OF s1(3)]
  have wf: "wf_bitmap ?bm" "numBits ?bm = MAX_PROCESS" "0 \<in> marked ?bm" "int (length (pcbs (proc_table s))) = MAX_PROCESS"
    using p by (simp_all add: ptable_ok_def)
  obtain k bm' where k: "Find ?bm = Some (k, bm')" "in_range ?bm k" "k \<notin> marked ?bm" "{0..<k} \<subseteq> marked ?bm" "Mark ?bm k = Some bm'"
    by (rule Find_cases [OF wf(1)]) (use free wf(2) in auto)
  note mk = Mark_Some [OF wf(1) k(2,5)]
  have kr: "0 < k" "k < MAX_PROCESS" "nat k < length (pcbs (proc_table s))"
    using k(2,3) wf by (auto simp: in_range_def order_less_le)
  have names: "\<exists>fn. PCB_GetFileName 0 s1 = Some fn \<and> name \<noteq> fn"
    using get_pcb_eq [OF p wf(3)] n(1) get_pcb_cong [OF k1(2), of 0] by (auto simp: PCB_GetFileName_def)
  have c1: "current_name stale s1 \<noteq> name" using n(2) k1(6,11) by (simp add: current_name_def)
  let ?s2 = "s1\<lparr>proc_table := (proc_table s)\<lparr>ptab_bm := bm'\<rparr>\<rparr>"
  have slot: "GetFreeSlot s1 = Some (k, ?s2)" using k(1) k1(2) by (simp add: GetFreeSlot_def)
  obtain q s3 where 3: "PCB_new k ?s2 = (q, s3)" by force
  have e2: "enabled g ?s2" "5 \<le> next_sem ?s2" using s1(2) f k1(3) by (simp_all add: fresh_ok_def)
  note q = PCB_new_enabled [OF 3 e2]
  let ?q = "q\<lparr>pcb_filename := Some name, parentID := processID s (currentThread s)\<rparr>"
  let ?s4 = "set_cell k (Live ?q) s3"
  have g4: "get_pcb k ?s4 = Some ?q" using kr q(10) by simp
  have "fresh_ok ?s4" using f q(9,10,12-14) k1 kept_fields_def s1(3) by (auto simp: fresh_ok_def)
  moreover have "0 < sem_value (sems ?s4 (multex ?q))" "5 \<le> multex ?q" using q(5,20) e2(2) by simp_all
  ultimately obtain s5 where s5: "PCB_Exec Y others junk name k ?s4 = Some (Returns k s5)" "enabled g s5" "tokens s5 = tokens s3"
    "readyList s5 = readyList s3 @ [next_thread s3]"
    "proc_table s5 = (proc_table ?s4)\<lparr>pcbs := (pcbs (proc_table ?s4))[nat k := Live (?q\<lparr>pcb_thread := Some (next_thread s3), parentID := processID s3 (currentThread s3)\<rparr>)]\<rparr>"
    "processID s5 = (processID s3)(next_thread s3 := k)" "forkArg s5 = (forkArg s3)(next_thread s3 \<mapsto> k)" "currentThread s5 = currentThread s3"
    "mach s5 = mach ?s4" "next_sem s5 = next_sem s3" "fresh_ok s5"
    using PCB_Exec_enabled [of g ?s4 k ?q Y others junk name] g4 q(1) by (auto simp only: set_cell_fields)
  have pt: "bmsem (proc_table s5) = ?b" "ptab_bm (proc_table s5) = bm'" using s5(5) q(10) by simp_all
  from V_enabled [OF s5(2), of Y ?b] obtain s6 where s6: "Semaphore_V Y ?b s5 = Some s6" "enabled g s6" "kept_fields s5 s6"
    "tokens s6 = (tokens s5)(?b := tokens s5 ?b + 1)" by blast
  note k6 = kept_tables [OF s6(3)]
  have run: "ExecUpdate Y others stale junk (Some name) s = Some (Returns k s6)"
    using s1(1) names c1 slot 3 kr q(10-12) n(3) s5(1) pt s6(1) k1(5,11)
    by (auto simp: ExecUpdate_def Let_def SetFileName_def k1(2))
  let ?q' = "\<lparr>joinsem = next_sem s, exitsem = next_sem s + 1, multex = next_sem s + 2, exitcode = 0, numwait = 0,
        parentID = processID s (currentThread s), pcb_filename = Some name, pcb_thread = Some (next_thread s)\<rparr>"
  have new: "?q\<lparr>pcb_thread := Some (next_thread s3), parentID := processID s3 (currentThread s3)\<rparr> = ?q'"
    using q(3-7,11-13) k1(3-5,11) by (cases q) simp
  have pt6: "proc_table s6 = (proc_table s)\<lparr>ptab_bm := bm', pcbs := (pcbs (proc_table s))[nat k := Live ?q']\<rparr>"
    using k6(2) s5(5) new q(10) by simp
  have "get_pcb k s6 = Some ?q'" "get_pcb i s6 = get_pcb i s" if "0 \<le> i" "i \<noteq> k" for i
    using kr that by (auto simp: get_pcb_def pt6 nth_list_update nat_eq_iff)
  moreover have "get_pcb k s6 = Some ?q'" using kr by (simp add: get_pcb_def pt6)
  moreover have "ptable_ok s6"
    using p kr wf(4) mk by (auto simp: ptable_ok_def pt6 nth_list_update)
  moreover have "fresh_ok s6"
    using s5(11) k6(2-4,11) k6(14) by (auto simp: fresh_ok_def)
  moreover have "tokens s6 = (tokens s)(next_sem s := 0, next_sem s + 1 := 0, next_sem s + 2 := 1)"
  proof -
    have "?b < next_sem s" using f by (simp add: fresh_ok_def)
    then show ?thesis using s6(4) s5(3) q(2) s1(4) k1(3) by (auto simp: fun_eq_iff)
  qed
  ultimately show ?thesis
    using run s6(2) k(3,4) kr(1,2) mk(3) k6 s5 q k1 pt6 by (intro exI [of _ k] exI [of _ s6]) simp
qed

section \<open>Joining\<close>

lemma tokens_user: "5 \<le> k \<Longrightarrow> tokens s k = sem_value (sems s k)"
  by (simp add: tokens_def semaphore_ids)

lemma more_set_cell: "devices.more s' = devices.more s \<Longrightarrow> devices.more (set_cell i c s') = devices.more (set_cell i c s)" for s s' :: nachos
  by (cases s, cases s') (simp add: set_cell_def)

lemma kept_set_cell:
  assumes k: "kept_fields s s'"
  shows "kept_fields (set_cell i c s) (set_cell i c s')"
proof -
  have "typed (set_cell i c u) = typed u" "now (set_cell i c u) = now u" for u by (simp_all add: set_cell_def typed_def now_def)
  moreover have "randomize (set_cell i c u) = randomize u" "random (set_cell i c u) = random u" "lastSector (set_cell i c u) = lastSector u"
    "bufferInit (set_cell i c u) = bufferInit u" "sectors (set_cell i c u) = sectors u" "display (set_cell i c u) = display u" for u
    by (simp_all add: set_cell_def)
  moreover have "devices.more (set_cell i c s') = devices.more (set_cell i c s)"
    using k by (intro more_set_cell) (simp add: kept_fields_def)
  ultimately show ?thesis using k by (simp add: kept_fields_def)
qed

lemma IncNumWait_enabled:
  assumes e: "enabled g s" and p: "get_pcb i s = Some p" and v: "0 < sem_value (sems s (multex p))" "5 \<le> multex p"
  shows "\<exists>s'. IncNumWait Y others i s = Some (Returns () s') \<and> enabled g s' \<and> tokens s' = tokens s
    \<and> kept_fields (set_cell i (Live (p\<lparr>numwait := numwait p + 1\<rparr>)) s) s'"
proof -
  have r: "0 \<le> i" "nat i < length (pcbs (proc_table s))" using p by (auto simp: get_pcb_def split: if_splits)
  have ids: "multex p \<noteq> synchReadAvail" "0 < tokens s (multex p)" using v by (auto simp: tokens_user semaphore_ids)
  from P_enabled [OF e ids(2), of Y others] ids(1) v(1) obtain s1 where s1: "Semaphore_P Y others (multex p) s = Some (Returns () s1)"
    "enabled g s1" "kept_fields s s1" "tokens s1 = (tokens s)(multex p := tokens s (multex p) - 1)" by auto
  have p1: "get_pcb i s1 = Some p" using p get_pcb_cong [OF kept_tables(2) [OF s1(3)]] by simp
  let ?c = "Live (p\<lparr>numwait := numwait p + 1\<rparr>)"
  have e2: "enabled g (set_cell i ?c s1)" using s1(2) by simp
  from V_enabled [OF e2, of Y "multex p"] obtain s2 where s2: "Semaphore_V Y (multex p) (set_cell i ?c s1) = Some s2" "enabled g s2"
    "kept_fields (set_cell i ?c s1) s2" "tokens s2 = (tokens s1)(multex p := tokens s1 (multex p) + 1)" by auto
  with s2(3) kept_set_cell [OF s1(3)] have "kept_fields (set_cell i ?c s) s2" using kept_fields_trans by blast
  moreover have "tokens s2 = tokens s" using s2(4) s1(4) by auto
  ultimately show ?thesis using p p1 s1(1) s2(1,2) by (auto simp: IncNumWait_def)
qed

lemma Join_finished:
  assumes e: "enabled g s" and i: "0 \<le> c" "c < MAX_PROCESS" and p: "get_pcb c s = Some p" and par: "parentID p = processID s (currentThread s)"
    and q: "get_pcb (parentID p) s = Some q" and ne: "parentID p \<noteq> c"
    and m: "0 < sem_value (sems s (multex q))" "5 \<le> multex q" and jv: "0 < sem_value (sems s (joinsem p))" "5 \<le> joinsem p"
  shows "\<exists>s'. JoinUpdate Y others c s = Some (Returns (exitcode p) s') \<and> enabled g s' \<and> get_pcb c s' = Some p
    \<and> tokens s' = (let t = (tokens s)(joinsem p := tokens s (joinsem p) - 1) in t(exitsem p := t (exitsem p) + 1))"
proof -
  from IncNumWait_enabled [OF e q m, of Y others] obtain s1 where s1: "IncNumWait Y others (parentID p) s = Some (Returns () s1)" "enabled g s1"
    "tokens s1 = tokens s" "kept_fields (set_cell (parentID p) (Live (q\<lparr>numwait := numwait q + 1\<rparr>)) s) s1" by blast
  have "0 \<le> parentID p" using q by (auto simp: get_pcb_def split: if_splits)
  then have p1: "get_pcb c s1 = Some p" using p i(1) ne get_pcb_cong [OF kept_tables(2) [OF s1(4)], of c] by simp
  have v: "0 < tokens s1 (joinsem p)" "0 < sem_value (sems s1 (joinsem p))" "joinsem p \<noteq> synchReadAvail"
    using jv s1(3) tokens_user [OF jv(2), of s] tokens_user [OF jv(2), of s1] by (simp_all add: semaphore_ids)
  from P_enabled [OF s1(2) v(1), of Y others] v obtain s2 where s2: "Semaphore_P Y others (joinsem p) s1 = Some (Returns () s2)" "enabled g s2"
    "kept_fields s1 s2" "tokens s2 = (tokens s1)(joinsem p := tokens s1 (joinsem p) - 1)" by auto
  have p2: "get_pcb c s2 = Some p" using p1 get_pcb_cong [OF kept_tables(2) [OF s2(3)]] by simp
  from V_enabled [OF s2(2), of Y "exitsem p"] obtain s3 where s3: "Semaphore_V Y (exitsem p) s2 = Some s3" "enabled g s3" "kept_fields s2 s3"
    "tokens s3 = (tokens s2)(exitsem p := tokens s2 (exitsem p) + 1)" by blast
  have p3: "get_pcb c s3 = Some p" using p2 get_pcb_cong [OF kept_tables(2) [OF s3(3)]] by simp
  have "JoinUpdate Y others c s = Some (Returns (exitcode p) s3)"
    using i p par s1(1) p1 s2(1) p2 s3(1) by (simp add: JoinUpdate_def JoinWait_def GetExitCode_def ExitRelease_def)
  then show ?thesis using s3 p3 s2(4) s1(3) by (simp add: Let_def)
qed

section \<open>The initial table\<close>

lemma PTable_new_ok:
  assumes e: "enabled g s" and n: "5 \<le> next_sem s" and c: "currentThread s < next_thread s" "\<forall>t \<ge> next_thread s. threads s t = None"
    and j: "length junk = 1"
  shows "\<exists>s'. PTable_new MAX_PROCESS junk s = Some s' \<and> enabled g s' \<and> ptable_ok s' \<and> fresh_ok s'
    \<and> marked (ptab_bm (proc_table s')) = {0} \<and> bmsem (proc_table s') = next_sem s \<and> 0 < sem_value (sems s' (next_sem s))
    \<and> PCB_GetFileName 0 s' = Some testab \<and> readyList s' = readyList s \<and> currentThread s' = currentThread s \<and> next_thread s' = next_thread s
    \<and> threadName s' = threadName s \<and> processID s' = processID s \<and> sem_table s' = sem_table s \<and> mach s' = mach s \<and> next_sem s' = next_sem s + 4
    \<and> (\<forall>k < next_sem s. tokens s' k = tokens s k)"
proof -
  have "int (length junk) = divRoundUp MAX_PROCESS 32" using j by (simp add: MAX_PROCESS_def divRoundUp_nonneg)
  from BitMap_correct [OF _ this] obtain b where b: "BitMap MAX_PROCESS junk = Some b" "wf_bitmap b" "numBits b = MAX_PROCESS" "marked b = {}"
    by (auto simp: MAX_PROCESS_def)
  have r: "in_range b 0" using b(3) by (simp add: in_range_def MAX_PROCESS_def)
  obtain b1 where b1: "Mark b 0 = Some b1" using Mark_total [OF b(2) r] by blast
  note m = Mark_Some [OF b(2) r b1]
  obtain k s1 where 1: "new_semaphore 1 s = (k, s1)" by force
  note n1 = new_semaphore_enabled [OF 1 e n zero_le_one]
  have f1: "next_sem s1 = Suc (next_sem s)" using n1(4) by simp
  then have l1: "5 \<le> next_sem s1" using n by simp
  obtain p s2 where 2: "PCB_new 0 s1 = (p, s2)" by force
  note q = PCB_new_enabled [OF 2 n1(1) l1]
  let ?p = "p\<lparr>pcb_filename := Some testab, parentID := -1\<rparr>"
  let ?t = "\<lparr>ptab_bm = b1, pcbs = (replicate (nat MAX_PROCESS) NullPCB)[0 := Live ?p], psize = MAX_PROCESS, bmsem = k\<rparr>"
  let ?s = "s2\<lparr>proc_table := ?t\<rparr>"
  have "length testab < 32" by (simp add: testab_def)
  then have "PTable_new MAX_PROCESS junk s = Some ?s"
    using b(1) b1 1 2 by (simp add: PTable_new_def SetFileName_def MAX_PROCESS_def)
  moreover have "ptable_ok ?s" using m b(3,4) by (auto simp: ptable_ok_def MAX_PROCESS_def)
  moreover have "fresh_ok ?s"
    using c n f1 n1(3,4) q(9,12-14) by (auto simp: fresh_ok_def)
  moreover have "sem_value (sems ?s (next_sem s)) = 1"
    using q(21) [of "next_sem s"] f1 n1(4) by (simp add: Semaphore_new_def)
  moreover have "PCB_GetFileName 0 ?s = Some testab" by (simp add: PCB_GetFileName_def get_pcb_def MAX_PROCESS_def)
  moreover have "tokens ?s i = tokens s i" if "i < next_sem s" for i using that q(2) n1(2) f1 by simp
  ultimately show ?thesis
    using q(1,9,11-17,19) n1(3,4) f1 m(3) b(4) by (intro exI [of _ ?s]) simp
qed

section \<open>Properties of the process table\<close>

definition sample_processes :: nachos where
  "sample_processes = the (PTable_new MAX_PROCESS [0] (sample_kernel (the (STable_new [0]))))"

lemma sample_kernel_enabled: "enabled False (sample_kernel t)" "currentThread (sample_kernel t) = 0" "next_thread (sample_kernel t) = 1"
  "\<forall>u \<ge> next_thread (sample_kernel t). threads (sample_kernel t) u = None" "readyList (sample_kernel t) = []"
  "threadName (sample_kernel t) = (\<lambda>_. Some [])" "processID (sample_kernel t) = (\<lambda>_. 0)" "mach (sample_kernel t) = None"
proof -
  show "enabled False (sample_kernel t)"
    by (simp add: sample_kernel_def devices.extend_def enabled_def alone_def sample_quiet_def sample_devices_def hw_ok_def ticks_ok_def
      mach_ok_def settled_mach up_def stat_def tcb_ok_def device_sync_def pend_of_def Statistics_new_def boot_def Semaphore_new_def
      Thread_new_def hw.extend_def Interrupt_new_def)
  show "currentThread (sample_kernel t) = 0" "next_thread (sample_kernel t) = 1" "readyList (sample_kernel t) = []"
    "\<forall>u \<ge> next_thread (sample_kernel t). threads (sample_kernel t) u = None"
    "threadName (sample_kernel t) = (\<lambda>_. Some [])" "processID (sample_kernel t) = (\<lambda>_. 0)" "mach (sample_kernel t) = None"
    by (simp_all add: sample_kernel_def devices.extend_def sample_quiet_def sample_devices_def boot_def hw.extend_def Interrupt_new_def)
qed

lemma sample_processes_ok: "enabled False sample_processes" "ptable_ok sample_processes" "fresh_ok sample_processes"
  "marked (ptab_bm (proc_table sample_processes)) = {0}" "bmsem (proc_table sample_processes) = 7"
  "0 < sem_value (sems sample_processes (bmsem (proc_table sample_processes)))" "PCB_GetFileName 0 sample_processes = Some testab"
  "current_name stale sample_processes = []" "readyList sample_processes = []" "next_thread sample_processes = 1"
  "currentThread sample_processes = 0" "processID sample_processes = (\<lambda>_. 0)" "mach sample_processes = None" "next_sem sample_processes = 11"
proof -
  let ?s = "sample_kernel (the (STable_new [0]))"
  have "5 \<le> next_sem ?s" "currentThread ?s < next_thread ?s" by (simp_all add: sample_kernel_enabled)
  from PTable_new_ok [OF sample_kernel_enabled(1) this sample_kernel_enabled(4), of "[0]"] obtain s' where
    s': "PTable_new MAX_PROCESS [0] ?s = Some s'" "enabled False s'" "ptable_ok s'" "fresh_ok s'" "marked (ptab_bm (proc_table s')) = {0}"
      "bmsem (proc_table s') = 7" "0 < sem_value (sems s' 7)" "PCB_GetFileName 0 s' = Some testab" "readyList s' = []" "currentThread s' = 0"
      "next_thread s' = 1" "threadName s' = (\<lambda>_. Some [])" "processID s' = (\<lambda>_. 0)" "mach s' = None" "next_sem s' = 11"
    by (auto simp: sample_kernel_enabled)
  have eq: "sample_processes = s'" using s'(1) by (simp add: sample_processes_def)
  show "enabled False sample_processes" "ptable_ok sample_processes" "fresh_ok sample_processes"
    "marked (ptab_bm (proc_table sample_processes)) = {0}" "bmsem (proc_table sample_processes) = 7"
    "0 < sem_value (sems sample_processes (bmsem (proc_table sample_processes)))" "PCB_GetFileName 0 sample_processes = Some testab"
    "current_name stale sample_processes = []" "readyList sample_processes = []" "next_thread sample_processes = 1"
    "currentThread sample_processes = 0" "processID sample_processes = (\<lambda>_. 0)" "mach sample_processes = None" "next_sem sample_processes = 11"
    using s' by (simp_all add: eq current_name_def)
qed

text \<open>C30. \<open>Exec\<close> starts a process: when the name is neither that of the first process nor that of the caller and a slot is free, the call takes
  the lowest free slot, returns its number, fills it with a new control block (the caller as parent, fresh semaphores, no exit code), and
  appends one new thread to the ready list that will run \<^verbatim>\<open>StartProcessWithID\<close> on that number; every other control block is as before and
  both locks are free again. Otherwise it returns -1 and changes nothing.\<close>

theorem exec_starts_process:
  assumes "enabled g s" "ptable_ok s" "0 < sem_value (sems s (bmsem (proc_table s)))" "5 \<le> bmsem (proc_table s)" "fresh_ok s" "length name < 32"
  shows "if PCB_GetFileName 0 s = Some name \<or> current_name stale s = name \<or> marked (ptab_bm (proc_table s)) = {0..<MAX_PROCESS}
    then \<exists>s'. ExecUpdate Y others stale junk (Some name) s = Some (Returns (-1) s') \<and> enabled g s' \<and> kept_fields s s' \<and> tokens s' = tokens s
    else \<exists>k s'. ExecUpdate Y others stale junk (Some name) s = Some (Returns k s') \<and> enabled g s' \<and> ptable_ok s' \<and> fresh_ok s'
      \<and> k \<notin> marked (ptab_bm (proc_table s)) \<and> {0..<k} \<subseteq> marked (ptab_bm (proc_table s)) \<and> 0 < k \<and> k < MAX_PROCESS
      \<and> (\<forall>i. 0 \<le> i \<longrightarrow> i \<noteq> k \<longrightarrow> get_pcb i s' = get_pcb i s)
      \<and> get_pcb k s' = Some \<lparr>joinsem = next_sem s, exitsem = next_sem s + 1, multex = next_sem s + 2, exitcode = 0, numwait = 0,
          parentID = processID s (currentThread s), pcb_filename = Some name, pcb_thread = Some (next_thread s)\<rparr>
      \<and> readyList s' = readyList s @ [next_thread s] \<and> processID s' (next_thread s) = k \<and> forkArg s' (next_thread s) = Some k
      \<and> tokens s' = (tokens s)(next_sem s := 0, next_sem s + 1 := 0, next_sem s + 2 := 1)"
proof (cases "PCB_GetFileName 0 s = Some name \<or> current_name stale s = name \<or> marked (ptab_bm (proc_table s)) = {0..<MAX_PROCESS}")
  case True
  with Exec_refused [OF assms(1-4) True, of Y others junk] show ?thesis by simp
next
  case False
  then have "PCB_GetFileName 0 s \<noteq> Some name" "current_name stale s \<noteq> name" "marked (ptab_bm (proc_table s)) \<noteq> {0..<MAX_PROCESS}" by auto
  from Exec_starts [OF assms(1-5) this(1,2) assms(6) this(3), of Y others junk] False show ?thesis
    by (simp only: if_False) (elim exE conjE, intro exI conjI, assumption+, simp_all only: fun_upd_same)
qed

theorem exec_starts_process_witness:
  "\<exists>k s'. ExecUpdate (\<lambda>s. None) (\<lambda>t s. None) [] (\<lambda>_. 0) (Some [97]) sample_processes = Some (Returns k s') \<and> 0 < k \<and> k < 10 \<and> readyList s' = [1]
    \<and> forkArg s' 1 = Some k"
proof -
  have "5 \<le> bmsem (proc_table sample_processes)" "length ([97] :: byte list) < 32" by (simp_all add: sample_processes_ok(5))
  moreover have "\<not> (PCB_GetFileName 0 sample_processes = Some [97] \<or> current_name [] sample_processes = [97]
      \<or> marked (ptab_bm (proc_table sample_processes)) = {0..<MAX_PROCESS})"
  proof -
    have "(1 :: int) \<in> {0..<MAX_PROCESS}" by (simp add: MAX_PROCESS_def)
    then have "{0} \<noteq> {0..<MAX_PROCESS}" by (metis singletonD zero_neq_one)
    then show ?thesis by (simp add: sample_processes_ok testab_def)
  qed
  ultimately obtain k s' where "ExecUpdate (\<lambda>s. None) (\<lambda>t s. None) [] (\<lambda>_. 0) (Some [97]) sample_processes = Some (Returns k s')" "0 < k"
    "k < MAX_PROCESS" "readyList s' = readyList sample_processes @ [next_thread sample_processes]"
    "forkArg s' (next_thread sample_processes) = Some k"
    using exec_starts_process [OF sample_processes_ok(1,2,6) _ sample_processes_ok(3), of "[97]" "[]" "\<lambda>s. None" "\<lambda>t s. None" "\<lambda>_. 0"]
    by (auto split: if_splits)
  then show ?thesis by (auto simp: sample_processes_ok MAX_PROCESS_def)
qed

end
