(* ===== verification/Join_Exit.thy ===== *)
theory Join_Exit
  imports Process_Table
begin

text \<open>
  userprog/ptable.cc and userprog/pcb.cc under the scheduler: processes that wait for each other.

  \<^verbatim>\<open>JoinUpdate\<close> and \<^verbatim>\<open>ExitUpdate\<close> are cut at their semaphore operations. The step relation \<open>pstep\<close> runs these pieces in every order that
  the scheduler of theory \<open>Threads\<close> allows: a piece is a step of the thread that runs, and every operation on a semaphore is a step of \<open>kstep\<close>. The
  rule \<open>elsewhere\<close> is all the rest: interrupts, context switches, time slices and semaphores of other objects. Processes are not created meanwhile.
  A call that is refused changes nothing and is no step. An access through the pointer of a control block that was deleted, or never made, is undefined:
  it is the event \<open>Dangling\<close> when it happens in the middle of a call, and \<open>NoBlock\<close> when \<open>Join\<close> or \<open>Exit\<close> starts with it. A run ends there, since
  nothing can be said of what the program does afterwards.
\<close>

section \<open>Where a thread stands\<close>

text \<open>
  The numbers are those of the child that is joined, or of the process that exits. \<^verbatim>\<open>JLock\<close> to \<open>JUnlock\<close> are \<^verbatim>\<open>IncNumWait\<close> on the parent's block,
  \<open>XLock\<close> to \<open>XUnlock\<close> are \<^verbatim>\<open>DecNumWait\<close>.
\<close>

datatype point = User
  | JLock int | JCount int | JUnlock int | JWait int | JRead int | JRelease int int
  | XLock int | XCount int | XUnlock int | XRelease int | XWait int | XRemove int | Gone

datatype process_event = Silent | JoinCalled int | Fetched int int | Exited int int | Removed int | Dangling int | NoBlock int

type_synonym processes = "nachos \<times> (nat \<Rightarrow> continuation) \<times> (nat \<Rightarrow> point)"

abbreviation here :: "(nat \<Rightarrow> point) \<Rightarrow> nachos \<Rightarrow> point" where
  "here pc s \<equiv> pc (currentThread s)"

abbreviation goes :: "nachos \<Rightarrow> (nat \<Rightarrow> point) \<Rightarrow> point \<Rightarrow> nat \<Rightarrow> point" where
  "goes s pc q \<equiv> pc(currentThread s := q)"

definition in_charge :: "nachos \<Rightarrow> (nat \<Rightarrow> continuation) \<Rightarrow> bool" where
  "in_charge s c \<longleftrightarrow> running s \<and> c (currentThread s) = Outside"

definition block_sems :: "nachos \<Rightarrow> nat set" where
  "block_sems s = {k. \<exists>i p. get_pcb i s = Some p \<and> k \<in> {joinsem p, exitsem p, multex p}}"

fun touches :: "event \<Rightarrow> nat set" where
  "touches (Took k) = {k}"
| "touches (Slept k) = {k}"
| "touches (Signalled k t) = {k}"
| "touches _ = {}"

fun creates :: "event \<Rightarrow> bool" where
  "creates (Created t) = True"
| "creates (Forked t) = True"
| "creates (Finished t) = True"
| "creates _ = False"

text \<open>The semaphore at which a piece waits or which it signals, and the next piece.\<close>

definition parent_block :: "int \<Rightarrow> nachos \<Rightarrow> PCB option" where
  "parent_block i s = do { p \<leftarrow> get_pcb i s; get_pcb (parentID p) s }"

fun waits_at :: "point \<Rightarrow> nachos \<Rightarrow> (nat \<times> point) option" where
  "waits_at (JLock i) s = do { q \<leftarrow> parent_block i s; Some (multex q, JCount i) }"
| "waits_at (JWait i) s = do { p \<leftarrow> get_pcb i s; Some (joinsem p, JRead i) }"
| "waits_at (XLock i) s = do { q \<leftarrow> parent_block i s; Some (multex q, XCount i) }"
| "waits_at (XWait i) s = do { p \<leftarrow> get_pcb i s; Some (exitsem p, XRemove i) }"
| "waits_at _ s = None"

fun signals_at :: "point \<Rightarrow> nachos \<Rightarrow> (nat \<times> point) option" where
  "signals_at (JUnlock i) s = do { q \<leftarrow> parent_block i s; Some (multex q, JWait i) }"
| "signals_at (JRelease i ec) s = do { p \<leftarrow> get_pcb i s; Some (exitsem p, User) }"
| "signals_at (XUnlock i) s = do { q \<leftarrow> parent_block i s; Some (multex q, XRelease i) }"
| "signals_at (XRelease i) s = do { p \<leftarrow> get_pcb i s; Some (joinsem p, XWait i) }"
| "signals_at _ s = None"

text \<open>
  The pieces that go through a pointer to a block that is not there. \<^verbatim>\<open>IncNumWait\<close> and \<^verbatim>\<open>DecNumWait\<close> use the block of the parent, the others the
  block of the process itself.
\<close>

abbreviation absent :: "'a option \<Rightarrow> int \<Rightarrow> int option" where
  "absent b i \<equiv> (if b = None then Some i else None)"

fun misses :: "point \<Rightarrow> nachos \<Rightarrow> int option" where
  "misses (JLock i) s = absent (parent_block i s) i"
| "misses (JCount i) s = absent (parent_block i s) i"
| "misses (JUnlock i) s = absent (parent_block i s) i"
| "misses (JWait i) s = absent (get_pcb i s) i"
| "misses (JRead i) s = absent (get_pcb i s) i"
| "misses (JRelease i ec) s = absent (get_pcb i s) i"
| "misses (XLock i) s = absent (parent_block i s) i"
| "misses (XCount i) s = absent (parent_block i s) i"
| "misses (XUnlock i) s = absent (parent_block i s) i"
| "misses (XRelease i) s = absent (get_pcb i s) i"
| "misses (XWait i) s = absent (get_pcb i s) i"
| "misses (XRemove i) s = absent (get_pcb i s) i"
| "misses _ s = None"

inductive pstep :: "processes \<Rightarrow> process_event \<Rightarrow> processes \<Rightarrow> bool" where
  elsewhere: "kstep (s, c) e (s', c') \<Longrightarrow> touches e \<inter> block_sems s = {} \<Longrightarrow> \<not> creates e \<Longrightarrow>
    pstep (s, c, pc) Silent (s', c', pc)"
| pass: "waits_at (here pc s) s = Some (k, q) \<Longrightarrow> kstep (s, c) (Took k) (s', c') \<Longrightarrow>
    pstep (s, c, pc) Silent (s', c', goes s pc q)"
| block: "waits_at (here pc s) s = Some (k, q) \<Longrightarrow> kstep (s, c) (Slept k) (s', c') \<Longrightarrow>
    pstep (s, c, pc) Silent (s', c', pc)"
| release: "in_charge s c \<Longrightarrow> signals_at (here pc s) s = Some (k, q) \<Longrightarrow> kstep (s, c) (Signalled k t) (s', c') \<Longrightarrow>
    pstep (s, c, pc) Silent (s', c', goes s pc q)"
| join_call: "in_charge s c \<Longrightarrow> here pc s = User \<Longrightarrow> 0 \<le> i \<Longrightarrow> i \<le> MAX_PROCESS \<Longrightarrow> get_pcb i s = Some p \<Longrightarrow>
    processID s (currentThread s) = parentID p \<Longrightarrow> pstep (s, c, pc) (JoinCalled i) (s, c, goes s pc (JLock i))"
| join_count: "in_charge s c \<Longrightarrow> here pc s = JCount i \<Longrightarrow> get_pcb i s = Some p \<Longrightarrow> get_pcb (parentID p) s = Some q \<Longrightarrow>
    pstep (s, c, pc) Silent (set_cell (parentID p) (Live (q\<lparr>numwait := numwait q + 1\<rparr>)) s, c, goes s pc (JUnlock i))"
| join_read: "in_charge s c \<Longrightarrow> here pc s = JRead i \<Longrightarrow> GetExitCode i s = Some ec \<Longrightarrow>
    pstep (s, c, pc) (Fetched i ec) (s, c, goes s pc (JRelease i ec))"
| exit_call: "in_charge s c \<Longrightarrow> here pc s = User \<Longrightarrow> processID s (currentThread s) = i \<Longrightarrow> i \<noteq> 0 \<Longrightarrow> IsExist i s = Some True \<Longrightarrow>
    SetExitCode i ec s = Some s' \<Longrightarrow> pstep (s, c, pc) (Exited i ec) (s', c, goes s pc (XLock i))"
| exit_count: "in_charge s c \<Longrightarrow> here pc s = XCount i \<Longrightarrow> get_pcb i s = Some p \<Longrightarrow> get_pcb (parentID p) s = Some q \<Longrightarrow>
    pstep (s, c, pc) Silent (set_cell (parentID p) (Live (if numwait q > 0 then q\<lparr>numwait := numwait q - 1\<rparr> else q)) s, c, goes s pc (XUnlock i))"
| exit_remove: "in_charge s c \<Longrightarrow> here pc s = XRemove i \<Longrightarrow> PTable_Remove i s = Some (False, s') \<Longrightarrow>
    pstep (s, c, pc) (Removed i) (s', c(currentThread s := Finishing), goes s pc Gone)"
| dangling: "running s \<Longrightarrow> misses (here pc s) s = Some i \<Longrightarrow> pstep (s, c, pc) (Dangling i) (s, c, pc)"
| join_missing: "in_charge s c \<Longrightarrow> here pc s = User \<Longrightarrow> 0 \<le> i \<Longrightarrow> i \<le> MAX_PROCESS \<Longrightarrow> get_pcb i s = None \<Longrightarrow>
    pstep (s, c, pc) (NoBlock i) (s, c, pc)"
| exit_missing: "in_charge s c \<Longrightarrow> here pc s = User \<Longrightarrow> processID s (currentThread s) = i \<Longrightarrow> i \<noteq> 0 \<Longrightarrow> IsExist i s = Some True \<Longrightarrow>
    get_pcb i s = None \<Longrightarrow> pstep (s, c, pc) (NoBlock i) (s, c, pc)"

fun well_defined :: "process_event \<Rightarrow> bool" where
  "well_defined (Dangling i) = False"
| "well_defined (NoBlock i) = False"
| "well_defined _ = True"

inductive psteps :: "processes \<Rightarrow> process_event list \<Rightarrow> processes \<Rightarrow> bool" where
  refl: "psteps x [] x"
| step: "psteps x es y \<Longrightarrow> list_all well_defined es \<Longrightarrow> pstep y e z \<Longrightarrow> psteps x (es @ [e]) z"

section \<open>What the scheduler leaves alone\<close>

lemma switch_more:
  "save_current s = Some s' \<Longrightarrow> kernel.more s' = kernel.more s" "restore_current s = Some s' \<Longrightarrow> kernel.more s' = kernel.more s"
  "delete_carcass s = Some s' \<Longrightarrow> kernel.more s' = kernel.more s"
  by (auto simp: save_current_def restore_current_def delete_carcass_def set_thread_def bind_eq_Some_conv split: option.splits)

lemma Run_more:
  assumes "Run n s = Some s'"
  shows "kernel.more s' = kernel.more s" "threads s' t \<noteq> None \<Longrightarrow> threads s t \<noteq> None"
proof -
  show "kernel.more s' = kernel.more s"
    using assms by (cases rule: Run_cases) (auto simp: set_thread_def dest!: switch_more)
  have "map_option tstatus (threads s' t) = map_option tstatus (threads s t) \<or> threads s' t = None" if "t \<noteq> n"
    using Run_Some(5) [OF assms that] by auto
  moreover have "threads s n \<noteq> None"
  proof -
    obtain s1 nxt where "save_current s = Some s1" "threads s1 n = Some nxt" using assms by (cases rule: Run_cases) blast+
    then show ?thesis using save_current_Some(5) [of s s1 n] by (cases "threads s n") auto
  qed
  ultimately show "threads s t \<noteq> None" if "threads s' t \<noteq> None" using that by (cases "t = n"; cases "threads s t") auto
qed

lemma switching_more:
  assumes "Yield_section s = Some s' \<or> Sleep_round s = Some (b, s')"
  shows "kernel.more s' = kernel.more s" "threads s' t \<noteq> None \<Longrightarrow> threads s t \<noteq> None"
proof -
  consider (same) "s' = s" | (run) n rl x where "Run n (s\<lparr>readyList := rl, threads := x\<rparr>) = Some s'" "\<And>u. x u \<noteq> None \<Longrightarrow> threads s u \<noteq> None"
  proof (cases "readyList s")
    case Nil
    then have "s' = s" using assms by (auto simp: Yield_section_def Sleep_round_def FindNextToRun_def)
    then show thesis by (rule same)
  next
    case (Cons n ts)
    then consider (y) tcb where "threads s (currentThread s) = Some tcb"
        "Run n (s\<lparr>readyList := ts @ [currentThread s], threads := (threads s)(currentThread s \<mapsto> tcb\<lparr>tstatus := READY\<rparr>)\<rparr>) = Some s'"
      | (z) "Run n (s\<lparr>readyList := ts\<rparr>) = Some s'"
      using assms by (auto simp: Yield_section_def Sleep_round_def FindNextToRun_def ReadyToRun_Some bind_eq_Some_conv)
    then show thesis
    proof cases
      case y
      show thesis by (rule run [OF y(2)]) (use y(1) in \<open>auto split: if_splits\<close>)
    next
      case z
      have "s\<lparr>readyList := ts, threads := threads s\<rparr> = s\<lparr>readyList := ts\<rparr>" by simp
      with z show thesis by (intro run [where n = n and rl = ts and x = "threads s"]) simp_all
    qed
  qed
  then have "kernel.more s' = kernel.more s \<and> (threads s' t \<noteq> None \<longrightarrow> threads s t \<noteq> None)"
  proof cases
    case (run n rl x)
    from Run_more(1) [OF run(1)] Run_more(2) [OF run(1), of t] run(2) [of t] show ?thesis by auto
  qed simp
  then show "kernel.more s' = kernel.more s" "threads s' t \<noteq> None \<Longrightarrow> threads s t \<noteq> None" by blast+
qed

lemma section_more:
  assumes "P_section k s = Some (b, s') \<or> V_section k s = Some s'"
  shows "kernel.more s' = kernel.more s" "threads s' t \<noteq> None \<Longrightarrow> threads s t \<noteq> None"
proof -
  have "kernel.more s' = kernel.more s \<and> (threads s' t \<noteq> None \<longrightarrow> threads s t \<noteq> None)" if "P_section k s = Some (b, s')"
    using that by (cases "sem_value (sems s k) = 0") (auto simp: P_section_def Let_def set_sem_def Sleep_enter_Some bind_eq_Some_conv split: if_splits)
  moreover have "kernel.more s' = kernel.more s \<and> (threads s' t \<noteq> None \<longrightarrow> threads s t \<noteq> None)" if "V_section k s = Some s'"
    using that by (cases "sem_queue (sems s k)") (auto simp: V_section_def Let_def set_sem_def ReadyToRun_Some bind_eq_Some_conv split: if_splits)
  ultimately show "kernel.more s' = kernel.more s" "threads s' t \<noteq> None \<Longrightarrow> threads s t \<noteq> None" using assms by blast+
qed

lemma kstep_more:
  assumes "kstep (s, c) e (s', c')" "\<not> creates e"
  shows "kernel.more s' = kernel.more s \<and> (threads s' t \<noteq> None \<longrightarrow> threads s t \<noteq> None)"
  using assms(1)
proof (cases rule: kstep.cases)
  case (take k)
  then show ?thesis using section_more [of k s True s'] by blast
next
  case (sleep k)
  then show ?thesis using section_more [of k s False s'] by blast
next
  case (signal k)
  then show ?thesis using section_more [of k s _ s'] by blast
qed (use assms(2) switching_more [of s s'] in \<open>auto, blast+\<close>)

text \<open>An operation on a semaphore, as far as the process table can tell.\<close>

lemma nachos_more:
  assumes "kernel.more s' = kernel.more (s :: nachos)"
  shows "proc_table s' = proc_table s" "processID s' = processID s"
  using assms by (cases s, cases s', simp)+

lemma sem_step:
  assumes "kstep (s :: nachos, c) e (s', c')" "\<not> creates e"
  shows "get_pcb i s' = get_pcb i s" "processID s' = processID s" "\<And>t. threads s' t \<noteq> None \<Longrightarrow> threads s t \<noteq> None"
    "sem_value (sems s' k) = sem_value (sems s k) + int (signalled k e) - int (took k e)"
proof -
  note m = kstep_more [OF assms]
  note n = nachos_more [OF conjunct1 [OF m]]
  show "get_pcb i s' = get_pcb i s" by (rule get_pcb_cong [OF n(1)])
  show "processID s' = processID s" by (rule n(2))
  show "\<And>t. threads s' t \<noteq> None \<Longrightarrow> threads s t \<noteq> None" using m by blast
  show "sem_value (sems s' k) = sem_value (sems s k) + int (signalled k e) - int (took k e)"
    using kstep_value(1) [OF assms(1), of k] by (simp add: value_of_def)
qed

section \<open>The rendezvous\<close>

text \<open>How far the parent is in joining \<open>i\<close>, and how far process \<open>i\<close> is in its exit.\<close>

datatype join_stage = NoJoin | BeforeJoin | Reading | Releasing int
datatype exit_stage = NoExit | BeforeExit | Waiting | Removing

fun joining :: "int \<Rightarrow> point \<Rightarrow> join_stage" where
  "joining i (JLock j) = (if j = i then BeforeJoin else NoJoin)"
| "joining i (JCount j) = (if j = i then BeforeJoin else NoJoin)"
| "joining i (JUnlock j) = (if j = i then BeforeJoin else NoJoin)"
| "joining i (JWait j) = (if j = i then BeforeJoin else NoJoin)"
| "joining i (JRead j) = (if j = i then Reading else NoJoin)"
| "joining i (JRelease j ec) = (if j = i then Releasing ec else NoJoin)"
| "joining i _ = NoJoin"

fun exiting :: "int \<Rightarrow> point \<Rightarrow> exit_stage" where
  "exiting i (XLock j) = (if j = i then BeforeExit else NoExit)"
| "exiting i (XCount j) = (if j = i then BeforeExit else NoExit)"
| "exiting i (XUnlock j) = (if j = i then BeforeExit else NoExit)"
| "exiting i (XRelease j) = (if j = i then BeforeExit else NoExit)"
| "exiting i (XWait j) = (if j = i then Waiting else NoExit)"
| "exiting i (XRemove j) = (if j = i then Removing else NoExit)"
| "exiting i _ = NoExit"

definition fetched :: "int \<Rightarrow> process_event list \<Rightarrow> bool" where
  "fetched i es \<longleftrightarrow> (\<exists>ec. Fetched i ec \<in> set es)"

text \<open>The values \<open>vj\<close> and \<open>ve\<close> of the two semaphores at each stage.\<close>

fun rendezvous :: "exit_stage \<Rightarrow> join_stage \<Rightarrow> int \<Rightarrow> int \<Rightarrow> bool \<Rightarrow> int \<Rightarrow> bool" where
  "rendezvous Waiting j vj ve got code \<longleftrightarrow>
     (vj = 1 \<and> ve = 0 \<and> j \<in> {NoJoin, BeforeJoin} \<and> \<not> got) \<or> (vj = 0 \<and> ve = 0 \<and> (j = Reading \<and> \<not> got \<or> j = Releasing code \<and> got))
     \<or> (vj = 0 \<and> ve = 1 \<and> j = NoJoin \<and> got)"
| "rendezvous Removing j vj ve got code \<longleftrightarrow> vj = 0 \<and> ve = 0 \<and> j = NoJoin \<and> got"
| "rendezvous x j vj ve got code \<longleftrightarrow> vj = 0 \<and> ve = 0 \<and> j \<in> {NoJoin, BeforeJoin} \<and> \<not> got"

definition same_block :: "PCB \<Rightarrow> PCB \<Rightarrow> bool" where
  "same_block p q \<longleftrightarrow> joinsem p = joinsem q \<and> exitsem p = exitsem q \<and> multex p = multex q \<and> parentID p = parentID q \<and> pcb_thread p = pcb_thread q"

text \<open>Processes before any of them joins or exits: \<open>owner\<close> gives the thread of each process, and no two semaphores of control blocks are the same.\<close>

definition processes_ready :: "(int \<Rightarrow> nat) \<Rightarrow> nachos \<Rightarrow> bool" where
  "processes_ready owner s \<longleftrightarrow> (\<forall>t. threads s t \<noteq> None \<longrightarrow> owner (processID s t) = t)
     \<and> (\<forall>i p. get_pcb i s = Some p \<longrightarrow> sem_value (sems s (joinsem p)) = 0 \<and> sem_value (sems s (exitsem p)) = 0)
     \<and> (\<forall>i p j q. get_pcb i s = Some p \<longrightarrow> get_pcb j s = Some q \<longrightarrow> joinsem p \<noteq> exitsem q \<and> joinsem p \<noteq> multex q \<and> exitsem p \<noteq> multex q
          \<and> (i \<noteq> j \<longrightarrow> joinsem p \<noteq> joinsem q \<and> exitsem p \<noteq> exitsem q))"

definition joins_once :: "process_event list \<Rightarrow> bool" where
  "joins_once es \<longleftrightarrow> (\<forall>i. count_list es (JoinCalled i) \<le> 1)"

text \<open>Process \<open>i\<close>, with control block \<open>p\<close>, after the events \<open>es\<close>.\<close>

definition meets :: "(int \<Rightarrow> nat) \<Rightarrow> process_event list \<Rightarrow> nachos \<Rightarrow> (nat \<Rightarrow> point) \<Rightarrow> int \<Rightarrow> PCB \<Rightarrow> bool" where
  "meets owner es s pc i p \<longleftrightarrow>
     (let x = exiting i (pc (owner i)); j = joining i (pc (owner (parentID p))) in
      rendezvous x j (sem_value (sems s (joinsem p))) (sem_value (sems s (exitsem p))) (fetched i es) (exitcode p)
      \<and> (x \<noteq> NoExit \<longrightarrow> Exited i (exitcode p) \<in> set es) \<and> (j \<noteq> NoJoin \<or> fetched i es \<longrightarrow> JoinCalled i \<in> set es))"

text \<open>A code is read after the child has set it, and a process is removed after its code was read.\<close>

definition in_order :: "process_event list \<Rightarrow> bool" where
  "in_order es \<longleftrightarrow> (\<forall>es1 es2 i ec. es = es1 @ Fetched i ec # es2 \<longrightarrow> Exited i ec \<in> set es1) \<and> (\<forall>es1 es2 i. es = es1 @ Removed i # es2 \<longrightarrow> fetched i es1)"

lemma in_order_snoc:
  assumes "in_order es" "\<And>i ec. e = Fetched i ec \<Longrightarrow> Exited i ec \<in> set es" "\<And>i. e = Removed i \<Longrightarrow> fetched i es"
  shows "in_order (es @ [e])"
proof -
  have "(es2 = [] \<and> e = x \<and> es1 = es) \<or> (\<exists>es3. es = es1 @ x # es3)" if "es @ [e] = es1 @ x # es2" for es1 es2 x
    using that by (cases es2 rule: rev_cases) auto
  then show ?thesis using assms unfolding in_order_def by metis
qed

definition process_inv :: "(int \<Rightarrow> nat) \<Rightarrow> nachos \<Rightarrow> process_event list \<Rightarrow> nachos \<Rightarrow> (nat \<Rightarrow> point) \<Rightarrow> bool" where
  "process_inv owner s0 es s pc \<longleftrightarrow> processID s = processID s0 \<and> (\<forall>t. threads s t \<noteq> None \<longrightarrow> threads s0 t \<noteq> None)
     \<and> (\<forall>t i. exiting i (pc t) \<noteq> NoExit \<longrightarrow> t = owner i \<and> get_pcb i s \<noteq> None)
     \<and> (\<forall>t i. joining i (pc t) \<noteq> NoJoin \<longrightarrow> (\<exists>p. get_pcb i s = Some p \<and> t = owner (parentID p)))
     \<and> (\<forall>i p. get_pcb i s = Some p \<longrightarrow> (\<exists>p0. get_pcb i s0 = Some p0 \<and> same_block p p0) \<and> meets owner es s pc i p)
     \<and> in_order es"

section \<open>Every step keeps the rendezvous\<close>

definition unchanged :: "process_event list \<Rightarrow> process_event list \<Rightarrow> int \<Rightarrow> bool" where
  "unchanged es es' j \<longleftrightarrow> set es \<subseteq> set es' \<and> fetched j es' = fetched j es"

lemma meets_other:
  assumes "meets owner es s pc j p" "same_block p' p" "exitcode p' = exitcode p" "unchanged es es' j"
    "sem_value (sems s' (joinsem p)) = sem_value (sems s (joinsem p))" "sem_value (sems s' (exitsem p)) = sem_value (sems s (exitsem p))"
    "exiting j q = exiting j (pc u)" "joining j q = joining j (pc u)"
  shows "meets owner es' s' (pc(u := q)) j p'"
proof -
  have v: "exiting j ((pc(u := q)) t) = exiting j (pc t)" "joining j ((pc(u := q)) t) = joining j (pc t)" for t using assms(7,8) by auto
  have b: "joinsem p' = joinsem p" "exitsem p' = exitsem p" "parentID p' = parentID p" using assms(2) by (simp_all add: same_block_def)
  show ?thesis using assms(1,3-6) unfolding meets_def v b unchanged_def by (auto simp: Let_def)
qed

lemma process_invD:
  assumes "process_inv owner s0 es s pc"
  shows "\<And>i t. exiting i (pc t) \<noteq> NoExit \<Longrightarrow> t = owner i" "\<And>i t. exiting i (pc t) \<noteq> NoExit \<Longrightarrow> get_pcb i s \<noteq> None"
    "\<And>i t. joining i (pc t) \<noteq> NoJoin \<Longrightarrow> \<exists>p. get_pcb i s = Some p \<and> t = owner (parentID p)"
    "\<And>i p. get_pcb i s = Some p \<Longrightarrow> \<exists>p0. get_pcb i s0 = Some p0 \<and> same_block p p0"
    "\<And>i p. get_pcb i s = Some p \<Longrightarrow> meets owner es s pc i p" "processID s = processID s0" "\<And>t. threads s t \<noteq> None \<Longrightarrow> threads s0 t \<noteq> None"
    "in_order es"
  using assms unfolding process_inv_def by simp_all

lemma process_inv_step:
  assumes "process_inv owner s0 es s pc" "processID s' = processID s" "\<And>t. threads s' t \<noteq> None \<Longrightarrow> threads s t \<noteq> None"
    "\<And>j. rel_option same_block (get_pcb j s') (get_pcb j s)"
    "\<And>j. exiting j q \<noteq> NoExit \<Longrightarrow> u = owner j \<and> get_pcb j s \<noteq> None"
    "\<And>j. joining j q \<noteq> NoJoin \<Longrightarrow> \<exists>p. get_pcb j s = Some p \<and> u = owner (parentID p)"
    "\<And>j p p'. get_pcb j s = Some p \<Longrightarrow> get_pcb j s' = Some p' \<Longrightarrow> same_block p' p \<Longrightarrow> meets owner es s pc j p \<Longrightarrow> meets owner (es @ [e]) s' (pc(u := q)) j p'"
    "\<And>i ec. e = Fetched i ec \<Longrightarrow> Exited i ec \<in> set es" "\<And>i. e \<noteq> Removed i"
  shows "process_inv owner s0 (es @ [e]) s' (pc(u := q))"
  unfolding process_inv_def
proof (intro conjI allI impI)
  note inv = process_invD [OF assms(1)]
  have same: "\<exists>p'. get_pcb j s' = Some p' \<and> same_block p' p" if "get_pcb j s = Some p" for j p
    using assms(4) [of j] that by (auto simp: option_rel_Some2)
  have origin: "\<exists>p. get_pcb j s = Some p \<and> same_block p' p" if "get_pcb j s' = Some p'" for j p'
    using assms(4) [of j] that by (auto simp: option_rel_Some1)
  show "processID s' = processID s0" using inv(6) assms(2) by simp
  show "threads s0 t \<noteq> None" if "threads s' t \<noteq> None" for t using inv(7) [OF assms(3) [OF that]] .
  have ex: "t = owner i \<and> get_pcb i s \<noteq> None" if "exiting i ((pc(u := q)) t) \<noteq> NoExit" for t i
    using that inv(1,2) [of i t] assms(5) [of i] by (cases "t = u") simp_all
  then show "t = owner i" if "exiting i ((pc(u := q)) t) \<noteq> NoExit" for t i using that by blast
  show "get_pcb i s' \<noteq> None" if "exiting i ((pc(u := q)) t) \<noteq> NoExit" for t i using ex [OF that] assms(4) [of i] by (cases "get_pcb i s'") auto
  show "\<exists>p. get_pcb i s' = Some p \<and> t = owner (parentID p)" if j: "joining i ((pc(u := q)) t) \<noteq> NoJoin" for t i
  proof -
    have "\<exists>p. get_pcb i s = Some p \<and> t = owner (parentID p)" using j inv(3) [of i t] assms(6) [of i] by (cases "t = u") simp_all
    then obtain p where p: "get_pcb i s = Some p" "t = owner (parentID p)" by blast
    with same [OF p(1)] show ?thesis by (auto simp: same_block_def)
  qed
  show "\<exists>p0. get_pcb i s0 = Some p0 \<and> same_block p p0" if p: "get_pcb i s' = Some p" for i p
  proof -
    obtain p1 where p1: "get_pcb i s = Some p1" "same_block p p1" using origin [OF p] by blast
    from inv(4) [OF p1(1)] obtain p0 where "get_pcb i s0 = Some p0" "same_block p1 p0" by blast
    with p1(2) show ?thesis by (auto simp: same_block_def)
  qed
  show "meets owner (es @ [e]) s' (pc(u := q)) i p" if p: "get_pcb i s' = Some p" for i p
  proof -
    obtain p1 where p1: "get_pcb i s = Some p1" "same_block p p1" using origin [OF p] by blast
    moreover note inv(5) [OF p1(1)]
    ultimately show ?thesis using assms(7) p by simp
  qed
  show "in_order (es @ [e])" using inv(8) assms(8,9) by (intro in_order_snoc) auto
qed

fun alters :: "event \<Rightarrow> nat \<Rightarrow> bool" where
  "alters (Took n) k \<longleftrightarrow> n = k"
| "alters (Signalled n t) k \<longleftrightarrow> n = k"
| "alters _ k \<longleftrightarrow> False"

lemma Took_positive: "kstep (s, c) (Took k) (s', c') \<Longrightarrow> sem_value (sems s k) \<noteq> 0"
  by (erule kstep.cases) (auto simp: P_section_def Let_def bind_eq_Some_conv split: if_splits)

text \<open>A semaphore operation of the running thread, at which it moves to the point \<open>q\<close>.\<close>

lemma sem_move:
  assumes inv: "process_inv owner s0 es s pc" and k: "kstep (s, c) e (s', c')" "\<not> creates e"
    and view: "\<And>j. exiting j q \<noteq> NoExit \<Longrightarrow> exiting j (pc u) \<noteq> NoExit" "\<And>j. joining j q \<noteq> NoJoin \<Longrightarrow> joining j (pc u) \<noteq> NoJoin"
    and own: "\<And>j p. get_pcb j s = Some p \<Longrightarrow> alters e (joinsem p) \<or> alters e (exitsem p) \<or> exiting j q \<noteq> exiting j (pc u) \<or> joining j q \<noteq> joining j (pc u) \<Longrightarrow>
      meets owner es s pc j p \<Longrightarrow> meets owner (es @ [Silent]) s' (pc(u := q)) j p"
  shows "process_inv owner s0 (es @ [Silent]) s' (pc(u := q))"
proof (rule process_inv_step [OF inv])
  note st = sem_step [OF k]
  show "processID s' = processID s" by (rule st(2))
  show "threads s t \<noteq> None" if "threads s' t \<noteq> None" for t using st(3) that .
  show "rel_option same_block (get_pcb j s') (get_pcb j s)" for j by (cases "get_pcb j s") (simp_all add: st(1) same_block_def)
  show "u = owner j \<and> get_pcb j s \<noteq> None" if "exiting j q \<noteq> NoExit" for j using process_invD(1,2) [OF inv view(1) [OF that]] by simp
  show "\<exists>p. get_pcb j s = Some p \<and> u = owner (parentID p)" if "joining j q \<noteq> NoJoin" for j using process_invD(3) [OF inv view(2) [OF that]] .
  show "meets owner (es @ [Silent]) s' (pc(u := q)) j p'" if p: "get_pcb j s = Some p" "get_pcb j s' = Some p'" "meets owner es s pc j p" for j p p'
  proof -
    have "p' = p" using p(1,2) st(1) by simp
    show ?thesis
    proof (cases "alters e (joinsem p) \<or> alters e (exitsem p) \<or> exiting j q \<noteq> exiting j (pc u) \<or> joining j q \<noteq> joining j (pc u)")
      case True
      then show ?thesis using own [OF p(1) _ p(3)] \<open>p' = p\<close> by simp
    next
      case False
      then have "signalled n e = 0 \<and> took n e = 0" if "n \<in> {joinsem p, exitsem p}" for n using that by (cases e) auto
      then have "sem_value (sems s' (joinsem p)) = sem_value (sems s (joinsem p))" "sem_value (sems s' (exitsem p)) = sem_value (sems s (exitsem p))"
        using st(4) by simp_all
      then show ?thesis using False \<open>p' = p\<close> by (intro meets_other [OF p(3)]) (auto simp: same_block_def unchanged_def fetched_def)
    qed
  qed
qed simp_all

text \<open>The semaphores of different blocks differ, at any time.\<close>

lemma block_sems_differ:
  assumes "processes_ready owner s0" "process_inv owner s0 es s pc" "get_pcb i s = Some p" "get_pcb j s = Some q"
  shows "joinsem p \<noteq> exitsem q" "joinsem p \<noteq> multex q" "exitsem p \<noteq> multex q" "i \<noteq> j \<Longrightarrow> joinsem p \<noteq> joinsem q \<and> exitsem p \<noteq> exitsem q"
proof -
  obtain p0 q0 where "get_pcb i s0 = Some p0" "same_block p p0" "get_pcb j s0 = Some q0" "same_block q q0"
    using process_invD(4) [OF assms(2)] assms(3,4) by metis
  with assms(1) show "joinsem p \<noteq> exitsem q" "joinsem p \<noteq> multex q" "exitsem p \<noteq> multex q" "i \<noteq> j \<Longrightarrow> joinsem p \<noteq> joinsem q \<and> exitsem p \<noteq> exitsem q"
    by (simp_all add: processes_ready_def same_block_def)
qed


lemma parent_block_Some: "parent_block i s = Some q \<Longrightarrow> \<exists>p. get_pcb i s = Some p \<and> get_pcb (parentID p) s = Some q"
  by (auto simp: parent_block_def bind_eq_Some_conv)

lemma elsewhere_inv:
  assumes "process_inv owner s0 es s pc" "kstep (s, c) e (s', c')" "touches e \<inter> block_sems s = {}" "\<not> creates e"
  shows "process_inv owner s0 (es @ [Silent]) s' pc"
proof -
  have "alters e k \<Longrightarrow> k \<in> touches e" for k by (cases e) auto
  then have "\<not> alters e k" if "get_pcb j s = Some p" "k \<in> {joinsem p, exitsem p}" for j p k
    using that assms(3) unfolding block_sems_def by blast
  then have "process_inv owner s0 (es @ [Silent]) s' (pc(u := pc u))" for u
    by (intro sem_move [OF assms(1,2,4)]) simp_all
  then show ?thesis by simp
qed

lemma block_inv:
  assumes "process_inv owner s0 es s pc" "kstep (s, c) (Slept k) (s', c')"
  shows "process_inv owner s0 (es @ [Silent]) s' pc"
  using sem_move [OF assms, where q = "pc undefined" and u = undefined] by simp

text \<open>The lock of the parent's block.\<close>

lemma multex_inv:
  assumes "processes_ready owner s0" "process_inv owner s0 es s pc" "parent_block i s = Some b" "e = Took (multex b) \<or> e = Signalled (multex b) t"
    "kstep (s, c) e (s', c')" "\<And>j. exiting j q = exiting j (pc u)" "\<And>j. joining j q = joining j (pc u)"
  shows "process_inv owner s0 (es @ [Silent]) s' (pc(u := q))"
proof -
  obtain n where p: "get_pcb n s = Some b" using parent_block_Some [OF assms(3)] by fastforce
  have "\<not> alters e (joinsem r) \<and> \<not> alters e (exitsem r)" if "get_pcb j s = Some r" for j r
    using block_sems_differ(2,3) [OF assms(1,2) that p] assms(4) by auto
  moreover have "\<not> creates e" using assms(4) by auto
  ultimately show ?thesis using assms(6,7) by (intro sem_move [OF assms(2,5)]) simp_all
qed

text \<open>What the joining and the exiting thread do to their own rendezvous.\<close>

lemma meets_intro:
  assumes "exiting i ((pc(u := q)) (owner i)) = x" "joining i ((pc(u := q)) (owner (parentID p))) = j"
    "rendezvous x j (sem_value (sems s (joinsem p))) (sem_value (sems s (exitsem p))) (fetched i es) (exitcode p)"
    "x \<noteq> NoExit \<Longrightarrow> Exited i (exitcode p) \<in> set es" "j \<noteq> NoJoin \<or> fetched i es \<Longrightarrow> JoinCalled i \<in> set es"
  shows "meets owner es s (pc(u := q)) i p"
  using assms unfolding meets_def by (simp add: Let_def)

lemma meetsD:
  assumes "meets owner es s pc i p"
  shows "rendezvous (exiting i (pc (owner i))) (joining i (pc (owner (parentID p)))) (sem_value (sems s (joinsem p))) (sem_value (sems s (exitsem p)))
      (fetched i es) (exitcode p)"
    "exiting i (pc (owner i)) \<noteq> NoExit \<Longrightarrow> Exited i (exitcode p) \<in> set es"
    "joining i (pc (owner (parentID p))) \<noteq> NoJoin \<or> fetched i es \<Longrightarrow> JoinCalled i \<in> set es"
  using assms by (simp_all add: meets_def Let_def)

lemma fetched_snoc [simp]: "fetched i (es @ [Silent]) = fetched i es"
  by (auto simp: fetched_def)

lemma sem_move_own:
  assumes ready: "processes_ready owner s0" and inv: "process_inv owner s0 es s pc" and p: "get_pcb i s = Some p" and k: "kstep (s, c) e (s', c')"
    and e: "e = Took n \<or> e = Signalled n t" "n = joinsem p \<or> n = exitsem p"
    and view: "exiting i q \<noteq> NoExit \<Longrightarrow> exiting i (pc u) \<noteq> NoExit" "joining i q \<noteq> NoJoin \<Longrightarrow> joining i (pc u) \<noteq> NoJoin"
    and other: "\<And>j. j \<noteq> i \<Longrightarrow> exiting j q = exiting j (pc u) \<and> joining j q = joining j (pc u)"
    and own: "meets owner (es @ [Silent]) s' (pc(u := q)) i p"
  shows "process_inv owner s0 (es @ [Silent]) s' (pc(u := q))"
proof (rule sem_move [OF inv k])
  note differ = block_sems_differ [OF ready inv]
  show "\<not> creates e" using e by auto
  show "exiting j (pc u) \<noteq> NoExit" if "exiting j q \<noteq> NoExit" for j using that view(1) other [of j] by (cases "j = i") auto
  show "joining j (pc u) \<noteq> NoJoin" if "joining j q \<noteq> NoJoin" for j using that view(2) other [of j] by (cases "j = i") auto
  fix j r assume r: "get_pcb j s = Some r" "alters e (joinsem r) \<or> alters e (exitsem r) \<or> exiting j q \<noteq> exiting j (pc u) \<or> joining j q \<noteq> joining j (pc u)"
  have "j = i"
  proof (rule ccontr)
    assume "j \<noteq> i"
    with r(2) other [OF this] e differ(1) [OF p r(1)] differ(1) [OF r(1) p] differ(4) [OF p r(1)] show False by auto
  qed
  with r(1) p own show "meets owner (es @ [Silent]) s' (pc(u := q)) j r" by simp
qed

lemma join_wait_inv:
  assumes ready: "processes_ready owner s0" and inv: "process_inv owner s0 es s pc" and i: "pc u = JWait i" "get_pcb i s = Some p"
    and k: "kstep (s, c) (Took (joinsem p)) (s', c')"
  shows "process_inv owner s0 (es @ [Silent]) s' (pc(u := JRead i))"
proof (rule sem_move_own [OF ready inv i(2) k])
  have u: "u = owner (parentID p)" using process_invD(3) [OF inv, of i u] i by auto
  note st = sem_step(4) [OF k] and d = block_sems_differ(1) [OF ready inv i(2) i(2)] and md = meetsD [OF process_invD(5) [OF inv i(2)]]
  have w: "exiting i (pc (owner i)) = Waiting" "sem_value (sems s (joinsem p)) = 1" "sem_value (sems s (exitsem p)) = 0" "\<not> fetched i es"
    using md(1) Took_positive [OF k] u i(1) by (cases "exiting i (pc (owner i))"; simp)+
  have "owner i \<noteq> u" using w(1) i(1) by auto
  then show "meets owner (es @ [Silent]) s' (pc(u := JRead i)) i p"
    using w md(2,3) u i(1) st [of "joinsem p"] st [of "exitsem p"] d by (intro meets_intro [where x = Waiting and j = Reading]) auto
qed (use i in auto)

lemma exit_wait_inv:
  assumes ready: "processes_ready owner s0" and inv: "process_inv owner s0 es s pc" and i: "pc u = XWait i" "get_pcb i s = Some p"
    and k: "kstep (s, c) (Took (exitsem p)) (s', c')"
  shows "process_inv owner s0 (es @ [Silent]) s' (pc(u := XRemove i))"
proof (rule sem_move_own [OF ready inv i(2) k])
  have u: "u = owner i" using process_invD(1) [OF inv, of i u] i by simp
  note st = sem_step(4) [OF k] and d = block_sems_differ(1) [OF ready inv i(2) i(2)] and md = meetsD [OF process_invD(5) [OF inv i(2)]]
  have w: "joining i (pc (owner (parentID p))) = NoJoin" "sem_value (sems s (joinsem p)) = 0" "sem_value (sems s (exitsem p)) = 1" "fetched i es"
    using md(1) Took_positive [OF k] u i(1) by auto
  then show "meets owner (es @ [Silent]) s' (pc(u := XRemove i)) i p"
    using md(2,3) u i(1) st [of "joinsem p"] st [of "exitsem p"] d by (intro meets_intro [where x = Removing and j = NoJoin]) auto
qed (use i in auto)

lemma exit_release_inv:
  assumes ready: "processes_ready owner s0" and inv: "process_inv owner s0 es s pc" and i: "pc u = JRelease i ec" "get_pcb i s = Some p"
    and k: "kstep (s, c) (Signalled (exitsem p) t) (s', c')"
  shows "process_inv owner s0 (es @ [Silent]) s' (pc(u := User))"
proof (rule sem_move_own [OF ready inv i(2) k])
  have u: "u = owner (parentID p)" using process_invD(3) [OF inv, of i u] i by auto
  note st = sem_step(4) [OF k] and d = block_sems_differ(1) [OF ready inv i(2) i(2)] and md = meetsD [OF process_invD(5) [OF inv i(2)]]
  have w: "exiting i (pc (owner i)) = Waiting" "sem_value (sems s (joinsem p)) = 0" "sem_value (sems s (exitsem p)) = 0" "fetched i es"
    using md(1) u i(1) by (cases "exiting i (pc (owner i))"; simp)+
  have "owner i \<noteq> u" using w(1) i(1) by auto
  then show "meets owner (es @ [Silent]) s' (pc(u := User)) i p"
    using w md(2,3) u i(1) st [of "joinsem p"] st [of "exitsem p"] d by (intro meets_intro [where x = Waiting and j = NoJoin]) auto
qed (use i in auto)

lemma join_release_inv:
  assumes ready: "processes_ready owner s0" and inv: "process_inv owner s0 es s pc" and i: "pc u = XRelease i" "get_pcb i s = Some p"
    and k: "kstep (s, c) (Signalled (joinsem p) t) (s', c')"
  shows "process_inv owner s0 (es @ [Silent]) s' (pc(u := XWait i))"
proof (rule sem_move_own [OF ready inv i(2) k])
  have u: "u = owner i" using process_invD(1) [OF inv, of i u] i by simp
  note st = sem_step(4) [OF k] and d = block_sems_differ(1) [OF ready inv i(2) i(2)] and md = meetsD [OF process_invD(5) [OF inv i(2)]]
  have w: "joining i (pc (owner (parentID p))) \<in> {NoJoin, BeforeJoin}" "sem_value (sems s (joinsem p)) = 0" "sem_value (sems s (exitsem p)) = 0" "\<not> fetched i es"
    using md(1) u i(1) by auto
  show "meets owner (es @ [Silent]) s' (pc(u := XWait i)) i p"
    by (rule meets_intro [where x = Waiting and j = "joining i (pc (owner (parentID p)))"]) (use w md(2,3) u i(1) st [of "joinsem p"] st [of "exitsem p"] d in auto)
qed (use i in auto)

text \<open>The pieces that change the table or nothing.\<close>

lemma get_pcb_update:
  assumes "get_pcb n s = Some b"
  shows "get_pcb j (set_cell n (Live b') s) = (if j = n then Some b' else get_pcb j s)"
proof -
  have n: "0 \<le> n" "nat n < length (pcbs (proc_table s))" using assms by (auto simp: get_pcb_def split: if_splits)
  show ?thesis
  proof (cases "0 \<le> j")
    case True
    with n show ?thesis by (cases "j = n") simp_all
  qed (use n in \<open>auto simp: get_pcb_def\<close>)
qed

lemma count_inv:
  assumes inv: "process_inv owner s0 es s pc" and b: "get_pcb n s = Some b" "same_block b' b" "exitcode b' = exitcode b"
    and q: "\<And>j. exiting j q = exiting j (pc u)" "\<And>j. joining j q = joining j (pc u)"
  shows "process_inv owner s0 (es @ [Silent]) (set_cell n (Live b') s) (pc(u := q))"
proof (rule process_inv_step [OF inv])
  show "rel_option same_block (get_pcb j (set_cell n (Live b') s)) (get_pcb j s)" for j
    using b by (cases "get_pcb j s") (auto simp: get_pcb_update [OF b(1)] same_block_def)
  show "u = owner j \<and> get_pcb j s \<noteq> None" if "exiting j q \<noteq> NoExit" for j using process_invD(1,2) [OF inv, of j u] that q(1) by simp
  show "\<exists>p. get_pcb j s = Some p \<and> u = owner (parentID p)" if "joining j q \<noteq> NoJoin" for j using process_invD(3) [OF inv, of j u] that q(2) by simp
  show "meets owner (es @ [Silent]) (set_cell n (Live b') s) (pc(u := q)) j p'"
    if p: "get_pcb j s = Some p" "get_pcb j (set_cell n (Live b') s) = Some p'" "same_block p' p" "meets owner es s pc j p" for j p p'
  proof -
    have "exitcode p' = exitcode p" using p(1,2) b(1,3) get_pcb_update [OF b(1), of j b'] by (auto split: if_splits)
    then show ?thesis using q p(3) by (intro meets_other [OF p(4)]) (auto simp: unchanged_def)
  qed
qed simp_all

lemma running_owner:
  assumes "processes_ready owner s0" "process_inv owner s0 es s pc" "in_charge s c"
  shows "owner (processID s (currentThread s)) = currentThread s"
proof -
  have "threads s (currentThread s) \<noteq> None" using assms(3) by (auto simp: in_charge_def running_def stat_def)
  then show ?thesis using assms(1) process_invD(6,7) [OF assms(2)] by (simp add: processes_ready_def)
qed

lemma join_call_inv:
  assumes inv: "process_inv owner s0 es s pc" and u: "pc u = User" "u = owner (parentID p)" and p: "get_pcb i s = Some p"
    and once: "JoinCalled i \<notin> set es"
  shows "process_inv owner s0 (es @ [JoinCalled i]) s (pc(u := JLock i))"
proof (rule process_inv_step [OF inv])
  have f: "fetched j (es @ [JoinCalled i]) = fetched j es" for j by (auto simp: fetched_def)
  show "rel_option same_block (get_pcb j s) (get_pcb j s)" for j by (cases "get_pcb j s") (simp_all add: same_block_def)
  show "\<exists>r. get_pcb j s = Some r \<and> u = owner (parentID r)" if "joining j (JLock i) \<noteq> NoJoin" for j using that p u(2) by (auto split: if_splits)
  show "meets owner (es @ [JoinCalled i]) s (pc(u := JLock i)) j r'"
    if r: "get_pcb j s = Some r" "get_pcb j s = Some r'" "same_block r' r" "meets owner es s pc j r" for j r r'
  proof (cases "j = i")
    case True
    then have e: "j = i" "r = p" "r' = p" using r(1,2) p by simp_all
    note md = meetsD [OF r(4) [unfolded e]]
    have w: "\<not> fetched i es" using md(3) once by blast
    have "rendezvous (exiting i (pc (owner i))) BeforeJoin (sem_value (sems s (joinsem p))) (sem_value (sems s (exitsem p))) (fetched i es) (exitcode p)"
      using md(1) w u by (cases "exiting i (pc (owner i))") auto
    then show ?thesis unfolding e
      by (intro meets_intro [where x = "exiting i (pc (owner i))" and j = BeforeJoin]) (use u md(2) f in auto)
  next
    case False
    then show ?thesis using r u by (intro meets_other [OF r(4)]) (auto simp: unchanged_def f)
  qed
qed simp_all

lemma join_read_inv:
  assumes inv: "process_inv owner s0 es s pc" and u: "pc u = JRead i" and p: "get_pcb i s = Some p"
  shows "process_inv owner s0 (es @ [Fetched i (exitcode p)]) s (pc(u := JRelease i (exitcode p)))"
proof (rule process_inv_step [OF inv])
  have o: "u = owner (parentID p)" using process_invD(3) [OF inv, of i u] u p by auto
  note md = meetsD [OF process_invD(5) [OF inv p]]
  have w: "exiting i (pc (owner i)) = Waiting" "sem_value (sems s (joinsem p)) = 0" "sem_value (sems s (exitsem p)) = 0"
    using md(1) o u by (cases "exiting i (pc (owner i))"; simp)+
  have ne: "owner i \<noteq> u" using w(1) u by auto
  show "rel_option same_block (get_pcb j s) (get_pcb j s)" for j by (cases "get_pcb j s") (simp_all add: same_block_def)
  show "\<exists>r. get_pcb j s = Some r \<and> u = owner (parentID r)" if "joining j (JRelease i (exitcode p)) \<noteq> NoJoin" for j
    using that p o by (auto split: if_splits)
  show "Exited j ec \<in> set es" if "Fetched i (exitcode p) = Fetched j ec" for j ec using that md(2) w(1) by auto
  show "meets owner (es @ [Fetched i (exitcode p)]) s (pc(u := JRelease i (exitcode p))) j r'"
    if r: "get_pcb j s = Some r" "get_pcb j s = Some r'" "same_block r' r" "meets owner es s pc j r" for j r r'
  proof (cases "j = i")
    case True
    then have e: "j = i" "r' = p" using r(2) p by simp_all
    have f: "fetched i (es @ [Fetched i (exitcode p)])" by (auto simp: fetched_def)
    show ?thesis unfolding e
      by (intro meets_intro [where x = Waiting and j = "Releasing (exitcode p)"]) (use o u w md(2,3) ne f in auto)
  next
    case False
    then show ?thesis using r u by (intro meets_other [OF r(4)]) (auto simp: unchanged_def fetched_def)
  qed
qed simp_all

lemma exit_call_inv:
  assumes inv: "process_inv owner s0 es s pc" and u: "pc u = User" "u = owner i" and p: "get_pcb i s = Some p"
  shows "process_inv owner s0 (es @ [Exited i ec]) (set_cell i (Live (p\<lparr>exitcode := ec\<rparr>)) s) (pc(u := XLock i))"
proof (rule process_inv_step [OF inv])
  let ?s = "set_cell i (Live (p\<lparr>exitcode := ec\<rparr>)) s"
  have f: "fetched j (es @ [Exited i ec]) = fetched j es" for j by (auto simp: fetched_def)
  show "rel_option same_block (get_pcb j ?s) (get_pcb j s)" for j
    using p by (cases "get_pcb j s") (auto simp: get_pcb_update [OF p] same_block_def)
  show "u = owner j \<and> get_pcb j s \<noteq> None" if "exiting j (XLock i) \<noteq> NoExit" for j using that p u(2) by (auto split: if_splits)
  show "meets owner (es @ [Exited i ec]) ?s (pc(u := XLock i)) j r'"
    if r: "get_pcb j s = Some r" "get_pcb j ?s = Some r'" "same_block r' r" "meets owner es s pc j r" for j r r'
  proof (cases "j = i")
    case True
    then have e: "j = i" "r = p" "r' = p\<lparr>exitcode := ec\<rparr>" using r(1,2) p get_pcb_update [OF p, of j] by simp_all
    note md = meetsD [OF r(4) [unfolded e]]
    show ?thesis unfolding e
      by (intro meets_intro [where x = BeforeExit and j = "joining i (pc (owner (parentID p)))"]) (use u md f in auto)
  next
    case False
    then show ?thesis using r u get_pcb_update [OF p, of j] by (intro meets_other [OF r(4)]) (auto simp: unchanged_def f)
  qed
qed simp_all

lemma FreeSpace_keeps:
  "FreeSpace t s = Some s' \<Longrightarrow> sems s' = sems s \<and> threads s' = threads s \<and> processID s' = processID s \<and> proc_table s' = proc_table s"
  by (auto simp: FreeSpace_def bind_eq_Some_conv split: option.splits)

lemma Thread_Finish_keeps:
  "Thread_Finish t s = Some s' \<Longrightarrow>
     sems s' = sems s \<and> (threads s' u \<noteq> None \<longrightarrow> threads s u \<noteq> None) \<and> processID s' = processID s \<and> proc_table s' = proc_table s"
  by (auto simp: Thread_Finish_def Finish_section_def Sleep_enter_Some split: if_splits)

lemma Remove_frees:
  assumes "PTable_Remove i s = Some (False, s')" "get_pcb i s = Some p"
  shows "sems s' = sems s" "\<And>t. threads s' t \<noteq> None \<Longrightarrow> threads s t \<noteq> None" "processID s' = processID s"
    "get_pcb j s' = (if j = i then None else get_pcb j s)"
proof -
  obtain b where b: "PCB_delete i (s\<lparr>proc_table := (proc_table s)\<lparr>ptab_bm := b\<rparr>\<rparr>) = Some (False, s')"
    using assms(1) by (auto simp: PTable_Remove_def Let_def bind_eq_Some_conv split: if_splits)
  let ?s1 = "set_cell i Freed (s\<lparr>proc_table := (proc_table s)\<lparr>ptab_bm := b\<rparr>\<rparr>)"
  from b obtain t s2 where 2: "FreeSpace t ?s1 = Some s2" "Thread_Finish t s2 = Some s'"
    by (auto simp: PCB_delete_def Let_def bind_eq_Some_conv split: option.splits)
  note k = FreeSpace_keeps [OF 2(1)] Thread_Finish_keeps [OF 2(2)]
  show "sems s' = sems s" "\<And>t. threads s' t \<noteq> None \<Longrightarrow> threads s t \<noteq> None" "processID s' = processID s" using k by simp_all
  have "proc_table s' = proc_table ?s1" using k by simp
  moreover have n: "0 \<le> i" "nat i < length (pcbs (proc_table s))" using assms(2) by (auto simp: get_pcb_def split: if_splits)
  ultimately show "get_pcb j s' = (if j = i then None else get_pcb j s)"
    by (auto simp: get_pcb_def nth_list_update nat_eq_iff)
qed

lemma exit_remove_inv:
  assumes inv: "process_inv owner s0 es s pc" and u: "pc u = XRemove i" and r: "PTable_Remove i s = Some (False, s')"
  shows "process_inv owner s0 (es @ [Removed i]) s' (pc(u := Gone))"
proof -
  note d = process_invD [OF inv]
  have o: "u = owner i" using d(1) [of i u] u by simp
  obtain p where p: "get_pcb i s = Some p" using d(2) [of i u] u by auto
  note f = Remove_frees [OF r p]
  have w: "joining i (pc (owner (parentID p))) = NoJoin" "fetched i es" using meetsD(1) [OF d(5) [OF p]] u o by simp_all
  have g: "fetched j (es @ [Removed i]) = fetched j es" for j by (auto simp: fetched_def)
  show ?thesis unfolding process_inv_def
  proof (intro conjI allI impI)
    show "processID s' = processID s0" using d(6) f(3) by simp
    show "threads s0 t \<noteq> None" if "threads s' t \<noteq> None" for t using d(7) [OF f(2) [OF that]] .
    show "t = owner j" if "exiting j ((pc(u := Gone)) t) \<noteq> NoExit" for t j using that d(1) [of j t] by (auto split: if_splits)
    show "get_pcb j s' \<noteq> None" if "exiting j ((pc(u := Gone)) t) \<noteq> NoExit" for t j
      using that d(1,2) [of j t] f(4) [of j] o by (cases "t = u") auto
    show "\<exists>p. get_pcb j s' = Some p \<and> t = owner (parentID p)" if j: "joining j ((pc(u := Gone)) t) \<noteq> NoJoin" for t j
    proof -
      have t: "joining j (pc t) \<noteq> NoJoin" using j by (cases "t = u") simp_all
      from d(3) [OF this] obtain b where b: "get_pcb j s = Some b" "t = owner (parentID b)" by blast
      have "j \<noteq> i" using w(1) b p t by auto
      then show ?thesis using b f(4) by simp
    qed
    fix j b assume b: "get_pcb j s' = Some b"
    then have bs: "j \<noteq> i" "get_pcb j s = Some b" using f(4) [of j] by (auto split: if_splits)
    show "\<exists>p0. get_pcb j s0 = Some p0 \<and> same_block b p0" using d(4) [OF bs(2)] .
    show "meets owner (es @ [Removed i]) s' (pc(u := Gone)) j b"
      using u bs(1) f(1) by (intro meets_other [OF d(5) [OF bs(2)]]) (auto simp: unchanged_def g same_block_def)
  next
    show "in_order (es @ [Removed i])" using d(8) w(2) by (intro in_order_snoc) auto
  qed
qed

text \<open>A piece that finds no block changes nothing.\<close>

lemma missing_inv:
  assumes inv: "process_inv owner s0 es s pc" and e: "\<not> well_defined e"
  shows "process_inv owner s0 (es @ [e]) s pc"
proof -
  have f: "fetched j (es @ [e]) = fetched j es" for j using e by (cases e) (auto simp: fetched_def)
  have "in_order (es @ [e])" using process_invD(8) [OF inv] e by (intro in_order_snoc) auto
  moreover have "meets owner (es @ [e]) s pc i p" if "meets owner es s pc i p" for i p
    using that f by (auto simp: meets_def Let_def)
  ultimately show ?thesis using inv unfolding process_inv_def by simp
qed

text \<open>Every step.\<close>

lemma joins_once_snoc: "joins_once (es @ [e]) \<Longrightarrow> joins_once es \<and> (\<forall>i. e = JoinCalled i \<longrightarrow> e \<notin> set es)"
  unfolding joins_once_def
proof (intro conjI allI impI)
  assume a: "\<forall>i. count_list (es @ [e]) (JoinCalled i) \<le> 1"
  show "count_list es (JoinCalled i) \<le> 1" for i using a [THEN spec, of i] by (simp split: if_splits)
  show "e \<notin> set es" if "e = JoinCalled i" for i using a [THEN spec, of i] that by (simp add: count_list_0_iff)
qed

lemma pass_inv:
  assumes "processes_ready owner s0" "process_inv owner s0 es s pc" "waits_at (pc u) s = Some (k, q)" "kstep (s, c) (Took k) (s', c')"
  shows "process_inv owner s0 (es @ [Silent]) s' (pc(u := q))"
proof (cases "pc u")
  case (JLock i)
  with assms(3) obtain b where b: "parent_block i s = Some b" "k = multex b" "q = JCount i" by (auto simp: bind_eq_Some_conv)
  show ?thesis by (rule multex_inv [OF assms(1,2) b(1) _ assms(4)]) (use b JLock in auto)
next
  case (XLock i)
  with assms(3) obtain b where b: "parent_block i s = Some b" "k = multex b" "q = XCount i" by (auto simp: bind_eq_Some_conv)
  show ?thesis by (rule multex_inv [OF assms(1,2) b(1) _ assms(4)]) (use b XLock in auto)
next
  case (JWait i)
  with assms show ?thesis by (auto simp: bind_eq_Some_conv intro: join_wait_inv)
next
  case (XWait i)
  with assms show ?thesis by (auto simp: bind_eq_Some_conv intro: exit_wait_inv)
qed (use assms(3) in simp_all)

lemma release_inv:
  assumes "processes_ready owner s0" "process_inv owner s0 es s pc" "signals_at (pc u) s = Some (k, q)" "kstep (s, c) (Signalled k t) (s', c')"
  shows "process_inv owner s0 (es @ [Silent]) s' (pc(u := q))"
proof (cases "pc u")
  case (JUnlock i)
  with assms(3) obtain b where b: "parent_block i s = Some b" "k = multex b" "q = JWait i" by (auto simp: bind_eq_Some_conv)
  show ?thesis by (rule multex_inv [OF assms(1,2) b(1) _ assms(4)]) (use b JUnlock in auto)
next
  case (XUnlock i)
  with assms(3) obtain b where b: "parent_block i s = Some b" "k = multex b" "q = XRelease i" by (auto simp: bind_eq_Some_conv)
  show ?thesis by (rule multex_inv [OF assms(1,2) b(1) _ assms(4)]) (use b XUnlock in auto)
next
  case (JRelease i ec)
  with assms show ?thesis by (auto simp: bind_eq_Some_conv intro: exit_release_inv)
next
  case (XRelease i)
  with assms show ?thesis by (auto simp: bind_eq_Some_conv intro: join_release_inv)
qed (use assms(3) in simp_all)

lemma same_block_numwait: "same_block (q\<lparr>numwait := n\<rparr>) q" "exitcode (q\<lparr>numwait := n\<rparr>) = exitcode q" "same_block q q"
  by (simp_all add: same_block_def)

lemma pstep_inv:
  assumes ready: "processes_ready owner s0" and inv: "process_inv owner s0 es s pc" and st: "pstep (s, c, pc) e (s', c', pc')" and once: "joins_once (es @ [e])"
  shows "process_inv owner s0 (es @ [e]) s' pc'"
  using st
proof (cases rule: pstep.cases)
  case (elsewhere ev)
  then show ?thesis using elsewhere_inv [OF inv] by simp
next
  case (pass k q)
  then show ?thesis using pass_inv [OF ready inv] by simp
next
  case (block k q)
  then show ?thesis using block_inv [OF inv] by simp
next
  case (release k q t)
  then show ?thesis using release_inv [OF ready inv] by simp
next
  case (join_call i p)
  then have h: "in_charge s c" "processID s (currentThread s) = parentID p" "e = JoinCalled i" by simp_all
  have "currentThread s = owner (parentID p)" using running_owner [OF ready inv h(1)] by (simp add: h(2))
  moreover have "JoinCalled i \<notin> set es" using joins_once_snoc [OF once] h(3) by simp
  ultimately show ?thesis using join_call_inv [OF inv, of "currentThread s" p i] join_call by simp
next
  case (join_count i p q)
  then show ?thesis using count_inv [OF inv, of "parentID p" q "q\<lparr>numwait := numwait q + 1\<rparr>"] by (simp add: same_block_numwait)
next
  case (join_read i ec)
  then show ?thesis using join_read_inv [OF inv, of "currentThread s" i] by (auto simp: GetExitCode_def)
next
  case (exit_call i ec)
  then have h: "in_charge s c" "processID s (currentThread s) = i" by simp_all
  have "currentThread s = owner i" using running_owner [OF ready inv h(1)] by (simp add: h(2))
  then show ?thesis using exit_call_inv [OF inv, of "currentThread s" i] exit_call by (auto simp: SetExitCode_def bind_eq_Some_conv)
next
  case (exit_count i p q)
  then show ?thesis
    using count_inv [OF inv, of "parentID p" q "if numwait q > 0 then q\<lparr>numwait := numwait q - 1\<rparr> else q" "XUnlock i" "currentThread s"]
    by (auto simp: same_block_numwait)
next
  case (exit_remove i)
  then show ?thesis using exit_remove_inv [OF inv] by simp
qed (use missing_inv [OF inv] in simp_all)

text \<open>When a block is missing: it was not there at the start, or its process was removed.\<close>

definition lost :: "nachos \<Rightarrow> process_event list \<Rightarrow> int \<Rightarrow> bool" where
  "lost s0 es i \<longleftrightarrow> get_pcb i s0 = None \<or> Removed i \<in> set es"

definition lost_inv :: "nachos \<Rightarrow> process_event list \<Rightarrow> nachos \<Rightarrow> bool" where
  "lost_inv s0 es s \<longleftrightarrow> (\<forall>i. get_pcb i s = None \<longrightarrow> lost s0 es i)
     \<and> (\<forall>es1 es2 i. es = es1 @ Dangling i # es2 \<longrightarrow> (\<exists>p0. get_pcb i s0 = Some p0 \<and> lost s0 es1 (parentID p0)))
     \<and> (\<forall>es1 es2 i. es = es1 @ NoBlock i # es2 \<longrightarrow> lost s0 es1 i)"

lemma pstep_lost:
  assumes inv: "process_inv owner s0 es s pc" and st: "pstep (s, c, pc) e (s', c', pc')" and i: "get_pcb i s' = None" "get_pcb i s \<noteq> None"
  shows "e = Removed i"
  using st
proof (cases rule: pstep.cases)
  case (elsewhere ev)
  with i show ?thesis using sem_step(1) [of s c ev s' c' i] by simp
next
  case (pass k q)
  with i show ?thesis using sem_step(1) [of s c "Took k" s' c' i] by simp
next
  case (block k q)
  with i show ?thesis using sem_step(1) [of s c "Slept k" s' c' i] by simp
next
  case (release k q t)
  with i show ?thesis using sem_step(1) [of s c "Signalled k t" s' c' i] by simp
next
  case (join_count j p q)
  with i show ?thesis using get_pcb_update [of "parentID p" s q i] by (auto split: if_splits)
next
  case (exit_call j ec)
  with i show ?thesis using get_pcb_update [of j s _ i] by (auto simp: SetExitCode_def bind_eq_Some_conv split: if_splits)
next
  case (exit_count j p q)
  with i show ?thesis using get_pcb_update [of "parentID p" s q i] by (auto split: if_splits)
next
  case (exit_remove j)
  then have "get_pcb j s \<noteq> None" using process_invD(2) [OF inv, of j "currentThread s"] by simp
  then obtain p where "get_pcb j s = Some p" by auto
  from Remove_frees(4) [OF _ this, of s' i] exit_remove i show ?thesis by (auto split: if_splits)
qed (use i in simp_all)

lemma misses_parent:
  assumes inv: "process_inv owner s0 es s pc" and m: "misses (pc t) s = Some i"
  shows "\<exists>p0. get_pcb i s0 = Some p0 \<and> get_pcb (parentID p0) s = None"
proof -
  have v: "exiting i (pc t) \<noteq> NoExit \<or> joining i (pc t) \<noteq> NoJoin" using m by (cases "pc t") (auto split: if_splits)
  then have "get_pcb i s \<noteq> None" using process_invD(2,3) [OF inv, of i t] by auto
  then obtain p where p: "get_pcb i s = Some p" by auto
  have "parent_block i s = None" using m p v by (cases "pc t") (auto split: if_splits)
  then have "get_pcb (parentID p) s = None" using p by (simp add: parent_block_def)
  moreover obtain p0 where "get_pcb i s0 = Some p0" "same_block p p0" using process_invD(4) [OF inv p] by blast
  ultimately show ?thesis by (auto simp: same_block_def)
qed

lemma lost_step:
  assumes l: "lost_inv s0 es s" and inv: "process_inv owner s0 es s pc" and st: "pstep (s, c, pc) e (s', c', pc')"
  shows "lost_inv s0 (es @ [e]) s'"
proof -
  have split: "(es2 = [] \<and> e = x \<and> es1 = es) \<or> (\<exists>es3. es = es1 @ x # es3)" if "es @ [e] = es1 @ x # es2" for es1 es2 x
    using that by (cases es2 rule: rev_cases) auto
  have "lost s0 (es @ [e]) i" if "get_pcb i s' = None" for i
  proof (cases "get_pcb i s = None")
    case True
    then have "lost s0 es i" using l by (simp add: lost_inv_def)
    then show ?thesis by (auto simp: lost_def)
  next
    case False
    then show ?thesis using pstep_lost [OF inv st that] by (simp add: lost_def)
  qed
  moreover have "\<exists>p0. get_pcb i s0 = Some p0 \<and> lost s0 es (parentID p0)" if "e = Dangling i" for i
    using st that l misses_parent [OF inv, of "currentThread s" i] by (cases rule: pstep.cases) (auto simp: lost_inv_def)
  moreover have "lost s0 es i" if "e = NoBlock i" for i
    using st that l by (cases rule: pstep.cases) (auto simp: lost_inv_def)
  ultimately show ?thesis using l split unfolding lost_inv_def by metis
qed

lemma process_inv_init:
  assumes "processes_ready owner s"
  shows "process_inv owner s [] s (\<lambda>_. User)"
  using assms by (auto simp: process_inv_def processes_ready_def meets_def fetched_def same_block_def in_order_def)

lemma psteps_inv:
  assumes "psteps x es y" "x = (s, c, \<lambda>_. User)" "processes_ready owner s" "joins_once es"
  shows "process_inv owner s es (fst y) (snd (snd y)) \<and> lost_inv s es (fst y)"
  using assms
proof (induction rule: psteps.induct)
  case (refl x)
  then show ?case by (simp add: process_inv_init lost_inv_def lost_def)
next
  case (step x es y e z)
  obtain s1 c1 pc1 s2 c2 pc2 where yz: "y = (s1, c1, pc1)" "z = (s2, c2, pc2)" by (cases y, cases z) auto
  have "joins_once es" using joins_once_snoc [OF step.prems(3)] by blast
  with step have inv: "process_inv owner s es s1 pc1" "lost_inv s es s1" by (simp_all add: yz)
  have st: "pstep (s1, c1, pc1) e (s2, c2, pc2)" using step.hyps(3) by (simp add: yz)
  show ?case using pstep_inv [OF step.prems(2) inv(1) st step.prems(3)] lost_step [OF inv(2,1) st] by (simp add: yz)
qed

section \<open>Parent and child meet\<close>

text \<open>C6. Join and exit meet. Take a fixed set of processes, none of which has started to join or exit, none created meanwhile, and any
  interleaving of the pieces of \<open>Join\<close> and \<open>Exit\<close> in which no process is joined twice, up to the first use of a block that is not there. A parent
  reads an exit code only after the child has set exactly this code, and a child is removed from the table only after its parent has read the
  code. A parent inside \<open>Join\<close> finds the control block of the child in the table with the semaphores it had at the start. When parent and child
  both wait, the semaphore of the parent is up, so they never wait for each other; and when the parent has returned from \<open>Join\<close>, the semaphore
  of a child that still waits is up. A missing block is used in the middle of a call only where the parent of the process was removed before it or never had one,
  and at the start of a call only for a number whose process was removed before or never existed. (\<open>second_join_dangles\<close> below shows that
  the restriction to one join per process is needed.)\<close>

theorem join_exit_rendezvous:
  assumes "processes_ready owner s" "psteps (s, c, \<lambda>_. User) es (s', c', pc)" "joins_once es"
  shows "(\<forall>es1 es2 i ec. es = es1 @ Fetched i ec # es2 \<longrightarrow> Exited i ec \<in> set es1)
    \<and> (\<forall>es1 es2 i. es = es1 @ Removed i # es2 \<longrightarrow> (\<exists>ec. Fetched i ec \<in> set es1))
    \<and> (\<forall>t i. joining i (pc t) \<noteq> NoJoin \<longrightarrow> (\<exists>p p0. get_pcb i s' = Some p \<and> get_pcb i s = Some p0 \<and> joinsem p = joinsem p0 \<and> exitsem p = exitsem p0))
    \<and> (\<forall>t u i p. pc t = JWait i \<and> pc u = XWait i \<and> get_pcb i s' = Some p \<longrightarrow> sem_value (sems s' (joinsem p)) = 1)
    \<and> (\<forall>u i p ec. pc u = XWait i \<and> get_pcb i s' = Some p \<and> Fetched i ec \<in> set es \<and> (\<forall>t. joining i (pc t) = NoJoin) \<longrightarrow>
         sem_value (sems s' (exitsem p)) = 1)
    \<and> (\<forall>es1 es2 i. es = es1 @ Dangling i # es2 \<longrightarrow>
         (\<exists>p0. get_pcb i s = Some p0 \<and> (get_pcb (parentID p0) s = None \<or> Removed (parentID p0) \<in> set es1)))
    \<and> (\<forall>es1 es2 i. es = es1 @ NoBlock i # es2 \<longrightarrow> get_pcb i s = None \<or> Removed i \<in> set es1)"
proof -
  have inv: "process_inv owner s es s' pc" and l: "lost_inv s es s'" using psteps_inv [OF assms(2) HOL.refl assms(1,3)] by simp_all
  note d = process_invD [OF inv]
  have m: "rendezvous Waiting (joining i (pc (owner (parentID p)))) (sem_value (sems s' (joinsem p))) (sem_value (sems s' (exitsem p))) (fetched i es) (exitcode p)"
    if "pc u = XWait i" "get_pcb i s' = Some p" for u i p
    using meetsD(1) [OF d(5) [OF that(2)]] d(1) [of i u] that(1) by simp
  have J: "\<forall>t u i p. pc t = JWait i \<and> pc u = XWait i \<and> get_pcb i s' = Some p \<longrightarrow> sem_value (sems s' (joinsem p)) = 1"
  proof (intro allI impI, elim conjE)
    fix t u i p assume h: "pc t = JWait i" "pc u = XWait i" "get_pcb i s' = Some p"
    then have "pc (owner (parentID p)) = JWait i" using d(3) [of i t] by simp
    with m [OF h(2,3)] show "sem_value (sems s' (joinsem p)) = 1" by simp
  qed
  have X: "\<forall>u i p ec. pc u = XWait i \<and> get_pcb i s' = Some p \<and> Fetched i ec \<in> set es \<and> (\<forall>t. joining i (pc t) = NoJoin) \<longrightarrow>
      sem_value (sems s' (exitsem p)) = 1"
  proof (intro allI impI, elim conjE)
    fix u i p ec assume h: "pc u = XWait i" "get_pcb i s' = Some p" "Fetched i ec \<in> set es" "\<forall>t. joining i (pc t) = NoJoin"
    have "fetched i es" using h(3) by (auto simp: fetched_def)
    with m [OF h(1,2)] h(4) show "sem_value (sems s' (exitsem p)) = 1" by simp
  qed
  have B: "\<forall>t i. joining i (pc t) \<noteq> NoJoin \<longrightarrow> (\<exists>p p0. get_pcb i s' = Some p \<and> get_pcb i s = Some p0 \<and> joinsem p = joinsem p0 \<and> exitsem p = exitsem p0)"
  proof (intro allI impI)
    fix t i assume "joining i (pc t) \<noteq> NoJoin"
    from d(3) [OF this] obtain p where p: "get_pcb i s' = Some p" by blast
    with d(4) [OF p] show "\<exists>p p0. get_pcb i s' = Some p \<and> get_pcb i s = Some p0 \<and> joinsem p = joinsem p0 \<and> exitsem p = exitsem p0"
      by (auto simp: same_block_def)
  qed
  note o = d(8) [unfolded in_order_def fetched_def] and k = l [unfolded lost_inv_def lost_def]
  show ?thesis
    by (intro conjI) (rule conjunct1 [OF o] conjunct2 [OF o] B J X conjunct1 [OF conjunct2 [OF k]] conjunct2 [OF conjunct2 [OF k]])+
qed

text \<open>
  A run: thread 1 exits with 7 and waits, thread 0 joins it and reads the code, thread 1 is released and removed. A scene gives the running thread,
  the ready list, the two states, the semaphores 12 (lock of the parent's block), 20 and 21 (of the child) and the two control blocks.
\<close>

definition sample_thread :: "ThreadStatus \<Rightarrow> Thread" where
  "sample_thread st = (Thread_new (\<lambda>_. 0))\<lparr>tstatus := st, started := True\<rparr>"

definition parent_pcb :: "int \<Rightarrow> PCB" where
  "parent_pcb n = \<lparr>joinsem = 10, exitsem = 11, multex = 12, exitcode = 0, numwait = n, parentID = -1, pcb_filename = None, pcb_thread = None\<rparr>"

definition child_pcb :: "int \<Rightarrow> PCB" where
  "child_pcb ec = \<lparr>joinsem = 20, exitsem = 21, multex = 22, exitcode = ec, numwait = 0, parentID = 0, pcb_filename = None, pcb_thread = Some 1\<rparr>"

definition scene :: "nat \<Rightarrow> nat list \<Rightarrow> ThreadStatus \<Rightarrow> ThreadStatus \<Rightarrow> int \<Rightarrow> int \<Rightarrow> int \<Rightarrow> nat list \<Rightarrow> int \<Rightarrow> int \<Rightarrow> nachos" where
  "scene cur rl a b m j e q n ec = (sample_kernel (the (STable_new [0])))\<lparr>level := IntOff, currentThread := cur, readyList := rl,
     threads := (\<lambda>t. if t = 0 then Some (sample_thread a) else if t = 1 then Some (sample_thread b) else None),
     sems := (\<lambda>k. if k = 12 then Semaphore_new m else if k = 20 then Semaphore_new j else if k = 21 then \<lparr>sem_value = e, sem_queue = q\<rparr> else Semaphore_new 0),
     processID := int, proc_table := \<lparr>ptab_bm = \<lparr>numBits = 10, numWords = 1, map_words = [3]\<rparr>,
       pcbs = [Live (parent_pcb n), Live (child_pcb ec)], psize = 10, bmsem = 6\<rparr>\<rparr>"

definition stands :: "point \<Rightarrow> point \<Rightarrow> nat \<Rightarrow> point" where
  "stands a b = (\<lambda>t. if t = 0 then a else if t = 1 then b else User)"

lemma stands_simps [simp]: "stands a b 0 = a" "stands a b (Suc 0) = b" "(stands a b)(0 := x) = stands x b" "(stands a b)(Suc 0 := x) = stands a x"
  by (auto simp: stands_def)

lemma scene_fields [simp]: "currentThread (scene cur rl a b m j e q n ec) = cur" "readyList (scene cur rl a b m j e q n ec) = rl"
  "processID (scene cur rl a b m j e q n ec) = int" "level (scene cur rl a b m j e q n ec) = IntOff"
  "threads (scene cur rl a b m j e q n ec) 0 = Some (sample_thread a)" "threads (scene cur rl a b m j e q n ec) (Suc 0) = Some (sample_thread b)"
  "sems (scene cur rl a b m j e q n ec) 12 = Semaphore_new m" "sems (scene cur rl a b m j e q n ec) 20 = Semaphore_new j"
  "sems (scene cur rl a b m j e q n ec) 21 = \<lparr>sem_value = e, sem_queue = q\<rparr>"
  "threadToBeDestroyed (scene cur rl a b m j e q n ec) = None"
  "get_pcb 0 (scene cur rl a b m j e q n ec) = Some (parent_pcb n)" "get_pcb 1 (scene cur rl a b m j e q n ec) = Some (child_pcb ec)"
  by (simp_all add: scene_def get_pcb_def sample_kernel_def devices.extend_def sample_quiet_def sample_devices_def boot_def hw.extend_def)

lemma scene_running: "running (scene 0 rl RUNNING b m j e q n ec)" "running (scene (Suc 0) rl a RUNNING m j e q n ec)"
  "\<not> running (scene (Suc 0) rl a BLOCKED m j e q n ec)"
  by (simp_all add: running_def sample_thread_def)

lemma scene_P:
  "m \<noteq> 0 \<Longrightarrow> P_section 12 (scene cur rl a b m j e q n ec) = Some (True, scene cur rl a b (m - 1) j e q n ec)"
  "j \<noteq> 0 \<Longrightarrow> P_section 20 (scene cur rl a b m j e q n ec) = Some (True, scene cur rl a b m (j - 1) e q n ec)"
  "e \<noteq> 0 \<Longrightarrow> P_section 21 (scene cur rl a b m j e q n ec) = Some (True, scene cur rl a b m j (e - 1) q n ec)"
  "P_section 21 (scene (Suc 0) rl a b m j 0 q n ec) = Some (False, scene (Suc 0) rl a BLOCKED m j 0 (q @ [Suc 0]) n ec)"
  by (simp_all add: P_section_def Sleep_enter_Some bind_eq_Some_conv set_sem_def Semaphore_new_def)
    (simp_all add: scene_def fun_eq_iff sample_thread_def Semaphore_new_def)

lemma scene_V:
  "V_section 12 (scene cur rl a b m j e q n ec) = Some (scene cur rl a b (m + 1) j e q n ec)"
  "V_section 20 (scene cur rl a b m j e q n ec) = Some (scene cur rl a b m (j + 1) e q n ec)"
  "V_section 21 (scene cur rl a b m j e [Suc 0] n ec) = Some (scene cur (rl @ [Suc 0]) a READY m j (e + 1) [] n ec)"
  by (simp_all add: V_section_def ReadyToRun_Some bind_eq_Some_conv set_sem_def Semaphore_new_def)
    (simp_all add: scene_def fun_eq_iff sample_thread_def Semaphore_new_def)

lemma scene_switch:
  "Sleep_round (scene (Suc 0) [0] READY b m j e q n ec) = Some (True, scene 0 [] RUNNING b m j e q n ec)"
  "Yield_section (scene 0 [Suc 0] RUNNING READY m j e q n ec) = Some (scene (Suc 0) [0] READY RUNNING m j e q n ec)"
  by (simp_all add: Sleep_round_def Yield_section_def FindNextToRun_def Run_def save_current_def CheckOverflow_def delete_carcass_def
      restore_current_def set_thread_def ReadyToRun_def setThreadStatus_def sample_thread_def Thread_new_def Let_def)
    (simp_all add: scene_def fun_eq_iff sample_thread_def Thread_new_def)

lemma scene_cells:
  "set_cell 0 (Live (parent_pcb n')) (scene cur rl a b m j e q n ec) = scene cur rl a b m j e q n' ec"
  "set_cell 1 (Live (child_pcb ec')) (scene cur rl a b m j e q n ec) = scene cur rl a b m j e q n ec'"
  by (simp_all add: set_cell_def scene_def)

lemma scene_ready: "processes_ready nat (scene 1 [0] READY RUNNING 1 0 0 [] 0 0)"
proof -
  have g: "get_pcb i (scene 1 [0] READY RUNNING 1 0 0 [] 0 0) = Some p \<Longrightarrow> (i = 0 \<and> p = parent_pcb 0) \<or> (i = 1 \<and> p = child_pcb 0)" for i p
    by (auto simp: get_pcb_def scene_def nth_Cons split: if_splits nat.splits)
  show ?thesis unfolding processes_ready_def
  proof (intro conjI allI impI)
    show "nat (processID (scene 1 [0] READY RUNNING 1 0 0 [] 0 0) t) = t" for t by simp
    fix i p assume "get_pcb i (scene 1 [0] READY RUNNING 1 0 0 [] 0 0) = Some p"
    from g [OF this] show "sem_value (sems (scene 1 [0] READY RUNNING 1 0 0 [] 0 0) (joinsem p)) = 0"
      "sem_value (sems (scene 1 [0] READY RUNNING 1 0 0 [] 0 0) (exitsem p)) = 0"
      by (auto simp: parent_pcb_def child_pcb_def Semaphore_new_def) (simp_all add: scene_def Semaphore_new_def)
  next
    fix i p j q assume "get_pcb i (scene 1 [0] READY RUNNING 1 0 0 [] 0 0) = Some p" "get_pcb j (scene 1 [0] READY RUNNING 1 0 0 [] 0 0) = Some q"
    then show "joinsem p \<noteq> exitsem q" "joinsem p \<noteq> multex q" "exitsem p \<noteq> multex q" "i \<noteq> j \<Longrightarrow> joinsem p \<noteq> joinsem q"
      "i \<noteq> j \<Longrightarrow> exitsem p \<noteq> exitsem q" using g [of i p] g [of j q] by (auto simp: parent_pcb_def child_pcb_def)
  qed
qed

text \<open>The pieces of the run. \<open>waiting c\<close> is where thread 1 stands in the scheduler.\<close>

definition waiting :: "continuation \<Rightarrow> nat \<Rightarrow> continuation" where
  "waiting k = (\<lambda>t. if t = 1 then k else Outside)"

lemma waiting_simps [simp]: "waiting k (Suc 0) = k" "waiting k 0 = Outside" "(waiting k)(Suc 0 := k') = waiting k'" "(waiting k)(0 := Outside) = waiting k"
  by (auto simp: waiting_def)

lemmas piece = in_charge_def scene_running parent_block_def

lemma sample_blocks [simp]: "joinsem (child_pcb ec) = 20" "exitsem (child_pcb ec) = 21" "parentID (child_pcb ec) = 0" "multex (parent_pcb n) = 12"
  "exitcode (child_pcb ec) = ec" "numwait (parent_pcb n) = n" "(child_pcb ec)\<lparr>exitcode := ec'\<rparr> = child_pcb ec'" "(parent_pcb n)\<lparr>numwait := n'\<rparr> = parent_pcb n'"
  "pcb_thread (child_pcb ec) = Some (Suc 0)"
  by (simp_all add: child_pcb_def parent_pcb_def)

lemma child_exits:
  "psteps (scene 1 [0] READY RUNNING 1 0 0 [] 0 0, waiting Outside, stands User User) [Exited 1 7, Silent, Silent, Silent, Silent, Silent]
     (scene 1 [0] READY BLOCKED 1 1 0 [1] 0 7, waiting (InP 21), stands User (XWait 1))"
proof -
  let ?S = "\<lambda>m j. scene 1 [0] READY RUNNING m j 0 [] 0 7" and ?c = "waiting Outside"
  have ex: "IsExist 1 (scene 1 [0] READY RUNNING 1 0 0 [] 0 0) = Some True"
    by (simp add: IsExist_def scene_def Test_def array_get_def BitsInWord_def)
  have p1: "pstep (scene 1 [0] READY RUNNING 1 0 0 [] 0 0, ?c, stands User User) (Exited 1 7) (?S 1 0, ?c, stands User (XLock 1))"
    using exit_call [of "scene 1 [0] READY RUNNING 1 0 0 [] 0 0" ?c "stands User User" 1 7 "?S 1 0"] ex
    by (simp add: piece SetExitCode_def scene_cells)
  have k2: "kstep (?S 1 0, ?c) (Took 12) (?S 0 0, ?c)"
    using take [of "?S 1 0" ?c 12 "?S 0 0"] by (simp add: scene_running scene_P)
  have p2: "pstep (?S 1 0, ?c, stands User (XLock 1)) Silent (?S 0 0, ?c, stands User (XCount 1))"
    using pass [OF _ k2, of "stands User (XLock 1)" "XCount 1"] by (simp add: piece)
  have p3: "pstep (?S 0 0, ?c, stands User (XCount 1)) Silent (?S 0 0, ?c, stands User (XUnlock 1))"
    using exit_count [of "?S 0 0" ?c "stands User (XCount 1)" 1 "child_pcb 7" "parent_pcb 0"] scene_cells(1) [of 0]
    by (simp add: piece)
  have k4: "kstep (?S 0 0, ?c) (Signalled 12 None) (?S 1 0, ?c)"
    using signal [of "?S 0 0" ?c 12 "?S 1 0"] by (simp add: scene_running scene_V Semaphore_new_def)
  have p4: "pstep (?S 0 0, ?c, stands User (XUnlock 1)) Silent (?S 1 0, ?c, stands User (XRelease 1))"
    using release [OF _ _ k4, of "stands User (XUnlock 1)" "XRelease 1"] by (simp add: piece)
  have k5: "kstep (?S 1 0, ?c) (Signalled 20 None) (?S 1 1, ?c)"
    using signal [of "?S 1 0" ?c 20 "?S 1 1"] by (simp add: scene_running scene_V Semaphore_new_def)
  have p5: "pstep (?S 1 0, ?c, stands User (XRelease 1)) Silent (?S 1 1, ?c, stands User (XWait 1))"
    using release [OF _ _ k5, of "stands User (XRelease 1)" "XWait 1"] by (simp add: piece)
  have k6: "kstep (?S 1 1, ?c) (Slept 21) (scene 1 [0] READY BLOCKED 1 1 0 [1] 0 7, waiting (InP 21))"
    using sleep [of "?S 1 1" ?c 21 "scene 1 [0] READY BLOCKED 1 1 0 [1] 0 7"] by (simp add: scene_running scene_P)
  have p6: "pstep (?S 1 1, ?c, stands User (XWait 1)) Silent (scene 1 [0] READY BLOCKED 1 1 0 [1] 0 7, waiting (InP 21), stands User (XWait 1))"
    using block [OF _ k6, of "stands User (XWait 1)" "XRemove 1"] by (simp add: piece)
  show ?thesis using step [OF step [OF step [OF step [OF step [OF step [OF psteps.refl _ p1] _ p2] _ p3] _ p4] _ p5] _ p6] by simp
qed

lemma parent_joins:
  assumes "psteps x es (scene 1 [0] READY BLOCKED 1 1 0 [1] 0 7, waiting (InP 21), stands User (XWait 1))" "list_all well_defined es"
  shows "psteps x (es @ [Silent, JoinCalled 1, Silent, Silent, Silent, Silent, Fetched 1 7, Silent])
     (scene 0 [1] RUNNING READY 1 0 1 [] 1 7, waiting (InP 21), stands User (XWait 1))"
proof -
  let ?S = "\<lambda>m j n. scene 0 [] RUNNING BLOCKED m j 0 [1] n 7" and ?c = "waiting (InP 21)" and ?p = "\<lambda>q. stands q (XWait 1)"
  have k0: "kstep (scene 1 [0] READY BLOCKED 1 1 0 [1] 0 7, ?c) (Switched 0) (?S 1 1 0, ?c)"
    using switch [of "scene 1 [0] READY BLOCKED 1 1 0 [1] 0 7" 0 "[]" "?S 1 1 0"] by (simp add: scene_running scene_switch)
  have p0: "pstep (scene 1 [0] READY BLOCKED 1 1 0 [1] 0 7, ?c, ?p User) Silent (?S 1 1 0, ?c, ?p User)"
    using elsewhere [OF k0] by simp
  have p1: "pstep (?S 1 1 0, ?c, ?p User) (JoinCalled 1) (?S 1 1 0, ?c, ?p (JLock 1))"
    using join_call [of "?S 1 1 0" ?c "?p User" 1 "child_pcb 7"] by (simp add: piece MAX_PROCESS_def)
  have k2: "kstep (?S 1 1 0, ?c) (Took 12) (?S 0 1 0, ?c)"
    using take [of "?S 1 1 0" ?c 12 "?S 0 1 0"] by (simp add: scene_running scene_P)
  have p2: "pstep (?S 1 1 0, ?c, ?p (JLock 1)) Silent (?S 0 1 0, ?c, ?p (JCount 1))"
    using pass [OF _ k2, of "?p (JLock 1)" "JCount 1"] by (simp add: piece)
  have p3: "pstep (?S 0 1 0, ?c, ?p (JCount 1)) Silent (?S 0 1 1, ?c, ?p (JUnlock 1))"
    using join_count [of "?S 0 1 0" ?c "?p (JCount 1)" 1 "child_pcb 7" "parent_pcb 0"] by (simp add: piece scene_cells)
  have k4: "kstep (?S 0 1 1, ?c) (Signalled 12 None) (?S 1 1 1, ?c)"
    using signal [of "?S 0 1 1" ?c 12 "?S 1 1 1"] by (simp add: scene_running scene_V Semaphore_new_def)
  have p4: "pstep (?S 0 1 1, ?c, ?p (JUnlock 1)) Silent (?S 1 1 1, ?c, ?p (JWait 1))"
    using release [OF _ _ k4, of "?p (JUnlock 1)" "JWait 1"] by (simp add: piece)
  have k5: "kstep (?S 1 1 1, ?c) (Took 20) (?S 1 0 1, ?c)"
    using take [of "?S 1 1 1" ?c 20 "?S 1 0 1"] by (simp add: scene_running scene_P)
  have p5: "pstep (?S 1 1 1, ?c, ?p (JWait 1)) Silent (?S 1 0 1, ?c, ?p (JRead 1))"
    using pass [OF _ k5, of "?p (JWait 1)" "JRead 1"] by (simp add: piece)
  have p6: "pstep (?S 1 0 1, ?c, ?p (JRead 1)) (Fetched 1 7) (?S 1 0 1, ?c, ?p (JRelease 1 7))"
    using join_read [of "?S 1 0 1" ?c "?p (JRead 1)" 1 7] by (simp add: piece GetExitCode_def)
  have k7: "kstep (?S 1 0 1, ?c) (Signalled 21 (Some 1)) (scene 0 [1] RUNNING READY 1 0 1 [] 1 7, ?c)"
    using signal [of "?S 1 0 1" ?c 21 "scene 0 [1] RUNNING READY 1 0 1 [] 1 7"] by (simp add: scene_running scene_V)
  have p7: "pstep (?S 1 0 1, ?c, ?p (JRelease 1 7)) Silent (scene 0 [1] RUNNING READY 1 0 1 [] 1 7, ?c, ?p User)"
    using release [OF _ _ k7, of "?p (JRelease 1 7)" User] by (simp add: piece)
  show ?thesis using step [OF step [OF step [OF step [OF step [OF step [OF step [OF step [OF assms(1) _ p0] _ p1] _ p2] _ p3] _ p4] _ p5] _ p6] _ p7] assms(2) by simp
qed

lemma child_is_removed:
  assumes "psteps x es (scene 0 [1] RUNNING READY 1 0 1 [] n 7, waiting (InP 21), stands q (XWait 1))" "list_all well_defined es"
  shows "\<exists>s'. psteps x (es @ [Silent, Silent, Removed 1]) (s', waiting Finishing, stands q Gone) \<and> get_pcb 1 s' = None"
proof -
  let ?S = "\<lambda>e. scene 1 [0] READY RUNNING 1 0 e [] n 7" and ?p = "stands q"
  have k0: "kstep (scene 0 [1] RUNNING READY 1 0 1 [] n 7, waiting (InP 21)) (Yielded 1 0) (?S 1, waiting (InP 21))"
    using yield [of "scene 0 [1] RUNNING READY 1 0 1 [] n 7" "waiting (InP 21)" 1 "[]" "?S 1"] by (simp add: scene_running scene_switch)
  have p0: "pstep (scene 0 [1] RUNNING READY 1 0 1 [] n 7, waiting (InP 21), ?p (XWait 1)) Silent (?S 1, waiting (InP 21), ?p (XWait 1))"
    using elsewhere [OF k0] by simp
  have k1: "kstep (?S 1, waiting (InP 21)) (Took 21) (?S 0, waiting Outside)"
    using take [of "?S 1" "waiting (InP 21)" 21 "?S 0"] by (simp add: scene_running scene_P)
  have p1: "pstep (?S 1, waiting (InP 21), ?p (XWait 1)) Silent (?S 0, waiting Outside, ?p (XRemove 1))"
    using pass [OF _ k1, of "?p (XWait 1)" "XRemove 1"] by (simp add: piece)
  have "\<exists>s'. PTable_Remove 1 (?S 0) = Some (False, s')"
    by (simp add: PTable_Remove_def Clear_def scene_def array_get_def array_set_def BitsInWord_def PCB_delete_def get_pcb_def set_cell_def
      FreeSpace_def Thread_Finish_def Finish_section_def Sleep_enter_Some sample_thread_def Thread_new_def bind_eq_Some_conv)
  then obtain s' where r: "PTable_Remove 1 (?S 0) = Some (False, s')" ..
  have "get_pcb 1 s' = None" using Remove_frees(4) [OF r, of "child_pcb 7" 1] by simp
  moreover have p2: "pstep (?S 0, waiting Outside, ?p (XRemove 1)) (Removed 1) (s', waiting Finishing, ?p Gone)"
    using exit_remove [of "?S 0" "waiting Outside" "?p (XRemove 1)" 1 s'] r by (simp add: piece)
  ultimately show ?thesis using step [OF step [OF step [OF assms(1) _ p0] _ p1] _ p2] assms(2) by auto
qed

lemma child_is_joined:
  "psteps (scene 1 [0] READY RUNNING 1 0 0 [] 0 0, waiting Outside, \<lambda>_. User)
     [Exited 1 7, Silent, Silent, Silent, Silent, Silent, Silent, JoinCalled 1, Silent, Silent, Silent, Silent, Fetched 1 7, Silent]
     (scene 0 [1] RUNNING READY 1 0 1 [] 1 7, waiting (InP 21), stands User (XWait 1))"
proof -
  have u: "stands User User = (\<lambda>_. User)" by (auto simp: stands_def)
  from parent_joins [OF child_exits] show ?thesis unfolding u by simp
qed

definition meeting :: "process_event list" where
  "meeting = [Exited 1 7] @ replicate 6 Silent @ [JoinCalled 1] @ replicate 4 Silent @ [Fetched 1 7] @ replicate 3 Silent @ [Removed 1]"

theorem join_exit_rendezvous_witness:
  "\<exists>c y. psteps (scene 1 [0] READY RUNNING 1 0 0 [] 0 0, c, \<lambda>_. User) meeting y \<and> (\<exists>ec. Fetched 1 ec \<in> set (butlast meeting) \<and> Exited 1 ec \<in> set meeting)"
proof -
  have e: "[Exited 1 7, Silent, Silent, Silent, Silent, Silent, Silent, JoinCalled 1, Silent, Silent, Silent, Silent, Fetched 1 7, Silent]
      @ [Silent, Silent, Removed 1] = meeting" by (simp add: meeting_def numeral_eq_Suc)
  have "\<exists>s'. psteps (scene 1 [0] READY RUNNING 1 0 0 [] 0 0, waiting Outside, \<lambda>_. User) meeting (s', waiting Finishing, stands User Gone) \<and> get_pcb 1 s' = None"
    using child_is_removed [OF child_is_joined] unfolding e by simp
  then obtain s' c' pc where run: "psteps (scene 1 [0] READY RUNNING 1 0 0 [] 0 0, waiting Outside, \<lambda>_. User) meeting (s', c', pc)" by blast
  have "joins_once meeting" by (simp add: joins_once_def meeting_def numeral_eq_Suc)
  note r = join_exit_rendezvous [OF scene_ready run this]
  have split: "meeting = butlast meeting @ Removed 1 # []" by (simp add: meeting_def numeral_eq_Suc)
  from conjunct1 [OF conjunct2 [OF r]] split obtain ec where f: "Fetched 1 ec \<in> set (butlast meeting)" by blast
  then obtain es1 es2 where es: "meeting = es1 @ Fetched 1 ec # es2" using split by (metis in_set_butlastD split_list)
  have "Exited 1 ec \<in> set es1" using conjunct1 [OF r] es by blast
  then have "Exited 1 ec \<in> set meeting" by (simp add: es)
  with f run show ?thesis by blast
qed

text \<open>
  Joining a child twice. A second \<open>Join\<close> is accepted while the child still waits in \<^verbatim>\<open>ExitWait\<close>; the child then removes its control block,
  and the parent is left at the semaphore of a block that is no longer there.
\<close>

lemma joins_again:
  assumes "psteps x es (scene 0 [1] RUNNING READY 1 0 1 [] 1 7, waiting (InP 21), stands User (XWait 1))" "list_all well_defined es"
  shows "psteps x (es @ [JoinCalled 1, Silent, Silent, Silent]) (scene 0 [1] RUNNING READY 1 0 1 [] 2 7, waiting (InP 21), stands (JWait 1) (XWait 1))"
proof -
  let ?S = "\<lambda>m n. scene 0 [1] RUNNING READY m 0 1 [] n 7" and ?c = "waiting (InP 21)" and ?p = "\<lambda>q. stands q (XWait 1)"
  have p1: "pstep (?S 1 1, ?c, ?p User) (JoinCalled 1) (?S 1 1, ?c, ?p (JLock 1))"
    using join_call [of "?S 1 1" ?c "?p User" 1 "child_pcb 7"] by (simp add: piece MAX_PROCESS_def)
  have k2: "kstep (?S 1 1, ?c) (Took 12) (?S 0 1, ?c)"
    using take [of "?S 1 1" ?c 12 "?S 0 1"] by (simp add: scene_running scene_P)
  have p2: "pstep (?S 1 1, ?c, ?p (JLock 1)) Silent (?S 0 1, ?c, ?p (JCount 1))"
    using pass [OF _ k2, of "?p (JLock 1)" "JCount 1"] by (simp add: piece)
  have p3: "pstep (?S 0 1, ?c, ?p (JCount 1)) Silent (?S 0 2, ?c, ?p (JUnlock 1))"
    using join_count [of "?S 0 1" ?c "?p (JCount 1)" 1 "child_pcb 7" "parent_pcb 1"] by (simp add: piece scene_cells)
  have k4: "kstep (?S 0 2, ?c) (Signalled 12 None) (?S 1 2, ?c)"
    using signal [of "?S 0 2" ?c 12 "?S 1 2"] by (simp add: scene_running scene_V Semaphore_new_def)
  have p4: "pstep (?S 0 2, ?c, ?p (JUnlock 1)) Silent (?S 1 2, ?c, ?p (JWait 1))"
    using release [OF _ _ k4, of "?p (JUnlock 1)" "JWait 1"] by (simp add: piece)
  show ?thesis using step [OF step [OF step [OF step [OF assms(1) _ p1] _ p2] _ p3] _ p4] assms(2) by simp
qed

theorem second_join_dangles:
  "\<exists>s owner c es s' c' pc. processes_ready owner s \<and> psteps (s, c, \<lambda>_. User) es (s', c', pc) \<and> Removed 1 \<in> set es
     \<and> pc 0 = JWait 1 \<and> get_pcb 1 s' = None \<and> misses (pc 0) s' = Some 1"
proof -
  let ?x = "(scene 1 [0] READY RUNNING 1 0 0 [] 0 0, waiting Outside, \<lambda>_. User)"
  obtain es where "psteps ?x es (scene 0 [1] RUNNING READY 1 0 1 [] 2 7, waiting (InP 21), stands (JWait 1) (XWait 1))" "list_all well_defined es"
  proof
    show "psteps ?x ([Exited 1 7, Silent, Silent, Silent, Silent, Silent, Silent, JoinCalled 1, Silent, Silent, Silent, Silent, Fetched 1 7, Silent]
        @ [JoinCalled 1, Silent, Silent, Silent]) (scene 0 [1] RUNNING READY 1 0 1 [] 2 7, waiting (InP 21), stands (JWait 1) (XWait 1))"
      by (rule joins_again [OF child_is_joined]) simp
  qed simp
  from child_is_removed [OF this] obtain s' where
    "psteps ?x (es @ [Silent, Silent, Removed 1]) (s', waiting Finishing, stands (JWait 1) Gone)" "get_pcb 1 s' = None" by blast
  moreover have "Removed 1 \<in> set (es @ [Silent, Silent, Removed 1])" "stands (JWait 1) Gone 0 = JWait 1" by simp_all
  ultimately show ?thesis using scene_ready by (metis misses.simps(4))
qed

end
