(* ===== verification/Syscalls.thy ===== *)
theory Syscalls
  imports Process_Table
begin

text \<open>
  userprog/exception.cc and the codes of userprog/syscall.h: the entry of the kernel from user programs, with every system call.

  \<open>ExceptionHandler\<close> takes the kernel state with the registers of the calling program in \<open>mach\<close>. Its result is \<open>Halts s\<close> when the call
  shuts the machine down, \<open>Returns True s\<close> when it returns to the user program, and \<open>Returns False s\<close> when the calling thread has finished.
  \<open>None\<close> is undefined behaviour of the C++ program or a failed assertion. What the call leaves to its surroundings is the record
  \<open>unknowns\<close>: the yield at the end of a time slice, the other threads, and the values of memory that the code reads without having written it.
  Memory allocation succeeds. Messages printed on the host's terminal are not part of the state; the simulated console's display is.
\<close>

section \<open>Parameters\<close>

record unknowns =
  do_yield :: "nachos \<Rightarrow> nachos option"
  other_threads :: "nat \<Rightarrow> nachos \<Rightarrow> (unit, nachos) outcome option"
  stale_name :: "byte list"
  new_registers :: "nat \<Rightarrow> word32"
  local_ch :: byte
  flow_off :: "int \<Rightarrow> int"
  left_over :: int

definition MaxFileLength :: int where "MaxFileLength = 32"
definition MaxBufferSize :: int where "MaxBufferSize = 255"

definition SC_Halt :: int where "SC_Halt = 0"
definition SC_Exit :: int where "SC_Exit = 1"
definition SC_Exec :: int where "SC_Exec = 2"
definition SC_Join :: int where "SC_Join = 3"
definition SC_Create :: int where "SC_Create = 4"
definition SC_Open :: int where "SC_Open = 5"
definition SC_Read :: int where "SC_Read = 6"
definition SC_Write :: int where "SC_Write = 7"
definition SC_Close :: int where "SC_Close = 8"
definition SC_ReadInt :: int where "SC_ReadInt = 11"
definition SC_PrintInt :: int where "SC_PrintInt = 12"
definition SC_ReadChar :: int where "SC_ReadChar = 13"
definition SC_PrintChar :: int where "SC_PrintChar = 14"
definition SC_ReadString :: int where "SC_ReadString = 15"
definition SC_PrintString :: int where "SC_PrintString = 16"
definition SC_CreateSemaphore :: int where "SC_CreateSemaphore = 17"
definition SC_Up :: int where "SC_Up = 18"
definition SC_Down :: int where "SC_Down = 19"
definition SC_Seek :: int where "SC_Seek = 20"

lemmas syscall_codes = SC_Halt_def SC_Exit_def SC_Exec_def SC_Join_def SC_Create_def SC_Open_def SC_Read_def SC_Write_def SC_Close_def
  SC_ReadInt_def SC_PrintInt_def SC_ReadChar_def SC_PrintChar_def SC_ReadString_def SC_PrintString_def SC_CreateSemaphore_def SC_Up_def
  SC_Down_def SC_Seek_def

section \<open>Registers and memory of the user program\<close>

definition get_reg :: "nat \<Rightarrow> nachos \<Rightarrow> word32 option" where
  "get_reg n s = do { m \<leftarrow> mach s; ReadRegister m n }"

definition put_reg :: "nat \<Rightarrow> word32 \<Rightarrow> nachos \<Rightarrow> nachos option" where
  "put_reg n v s = do { m \<leftarrow> mach s; m' \<leftarrow> WriteRegister n v m; Some (s\<lparr>mach := Some m'\<rparr>) }"

definition IncreatePC :: "nachos \<Rightarrow> nachos option" where
  "IncreatePC s = do {
     current \<leftarrow> get_reg PCReg s;
     s1 \<leftarrow> put_reg PrevPCReg current s;
     next_pc \<leftarrow> get_reg NextPCReg s1;
     s2 \<leftarrow> put_reg PCReg next_pc s1;
     put_reg NextPCReg (next_pc + 4) s2 }"

text \<open>A memory access that fails raises its exception from within the kernel; the handler's branch for each of these exceptions is a call
  of \<^verbatim>\<open>Halt\<close>. No memory access raises the two others.\<close>

definition fault_branch :: "ExceptionType \<Rightarrow> nachos \<Rightarrow> ('a, nachos) outcome option" where
  "fault_branch which s = (if which = NoException \<or> which = SyscallException then None else Some (Halts s))"

definition raise_fault :: "ExceptionType \<Rightarrow> word32 \<Rightarrow> nachos \<Rightarrow> ('a, nachos) outcome option" where
  "raise_fault which bad s = do {
     m \<leftarrow> mach s;
     m1 \<leftarrow> DelayedLoad 0 0 (set_reg BadVAddrReg bad m);
     fault_branch which (setStatus SystemMode (s\<lparr>mach := Some m1\<rparr>)) }"

definition read_user :: "word32 \<Rightarrow> nachos \<Rightarrow> (word32, nachos) outcome option" where
  "read_user a s = do {
     m \<leftarrow> mach s;
     r \<leftarrow> ReadMem m a 1;
     (case r of Inl e \<Rightarrow> raise_fault e a s | Inr (v, m') \<Rightarrow> Some (Returns v (s\<lparr>mach := Some m'\<rparr>))) }"

definition write_user :: "word32 \<Rightarrow> word32 \<Rightarrow> nachos \<Rightarrow> (unit, nachos) outcome option" where
  "write_user a v s = do {
     m \<leftarrow> mach s;
     r \<leftarrow> WriteMem m a 1 v;
     (case r of Inl e \<Rightarrow> raise_fault e a s | Inr m' \<Rightarrow> Some (Returns () (s\<lparr>mach := Some m'\<rparr>))) }"

text \<open>The characters copied, with the terminating zero when one is found within the limit.\<close>

fun copy_string :: "nat \<Rightarrow> word32 \<Rightarrow> nachos \<Rightarrow> (byte list, nachos) outcome option" where
  "copy_string 0 a s = Some (Returns [] s)"
| "copy_string (Suc n) a s =
     then_run (read_user a s) (\<lambda>oneChar s1.
       if oneChar = 0 then Some (Returns [0] s1)
       else then_run (copy_string n (a + 1) s1) (\<lambda>cs s2. Some (Returns (ucast oneChar # cs) s2)))"

definition User2System :: "word32 \<Rightarrow> int \<Rightarrow> nachos \<Rightarrow> (byte list, nachos) outcome option" where
  "User2System virtAddr limit s = do {
     ASSERT (0 \<le> limit \<and> limit + 1 < 2 ^ 31);
     then_run (copy_string (nat limit) virtAddr s) (\<lambda>cs s1. Some (Returns (cs @ replicate (nat (limit + 1) - length cs) 0) s1)) }"

fun copy_out :: "byte list \<Rightarrow> word32 \<Rightarrow> nachos \<Rightarrow> (int, nachos) outcome option" where
  "copy_out [] a s = Some (Returns 0 s)"
| "copy_out (c # cs) a s =
     then_run (write_user a (scast c) s) (\<lambda>u s1.
       if c = 0 then Some (Returns 1 s1)
       else then_run (copy_out cs (a + 1) s1) (\<lambda>i s2. Some (Returns (i + 1) s2)))"

definition System2User :: "word32 \<Rightarrow> int \<Rightarrow> byte list \<Rightarrow> nachos \<Rightarrow> (int, nachos) outcome option" where
  "System2User virtAddr len buffer s =
     (if len < 0 then Some (Returns (-1) s)
      else if len = 0 then Some (Returns len s)
      else do { ASSERT (nat len \<le> length buffer); copy_out (take (nat len) buffer) virtAddr s })"

text \<open>The string in a buffer, up to the terminating zero; \<^verbatim>\<open>strlen\<close> is its length.\<close>

definition c_string :: "byte list \<Rightarrow> byte list" where
  "c_string buffer = takeWhile (\<lambda>c. c \<noteq> 0) buffer"

section \<open>System calls\<close>

text \<open>How a branch ends: with \<^verbatim>\<open>break\<close>, after which the program counter is advanced; with \<^verbatim>\<open>return\<close>; or in a thread that has finished.\<close>

datatype leave = Break | Return | Finished

definition result :: "word32 \<Rightarrow> leave \<Rightarrow> nachos \<Rightarrow> (leave, nachos) outcome option" where
  "result v l s = do { s1 \<leftarrow> put_reg 2 v s; Some (Returns l s1) }"

definition put_host :: "host \<Rightarrow> nachos \<Rightarrow> nachos" where
  "put_host h s = s\<lparr>fileSystem := (fileSystem s)\<lparr>hst := h\<rparr>\<rparr>"

definition put_file :: "nat \<Rightarrow> StubFile option \<Rightarrow> nachos \<Rightarrow> nachos option" where
  "put_file i f s = do {
     os \<leftarrow> array_set (stub_open (fileSystem s)) i f;
     Some (s\<lparr>fileSystem := (fileSystem s)\<lparr>stub_open := os\<rparr>\<rparr>) }"

definition get_file :: "nat \<Rightarrow> nachos \<Rightarrow> StubFile option option" where
  "get_file i s = array_get (stub_open (fileSystem s)) i"

definition sys_Create :: "nachos \<Rightarrow> (leave, nachos) outcome option" where
  "sys_Create s = do {
     virtAddr \<leftarrow> get_reg 4 s;
     then_run (User2System virtAddr (MaxFileLength + 1) s) (\<lambda>buf s1.
       if c_string buf = [] then result (-1) Break s1
       else do {
         (ok, h) \<leftarrow> Stub_Create (c_string buf) 0 (hst (fileSystem s1));
         result (if ok then 0 else -1) Break (put_host h s1) }) }"

definition sys_Open :: "nachos \<Rightarrow> (leave, nachos) outcome option" where
  "sys_Open s = do {
     addr \<leftarrow> get_reg 4 s;
     then_run (User2System addr (MaxFileLength + 1) s) (\<lambda>buf s1.
       let filename = c_string buf in
       if filename = [] \<or> int (length filename) > MaxFileLength then result (-1) Return s1
       else do {
         type \<leftarrow> get_reg 5 s1;
         if sint type \<noteq> 0 \<and> sint type \<noteq> 1 then result (-1) Return s1
         else do {
           let freeSlot = Stub_FindFreeSlot (fileSystem s1);
           if freeSlot = -1 then Some (Returns Break s1)
           else do {
             (f, h) \<leftarrow> Stub_Open filename (sint type) (hst (fileSystem s1));
             s2 \<leftarrow> put_file (nat freeSlot) f (put_host h s1);
             result (if f = None then -1 else word_of_int freeSlot) Break s2 } } }) }"

definition sys_Close :: "nachos \<Rightarrow> (leave, nachos) outcome option" where
  "sys_Close s = do {
     r4 \<leftarrow> get_reg 4 s;
     let file = sint r4;
     if 0 \<le> file \<and> file \<le> 9 then do {
       e \<leftarrow> get_file (nat file) s;
       (case e of
          Some f \<Rightarrow> do {
            h \<leftarrow> StubFile_delete f (hst (fileSystem s));
            s1 \<leftarrow> put_file (nat file) None (put_host h s);
            result 0 Break s1 }
        | None \<Rightarrow> result (-1) Break s) }
     else result (-1) Break s }"

definition sys_Read :: "unknowns \<Rightarrow> nachos \<Rightarrow> (leave, nachos) outcome option" where
  "sys_Read u s = do {
     virtAddr \<leftarrow> get_reg 4 s;
     r5 \<leftarrow> get_reg 5 s;
     r6 \<leftarrow> get_reg 6 s;
     let charcount = sint r5;
     let file = sint r6;
     if charcount < 0 then result (-1) Return s
     else if file < 0 \<or> file > 9 then result (-1) Return s
     else do {
       e \<leftarrow> get_file (nat file) s;
       (case e of
          None \<Rightarrow> result (-1) Return s
        | Some f \<Rightarrow>
            if stub_type f = 3 then result (-1) Return s
            else do {
              (curPos, f1) \<leftarrow> Stub_GetCurrentPos f (hst (fileSystem s));
              s1 \<leftarrow> put_file (nat file) (Some f1) s;
              then_run (User2System virtAddr charcount s1) (\<lambda>buffer s2.
                if stub_type f1 = 2 then
                  then_run (SynchConsole_Read (do_yield u) (other_threads u) (local_ch u) charcount s2) (\<lambda>(sz, into) s3.
                    then_run (System2User virtAddr sz (into @ drop (length into) buffer) s3) (\<lambda>copied s4.
                      result (word_of_int sz) Return s4))
                else do {
                  (bs, f2, h) \<leftarrow> Stub_Read charcount f1 (hst (fileSystem s2));
                  s3 \<leftarrow> put_file (nat file) (Some f2) (put_host h s2);
                  if 0 < length bs then do {
                    (newPos, f3) \<leftarrow> Stub_GetCurrentPos f2 h;
                    s4 \<leftarrow> put_file (nat file) (Some f3) s3;
                    then_run (System2User virtAddr (newPos - curPos) (bs @ drop (length bs) buffer) s4) (\<lambda>copied s5.
                      result (word_of_int (newPos - curPos)) Break s5) }
                  else result (-2) Break s3 }) }) } }"

text \<open>The loop that writes to the standard output: its condition \<^verbatim>\<open>buffer[i] = '\n'\<close> is an assignment, so it only ends by leaving the buffer.\<close>

fun write_stdout :: "unknowns \<Rightarrow> byte list \<Rightarrow> nachos \<Rightarrow> (leave, nachos) outcome option" where
  "write_stdout u [] s = None"
| "write_stdout u (c # cs) s =
     then_run (SynchConsole_Write (do_yield u) (other_threads u) (10 # cs) 1 s) (\<lambda>n. write_stdout u cs)"

definition sys_Write :: "unknowns \<Rightarrow> nachos \<Rightarrow> (leave, nachos) outcome option" where
  "sys_Write u s = do {
     virtAddr \<leftarrow> get_reg 4 s;
     r5 \<leftarrow> get_reg 5 s;
     r6 \<leftarrow> get_reg 6 s;
     let charcount = sint r5;
     let file = sint r6;
     if charcount < 0 then result (-1) Return s
     else if file < 0 \<or> file > 9 then result (-1) Return s
     else do {
       e \<leftarrow> get_file (nat file) s;
       (case e of
          None \<Rightarrow> result (-1) Return s
        | Some f \<Rightarrow>
            if stub_type f = 2 then result (-1) Return s
            else do {
              (curPos, f1) \<leftarrow> Stub_GetCurrentPos f (hst (fileSystem s));
              s1 \<leftarrow> put_file (nat file) (Some f1) s;
              then_run (User2System virtAddr charcount s1) (\<lambda>buffer s2.
                if stub_type f1 = 3 then write_stdout u buffer s2
                else do {
                  (n, f2, h) \<leftarrow> Stub_Write buffer charcount f1 (hst (fileSystem s2));
                  s3 \<leftarrow> put_file (nat file) (Some f2) (put_host h s2);
                  if 0 < n then do {
                    (newPos, f3) \<leftarrow> Stub_GetCurrentPos f2 h;
                    s4 \<leftarrow> put_file (nat file) (Some f3) s3;
                    result (word_of_int (newPos - curPos)) Break s4 }
                  else Some (Returns Break s3) }) }) } }"

definition sys_Seek :: "nachos \<Rightarrow> (leave, nachos) outcome option" where
  "sys_Seek s = do {
     r4 \<leftarrow> get_reg 4 s;
     r5 \<leftarrow> get_reg 5 s;
     let file = sint r5;
     if file < 0 \<or> file > 9 then result (-1) Return s
     else do {
       e \<leftarrow> get_file (nat file) s;
       (case e of
          None \<Rightarrow> result (-1) Return s
        | Some f \<Rightarrow>
            if file = 0 \<or> file = 1 then result (-1) Return s
            else do {
              (pos, h) \<leftarrow> (if sint r4 = -1 then Stub_Length f (hst (fileSystem s)) else Some (sint r4, hst (fileSystem s)));
              (off, f1, h1) \<leftarrow> Stub_Seek pos f h;
              s1 \<leftarrow> put_file (nat file) (Some f1) (put_host h1 s);
              result (word_of_int pos) Break s1 }) } }"

text \<open>The digits of \<^verbatim>\<open>SC_ReadInt\<close>: whether every character is a digit, and the number so far in 32-bit arithmetic. A number that does not fit
  is undefined in C++; here it wraps around, as it does on the i386.\<close>

fun parse_digits :: "byte list \<Rightarrow> word32 \<Rightarrow> bool \<times> word32" where
  "parse_digits [] acc = (True, acc)"
| "parse_digits (c # cs) acc =
     (if 48 \<le> sint c \<and> sint c \<le> 57 then parse_digits cs (acc * 10 + (scast c - 48)) else (False, acc))"

definition parse_int :: "byte list \<Rightarrow> bool \<times> word32" where
  "parse_int line =
     (let negative = (hd line = 45);
          (isValid, n) = parse_digits (if negative then tl line else line) 0;
          isValid = (if length line = 1 \<and> negative then False else isValid) in
      (isValid, n * (if negative then -1 else 1)))"

definition sys_ReadInt :: "unknowns \<Rightarrow> nachos \<Rightarrow> (leave, nachos) outcome option" where
  "sys_ReadInt u s =
     then_run (SynchConsole_Read (do_yield u) (other_threads u) (local_ch u) MaxBufferSize s) (\<lambda>(bytesRead, buffer) s1. do {
       ASSERT (0 \<le> bytesRead);
       if 0 < bytesRead then do {
         let (isValid, n) = parse_int (take (nat bytesRead) buffer);
         result (if isValid then n else 0) Break s1 }
       else Some (Returns Break s1) })"

text \<open>The two loops of \<^verbatim>\<open>SC_PrintInt\<close>: the number of digits, and the digits from the last to the first.\<close>

function count_digits :: "int \<Rightarrow> nat" where
  "count_digits temp = (if temp > 0 then Suc (count_digits (temp div 10)) else 0)"
  by pat_completeness auto
termination by (relation "measure nat") auto

fun fill_digits :: "nat \<Rightarrow> int \<Rightarrow> byte list" where
  "fill_digits 0 n = []"
| "fill_digits (Suc i) n = fill_digits i (n div 10) @ [word_of_int (n mod 10 + 48)]"

definition sys_PrintInt :: "unknowns \<Rightarrow> nachos \<Rightarrow> (leave, nachos) outcome option" where
  "sys_PrintInt u s = do {
     r4 \<leftarrow> get_reg 4 s;
     if r4 = 0 then
       then_run (SynchConsole_Write (do_yield u) (other_threads u) [48] 1 s) (\<lambda>k s1. Some (Returns Break s1))
     else
       then_run (if sint r4 < 0 then SynchConsole_Write (do_yield u) (other_threads u) [45] 1 s else Some (Returns 0 s)) (\<lambda>k s1.
         let number = sint (if sint r4 < 0 then r4 * -1 else r4);
             len = count_digits number in
         then_run (SynchConsole_Write (do_yield u) (other_threads u) (fill_digits len number @ [0]) (int len + 1) s1) (\<lambda>k s2.
           Some (Returns Break s2))) }"

definition sys_ReadChar :: "unknowns \<Rightarrow> nachos \<Rightarrow> (leave, nachos) outcome option" where
  "sys_ReadChar u s =
     then_run (SynchConsole_Read (do_yield u) (other_threads u) (local_ch u) MaxBufferSize s) (\<lambda>(bytes, inp) s1.
       if bytes > 1 then result 0 Break s1
       else if bytes = 0 then result 0 Break s1
       else if bytes = 1 then result (scast (hd inp)) Break s1
       else Some (Returns Break s1))"

definition sys_PrintChar :: "unknowns \<Rightarrow> nachos \<Rightarrow> (leave, nachos) outcome option" where
  "sys_PrintChar u s = do {
     r4 \<leftarrow> get_reg 4 s;
     then_run (SynchConsole_Write (do_yield u) (other_threads u) [ucast r4] 1 s) (\<lambda>k s1. Some (Returns Break s1)) }"

definition sys_ReadString :: "unknowns \<Rightarrow> nachos \<Rightarrow> (leave, nachos) outcome option" where
  "sys_ReadString u s = do {
     bufferAddress \<leftarrow> get_reg 4 s;
     r5 \<leftarrow> get_reg 5 s;
     let maxlength = sint r5;
     ASSERT (0 \<le> maxlength \<and> maxlength + 1 < 2 ^ 31);
     then_run (SynchConsole_Read (do_yield u) (other_threads u) (local_ch u) maxlength s) (\<lambda>(bytesRead, into) s1. do {
       ASSERT (0 \<le> bytesRead);
       if bytesRead = 0 then Some (Returns Break s1)
       else then_run (System2User bufferAddress (bytesRead + 1) (take (nat bytesRead) into @ [0]) s1) (\<lambda>byteCopied s2.
         Some (Returns Break s2)) }) }"

definition sys_PrintString :: "unknowns \<Rightarrow> nachos \<Rightarrow> (leave, nachos) outcome option" where
  "sys_PrintString u s = do {
     bufferAddress \<leftarrow> get_reg 4 s;
     then_run (User2System bufferAddress MaxBufferSize s) (\<lambda>buffer s1.
       then_run (SynchConsole_Write (do_yield u) (other_threads u) buffer (int (length (c_string buffer)) + 1) s1) (\<lambda>k s2.
         Some (Returns Break s2))) }"

text \<open>After \<^verbatim>\<open>SC_Exec\<close> the name of the new thread points to memory that has been freed.\<close>

definition forget_name :: "int \<Rightarrow> nachos \<Rightarrow> nachos" where
  "forget_name pid s =
     (case get_pcb pid s of
        Some p \<Rightarrow> (case pcb_thread p of Some t \<Rightarrow> s\<lparr>threadName := (threadName s)(t := None)\<rparr> | None \<Rightarrow> s)
      | None \<Rightarrow> s)"

definition sys_Exec :: "unknowns \<Rightarrow> nachos \<Rightarrow> (leave, nachos) outcome option" where
  "sys_Exec u s = do {
     virtAddr \<leftarrow> get_reg 4 s;
     then_run (User2System virtAddr (MaxFileLength + 1) s) (\<lambda>buf s1.
       let name = c_string buf in
       if name = [] \<or> int (length name) > MaxFileLength then result (-1) Return s1
       else do {
         (file, h) \<leftarrow> Stub_Open name 0 (hst (fileSystem s1));
         (case file of
            None \<Rightarrow> result (-1) Return (put_host h s1)
          | Some f \<Rightarrow>
              then_run (ExecUpdate (do_yield u) (other_threads u) (stale_name u) (new_registers u) (Some name) (put_host h s1)) (\<lambda>pid s2. do {
                s3 \<leftarrow> put_reg 2 (word_of_int pid) s2;
                h1 \<leftarrow> StubFile_delete f (hst (fileSystem s3));
                Some (Returns Break (put_host h1 (if 0 \<le> pid then forget_name pid s3 else s3))) })) }) }"

definition sys_Join :: "unknowns \<Rightarrow> nachos \<Rightarrow> (leave, nachos) outcome option" where
  "sys_Join u s = do {
     r4 \<leftarrow> get_reg 4 s;
     then_run (JoinUpdate (do_yield u) (other_threads u) (sint r4) s) (\<lambda>res s1.
       if res < 0 then result (-1) Break s1 else result (word_of_int res) Break s1) }"

definition sys_Exit :: "unknowns \<Rightarrow> nachos \<Rightarrow> (leave, nachos) outcome option" where
  "sys_Exit u s = do {
     exitState \<leftarrow> get_reg 4 s;
     if exitState \<noteq> 0 then Some (Returns Break s)
     else then_run (ExitUpdate (do_yield u) (other_threads u) (sint exitState) s) (\<lambda>res s1.
       (case res of
          None \<Rightarrow> Some (Returns Finished s1)
        | Some r \<Rightarrow> do {
            s2 \<leftarrow> put_reg 2 (word_of_int r) s1;
            s3 \<leftarrow> FreeSpace (currentThread s2) s2;
            s4 \<leftarrow> Thread_Finish (currentThread s3) s3;
            Some (Returns Finished s4) })) }"

definition sys_CreateSemaphore :: "unknowns \<Rightarrow> nachos \<Rightarrow> (leave, nachos) outcome option" where
  "sys_CreateSemaphore u s = do {
     nameAddr \<leftarrow> get_reg 4 s;
     semval \<leftarrow> get_reg 5 s;
     then_run (User2System nameAddr (MaxFileLength + 1) s) (\<lambda>buf s1. do {
       (res, s2) \<leftarrow> STable_Create (flow_off u) (left_over u) (c_string buf) (sint semval) s1;
       result (if res = -1 then -1 else word_of_int res) Break s2 }) }"

definition sys_Up :: "unknowns \<Rightarrow> nachos \<Rightarrow> (leave, nachos) outcome option" where
  "sys_Up u s = do {
     nameAddr \<leftarrow> get_reg 4 s;
     then_run (User2System nameAddr (MaxFileLength + 1) s) (\<lambda>buf s1. do {
       (res, s2) \<leftarrow> STable_Signal (do_yield u) (c_string buf) s1;
       if res = -1 then result (-1) Return s2 else result (word_of_int res) Break s2 }) }"

definition sys_Down :: "unknowns \<Rightarrow> nachos \<Rightarrow> (leave, nachos) outcome option" where
  "sys_Down u s = do {
     nameAddr \<leftarrow> get_reg 4 s;
     then_run (User2System nameAddr (MaxFileLength + 1) s) (\<lambda>buf s1.
       then_run (STable_Wait (do_yield u) (other_threads u) (c_string buf) s1) (\<lambda>res s2.
         if res = -1 then result (-1) Break s2 else result (word_of_int res) Break s2)) }"

definition syscall_branch :: "unknowns \<Rightarrow> int \<Rightarrow> nachos \<Rightarrow> (leave, nachos) outcome option" where
  "syscall_branch u type s =
     (if type = SC_Create then sys_Create s
      else if type = SC_Open then sys_Open s
      else if type = SC_Close then sys_Close s
      else if type = SC_Read then sys_Read u s
      else if type = SC_Write then sys_Write u s
      else if type = SC_Seek then sys_Seek s
      else if type = SC_Halt then Some (Halts s)
      else if type = SC_ReadInt then sys_ReadInt u s
      else if type = SC_PrintInt then sys_PrintInt u s
      else if type = SC_ReadChar then sys_ReadChar u s
      else if type = SC_PrintChar then sys_PrintChar u s
      else if type = SC_ReadString then sys_ReadString u s
      else if type = SC_PrintString then sys_PrintString u s
      else if type = SC_Exec then sys_Exec u s
      else if type = SC_Join then sys_Join u s
      else if type = SC_Exit then sys_Exit u s
      else if type = SC_CreateSemaphore then sys_CreateSemaphore u s
      else if type = SC_Up then sys_Up u s
      else if type = SC_Down then sys_Down u s
      else Some (Halts s))"

definition ExceptionHandler :: "unknowns \<Rightarrow> ExceptionType \<Rightarrow> nachos \<Rightarrow> (bool, nachos) outcome option" where
  "ExceptionHandler u which s = do {
     type \<leftarrow> get_reg 2 s;
     if which = NoException then Some (Returns True s)
     else if which = SyscallException then
       then_run (syscall_branch u (sint type) s) (\<lambda>l s1.
         (case l of
            Break \<Rightarrow> do { s2 \<leftarrow> IncreatePC s1; Some (Returns True s2) }
          | Return \<Rightarrow> Some (Returns True s1)
          | Finished \<Rightarrow> Some (Returns False s1)))
     else fault_branch which s }"

section \<open>Running a user program\<close>

text \<open>\<^verbatim>\<open>RaiseException\<close> and \<^verbatim>\<open>OneInstruction\<close> on the state of the kernel, and the loop of \<^verbatim>\<open>Machine::Run\<close>. The loop ends only when the
  machine halts or the thread finishes (\<open>Returns ()\<close>); the single-step debugger is off.\<close>

definition kernel_trap :: "unknowns \<Rightarrow> ExceptionType \<Rightarrow> word32 \<Rightarrow> nachos \<Rightarrow> (bool, nachos) outcome option" where
  "kernel_trap u which bad s = do {
     m \<leftarrow> mach s;
     m1 \<leftarrow> DelayedLoad 0 0 (set_reg BadVAddrReg bad m);
     then_run (ExceptionHandler u which (setStatus SystemMode (s\<lparr>mach := Some m1\<rparr>))) (\<lambda>back s1.
       Some (Returns back (if back then setStatus UserMode s1 else s1))) }"

definition user_instruction :: "unknowns \<Rightarrow> nachos \<Rightarrow> (bool, nachos) outcome option" where
  "user_instruction u s = do {
     m \<leftarrow> mach s;
     r \<leftarrow> step_instruction m;
     (case r of
        Inl (e, bad, m1) \<Rightarrow> kernel_trap u e bad (s\<lparr>mach := Some m1\<rparr>)
      | Inr m1 \<Rightarrow> Some (Returns True (s\<lparr>mach := Some m1\<rparr>))) }"

definition user_round :: "unknowns \<Rightarrow> nachos \<Rightarrow> (bool, nachos) outcome option" where
  "user_round u s =
     then_run (user_instruction u s) (\<lambda>back s1.
       if back then do { s2 \<leftarrow> OneTick run_handler (do_yield u) s1; Some (Returns True s2) }
       else Some (Returns False s1))"

partial_function (option) run_loop :: "unknowns \<Rightarrow> nachos \<Rightarrow> (unit, nachos) outcome option" where
  "run_loop u s = do {
     r \<leftarrow> user_round u s;
     (case r of Halts s1 \<Rightarrow> Some (Halts s1) | Returns back s1 \<Rightarrow> if back then run_loop u s1 else Some (Returns () s1)) }"

definition Machine_Run :: "unknowns \<Rightarrow> nachos \<Rightarrow> (unit, nachos) outcome option" where
  "Machine_Run u s = do {
     m \<leftarrow> mach s;
     ASSERT (\<not> singleStep m);
     run_loop u (setStatus UserMode s) }"

end
