(* ===== verification/Syscall_Correct.thy ===== *)
theory Syscall_Correct
  imports Syscalls
begin

text \<open>
  Correctness of the system calls of \<open>Syscalls\<close>: strings cross the boundary between a user program and the kernel unchanged or the machine
  halts, the console calls print and read what they promise, file contents survive a write and a read, and which failed calls come back to
  the program.
\<close>

section \<open>The calling program\<close>

text \<open>The processor when the kernel runs on behalf of a program: the delayed load is done.\<close>

definition in_kernel :: "machine \<Rightarrow> bool" where
  "in_kernel m \<longleftrightarrow> registers m 0 = 0 \<and> registers m LoadReg = 0 \<and> registers m LoadValueReg = 0"

lemma in_kernel_settled: "in_kernel m \<longleftrightarrow> cpu_ok m \<and> DelayedLoad 0 0 m = Some m"
proof
  assume k: "in_kernel m"
  then have "(registers m)(0 := 0, LoadReg := 0, LoadValueReg := 0) = registers m" by (auto simp: in_kernel_def fun_eq_iff)
  with k show "cpu_ok m \<and> DelayedLoad 0 0 m = Some m"
    by (auto simp: in_kernel_def cpu_ok_def DelayedLoad_def Let_def reg_def set_reg_def reg_defs fun_upd_def fun_eq_iff intro!: machine.equality)
next
  assume a: "cpu_ok m \<and> DelayedLoad 0 0 m = Some m"
  then have "registers m = registers (set_reg 0 0 (set_reg LoadValueReg 0 (set_reg LoadReg 0
      (set_reg (unat (reg m LoadReg)) (reg m LoadValueReg) m))))"
    using DelayedLoad_spec [of m 0 0] by (simp add: cpu_ok_def)
  then have "registers m r = registers (set_reg 0 0 (set_reg LoadValueReg 0 (set_reg LoadReg 0
      (set_reg (unat (reg m LoadReg)) (reg m LoadValueReg) m)))) r" for r by (rule fun_cong)
  from this [of 0] this [of LoadReg] this [of LoadValueReg] show "in_kernel m"
    by (simp add: in_kernel_def set_reg_def reg_defs)
qed

text \<open>A program in the middle of a system call, alone on the machine.\<close>

definition calling :: "nachos \<Rightarrow> machine \<Rightarrow> bool" where
  "calling s m \<longleftrightarrow> quiet False s \<and> mach s = Some m \<and> page_tables_ok m"

lemma calling_in_kernel: "calling s m \<Longrightarrow> in_kernel m"
  by (auto simp: calling_def quiet_def enabled_def alone_def hw_ok_def mach_ok_def settled_mach in_kernel_settled)

lemma mach_irrelevant [simp]:
  fixes s :: nachos
  shows "tokens (s\<lparr>mach := x\<rparr>) = tokens s" "typed (s\<lparr>mach := x\<rparr>) = typed s" "now (s\<lparr>mach := x\<rparr>) = now s"
    "up (s\<lparr>mach := x\<rparr>) = up s" "device_sync g M (s\<lparr>mach := x\<rparr>) = device_sync g M s" "ticks_ok (s\<lparr>mach := x\<rparr>) = ticks_ok s"
  by (simp_all add: tokens_def typed_def now_def up_def stat_def device_sync_def ticks_ok_def fun_eq_iff)

lemma calling_update:
  assumes "calling s m" "in_kernel m'" "page_tables_ok m'" "pageTableSize m' = pageTableSize m"
  shows "calling (s\<lparr>mach := Some m'\<rparr>) m'"
proof -
  have q: "hw_ok s" "tcb_ok s" "level s = IntOn" "alone False s" "readyList s = []" "mach s = Some m"
    using assms(1) by (auto simp: calling_def quiet_def enabled_def alone_def)
  have "hw_ok (s\<lparr>mach := Some m'\<rparr>)" "settled (s\<lparr>mach := Some m'\<rparr>)"
    using q(1) assms(2) in_kernel_settled by (simp_all add: hw_ok_def mach_ok_def settled_mach)
  moreover have "tcb_ok (s\<lparr>mach := Some m'\<rparr>)"
    using q(2,6) assms(3,4) by (auto simp: tcb_ok_def page_tables_ok_def)
  ultimately have "alone False (s\<lparr>mach := Some m'\<rparr>)" using q(4) by (simp add: alone_def)
  then show ?thesis using q(3,5) assms(3) by (simp add: calling_def quiet_def enabled_def)
qed

lemma get_reg_eq: "mach s = Some m \<Longrightarrow> n < NumTotalRegs \<Longrightarrow> get_reg n s = Some (registers m n)"
  by (simp add: get_reg_def ReadRegister_def)

lemma put_reg_eq: "mach s = Some m \<Longrightarrow> n < NumTotalRegs \<Longrightarrow> put_reg n v s = Some (s\<lparr>mach := Some (m\<lparr>registers := (registers m)(n := v)\<rparr>)\<rparr>)"
  by (simp add: put_reg_def WriteRegister_def)

lemma result_eq: "mach s = Some m \<Longrightarrow> result v l s = Some (Returns l (s\<lparr>mach := Some (m\<lparr>registers := (registers m)(2 := v)\<rparr>)\<rparr>))"
  by (simp add: result_def put_reg_eq reg_defs)

text \<open>The machine after a completed call: the program counters have moved to the next instruction.\<close>

definition next_pc :: "machine \<Rightarrow> machine" where
  "next_pc m = m\<lparr>registers := (registers m)(PrevPCReg := registers m PCReg, PCReg := registers m NextPCReg,
     NextPCReg := registers m NextPCReg + 4)\<rparr>"

lemma IncreatePC_eq: "mach s = Some m \<Longrightarrow> IncreatePC s = Some (s\<lparr>mach := Some (next_pc m)\<rparr>)"
  by (simp add: IncreatePC_def get_reg_eq put_reg_eq next_pc_def reg_defs)

lemma calling_next_pc: "calling s m \<Longrightarrow> calling (s\<lparr>mach := Some (next_pc m)\<rparr>) (next_pc m)"
  using calling_in_kernel [of s m]
  by (intro calling_update) (simp_all add: next_pc_def in_kernel_def reg_defs calling_def page_tables_ok_def)

lemma calling_result:
  "calling s m \<Longrightarrow> calling (s\<lparr>mach := Some (m\<lparr>registers := (registers m)(2 := v)\<rparr>)\<rparr>) (m\<lparr>registers := (registers m)(2 := v)\<rparr>)"
  using calling_in_kernel [of s m]
  by (intro calling_update) (simp_all add: in_kernel_def reg_defs calling_def page_tables_ok_def)

section \<open>The memory that a program sees\<close>

definition user_byte :: "machine \<Rightarrow> word32 \<Rightarrow> byte option" where
  "user_byte m a = (case translate_spec m a 1 False of Inl e \<Rightarrow> None | Inr (pa, m') \<Rightarrow> Some (mainMemory m pa))"

definition user_writable :: "machine \<Rightarrow> word32 \<Rightarrow> bool" where
  "user_writable m a = (case translate_spec m a 1 True of Inl e \<Rightarrow> False | Inr r \<Rightarrow> True)"

text \<open>A string of at most \<open>n\<close> bytes at an address, with its zero if it has one; none if a byte before its end is not accessible.\<close>

fun user_string :: "machine \<Rightarrow> nat \<Rightarrow> word32 \<Rightarrow> byte list option" where
  "user_string m 0 a = Some []"
| "user_string m (Suc n) a = do {
     c \<leftarrow> user_byte m a;
     if c = 0 then Some [0] else do { cs \<leftarrow> user_string m n (a + 1); Some (c # cs) } }"

lemma translate_spec_same:
  assumes "same_mapping m m'" "page_tables_ok m"
  shows "(case translate_spec m' a sz w of Inl e \<Rightarrow> Inl e | Inr (pa, x) \<Rightarrow> Inr pa) = (case translate_spec m a sz w of Inl e \<Rightarrow> Inl e | Inr (pa, x) \<Rightarrow> Inr pa)"
proof -
  from assms obtain pt pt' where st: "pageTable m = Some pt" "pageTable m' = Some pt'"
    "length pt = pageTableSize m" "pageTableSize m' = pageTableSize m"
    "\<And>i. i < length pt \<Longrightarrow> physicalPage (pt' ! i) = physicalPage (pt ! i)
      \<and> valid (pt' ! i) = valid (pt ! i) \<and> readOnly (pt' ! i) = readOnly (pt ! i)"
    by (rule same_mapping_cases) blast
  then show ?thesis by (auto simp: translate_spec_def Let_def)
qed

lemma user_view_same:
  assumes "same_mapping m m'" "page_tables_ok m" "mainMemory m' = mainMemory m"
  shows "user_byte m' a = user_byte m a" "user_writable m' a = user_writable m a" "user_string m' n a = user_string m n a"
proof -
  show b: "user_byte m' a = user_byte m a" for a
    using translate_spec_same [OF assms(1,2), of a 1 False] assms(3) by (auto simp: user_byte_def split: sum.splits)
  show "user_writable m' a = user_writable m a"
    using translate_spec_same [OF assms(1,2), of a 1 True] by (auto simp: user_writable_def split: sum.splits)
  show "user_string m' n a = user_string m n a" by (induction n arbitrary: a) (simp_all add: b cong: if_cong)
qed

lemma same_mapping_trans: "same_mapping a b \<Longrightarrow> same_mapping b c \<Longrightarrow> same_mapping a c"
  by (simp add: same_mapping_def)

lemma same_mapping_kernel: "same_mapping m m' \<Longrightarrow> in_kernel m \<Longrightarrow> in_kernel m'"
  by (simp add: same_mapping_def in_kernel_def)

lemma fault_halts:
  assumes "mach s = Some m" "in_kernel m" "translate_spec m a sz w = Inl e"
  shows "\<exists>s'. raise_fault e a s = Some (Halts s')"
proof -
  have "\<exists>m1. DelayedLoad 0 0 (set_reg BadVAddrReg a m) = Some m1"
    using assms(2) by (simp add: DelayedLoad_def in_kernel_def reg_def set_reg_def reg_defs)
  moreover have "e \<noteq> NoException" "e \<noteq> SyscallException" using assms(3) by (auto simp: translate_spec_def Let_def split: if_splits)
  ultimately show ?thesis using assms(1) by (auto simp: raise_fault_def fault_branch_def)
qed

lemma read_user_cases:
  assumes "mach s = Some m" "in_kernel m" "page_tables_ok m"
  obtains (ok) c m' where "user_byte m a = Some c" "read_user a s = Some (Returns (scast c) (s\<lparr>mach := Some m'\<rparr>))" "same_mapping m m'"
      "mainMemory m' = mainMemory m" "page_tables_ok m'"
    | (fault) s' where "user_byte m a = None" "read_user a s = Some (Halts s')"
proof (cases "translate_spec m a 1 False")
  case (Inl e)
  with fault_halts [OF assms(1,2) Inl] assms show thesis
    by (auto intro: fault simp: read_user_def ReadMem_spec [OF assms(3) valid_sizes(1)] user_byte_def simp del: One_nat_def)
next
  case (Inr r)
  obtain pa m' where r: "r = (pa, m')" by force
  note t = Inr [unfolded r]
  note st = same_mapping_translate(1,2) [OF t assms(3), of "mainMemory m'"] same_mapping_translate(3) [OF t assms(3)]
  from ReadMem_at [OF assms(3) valid_sizes(1) t] t st assms(1) show thesis
    by (intro ok) (simp_all add: read_user_def user_byte_def loaded_def page_tables_ok_def del: One_nat_def)
qed

lemma ucast_scast_byte [simp]: "ucast (scast (c :: byte) :: word32) = c"
  by transfer (simp add: take_bit_signed_take_bit)

lemma scast_byte_0 [simp]: "scast (c :: byte) = (0 :: word32) \<longleftrightarrow> c = 0"
  by (metis scast_0 ucast_scast_byte unsigned_0)

lemma copy_string_eq:
  assumes "mach s = Some m" "in_kernel m" "page_tables_ok m"
  shows "case user_string m n a of
      Some cs \<Rightarrow> \<exists>m'. copy_string n a s = Some (Returns cs (s\<lparr>mach := Some m'\<rparr>)) \<and> same_mapping m m' \<and> mainMemory m' = mainMemory m \<and> page_tables_ok m'
    | None \<Rightarrow> \<exists>s'. copy_string n a s = Some (Halts s')"
  using assms
proof (induction n arbitrary: a s m)
  case 0
  then show ?case by (auto intro!: exI [of _ m])
next
  case (Suc n)
  show ?case
  proof (cases rule: read_user_cases [OF Suc.prems, of a])
    case (1 c m')
    show ?thesis
    proof (cases "c = 0")
      case True
      with 1 show ?thesis by auto
    next
      case False
      have "in_kernel m'" using same_mapping_kernel [OF 1(3) Suc.prems(2)] .
      from Suc.IH [of "s\<lparr>mach := Some m'\<rparr>" m' "a + 1"] this 1(5) user_view_same(3) [OF 1(3) Suc.prems(3) 1(4), of n "a + 1"]
      show ?thesis using False 1 same_mapping_trans [OF 1(3)]
        by (auto split: option.splits)
    qed
  next
    case (2 s')
    then show ?thesis by simp
  qed
qed

lemma User2System_eq:
  assumes "mach s = Some m" "in_kernel m" "page_tables_ok m" "0 \<le> limit" "limit + 1 < 2 ^ 31"
  shows "case user_string m (nat limit) a of
      Some cs \<Rightarrow> \<exists>m'. User2System a limit s = Some (Returns (cs @ replicate (nat (limit + 1) - length cs) 0) (s\<lparr>mach := Some m'\<rparr>))
        \<and> same_mapping m m' \<and> mainMemory m' = mainMemory m \<and> page_tables_ok m'
    | None \<Rightarrow> \<exists>s'. User2System a limit s = Some (Halts s')"
  using copy_string_eq [OF assms(1-3), of "nat limit" a] assms(4,5) by (auto simp: User2System_def split: option.splits)

lemma frames_injective_same:
  assumes "same_mapping m m'" "page_tables_ok m" "frames_injective m"
  shows "frames_injective m'"
proof -
  from assms(1,2) obtain pt pt' where st: "pageTable m = Some pt" "pageTable m' = Some pt'" "length pt' = length pt"
    "\<And>i. i < length pt \<Longrightarrow> physicalPage (pt' ! i) = physicalPage (pt ! i)
      \<and> valid (pt' ! i) = valid (pt ! i) \<and> readOnly (pt' ! i) = readOnly (pt ! i)"
    by (rule same_mapping_cases) blast
  show ?thesis
    unfolding frames_injective_def
  proof (intro allI impI)
    fix q i j
    assume "pageTable m' = Some q" "i < length q" "j < length q" "valid (q ! i)" "valid (q ! j)" "physicalPage (q ! i) = physicalPage (q ! j)"
    with st have "i < length pt" "j < length pt" "valid (pt ! i)" "valid (pt ! j)" "physicalPage (pt ! i) = physicalPage (pt ! j)" by auto
    with assms(3) st(1) show "i = j" unfolding frames_injective_def by blast
  qed
qed

lemma write_user_cases:
  assumes "mach s = Some m" "in_kernel m" "page_tables_ok m" "frames_injective m"
  obtains (ok) m' where "user_writable m a" "write_user a (scast c) s = Some (Returns () (s\<lparr>mach := Some m'\<rparr>))" "same_mapping m m'"
      "page_tables_ok m'" "user_byte m' = (user_byte m)(a \<mapsto> c)"
    | (fault) s' where "\<not> user_writable m a" "write_user a (scast c) s = Some (Halts s')"
proof (cases "translate_spec m a 1 True")
  case (Inl e)
  with fault_halts [OF assms(1,2) Inl] assms show thesis
    by (auto intro: fault simp: write_user_def WriteMem_spec [OF assms(3) valid_sizes(1)] user_writable_def simp del: One_nat_def)
next
  case (Inr r)
  obtain pa m1 where r: "r = (pa, m1)" by force
  note t = Inr [unfolded r]
  let ?m = "m1\<lparr>mainMemory := stored pa 1 (scast c) (mainMemory m)\<rparr>"
  note st = same_mapping_translate(1,2) [OF t assms(3), of "stored pa 1 (scast c) (mainMemory m)"] same_mapping_translate(3) [OF t assms(3)]
  have w: "write_user a (scast c) s = Some (Returns () (s\<lparr>mach := Some ?m\<rparr>))"
    using t st(3) assms(1) by (simp add: write_user_def WriteMem_spec [OF assms(3) valid_sizes(1)] del: One_nat_def)
  have "user_byte ?m b = ((user_byte m)(a \<mapsto> c)) b" for b
  proof (cases "b = a")
    case True
    from translate_spec_again [OF st(1) assms(3) t] obtain m2 where "translate_spec ?m a 1 False = Inr (pa, m2)" by blast
    then show ?thesis using True by (simp add: user_byte_def stored_def)
  next
    case False
    then have ne: "unat a + 1 \<le> unat b \<or> unat b + 1 \<le> unat a" by (metis Suc_eq_plus1 Suc_leI linorder_neqE_nat unsigned_word_eqI)
    have "stored pa 1 (scast c) (mainMemory m) pb = mainMemory m pb" if "translate_spec m b 1 False = Inr (pb, m2)" for pb m2
      using translate_spec_disjoint [OF assms(3,4) valid_sizes(1,1) t that ne] by (auto simp: stored_def)
    with translate_spec_same [OF st(1) assms(3), of b 1 False] False show ?thesis
      by (auto simp: user_byte_def split: sum.splits simp del: One_nat_def)
  qed
  with t w st show thesis by (intro ok) (auto simp: user_writable_def)
qed

text \<open>The bytes that are copied to the program: up to and including the first zero.\<close>

fun sent :: "byte list \<Rightarrow> byte list" where
  "sent [] = []"
| "sent (c # cs) = (if c = 0 then [0] else c # sent cs)"

lemma length_sent: "length (sent cs) \<le> length cs"
  by (induction cs) auto

lemma sent_nonzero [simp]: "0 \<notin> set cs \<Longrightarrow> sent (cs @ [0]) = cs @ [0]" "0 \<notin> set cs \<Longrightarrow> sent cs = cs"
  by (induction cs) auto

lemma next_address:
  fixes a b :: word32
  assumes "b \<noteq> a"
  shows "unat (b - a) = Suc (unat (b - (a + 1)))"
proof -
  have "b - a \<noteq> 0" using assms by simp
  then have "unat (b - a - 1) = unat (b - a) - 1" "0 < unat (b - a)" by (simp_all add: unat_minus_one unat_gt_0)
  then show ?thesis by (simp add: algebra_simps)
qed

lemma copy_out_eq:
  assumes "mach s = Some m" "in_kernel m" "page_tables_ok m" "frames_injective m" "\<And>i. i < length cs \<Longrightarrow> user_writable m (a + of_nat i)"
    "length cs < 2 ^ 32"
  shows "\<exists>m'. copy_out cs a s = Some (Returns (int (length (sent cs))) (s\<lparr>mach := Some m'\<rparr>)) \<and> same_mapping m m' \<and> page_tables_ok m'
    \<and> (\<forall>b. user_byte m' b = (if unat (b - a) < length (sent cs) then Some (sent cs ! unat (b - a)) else user_byte m b))"
  using assms
proof (induction cs arbitrary: a s m)
  case Nil
  then show ?case by (auto intro!: exI [of _ m])
next
  case (Cons c cs)
  have wr: "user_writable m a" using Cons.prems(5) [of 0] by simp
  from write_user_cases [OF Cons.prems(1-4), of a c] wr obtain m1 where m1:
    "write_user a (scast c) s = Some (Returns () (s\<lparr>mach := Some m1\<rparr>))" "same_mapping m m1" "page_tables_ok m1" "user_byte m1 = (user_byte m)(a \<mapsto> c)"
    by blast
  show ?case
  proof (cases "c = 0")
    case True
    have "unat (b - a) < 1 \<longleftrightarrow> b = a" for b by (simp add: unat_eq_zero)
    with True m1 show ?thesis by (intro exI [of _ m1]) (auto simp: unat_eq_zero)
  next
    case False
    have "user_writable m1 (a + 1 + of_nat i)" if "i < length cs" for i
      using Cons.prems(5) [of "Suc i"] that translate_spec_same [OF m1(2) Cons.prems(3), of "a + 1 + of_nat i" 1 True]
      by (auto simp: user_writable_def algebra_simps split: sum.splits)
    with Cons.IH [of "s\<lparr>mach := Some m1\<rparr>" m1 "a + 1"] m1 same_mapping_kernel [OF m1(2) Cons.prems(2)] Cons.prems(6)
      frames_injective_same [OF m1(2) Cons.prems(3,4)] obtain m2 where m2:
      "copy_out cs (a + 1) (s\<lparr>mach := Some m1\<rparr>) = Some (Returns (int (length (sent cs))) (s\<lparr>mach := Some m2\<rparr>))" "same_mapping m1 m2" "page_tables_ok m2"
      "\<And>b. user_byte m2 b = (if unat (b - (a + 1)) < length (sent cs) then Some (sent cs ! unat (b - (a + 1))) else user_byte m1 b)"
      by auto
    have "user_byte m2 b = (if unat (b - a) < length (sent (c # cs)) then Some (sent (c # cs) ! unat (b - a)) else user_byte m b)" for b
    proof (cases "b = a")
      case True
      have "unat (- 1 :: word32) = 2 ^ 32 - 1" by (simp add: unsigned_minus_1_eq_mask mask_eq_exp_minus_1)
      then have "\<not> unat (b - (a + 1)) < length (sent cs)" using True Cons.prems(6) length_sent [of cs] by simp
      then show ?thesis using True False m2(4) [of b] m1(4) by simp
    next
      case ne: False
      then show ?thesis using next_address [OF ne] m2(4) [of b] m1(4) False by simp
    qed
    with m1 m2 False same_mapping_trans [OF m1(2) m2(2)] show ?thesis by (intro exI [of _ m2]) simp
  qed
qed

section \<open>Calls that use the console\<close>

definition console_ready :: "nachos \<Rightarrow> bool" where
  "console_ready s \<longleftrightarrow> tokens s synchWriteAvail = 0 \<and> tokens s WLineBlock = 1 \<and> tokens s RLineBlock = 1"

lemma console_ready_mach [simp]: "console_ready (s\<lparr>mach := x\<rparr>) = console_ready s"
  by (simp add: console_ready_def)

lemma write_console:
  assumes "calling s m" "console_ready s" "nat n \<le> length from"
  shows "\<exists>s'. SynchConsole_Write Y others from n s = Some (Returns n s') \<and> calling s' m \<and> console_ready s' \<and> typed s' = typed s
    \<and> display s' = display s @ take (nat n) from \<and> devices.more s' = devices.more s"
  using SynchConsole_Write_returns [of s n "from" Y others] assms by (auto simp: calling_def console_ready_def console_only_def)

lemma read_console:
  assumes "calling s m" "console_ready s" "read_line (nat n) ch0 (typed s) = Some (ch, got, rest)"
  shows "\<exists>s'. SynchConsole_Read Y others ch0 n s = Some (Returns (if ch = 1 then -1 else int (length got), got @ replicate (nat n - length got) 0) s')
    \<and> calling s' m \<and> console_ready s' \<and> typed s' = rest \<and> display s' = display s \<and> devices.more s' = devices.more s"
proof -
  have "quiet False s" "tokens s RLineBlock = 1" using assms(1,2) by (simp_all add: calling_def console_ready_def)
  from SynchConsole_Read_returns [OF this assms(3), of Y others] obtain s' i where
    "SynchConsole_Read Y others ch0 n s = Some (Returns (if ch = 1 then -1 else int (length got), got @ replicate (nat n - length got) 0) s')"
    "quiet False s'" "typed s' = rest" "display s' = display s" "tokens s' = (tokens s)(synchReadAvail := i)" "console_only s s'" by blast
  then show ?thesis using assms(1,2) by (auto simp: calling_def console_ready_def console_only_def semaphore_ids)
qed

lemma handler_break:
  assumes "mach s = Some m" "syscall_branch u (sint (registers m 2)) s = Some (Returns Break s1)" "mach s1 = Some m1"
  shows "ExceptionHandler u SyscallException s = Some (Returns True (s1\<lparr>mach := Some (next_pc m1)\<rparr>))"
  using assms by (simp add: ExceptionHandler_def get_reg_eq reg_defs IncreatePC_eq)

lemma syscall_numbers [simp]:
  "sint (word_of_int SC_PrintInt :: word32) = SC_PrintInt" "sint (word_of_int SC_ReadInt :: word32) = SC_ReadInt"
  "sint (word_of_int SC_PrintString :: word32) = SC_PrintString" "sint (word_of_int SC_ReadString :: word32) = SC_ReadString"
  "sint (word_of_int SC_Read :: word32) = SC_Read" "sint (word_of_int SC_Write :: word32) = SC_Write"
  "sint (word_of_int SC_Seek :: word32) = SC_Seek" "sint (word_of_int SC_Open :: word32) = SC_Open"
  "sint (word_of_int SC_Up :: word32) = SC_Up" "sint (word_of_int SC_Exec :: word32) = SC_Exec"
  by (simp_all add: syscall_codes)

text \<open>Decimal notation.\<close>

fun digits :: "nat \<Rightarrow> byte list" where
  "digits n = (if n < 10 then [of_nat (48 + n)] else digits (n div 10) @ [of_nat (48 + n mod 10)])"

declare digits.simps [simp del]
declare count_digits.simps [simp del]

definition decimal :: "int \<Rightarrow> byte list" where
  "decimal n = (if n < 0 then [45] else []) @ digits (nat \<bar>n\<bar>)"

lemma fill_digits_eq: "0 < n \<Longrightarrow> fill_digits (count_digits (int n)) (int n) = digits n"
proof (induction n rule: digits.induct)
  case (1 n)
  have c: "count_digits (int n) = Suc (count_digits (int (n div 10)))" using 1(2) by (subst count_digits.simps) (simp add: zdiv_int)
  have "int n mod 10 + 48 = int (48 + n mod 10)" by (simp add: zmod_int)
  then have d: "(word_of_int (int n mod 10 + 48) :: byte) = of_nat (48 + n mod 10)" by (simp only: of_int_of_nat_eq)
  show ?case
  proof (cases "n < 10")
    case True
    then have "count_digits (int (n div 10)) = 0" by (subst count_digits.simps) simp
    with True c d show ?thesis by (simp add: digits.simps)
  next
    case False
    then have "fill_digits (count_digits (int (n div 10))) (int (n div 10)) = digits (n div 10)" using 1 by simp
    with False c d show ?thesis by (subst digits.simps) (simp add: zdiv_int)
  qed
qed

lemma count_digits_length: "length (fill_digits k n) = k"
  by (induction k arbitrary: n) auto

lemma sint_uminus:
  fixes w :: word32
  assumes "w \<noteq> 0x80000000"
  shows "sint (- w) = - sint w"
proof -
  have "sint w \<noteq> - (2 ^ 31)"
  proof
    assume "sint w = - (2 ^ 31)"
    moreover have "w = word_of_int (sint w)" by simp
    ultimately have "w = word_of_int (- (2 ^ 31))" by (simp only:)
    with assms show False by simp
  qed
  moreover have "- (2 ^ 31) \<le> sint w" "sint w < 2 ^ 31" using sint_greater_eq [of w] sint_less [of w] by simp_all
  ultimately have "- (2 ^ 31) \<le> - sint w" "- sint w < 2 ^ 31" by linarith+
  then have "sint (word_of_int (- sint w) :: word32) = - sint w" by (simp only: sint_sbintrunc') (simp add: signed_take_bit_int_eq_self)
  then show ?thesis by simp
qed

lemma PrintInt_returns:
  assumes "calling s m" "console_ready s" "registers m 4 \<noteq> 0x80000000"
  shows "\<exists>s'. sys_PrintInt u s = Some (Returns Break s') \<and> calling s' m \<and> console_ready s' \<and> typed s' = typed s \<and> devices.more s' = devices.more s
    \<and> display s' = display s @ decimal (sint (registers m 4)) @ (if registers m 4 = 0 then [] else [0])"
proof -
  let ?w = "registers m 4" and ?Y = "do_yield u" and ?O = "other_threads u"
  have r: "get_reg 4 s = Some ?w" using assms(1) by (simp add: calling_def get_reg_eq reg_defs)
  show ?thesis
  proof (cases "?w = 0")
    case True
    from write_console [OF assms(1,2), of 1 "[48]" ?Y ?O] True r show ?thesis
      by (auto simp: sys_PrintInt_def decimal_def digits.simps)
  next
    case False
    then have nz: "sint ?w \<noteq> 0" by (simp add: signed_eq_0_iff)
    let ?n = "nat \<bar>sint ?w\<bar>"
    have num: "sint (if sint ?w < 0 then ?w * -1 else ?w) = int ?n" using sint_uminus [OF assms(3)] by simp
    obtain s1 k where s1: "(if sint ?w < 0 then SynchConsole_Write ?Y ?O [45] 1 s else Some (Returns 0 s)) = Some (Returns k s1)"
      "calling s1 m" "console_ready s1" "typed s1 = typed s" "devices.more s1 = devices.more s"
      "display s1 = display s @ (if sint ?w < 0 then [45] else [])"
      using write_console [OF assms(1,2), of 1 "[45]" ?Y ?O] assms by (cases "sint ?w < 0") auto
    let ?f = "fill_digits (count_digits (int ?n)) (int ?n) @ [0]"
    have len: "nat (int (count_digits (int ?n)) + 1) = length ?f" by (simp add: count_digits_length)
    from write_console [OF s1(2,3), of "int (count_digits (int ?n)) + 1" ?f ?Y ?O] len obtain s2 where s2:
      "SynchConsole_Write ?Y ?O ?f (int (count_digits (int ?n)) + 1) s1 = Some (Returns (int (count_digits (int ?n)) + 1) s2)"
      "calling s2 m" "console_ready s2" "typed s2 = typed s1" "display s2 = display s1 @ ?f" "devices.more s2 = devices.more s1" by auto
    have "sys_PrintInt u s = Some (Returns Break s2)"
      unfolding sys_PrintInt_def using r False s1(1) s2(1) by (simp only: bind.bind_lunit num Let_def then_run_simps if_False)
    moreover have "?f = digits ?n @ [0]" using fill_digits_eq [of ?n] nz by simp
    ultimately show ?thesis using s1 s2 False by (intro exI [of _ s2]) (simp add: decimal_def)
  qed
qed

text \<open>The smallest number is its own negation, so the loop that counts its digits ends at once.\<close>

lemma PrintInt_smallest:
  assumes "calling s m" "console_ready s" "registers m 4 = 0x80000000"
  shows "\<exists>s'. sys_PrintInt u s = Some (Returns Break s') \<and> calling s' m \<and> typed s' = typed s \<and> display s' = display s @ [45, 0]"
proof -
  let ?Y = "do_yield u" and ?O = "other_threads u"
  have r: "get_reg 4 s = Some 0x80000000" using assms(1,3) by (simp add: calling_def get_reg_eq reg_defs)
  obtain s1 where s1: "SynchConsole_Write ?Y ?O [45] 1 s = Some (Returns 1 s1)" "calling s1 m" "console_ready s1" "typed s1 = typed s" "display s1 = display s @ [45]"
    using write_console [OF assms(1,2), of 1 "[45]" ?Y ?O] by auto
  obtain s2 where s2: "SynchConsole_Write ?Y ?O [0] 1 s1 = Some (Returns 1 s2)" "calling s2 m" "typed s2 = typed s1" "display s2 = display s1 @ [0]"
    using write_console [OF s1(2,3), of 1 "[0]" ?Y ?O] by auto
  have "count_digits (- 2147483648) = 0" by (subst count_digits.simps) simp
  then have "sys_PrintInt u s = Some (Returns Break s2)" using r s1(1) s2(1) by (simp add: sys_PrintInt_def Let_def)
  then show ?thesis using s1 s2 by (intro exI [of _ s2]) simp
qed

text \<open>What \<^verbatim>\<open>PrintInt\<close> displays.\<close>

definition int_output :: "int \<Rightarrow> byte list" where
  "int_output n = (if n = - (2 ^ 31) then [45, 0] else decimal n @ (if n = 0 then [] else [0]))"

lemma PrintInt_prints:
  assumes "calling s m" "console_ready s"
  shows "\<exists>s'. sys_PrintInt u s = Some (Returns Break s') \<and> calling s' m \<and> typed s' = typed s \<and> display s' = display s @ int_output (sint (registers m 4))"
proof (cases "registers m 4 = 0x80000000")
  case True
  then show ?thesis using PrintInt_smallest [OF assms True, of u] by (simp add: int_output_def)
next
  case False
  have "sint (registers m 4) \<noteq> sint (0x80000000 :: word32)" using False signed_word_eqI by blast
  then have "sint (registers m 4) \<noteq> - (2 ^ 31)" by simp
  moreover have "registers m 4 = 0 \<longleftrightarrow> sint (registers m 4) = 0" by (simp add: signed_eq_0_iff)
  ultimately show ?thesis using PrintInt_returns [OF assms False, of u] by (auto simp: int_output_def)
qed

lemma digit_byte:
  assumes "d < 10"
  shows "48 \<le> sint (of_nat (48 + d) :: byte)" "sint (of_nat (48 + d) :: byte) \<le> 57"
    "(scast (of_nat (48 + d) :: byte) :: word32) - 48 = of_nat d" "(of_nat (48 + d) :: byte) \<notin> {0, 1, 10, 45}"
proof -
  have "d \<in> {0, 1, 2, 3, 4, 5, 6, 7, 8, 9}" using assms by auto
  then show "48 \<le> sint (of_nat (48 + d) :: byte)" "sint (of_nat (48 + d) :: byte) \<le> 57"
    "(scast (of_nat (48 + d) :: byte) :: word32) - 48 = of_nat d" "(of_nat (48 + d) :: byte) \<notin> {0, 1, 10, 45}"
    by (elim insertE emptyE; simp)+
qed

lemma parse_append:
  "parse_digits (xs @ ys) acc = (if fst (parse_digits xs acc) then parse_digits ys (snd (parse_digits xs acc)) else parse_digits xs acc)"
  by (induction xs arbitrary: acc) auto

lemma parse_digits_eq: "parse_digits (digits n) 0 = (True, of_nat n)"
proof (induction n rule: digits.induct)
  case (1 n)
  have m: "n mod 10 < 10" by simp
  show ?case
  proof (cases "n < 10")
    case True
    then show ?thesis using digit_byte [OF True] by (subst digits.simps) simp
  next
    case False
    have "of_nat (n div 10) * 10 + of_nat (n mod 10) = (of_nat (n div 10 * 10 + n mod 10) :: word32)"
      by (simp only: of_nat_add of_nat_mult of_nat_numeral)
    then have "of_nat (n div 10) * 10 + of_nat (n mod 10) = (of_nat n :: word32)" by (simp only: div_mult_mod_eq)
    then show ?thesis using 1 False digit_byte [OF m] by (subst digits.simps) (simp add: parse_append)
  qed
qed

lemma digits_set: "c \<in> set (digits n) \<Longrightarrow> c \<notin> {0, 1, 10, 45}"
proof (induction n rule: digits.induct)
  case (1 n)
  have m: "n mod 10 < 10" by simp
  show ?case
  proof (cases "n < 10")
    case True
    then have "digits n = [of_nat (48 + n)]" by (subst digits.simps) simp
    with 1(2) digit_byte(4) [OF True] show ?thesis by auto
  next
    case False
    then have "digits n = digits (n div 10) @ [of_nat (48 + n mod 10)]" by (subst digits.simps) simp
    with 1 False digit_byte(4) [OF m] show ?thesis by auto
  qed
qed

lemma digits_nonempty [simp]: "digits n \<noteq> []"
  by (subst digits.simps) simp

lemma digits_length: "n < 10 ^ Suc k \<Longrightarrow> length (digits n) \<le> Suc k"
proof (induction k arbitrary: n)
  case (Suc k)
  then have "n div 10 < 10 ^ Suc k" by (simp add: less_mult_imp_div_less mult.commute)
  with Suc.IH [of "n div 10"] show ?case by (subst digits.simps) simp
qed (subst digits.simps, simp)

lemma parse_decimal: "parse_int (decimal n) = (True, word_of_int n)"
proof (cases "n < 0")
  case True
  then have "n = - int (nat \<bar>n\<bar>)" by simp
  then have "(word_of_int n :: word32) = - of_nat (nat \<bar>n\<bar>)" by (metis of_int_minus of_int_of_nat_eq)
  with True show ?thesis by (simp add: parse_int_def decimal_def parse_digits_eq)
next
  case False
  have "hd (digits (nat \<bar>n\<bar>)) \<noteq> 45" using digits_set [of "hd (digits (nat \<bar>n\<bar>))" "nat \<bar>n\<bar>"] by auto
  moreover have "(word_of_int n :: word32) = of_nat (nat \<bar>n\<bar>)" using False by (metis abs_of_nonneg linorder_not_less of_int_of_nat_eq nat_0_le)
  ultimately show ?thesis using False by (simp add: parse_int_def decimal_def parse_digits_eq)
qed

lemma decimal_line:
  assumes "- (2 ^ 31) \<le> n" "n < 2 ^ 31"
  shows "\<forall>c \<in> set (decimal n). c \<noteq> 10 \<and> c \<noteq> 1" "length (decimal n) \<le> 11" "decimal n \<noteq> []"
proof -
  have "nat \<bar>n\<bar> < 10 ^ Suc 9" using assms by simp
  from digits_length [OF this] show "length (decimal n) \<le> 11" unfolding decimal_def by (cases "n < 0") simp_all
  show "\<forall>c \<in> set (decimal n). c \<noteq> 10 \<and> c \<noteq> 1" using digits_set by (fastforce simp: decimal_def)
  show "decimal n \<noteq> []" by (simp add: decimal_def)
qed

lemma read_line_eq:
  assumes "\<forall>c \<in> set xs. c \<noteq> 10 \<and> c \<noteq> 1" "length xs < n"
  shows "read_line n ch (xs @ 10 # rest) = Some (10, xs, rest)"
  using assms
proof (induction xs arbitrary: n ch)
  case Nil
  then show ?case by (cases n) simp_all
next
  case (Cons c xs)
  then show ?case by (cases n) simp_all
qed

lemma ReadInt_returns:
  assumes "calling s m" "console_ready s" "- (2 ^ 31) \<le> n" "n < 2 ^ 31" "typed s = decimal n @ 10 # rest"
  shows "\<exists>s1. sys_ReadInt u s = Some (Returns Break (s1\<lparr>mach := Some (m\<lparr>registers := (registers m)(2 := word_of_int n)\<rparr>)\<rparr>))
    \<and> calling s1 m \<and> console_ready s1 \<and> typed s1 = rest \<and> display s1 = display s \<and> devices.more s1 = devices.more s"
proof -
  note d = decimal_line [OF assms(3,4)]
  have "read_line (nat MaxBufferSize) (local_ch u) (typed s) = Some (10, decimal n, rest)"
    unfolding assms(5) using d by (intro read_line_eq) (simp_all add: MaxBufferSize_def)
  from read_console [OF assms(1,2) this, of "do_yield u" "other_threads u"] obtain s1 where s1:
    "SynchConsole_Read (do_yield u) (other_threads u) (local_ch u) MaxBufferSize s
       = Some (Returns (int (length (decimal n)), decimal n @ replicate (nat MaxBufferSize - length (decimal n)) 0) s1)"
    "calling s1 m" "console_ready s1" "typed s1 = rest" "display s1 = display s" "devices.more s1 = devices.more s" by auto
  have "mach s1 = Some m" using s1(2) by (simp add: calling_def)
  then show ?thesis using s1 d(3) by (intro exI [of _ s1]) (simp add: sys_ReadInt_def parse_decimal result_eq)
qed

section \<open>Calls that are refused\<close>

text \<open>The arguments for which \<^verbatim>\<open>SC_Read\<close>, \<^verbatim>\<open>SC_Write\<close> and \<^verbatim>\<open>SC_Seek\<close> leave the handler with \<^verbatim>\<open>return\<close> after an error message.\<close>

definition file_refused :: "(StubFile \<Rightarrow> bool) \<Rightarrow> int \<Rightarrow> nachos \<Rightarrow> bool" where
  "file_refused P file s \<longleftrightarrow> file < 0 \<or> file > 9 \<or> (\<exists>e. get_file (nat file) s = Some e \<and> (case e of None \<Rightarrow> True | Some f \<Rightarrow> P f))"

definition refused :: "nachos \<Rightarrow> machine \<Rightarrow> bool" where
  "refused s m \<longleftrightarrow>
     (let code = sint (registers m 2) in
      code = SC_Read \<and> (sint (registers m 5) < 0 \<or> file_refused (\<lambda>f. stub_type f = 3) (sint (registers m 6)) s)
      \<or> code = SC_Write \<and> (sint (registers m 5) < 0 \<or> file_refused (\<lambda>f. stub_type f = 2) (sint (registers m 6)) s)
      \<or> code = SC_Seek \<and> file_refused (\<lambda>f. sint (registers m 5) \<le> 1) (sint (registers m 5)) s)"

lemma refused_returns:
  assumes "mach s = Some m" "refused s m"
  shows "syscall_branch u (sint (registers m 2)) s = result (-1) Return s"
proof -
  have r: "get_reg 4 s = Some (registers m 4)" "get_reg 5 s = Some (registers m 5)" "get_reg 6 s = Some (registers m 6)"
    using assms(1) by (simp_all add: get_reg_eq reg_defs)
  consider "sint (registers m 2) = SC_Read" "sint (registers m 5) < 0 \<or> file_refused (\<lambda>f. stub_type f = 3) (sint (registers m 6)) s"
    | "sint (registers m 2) = SC_Write" "sint (registers m 5) < 0 \<or> file_refused (\<lambda>f. stub_type f = 2) (sint (registers m 6)) s"
    | "sint (registers m 2) = SC_Seek" "file_refused (\<lambda>f. sint (registers m 5) \<le> 1) (sint (registers m 5)) s"
    using assms(2) by (auto simp: refused_def Let_def)
  then show ?thesis
  proof cases
    case 1
    then have "syscall_branch u (sint (registers m 2)) s = sys_Read u s" by (simp add: syscall_branch_def syscall_codes)
    also have "\<dots> = result (-1) Return s" using 1(2) r by (auto simp: sys_Read_def file_refused_def Let_def split: option.splits)
    finally show ?thesis .
  next
    case 2
    then have "syscall_branch u (sint (registers m 2)) s = sys_Write u s" by (simp add: syscall_branch_def syscall_codes)
    also have "\<dots> = result (-1) Return s" using 2(2) r by (auto simp: sys_Write_def file_refused_def Let_def split: option.splits)
    finally show ?thesis .
  next
    case 3
    then have "syscall_branch u (sint (registers m 2)) s = sys_Seek s" by (simp add: syscall_branch_def syscall_codes)
    also have "\<dots> = result (-1) Return s" using 3(2) r by (auto simp: sys_Seek_def file_refused_def Let_def split: option.splits)
    finally show ?thesis .
  qed
qed

lemma unknown_code_halts:
  assumes "mach s = Some m" "registers m 2 = -1"
  shows "ExceptionHandler u SyscallException s = Some (Halts s)"
  using assms by (simp add: ExceptionHandler_def get_reg_eq reg_defs syscall_branch_def syscall_codes)

section \<open>Strings that cannot be read\<close>

text \<open>The calls that take a string in register 4, with the limit on its length.\<close>

definition string_limit :: "int \<Rightarrow> int option" where
  "string_limit code =
     (if code \<in> {SC_Create, SC_Open, SC_Exec, SC_CreateSemaphore, SC_Up, SC_Down} then Some (MaxFileLength + 1)
      else if code = SC_PrintString then Some MaxBufferSize else None)"

lemma string_calls:
  assumes "get_reg 4 s = Some a" "get_reg 5 s = Some b" "string_limit code = Some n" "User2System a n s = Some (Halts s')"
  shows "syscall_branch u code s = Some (Halts s')"
proof -
  have branch: "syscall_branch u SC_Create s = sys_Create s" "syscall_branch u SC_Open s = sys_Open s" "syscall_branch u SC_Exec s = sys_Exec u s"
    "syscall_branch u SC_CreateSemaphore s = sys_CreateSemaphore u s" "syscall_branch u SC_Up s = sys_Up u s"
    "syscall_branch u SC_Down s = sys_Down u s" "syscall_branch u SC_PrintString s = sys_PrintString u s"
    by (simp_all add: syscall_branch_def syscall_codes)
  consider "code \<in> {SC_Create, SC_Open, SC_Exec, SC_CreateSemaphore, SC_Up, SC_Down}" "n = MaxFileLength + 1" | "code = SC_PrintString" "n = MaxBufferSize"
    using assms(3) by (auto simp: string_limit_def split: if_splits)
  then show ?thesis
  proof cases
    case 1
    from 1(1) show ?thesis
      by (elim insertE emptyE)
        (use assms 1(2) in \<open>simp_all add: branch sys_Create_def sys_Open_def sys_Exec_def sys_CreateSemaphore_def sys_Up_def sys_Down_def\<close>)
  next
    case 2
    with assms show ?thesis by (simp add: branch sys_PrintString_def)
  qed
qed

lemma bad_string_halts:
  assumes "calling s m" "string_limit (sint (registers m 2)) = Some n" "user_string m (nat n) (registers m 4) = None"
  shows "\<exists>s'. ExceptionHandler u SyscallException s = Some (Halts s')"
proof -
  have k: "mach s = Some m" "in_kernel m" "page_tables_ok m" using assms(1) calling_in_kernel by (auto simp: calling_def)
  have "0 \<le> n" "n + 1 < 2 ^ 31" using assms(2) by (auto simp: string_limit_def MaxFileLength_def MaxBufferSize_def split: if_splits)
  from User2System_eq [OF k this, of "registers m 4"] assms(3) obtain s' where "User2System (registers m 4) n s = Some (Halts s')" by auto
  with string_calls [OF _ _ assms(2) this, of "registers m 5"] k(1) show ?thesis
    by (simp add: ExceptionHandler_def get_reg_eq reg_defs)
qed

section \<open>Calls on files\<close>

text \<open>The kernel after slot \<open>i\<close> of the open files and the host's files have changed.\<close>

definition set_fs :: "nat \<Rightarrow> StubFile option \<Rightarrow> host \<Rightarrow> nachos \<Rightarrow> nachos" where
  "set_fs i f h s = s\<lparr>fileSystem := (fileSystem s)\<lparr>stub_open := (stub_open (fileSystem s))[i := f], hst := h\<rparr>\<rparr>"

lemma set_fs_fields [simp]:
  "mach (set_fs i f h s) = mach s" "hst (fileSystem (set_fs i f h s)) = h" "stub_open (fileSystem (set_fs i f h s)) = (stub_open (fileSystem s))[i := f]"
  "set_fs i f h (set_fs i f' h' s) = set_fs i f h s" "set_fs i f h (s\<lparr>mach := x\<rparr>) = (set_fs i f h s)\<lparr>mach := x\<rparr>"
  "calling (set_fs i f h s) m = calling s m" "console_ready (set_fs i f h s) = console_ready s" "display (set_fs i f h s) = display s"
  by (simp_all add: set_fs_def calling_def quiet_def enabled_def console_ready_def tokens_def)

lemma put_file_eq:
  assumes "i < length (stub_open (fileSystem s))"
  shows "put_file i f s = Some (set_fs i f (hst (fileSystem s)) s)" "put_file i f (put_host h s) = Some (set_fs i f h s)"
  using assms by (simp_all add: put_file_def put_host_def set_fs_def)

lemma get_file_bound: "get_file i s = Some e \<Longrightarrow> i < length (stub_open (fileSystem s)) \<and> stub_open (fileSystem s) ! i = e"
  by (auto simp: get_file_def array_get_def split: if_splits)

text \<open>Slot \<open>i\<close> is an open file \<open>f\<close> that is not one of the console files, with its inode and offset.\<close>

definition regular_file :: "nat \<Rightarrow> nachos \<Rightarrow> StubFile \<Rightarrow> nat \<Rightarrow> int \<Rightarrow> bool" where
  "regular_file i s f ino off \<longleftrightarrow> i \<le> 9 \<and> get_file i s = Some (Some f) \<and> stub_type f \<noteq> 2 \<and> stub_type f \<noteq> 3
     \<and> fd_entry (stub_fd f) (hst (fileSystem s)) = Some (ino, off) \<and> 0 \<le> off"

lemma GetCurrentPos_eq: "fd_entry (stub_fd f) h = Some (ino, off) \<Longrightarrow> Stub_GetCurrentPos f h = Some (off, f\<lparr>currentOffset := off\<rparr>)"
  by (simp add: Stub_GetCurrentPos_def Tell_def)

definition written :: "nat \<Rightarrow> byte list \<Rightarrow> byte list" where
  "written n cs = cs @ replicate (n - length cs) 0"

lemma user_string_length: "user_string m n a = Some cs \<Longrightarrow> length cs \<le> n"
  by (induction n arbitrary: a cs) (fastforce simp: bind_eq_Some_conv split: if_splits)+

lemma sys_Write_file:
  assumes c: "calling s m" and f: "regular_file i s f ino off" and r: "sint (registers m 6) = int i" "sint (registers m 5) = int n"
    and n: "0 < n" "int n + 1 < 2 ^ 31" and str: "user_string m n (registers m 4) = Some cs"
  defines "h \<equiv> hst (fileSystem s)"
  shows "\<exists>m' h'. sys_Write u s = Some (Returns Break ((set_fs i (Some (f\<lparr>currentOffset := off + int n\<rparr>)) h' s)
        \<lparr>mach := Some (m'\<lparr>registers := (registers m')(2 := word_of_int (int n))\<rparr>)\<rparr>))
    \<and> same_mapping m m' \<and> mainMemory m' = mainMemory m \<and> page_tables_ok m'
    \<and> inodes h' = (inodes h)(ino := overwrite (inodes h ino) (nat off) (written n cs)) \<and> names h' = names h
    \<and> fd_entry (stub_fd f) h' = Some (ino, off + int n) \<and> (\<forall>g. g \<noteq> stub_fd f \<longrightarrow> fd_entry g h' = fd_entry g h)"
proof -
  have k: "mach s = Some m" "in_kernel m" "page_tables_ok m" using c calling_in_kernel by (auto simp: calling_def)
  have fd: "i \<le> 9" "get_file i s = Some (Some f)" "stub_type f \<noteq> 2" "stub_type f \<noteq> 3" "fd_entry (stub_fd f) h = Some (ino, off)" "0 \<le> off"
    using f by (simp_all add: regular_file_def h_def)
  have b: "i < length (stub_open (fileSystem s))" using get_file_bound [OF fd(2)] by simp
  let ?f1 = "f\<lparr>currentOffset := off\<rparr>" and ?f2 = "f\<lparr>currentOffset := off + int n\<rparr>"
  let ?s1 = "set_fs i (Some ?f1) h s" and ?buf = "cs @ replicate (nat (int n + 1) - length cs) 0"
  have "mach ?s1 = Some m" using k(1) by simp
  from User2System_eq [OF this k(2,3) _ n(2), of "registers m 4"] str obtain m' where m':
    "User2System (registers m 4) (int n) ?s1 = Some (Returns ?buf (?s1\<lparr>mach := Some m'\<rparr>))" "same_mapping m m'" "mainMemory m' = mainMemory m" "page_tables_ok m'"
    by auto
  have l: "length cs \<le> n" using user_string_length [OF str] .
  have t: "take (nat (int n)) ?buf = written n cs" using l by (simp add: written_def nat_add_distrib take_Cons' min_def)
  have "nat (int n) \<le> length ?buf" "0 < int n" using l n(1) by simp_all
  from Stub_Write_eq [of ?f1 h ino off "int n" ?buf] fd(5,6) this obtain h' where h':
    "Stub_Write ?buf (int n) ?f1 h = Some (int n, ?f2, h')" "inodes h' = (inodes h)(ino := overwrite (inodes h ino) (nat off) (written n cs))"
    "names h' = names h" "fd_entry (stub_fd f) h' = Some (ino, off + int n)" "\<forall>g. g \<noteq> stub_fd f \<longrightarrow> fd_entry g h' = fd_entry g h"
    unfolding t [symmetric] by auto
  have p: "Stub_GetCurrentPos f h = Some (off, ?f1)" "Stub_GetCurrentPos ?f2 h' = Some (off + int n, ?f2)"
    using GetCurrentPos_eq [OF fd(5)] GetCurrentPos_eq [of ?f2 h'] h'(4) by simp_all
  have "sys_Write u s = Some (Returns Break ((set_fs i (Some ?f2) h' s)\<lparr>mach := Some (m'\<lparr>registers := (registers m')(2 := word_of_int (int n))\<rparr>)\<rparr>))"
    using k(1) r fd(1-4) n b m'(1) h'(1) p
    by (simp add: sys_Write_def get_reg_eq reg_defs Let_def put_file_eq result_eq flip: h_def)
  then show ?thesis using m' h' by blast
qed

lemma sys_Read_file:
  assumes c: "calling s m" and f: "regular_file i s f ino off" and r: "sint (registers m 6) = int i" "sint (registers m 5) = int n"
    and n: "int n + 1 < 2 ^ 31" and str: "user_string m n (registers m 4) \<noteq> None" and inj: "frames_injective m"
  defines "h \<equiv> hst (fileSystem s)"
  defines "bs \<equiv> take n (drop (nat off) (inodes h ino))"
  assumes wr: "\<And>j. j < length bs \<Longrightarrow> user_writable m (registers m 4 + of_nat j)"
  shows "\<exists>m' h'. sys_Read u s = Some (Returns Break ((set_fs i (Some (f\<lparr>currentOffset := off + int (length bs)\<rparr>)) h' s)
        \<lparr>mach := Some (m'\<lparr>registers := (registers m')(2 := if bs = [] then -2 else word_of_int (int (length bs)))\<rparr>)\<rparr>))
    \<and> same_mapping m m' \<and> page_tables_ok m' \<and> inodes h' = inodes h \<and> names h' = names h
    \<and> fd_entry (stub_fd f) h' = Some (ino, off + int (length bs)) \<and> (\<forall>g. g \<noteq> stub_fd f \<longrightarrow> fd_entry g h' = fd_entry g h)
    \<and> (\<forall>b. user_byte m' b = (if unat (b - registers m 4) < length (sent bs) then Some (sent bs ! unat (b - registers m 4)) else user_byte m b))"
proof -
  let ?a = "registers m 4"
  have k: "mach s = Some m" "in_kernel m" "page_tables_ok m" using c calling_in_kernel by (auto simp: calling_def)
  have fd: "i \<le> 9" "get_file i s = Some (Some f)" "stub_type f \<noteq> 2" "stub_type f \<noteq> 3" "fd_entry (stub_fd f) h = Some (ino, off)" "0 \<le> off"
    using f by (simp_all add: regular_file_def h_def)
  have b: "i < length (stub_open (fileSystem s))" using get_file_bound [OF fd(2)] by simp
  let ?f1 = "f\<lparr>currentOffset := off\<rparr>" and ?f2 = "f\<lparr>currentOffset := off + int (length bs)\<rparr>"
  let ?s1 = "set_fs i (Some ?f1) h s"
  have "mach ?s1 = Some m" using k(1) by simp
  from User2System_eq [OF this k(2,3) _ n, of ?a] str obtain buf m1 where m1:
    "User2System ?a (int n) ?s1 = Some (Returns buf (?s1\<lparr>mach := Some m1\<rparr>))" "same_mapping m m1" "mainMemory m1 = mainMemory m" "page_tables_ok m1"
    by auto
  from Stub_Read_eq [of ?f1 h ino off "int n"] fd(5,6) obtain h' where h': "Stub_Read (int n) ?f1 h = Some (bs, ?f2, h')"
    "inodes h' = inodes h" "names h' = names h" "fd_entry (stub_fd f) h' = Some (ino, off + int (length bs))"
    "\<forall>g. g \<noteq> stub_fd f \<longrightarrow> fd_entry g h' = fd_entry g h"
    by (auto simp: bs_def)
  let ?s2 = "(set_fs i (Some ?f2) h' s)\<lparr>mach := Some m1\<rparr>"
  have p: "Stub_GetCurrentPos f h = Some (off, ?f1)" "Stub_GetCurrentPos ?f2 h' = Some (off + int (length bs), ?f2)"
    using GetCurrentPos_eq [OF fd(5)] GetCurrentPos_eq [of ?f2 h'] h'(4) by simp_all
  have v: "user_byte m1 x = user_byte m x" "user_writable m1 x = user_writable m x" for x
    using user_view_same [OF m1(2) k(3) m1(3)] by simp_all
  have "length bs < 2 ^ 32" using n by (simp add: bs_def)
  then obtain m2 where m2: "copy_out bs ?a ?s2 = Some (Returns (int (length (sent bs))) ((set_fs i (Some ?f2) h' s)\<lparr>mach := Some m2\<rparr>))" "same_mapping m1 m2"
    "page_tables_ok m2" "\<And>x. user_byte m2 x = (if unat (x - ?a) < length (sent bs) then Some (sent bs ! unat (x - ?a)) else user_byte m x)"
    using copy_out_eq [of ?s2 m1 bs ?a] same_mapping_kernel [OF m1(2) k(2)] m1(4) frames_injective_same [OF m1(2) k(3) inj] wr v by auto
  have "\<exists>m3. sys_Read u s = Some (Returns Break ((set_fs i (Some ?f2) h' s)\<lparr>mach := Some (m3\<lparr>registers := (registers m3)
      (2 := if bs = [] then -2 else word_of_int (int (length bs)))\<rparr>)\<rparr>)) \<and> same_mapping m m3 \<and> page_tables_ok m3
    \<and> (\<forall>x. user_byte m3 x = (if unat (x - ?a) < length (sent bs) then Some (sent bs ! unat (x - ?a)) else user_byte m x))"
  proof (cases "bs = []")
    case True
    then have "sys_Read u s = Some (Returns Break ((set_fs i (Some ?f2) h' s)\<lparr>mach := Some (m1\<lparr>registers := (registers m1)(2 := -2)\<rparr>)\<rparr>))"
      using k(1) r fd(1-4) b m1(1) h'(1) p by (simp add: sys_Read_def get_reg_eq reg_defs Let_def put_file_eq result_eq flip: h_def)
    with True m1 v show ?thesis by (intro exI [of _ m1]) simp
  next
    case False
    have "System2User ?a (int (length bs)) (bs @ drop (length bs) buf) ?s2 = copy_out bs ?a ?s2"
      using False by (simp add: System2User_def)
    with False have "sys_Read u s = Some (Returns Break ((set_fs i (Some ?f2) h' s)\<lparr>mach := Some (m2\<lparr>registers := (registers m2)
        (2 := word_of_int (int (length bs)))\<rparr>)\<rparr>))"
      using k(1) r fd(1-4) b m1(1) h'(1) p m2(1) by (simp add: sys_Read_def get_reg_eq reg_defs Let_def put_file_eq result_eq flip: h_def)
    with False m2 same_mapping_trans [OF m1(2) m2(2)] show ?thesis by (intro exI [of _ m2]) simp
  qed
  then show ?thesis using h' by blast
qed

section \<open>Properties of the system calls\<close>

lemma user_view_registers [simp]:
  "user_byte (m\<lparr>registers := r\<rparr>) a = user_byte m a" "user_writable (m\<lparr>registers := r\<rparr>) a = user_writable m a"
  "user_byte (next_pc m) a = user_byte m a"
  by (auto simp: user_byte_def user_writable_def translate_spec_def Let_def next_pc_def)

lemma user_string_None: "user_byte m a = None \<Longrightarrow> 0 < n \<Longrightarrow> user_string m n a = None"
  by (cases n) simp_all

lemma user_string_at:
  assumes "0 \<notin> set cs" "length cs < n" "\<And>j. j \<le> length cs \<Longrightarrow> user_byte m (a + of_nat j) = Some ((cs @ [0]) ! j)"
  shows "user_string m n a = Some (cs @ [0])"
  using assms
proof (induction cs arbitrary: a n)
  case Nil
  then show ?case using Nil.prems(3) [of 0] by (cases n) simp_all
next
  case (Cons c cs)
  have "user_byte m (a + 1 + of_nat j) = Some ((cs @ [0]) ! j)" if "j \<le> length cs" for j
    using Cons.prems(3) [of "Suc j"] that by (simp add: algebra_simps)
  with Cons.IH [of _ "a + 1"] Cons.prems(1,2) have "user_string m (n - 1) (a + 1) = Some (cs @ [0])" by simp
  then show ?case using Cons.prems(1,2) Cons.prems(3) [of 0] by (cases n) simp_all
qed

lemma unat_offset: "j < 2 ^ 32 \<Longrightarrow> unat (a + of_nat j - a :: word32) = j"
  by (simp add: unat_of_nat take_bit_nat_eq_self)

text \<open>A program that uses two pages, alone on a kernel with the given files.\<close>

definition sample_user :: "word32 \<Rightarrow> word32 \<Rightarrow> word32 \<Rightarrow> word32 \<Rightarrow> machine" where
  "sample_user r2 r4 r5 r6 = sample_machine\<lparr>registers := (\<lambda>_. 0)(2 := r2, 4 := r4, 5 := r5, 6 := r6)\<rparr>"

definition sample_call :: "machine \<Rightarrow> StubFS \<Rightarrow> nachos" where
  "sample_call m fs = (sample_kernel (the (STable_new [0])))\<lparr>mach := Some m, fileSystem := fs\<rparr>"

lemma sample_user_ok: "in_kernel (sample_user r2 r4 r5 r6)" "page_tables_ok (sample_user r2 r4 r5 r6)" "frames_injective (sample_user r2 r4 r5 r6)"
  "registers (sample_user r2 r4 r5 r6) 2 = r2" "registers (sample_user r2 r4 r5 r6) 4 = r4" "registers (sample_user r2 r4 r5 r6) 5 = r5"
  "registers (sample_user r2 r4 r5 r6) 6 = r6"
  using sample_machine_ok
  by (simp_all add: sample_user_def in_kernel_def reg_defs page_tables_ok_def frames_injective_def)

lemma sample_call_ok:
  assumes "in_kernel m" "page_tables_ok m"
  shows "calling (sample_call m fs) m" "console_ready (sample_call m fs)" "typed (sample_call m fs) = [72, 105, 10]" "display (sample_call m fs) = []"
    "mach (sample_call m fs) = Some m" "fileSystem (sample_call m fs) = fs"
proof -
  show "calling (sample_call m fs) m"
    using assms in_kernel_settled
    by (simp add: calling_def sample_call_def sample_kernel_def devices.extend_def quiet_def enabled_def alone_def sample_quiet_def sample_devices_def
      hw_ok_def ticks_ok_def mach_ok_def settled_mach up_def stat_def tcb_ok_def device_sync_def pend_of_def Statistics_new_def boot_def
      Semaphore_new_def Thread_new_def hw.extend_def Interrupt_new_def)
  show "console_ready (sample_call m fs)" "typed (sample_call m fs) = [72, 105, 10]" "display (sample_call m fs) = []"
    "mach (sample_call m fs) = Some m" "fileSystem (sample_call m fs) = fs"
    by (simp_all add: console_ready_def typed_def tokens_def sample_call_def sample_kernel_def devices.extend_def sample_quiet_def sample_devices_def
      EOF_char_def Semaphore_new_def semaphore_ids)
qed

definition sample_unknowns :: unknowns where
  "sample_unknowns = \<lparr>do_yield = (\<lambda>s. None), other_threads = (\<lambda>t s. None), stale_name = [], new_registers = (\<lambda>_. 0), local_ch = 0,
     flow_off = (\<lambda>r. r), left_over = 0\<rparr>"

lemma sample_view: "user_byte sample_machine a = (if unat a < 1024 then Some 0 else None)" "user_writable sample_machine a \<longleftrightarrow> unat a < 1024"
proof -
  have "unat a div 512 < 2 \<longleftrightarrow> unat a < 1024" by auto
  moreover have "[sample_entry 5, sample_entry 3] ! k = sample_entry (if k = 0 then 5 else 3)" if "k < 2" for k using that by (cases k) auto
  ultimately show "user_byte sample_machine a = (if unat a < 1024 then Some 0 else None)" "user_writable sample_machine a \<longleftrightarrow> unat a < 1024"
    by (auto simp: user_byte_def user_writable_def translate_spec_def Let_def sample_machine_def Machine_new_def machine_sizes sample_entry_def)
qed

lemma sample_user_view: "user_byte (sample_user r2 r4 r5 r6) a = (if unat a < 1024 then Some 0 else None)" "user_writable (sample_user r2 r4 r5 r6) a \<longleftrightarrow> unat a < 1024"
  using sample_view by (simp_all add: sample_user_def)

text \<open>C21. Strings cross the boundary between a program and the kernel unchanged. What \<open>System2User\<close> writes, at addresses that the program may
  write, is what \<open>User2System\<close> reads there afterwards, padded with zeros to the limit; no other byte of the program changes.\<close>

theorem strings_cross_boundary:
  assumes "calling s m" "frames_injective m" "0 \<notin> set cs" "length cs < nat limit" "limit + 1 < 2 ^ 31"
    "\<And>j. j \<le> length cs \<Longrightarrow> user_writable m (a + of_nat j)"
  shows "\<exists>s1 m1 s2. System2User a (int (length cs) + 1) (cs @ [0]) s = Some (Returns (int (length cs) + 1) s1) \<and> calling s1 m1
    \<and> (\<forall>b. length cs < unat (b - a) \<longrightarrow> user_byte m1 b = user_byte m b)
    \<and> User2System a limit s1 = Some (Returns (cs @ replicate (nat limit + 1 - length cs) 0) s2)"
proof -
  have k: "mach s = Some m" "in_kernel m" "page_tables_ok m" using assms(1) calling_in_kernel by (auto simp: calling_def)
  have l: "length (cs @ [0]) < 2 ^ 32" using assms(4,5) by simp
  have "\<And>j. j < length (cs @ [0]) \<Longrightarrow> user_writable m (a + of_nat j)" using assms(6) by simp
  from copy_out_eq [OF k assms(2) this l] assms(3) obtain m1 where m1:
    "copy_out (cs @ [0]) a s = Some (Returns (int (length cs) + 1) (s\<lparr>mach := Some m1\<rparr>))" "same_mapping m m1" "page_tables_ok m1"
    "\<And>b. user_byte m1 b = (if unat (b - a) < Suc (length cs) then Some ((cs @ [0]) ! unat (b - a)) else user_byte m b)"
    by auto
  have k1: "in_kernel m1" using same_mapping_kernel [OF m1(2) k(2)] .
  have "user_byte m1 (a + of_nat j) = Some ((cs @ [0]) ! j)" if "j \<le> length cs" for j
    using m1(4) [of "a + of_nat j"] unat_offset [of j a] that l by simp
  then have str: "user_string m1 (nat limit) a = Some (cs @ [0])" using assms(3,4) by (intro user_string_at)
  have "0 \<le> limit" using assms(4) by simp
  from User2System_eq [OF _ k1 m1(3) this assms(5), of "s\<lparr>mach := Some m1\<rparr>" a] str assms(4) obtain s2 where
    s2: "User2System a limit (s\<lparr>mach := Some m1\<rparr>) = Some (Returns (cs @ 0 # replicate (nat (limit + 1) - Suc (length cs)) 0) s2)" by auto
  have "0 # replicate (nat (limit + 1) - Suc (length cs)) 0 = replicate (nat limit + 1 - length cs) 0"
    using assms(4) by (simp add: nat_add_distrib Suc_diff_le flip: replicate_Suc)
  with s2 have "User2System a limit (s\<lparr>mach := Some m1\<rparr>) = Some (Returns (cs @ replicate (nat limit + 1 - length cs) 0) s2)" by simp
  moreover have "calling (s\<lparr>mach := Some m1\<rparr>) m1" using assms(1) k1 m1(2,3) by (intro calling_update) (simp_all add: same_mapping_def)
  moreover have "System2User a (int (length cs) + 1) (cs @ [0]) s = Some (Returns (int (length cs) + 1) (s\<lparr>mach := Some m1\<rparr>))"
    using m1(1) by (simp add: System2User_def nat_add_distrib)
  ultimately show ?thesis using m1(4) by (intro exI [of _ "s\<lparr>mach := Some m1\<rparr>"] exI [of _ m1] exI [of _ s2]) simp
qed

definition sample_fs :: "byte list \<Rightarrow> StubFS" where
  "sample_fs bs = \<lparr>stub_open = [None, None, Some (StubFile_new 3 0)] @ replicate 7 None, stub_index = 2,
     hst = \<lparr>inodes = (\<lambda>_. bs), names = Map.empty, fds = [Some (0, 0)], next_inode = 1, denied = (\<lambda>_. False)\<rparr>\<rparr>"

theorem strings_cross_boundary_witness:
  "\<exists>s1 s2. System2User 510 4 [75, 69, 89, 0] (sample_call (sample_user 0 0 0 0) (sample_fs [])) = Some (Returns 4 s1)
    \<and> User2System 510 6 s1 = Some (Returns [75, 69, 89, 0, 0, 0, 0] s2)"
proof -
  have w: "user_writable (sample_user 0 0 0 0) (510 + of_nat j)" if "j \<le> length ([75, 69, 89] :: byte list)" for j
  proof -
    have "j \<in> {0, 1, 2, 3}" using that by auto
    then show ?thesis by (elim insertE emptyE) (simp_all add: sample_user_view)
  qed
  have "(0 :: byte) \<notin> set [75, 69, 89]" "length ([75, 69, 89] :: byte list) < nat 6" "(6 :: int) + 1 < 2 ^ 31" by simp_all
  from strings_cross_boundary [OF sample_call_ok(1) [OF sample_user_ok(1,2)] sample_user_ok(3) this w, of "sample_fs []"] show ?thesis
    by (auto simp: numeral_eq_Suc)
qed

text \<open>C22. Integers on the console. \<^verbatim>\<open>PrintInt\<close> displays 0 as the digit, the smallest number -2147483648 as a minus sign and a zero byte, and every other
  number in decimal notation followed by a zero byte. \<^verbatim>\<open>ReadInt\<close>, when the decimal notation of a number is typed as a line, puts that number in register 2, with the
  characters after the line left for the next call. Both return to the instruction after the call. (For the smallest number both rest on
  32-bit arithmetic that wraps around.)\<close>

theorem integers_survive_console:
  assumes "calling s m" "console_ready s" "- (2 ^ 31) \<le> n" "n < 2 ^ 31"
  shows "(registers m 2 = word_of_int SC_PrintInt \<and> registers m 4 = word_of_int n \<longrightarrow>
      (\<exists>s'. ExceptionHandler u SyscallException s = Some (Returns True s') \<and> calling s' (next_pc m) \<and> typed s' = typed s
        \<and> display s' = display s @ (if n = - (2 ^ 31) then [45, 0] else if n = 0 then decimal 0 else decimal n @ [0])))
    \<and> (registers m 2 = word_of_int SC_ReadInt \<and> typed s = decimal n @ 10 # rest \<longrightarrow>
      (\<exists>s'. ExceptionHandler u SyscallException s = Some (Returns True s')
        \<and> calling s' (next_pc (m\<lparr>registers := (registers m)(2 := word_of_int n)\<rparr>)) \<and> typed s' = rest \<and> display s' = display s))"
proof (intro conjI impI)
  have k: "mach s = Some m" using assms(1) by (simp add: calling_def)
  have sn: "sint (word_of_int n :: word32) = n" using assms(3,4) by (simp only: sint_sbintrunc') (simp add: signed_take_bit_int_eq_self)
  {
    assume a: "registers m 2 = word_of_int SC_PrintInt \<and> registers m 4 = word_of_int n"
    from PrintInt_prints [OF assms(1,2), of u] obtain s1 where s1: "sys_PrintInt u s = Some (Returns Break s1)" "calling s1 m" "typed s1 = typed s"
      "display s1 = display s @ int_output (sint (registers m 4))" by blast
    have "syscall_branch u (sint (registers m 2)) s = Some (Returns Break s1)" using a s1(1) by (simp add: syscall_branch_def) (simp add: syscall_codes)
    moreover have "mach s1 = Some m" using s1(2) by (simp add: calling_def)
    ultimately show "\<exists>s'. ExceptionHandler u SyscallException s = Some (Returns True s') \<and> calling s' (next_pc m) \<and> typed s' = typed s
        \<and> display s' = display s @ (if n = - (2 ^ 31) then [45, 0] else if n = 0 then decimal 0 else decimal n @ [0])"
      using handler_break [OF k] calling_next_pc [OF s1(2)] s1 a sn by (intro exI [of _ "s1\<lparr>mach := Some (next_pc m)\<rparr>"]) (simp add: int_output_def)
  next
    assume a: "registers m 2 = word_of_int SC_ReadInt \<and> typed s = decimal n @ 10 # rest"
    let ?m = "m\<lparr>registers := (registers m)(2 := word_of_int n)\<rparr>"
    from ReadInt_returns [OF assms(1-4), of rest u] a obtain s1 where
      s1: "sys_ReadInt u s = Some (Returns Break (s1\<lparr>mach := Some ?m\<rparr>))" "calling s1 m" "typed s1 = rest" "display s1 = display s" by blast
    have "syscall_branch u (sint (registers m 2)) s = Some (Returns Break (s1\<lparr>mach := Some ?m\<rparr>))"
      using a s1(1) by (simp add: syscall_branch_def) (simp add: syscall_codes)
    from handler_break [OF k this, of ?m] calling_next_pc [OF calling_result [OF s1(2), of "word_of_int n"]] s1
    show "\<exists>s'. ExceptionHandler u SyscallException s = Some (Returns True s')
        \<and> calling s' (next_pc ?m) \<and> typed s' = rest \<and> display s' = display s"
      by (intro exI [of _ "s1\<lparr>mach := Some (next_pc ?m)\<rparr>"]) simp
  }
qed

theorem integers_survive_console_witness:
  "\<exists>s'. ExceptionHandler sample_unknowns SyscallException (sample_call (sample_user 12 (-42) 0 0) (sample_fs [])) = Some (Returns True s')
    \<and> display s' = [45, 52, 50, 0]"
proof -
  have "decimal (-42) = [45, 52, 50]" by (simp add: decimal_def digits.simps)
  with integers_survive_console [where s = "sample_call (sample_user 12 (-42) 0 0) (sample_fs [])" and m = "sample_user 12 (-42) 0 0"
    and n = "-42" and u = sample_unknowns, OF sample_call_ok(1,2) [OF sample_user_ok(1,2)]]
  show ?thesis by (auto simp: sample_user_ok sample_call_ok SC_PrintInt_def)
qed

text \<open>C24. A failed \<^verbatim>\<open>Read\<close>, \<^verbatim>\<open>Write\<close> or \<^verbatim>\<open>Seek\<close> shuts the machine down. Where the handler refuses the arguments it stores -1 in register 2 and
  leaves without advancing the program counters; nothing else changes. The program then executes the same \<^verbatim>\<open>syscall\<close> instruction again, with -1
  as the code of the call, and that call halts.\<close>

theorem refused_call_halts:
  assumes "mach s = Some m" "refused s m"
  shows "\<exists>s'. ExceptionHandler u SyscallException s = Some (Returns True s') \<and> s' = s\<lparr>mach := Some (m\<lparr>registers := (registers m)(2 := -1)\<rparr>)\<rparr>
    \<and> ExceptionHandler u SyscallException s' = Some (Halts s')"
proof -
  let ?s = "s\<lparr>mach := Some (m\<lparr>registers := (registers m)(2 := -1)\<rparr>)\<rparr>"
  have "ExceptionHandler u SyscallException s = Some (Returns True ?s)"
    using assms refused_returns [OF assms, of u] by (simp add: ExceptionHandler_def get_reg_eq reg_defs result_eq)
  moreover have "ExceptionHandler u SyscallException ?s = Some (Halts ?s)" by (rule unknown_code_halts [where m = "m\<lparr>registers := (registers m)(2 := -1)\<rparr>"]) simp_all
  ultimately show ?thesis by blast
qed

theorem refused_call_halts_witness:
  "\<exists>s'. ExceptionHandler sample_unknowns SyscallException (sample_call (sample_user 6 0 5 17) (sample_fs [])) = Some (Returns True s')
    \<and> ExceptionHandler sample_unknowns SyscallException s' = Some (Halts s')"
proof -
  have "refused (sample_call (sample_user 6 0 5 17) (sample_fs [])) (sample_user 6 0 5 17)"
    by (simp add: refused_def file_refused_def sample_user_ok syscall_codes)
  from refused_call_halts [OF sample_call_ok(5) [OF sample_user_ok(1,2)] this] show ?thesis by blast
qed

text \<open>C23. A pointer that a program may not use never reaches the kernel's data: when the string that a call takes in register 4 is not readable
  up to its end or the limit, the machine halts.\<close>

theorem bad_pointer_halts:
  assumes "calling s m" "string_limit (sint (registers m 2)) = Some n" "user_string m (nat n) (registers m 4) = None"
  shows "\<exists>s'. ExceptionHandler u SyscallException s = Some (Halts s')"
  using assms by (rule bad_string_halts)

theorem bad_pointer_halts_witness:
  "\<exists>s'. ExceptionHandler sample_unknowns SyscallException (sample_call (sample_user 5 2000 0 0) (sample_fs [])) = Some (Halts s')"
proof -
  have "string_limit (sint (registers (sample_user 5 2000 0 0) 2)) = Some 33"
    by (simp add: string_limit_def sample_user_ok syscall_codes MaxFileLength_def)
  moreover have "user_string (sample_user 5 2000 0 0) (nat 33) (registers (sample_user 5 2000 0 0) 4) = None"
    by (intro user_string_None) (simp_all add: sample_user_ok sample_user_view)
  ultimately show ?thesis by (rule bad_pointer_halts [OF sample_call_ok(1) [OF sample_user_ok(1,2)]])
qed

lemma user_string_sent:
  assumes "\<And>j. j < length cs \<Longrightarrow> user_byte m (a + of_nat j) = Some (cs ! j)"
  shows "user_string m (length cs) a = Some (sent cs)"
  using assms
proof (induction cs arbitrary: a)
  case (Cons c cs)
  have "user_byte m (a + 1 + of_nat j) = Some (cs ! j)" if "j < length cs" for j
    using Cons.prems [of "Suc j"] that by (simp add: algebra_simps)
  with Cons.IH [of "a + 1"] Cons.prems [of 0] show ?case by simp
qed simp

text \<open>What the file receives of the bytes \<open>cs\<close>, and what a reader of these bytes receives.\<close>

lemma sent_written: "sent (written (length cs) (sent cs)) = sent cs" "length (written (length cs) (sent cs)) = length cs"
  "0 \<notin> set cs \<Longrightarrow> written (length cs) (sent cs) = cs"
  by (induction cs) (auto simp: written_def)

lemma user_string_readable: "(\<And>j. j < n \<Longrightarrow> user_byte m (a + of_nat j) \<noteq> None) \<Longrightarrow> user_string m n a \<noteq> None"
proof (induction n arbitrary: a)
  case (Suc n)
  have "user_byte m (a + 1 + of_nat j) \<noteq> None" if "j < n" for j using Suc.prems [of "Suc j"] that by (simp add: algebra_simps)
  with Suc.IH [of "a + 1"] obtain ys where "user_string m n (a + 1) = Some ys" by auto
  then show ?case using Suc.prems [of 0] by auto
qed simp

lemma writable_readable: "user_writable m a \<Longrightarrow> user_byte m a \<noteq> None"
  by (auto simp: user_writable_def user_byte_def translate_spec_def Let_def split: if_splits)

lemma read_call:
  assumes c: "calling s m" "frames_injective m" "regular_file i s f ino off" and r: "registers m 2 = word_of_int SC_Read" "sint (registers m 6) = int i"
    "sint (registers m 5) = int (length cs)" and n: "int (length cs) + 1 < 2 ^ 31" and cs: "cs \<noteq> []"
    and data: "take (length cs) (drop (nat off) (inodes (hst (fileSystem s)) ino)) = cs"
    and wr: "\<And>j. j < length cs \<Longrightarrow> user_writable m (registers m 4 + of_nat j)"
  shows "\<exists>s' m'. ExceptionHandler u SyscallException s = Some (Returns True s') \<and> mach s' = Some m'
    \<and> registers m' 2 = of_nat (length cs) \<and> (\<forall>j < length (sent cs). user_byte m' (registers m 4 + of_nat j) = Some (sent cs ! j))
    \<and> (\<forall>b. length (sent cs) \<le> unat (b - registers m 4) \<longrightarrow> user_byte m' b = user_byte m b)"
proof -
  have k: "mach s = Some m" using c(1) by (simp add: calling_def)
  have "user_string m (length cs) (registers m 4) \<noteq> None" using wr writable_readable by (intro user_string_readable) blast
  from sys_Read_file [OF c(1,3) r(2,3) n this c(2), of u] wr obtain m1 h1 where m1:
    "sys_Read u s = Some (Returns Break ((set_fs i (Some (f\<lparr>currentOffset := off + int (length cs)\<rparr>)) h1 s)
        \<lparr>mach := Some (m1\<lparr>registers := (registers m1)(2 := word_of_int (int (length cs)))\<rparr>)\<rparr>))"
    "\<And>b. user_byte m1 b = (if unat (b - registers m 4) < length (sent cs) then Some (sent cs ! unat (b - registers m 4)) else user_byte m b)"
    unfolding data using cs by auto
  let ?m = "m1\<lparr>registers := (registers m1)(2 := word_of_int (int (length cs)))\<rparr>"
  have "syscall_branch u (sint (registers m 2)) s = sys_Read u s" using r(1) by (simp add: syscall_branch_def) (simp add: syscall_codes)
  from handler_break [OF k, of u _ ?m] this m1(1) have "\<exists>s'. ExceptionHandler u SyscallException s = Some (Returns True s') \<and> mach s' = Some (next_pc ?m)"
    by auto
  moreover have "registers (next_pc ?m) 2 = of_nat (length cs)" by (simp add: next_pc_def reg_defs)
  moreover have "user_byte (next_pc ?m) (registers m 4 + of_nat j) = Some (sent cs ! j)" if "j < length (sent cs)" for j
    using m1(2) [of "registers m 4 + of_nat j"] unat_offset [of j "registers m 4"] that n length_sent [of cs] by simp
  moreover have "user_byte (next_pc ?m) b = user_byte m b" if "length (sent cs) \<le> unat (b - registers m 4)" for b using m1(2) [of b] that by simp
  ultimately show ?thesis by blast
qed

text \<open>C20. Data in files, up to the first zero byte. \<^verbatim>\<open>Write\<close> of \<open>n\<close> bytes at the offset of an open file returns \<open>n\<close>, replaces exactly \<open>n\<close> bytes of the
  file and changes no other file; what it writes is the bytes of the buffer up to the first zero byte, and zeros from there on. When the file is read later at that
  offset, by any program and through any slot that has it open, \<^verbatim>\<open>Read\<close> returns \<open>n\<close>; the reader's memory gets the written bytes up to and with the first zero byte
  (\<open>sent cs\<close>), and no other byte of it changes. So bytes without a zero among them survive the round trip, and of others the part after the first
  zero is lost.\<close>

theorem file_data_roundtrip:
  assumes "calling s m" "regular_file i s f ino off" "registers m 2 = word_of_int SC_Write" "sint (registers m 6) = int i"
    "sint (registers m 5) = int (length cs)" "int (length cs) + 1 < 2 ^ 31" "cs \<noteq> []"
    "\<And>j. j < length cs \<Longrightarrow> user_byte m (registers m 4 + of_nat j) = Some (cs ! j)"
  shows "\<exists>s1 m1. ExceptionHandler u SyscallException s = Some (Returns True s1) \<and> mach s1 = Some m1 \<and> registers m1 2 = of_nat (length cs)
    \<and> inodes (hst (fileSystem s1)) = (inodes (hst (fileSystem s)))(ino := overwrite (inodes (hst (fileSystem s)) ino) (nat off) (written (length cs) (sent cs)))
    \<and> (0 \<notin> set cs \<longrightarrow> sent cs = cs \<and> written (length cs) (sent cs) = cs)
    \<and> (\<forall>s2 m2 k f2 u2. calling s2 m2 \<and> frames_injective m2 \<and> regular_file k s2 f2 ino off \<and> registers m2 2 = word_of_int SC_Read
        \<and> sint (registers m2 6) = int k \<and> sint (registers m2 5) = int (length cs)
        \<and> inodes (hst (fileSystem s2)) ino = inodes (hst (fileSystem s1)) ino \<and> (\<forall>j < length cs. user_writable m2 (registers m2 4 + of_nat j)) \<longrightarrow>
        (\<exists>s3 m3. ExceptionHandler u2 SyscallException s2 = Some (Returns True s3) \<and> mach s3 = Some m3 \<and> registers m3 2 = of_nat (length cs)
          \<and> (\<forall>j < length (sent cs). user_byte m3 (registers m2 4 + of_nat j) = Some (sent cs ! j))
          \<and> (\<forall>b. length (sent cs) \<le> unat (b - registers m2 4) \<longrightarrow> user_byte m3 b = user_byte m2 b)))"
proof -
  let ?w = "written (length cs) (sent cs)"
  have k: "mach s = Some m" using assms(1) by (simp add: calling_def)
  have str: "user_string m (length cs) (registers m 4) = Some (sent cs)" using assms(8) by (rule user_string_sent)
  from sys_Write_file [OF assms(1,2,4,5) _ assms(6) str, of u] assms(7) obtain m1 h1 where m1:
    "sys_Write u s = Some (Returns Break ((set_fs i (Some (f\<lparr>currentOffset := off + int (length cs)\<rparr>)) h1 s)
        \<lparr>mach := Some (m1\<lparr>registers := (registers m1)(2 := word_of_int (int (length cs)))\<rparr>)\<rparr>))"
    "inodes h1 = (inodes (hst (fileSystem s)))(ino := overwrite (inodes (hst (fileSystem s)) ino) (nat off) ?w)" by auto
  let ?m = "m1\<lparr>registers := (registers m1)(2 := word_of_int (int (length cs)))\<rparr>"
  let ?s = "(set_fs i (Some (f\<lparr>currentOffset := off + int (length cs)\<rparr>)) h1 s)\<lparr>mach := Some (next_pc ?m)\<rparr>"
  have "syscall_branch u (sint (registers m 2)) s = sys_Write u s" using assms(3) by (simp add: syscall_branch_def) (simp add: syscall_codes)
  from handler_break [OF k, of u _ ?m] this m1(1) have "ExceptionHandler u SyscallException s = Some (Returns True ?s)" by simp
  moreover have "registers (next_pc ?m) 2 = of_nat (length cs)" by (simp add: next_pc_def reg_defs)
  moreover have fs: "inodes (hst (fileSystem ?s)) = (inodes (hst (fileSystem s)))(ino := overwrite (inodes (hst (fileSystem s)) ino) (nat off) ?w)"
    using m1(2) by simp
  moreover have "\<exists>s3 m3. ExceptionHandler u2 SyscallException s2 = Some (Returns True s3) \<and> mach s3 = Some m3 \<and> registers m3 2 = of_nat (length cs)
      \<and> (\<forall>j < length (sent cs). user_byte m3 (registers m2 4 + of_nat j) = Some (sent cs ! j))
      \<and> (\<forall>b. length (sent cs) \<le> unat (b - registers m2 4) \<longrightarrow> user_byte m3 b = user_byte m2 b)"
    if that: "calling s2 m2 \<and> frames_injective m2 \<and> regular_file k s2 f2 ino off \<and> registers m2 2 = word_of_int SC_Read
        \<and> sint (registers m2 6) = int k \<and> sint (registers m2 5) = int (length cs)
        \<and> inodes (hst (fileSystem s2)) ino = inodes (hst (fileSystem ?s)) ino \<and> (\<forall>j < length cs. user_writable m2 (registers m2 4 + of_nat j))"
    for s2 m2 k f2 u2
  proof -
    have "take (length ?w) (drop (nat off) (inodes (hst (fileSystem s2)) ino)) = ?w" using that fs by (simp add: overwrite_slice)
    moreover have "?w \<noteq> []" using sent_written(2) [of cs] assms(7) by auto
    ultimately show ?thesis using that read_call [of s2 m2 k f2 ino off ?w u2] assms(6) unfolding sent_written by blast
  qed
  moreover have "mach ?s = Some (next_pc ?m)" by simp
  moreover have "0 \<notin> set cs \<longrightarrow> sent cs = cs \<and> ?w = cs" using sent_written(3) by simp
  ultimately show ?thesis by blast
qed

lemma sample_regular: "regular_file 2 (sample_call m (sample_fs bs)) (StubFile_new 3 0) 0 0"
  by (simp add: regular_file_def sample_call_def sample_fs_def get_file_def fd_entry_def StubFile_new_def)

theorem file_data_roundtrip_witness:
  "\<exists>s1 s3 m3. ExceptionHandler sample_unknowns SyscallException (sample_call ((sample_user 7 100 2 2)\<lparr>mainMemory := (\<lambda>_. 65)\<rparr>) (sample_fs []))
      = Some (Returns True s1) \<and> inodes (hst (fileSystem s1)) 0 = [65, 65]
    \<and> ExceptionHandler sample_unknowns SyscallException (sample_call (sample_user 6 200 2 2) (sample_fs [65, 65])) = Some (Returns True s3)
    \<and> mach s3 = Some m3 \<and> user_byte m3 200 = Some 65 \<and> user_byte m3 201 = Some 65"
proof -
  let ?m = "(sample_user 7 100 2 2)\<lparr>mainMemory := (\<lambda>_. 65)\<rparr>" and ?m2 = "sample_user 6 200 2 2"
  let ?s = "sample_call ?m (sample_fs [])" and ?s2 = "sample_call ?m2 (sample_fs [65, 65])" and ?cs = "[65, 65] :: byte list"
  have k: "in_kernel ?m" "page_tables_ok ?m" using sample_user_ok(1,2) [of 7 100 2 2] by (simp_all add: in_kernel_def page_tables_ok_def)
  have two: "j = 0 \<or> j = 1" if "j < length ?cs" for j using that by auto
  have byte: "user_byte ?m a = (if unat a < 1024 then Some 65 else None)" for a
    using sample_user_view(1) [of 7 100 2 2 a] by (auto simp: user_byte_def translate_spec_def Let_def split: if_splits)
  have mem: "user_byte ?m (registers ?m 4 + of_nat j) = Some (?cs ! j)" if "j < length ?cs" for j
    using two [OF that] byte by (auto simp: sample_user_ok)
  have "registers ?m 2 = word_of_int SC_Write" "sint (registers ?m 6) = int 2" "sint (registers ?m 5) = int (length ?cs)"
    "int (length ?cs) + 1 < 2 ^ 31" "?cs \<noteq> []"
    by (simp_all add: sample_user_ok SC_Write_def)
  note rt = file_data_roundtrip [of ?s ?m 2 "StubFile_new 3 0" 0 0 ?cs sample_unknowns, OF sample_call_ok(1) [OF k] sample_regular this]
  note c2 = sample_call_ok(1) [OF sample_user_ok(1,2), of 6 200 2 2 "sample_fs [65, 65]"] sample_user_ok(3) [of 6 200 2 2]
    sample_regular [of ?m2 "[65, 65]"]
  have wr: "user_writable ?m2 (registers ?m2 4 + of_nat j)" if "j < length ?cs" for j
    using two [OF that] by (auto simp: sample_user_ok sample_user_view)
  have r2: "registers ?m2 2 = word_of_int SC_Read" "sint (registers ?m2 6) = int 2" "sint (registers ?m2 5) = int (length ?cs)"
    by (simp_all add: sample_user_ok SC_Read_def)
  from rt obtain s1 where s1: "ExceptionHandler sample_unknowns SyscallException ?s = Some (Returns True s1)"
    "inodes (hst (fileSystem s1)) = (inodes (hst (fileSystem ?s)))(0 := overwrite (inodes (hst (fileSystem ?s)) 0) (nat 0) (written (length ?cs) (sent ?cs)))"
    "inodes (hst (fileSystem ?s2)) 0 = inodes (hst (fileSystem s1)) 0 \<longrightarrow>
      (\<exists>s3 m3. ExceptionHandler sample_unknowns SyscallException ?s2 = Some (Returns True s3) \<and> mach s3 = Some m3
        \<and> (\<forall>j < length (sent ?cs). user_byte m3 (registers ?m2 4 + of_nat j) = Some (sent ?cs ! j)))"
    using mem c2 r2 wr by blast
  have c: "inodes (hst (fileSystem s1)) 0 = [65, 65]" using s1(2) by (simp add: sample_call_ok(6) [OF k] sample_fs_def overwrite_def written_def)
  then obtain s3 m3 where s3: "ExceptionHandler sample_unknowns SyscallException ?s2 = Some (Returns True s3)" "mach s3 = Some m3"
    "\<forall>j < length ?cs. user_byte m3 (registers ?m2 4 + of_nat j) = Some (?cs ! j)"
    using s1(3) by (auto simp: sample_call_ok(6) [OF sample_user_ok(1,2)] sample_fs_def)
  from s3(3) have "user_byte m3 200 = Some 65" "user_byte m3 201 = Some 65" by (auto simp: sample_user_ok dest: spec [of _ 0] spec [of _ 1])
  with s1(1) c s3(1,2) show ?thesis by blast
qed

end
