(* ===== verification/Kernel_Start.thy ===== *)
theory Kernel_Start
  imports Syscall_Correct
begin

text \<open>
  threads/system.cc (\<^verbatim>\<open>Initialize\<close>), userprog/progtest.cc (\<^verbatim>\<open>StartProcess\<close>, \<^verbatim>\<open>StartProcessWithID\<close>) and the two constructors of
  \<^verbatim>\<open>AddrSpace\<close> on the state of the kernel: from the command line to the first instruction of a program.

  \<open>platform\<close> is what the kernel finds when it starts: the characters that will be typed, the random numbers, the files of the host, and the
  contents of memory that the constructors do not initialise.
\<close>

section \<open>Start-up\<close>

record platform =
  pl_keys :: "byte option list"
  pl_random :: "nat list"
  pl_host :: host
  pl_regs :: "nat \<Rightarrow> word32"
  pl_process :: int
  pl_table_size :: nat
  pl_until :: int
  pl_frames :: "word32 list"
  pl_ptable :: "word32 list"
  pl_stable :: "word32 list"

record options =
  debugArgs :: "byte list"
  randomYield :: bool
  debugUserProg :: bool
  format_disk :: bool

definition arg_d :: "byte list" where "arg_d = [45, 100]"
definition arg_rs :: "byte list" where "arg_rs = [45, 114, 115]"
definition arg_s :: "byte list" where "arg_s = [45, 115]"
definition arg_f :: "byte list" where "arg_f = [45, 102]"

text \<open>The loop over the arguments. The number after \<^verbatim>\<open>-rs\<close> seeds the random numbers, which are part of the platform.\<close>

fun read_options :: "byte list list \<Rightarrow> options \<Rightarrow> options option" where
  "read_options [] opts = Some opts"
| "read_options (a # rest) opts =
     (if a = arg_d then
        (case rest of
           [] \<Rightarrow> Some (opts\<lparr>debugArgs := [43]\<rparr>)
         | x # more_args \<Rightarrow> read_options more_args (opts\<lparr>debugArgs := x\<rparr>))
      else if a = arg_rs then
        (case rest of
           [] \<Rightarrow> None
         | x # more_args \<Rightarrow> read_options more_args (opts\<lparr>randomYield := True\<rparr>))
      else read_options rest
        (opts\<lparr>debugUserProg := debugUserProg opts \<or> a = arg_s, format_disk := format_disk opts \<or> a = arg_f\<rparr>))"

text \<open>The state before the first object is created; the objects that exist only later have values of no importance.\<close>

definition power_on :: "platform \<Rightarrow> bool \<Rightarrow> nachos" where
  "power_on pl rand =
     \<lparr>stats = Statistics_new, level = IntOff, pending = [], inHandler = False, yieldOnReturn = False, status = SystemMode, mach = None,
      currentThread = 0, readyList = [], threads = Map.empty, threadToBeDestroyed = None, sems = (\<lambda>_. Semaphore_new 0),
      randomize = rand, random = pl_random pl, active = False, lastSector = 0, bufferInit = 0, sectors = (\<lambda>_. []), putBusy = False,
      incoming = EOF_char, keyboard = pl_keys pl, display = [],
      fileSystem = \<lparr>stub_open = [], stub_index = 0, hst = pl_host pl\<rparr>, physPages = \<lparr>numBits = 0, numWords = 0, map_words = []\<rparr>,
      addrLockSem = 0, sem_table = \<lparr>stab_bm = \<lparr>numBits = 0, numWords = 0, map_words = []\<rparr>, semTab = []\<rparr>,
      proc_table = \<lparr>ptab_bm = \<lparr>numBits = 0, numWords = 0, map_words = []\<rparr>, pcbs = [], psize = 0, bmsem = 0\<rparr>,
      next_sem = 5, next_thread = 0, processID = (\<lambda>_. pl_process pl), threadName = (\<lambda>_. None), forkArg = Map.empty\<rparr>"

definition start_timer :: "nachos \<Rightarrow> nachos option" where
  "start_timer s =
     (case random s of
        [] \<Rightarrow> Timer_new TimerHandler (randomize s) 0 s
      | r # more_numbers \<Rightarrow> Timer_new TimerHandler (randomize s) r (s\<lparr>random := more_numbers\<rparr>))"

text \<open>\<^verbatim>\<open>"main"\<close>\<close>

definition main_name :: "byte list" where "main_name = [109, 97, 105, 110]"

definition start_thread :: "(nat \<Rightarrow> word32) \<Rightarrow> nachos \<Rightarrow> nachos option" where
  "start_thread junk s = do {
     let (t, s1) = new_thread junk main_name s;
     tcb \<leftarrow> threads s1 t;
     Some (set_thread t (tcb\<lparr>tstatus := RUNNING, started := True\<rparr>) (s1\<lparr>currentThread := t\<rparr>)) }"

definition Initialize :: "(nachos \<Rightarrow> nachos option) \<Rightarrow> platform \<Rightarrow> byte list list \<Rightarrow> nachos option" where
  "Initialize Y pl args = do {
     opts \<leftarrow> read_options args \<lparr>debugArgs = [], randomYield = False, debugUserProg = False, format_disk = True\<rparr>;
     let s0 = power_on pl (randomYield opts);
     s1 \<leftarrow> (if randomYield opts then start_timer s0 else Some s0);
     s2 \<leftarrow> start_thread (pl_regs pl) (s1\<lparr>threadToBeDestroyed := None\<rparr>);
     s3 \<leftarrow> Enable run_handler Y s2;
     s4 \<leftarrow> SynchConsole_new (s3\<lparr>mach := Some (Machine_new (pl_table_size pl) (pl_until pl) (debugUserProg opts))\<rparr>);
     let (lock, s5) = new_semaphore 1 s4;
     b \<leftarrow> BitMap 256 (pl_frames pl);
     s6 \<leftarrow> PTable_new 10 (pl_ptable pl) (s5\<lparr>addrLockSem := lock, physPages := b\<rparr>);
     t \<leftarrow> STable_new (pl_stable pl);
     fs \<leftarrow> StubFS_new (hst (fileSystem s6));
     Some (s6\<lparr>sem_table := t, fileSystem := fs\<rparr>) }"

section \<open>Loading a program\<close>

text \<open>
  The part that the two constructors share, on the bytes \<open>f\<close> of the executable. When there are not enough frames, both constructors
  delete the file object, which their caller or they themselves delete again: there is no result.
\<close>

definition load_space :: "unknowns \<Rightarrow> byte list \<Rightarrow> byte list \<Rightarrow> nachos \<Rightarrow> (AddrSpace, nachos) outcome option" where
  "load_space u junk f s = do {
     h \<leftarrow> read_header False junk f;
     then_run (Semaphore_P (do_yield u) (other_threads u) (addrLockSem s) s) (\<lambda>v s1. do {
       let n = space_pages h;
       free \<leftarrow> NumClear (physPages s1);
       ASSERT (int n \<le> free);
       (pt, b) \<leftarrow> alloc_table n (physPages s1);
       s2 \<leftarrow> Semaphore_V (do_yield u) (addrLockSem s1) (s1\<lparr>physPages := b\<rparr>);
       m \<leftarrow> mach s2;
       mem \<leftarrow> copy_segment f pt (code_seg h) n (mainMemory m);
       mem \<leftarrow> copy_segment f pt (initData h) n mem;
       Some (Returns \<lparr>space_table = pt, numPages = n\<rparr> (s2\<lparr>mach := Some (m\<lparr>mainMemory := mem\<rparr>)\<rparr>)) }) }"

text \<open>Opening the executable, loading it, closing the file, and giving the space to the current thread; \<open>None\<close> as the value when there is no
  such file.\<close>

definition load_program :: "unknowns \<Rightarrow> byte list \<Rightarrow> byte list \<Rightarrow> nachos \<Rightarrow> (unit option, nachos) outcome option" where
  "load_program u junk filename s = do {
     (executable, h) \<leftarrow> Stub_Open filename 0 (hst (fileSystem s));
     let s1 = put_host h s;
     (case executable of
        None \<Rightarrow> Some (Returns None s1)
      | Some f \<Rightarrow> do {
          (ino, off) \<leftarrow> fd_entry (stub_fd f) h;
          then_run (load_space u junk (inodes h ino) s1) (\<lambda>sp s2. do {
            h2 \<leftarrow> StubFile_delete f (hst (fileSystem s2));
            let s3 = put_host h2 s2;
            tcb \<leftarrow> threads s3 (currentThread s3);
            let s4 = set_thread (currentThread s3) (tcb\<lparr>space := Some sp\<rparr>) s3;
            m \<leftarrow> mach s4;
            m1 \<leftarrow> InitRegisters sp m;
            Some (Returns (Some ()) (s4\<lparr>mach := Some (RestoreState sp m1)\<rparr>)) }) }) }"

text \<open>\<open>Returns True s\<close> when the call returns, \<open>Returns False s\<close> when the thread has finished.\<close>

definition StartProcess :: "unknowns \<Rightarrow> byte list \<Rightarrow> byte list \<Rightarrow> nachos \<Rightarrow> (bool, nachos) outcome option" where
  "StartProcess u junk filename s =
     then_run (load_program u junk filename s) (\<lambda>r s1.
       if r = None then Some (Returns True s1)
       else then_run (Machine_Run u s1) (\<lambda>v s2. Some (Returns False s2)))"

text \<open>A file that has disappeared since \<open>Exec\<close> looked for it leaves the space uninitialised: there is no result.\<close>

definition StartProcessWithID :: "unknowns \<Rightarrow> byte list \<Rightarrow> int \<Rightarrow> nachos \<Rightarrow> (bool, nachos) outcome option" where
  "StartProcessWithID u junk pid s = do {
     fileName \<leftarrow> PTable_GetFileName pid s;
     then_run (load_program u junk fileName s) (\<lambda>r s1. do {
       ASSERT (r \<noteq> None);
       then_run (Machine_Run u s1) (\<lambda>v s2. Some (Returns False s2)) }) }"

section \<open>The main program\<close>

definition arg_x :: "byte list" where "arg_x = [45, 120]"
definition arg_c :: "byte list" where "arg_c = [45, 99]"

text \<open>
  The loop over the arguments in \<^verbatim>\<open>main\<close>, as configured: \<^verbatim>\<open>-x\<close> runs a program, \<^verbatim>\<open>-c\<close> runs the console test \<open>C\<close>, which opens a second console
  on the two files and is a parameter here, and halts; everything else is skipped. \<open>Returns False s\<close> when the thread has finished.
\<close>

fun main_loop ::
    "unknowns \<Rightarrow> byte list \<Rightarrow> ((byte list \<times> byte list) option \<Rightarrow> nachos \<Rightarrow> (unit, nachos) outcome option) \<Rightarrow> byte list list \<Rightarrow> nachos
     \<Rightarrow> (bool, nachos) outcome option" where
  "main_loop u junk C [] s = Some (Returns True s)"
| "main_loop u junk C (a # rest) s =
     (if a = arg_x then
        (case rest of
           [] \<Rightarrow> None
         | filename # more_args \<Rightarrow>
             then_run (StartProcess u junk filename s) (\<lambda>back s1. if back then main_loop u junk C more_args s1 else Some (Returns False s1)))
      else if a = arg_c then
        (case rest of
           [] \<Rightarrow> then_run (C None s) (\<lambda>v s1. Some (Halts s1))
         | [x] \<Rightarrow> None
         | x # y # more_args \<Rightarrow> then_run (C (Some (x, y)) s) (\<lambda>v s1. Some (Halts s1)))
      else main_loop u junk C rest s)"

definition nachos_main ::
    "(nachos \<Rightarrow> nachos option) \<Rightarrow> unknowns \<Rightarrow> byte list \<Rightarrow> ((byte list \<times> byte list) option \<Rightarrow> nachos \<Rightarrow> (unit, nachos) outcome option)
     \<Rightarrow> platform \<Rightarrow> byte list list \<Rightarrow> (unit, nachos) outcome option" where
  "nachos_main Y u junk C pl args = do {
     s \<leftarrow> Initialize Y pl args;
     then_run (main_loop u junk C args s) (\<lambda>back s1.
       if back then do { s2 \<leftarrow> Thread_Finish (currentThread s1) s1; Some (Returns () s2) } else Some (Returns () s1)) }"

section \<open>The kernel after start-up\<close>

lemma lock_field [simp]:
  fixes s :: nachos
  shows "enabled g (s\<lparr>addrLockSem := l\<rparr>) = enabled g s" "tokens (s\<lparr>addrLockSem := l\<rparr>) = tokens s"
  by (simp_all add: enabled_def alone_def hw_ok_def ticks_ok_def mach_ok_def settled_mach up_def stat_def tcb_ok_def device_sync_def tokens_def fun_eq_iff)

lemma Enable_idle:
  assumes "pending s = []" "level s = IntOff" "\<not> inHandler s" "\<not> yieldOnReturn s"
  shows "Enable run_handler Y s = Some (ChangeLevel IntOn (count_tick s))"
proof -
  have c: "pending (count_tick (s\<lparr>level := IntOn\<rparr>)) = []" using assms(1) by (simp add: count_tick_def)
  have "check_all_due run_handler (ChangeLevel IntOff (count_tick (s\<lparr>level := IntOn\<rparr>))) = Some (ChangeLevel IntOff (count_tick (s\<lparr>level := IntOn\<rparr>)))"
    using c by (subst check_all_due.simps) (simp add: CheckIfDue_def ChangeLevel_def)
  moreover have "ChangeLevel IntOn (ChangeLevel IntOff (count_tick (s\<lparr>level := IntOn\<rparr>))) = ChangeLevel IntOn (count_tick s)"
    by (simp add: ChangeLevel_def count_tick_def now_def)
  moreover have "\<not> yieldOnReturn (count_tick (s\<lparr>level := IntOn\<rparr>))" using assms(4) by (simp add: ChangeLevel_def count_tick_def)
  ultimately show ?thesis using assms(2,3)
    by (simp add: Enable_def SetLevel_def OneTick_def Let_def) (simp add: ChangeLevel_def)
qed

text \<open>The devices and the main thread, before the tables of the kernel are created.\<close>

definition devices_started :: "platform \<Rightarrow> machine \<Rightarrow> nachos" where
  "devices_started pl m = (power_on pl False)\<lparr>level := IntOn, stats := Statistics_new\<lparr>totalTicks := 10, systemTicks := 10\<rparr>, mach := Some m,
     pending := [(110, \<lparr>handler = ConsoleReadPoll, arg = 0, int_type = ConsoleReadInt\<rparr>)], next_thread := 1,
     threads := [0 \<mapsto> (Thread_new (pl_regs pl))\<lparr>tstatus := RUNNING, started := True\<rparr>], threadName := (\<lambda>_. None)(0 \<mapsto> main_name),
     sems := (\<lambda>k. Semaphore_new (of_bool (k = RLineBlock \<or> k = WLineBlock)))\<rparr>"

lemma devices_start:
  fixes Y :: "nachos \<Rightarrow> nachos option"
  shows "\<exists>s2 s3. start_thread (pl_regs pl) ((power_on pl False)\<lparr>threadToBeDestroyed := None\<rparr>) = Some s2 \<and> Enable run_handler Y s2 = Some s3
    \<and> SynchConsole_new (s3\<lparr>mach := Some m\<rparr>) = Some (devices_started pl m)"
proof -
  define s2 where "s2 = (power_on pl False)\<lparr>next_thread := 1, threadName := (\<lambda>_. None)(0 \<mapsto> main_name),
     threads := [0 \<mapsto> (Thread_new (pl_regs pl))\<lparr>tstatus := RUNNING, started := True\<rparr>]\<rparr>"
  have 2: "start_thread (pl_regs pl) ((power_on pl False)\<lparr>threadToBeDestroyed := None\<rparr>) = Some s2"
    by (simp add: start_thread_def new_thread_def set_thread_def power_on_def s2_def)
  have "pending s2 = []" "level s2 = IntOff" "\<not> inHandler s2" "\<not> yieldOnReturn s2" by (simp_all add: s2_def power_on_def)
  note 3 = Enable_idle [OF this, of Y]
  have "SynchConsole_new ((ChangeLevel IntOn (count_tick s2))\<lparr>mach := Some m\<rparr>) = Some (devices_started pl m)"
    by (simp add: SynchConsole_new_def Console_new_def Schedule_def ConsoleTime_def set_sem_def ChangeLevel_def count_tick_def s2_def power_on_def
      now_def Statistics_new_def SystemTick_def devices_started_def semaphore_ids fun_eq_iff Let_def)
  with 2 3 show ?thesis by blast
qed

lemma devices_started_ok:
  assumes "in_kernel m"
  shows "enabled False (devices_started pl m)" "readyList (devices_started pl m) = []" "next_sem (devices_started pl m) = 5"
    "currentThread (devices_started pl m) = 0" "next_thread (devices_started pl m) = 1" "mach (devices_started pl m) = Some m"
    "\<forall>t \<ge> 1. threads (devices_started pl m) t = None" "hst (fileSystem (devices_started pl m)) = pl_host pl"
    "tokens (devices_started pl m) synchWriteAvail = 0" "tokens (devices_started pl m) RLineBlock = 1" "tokens (devices_started pl m) WLineBlock = 1"
proof -
  show "enabled False (devices_started pl m)"
    using assms in_kernel_settled
    by (simp add: devices_started_def power_on_def enabled_def alone_def hw_ok_def ticks_ok_def mach_ok_def settled_mach up_def stat_def tcb_ok_def
      device_sync_def pend_of_def Statistics_new_def Semaphore_new_def Thread_new_def)
  show "readyList (devices_started pl m) = []" "next_sem (devices_started pl m) = 5"
    "currentThread (devices_started pl m) = 0" "next_thread (devices_started pl m) = 1" "mach (devices_started pl m) = Some m"
    "\<forall>t \<ge> 1. threads (devices_started pl m) t = None" "hst (fileSystem (devices_started pl m)) = pl_host pl"
    "tokens (devices_started pl m) synchWriteAvail = 0" "tokens (devices_started pl m) RLineBlock = 1" "tokens (devices_started pl m) WLineBlock = 1"
    by (simp_all add: devices_started_def power_on_def tokens_def Semaphore_new_def semaphore_ids)
qed

text \<open>What \<open>Initialize\<close> establishes.\<close>

definition booted :: "platform \<Rightarrow> machine \<Rightarrow> nachos \<Rightarrow> bool" where
  "booted pl m s \<longleftrightarrow> quiet False s \<and> console_ready s \<and> mach s = Some m \<and> ptable_ok s \<and> fresh_ok s \<and> marked (ptab_bm (proc_table s)) = {0}
     \<and> 5 \<le> bmsem (proc_table s) \<and> tokens s (bmsem (proc_table s)) = 1
     \<and> stable_ok (sem_table s) \<and> sem_map (sem_table s) = Map.empty \<and> slots_free (sem_table s)
     \<and> wf_bitmap (physPages s) \<and> numBits (physPages s) = 256 \<and> marked (physPages s) = {} \<and> 5 \<le> addrLockSem s \<and> tokens s (addrLockSem s) = 1
     \<and> (\<exists>f0 f1. stub_open (fileSystem s) = [Some f0, Some f1] @ replicate 8 None \<and> stub_type f0 = 2 \<and> stub_type f1 = 3)
     \<and> host_ok (hst (fileSystem s)) \<and> host_files (hst (fileSystem s)) = (host_files (pl_host pl))(host_stdin \<mapsto> [], host_stdout \<mapsto> [])"

definition platform_ok :: "platform \<Rightarrow> bool" where
  "platform_ok pl \<longleftrightarrow> host_ok (pl_host pl) \<and> \<not> denied (pl_host pl) host_stdin \<and> \<not> denied (pl_host pl) host_stdout
     \<and> length (pl_frames pl) = 8 \<and> length (pl_ptable pl) = 1 \<and> length (pl_stable pl) = 1"

lemma Machine_new_kernel: "in_kernel (Machine_new a b c)"
  by (simp add: in_kernel_def Machine_new_def)

lemma PTable_new_frame:
  assumes "PTable_new sz junk s = Some s'"
  shows "fileSystem s' = fileSystem s" "physPages s' = physPages s" "addrLockSem s' = addrLockSem s" "sems s' (next_sem s) = Semaphore_new 1"
  using assms by (auto simp: PTable_new_def PCB_new_def new_semaphore_def set_sem_def Let_def bind_eq_Some_conv SetFileName_def)

lemma Initialize_boots:
  assumes pl: "platform_ok pl" and opts: "read_options args \<lparr>debugArgs = [], randomYield = False, debugUserProg = False, format_disk = True\<rparr> = Some opts"
    "\<not> randomYield opts"
  defines "m \<equiv> Machine_new (pl_table_size pl) (pl_until pl) (debugUserProg opts)"
  shows "\<exists>s. Initialize Y pl args = Some s \<and> booted pl m s"
proof -
  note d = devices_started_ok [OF Machine_new_kernel, of pl "pl_table_size pl" "pl_until pl" "debugUserProg opts", folded m_def]
  let ?s4 = "devices_started pl m"
  obtain lock s5 where 5: "new_semaphore 1 ?s4 = (lock, s5)" by force
  have "5 \<le> next_sem ?s4" using d(3) by simp
  note n = new_semaphore_enabled [OF 5 d(1) this zero_le_one]
  have f5: "next_sem s5 = 6" "lock = 5" "readyList s5 = []" "mach s5 = Some m" "currentThread s5 = 0" "next_thread s5 = 1"
    "\<forall>t \<ge> 1. threads s5 t = None" "hst (fileSystem s5) = pl_host pl"
    using n(3,4) d by simp_all
  have "int (length (pl_frames pl)) = divRoundUp 256 32" using pl by (simp add: platform_ok_def divRoundUp_nonneg)
  from BitMap_correct [OF _ this] obtain b where b: "BitMap 256 (pl_frames pl) = Some b" "wf_bitmap b" "numBits b = 256" "marked b = {}" by auto
  let ?s = "s5\<lparr>addrLockSem := lock, physPages := b\<rparr>"
  have e: "enabled False ?s" "5 \<le> next_sem ?s" "currentThread ?s < next_thread ?s" "\<forall>t \<ge> next_thread ?s. threads ?s t = None" "length (pl_ptable pl) = 1"
    using n(1) f5 pl by (simp_all add: platform_ok_def)
  from PTable_new_ok [OF e] obtain s6 where s6: "PTable_new MAX_PROCESS (pl_ptable pl) ?s = Some s6" "enabled False s6" "ptable_ok s6" "fresh_ok s6"
    "marked (ptab_bm (proc_table s6)) = {0}" "bmsem (proc_table s6) = 6" "0 < sem_value (sems s6 6)" "readyList s6 = []" "mach s6 = Some m"
    "\<forall>k < 6. tokens s6 k = tokens s5 k"
    using f5 by (auto simp: tokens_def)
  have keep: "fileSystem s6 = fileSystem s5" "physPages s6 = b" "addrLockSem s6 = 5" "tokens s6 6 = 1"
    using PTable_new_frame [OF s6(1)] f5(1,2) tokens_user [of 6 s6] by (simp_all add: Semaphore_new_def)
  have lock: "tokens s6 5 = 1" "tokens s6 synchWriteAvail = 0" "tokens s6 RLineBlock = 1" "tokens s6 WLineBlock = 1"
    using s6(10) n(2) d(3,9-11) by (simp_all add: semaphore_ids)
  from STable_new_ok [of "pl_stable pl"] pl obtain t where t: "STable_new (pl_stable pl) = Some t" "stable_ok t" "sem_map t = Map.empty" "slots_free t"
    by (auto simp: platform_ok_def)
  from StubFS_new_eq [of "pl_host pl"] pl obtain fs f0 f1 where fs: "StubFS_new (pl_host pl) = Some fs"
    "stub_open fs = [Some f0, Some f1] @ replicate 8 None" "stub_type f0 = 2" "stub_type f1 = 3" "host_ok (hst fs)"
    "host_files (hst fs) = (host_files (pl_host pl))(host_stdin \<mapsto> [], host_stdout \<mapsto> [])"
    by (auto simp: platform_ok_def)
  let ?r = "s6\<lparr>sem_table := t, fileSystem := fs\<rparr>"
  have "Initialize Y pl args = Some ?r"
    using opts devices_start [of pl Y m] 5 b(1) s6(1) t(1) fs(1) keep(1) f5(8)
    by (auto simp: Initialize_def m_def MAX_PROCESS_def)
  moreover have "quiet False ?r" "console_ready ?r" using s6(2,8) lock by (simp_all add: quiet_def console_ready_def)
  moreover have "ptable_ok ?r" "fresh_ok ?r" using s6(3,4) by (simp_all add: ptable_ok_def fresh_ok_def)
  ultimately show ?thesis using s6(5,6,9) keep lock(1) t b fs by (intro exI [of _ ?r]) (simp add: booted_def)
qed

section \<open>The first program\<close>

lemma kept_physPages:
  fixes s s' :: nachos
  assumes k: "kept_fields s s'"
  shows "kept_fields (s\<lparr>physPages := b\<rparr>) (s'\<lparr>physPages := b\<rparr>)"
proof -
  have "typed (u\<lparr>physPages := b\<rparr>) = typed u" "now (u\<lparr>physPages := b\<rparr>) = now u" for u :: nachos by (simp_all add: typed_def now_def)
  moreover have "devices.more (s'\<lparr>physPages := b\<rparr>) = devices.more (s\<lparr>physPages := b\<rparr>)"
    using k by (cases s, cases s') (simp add: kept_fields_def)
  ultimately show ?thesis using k by (simp add: kept_fields_def)
qed

text \<open>On a kernel that is otherwise idle, loading computes what the constructor of \<open>Address_Space\<close> computes on the frames.\<close>

lemma load_space_eq:
  assumes q: "quiet False s" "mach s = Some m" and l: "5 \<le> addrLockSem s" "tokens s (addrLockSem s) = 1"
    and ld: "AddrSpace_open False junk (Some f) \<lparr>gPhysPageBitMap = physPages s, addrLock = 1, memory = mainMemory m\<rparr> = Some (Loaded sp fr)"
  shows "\<exists>s'. load_space u junk f s = Some (Returns sp (s'\<lparr>mach := Some (m\<lparr>mainMemory := memory fr\<rparr>)\<rparr>)) \<and> quiet False s'
    \<and> kept_fields (s\<lparr>physPages := gPhysPageBitMap fr\<rparr>) s' \<and> tokens s' = tokens s"
proof -
  let ?k = "addrLockSem s"
  from ld obtain h free b mem where h: "read_header False junk f = Some h" "NumClear (physPages s) = Some free" "int (space_pages h) \<le> free"
    "alloc_table (space_pages h) (physPages s) = Some (space_table sp, b)" "numPages sp = space_pages h"
    "copy_segment f (space_table sp) (code_seg h) (space_pages h) (mainMemory m) = Some mem"
    "copy_segment f (space_table sp) (initData h) (space_pages h) mem = Some (memory fr)" "gPhysPageBitMap fr = b"
    by (auto simp: AddrSpace_open_def bind_eq_Some_conv lock_P_def lock_V_def Let_def split: if_splits)
  have ids: "?k \<noteq> synchReadAvail" using l(1) by (simp add: semaphore_ids)
  from P_returns [OF q(1), of ?k "do_yield u" "other_threads u"] l(2) ids obtain s1 where
    s1: "Semaphore_P (do_yield u) (other_threads u) ?k s = Some (Returns () s1)" "quiet False s1" "kept_fields s s1" "tokens s1 = (tokens s)(?k := 0)"
    by auto
  let ?s1 = "s1\<lparr>physPages := b\<rparr>"
  have "quiet False ?s1" using s1(2) by (simp add: quiet_def)
  from V_returns [OF this, of "do_yield u" ?k] obtain s2 where s2: "Semaphore_V (do_yield u) ?k ?s1 = Some s2" "quiet False s2" "kept_fields ?s1 s2"
    "tokens s2 = (tokens s1)(?k := tokens s1 ?k + 1)" by auto
  note k1 = kept_tables [OF s1(3)] and k2 = kept_tables [OF s2(3)]
  have sp: "\<lparr>space_table = space_table sp, numPages = space_pages h\<rparr> = sp" using h(5) by (cases sp) simp
  have "load_space u junk f s = Some (Returns sp (s2\<lparr>mach := Some (m\<lparr>mainMemory := memory fr\<rparr>)\<rparr>))"
    using h s1(1) s2(1) k1(9,10,12) k2(12) q(2) sp by (simp add: load_space_def Let_def)
  moreover have "kept_fields (s\<lparr>physPages := gPhysPageBitMap fr\<rparr>) ?s1" using kept_physPages [OF s1(3), of b] h(8) by simp
  moreover have "tokens s2 = tokens s" using s2(4) s1(4) l(2) by auto
  ultimately show ?thesis using s2 kept_fields_trans by blast
qed

lemma InitRegisters_eq:
  "\<exists>r. InitRegisters sp m = Some (m\<lparr>registers := r\<rparr>) \<and> (\<forall>i < NumTotalRegs. r i = (if i = NextPCReg then 4 else
     if i = StackReg then of_nat (numPages sp * PageSize) - 16 else 0))"
proof -
  have "each (\<lambda>i. WriteRegister i 0) [0..<n] m = Some (m\<lparr>registers := (\<lambda>i. if i < n then 0 else registers m i)\<rparr>)" if "n \<le> NumTotalRegs" for n
    using that
  proof (induction n)
    case (Suc n)
    then show ?case by (simp add: each_append) (auto simp: WriteRegister_def fun_eq_iff)
  qed simp
  then show ?thesis by (intro exI) (auto simp: InitRegisters_def WriteRegister_def reg_defs)
qed

text \<open>A program that is about to execute its first instruction.\<close>

definition ready_to_run :: "AddrSpace \<Rightarrow> frames \<Rightarrow> nachos \<Rightarrow> bool" where
  "ready_to_run sp fr s \<longleftrightarrow> (\<exists>m t. calling s m \<and> pageTable m = Some (space_table sp) \<and> mainMemory m = memory fr \<and> physPages s = gPhysPageBitMap fr
     \<and> registers m PCReg = 0 \<and> registers m NextPCReg = 4 \<and> registers m StackReg = of_nat (numPages sp * PageSize) - 16
     \<and> threads s (currentThread s) = Some t \<and> space t = Some sp)"

lemma load_program_eq:
  assumes q: "quiet False s" "mach s = Some m" "tlb m = None" and l: "5 \<le> addrLockSem s" "tokens s (addrLockSem s) = 1"
    and h: "host_ok (hst (fileSystem s))" "host_files (hst (fileSystem s)) name = Some f"
    and ld: "AddrSpace_open False junk (Some f) \<lparr>gPhysPageBitMap = physPages s, addrLock = 1, memory = mainMemory m\<rparr> = Some (Loaded sp fr)"
  shows "\<exists>s'. load_program u junk name s = Some (Returns (Some ()) s') \<and> ready_to_run sp fr s' \<and> host_files (hst (fileSystem s')) = host_files (hst (fileSystem s))"
proof -
  from Stub_Open_eq [OF h(1), of name 0] h(2) obtain fd ino h1 where h1: "Stub_Open name 0 (hst (fileSystem s)) = Some (Some (StubFile_new fd 0), h1)"
    "fd_entry fd h1 = Some (ino, 0)" "inodes h1 ino = f" "host_files h1 = host_files (hst (fileSystem s))" by auto
  let ?s1 = "put_host h1 s"
  have 1: "quiet False ?s1" "mach ?s1 = Some m" "5 \<le> addrLockSem ?s1" "tokens ?s1 (addrLockSem ?s1) = 1" "physPages ?s1 = physPages s"
    using q l by (simp_all add: put_host_def quiet_def)
  from load_space_eq [OF 1(1-4), of junk f sp fr u] ld 1(5) obtain s2 where s2:
    "load_space u junk f ?s1 = Some (Returns sp (s2\<lparr>mach := Some (m\<lparr>mainMemory := memory fr\<rparr>)\<rparr>))" "quiet False s2"
    "kept_fields (?s1\<lparr>physPages := gPhysPageBitMap fr\<rparr>) s2" by auto
  note k2 = kept_tables [OF s2(3)]
  have fs: "hst (fileSystem s2) = h1" "physPages s2 = gPhysPageBitMap fr" using k2(8,9) by (simp_all add: put_host_def)
  let ?h2 = "set_fd fd None h1"
  have cl: "StubFile_delete (StubFile_new fd 0) h1 = Some ?h2" using h1(2) by (simp add: StubFile_delete_def StubFile_new_def Close_def)
  have hf: "host_files ?h2 = host_files h1" by (rule host_files_cong) simp_all
  from s2(2) obtain t where t: "threads s2 (currentThread s2) = Some t" by (auto simp: quiet_def enabled_def alone_def tcb_ok_def)
  obtain r where r: "InitRegisters sp (m\<lparr>mainMemory := memory fr\<rparr>) = Some (m\<lparr>mainMemory := memory fr, registers := r\<rparr>)"
    "\<forall>i < NumTotalRegs. r i = (if i = NextPCReg then 4 else if i = StackReg then of_nat (numPages sp * PageSize) - 16 else 0)"
    using InitRegisters_eq [of sp "m\<lparr>mainMemory := memory fr\<rparr>"] by auto
  let ?m = "RestoreState sp (m\<lparr>mainMemory := memory fr, registers := r\<rparr>)"
  let ?s = "(set_thread (currentThread s2) (t\<lparr>space := Some sp\<rparr>) (put_host ?h2 s2))\<lparr>mach := Some ?m\<rparr>"
  have "load_program u junk name s = Some (Returns (Some ()) ?s)"
    using h1(1-3) s2(1) fs cl t r(1) by (simp add: load_program_def StubFile_new_def put_host_def set_thread_def)
  moreover have "ready_to_run sp fr ?s"
  proof -
    have len: "length (space_table sp) = numPages sp"
    proof -
      from ld obtain b1 where "alloc_table (numPages sp) (physPages s) = Some (space_table sp, b1)" by (elim AddrSpace_open_Loaded) auto
      then obtain fs where "space_table sp = map (\<lambda>i. new_entry i (fs ! i)) [0..<numPages sp]" by (auto simp: alloc_table_def bind_eq_Some_conv dest: sym)
      then show ?thesis by simp
    qed
    have regs: "registers ?m = r" "r 0 = 0" "r LoadReg = 0" "r LoadValueReg = 0" "r PCReg = 0" "r NextPCReg = 4" "r StackReg = of_nat (numPages sp * PageSize) - 16"
      using r(2) by (simp_all add: reg_defs)
    then have k: "in_kernel ?m" by (simp add: in_kernel_def)
    have a: "alone False s2" "level s2 = IntOn" "readyList s2 = []" using s2(2) by (simp_all add: quiet_def enabled_def)
    have "hw_ok ?s" "settled ?s" using a(1) k in_kernel_settled
      by (simp_all add: alone_def hw_ok_def ticks_ok_def mach_ok_def settled_mach put_host_def set_thread_def)
    moreover have "tcb_ok ?s" using a(1) t by (auto simp: alone_def tcb_ok_def put_host_def set_thread_def)
    moreover have "up ?s" using a(1) t by (auto simp: alone_def up_def stat_def put_host_def set_thread_def)
    moreover have "device_sync False (mset (pending ?s)) ?s" using a(1) by (simp add: alone_def device_sync_def put_host_def set_thread_def)
    ultimately have "quiet False ?s" using a by (simp add: quiet_def enabled_def alone_def put_host_def set_thread_def)
    moreover have "page_tables_ok ?m" using q(3) len by (intro RestoreState_ok) simp_all
    ultimately show ?thesis
      unfolding ready_to_run_def
      by (intro exI [of _ ?m] exI [of _ "t\<lparr>space := Some sp\<rparr>"])
        (use regs fs(2) in \<open>simp add: calling_def put_host_def set_thread_def\<close>)
  qed
  ultimately show ?thesis using hf h1(4) by (intro exI [of _ ?s]) (simp add: put_host_def set_thread_def)
qed

section \<open>Properties of start-up\<close>

definition no_options :: options where
  "no_options = \<lparr>debugArgs = [], randomYield = False, debugUserProg = False, format_disk = True\<rparr>"

text \<open>Without the files of the console there is no start.\<close>

lemma Initialize_denied:
  assumes "read_options args no_options = Some opts" "\<not> randomYield opts" "denied (pl_host pl) host_stdin \<or> denied (pl_host pl) host_stdout"
  shows "Initialize Y pl args = None"
proof (rule ccontr)
  let ?m = "Machine_new (pl_table_size pl) (pl_until pl) (debugUserProg opts)"
  assume "Initialize Y pl args \<noteq> None"
  moreover obtain lock s5 where n: "new_semaphore 1 (devices_started pl ?m) = (lock, s5)" by force
  ultimately obtain b s6 fs where s: "PTable_new 10 (pl_ptable pl) (s5\<lparr>addrLockSem := lock, physPages := b\<rparr>) = Some s6" "StubFS_new (hst (fileSystem s6)) = Some fs"
    using assms(1,2) devices_start [of pl Y ?m] by (auto simp: Initialize_def no_options_def bind_eq_Some_conv)
  have "hst (fileSystem s6) = hst (fileSystem (devices_started pl ?m))"
    using PTable_new_frame(1) [OF s(1)] n by (auto simp: new_semaphore_def set_sem_def)
  then have "hst (fileSystem s6) = pl_host pl" by (simp add: devices_started_def power_on_def)
  with s(2) StubFS_new_denied [OF assms(3)] show False by simp
qed

text \<open>C28. The kernel starts in a well-formed state, or not at all. \<open>Initialize\<close> aborts when an option lacks its argument (\<^verbatim>\<open>-rs\<close> at the end of the
  command line). For any other command line without \<^verbatim>\<open>-rs\<close>, whatever the uninitialised memory holds, it aborts exactly when the host
  refuses to create one of the two console files; otherwise it establishes every invariant that the system calls rely on: interrupts are
  enabled, the keyboard is polled, the main thread runs alone, all 256 frame bits are clear and the lock on them is free, the table of
  processes has exactly the first process, the table of semaphores is empty, and the open files are the two console files. (A start with
  \<^verbatim>\<open>-rs\<close>, which adds the random time slices, is not covered.)\<close>

theorem kernel_initialised:
  assumes "host_ok (pl_host pl)" "length (pl_frames pl) = 8" "length (pl_ptable pl) = 1" "length (pl_stable pl) = 1"
  shows "case read_options args no_options of
      None \<Rightarrow> Initialize Y pl args = None
    | Some opts \<Rightarrow> \<not> randomYield opts \<longrightarrow>
        (if denied (pl_host pl) host_stdin \<or> denied (pl_host pl) host_stdout then Initialize Y pl args = None
         else \<exists>s. Initialize Y pl args = Some s \<and> booted pl (Machine_new (pl_table_size pl) (pl_until pl) (debugUserProg opts)) s)"
proof (cases "read_options args no_options")
  case None
  then show ?thesis by (simp add: Initialize_def no_options_def)
next
  case (Some opts)
  then show ?thesis
    using Initialize_denied [OF Some, of pl Y] Initialize_boots [of pl args opts Y] assms by (auto simp: no_options_def platform_ok_def)
qed

definition sample_platform :: "(byte list \<Rightarrow> nat option) \<Rightarrow> (nat \<Rightarrow> byte list) \<Rightarrow> platform" where
  "sample_platform ns is = \<lparr>pl_keys = [], pl_random = [],
     pl_host = \<lparr>inodes = is, names = ns, fds = [], next_inode = 1, denied = (\<lambda>_. False)\<rparr>,
     pl_regs = (\<lambda>_. 7), pl_process = 3, pl_table_size = 9, pl_until = 0, pl_frames = replicate 8 5, pl_ptable = [3], pl_stable = [4]\<rparr>"

lemma sample_platform_ok: "platform_ok (sample_platform Map.empty is)" "platform_ok (sample_platform [[112] \<mapsto> 0] is)"
  by (simp_all add: platform_ok_def sample_platform_def host_ok_def)

theorem kernel_initialised_witness:
  "\<exists>s. Initialize (\<lambda>s. None) (sample_platform Map.empty (\<lambda>_. [])) [arg_s, arg_d] = Some s \<and> booted (sample_platform Map.empty (\<lambda>_. [])) (Machine_new 9 0 True) s"
proof -
  have "read_options [arg_s, arg_d] no_options = Some (no_options\<lparr>debugUserProg := True, debugArgs := [43]\<rparr>)"
    by (simp add: arg_s_def arg_d_def arg_rs_def arg_f_def no_options_def)
  with kernel_initialised [where pl = "sample_platform Map.empty (\<lambda>_. [])" and args = "[arg_s, arg_d]" and Y = "\<lambda>s. None"] show ?thesis
    by (simp add: no_options_def sample_platform_def host_ok_def)
qed

text \<open>\<open>StartProcess\<close> after start-up: the result of the address space constructor on an empty memory, or a report that there is no such file.\<close>

lemma StartProcess_eq:
  assumes "booted pl m s" "tlb m = None" "name \<noteq> host_stdin" "name \<noteq> host_stdout"
  shows "case host_files (pl_host pl) name of
      None \<Rightarrow> \<exists>h. StartProcess u junk name s = Some (Returns True (put_host h s))
    | Some f \<Rightarrow> (\<forall>sp fr. AddrSpace_open False junk (Some f) \<lparr>gPhysPageBitMap = physPages s, addrLock = 1, memory = mainMemory m\<rparr> = Some (Loaded sp fr) \<longrightarrow>
        (\<exists>s'. ready_to_run sp fr s' \<and> host_files (hst (fileSystem s')) = host_files (hst (fileSystem s))
          \<and> StartProcess u junk name s = then_run (Machine_Run u s') (\<lambda>v s2. Some (Returns False s2))))"
proof -
  have b: "quiet False s" "mach s = Some m" "5 \<le> addrLockSem s" "tokens s (addrLockSem s) = 1" "host_ok (hst (fileSystem s))"
    "host_files (hst (fileSystem s)) name = host_files (pl_host pl) name"
    using assms by (auto simp: booted_def)
  show ?thesis
  proof (cases "host_files (pl_host pl) name")
    case None
    with Stub_Open_eq [OF b(5), of name 0] b(6) show ?thesis by (auto simp: StartProcess_def load_program_def)
  next
    case (Some f)
    with load_program_eq [OF b(1,2) assms(2) b(3-5), of name f junk _ _ u] b(6) show ?thesis
      by (fastforce simp: StartProcess_def)
  qed
qed

lemma sample_file_loads:
  assumes "wf_bitmap b" "numBits b = 256" "marked b = {}"
  shows "\<exists>sp fr. AddrSpace_open False [] (Some sample_file) \<lparr>gPhysPageBitMap = b, addrLock = 1, memory = mem\<rparr> = Some (Loaded sp fr) \<and> numPages sp = 2"
proof -
  let ?h = "\<lparr>noffMagic = NOFFMAGIC, code_seg = \<lparr>virtualAddr = 0, inFileAddr = 0, seg_size = 0\<rparr>,
    initData = \<lparr>virtualAddr = 0, inFileAddr = 0, seg_size = 0\<rparr>, uninitData = \<lparr>virtualAddr = 0, inFileAddr = 0, seg_size = 0\<rparr>\<rparr>"
  have p: "space_pages ?h = 2" by (simp add: space_pages_def divRoundUp_nonneg machine_sizes UserStackSize_def)
  have n: "NumClear b = Some 256" using NumClear_eq [OF assms(1)] assms(2,3) by simp
  from alloc_table_spec [OF assms(1), of 2] assms(2,3) obtain pt b' where "alloc_table 2 b = Some (pt, b')" by auto
  then show ?thesis using p n by (simp add: AddrSpace_open_def sample_header lock_P_def lock_V_def copy_segment_def Let_def)
qed

text \<open>C29. The command line \<^verbatim>\<open>nachos -x name\<close> runs the program. The kernel starts; when the host has a file of that name which the address space
  constructor accepts, the file is opened, loaded under the frame lock and closed, and the machine runs from a state with the memory, page table
  and allocated frames that the constructor computes from an empty memory, the program counter at 0, the stack pointer at the end of the space,
  and the host's files otherwise as they were. When there is no such file, the main thread finishes without having run anything.\<close>

theorem nachos_runs_program:
  assumes "platform_ok pl" "name \<noteq> host_stdin" "name \<noteq> host_stdout" "name \<notin> {arg_d, arg_rs, arg_s}"
  shows "\<exists>s. Initialize Y pl [arg_x, name] = Some s \<and> booted pl (Machine_new (pl_table_size pl) (pl_until pl) False) s
    \<and> (case host_files (pl_host pl) name of
         None \<Rightarrow> \<exists>s' s''. threads s' = threads s \<and> currentThread s' = currentThread s \<and> Thread_Finish (currentThread s') s' = Some s''
           \<and> nachos_main Y u junk C pl [arg_x, name] = Some (Returns () s'')
       | Some f \<Rightarrow> (\<forall>sp fr. AddrSpace_open False junk (Some f)
             \<lparr>gPhysPageBitMap = physPages s, addrLock = 1, memory = (\<lambda>_. 0)\<rparr> = Some (Loaded sp fr) \<longrightarrow>
           (\<exists>s'. ready_to_run sp fr s' \<and> host_files (hst (fileSystem s')) = host_files (hst (fileSystem s))
             \<and> nachos_main Y u junk C pl [arg_x, name] = Machine_Run u s')))"
proof -
  let ?m = "Machine_new (pl_table_size pl) (pl_until pl) False"
  have "read_options [arg_x, name] no_options = Some (no_options\<lparr>format_disk := True\<rparr>)"
    using assms(4) by (auto simp: arg_x_def arg_d_def arg_rs_def arg_s_def arg_f_def no_options_def)
  with Initialize_boots [OF assms(1), of "[arg_x, name]" _ Y] obtain s where s: "Initialize Y pl [arg_x, name] = Some s" "booted pl ?m s"
    by (auto simp: no_options_def)
  have t: "tlb ?m = None" "mainMemory ?m = (\<lambda>_. 0)" by (simp_all add: Machine_new_def)
  note start = StartProcess_eq [OF s(2) t(1) assms(2,3), of u junk, unfolded t(2)]
  have m: "nachos_main Y u junk C pl [arg_x, name] = then_run (then_run (StartProcess u junk name s)
      (\<lambda>back s1. if back then Some (Returns True s1) else Some (Returns False s1)))
      (\<lambda>back s1. if back then do { s2 \<leftarrow> Thread_Finish (currentThread s1) s1; Some (Returns () s2) } else Some (Returns () s1))"
    by (simp add: nachos_main_def s(1) cong: if_cong)
  show ?thesis
  proof (cases "host_files (pl_host pl) name")
    case None
    with start obtain h where h: "StartProcess u junk name s = Some (Returns True (put_host h s))" by auto
    obtain tcb where "threads s (currentThread s) = Some tcb"
      using s(2) by (auto simp: booted_def quiet_def enabled_def alone_def tcb_ok_def)
    then obtain s'' where "Thread_Finish (currentThread s) (put_host h s) = Some s''"
      by (auto simp: Thread_Finish_def Finish_section_def Sleep_enter_def setThreadStatus_def put_host_def)
    with None s h m show ?thesis by (intro exI [of _ s]) (simp add: put_host_def, intro exI [of _ "put_host h s"], simp add: put_host_def)
  next
    case (Some f)
    have run: "then_run (then_run (then_run (Machine_Run u s') (\<lambda>v s2. Some (Returns False s2)))
        (\<lambda>back s1. if back then Some (Returns True s1) else Some (Returns False s1)))
        (\<lambda>back s1. if back then do { s2 \<leftarrow> Thread_Finish (currentThread s1) s1; Some (Returns () s2) } else Some (Returns () s1)) = Machine_Run u s'" for s'
      by (auto simp: then_run_def split: bind_splits outcome.splits)
    from Some start m run s show ?thesis by fastforce
  qed
qed

theorem nachos_runs_program_witness:
  "\<exists>s sp fr s'. Initialize (\<lambda>s. None) (sample_platform [[112] \<mapsto> 0] (\<lambda>_. sample_file)) [arg_x, [112]] = Some s \<and> numPages sp = 2 \<and> ready_to_run sp fr s'
    \<and> nachos_main (\<lambda>s. None) sample_unknowns [] (\<lambda>f s. None) (sample_platform [[112] \<mapsto> 0] (\<lambda>_. sample_file)) [arg_x, [112]]
      = Machine_Run sample_unknowns s'"
proof -
  let ?pl = "sample_platform [[112] \<mapsto> 0] (\<lambda>_. sample_file)"
  have n: "[112] \<noteq> host_stdin" "[112] \<noteq> host_stdout" "[112] \<notin> {arg_d, arg_rs, arg_s}"
    by (simp_all add: host_stdin_def host_stdout_def arg_d_def arg_rs_def arg_s_def)
  have f: "host_files (pl_host ?pl) [112] = Some sample_file" by (simp add: host_files_def sample_platform_def)
  note p = nachos_runs_program [OF sample_platform_ok(2) n, of "\<lambda>s. None" "\<lambda>_. sample_file" sample_unknowns "[]" "\<lambda>f s. None"]
  with f obtain s where s: "Initialize (\<lambda>s. None) ?pl [arg_x, [112]] = Some s" "booted ?pl (Machine_new (pl_table_size ?pl) (pl_until ?pl) False) s"
    "\<forall>sp fr. AddrSpace_open False [] (Some sample_file) \<lparr>gPhysPageBitMap = physPages s, addrLock = 1, memory = (\<lambda>_. 0)\<rparr> = Some (Loaded sp fr) \<longrightarrow>
           (\<exists>s'. ready_to_run sp fr s' \<and> host_files (hst (fileSystem s')) = host_files (hst (fileSystem s))
             \<and> nachos_main (\<lambda>s. None) sample_unknowns [] (\<lambda>f s. None) ?pl [arg_x, [112]] = Machine_Run sample_unknowns s')" by auto
  have "wf_bitmap (physPages s)" "numBits (physPages s) = 256" "marked (physPages s) = {}" using s(2) by (simp_all add: booted_def)
  from sample_file_loads [OF this, of "\<lambda>_. 0"] obtain sp fr where "numPages sp = 2"
    "AddrSpace_open False [] (Some sample_file) \<lparr>gPhysPageBitMap = physPages s, addrLock = 1, memory = (\<lambda>_. 0)\<rparr> = Some (Loaded sp fr)" by blast
  with s show ?thesis by blast
qed

end
