(* ===== verification/Network.thy ===== *)
theory Network
  imports Complex_Main Synch_Devices
begin

text \<open>
  machine/network.cc, and the operations on sockets of machine/sysdep.cc: the simulated network.

  A machine is a process of the host; the machines share the host's datagram sockets. \<open>sockets\<close> has the datagrams that wait at the socket
  named \<^verbatim>\<open>SOCKET_\<close> followed by an address in decimal, under that address; an address without such a socket has none. The queues of the host
  are not bounded. The field \<^verbatim>\<open>packetAvail\<close> is never used by the code. A probability of type \<^verbatim>\<open>double\<close> is a rational number; the parameter
  \<open>rnd\<close> is the rounding of a product.
\<close>

section \<open>Packets\<close>

record PacketHeader =
  pkt_to :: word32
  pkt_from :: word32
  pkt_length :: word32

definition MaxWireSize :: nat where "MaxWireSize = 64"
definition MaxPacketSize :: nat where "MaxPacketSize = MaxWireSize - 12"

lemmas packet_sizes = MaxWireSize_def MaxPacketSize_def

text \<open>A header as it lies in memory, and as it is read back.\<close>

definition packet_bytes :: "PacketHeader \<Rightarrow> byte list" where
  "packet_bytes h = bytes_of_word (pkt_to h) @ bytes_of_word (pkt_from h) @ bytes_of_word (pkt_length h)"

definition packet_of_bytes :: "byte list \<Rightarrow> PacketHeader" where
  "packet_of_bytes bs = \<lparr>pkt_to = word_of_bytes bs 0, pkt_from = word_of_bytes bs 4, pkt_length = word_of_bytes bs 8\<rparr>"

section \<open>The device\<close>

datatype net_handler = NetworkReadPoll | NetworkSendDone

record net = "net_handler kernel" +
  ident :: word32
  chanceToWork :: rat
  sendBusy :: bool
  inHdr :: PacketHeader
  inbox :: "byte list"
  sockets :: "word32 \<Rightarrow> byte list list option"
  randoms :: "nat list"

definition OpenSocket_named :: "word32 \<Rightarrow> 'z net_scheme \<Rightarrow> 'z net_scheme" where
  "OpenSocket_named a s = s\<lparr>sockets := (sockets s)(a \<mapsto> [])\<rparr>"

definition CloseSocket_named :: "word32 \<Rightarrow> 'z net_scheme \<Rightarrow> 'z net_scheme" where
  "CloseSocket_named a s = s\<lparr>sockets := (sockets s)(a := None)\<rparr>"

definition PollSocket :: "word32 \<Rightarrow> 'z net_scheme \<Rightarrow> bool option" where
  "PollSocket a s = do { q \<leftarrow> sockets s a; Some (q \<noteq> []) }"

definition ReadFromSocket :: "word32 \<Rightarrow> nat \<Rightarrow> 'z net_scheme \<Rightarrow> (byte list \<times> 'z net_scheme) option" where
  "ReadFromSocket a packetSize s = do {
     q \<leftarrow> sockets s a;
     (case q of
        [] \<Rightarrow> None
      | d # ds \<Rightarrow> do {
          let buffer = take packetSize d;
          ASSERT (length buffer = packetSize);
          Some (buffer, s\<lparr>sockets := (sockets s)(a \<mapsto> ds)\<rparr>) }) }"

definition SendToSocket :: "byte list \<Rightarrow> word32 \<Rightarrow> 'z net_scheme \<Rightarrow> 'z net_scheme option" where
  "SendToSocket buffer to s = do {
     q \<leftarrow> sockets s to;
     Some (s\<lparr>sockets := (sockets s)(to \<mapsto> q @ [buffer])\<rparr>) }"

definition Network_new :: "word32 \<Rightarrow> rat \<Rightarrow> 'z net_scheme \<Rightarrow> 'z net_scheme option" where
  "Network_new addr reliability s = do {
     let s1 = s\<lparr>ident := addr,
       chanceToWork := (if reliability < 0 then 0 else if reliability > 1 then 1 else reliability),
       sendBusy := False, inHdr := (inHdr s)\<lparr>pkt_length := 0\<rparr>\<rparr>;
     let s2 = OpenSocket_named addr s1;
     Schedule NetworkReadPoll 0 NetworkTime NetworkRecvInt s2 }"

definition Network_delete :: "'z net_scheme \<Rightarrow> 'z net_scheme" where
  "Network_delete s = CloseSocket_named (ident s) s"

definition count_received :: "'z net_scheme \<Rightarrow> 'z net_scheme" where
  "count_received s = s\<lparr>stats := (stats s)\<lparr>numPacketsRecvd := numPacketsRecvd (stats s) + 1\<rparr>\<rparr>"
definition count_sent :: "'z net_scheme \<Rightarrow> 'z net_scheme" where
  "count_sent s = s\<lparr>stats := (stats s)\<lparr>numPacketsSent := numPacketsSent (stats s) + 1\<rparr>\<rparr>"

definition CheckPktAvail :: "('z net_scheme \<Rightarrow> 'z net_scheme option) \<Rightarrow> 'z net_scheme \<Rightarrow> 'z net_scheme option" where
  "CheckPktAvail readHandler s = do {
     s1 \<leftarrow> Schedule NetworkReadPoll 0 NetworkTime NetworkRecvInt s;
     if pkt_length (inHdr s1) \<noteq> 0 then Some s1
     else do {
       waiting \<leftarrow> PollSocket (ident s1) s1;
       if \<not> waiting then Some s1
       else do {
         (buffer, s2) \<leftarrow> ReadFromSocket (ident s1) MaxWireSize s1;
         let h = packet_of_bytes buffer;
         let s3 = s2\<lparr>inHdr := h\<rparr>;
         ASSERT (pkt_to h = ident s3 \<and> unat (pkt_length h) \<le> MaxPacketSize);
         let n = unat (pkt_length h);
         let s4 = s3\<lparr>inbox := take n (drop 12 buffer) @ drop n (inbox s3)\<rparr>;
         readHandler (count_received s4) } } }"

definition SendDone :: "('z net_scheme \<Rightarrow> 'z net_scheme option) \<Rightarrow> 'z net_scheme \<Rightarrow> 'z net_scheme option" where
  "SendDone writeHandler s = writeHandler (count_sent (s\<lparr>sendBusy := False\<rparr>))"

text \<open>The value of \<^verbatim>\<open>Random()\<close> is the next number of the list.\<close>

definition Random :: "'z net_scheme \<Rightarrow> nat \<times> 'z net_scheme" where
  "Random s = (case randoms s of [] \<Rightarrow> (0, s) | r # more_numbers \<Rightarrow> (r, s\<lparr>randoms := more_numbers\<rparr>))"

definition drops :: "(rat \<Rightarrow> rat) \<Rightarrow> 'z net_scheme \<Rightarrow> bool" where
  "drops rnd s \<longleftrightarrow> rnd (chanceToWork s * 100) \<le> of_nat (fst (Random s) mod 100)"

text \<open>\<open>junk\<close> is the contents of the new buffer.\<close>

definition Network_Send ::
    "(rat \<Rightarrow> rat) \<Rightarrow> byte list \<Rightarrow> PacketHeader \<Rightarrow> byte list \<Rightarrow> 'z net_scheme \<Rightarrow> 'z net_scheme option" where
  "Network_Send rnd junk h data s = do {
     ASSERT (\<not> sendBusy s \<and> pkt_length h > 0 \<and> unat (pkt_length h) \<le> MaxPacketSize \<and> pkt_from h = ident s);
     s1 \<leftarrow> Schedule NetworkSendDone 0 NetworkTime NetworkSendInt s;
     let s2 = snd (Random s1);
     if drops rnd s1 then Some s2
     else do {
       let n = unat (pkt_length h);
       ASSERT (n \<le> length data \<and> length junk = MaxWireSize);
       SendToSocket (packet_bytes h @ take n data @ drop (12 + n) junk) (pkt_to h) s2 } }"

text \<open>The header, the bytes copied to the start of the caller's buffer, and the new state.\<close>

definition Network_Receive :: "'z net_scheme \<Rightarrow> PacketHeader \<times> byte list \<times> 'z net_scheme" where
  "Network_Receive s = (inHdr s, take (unat (pkt_length (inHdr s))) (inbox s), s\<lparr>inHdr := (inHdr s)\<lparr>pkt_length := 0\<rparr>\<rparr>)"

section \<open>Headers survive the wire\<close>

lemma length_packet_bytes [simp]: "length (packet_bytes h) = 12"
  by (simp add: packet_bytes_def)

lemma word_at:
  assumes "length pre = i"
  shows "word_of_bytes (pre @ bytes_of_word w @ rest) i = w"
  using assms by (intro word_of_bytes_of_word [of _ _ _ rest]) simp

lemma packet_round_trip [simp]: "packet_of_bytes (packet_bytes h @ rest) = h"
  using word_at [of "[]" 0 "pkt_to h"] word_at [of "bytes_of_word (pkt_to h)" 4 "pkt_from h"]
    word_at [of "bytes_of_word (pkt_to h) @ bytes_of_word (pkt_from h)" 8 "pkt_length h"]
  by (simp add: packet_of_bytes_def packet_bytes_def)

end
