(* ===== verification/Synch_List.thy ===== *)
theory Synch_List
  imports Synch_Devices
begin

text \<open>
  threads/synchlist.cc and \<^verbatim>\<open>Condition\<close> of threads/synch.cc: lists shared between threads.

  \<^verbatim>\<open>Lock\<close> and \<^verbatim>\<open>Condition\<close> have no state. Their operations are empty, except that \<^verbatim>\<open>Condition::Wait\<close> fails an assertion, so taking an
  element from an empty list aborts instead of waiting.
\<close>

section \<open>Operations\<close>

definition Condition_Wait :: "'s \<Rightarrow> 's option" where "Condition_Wait s = do { ASSERT False; Some s }"
definition Condition_Signal :: "'s \<Rightarrow> 's" where "Condition_Signal s = s"
definition Condition_Broadcast :: "'s \<Rightarrow> 's" where "Condition_Broadcast s = s"

record 'a SynchList = sl_list :: "'a klist"

definition SynchList_new :: "'a SynchList" where
  "SynchList_new = \<lparr>sl_list = List_new\<rparr>"

definition SynchList_delete :: "'a SynchList \<Rightarrow> 'a SynchList option" where
  "SynchList_delete l = do { xs \<leftarrow> List_delete (sl_list l); Some (l\<lparr>sl_list := xs\<rparr>) }"

definition SynchList_Append :: "'a \<Rightarrow> 'a SynchList \<Rightarrow> 'a SynchList option" where
  "SynchList_Append x l = do {
     let l1 = Lock_Acquire l;
     xs \<leftarrow> Append x (sl_list l1);
     let l2 = Condition_Signal (l1\<lparr>sl_list := xs\<rparr>);
     Some (Lock_Release l2) }"

text \<open>\<^verbatim>\<open>while (list->IsEmpty()) listEmpty->Wait(lock);\<close>\<close>

partial_function (option) wait_nonempty :: "'a SynchList \<Rightarrow> 'a SynchList option" where
  "wait_nonempty l = (if IsEmpty (sl_list l) then do { l1 \<leftarrow> Condition_Wait l; wait_nonempty l1 } else Some l)"

definition SynchList_Remove :: "'a SynchList \<Rightarrow> ('a \<times> 'a SynchList) option" where
  "SynchList_Remove l = do {
     l1 \<leftarrow> wait_nonempty (Lock_Acquire l);
     (r, xs) \<leftarrow> Remove (sl_list l1);
     x \<leftarrow> r;
     Some (x, Lock_Release (l1\<lparr>sl_list := xs\<rparr>)) }"

definition SynchList_Mapcar :: "('a \<Rightarrow> 's \<Rightarrow> 's) \<Rightarrow> 'a SynchList \<Rightarrow> 's \<Rightarrow> 's option" where
  "SynchList_Mapcar func l s = Mapcar func (sl_list (Lock_Acquire l)) s"

section \<open>A shared list is a queue\<close>

definition queue_rep :: "'a SynchList \<Rightarrow> 'a list \<Rightarrow> bool" where
  "queue_rep l xs \<longleftrightarrow> list_rep (sl_list l) (map (Pair 0) xs)"

text \<open>What the users of a queue rely on: appending adds at the end, and the head of a queue that is not empty can be taken.\<close>

locale shared_queue =
  fixes rep :: "'q \<Rightarrow> 'a list \<Rightarrow> bool"
    and empty :: 'q
    and put :: "'a \<Rightarrow> 'q \<Rightarrow> 'q option"
    and get :: "'q \<Rightarrow> ('a \<times> 'q) option"
  assumes rep_unique: "rep q xs \<Longrightarrow> rep q ys \<Longrightarrow> xs = ys"
    and rep_new: "rep empty []"
    and put_adds: "rep q xs \<Longrightarrow> \<exists>q'. put x q = Some q' \<and> rep q' (xs @ [x])"
    and get_takes: "rep q (x # xs) \<Longrightarrow> \<exists>q'. get q = Some (x, q') \<and> rep q' xs"
    and get_empty: "rep q [] \<Longrightarrow> get q = None"
begin

lemma put_rep: "rep q xs \<Longrightarrow> put x q = Some q' \<Longrightarrow> rep q' (xs @ [x])"
  using put_adds [of q xs x] by auto

lemma get_rep: "rep q xs \<Longrightarrow> get q = Some (x, q') \<Longrightarrow> \<exists>ys. xs = x # ys \<and> rep q' ys"
  using get_takes [of q "hd xs" "tl xs"] get_empty [of q] by (cases xs) auto

lemma put_all: "rep q ys \<Longrightarrow> \<exists>q'. each put xs q = Some q' \<and> rep q' (ys @ xs)"
proof (induction xs arbitrary: q ys)
  case (Cons x xs)
  from put_adds [OF Cons.prems, of x] obtain q1 where "put x q = Some q1" "rep q1 (ys @ [x])" by blast
  with Cons.IH [of q1 "ys @ [x]"] show ?case by simp
qed simp

lemma get_all: "rep q xs \<Longrightarrow> \<exists>q'. collect_n get (length xs) q = Some (xs, q') \<and> rep q' []"
proof (induction xs arbitrary: q)
  case (Cons x xs)
  from get_takes [OF Cons.prems] obtain q1 where "get q = Some (x, q1)" "rep q1 xs" by blast
  with Cons.IH [of q1] show ?case by auto
qed simp

end

lemma queue_new: "queue_rep SynchList_new []"
  by (simp add: queue_rep_def SynchList_new_def list_rep_new)

lemma queue_append: "queue_rep l xs \<Longrightarrow> \<exists>l'. SynchList_Append x l = Some l' \<and> queue_rep l' (xs @ [x])"
  using Append_rep [of "sl_list l" "map (Pair 0) xs" x]
  by (auto simp: SynchList_Append_def queue_rep_def Lock_Acquire_def Lock_Release_def Condition_Signal_def)

lemma queue_remove: "queue_rep l (x # xs) \<Longrightarrow> \<exists>l'. SynchList_Remove l = Some (x, l') \<and> queue_rep l' xs"
proof -
  assume "queue_rep l (x # xs)"
  then have r: "list_rep (sl_list l) ((0, x) # map (Pair 0) xs)" by (simp add: queue_rep_def)
  have "wait_nonempty l = Some l" using IsEmpty_rep [OF r] by (subst wait_nonempty.simps) simp
  with Remove_Cons [OF r] show ?thesis by (auto simp: SynchList_Remove_def queue_rep_def Lock_Acquire_def Lock_Release_def)
qed

lemma queue_remove_empty: "queue_rep l [] \<Longrightarrow> SynchList_Remove l = None"
  using IsEmpty_rep [of "sl_list l" "[]"] wait_nonempty.simps [of l]
  by (simp add: SynchList_Remove_def queue_rep_def Lock_Acquire_def Condition_Wait_def ASSERT_def)

lemma queue_unique: "queue_rep l xs \<Longrightarrow> queue_rep l ys \<Longrightarrow> xs = ys"
  unfolding queue_rep_def by (drule (1) list_rep_functional) (simp add: inj_def inj_map_eq_map)

interpretation sq: shared_queue queue_rep SynchList_new SynchList_Append SynchList_Remove
  by unfold_locales (rule queue_unique queue_new queue_append queue_remove queue_remove_empty; assumption)+

end
