(* ===== verification/Post_Office.thy ===== *)
theory Post_Office
  imports Network Synch_List
begin

text \<open>
  network/post.cc: mail boxes, and the post office that delivers between machines.

  The state of a machine with a post office extends that of its network device. A thread of the kernel, the postal worker, waits for packets
  and puts them into boxes. Debugging output is left out.
\<close>

section \<open>Mail\<close>

record MailHeader =
  mail_to :: word32
  mail_from :: word32
  mail_length :: word32

definition MaxMailSize :: nat where "MaxMailSize = MaxPacketSize - 12"

definition mail_bytes :: "MailHeader \<Rightarrow> byte list" where
  "mail_bytes h = bytes_of_word (mail_to h) @ bytes_of_word (mail_from h) @ bytes_of_word (mail_length h)"

definition mail_of_bytes :: "byte list \<Rightarrow> MailHeader" where
  "mail_of_bytes bs = \<lparr>mail_to = word_of_bytes bs 0, mail_from = word_of_bytes bs 4, mail_length = word_of_bytes bs 8\<rparr>"

record Mail =
  pktHdr :: PacketHeader
  mailHdr :: MailHeader
  mail_data :: "byte list"

text \<open>\<open>junk\<close> is the contents of the array \<^verbatim>\<open>data\<close> of a new object.\<close>

definition Mail_new :: "byte list \<Rightarrow> PacketHeader \<Rightarrow> MailHeader \<Rightarrow> byte list \<Rightarrow> Mail option" where
  "Mail_new junk pktH mailH msgData = do {
     let n = unat (mail_length mailH);
     ASSERT (n \<le> MaxMailSize);
     ASSERT (n \<le> length msgData \<and> length junk = MaxMailSize);
     Some \<lparr>pktHdr = pktH, mailHdr = mailH, mail_data = take n msgData @ drop n junk\<rparr> }"

section \<open>Mail boxes\<close>

type_synonym MailBox = "Mail SynchList"

definition MailBox_new :: MailBox where "MailBox_new = SynchList_new"

definition MailBox_delete :: "MailBox \<Rightarrow> MailBox option" where "MailBox_delete b = SynchList_delete b"

definition MailBox_Put :: "byte list \<Rightarrow> PacketHeader \<Rightarrow> MailHeader \<Rightarrow> byte list \<Rightarrow> MailBox \<Rightarrow> MailBox option" where
  "MailBox_Put junk pktH mailH data messages = do {
     mail \<leftarrow> Mail_new junk pktH mailH data;
     SynchList_Append mail messages }"

definition MailBox_Get :: "MailBox \<Rightarrow> (PacketHeader \<times> MailHeader \<times> byte list \<times> MailBox) option" where
  "MailBox_Get messages = do {
     (mail, rest) \<leftarrow> SynchList_Remove messages;
     Some (pktHdr mail, mailHdr mail, take (unat (mail_length (mailHdr mail))) (mail_data mail), rest) }"

section \<open>The post office\<close>

record post = net +
  netAddr :: word32
  boxes :: "MailBox list"
  numBoxes :: int

definition messageAvailable :: nat where "messageAvailable = 0"
definition messageSent :: nat where "messageSent = 1"

text \<open>The interrupt handlers run with interrupts disabled, so \<open>V\<close> cannot cause a tick.\<close>

definition IncomingPacket :: "'z post_scheme \<Rightarrow> 'z post_scheme option" where
  "IncomingPacket s = V (\<lambda>h a s. None) (\<lambda>s. None) messageAvailable s"

definition PacketSent :: "'z post_scheme \<Rightarrow> 'z post_scheme option" where
  "PacketSent s = V (\<lambda>h a s. None) (\<lambda>s. None) messageSent s"

definition post_handler :: "net_handler \<Rightarrow> int \<Rightarrow> 'z post_scheme \<Rightarrow> 'z post_scheme option" where
  "post_handler h a s =
     (case h of
        NetworkReadPoll \<Rightarrow> CheckPktAvail IncomingPacket s
      | NetworkSendDone \<Rightarrow> SendDone PacketSent s)"

text \<open>The constructor; \<open>t\<close> is the new thread, and \<open>junk\<close> the contents of its registers.\<close>

definition PostOffice_new ::
    "('z post_scheme \<Rightarrow> 'z post_scheme option) \<Rightarrow> (nat \<Rightarrow> word32) \<Rightarrow> nat \<Rightarrow> word32 \<Rightarrow> rat \<Rightarrow> int \<Rightarrow> 'z post_scheme
     \<Rightarrow> 'z post_scheme option" where
  "PostOffice_new Y junk t addr reliability nBoxes s = do {
     let s1 = set_sem messageAvailable (Semaphore_new 0) s;
     let s2 = set_sem messageSent (Semaphore_new 0) s1;
     ASSERT (0 \<le> nBoxes);
     let s3 = s2\<lparr>netAddr := addr, numBoxes := nBoxes, boxes := replicate (nat nBoxes) MailBox_new\<rparr>;
     s4 \<leftarrow> Network_new addr reliability s3;
     (oldLevel, s5) \<leftarrow> SetLevel post_handler Y IntOff (set_thread t (Thread_new junk) s4);
     s6 \<leftarrow> Fork_section t s5;
     (l, s7) \<leftarrow> SetLevel post_handler Y oldLevel s6;
     Some s7 }"

definition PostOffice_delete :: "'z post_scheme \<Rightarrow> 'z post_scheme option" where
  "PostOffice_delete s = do {
     let s1 = Network_delete s;
     bs \<leftarrow> those (map MailBox_delete (boxes s1));
     Some (s1\<lparr>boxes := []\<rparr>) }"

text \<open>One message of the postal worker, after \<^verbatim>\<open>messageAvailable->P()\<close>; \<open>buffer\<close> is kept from one message to the next.\<close>

definition deliver :: "byte list \<Rightarrow> byte list \<Rightarrow> 'z post_scheme \<Rightarrow> (byte list \<times> 'z post_scheme) option" where
  "deliver junk buffer s = do {
     let (pktH, bs, s1) = Network_Receive s;
     let buffer1 = bs @ drop (length bs) buffer;
     let mailH = mail_of_bytes buffer1;
     ASSERT (0 \<le> sint (mail_to mailH) \<and> sint (mail_to mailH) < numBoxes s1);
     ASSERT (unat (mail_length mailH) \<le> MaxMailSize);
     let i = nat (sint (mail_to mailH));
     box \<leftarrow> array_get (boxes s1) i;
     box1 \<leftarrow> MailBox_Put junk pktH mailH (drop 12 buffer1) box;
     bs1 \<leftarrow> array_set (boxes s1) i box1;
     Some (buffer1, s1\<lparr>boxes := bs1\<rparr>) }"

text \<open>The postal worker never returns; its result is the machine's last state when it halts.\<close>

partial_function (option) PostalDelivery ::
    "('z post_scheme \<Rightarrow> 'z post_scheme option) \<Rightarrow> (nat \<Rightarrow> 'z post_scheme \<Rightarrow> (unit, 'z post_scheme) outcome option)
     \<Rightarrow> byte list \<Rightarrow> byte list \<Rightarrow> 'z post_scheme \<Rightarrow> (unit, 'z post_scheme) outcome option" where
  "PostalDelivery Y others junk buffer s = do {
     r \<leftarrow> P_with post_handler Y others messageAvailable s;
     (case r of
        Halts s1 \<Rightarrow> Some (Halts s1)
      | Returns u s1 \<Rightarrow> do {
          (buffer1, s2) \<leftarrow> deliver junk buffer s1;
          PostalDelivery Y others junk buffer1 s2 }) }"

text \<open>Handing a message to the network, before the wait for the interrupt. \<open>junk\<close> and \<open>wire_junk\<close> are the contents of the new buffers of
  \<^verbatim>\<open>PostOffice::Send\<close> and \<^verbatim>\<open>Network::Send\<close>.\<close>

definition hand_over ::
    "(rat \<Rightarrow> rat) \<Rightarrow> byte list \<Rightarrow> byte list \<Rightarrow> PacketHeader \<Rightarrow> MailHeader \<Rightarrow> byte list \<Rightarrow> 'z post_scheme \<Rightarrow> 'z post_scheme option" where
  "hand_over rnd junk wire_junk pktH mailH data s = do {
     let n = unat (mail_length mailH);
     ASSERT (n \<le> MaxMailSize);
     ASSERT (0 \<le> sint (mail_to mailH) \<and> sint (mail_to mailH) < numBoxes s);
     let pktH1 = pktH\<lparr>pkt_from := netAddr s, pkt_length := mail_length mailH + 12\<rparr>;
     ASSERT (n \<le> length data \<and> length junk = MaxPacketSize);
     let buffer = mail_bytes mailH @ take n data @ drop (12 + n) junk;
     Network_Send rnd wire_junk pktH1 buffer (Lock_Acquire s) }"

definition PostOffice_Send ::
    "('z post_scheme \<Rightarrow> 'z post_scheme option) \<Rightarrow> (nat \<Rightarrow> 'z post_scheme \<Rightarrow> (unit, 'z post_scheme) outcome option)
     \<Rightarrow> (rat \<Rightarrow> rat) \<Rightarrow> byte list \<Rightarrow> byte list \<Rightarrow> PacketHeader \<Rightarrow> MailHeader \<Rightarrow> byte list \<Rightarrow> 'z post_scheme
     \<Rightarrow> (unit, 'z post_scheme) outcome option" where
  "PostOffice_Send Y others rnd junk wire_junk pktH mailH data s = do {
     s1 \<leftarrow> hand_over rnd junk wire_junk pktH mailH data s;
     then_run (P_with post_handler Y others messageSent s1) (\<lambda>u s2. Some (Returns () (Lock_Release s2))) }"

definition PostOffice_Receive :: "int \<Rightarrow> 'z post_scheme \<Rightarrow> (PacketHeader \<times> MailHeader \<times> byte list \<times> 'z post_scheme) option" where
  "PostOffice_Receive box s = do {
     ASSERT (box \<ge> 0 \<and> box < numBoxes s);
     b \<leftarrow> array_get (boxes s) (nat box);
     (pktH, mailH, data, b1) \<leftarrow> MailBox_Get b;
     bs \<leftarrow> array_set (boxes s) (nat box) b1;
     ASSERT (unat (mail_length mailH) \<le> MaxMailSize);
     Some (pktH, mailH, data, s\<lparr>boxes := bs\<rparr>) }"

section \<open>What the operations do to the mail\<close>

text \<open>A message as the users of the post office see it.\<close>

type_synonym letter = "PacketHeader \<times> MailHeader \<times> byte list"

definition letter_box :: "letter \<Rightarrow> int" where "letter_box l = sint (mail_to (fst (snd l)))"

definition mail_letter :: "Mail \<Rightarrow> letter" where
  "mail_letter mail = (pktHdr mail, mailHdr mail, take (unat (mail_length (mailHdr mail))) (mail_data mail))"

text \<open>The message in a datagram, and in the buffer of the device.\<close>

definition payload :: "PacketHeader \<Rightarrow> byte list \<Rightarrow> letter" where
  "payload h bs = (h, mail_of_bytes bs, take (unat (mail_length (mail_of_bytes bs))) (drop 12 bs))"

definition wire_letter :: "byte list \<Rightarrow> letter" where
  "wire_letter d = payload (packet_of_bytes d) (drop 12 d)"

definition buffered :: "PacketHeader \<Rightarrow> byte list \<Rightarrow> letter list" where
  "buffered h bs = (if pkt_length h = 0 then [] else [payload h bs])"

text \<open>Addressed to machine \<open>a\<close>, with lengths that fit and a box below \<open>n\<close>.\<close>

definition proper :: "int \<Rightarrow> word32 \<Rightarrow> letter \<Rightarrow> bool" where
  "proper n a l \<longleftrightarrow> (case l of (p, m, bs) \<Rightarrow>
     pkt_to p = a \<and> pkt_length p = mail_length m + 12 \<and> unat (mail_length m) \<le> MaxMailSize \<and> length bs = unat (mail_length m)
     \<and> 0 \<le> sint (mail_to m) \<and> sint (mail_to m) < n)"

lemma mail_sizes: "MaxMailSize = 40" "MaxPacketSize = 52" "MaxWireSize = 64"
  by (simp_all add: MaxMailSize_def packet_sizes)

lemma length_mail_bytes [simp]: "length (mail_bytes h) = 12"
  by (simp add: mail_bytes_def)

lemma mail_round_trip [simp]: "mail_of_bytes (mail_bytes h @ rest) = h"
  using word_at [of "[]" 0 "mail_to h"] word_at [of "bytes_of_word (mail_to h)" 4 "mail_from h"]
    word_at [of "bytes_of_word (mail_to h) @ bytes_of_word (mail_from h)" 8 "mail_length h"]
  by (simp add: mail_of_bytes_def mail_bytes_def)

lemma packet_length_word:
  assumes "unat (n :: word32) \<le> MaxMailSize"
  shows "unat (n + 12) = unat n + 12" "n + 12 \<noteq> 0" "0 < n + 12"
proof -
  show u: "unat (n + 12) = unat n + 12" using assms by (simp add: unat_word_ariths mail_sizes)
  then show "n + 12 \<noteq> 0" by auto
  then show "0 < n + 12" by (simp add: word_gt_0)
qed

lemma mail_of_bytes_prefix:
  assumes "12 \<le> n" "n \<le> length xs"
  shows "mail_of_bytes (take n xs @ ys) = mail_of_bytes xs"
  using assms by (cases "xs = []") (simp_all add: mail_of_bytes_def word_of_bytes_def load32_def nth_append)

text \<open>Copying the bytes of a packet from one buffer to the start of another keeps its message.\<close>

lemma payload_copied:
  assumes "proper n a (payload h xs)" "unat (pkt_length h) \<le> length xs"
  shows "payload h (take (unat (pkt_length h)) xs @ ys) = payload h xs"
proof -
  let ?m = "unat (mail_length (mail_of_bytes xs))"
  have l: "unat (pkt_length h) = ?m + 12"
    using assms(1) packet_length_word(1) by (simp add: proper_def payload_def)
  then have "mail_of_bytes (take (unat (pkt_length h)) xs @ ys) = mail_of_bytes xs"
    using assms(2) by (intro mail_of_bytes_prefix) auto
  moreover have "take ?m (drop 12 (take (?m + 12) xs @ ys)) = take ?m (drop 12 xs)"
    using assms(2) l by (simp add: drop_take)
  ultimately show ?thesis by (simp add: payload_def l)
qed

text \<open>The part of the state that holds mail, apart from the sockets.\<close>

definition mail_state :: "'z post_scheme \<Rightarrow> word32 \<times> word32 \<times> int \<times> MailBox list \<times> PacketHeader \<times> byte list \<times> int" where
  "mail_state s = (ident s, netAddr s, numBoxes s, boxes s, inHdr s, inbox s, sem_value (sems s messageAvailable))"

lemma post_more:
  assumes "kernel.more s' = kernel.more (s :: 'z post_scheme)"
  shows "ident s' = ident s" "netAddr s' = netAddr s" "numBoxes s' = numBoxes s" "boxes s' = boxes s" "inHdr s' = inHdr s"
    "inbox s' = inbox s" "sockets s' = sockets s"
  using assms by (cases s, cases s', simp)+

lemma V_section_kernel:
  assumes "V_section k s = Some s'"
  shows "kernel.more s' = kernel.more s" "sem_value (sems s' j) = sem_value (sems s j) + of_bool (j = k)"
  using assms
  by (auto simp: V_section_def Let_def set_sem_def bind_eq_Some_conv ReadyToRun_Some set_thread_def split: list.splits)

lemma P_section_kernel:
  assumes "P_section k s = Some (True, s')"
  shows "kernel.more s' = kernel.more s" "sem_value (sems s' j) = sem_value (sems s j) - of_bool (j = k)" "sem_value (sems s k) \<noteq> 0"
  using assms by (auto simp: P_section_def Let_def set_sem_def bind_eq_Some_conv split: if_splits)

lemma Schedule_net:
  assumes "Schedule h a d ty s = Some s'"
  shows "kernel.more s' = kernel.more s" "sems s' = sems s" "level s' = level s" "threads s' = threads s"
  using assms by (auto simp: Schedule_def Let_def bind_eq_Some_conv)

text \<open>Sending: the message as it leaves, with the sender's address and the length filled in.\<close>

definition stamped :: "PacketHeader \<Rightarrow> MailHeader \<Rightarrow> byte list \<Rightarrow> 'z post_scheme \<Rightarrow> letter" where
  "stamped p m d s = (p\<lparr>pkt_from := netAddr s, pkt_length := mail_length m + 12\<rparr>, m, take (unat (mail_length m)) d)"

lemma Network_Send_effect:
  assumes "Network_Send rnd junk h data s = Some s'"
  shows "pkt_from h = ident s" "sems s' = sems s" "drops rnd s \<Longrightarrow> sockets s' = sockets s"
    "\<not> drops rnd s \<Longrightarrow> length junk = MaxWireSize \<and> unat (pkt_length h) \<le> length data \<and> (\<exists>q. sockets s (pkt_to h) = Some q
       \<and> sockets s' = (sockets s)(pkt_to h \<mapsto> q @ [packet_bytes h @ take (unat (pkt_length h)) data @ drop (12 + unat (pkt_length h)) junk]))"
    "ident s' = ident s" "inHdr s' = inHdr s" "inbox s' = inbox s" "net.more s' = net.more s"
  using assms
  by (auto simp: Network_Send_def drops_def Random_def SendToSocket_def Schedule_def Let_def bind_eq_Some_conv split: if_splits list.splits)

lemma hand_over_effect:
  assumes "hand_over rnd junk wire_junk p m d s = Some s'"
  shows "mail_state s' = mail_state s" "proper (numBoxes s) (pkt_to p) (stamped p m d s)"
    "drops rnd s \<Longrightarrow> sockets s' = sockets s"
    "\<not> drops rnd s \<Longrightarrow> \<exists>q dg. sockets s (pkt_to p) = Some q \<and> sockets s' = (sockets s)(pkt_to p \<mapsto> q @ [dg])
       \<and> length dg = MaxWireSize \<and> wire_letter dg = stamped p m d s"
proof -
  let ?n = "unat (mail_length m)"
  let ?h = "p\<lparr>pkt_from := netAddr s, pkt_length := mail_length m + 12\<rparr>"
  let ?b = "mail_bytes m @ take ?n d @ drop (12 + ?n) junk"
  have a: "?n \<le> MaxMailSize" "0 \<le> sint (mail_to m)" "sint (mail_to m) < numBoxes s" "?n \<le> length d" "length junk = MaxPacketSize"
    "Network_Send rnd wire_junk ?h ?b s = Some s'"
    using assms by (auto simp: hand_over_def Let_def bind_eq_Some_conv Lock_Acquire_def)
  note l = packet_length_word(1) [OF a(1)] and e = Network_Send_effect [OF a(6)]
  have "netAddr s' = netAddr s" "numBoxes s' = numBoxes s" "boxes s' = boxes s" using e(8) by (cases s, cases s', simp)+
  then show "mail_state s' = mail_state s" using e by (simp add: mail_state_def)
  show "proper (numBoxes s) (pkt_to p) (stamped p m d s)" using a by (simp add: proper_def stamped_def)
  show "sockets s' = sockets s" if "drops rnd s" using e(3) that .
  show "\<exists>q dg. sockets s (pkt_to p) = Some q \<and> sockets s' = (sockets s)(pkt_to p \<mapsto> q @ [dg])
       \<and> length dg = MaxWireSize \<and> wire_letter dg = stamped p m d s" if "\<not> drops rnd s"
  proof -
    define dg where "dg = packet_bytes ?h @ take (unat (pkt_length ?h)) ?b @ drop (12 + unat (pkt_length ?h)) wire_junk"
    have dg: "dg = packet_bytes ?h @ mail_bytes m @ take ?n d @ drop (24 + ?n) wire_junk" using a(4) by (simp add: dg_def l)
    have "length dg = MaxWireSize" using e(4) [OF that] a(1,4) by (simp add: mail_sizes dg)
    moreover have "wire_letter dg = stamped p m d s" using a(4) by (simp add: wire_letter_def payload_def stamped_def dg)
    moreover have "\<exists>q. sockets s (pkt_to p) = Some q \<and> sockets s' = (sockets s)(pkt_to p \<mapsto> q @ [dg])"
      using e(4) [OF that] unfolding dg_def by simp
    ultimately show ?thesis by blast
  qed
qed

section \<open>A post office and its mail\<close>

text \<open>
  The state of the post office at address \<open>a\<close>, with \<open>n\<close> boxes and the datagrams \<open>q\<close> at its socket; \<open>taken\<close> says that the postal worker has
  passed \<^verbatim>\<open>P\<close> and not yet fetched the packet. The semaphore counts the packets in the device's buffer.
\<close>

definition office_ok :: "int \<Rightarrow> word32 \<Rightarrow> bool \<Rightarrow> byte list list \<Rightarrow> 'z post_scheme \<Rightarrow> bool" where
  "office_ok n a taken q s \<longleftrightarrow> ident s = a \<and> netAddr s = a \<and> numBoxes s = n \<and> length (inbox s) = MaxPacketSize
     \<and> (\<forall>dg \<in> set q. length dg = MaxWireSize \<and> proper n a (wire_letter dg)) \<and> (\<forall>l \<in> set (buffered (inHdr s) (inbox s)). proper n a l)
     \<and> 0 \<le> sem_value (sems s messageAvailable) \<and> sem_value (sems s messageAvailable) + of_bool taken = of_bool (pkt_length (inHdr s) \<noteq> 0)"

text \<open>The messages on their way, oldest first.\<close>

definition on_the_way :: "byte list list \<Rightarrow> 'z post_scheme \<Rightarrow> letter list" where
  "on_the_way q s = buffered (inHdr s) (inbox s) @ map wire_letter q"

lemma mail_state_eq:
  assumes "mail_state s' = mail_state s"
  shows "office_ok n a taken q s' = office_ok n a taken q s" "on_the_way q s' = on_the_way q s" "boxes s' = boxes s"
  using assms by (simp_all add: mail_state_def office_ok_def on_the_way_def)

lemma V_post:
  assumes "V H Y k s = Some s'" "level s = IntOff"
  shows "kernel.more s' = kernel.more s" "sem_value (sems s' j) = sem_value (sems s j) + of_bool (j = k)"
  using V_section_kernel [of k s s'] assms by (simp_all add: V_interrupts_off)

lemma SendDone_effect:
  assumes "SendDone PacketSent s = Some s'" "level s = IntOff"
  shows "mail_state s' = mail_state s" "sockets s' = sockets s"
proof -
  have v: "V (\<lambda>h a s. None) (\<lambda>s. None) messageSent (count_sent (s\<lparr>sendBusy := False\<rparr>)) = Some s'"
    using assms(1) by (simp add: SendDone_def PacketSent_def)
  have l: "level (count_sent (s\<lparr>sendBusy := False\<rparr>)) = IntOff" using assms(2) by (simp add: count_sent_def)
  note post_more [OF V_post(1) [OF v l]] V_post(2) [OF v l, of messageAvailable]
  then show "mail_state s' = mail_state s" "sockets s' = sockets s"
    by (simp_all add: mail_state_def count_sent_def messageAvailable_def messageSent_def)
qed

text \<open>The poll: nothing happens, or the first datagram at the socket moves to the buffer and the postal worker is signalled.\<close>

lemma poll_cases:
  assumes "CheckPktAvail IncomingPacket s = Some s'" "level s = IntOff" "sockets s (ident s) = Some q"
  obtains (no_packet) "pkt_length (inHdr s) \<noteq> 0 \<or> q = []" "mail_state s' = mail_state s" "sockets s' = sockets s"
  | (fetched) dg ds where "q = dg # ds" "pkt_length (inHdr s) = 0" "sockets s' = (sockets s)(ident s \<mapsto> ds)"
      "inHdr s' = packet_of_bytes (take MaxWireSize dg)" "unat (pkt_length (inHdr s')) \<le> MaxPacketSize"
      "inbox s' = take (unat (pkt_length (inHdr s'))) (drop 12 (take MaxWireSize dg)) @ drop (unat (pkt_length (inHdr s'))) (inbox s)"
      "ident s' = ident s" "netAddr s' = netAddr s" "numBoxes s' = numBoxes s" "boxes s' = boxes s"
      "sem_value (sems s' messageAvailable) = sem_value (sems s messageAvailable) + 1"
proof -
  from assms(1) obtain s1 where s1: "Schedule NetworkReadPoll 0 NetworkTime NetworkRecvInt s = Some s1"
    by (auto simp: CheckPktAvail_def bind_eq_Some_conv)
  note m = Schedule_net [OF s1] post_more [OF Schedule_net(1) [OF s1]]
  show ?thesis
  proof (cases "pkt_length (inHdr s) \<noteq> 0 \<or> q = []")
    case True
    then have "s' = s1" using assms(1,3) s1 m by (auto simp: CheckPktAvail_def PollSocket_def bind_eq_Some_conv split: if_splits)
    then show ?thesis using m by (intro no_packet [OF True]) (simp_all add: mail_state_def)
  next
    case False
    then obtain dg ds where q: "q = dg # ds" "pkt_length (inHdr s) = 0" by (cases q) auto
    let ?h = "packet_of_bytes (take MaxWireSize dg)"
    let ?s2 = "count_received (s1\<lparr>sockets := (sockets s1)(ident s \<mapsto> ds), inHdr := ?h,
      inbox := take (unat (pkt_length ?h)) (drop 12 (take MaxWireSize dg)) @ drop (unat (pkt_length ?h)) (inbox s)\<rparr>)"
    have v: "V (\<lambda>h a s. None) (\<lambda>s. None) messageAvailable ?s2 = Some s'" "unat (pkt_length ?h) \<le> MaxPacketSize"
      using assms(1,3) s1 m q
      by (simp_all add: CheckPktAvail_def PollSocket_def ReadFromSocket_def IncomingPacket_def bind_eq_Some_conv Let_def)
    have l: "level ?s2 = IntOff" using assms(2) m(3) by (simp add: count_received_def)
    note f = post_more [OF V_post(1) [OF v(1) l]] V_post(2) [OF v(1) l, of messageAvailable]
    show ?thesis using f m v(2) by (intro fetched [OF q]) (simp_all add: count_received_def)
  qed
qed

lemma proper_lengths:
  assumes "proper n a (payload h bs)"
  shows "pkt_length h \<noteq> 0" "unat (pkt_length h) = unat (mail_length (mail_of_bytes bs)) + 12"
    "unat (mail_length (mail_of_bytes bs)) \<le> MaxMailSize" "pkt_to h = a"
  using assms packet_length_word [of "mail_length (mail_of_bytes bs)"] by (simp_all add: proper_def payload_def)

lemma handler_keeps_mail:
  assumes "post_handler h x s = Some s'" "level s = IntOff" "sockets s a = Some q" "office_ok n a taken q s"
  obtains q' where "sockets s' = (sockets s)(a \<mapsto> q')" "office_ok n a taken q' s'" "on_the_way q' s' = on_the_way q s" "boxes s' = boxes s"
proof -
  have id: "ident s = a" using assms(4) by (simp add: office_ok_def)
  note done_with = that
  have same: thesis if "mail_state s' = mail_state s" "sockets s' = sockets s"
    using mail_state_eq [OF that(1)] that(2) assms(3,4) by (intro done_with [of q]) auto
  show thesis
  proof (cases h)
    case NetworkSendDone
    then show ?thesis using assms(1) SendDone_effect [OF _ assms(2)] same by (simp add: post_handler_def)
  next
    case NetworkReadPoll
    then have poll: "CheckPktAvail IncomingPacket s = Some s'" using assms(1) by (simp add: post_handler_def)
    show ?thesis
    proof (cases rule: poll_cases [OF poll assms(2) assms(3) [folded id]])
      case 1
      then show ?thesis using same by blast
    next
      case (2 dg ds)
      have p: "length dg = MaxWireSize" "proper n a (payload (inHdr s') (drop 12 dg))" using assms(4) 2 by (simp_all add: office_ok_def wire_letter_def)
      note l = proper_lengths [OF p(2)]
      have f: "payload (inHdr s') (inbox s') = wire_letter dg"
        using payload_copied [OF p(2)] 2 p(1) l by (simp add: wire_letter_def mail_sizes)
      have "office_ok n a taken ds s'"
        using assms(4) 2 p f l by (simp add: office_ok_def buffered_def mail_sizes wire_letter_def)
      moreover have "on_the_way ds s' = on_the_way q s" using 2 f l by (simp add: on_the_way_def buffered_def)
      ultimately show ?thesis using done_with 2 id by blast
    qed
  qed
qed

lemma worker_takes:
  assumes "P_section messageAvailable s = Some (True, s')" "office_ok n a False q s"
  shows "sockets s' = sockets s" "office_ok n a True q s'" "on_the_way q s' = on_the_way q s" "boxes s' = boxes s"
  using P_section_kernel(2) [OF assms(1), of messageAvailable] P_section_kernel(3) [OF assms(1)] post_more [OF P_section_kernel(1) [OF assms(1)]] assms(2)
  by (simp_all add: office_ok_def on_the_way_def)

text \<open>The messages in the boxes.\<close>

definition boxes_hold :: "MailBox list \<Rightarrow> letter list list \<Rightarrow> bool" where
  "boxes_hold bs ms \<longleftrightarrow> list_all2 (\<lambda>b ls. \<exists>xs. queue_rep b xs \<and> ls = map mail_letter xs) bs ms"

lemma boxes_hold_update:
  assumes "boxes_hold bs ms" "queue_rep b xs" "ls = map mail_letter xs"
  shows "boxes_hold (bs[k := b]) (ms[k := ls])"
  using assms unfolding boxes_hold_def by (intro list_all2_update_cong) auto

lemma boxes_hold_nth:
  assumes "boxes_hold bs ms" "k < length ms"
  obtains xs where "k < length bs" "queue_rep (bs ! k) xs" "ms ! k = map mail_letter xs"
  using assms by (auto simp: boxes_hold_def list_all2_conv_all_nth)

lemma boxes_hold_new: "boxes_hold (replicate n MailBox_new) (replicate n [])"
  using sq.rep_new by (auto simp: boxes_hold_def MailBox_new_def list_all2_conv_all_nth)

lemma Put_adds:
  assumes "queue_rep b xs" "unat (mail_length (mail_of_bytes bs)) \<le> MaxMailSize" "unat (mail_length (mail_of_bytes bs)) + 12 \<le> length bs"
    "length junk = MaxMailSize"
  shows "\<exists>b' mail. MailBox_Put junk h (mail_of_bytes bs) (drop 12 bs) b = Some b' \<and> queue_rep b' (xs @ [mail]) \<and> mail_letter mail = payload h bs"
proof -
  let ?n = "unat (mail_length (mail_of_bytes bs))"
  define mail where "mail = \<lparr>pktHdr = h, mailHdr = mail_of_bytes bs, mail_data = take ?n (drop 12 bs) @ drop ?n junk\<rparr>"
  have "Mail_new junk h (mail_of_bytes bs) (drop 12 bs) = Some mail" "mail_letter mail = payload h bs"
    using assms by (simp_all add: Mail_new_def mail_def mail_letter_def payload_def Let_def mail_sizes)
  with sq.put_adds [OF assms(1), of mail] show ?thesis by (auto simp: MailBox_Put_def)
qed

text \<open>The postal worker moves the oldest message on its way to its box, and never fails.\<close>

lemma deliver_effect:
  assumes "office_ok n a True q s" "boxes_hold (boxes s) ms" "n = int (length ms)" "length junk = MaxMailSize"
  shows "\<exists>buffer' s' l. deliver junk buffer s = Some (buffer', s') \<and> sockets s' = sockets s \<and> office_ok n a False q s' \<and> proper n a l
     \<and> on_the_way q s = l # on_the_way q s' \<and> boxes_hold (boxes s') (ms[nat (letter_box l) := ms ! nat (letter_box l) @ [l]])"
proof -
  have h: "pkt_length (inHdr s) \<noteq> 0" "length (inbox s) = 52" "proper n a (payload (inHdr s) (inbox s))"
    using assms(1) by (auto simp: office_ok_def buffered_def mail_sizes split: if_splits)
  note l = proper_lengths [OF h(3)]
  let ?u = "unat (pkt_length (inHdr s))" and ?l = "payload (inHdr s) (inbox s)" and ?s1 = "s\<lparr>inHdr := (inHdr s)\<lparr>pkt_length := 0\<rparr>\<rparr>"
  let ?b = "take ?u (inbox s) @ drop ?u buffer"
  have p: "payload (inHdr s) ?b = ?l" using payload_copied [OF h(3)] h(2) l by (simp add: mail_sizes)
  then have m: "mail_of_bytes ?b = mail_of_bytes (inbox s)" by (simp add: payload_def)
  have "proper n a (payload (inHdr s) ?b)" using h(3) p by simp
  then have box: "letter_box ?l = sint (mail_to (mail_of_bytes ?b))" "0 \<le> sint (mail_to (mail_of_bytes ?b))" "sint (mail_to (mail_of_bytes ?b)) < n"
    using m by (simp_all add: letter_box_def proper_def payload_def)
  let ?k = "nat (letter_box ?l)"
  have k: "?k < length ms" using box assms(3) by simp
  from boxes_hold_nth [OF assms(2) k] obtain xs where xs: "?k < length (boxes s)" "queue_rep (boxes s ! ?k) xs" "ms ! ?k = map mail_letter xs" .
  have "unat (mail_length (mail_of_bytes ?b)) \<le> MaxMailSize" "unat (mail_length (mail_of_bytes ?b)) + 12 \<le> length ?b"
    using m l h(2) by (simp_all add: mail_sizes)
  from Put_adds [OF xs(2) this assms(4), of "inHdr s"] obtain b' mail where b': "queue_rep b' (xs @ [mail])" "mail_letter mail = ?l"
    "MailBox_Put junk (inHdr s) (mail_of_bytes ?b) (drop 12 ?b) (boxes s ! ?k) = Some b'" using p by metis
  have u: "?u \<le> length (inbox s)" using h(2) l by (simp add: mail_sizes)
  have "deliver junk buffer s = Some (?b, ?s1\<lparr>boxes := (boxes s)[?k := b']\<rparr>)"
    using b'(3) xs(1) box l(3) m assms(1) u unfolding deliver_def Network_Receive_def
    by (simp add: array_get_def array_set_def office_ok_def Let_def min_absorb2)
  moreover have "boxes_hold ((boxes s)[?k := b']) (ms[?k := ms ! ?k @ [?l]])"
    using boxes_hold_update [OF assms(2) b'(1)] b'(2) xs(3) by simp
  moreover have "on_the_way q s = ?l # on_the_way q ?s1" "office_ok n a False q ?s1"
    using h(1) assms(1) by (simp_all add: on_the_way_def buffered_def office_ok_def)
  ultimately show ?thesis using h(3)
    by (intro exI [of _ ?b] exI [of _ "?s1\<lparr>boxes := (boxes s)[?k := b']\<rparr>"] exI [of _ ?l]) (simp add: office_ok_def on_the_way_def)
qed

text \<open>Receiving takes the oldest message of a box; from an empty box it aborts, because the condition variable cannot wait.\<close>

lemma Receive_effect:
  assumes "boxes_hold (boxes s) ms" "numBoxes s = int (length ms)" "k < length ms"
  shows "ms ! k = [] \<Longrightarrow> PostOffice_Receive (int k) s = None"
    "ms ! k = (p, m, d) # ls \<Longrightarrow> unat (mail_length m) \<le> MaxMailSize \<Longrightarrow>
      \<exists>bs. PostOffice_Receive (int k) s = Some (p, m, d, s\<lparr>boxes := bs\<rparr>) \<and> boxes_hold bs (ms[k := ls])"
proof -
  from boxes_hold_nth [OF assms(1,3)] obtain xs where xs: "k < length (boxes s)" "queue_rep (boxes s ! k) xs" "ms ! k = map mail_letter xs" .
  show "PostOffice_Receive (int k) s = None" if "ms ! k = []"
    using xs that assms(2,3) sq.get_empty [of "boxes s ! k"] by (simp add: PostOffice_Receive_def MailBox_Get_def array_get_def)
  show "\<exists>bs. PostOffice_Receive (int k) s = Some (p, m, d, s\<lparr>boxes := bs\<rparr>) \<and> boxes_hold bs (ms[k := ls])"
    if "ms ! k = (p, m, d) # ls" "unat (mail_length m) \<le> MaxMailSize"
  proof -
    from that(1) xs(3) obtain x ys where y: "xs = x # ys" "mail_letter x = (p, m, d)" "ls = map mail_letter ys" by auto
    from sq.get_takes xs(2) y(1) obtain b where b: "SynchList_Remove (boxes s ! k) = Some (x, b)" "queue_rep b ys" by metis
    have "PostOffice_Receive (int k) s = Some (p, m, d, s\<lparr>boxes := (boxes s)[k := b]\<rparr>)"
      using b(1) y(2) xs(1) assms(2,3) that(2)
      by (auto simp: PostOffice_Receive_def MailBox_Get_def array_get_def array_set_def mail_letter_def)
    with boxes_hold_update [OF assms(1) b(2) y(3)] show ?thesis by blast
  qed
qed

end
