(* ===== verification/Mail_Delivery.thy ===== *)
theory Mail_Delivery
  imports Post_Office
begin

text \<open>
  Machines that exchange mail through the sockets of the host: every interleaving of the operations of their post offices.
\<close>

section \<open>Machines on a network\<close>

text \<open>
  \<open>wire\<close> is the host's sockets, \<open>stations\<close> the state of each machine, and \<open>desk\<close> where its postal worker stands: whether it has passed
  \<^verbatim>\<open>messageAvailable->P()\<close>, and its buffer.
\<close>

record world =
  wire :: "word32 \<Rightarrow> byte list list option"
  stations :: "word32 \<Rightarrow> post option"
  desk :: "word32 \<Rightarrow> bool \<times> byte list"

definition at_station :: "word32 \<Rightarrow> world \<Rightarrow> post option" where
  "at_station a w = map_option (\<lambda>s. s\<lparr>sockets := wire w\<rparr>) (stations w a)"

definition put_station :: "word32 \<Rightarrow> post \<Rightarrow> world \<Rightarrow> world" where
  "put_station a s w = w\<lparr>stations := (stations w)(a \<mapsto> s), wire := sockets s\<rparr>"

definition put_desk :: "word32 \<Rightarrow> bool \<Rightarrow> byte list \<Rightarrow> world \<Rightarrow> world" where
  "put_desk a taken buffer w = w\<lparr>desk := (desk w)(a := (taken, buffer))\<rparr>"

datatype mail_event = Posted letter | Lost letter | Collected word32 nat letter | Internal

text \<open>
  A thread hands a message over; an interrupt of the network occurs; the postal worker passes \<^verbatim>\<open>P\<close>; it delivers; a thread collects a message;
  the machine does something else, which leaves the mail alone.
\<close>

inductive net_step :: "world \<Rightarrow> mail_event \<Rightarrow> world \<Rightarrow> bool" where
  send: "at_station a w = Some s \<Longrightarrow> hand_over rnd junk wire_junk p m d s = Some s' \<Longrightarrow>
    net_step w (if drops rnd s then Lost (stamped p m d s) else Posted (stamped p m d s)) (put_station a s' w)"
| interrupt: "at_station a w = Some s \<Longrightarrow> level s = IntOff \<Longrightarrow> post_handler h x s = Some s' \<Longrightarrow> net_step w Internal (put_station a s' w)"
| take_up: "at_station a w = Some s \<Longrightarrow> desk w a = (False, buffer) \<Longrightarrow> P_section messageAvailable s = Some (True, s') \<Longrightarrow>
    net_step w Internal (put_desk a True buffer (put_station a s' w))"
| bring: "at_station a w = Some s \<Longrightarrow> desk w a = (True, buffer) \<Longrightarrow> length junk = MaxMailSize \<Longrightarrow> deliver junk buffer s = Some (buffer', s') \<Longrightarrow>
    net_step w Internal (put_desk a False buffer' (put_station a s' w))"
| collect: "at_station a w = Some s \<Longrightarrow> PostOffice_Receive (int k) s = Some (p, m, d, s') \<Longrightarrow>
    net_step w (Collected a k (p, m, d)) (put_station a s' w)"
| elsewhere: "at_station a w = Some s \<Longrightarrow> mail_state s' = mail_state s \<Longrightarrow> sockets s' = sockets s \<Longrightarrow>
    net_step w Internal (put_station a s' w)"

inductive net_steps :: "world \<Rightarrow> mail_event list \<Rightarrow> world \<Rightarrow> bool" where
  refl: "net_steps w [] w"
| step: "net_steps w es w' \<Longrightarrow> net_step w' e w'' \<Longrightarrow> net_steps w (es @ [e]) w''"

text \<open>The messages posted to, and collected from, a box of a machine.\<close>

fun posted_now :: "word32 \<Rightarrow> nat \<Rightarrow> mail_event \<Rightarrow> letter list" where
  "posted_now a k (Posted l) = (if pkt_to (fst l) = a \<and> letter_box l = int k then [l] else [])"
| "posted_now a k e = []"

fun collected_now :: "word32 \<Rightarrow> nat \<Rightarrow> mail_event \<Rightarrow> letter list" where
  "collected_now a k (Collected b j l) = (if b = a \<and> j = k then [l] else [])"
| "collected_now a k e = []"

definition posted :: "word32 \<Rightarrow> nat \<Rightarrow> mail_event list \<Rightarrow> letter list" where
  "posted a k es = concat (map (posted_now a k) es)"

definition collected :: "word32 \<Rightarrow> nat \<Rightarrow> mail_event list \<Rightarrow> letter list" where
  "collected a k es = concat (map (collected_now a k) es)"

text \<open>Every machine has a post office of \<open>n\<close> boxes without mail.\<close>

definition opened :: "nat \<Rightarrow> world \<Rightarrow> bool" where
  "opened n w \<longleftrightarrow> (\<forall>a s. stations w a = Some s \<longrightarrow> wire w a = Some [] \<and> fst (desk w a) = False \<and> ident s = a \<and> netAddr s = a
     \<and> numBoxes s = int n \<and> boxes s = replicate n MailBox_new \<and> length (inbox s) = MaxPacketSize \<and> pkt_length (inHdr s) = 0
     \<and> sem_value (sems s messageAvailable) = 0)"

text \<open>
  The ledger of a machine after the events \<open>es\<close>, with the datagrams \<open>q\<close> at its socket and the messages \<open>ms\<close> in its boxes: every message posted
  to a box has been collected, lies in the box, or is on its way, in this order.
\<close>

definition ledger :: "nat \<Rightarrow> mail_event list \<Rightarrow> word32 \<Rightarrow> bool \<Rightarrow> byte list list \<Rightarrow> letter list list \<Rightarrow> post \<Rightarrow> bool" where
  "ledger n es a taken q ms s \<longleftrightarrow> office_ok (int n) a taken q s \<and> length ms = n \<and> boxes_hold (boxes s) ms
     \<and> (\<forall>ls \<in> set ms. \<forall>l \<in> set ls. proper (int n) a l)
     \<and> (\<forall>k < n. posted a k es = collected a k es @ ms ! k @ filter (\<lambda>l. letter_box l = int k) (on_the_way q s))"

definition accounted :: "nat \<Rightarrow> mail_event list \<Rightarrow> world \<Rightarrow> word32 \<Rightarrow> post \<Rightarrow> bool" where
  "accounted n es w a s \<longleftrightarrow> (\<exists>q ms. wire w a = Some q \<and> ledger n es a (fst (desk w a)) q ms s)"

lemma posted_snoc [simp]: "posted a k (es @ [e]) = posted a k es @ posted_now a k e"
  by (simp add: posted_def)
lemma collected_snoc [simp]: "collected a k (es @ [e]) = collected a k es @ collected_now a k e"
  by (simp add: collected_def)

section \<open>Every step accounts for the mail\<close>

lemma sockets_irrelevant [simp]:
  "mail_state (s\<lparr>sockets := x\<rparr>) = mail_state s" "office_ok n a taken q (s\<lparr>sockets := x\<rparr>) = office_ok n a taken q s"
  "on_the_way q (s\<lparr>sockets := x\<rparr>) = on_the_way q s"
  by (simp_all add: mail_state_def office_ok_def on_the_way_def)

lemma ledger_sockets [simp]: "ledger n es a taken q ms (s\<lparr>sockets := x\<rparr>) = ledger n es a taken q ms s"
  by (simp add: ledger_def)

lemma at_station_Some:
  assumes "at_station a w = Some s"
  obtains t where "stations w a = Some t" "s = t\<lparr>sockets := wire w\<rparr>" "mail_state s = mail_state t" "sockets s = wire w" "boxes s = boxes t"
  using assms by (auto simp: at_station_def)

lemma ledger_same:
  assumes "mail_state t' = mail_state t" "\<And>k. posted_now a k e = []" "\<And>k. collected_now a k e = []"
  shows "ledger n (es @ [e]) a taken q ms t' = ledger n es a taken q ms t"
  using assms(2,3) mail_state_eq [OF assms(1)] by (simp add: ledger_def)

lemma accounted_same:
  assumes "accounted n es w b t" "wire w' b = wire w b" "fst (desk w' b) = fst (desk w b)" "mail_state t' = mail_state t"
    "\<And>k. posted_now b k e = []" "\<And>k. collected_now b k e = []"
  shows "accounted n (es @ [e]) w' b t'"
  using assms ledger_same [OF assms(4-6)] by (auto simp: accounted_def)

lemma update_all:
  assumes "\<forall>ls \<in> set ms. \<forall>l \<in> set ls. Q l" "\<forall>l \<in> set ls. Q l"
  shows "\<forall>ls' \<in> set (ms[k := ls]). \<forall>l \<in> set ls'. Q l"
  using assms set_update_subset_insert [of ms k ls] by blast

lemma put_fields [simp]:
  "stations (put_station a s w) = (stations w)(a \<mapsto> s)" "wire (put_station a s w) = sockets s" "desk (put_station a s w) = desk w"
  "stations (put_desk a x b w) = stations w" "wire (put_desk a x b w) = wire w" "desk (put_desk a x b w) = (desk w)(a := (x, b))"
  by (simp_all add: put_station_def put_desk_def)

lemma send_accounts:
  assumes "\<forall>b t. stations w b = Some t \<longrightarrow> accounted n es w b t" "at_station a w = Some s" "hand_over rnd junk wire_junk p m d s = Some s'"
    "stations (put_station a s' w) b = Some t"
  shows "accounted n (es @ [if drops rnd s then Lost (stamped p m d s) else Posted (stamped p m d s)]) (put_station a s' w) b t"
proof -
  let ?l = "stamped p m d s" and ?w = "put_station a s' w"
  from assms(2) obtain t0 where t0: "stations w a = Some t0" "mail_state s = mail_state t0" "sockets s = wire w" by (rule at_station_Some)
  note e = hand_over_effect [OF assms(3)]
  obtain t1 where t1: "stations w b = Some t1" "mail_state t = mail_state t1"
    using assms(4) t0 e(1) by (cases "a = b") auto
  then have acc: "accounted n es w b t1" using assms(1) by blast
  from t0(1) assms(1) have "numBoxes t0 = int n" by (auto simp: accounted_def ledger_def office_ok_def)
  then have l: "proper (int n) (pkt_to p) ?l" using e(2) t0(2) by (simp add: mail_state_def)
  show ?thesis
  proof (cases "drops rnd s \<or> pkt_to p \<noteq> b")
    case True
    have "wire ?w b = wire w b" using True e(3,4) t0(3) by (cases "drops rnd s") auto
    then show ?thesis using True t1(2) by (intro accounted_same [OF acc]) (auto simp: stamped_def)
  next
    case False
    with e(4) t0(3) obtain q dg where q: "wire w b = Some q" "wire ?w b = Some (q @ [dg])" "length dg = MaxWireSize" "wire_letter dg = ?l" by auto
    from acc q(1) obtain ms where ms: "ledger n es b (fst (desk w b)) q ms t1" by (auto simp: accounted_def)
    have "office_ok (int n) b (fst (desk w b)) (q @ [dg]) t1" using ms l False q(3,4) by (auto simp: ledger_def office_ok_def)
    moreover have "on_the_way (q @ [dg]) t1 = on_the_way q t1 @ [?l]" using q(4) by (simp add: on_the_way_def)
    ultimately have "ledger n (es @ [Posted ?l]) b (fst (desk w b)) (q @ [dg]) ms t"
      using ms False mail_state_eq [OF t1(2)] by (simp add: ledger_def stamped_def)
    then show ?thesis using q(2) False by (auto simp: accounted_def)
  qed
qed

text \<open>A step of one machine that is not a sending.\<close>

lemma local_accounts:
  assumes "\<forall>b t. stations w b = Some t \<longrightarrow> accounted n es w b t" "stations w' = (stations w)(a \<mapsto> s')" "accounted n (es @ [e]) w' a s'"
    "\<And>b. b \<noteq> a \<Longrightarrow> wire w' b = wire w b" "\<And>b. b \<noteq> a \<Longrightarrow> desk w' b = desk w b"
    "\<And>b k. b \<noteq> a \<Longrightarrow> posted_now b k e = [] \<and> collected_now b k e = []"
  shows "\<forall>b t. stations w' b = Some t \<longrightarrow> accounted n (es @ [e]) w' b t"
proof (intro allI impI)
  fix b t
  assume "stations w' b = Some t"
  then show "accounted n (es @ [e]) w' b t"
    using assms by (cases "b = a") (auto intro: accounted_same [of n es w b t w' t e])
qed

lemma interrupt_ledger:
  assumes "ledger n es a taken q ms s" "sockets s a = Some q" "level s = IntOff" "post_handler h x s = Some s'"
  shows "\<exists>q'. sockets s' = (sockets s)(a \<mapsto> q') \<and> ledger n (es @ [Internal]) a taken q' ms s'"
proof -
  have o: "office_ok (int n) a taken q s" using assms(1) by (simp add: ledger_def)
  from handler_keeps_mail [OF assms(4,3,2) o] obtain q' where "sockets s' = (sockets s)(a \<mapsto> q')" "office_ok (int n) a taken q' s'"
    "on_the_way q' s' = on_the_way q s" "boxes s' = boxes s" .
  then show ?thesis using assms(1) by (auto simp: ledger_def)
qed

lemma bring_ledger:
  assumes "ledger n es a True q ms s" "length junk = MaxMailSize"
  shows "\<exists>buffer' s' ms'. deliver junk buffer s = Some (buffer', s') \<and> sockets s' = sockets s \<and> ledger n (es @ [Internal]) a False q ms' s'"
proof -
  have o: "office_ok (int n) a True q s" "boxes_hold (boxes s) ms" "int n = int (length ms)" "\<forall>ls \<in> set ms. \<forall>l \<in> set ls. proper (int n) a l"
    using assms(1) by (simp_all add: ledger_def)
  from deliver_effect [OF o(1-3) assms(2), of buffer] obtain buffer' s' l where l: "deliver junk buffer s = Some (buffer', s')" "sockets s' = sockets s"
    "office_ok (int n) a False q s'" "proper (int n) a l" "on_the_way q s = l # on_the_way q s'"
    "boxes_hold (boxes s') (ms[nat (letter_box l) := ms ! nat (letter_box l) @ [l]])" by blast
  let ?k = "nat (letter_box l)" and ?ms = "ms[nat (letter_box l) := ms ! nat (letter_box l) @ [l]]"
  have lb: "0 \<le> letter_box l" "?k < length ms" using l(4) o(3) by (auto simp: proper_def letter_box_def)
  have "\<forall>ls \<in> set ?ms. \<forall>x \<in> set ls. proper (int n) a x"
    using o(4) l(4) nth_mem [OF lb(2)] by (intro update_all) auto
  moreover have "\<forall>k < n. ms ! k @ filter (\<lambda>l. letter_box l = int k) (on_the_way q s) = ?ms ! k @ filter (\<lambda>l. letter_box l = int k) (on_the_way q s')"
    using l(5) lb o(3) by (auto simp: nth_list_update)
  ultimately have "ledger n (es @ [Internal]) a False q ?ms s'" using assms(1) l(3,6) by (simp add: ledger_def)
  then show ?thesis using l(1,2) by blast
qed

lemma collect_ledger:
  assumes "ledger n es a taken q ms s" "PostOffice_Receive (int k) s = Some (p, m, d, s')"
  shows "sockets s' = sockets s" "\<exists>ms'. ledger n (es @ [Collected a k (p, m, d)]) a taken q ms' s'"
proof -
  have o: "boxes_hold (boxes s) ms" "n = length ms" "\<forall>ls \<in> set ms. \<forall>l \<in> set ls. proper (int n) a l"
    using assms(1) by (simp_all add: ledger_def)
  have k: "k < length ms" "numBoxes s = int (length ms)"
    using assms by (auto simp: PostOffice_Receive_def bind_eq_Some_conv office_ok_def ledger_def)
  note r = Receive_effect [OF o(1) k(2,1)]
  from r(1) assms(2) obtain p' m' d' ls where h: "ms ! k = (p', m', d') # ls" by (cases "ms ! k") auto
  have pr: "\<forall>l \<in> set (ms ! k). proper (int n) a l" using o(3) nth_mem [OF k(1)] by blast
  then have "unat (mail_length m') \<le> MaxMailSize" using h by (simp add: proper_def)
  with r(2) [OF h] assms(2) obtain bs where bs: "s' = s\<lparr>boxes := bs\<rparr>" "boxes_hold bs (ms[k := ls])" "(p', m', d') = (p, m, d)" by auto
  show "sockets s' = sockets s" using bs(1) by simp
  have "\<forall>ls' \<in> set (ms[k := ls]). \<forall>x \<in> set ls'. proper (int n) a x" using o(3) pr h by (intro update_all) auto
  then have "ledger n (es @ [Collected a k (p, m, d)]) a taken q (ms[k := ls]) s'"
    using assms(1) bs h k by (auto simp: ledger_def office_ok_def on_the_way_def nth_list_update)
  then show "\<exists>ms'. ledger n (es @ [Collected a k (p, m, d)]) a taken q ms' s'" ..
qed

lemma step_accounts:
  assumes "net_step w e w'" "\<forall>b t. stations w b = Some t \<longrightarrow> accounted n es w b t"
  shows "\<forall>b t. stations w' b = Some t \<longrightarrow> accounted n (es @ [e]) w' b t"
proof -
  have ledger: "\<exists>q ms. sockets s a = Some q \<and> ledger n es a (fst (desk w a)) q ms s" if "at_station a w = Some s" for a s
    using that assms(2) by (auto simp: at_station_def accounted_def)
  note local = local_accounts [OF assms(2)]
  from assms(1) show ?thesis
  proof cases
    case (send a s rnd junk wire_junk p m d s')
    then show ?thesis using send_accounts [OF assms(2)] by auto
  next
    case (interrupt a s h x s')
    with ledger [OF interrupt(3)] interrupt_ledger obtain q' ms where "sockets s' = (sockets s)(a \<mapsto> q')"
      "ledger n (es @ [e]) a (fst (desk w a)) q' ms s'" by metis
    then show ?thesis using interrupt by (intro local [where a = a and s' = s']) (auto simp: at_station_def accounted_def)
  next
    case (take_up a s buffer s')
    with ledger [OF take_up(3)] obtain q ms where o: "sockets s a = Some q" "ledger n es a False q ms s" by auto
    note t = worker_takes [OF take_up(5) o(2) [unfolded ledger_def, THEN conjunct1]]
    have "ledger n (es @ [e]) a True q ms s'" using o(2) t take_up by (simp add: ledger_def)
    then show ?thesis using take_up o(1) t(1) by (intro local [where a = a and s' = s']) (auto simp: at_station_def accounted_def)
  next
    case (bring a s buffer junk buffer' s')
    with ledger [OF bring(3)] obtain q ms where o: "sockets s a = Some q" "ledger n es a True q ms s" by auto
    with bring_ledger [OF o(2) bring(5), of buffer] bring obtain ms' where "sockets s' = sockets s" "ledger n (es @ [e]) a False q ms' s'" by auto
    then show ?thesis using bring o(1) by (intro local [where a = a and s' = s']) (auto simp: at_station_def accounted_def)
  next
    case (collect a s k p m d s')
    with ledger [OF collect(3)] obtain q ms where o: "sockets s a = Some q" "ledger n es a (fst (desk w a)) q ms s" by auto
    note c = collect_ledger [OF o(2) collect(4)]
    then show ?thesis using collect o(1) by (intro local [where a = a and s' = s']) (auto simp: at_station_def accounted_def)
  next
    case (elsewhere a s s')
    from elsewhere(3) obtain t where t: "stations w a = Some t" "mail_state s = mail_state t" "sockets s = wire w" by (rule at_station_Some)
    with assms(2) have "accounted n es w a t" by blast
    then have "accounted n (es @ [e]) w' a s'" using elsewhere t by (intro accounted_same) simp_all
    then show ?thesis using elsewhere t by (intro local [where a = a and s' = s']) auto
  qed
qed

section \<open>Opening the post offices\<close>

lemma opened_accounted:
  assumes "opened n w"
  shows "\<forall>b t. stations w b = Some t \<longrightarrow> accounted n [] w b t"
proof (intro allI impI)
  fix b t
  assume "stations w b = Some t"
  with assms have t: "wire w b = Some []" "fst (desk w b) = False" "ident t = b" "netAddr t = b" "numBoxes t = int n"
    "boxes t = replicate n MailBox_new" "length (inbox t) = MaxPacketSize" "pkt_length (inHdr t) = 0" "sem_value (sems t messageAvailable) = 0"
    unfolding opened_def by metis+
  have "ledger n [] b False [] (replicate n []) t"
    using t boxes_hold_new [of n] by (simp add: ledger_def office_ok_def on_the_way_def buffered_def posted_def collected_def)
  then show "accounted n [] w b t" using t(1,2) by (auto simp: accounted_def)
qed

lemma run_accounts:
  assumes "net_steps w0 es w" "opened n w0"
  shows "\<forall>b t. stations w b = Some t \<longrightarrow> accounted n es w b t"
  using assms by induction (simp_all add: opened_accounted step_accounts)

text \<open>The constructor, in a kernel with no interrupt pending.\<close>

lemma tick_not_due:
  assumes "pending s = [(time, i)]" "status s = SystemMode" "now s + 10 < time" "\<not> yieldOnReturn s" "level s = IntOn"
  shows "OneTick H Y s = Some (count_tick s)"
proof -
  let ?s = "ChangeLevel IntOff (count_tick s)"
  have "CheckIfDue H False ?s = Some (False, ?s)"
    using assms(1-3) by (simp add: CheckIfDue_def ChangeLevel_def count_tick_def now_def SystemTick_def)
  then have "check_all_due H ?s = Some ?s" by (subst check_all_due.simps) simp
  moreover have "ChangeLevel IntOn ?s = count_tick s" "\<not> yieldOnReturn (count_tick s)"
    using assms(4,5) by (simp_all add: ChangeLevel_def count_tick_def)
  ultimately show ?thesis by (simp add: OneTick_def Let_def)
qed

lemma PostOffice_new_opens:
  assumes "pending s = []" "status s = SystemMode" "\<not> yieldOnReturn s" "level s = IntOn" "\<not> inHandler s"
  shows "\<exists>s'. PostOffice_new Y junk t a r (int n) s = Some s' \<and> ident s' = a \<and> netAddr s' = a \<and> numBoxes s' = int n
    \<and> boxes s' = replicate n MailBox_new \<and> inbox s' = inbox s \<and> pkt_length (inHdr s') = 0 \<and> sem_value (sems s' messageAvailable) = 0
    \<and> sockets s' = (sockets s)(a \<mapsto> []) \<and> readyList s' = readyList s @ [t]"
proof -
  define s3 where "s3 = (set_sem messageSent (Semaphore_new 0) (set_sem messageAvailable (Semaphore_new 0) s))
    \<lparr>netAddr := a, numBoxes := int n, boxes := replicate n MailBox_new\<rparr>"
  let ?c = "if r < 0 then 0 else if r > 1 then 1 else r"
  define s4 where "s4 = s3\<lparr>ident := a, chanceToWork := ?c, sendBusy := False, inHdr := (inHdr s)\<lparr>pkt_length := 0\<rparr>,
    sockets := (sockets s)(a \<mapsto> []), pending := [(now s + 100, \<lparr>handler = NetworkReadPoll, arg = 0, int_type = NetworkRecvInt\<rparr>)]\<rparr>"
  define s6 where "s6 = set_thread t ((StackAllocate (Thread_new junk))\<lparr>tstatus := READY\<rparr>) (s4\<lparr>level := IntOff, readyList := readyList s @ [t]\<rparr>)"
  have n4: "Network_new a r s3 = Some s4"
    using assms(1) by (simp add: Network_new_def OpenSocket_named_def Schedule_def NetworkTime_def Let_def s3_def s4_def set_sem_def now_def)
  have l4: "level s4 = IntOn" "SetLevel post_handler Y IntOff (set_thread t (Thread_new junk) s4) = Some (IntOn, (set_thread t (Thread_new junk) s4)\<lparr>level := IntOff\<rparr>)"
    using assms(4) by (simp_all add: s4_def s3_def set_sem_def SetLevel_def ChangeLevel_def set_thread_def Let_def)
  have f6: "Fork_section t ((set_thread t (Thread_new junk) s4)\<lparr>level := IntOff\<rparr>) = Some s6"
    by (simp add: Fork_section_def ReadyToRun_def setThreadStatus_def set_thread_def s6_def s4_def s3_def set_sem_def)
  have "SetLevel post_handler Y IntOn s6 = Some (IntOff, count_tick (s6\<lparr>level := IntOn\<rparr>))"
  proof -
    have "OneTick post_handler Y (s6\<lparr>level := IntOn\<rparr>) = Some (count_tick (s6\<lparr>level := IntOn\<rparr>))"
      using assms by (intro tick_not_due [where time = "now s + 100"]) (simp_all add: s6_def s4_def s3_def set_sem_def set_thread_def now_def)
    then show ?thesis using assms(5) by (simp add: SetLevel_def ChangeLevel_def Let_def s6_def s4_def s3_def set_sem_def set_thread_def)
  qed
  with n4 l4 f6 have "PostOffice_new Y junk t a r (int n) s = Some (count_tick (s6\<lparr>level := IntOn\<rparr>))"
    by (simp add: PostOffice_new_def s3_def)
  then show ?thesis
    by (simp add: count_tick_def s6_def s4_def s3_def set_sem_def set_thread_def Semaphore_new_def messageAvailable_def messageSent_def)
qed

text \<open>Machines that have just created their post offices.\<close>

lemma new_offices_opened:
  assumes "\<And>a s. stations w a = Some s \<Longrightarrow> wire w a = Some [] \<and> fst (desk w a) = False \<and> (\<exists>Y junk t r s0.
     PostOffice_new Y junk t a r (int n) s0 = Some s \<and> pending s0 = [] \<and> status s0 = SystemMode \<and> \<not> yieldOnReturn s0 \<and> level s0 = IntOn
     \<and> \<not> inHandler s0 \<and> length (inbox s0) = MaxPacketSize)"
  shows "opened n w"
  unfolding opened_def
proof (intro allI impI)
  fix a s
  assume "stations w a = Some s"
  from assms [OF this] obtain Y junk t r s0 where s: "wire w a = Some []" "fst (desk w a) = False" "PostOffice_new Y junk t a r (int n) s0 = Some s"
    "pending s0 = []" "status s0 = SystemMode" "\<not> yieldOnReturn s0" "level s0 = IntOn" "\<not> inHandler s0" "length (inbox s0) = MaxPacketSize" by blast
  from PostOffice_new_opens [OF s(4-8), of Y junk t a r n] s(1-3,9)
  show "wire w a = Some [] \<and> fst (desk w a) = False \<and> ident s = a \<and> netAddr s = a \<and> numBoxes s = int n \<and> boxes s = replicate n MailBox_new
     \<and> length (inbox s) = MaxPacketSize \<and> pkt_length (inHdr s) = 0 \<and> sem_value (sems s messageAvailable) = 0" by auto
qed

section \<open>Nothing aborts\<close>

lemma V_interrupt_succeeds:
  assumes "waiters_exist s" "level s = IntOff"
  shows "\<exists>s'. V H Y k s = Some s'"
  using V_section_waiters [OF assms(1), of k] by (auto simp: V_interrupts_off [OF assms(2)])

lemma handler_succeeds:
  assumes "office_ok n a taken q s" "sockets s a = Some q" "level s = IntOff" "waiters_exist s"
  shows "\<exists>s'. post_handler h x s = Some s'"
proof (cases h)
  case NetworkSendDone
  have "waiters_exist (count_sent (s\<lparr>sendBusy := False\<rparr>))" "level (count_sent (s\<lparr>sendBusy := False\<rparr>)) = IntOff"
    using assms(3,4) by (simp_all add: count_sent_def waiters_exist_def)
  then show ?thesis using NetworkSendDone V_interrupt_succeeds by (simp add: post_handler_def SendDone_def PacketSent_def)
next
  case NetworkReadPoll
  define s1 where "s1 = s\<lparr>pending := insert_key (now s + 100) \<lparr>handler = NetworkReadPoll, arg = 0, int_type = NetworkRecvInt\<rparr> (pending s)\<rparr>"
  have s1: "Schedule NetworkReadPoll 0 NetworkTime NetworkRecvInt s = Some s1" "ident s1 = a" "sockets s1 = sockets s" "inHdr s1 = inHdr s" "inbox s1 = inbox s"
    using assms(1) by (simp_all add: s1_def Schedule_def NetworkTime_def Let_def office_ok_def)
  have ok: "waiters_exist (count_received (s1\<lparr>sockets := x, inHdr := y, inbox := z\<rparr>))" "level (count_received (s1\<lparr>sockets := x, inHdr := y, inbox := z\<rparr>)) = IntOff"
    for x y z using assms(3,4) by (simp_all add: s1_def count_received_def waiters_exist_def)
  show ?thesis
  proof (cases "pkt_length (inHdr s) \<noteq> 0 \<or> q = []")
    case True
    then show ?thesis using NetworkReadPoll s1 assms(2) by (auto simp: post_handler_def CheckPktAvail_def PollSocket_def)
  next
    case False
    then obtain dg ds where q: "q = dg # ds" "pkt_length (inHdr s) = 0" by (cases q) auto
    then have d: "length dg = MaxWireSize" "proper n a (payload (packet_of_bytes dg) (drop 12 dg))"
      using assms(1) by (simp_all add: office_ok_def wire_letter_def)
    note l = proper_lengths [OF d(2)]
    show ?thesis
      using NetworkReadPoll s1 assms(2) q d(1) l V_interrupt_succeeds [OF ok]
      by (simp add: post_handler_def CheckPktAvail_def PollSocket_def ReadFromSocket_def IncomingPacket_def Let_def mail_sizes)
  qed
qed

section \<open>The post office under the interrupt simulation\<close>

lemma V_effect_net:
  assumes "V H Y k s = Some s'" "level s = IntOff" "mach_ok s" "waiters_exist s"
  shows "handler_effect s s' \<and> waiters_exist s'"
proof -
  from V_section_waiters [OF assms(4), of k] assms(1,2) have v: "V_section k s = Some s'" "waiters_exist s'" by (auto simp: V_interrupts_off)
  then show ?thesis using V_section_hw [OF v(1)] assms(2,3) by (auto intro!: handler_effect_frame simp: clocks_def)
qed

lemma V_effect_after:
  assumes "V H Y k s1 = Some s'" "handler_effect s s1" "waiters_exist s1"
  shows "handler_effect s s' \<and> waiters_exist s'"
proof -
  have "level s1 = IntOff" "mach_ok s1" using assms(2) by (auto simp: handler_effect_def)
  with V_effect_net [OF assms(1)] handler_effect_trans [OF assms(2)] assms(3) show ?thesis by blast
qed

lemma post_handler_effect:
  assumes "post_handler h x s = Some s'" "level s = IntOff" "mach_ok s" "waiters_exist s"
  shows "handler_effect s s' \<and> waiters_exist s'"
proof (cases h)
  case NetworkSendDone
  let ?s1 = "count_sent (s\<lparr>sendBusy := False\<rparr>)"
  have "V (\<lambda>h a s. None) (\<lambda>s. None) messageSent ?s1 = Some s'"
    using assms(1) NetworkSendDone by (simp add: post_handler_def SendDone_def PacketSent_def)
  moreover have "handler_effect s ?s1" using assms(2,3) by (intro handler_effect_frame) (simp_all add: count_sent_def clocks_def)
  moreover have "waiters_exist ?s1" using assms(4) by (simp add: count_sent_def waiters_exist_def)
  ultimately show ?thesis by (rule V_effect_after)
next
  case NetworkReadPoll
  from Schedule_effect [OF _ assms(2,3), of NetworkTime NetworkReadPoll 0 NetworkRecvInt] obtain s1 where
    s1: "Schedule NetworkReadPoll 0 NetworkTime NetworkRecvInt s = Some s1" "handler_effect s s1" "hw.more s1 = hw.more s"
    by (auto simp: NetworkTime_def)
  have w: "waiters_exist s1" using waiters_exist_more [OF s1(3)] assms(4) by simp
  have c: "CheckPktAvail IncomingPacket s = Some s'" using assms(1) NetworkReadPoll by (simp add: post_handler_def)
  show ?thesis
  proof (cases "pkt_length (inHdr s1) = 0 \<and> PollSocket (ident s1) s1 \<noteq> Some False")
    case False
    then have "s' = s1" using c s1(1) by (auto simp: CheckPktAvail_def split: if_splits)
    then show ?thesis using s1(2) w by simp
  next
    case True
    then obtain buffer s2 where r: "ReadFromSocket (ident s1) MaxWireSize s1 = Some (buffer, s2)"
      using c s1(1) by (cases "ReadFromSocket (ident s1) MaxWireSize s1") (auto simp: CheckPktAvail_def bind_eq_Some_conv split: if_splits)
    then obtain q where "sockets s1 (ident s1) = Some q" by (auto simp: ReadFromSocket_def bind_eq_Some_conv)
    with r obtain y where s2: "s2 = s1\<lparr>sockets := y\<rparr>" by (cases q) (auto simp: ReadFromSocket_def Let_def bind_eq_Some_conv)
    obtain z b where v: "IncomingPacket (count_received (s1\<lparr>sockets := y, inHdr := z, inbox := b\<rparr>)) = Some s'"
      using c s1(1) True r s2 by (auto simp: CheckPktAvail_def Let_def bind_eq_Some_conv split: if_splits)
    let ?s2 = "count_received (s1\<lparr>sockets := y, inHdr := z, inbox := b\<rparr>)"
    have "handler_effect s1 ?s2" using s1(2) by (intro handler_effect_frame) (auto simp: count_received_def clocks_def handler_effect_def)
    then have "handler_effect s ?s2" using handler_effect_trans [OF s1(2)] by blast
    moreover have "waiters_exist ?s2" using w by (simp add: count_received_def waiters_exist_def)
    ultimately show ?thesis using V_effect_after v unfolding IncomingPacket_def by blast
  qed
qed

text \<open>The mail of a machine, as its interrupts must leave it: the messages on their way, and the boxes.\<close>

definition mail_kept :: "int \<Rightarrow> word32 \<Rightarrow> bool \<Rightarrow> letter list \<Rightarrow> MailBox list \<Rightarrow> 'z post_scheme \<Rightarrow> bool" where
  "mail_kept n a taken ls bs s \<longleftrightarrow> waiters_exist s \<and> (\<exists>q. sockets s a = Some q \<and> office_ok n a taken q s \<and> on_the_way q s = ls \<and> boxes s = bs)"

interpretation mail: device_handlers "post_handler :: net_handler \<Rightarrow> int \<Rightarrow> 'z post_scheme \<Rightarrow> 'z post_scheme option" "mail_kept n a taken ls bs"
  for n a taken ls bs
proof unfold_locales
  fix s s' :: "'z post_scheme"
  assume m: "hw.more s' = hw.more s"
  then have k: "kernel.more s' = kernel.more s" "sems s' = sems s" by (cases s, cases s', simp)+
  then show "mail_kept n a taken ls bs s' = mail_kept n a taken ls bs s"
    using post_more [OF k(1)] waiters_exist_more [OF m] by (simp add: mail_kept_def office_ok_def on_the_way_def)
next
  fix s :: "'z post_scheme" and h x
  assume a: "hw_ok s" "mail_kept n a taken ls bs s" "level s = IntOff"
  then obtain q where q: "sockets s a = Some q" "office_ok n a taken q s" "on_the_way q s = ls" "boxes s = bs" "waiters_exist s"
    by (auto simp: mail_kept_def)
  from handler_succeeds [OF q(2,1) a(3) q(5)] obtain s' where s': "post_handler h x s = Some s'" by blast
  from handler_keeps_mail [OF s' a(3) q(1,2)] obtain q' where q': "sockets s' = (sockets s)(a \<mapsto> q')" "office_ok n a taken q' s'"
    "on_the_way q' s' = on_the_way q s" "boxes s' = boxes s" .
  have "handler_effect s s'" "waiters_exist s'" using post_handler_effect [OF s' a(3) _ q(5)] a(1) by (auto simp: hw_ok_def)
  with s' q q' show "\<exists>s'. post_handler h x s = Some s' \<and> handler_effect s s' \<and> mail_kept n a taken ls bs s'"
    by (auto simp: mail_kept_def)
qed

lemma tick_keeps_mail:
  assumes "hw_ok s" "status s \<noteq> IdleMode" "waiters_exist s" "sockets s a = Some q" "office_ok n a taken q s"
  shows "\<exists>s' q'. OneTick post_handler Some s = Some s' \<and> no_due s' \<and> sockets s' a = Some q' \<and> on_the_way q' s' = on_the_way q s \<and> boxes s' = boxes s"
proof -
  have "mail_kept n a taken (on_the_way q s) (boxes s) s" using assms(3-5) by (auto simp: mail_kept_def)
  from mail.OneTick_serves_due [OF assms(1) this assms(2), of Some] obtain s2 where s2: "mail_kept n a taken (on_the_way q s) (boxes s) s2" "no_due s2"
    "OneTick post_handler Some s = (if yieldOnReturn s2 then Some (s2\<lparr>yieldOnReturn := False, status := status s\<rparr>) else Some s2)" by auto
  let ?s = "if yieldOnReturn s2 then s2\<lparr>yieldOnReturn := False, status := status s\<rparr> else s2"
  have "OneTick post_handler Some s = Some ?s" "no_due ?s" using s2(2,3) by (simp_all add: no_due_def now_def)
  moreover have "mail_kept n a taken (on_the_way q s) (boxes s) ?s" using s2(1) mail.dev_ok_hw by simp
  ultimately show ?thesis unfolding mail_kept_def by blast
qed

section \<open>Properties of the post office\<close>

text \<open>C25. Mail is delivered in order and unchanged. Machines exchange mail through post offices of \<open>n\<close> boxes each, in any interleaving of their
  threads, their interrupts and their postal workers. Then for every box of every machine, the messages posted to it and not lost by the network
  are, in the order in which they were posted and with their headers and data: first those that were collected from the box, then those that lie
  in it, then those on their way. So a message is never altered, duplicated, overtaken, put into another box, or lost after the network took it.\<close>

theorem mail_in_order:
  assumes "opened n w0" "net_steps w0 es w" "stations w a = Some s" "k < n"
  shows "\<exists>q ms. wire w a = Some q \<and> boxes_hold (boxes s) ms
    \<and> posted a k es = collected a k es @ ms ! k @ filter (\<lambda>l. letter_box l = int k) (on_the_way q s)"
  using run_accounts [OF assms(2,1)] assms(3,4) unfolding accounted_def ledger_def by blast

text \<open>C26. The delivery of mail never aborts a machine. In every reachable state of the network, the interrupt handlers of a post office run to
  their end; a clock tick serves all interrupts that are due and leaves the messages on their way and in the boxes as they are, in order; and the
  postal worker that was signalled finds a packet, whose header passes its checks.\<close>

theorem delivery_never_aborts:
  assumes "opened n w0" "net_steps w0 es w" "at_station a w = Some s"
  shows "(level s = IntOff \<and> waiters_exist s \<longrightarrow> (\<exists>s'. post_handler h x s = Some s'))
    \<and> (hw_ok s \<and> status s \<noteq> IdleMode \<and> waiters_exist s \<longrightarrow> (\<exists>s' q q'. OneTick post_handler Some s = Some s' \<and> no_due s'
        \<and> sockets s a = Some q \<and> sockets s' a = Some q' \<and> on_the_way q' s' = on_the_way q s \<and> boxes s' = boxes s))
    \<and> (desk w a = (True, buffer) \<and> length junk = MaxMailSize \<longrightarrow>
        pkt_length (inHdr s) \<noteq> 0 \<and> (\<exists>buffer' s'. deliver junk buffer s = Some (buffer', s') \<and> pkt_length (inHdr s') = 0))"
proof -
  from assms(3) obtain t where t: "stations w a = Some t" "s = t\<lparr>sockets := wire w\<rparr>" by (rule at_station_Some)
  from run_accounts [OF assms(2,1)] t(1) have "accounted n es w a t" by blast
  then obtain q ms where q: "sockets s a = Some q" "ledger n es a (fst (desk w a)) q ms s" using t(2) by (auto simp: accounted_def)
  then have o: "office_ok (int n) a (fst (desk w a)) q s" by (simp add: ledger_def)
  have "\<exists>s'. post_handler h x s = Some s'" if "level s = IntOff" "waiters_exist s" using handler_succeeds [OF o q(1) that] .
  moreover have "\<exists>s' q q'. OneTick post_handler Some s = Some s' \<and> no_due s' \<and> sockets s a = Some q \<and> sockets s' a = Some q'
      \<and> on_the_way q' s' = on_the_way q s \<and> boxes s' = boxes s" if "hw_ok s" "status s \<noteq> IdleMode" "waiters_exist s"
    using tick_keeps_mail [OF that q(1) o] q(1) by blast
  moreover have "pkt_length (inHdr s) \<noteq> 0 \<and> (\<exists>buffer' s'. deliver junk buffer s = Some (buffer', s') \<and> pkt_length (inHdr s') = 0)"
    if d: "desk w a = (True, buffer)" "length junk = MaxMailSize"
  proof -
    from bring_ledger [OF _ d(2), of n es a q ms s buffer] q(2) d(1) obtain buffer' s' where
      "deliver junk buffer s = Some (buffer', s')" by auto
    then have "pkt_length (inHdr s') = 0" "deliver junk buffer s = Some (buffer', s')"
      by (auto simp: deliver_def Network_Receive_def bind_eq_Some_conv Let_def)
    moreover have "pkt_length (inHdr s) \<noteq> 0" using o d(1) by (auto simp: office_ok_def split: if_splits)
    ultimately show ?thesis by blast
  qed
  ultimately show ?thesis by blast
qed

section \<open>A message from one machine to another\<close>

text \<open>The first datagram at a socket is fetched, and the postal worker takes it up; then it is delivered.\<close>

lemma packet_taken_up:
  assumes "opened n w0" "net_steps w0 es w" "at_station a w = Some s" "level s = IntOff" "waiters_exist s" "pkt_length (inHdr s) = 0"
    "desk w a = (False, buffer)" "wire w a = Some (dg # ds)"
  shows "\<exists>w' s'. net_steps w0 (es @ [Internal, Internal]) w' \<and> at_station a w' = Some s' \<and> wire w' a = Some ds \<and> desk w' a = (True, buffer)"
proof -
  note acc = run_accounts [OF _ assms(1), unfolded accounted_def]
  from assms(3) obtain t where t: "stations w a = Some t" "s = t\<lparr>sockets := wire w\<rparr>" by (rule at_station_Some)
  from acc [OF assms(2)] t assms(7,8) obtain ms where l: "ledger n es a False (dg # ds) ms s" "sockets s a = Some (dg # ds)" by fastforce
  then have o: "office_ok (int n) a False (dg # ds) s" by (simp add: ledger_def)
  from handler_succeeds [OF o l(2) assms(4,5), of NetworkReadPoll 0] obtain s1 where s1: "post_handler NetworkReadPoll 0 s = Some s1" by blast
  let ?w1 = "put_station a s1 w"
  have step1: "net_step w Internal ?w1" using interrupt [OF assms(3,4) s1] .
  have id: "ident s = a" and poll: "CheckPktAvail IncomingPacket s = Some s1" using o s1 by (simp_all add: office_ok_def post_handler_def)
  have f: "sockets s1 = (sockets s)(a \<mapsto> ds)" "sem_value (sems s1 messageAvailable) = 1"
  proof -
    from l(2) id have "sockets s (ident s) = Some (dg # ds)" by simp
    then show "sockets s1 = (sockets s)(a \<mapsto> ds)" "sem_value (sems s1 messageAvailable) = 1"
      by (rule poll_cases [OF poll assms(4)], use o assms(6) in \<open>simp_all add: office_ok_def\<close>)+
  qed
  have a1: "at_station a ?w1 = Some s1" by (simp add: at_station_def)
  define s2 where "s2 = set_sem messageAvailable ((sems s1 messageAvailable)\<lparr>sem_value := 0\<rparr>) (s1\<lparr>level := IntOff\<rparr>)"
  have p: "P_section messageAvailable s1 = Some (True, s2)" using f(2) by (simp add: P_section_def Let_def s2_def)
  let ?w2 = "put_desk a True buffer (put_station a s2 ?w1)"
  have step2: "net_step ?w1 Internal ?w2" using take_up [OF a1 _ p] assms(7) by simp
  have "at_station a ?w2 = Some s2" "wire ?w2 a = Some ds" "desk ?w2 a = (True, buffer)"
    using f(1) by (simp_all add: at_station_def s2_def set_sem_def)
  with net_steps.step [OF net_steps.step [OF assms(2) step1] step2] show ?thesis by auto
qed

lemma next_delivery:
  assumes "opened n w0" "net_steps w0 es w" "at_station a w = Some s" "level s = IntOff" "waiters_exist s" "pkt_length (inHdr s) = 0"
    "desk w a = (False, buffer)" "wire w a = Some (dg # ds)"
  shows "\<exists>w' s'. net_steps w0 (es @ [Internal, Internal, Internal]) w' \<and> at_station a w' = Some s' \<and> wire w' a = Some ds \<and> pkt_length (inHdr s') = 0"
proof -
  from packet_taken_up [OF assms] obtain w2 s2 where run2: "net_steps w0 (es @ [Internal, Internal]) w2" and
    s2: "at_station a w2 = Some s2" "wire w2 a = Some ds" "desk w2 a = (True, buffer)" by blast
  from s2(1) obtain t where t: "stations w2 a = Some t" "s2 = t\<lparr>sockets := wire w2\<rparr>" by (rule at_station_Some)
  with run_accounts [OF run2 assms(1)] s2(3) obtain q' ms' where "ledger n (es @ [Internal, Internal]) a True q' ms' s2"
    by (fastforce simp: accounted_def)
  from bring_ledger [OF this, of "replicate MaxMailSize 0" buffer] obtain buffer' s3 where
    s3: "deliver (replicate MaxMailSize 0) buffer s2 = Some (buffer', s3)" by auto
  let ?w3 = "put_desk a False buffer' (put_station a s3 w2)"
  have step3: "net_step w2 Internal ?w3" using bring [OF s2(1,3) _ s3] by simp
  have "sockets s3 = sockets s2" "pkt_length (inHdr s3) = 0" using s3 by (auto simp: deliver_def Network_Receive_def bind_eq_Some_conv Let_def)
  moreover from this(1) have "wire ?w3 a = Some ds" "at_station a ?w3 = Some s3" using s2(2) t(2) by (simp_all add: at_station_def)
  ultimately show ?thesis using net_steps.step [OF run2 step3] by auto
qed

definition sample_post :: "word32 \<Rightarrow> post" where
  "sample_post a = \<lparr>stats = Statistics_new, level = IntOff, pending = [], inHandler = False, yieldOnReturn = False, status = SystemMode, mach = None,
     currentThread = 0, readyList = [], threads = Map.empty, threadToBeDestroyed = None, sems = (\<lambda>_. Semaphore_new 0), ident = a,
     chanceToWork = 1, sendBusy = False, inHdr = \<lparr>pkt_to = 0, pkt_from = 0, pkt_length = 0\<rparr>, inbox = replicate 52 0, sockets = Map.empty,
     randoms = [], netAddr = a, boxes = [MailBox_new], numBoxes = 1\<rparr>"

definition two_machines :: world where
  "two_machines = \<lparr>wire = [1 \<mapsto> [], 2 \<mapsto> []], stations = [1 \<mapsto> sample_post 1, 2 \<mapsto> sample_post 2], desk = (\<lambda>_. (False, []))\<rparr>"

definition greeting :: letter where
  "greeting = (\<lparr>pkt_to = 2, pkt_from = 1, pkt_length = 14\<rparr>, \<lparr>mail_to = 0, mail_from = 0, mail_length = 2\<rparr>, [72, 105])"

lemma two_machines_opened: "opened 1 two_machines"
  by (auto simp: opened_def two_machines_def sample_post_def mail_sizes Semaphore_new_def split: if_splits)

lemma greeting_sent:
  "\<exists>w s dg. net_steps two_machines [Posted greeting] w \<and> at_station 2 w = Some s \<and> level s = IntOff \<and> waiters_exist s \<and> pkt_length (inHdr s) = 0
     \<and> desk w 2 = (False, []) \<and> wire w 2 = Some [dg]"
proof -
  let ?s = "(sample_post 1)\<lparr>sockets := [1 \<mapsto> [], 2 \<mapsto> []]\<rparr>" and ?p = "\<lparr>pkt_to = 2, pkt_from = 0, pkt_length = 0\<rparr>"
  let ?m = "\<lparr>mail_to = 0, mail_from = 0, mail_length = 2\<rparr>"
  have a: "at_station 1 two_machines = Some ?s" by (simp add: at_station_def two_machines_def)
  have d: "\<not> drops (\<lambda>x. x) ?s" by (simp add: drops_def Random_def sample_post_def)
  have "\<exists>s'. hand_over (\<lambda>x. x) (replicate 52 0) (replicate 64 0) ?p ?m [72, 105] ?s = Some s'"
    by (simp add: hand_over_def Network_Send_def Schedule_def drops_def Random_def SendToSocket_def Lock_Acquire_def mail_sizes NetworkTime_def
      sample_post_def Let_def)
  then obtain s' where s': "hand_over (\<lambda>x. x) (replicate 52 0) (replicate 64 0) ?p ?m [72, 105] ?s = Some s'" ..
  have g: "stamped ?p ?m [72, 105] ?s = greeting" by (simp add: stamped_def greeting_def sample_post_def)
  from send [OF a s'] d g have "net_step two_machines (Posted greeting) (put_station 1 s' two_machines)" by simp
  from net_steps.step [OF net_steps.refl this] have run: "net_steps two_machines [Posted greeting] (put_station 1 s' two_machines)" by simp
  from hand_over_effect(4) [OF s' d] obtain dg where "sockets s' = [1 \<mapsto> [], 2 \<mapsto> [dg]]" by (auto simp: fun_eq_iff)
  then show ?thesis using run
    by (intro exI [of _ "put_station 1 s' two_machines"] exI [of _ "(sample_post 2)\<lparr>sockets := sockets s'\<rparr>"] exI [of _ dg])
      (simp add: at_station_def two_machines_def sample_post_def waiters_exist_def Semaphore_new_def)
qed

theorem mail_in_order_witness:
  "\<exists>w s s'. net_steps two_machines [Posted greeting, Internal, Internal, Internal] w \<and> at_station 2 w = Some s
     \<and> PostOffice_Receive 0 s = Some (fst greeting, fst (snd greeting), snd (snd greeting), s')"
proof -
  from greeting_sent obtain w1 s1 dg where "net_steps two_machines [Posted greeting] w1" "at_station 2 w1 = Some s1" "level s1 = IntOff"
    "waiters_exist s1" "pkt_length (inHdr s1) = 0" "desk w1 2 = (False, [])" "wire w1 2 = Some [dg]" by blast
  from next_delivery [OF two_machines_opened this] obtain w s where w: "net_steps two_machines [Posted greeting, Internal, Internal, Internal] w"
    "at_station 2 w = Some s" "wire w 2 = Some []" "pkt_length (inHdr s) = 0" by auto
  from w(2) obtain t where t: "stations w 2 = Some t" "s = t\<lparr>sockets := wire w\<rparr>" by (rule at_station_Some)
  from mail_in_order [OF two_machines_opened w(1) t(1), of 0] w(3,4) t(2) obtain ms where
    ms: "boxes_hold (boxes s) ms" "posted 2 0 [Posted greeting, Internal, Internal, Internal] = collected 2 0 [Posted greeting, Internal, Internal, Internal] @ ms ! 0"
    by (auto simp: on_the_way_def buffered_def)
  then have "ms ! 0 = [greeting]" by (simp add: posted_def collected_def greeting_def letter_box_def)
  moreover from run_accounts [OF w(1) two_machines_opened] t have "numBoxes s = 1" "length (boxes s) = 1"
    by (fastforce simp: accounted_def ledger_def office_ok_def boxes_hold_def dest: list_all2_lengthD)+
  moreover from this(2) ms(1) have "length ms = 1" by (simp add: boxes_hold_def list_all2_lengthD [symmetric])
  ultimately show ?thesis using Receive_effect(2) [OF ms(1), of 0 "fst greeting" "fst (snd greeting)" "snd (snd greeting)" "[]"] w(1,2)
    by (auto simp: greeting_def mail_sizes)
qed

theorem delivery_never_aborts_witness:
  "\<exists>w s s' w2 s2 r. net_steps two_machines [Posted greeting] w \<and> at_station 2 w = Some s \<and> post_handler NetworkReadPoll 0 s = Some s'
     \<and> net_steps two_machines [Posted greeting, Internal, Internal] w2 \<and> at_station 2 w2 = Some s2 \<and> deliver (replicate 40 7) [] s2 = Some r"
proof -
  from greeting_sent obtain w s dg where w: "net_steps two_machines [Posted greeting] w" "at_station 2 w = Some s" "level s = IntOff"
    "waiters_exist s" "pkt_length (inHdr s) = 0" "desk w 2 = (False, [])" "wire w 2 = Some [dg]" by blast
  from packet_taken_up [OF two_machines_opened w] obtain w2 s2 where w2: "net_steps two_machines [Posted greeting, Internal, Internal] w2"
    "at_station 2 w2 = Some s2" "desk w2 2 = (True, [])" by auto
  from delivery_never_aborts [OF two_machines_opened w(1,2), of NetworkReadPoll 0] w(3,4) obtain s' where
    "post_handler NetworkReadPoll 0 s = Some s'" by blast
  moreover from delivery_never_aborts [OF two_machines_opened w2(1,2), of NetworkReadPoll 0 "[]" "replicate 40 7"] w2(3) obtain r where
    "deliver (replicate 40 7) [] s2 = Some r" by (auto simp: mail_sizes)
  ultimately show ?thesis using w(1,2) w2(1,2) by blast
qed

end
