(* ===== verification/Mail_Sending.thy ===== *)
theory Mail_Sending
  imports Mail_Delivery
begin

text \<open>
  network/post.cc and machine/network.cc together with threads/thread.cc and machine/interrupt.cc: a thread that sends a message and waits
  until the network has taken it.

  The sender sleeps on the semaphore \<^verbatim>\<open>messageSent\<close>; the idle loop serves the interrupts, the poll of the socket again and again and then the
  one that reports the message as sent; its handler wakes the sender. Here no packet arrives in the meantime, so the postal worker sleeps on.
\<close>

section \<open>A machine on which one thread sends\<close>

text \<open>The times of the pending interrupts that report a message as sent.\<close>

definition outstanding :: "(int \<times> net_handler PendingInterrupt) multiset \<Rightarrow> int multiset" where
  "outstanding M = image_mset fst (filter_mset (\<lambda>q. handler (snd q) = NetworkSendDone) M)"

text \<open>The poll of the socket has nothing to do: no datagram is at the socket, or the buffer of the device is full.\<close>

definition line_silent :: "'z post_scheme \<Rightarrow> bool" where
  "line_silent s \<longleftrightarrow> \<not> sendBusy s \<and> (\<exists>q. sockets s (ident s) = Some q \<and> (pkt_length (inHdr s) \<noteq> 0 \<or> q = []))"

definition sender_runs :: "(int \<times> net_handler PendingInterrupt) multiset \<Rightarrow> 'z post_scheme \<Rightarrow> bool" where
  "sender_runs M s \<longleftrightarrow> readyList s = [] \<and> stat s (currentThread s) = Some RUNNING \<and> sems s messageSent = Semaphore_new 0 \<and> outstanding M = {#}"

definition sender_asleep :: "int \<Rightarrow> (int \<times> net_handler PendingInterrupt) multiset \<Rightarrow> 'z post_scheme \<Rightarrow> bool" where
  "sender_asleep T M s \<longleftrightarrow> readyList s = [] \<and> stat s (currentThread s) = Some BLOCKED
     \<and> sems s messageSent = \<lparr>sem_value = 0, sem_queue = [currentThread s]\<rparr> \<and> outstanding M = {#T#}"

definition sender_awake :: "(int \<times> net_handler PendingInterrupt) multiset \<Rightarrow> 'z post_scheme \<Rightarrow> bool" where
  "sender_awake M s \<longleftrightarrow> readyList s = [currentThread s] \<and> stat s (currentThread s) = Some READY
     \<and> sems s messageSent = Semaphore_new 1 \<and> outstanding M = {#}"

text \<open>What the handlers leave alone.\<close>

definition bystanders :: "'z post_scheme \<Rightarrow> 'z post_scheme \<Rightarrow> bool" where
  "bystanders s0 s \<longleftrightarrow> kernel.more s = kernel.more s0 \<and> currentThread s = currentThread s0 \<and> threadToBeDestroyed s = threadToBeDestroyed s0
     \<and> (\<forall>k. k \<noteq> messageSent \<longrightarrow> sems s k = sems s0 k) \<and> (\<forall>t. t \<noteq> currentThread s0 \<longrightarrow> threads s t = threads s0 t)
     \<and> map_option (tstatus_update (\<lambda>_. RUNNING)) (threads s (currentThread s0)) = map_option (tstatus_update (\<lambda>_. RUNNING)) (threads s0 (currentThread s0))"

definition send_inv :: "bool \<Rightarrow> int \<Rightarrow> 'z post_scheme \<Rightarrow> (int \<times> net_handler PendingInterrupt) multiset \<Rightarrow> 'z post_scheme \<Rightarrow> bool" where
  "send_inv waits T s0 M s \<longleftrightarrow> (\<forall>q \<in># M. int_type (snd q) \<noteq> TimerInt) \<and> line_silent s0 \<and> bystanders s0 s
     \<and> (if waits then sender_asleep T M s \<or> sender_awake M s else sender_runs M s)"

lemma bystanders_refl [simp]: "bystanders s s"
  by (simp add: bystanders_def)

lemma line_silent_more: "kernel.more s' = kernel.more s \<Longrightarrow> line_silent s' = line_silent s"
  by (cases s, cases s', simp add: line_silent_def)

text \<open>The two handlers: the poll only schedules itself again, and the other one wakes the sender.\<close>

lemma poll_silent:
  assumes "post_handler NetworkReadPoll a s = Some s'" "line_silent s"
  shows "s' = s\<lparr>pending := insert_key (now s + NetworkTime) \<lparr>handler = NetworkReadPoll, arg = 0, int_type = NetworkRecvInt\<rparr> (pending s)\<rparr>"
  using assms by (auto simp: post_handler_def CheckPktAvail_def Schedule_def PollSocket_def line_silent_def NetworkTime_def Let_def split: if_splits)

lemma sent_wakes:
  assumes "post_handler NetworkSendDone a s = Some s'" "level s = IntOff" "sender_asleep T M s" "\<not> sendBusy s"
  obtains tcb where "threads s (currentThread s) = Some tcb"
    "s' = (count_sent s)\<lparr>readyList := [currentThread s], threads := (threads s)(currentThread s \<mapsto> tcb\<lparr>tstatus := READY\<rparr>),
       sems := (sems s)(messageSent := Semaphore_new 1)\<rparr>"
proof -
  have b: "s\<lparr>sendBusy := False\<rparr> = s" using assms(4) by simp
  have l: "level (count_sent s) = IntOff" using assms(2) by (simp add: count_sent_def)
  have "V_section messageSent (count_sent s) = Some s'"
    using assms(1) V_interrupts_off [OF l] by (simp add: post_handler_def SendDone_def PacketSent_def b)
  moreover obtain tcb where "threads s (currentThread s) = Some tcb" using assms(3) by (auto simp: sender_asleep_def stat_def)
  ultimately show thesis using assms(3)
    by (intro that [of tcb])
      (auto simp: V_section_def Let_def set_sem_def bind_eq_Some_conv ReadyToRun_Some sender_asleep_def count_sent_def Semaphore_new_def)
qed

lemma send_inv_law:
  assumes "send_inv waits T s0 (add_mset (k, p) (mset (pending s))) s" "level s = IntOff" "post_handler (handler p) (arg p) s = Some s'"
  shows "send_inv waits T s0 (mset (pending s')) s' \<and> mach s' = mach s \<and> yieldOnReturn s' = yieldOnReturn s"
proof -
  have i: "bystanders s0 s" "line_silent s0" "\<forall>q \<in># mset (pending s). int_type (snd q) \<noteq> TimerInt" using assms(1) by (auto simp: send_inv_def)
  have silent: "line_silent s" "\<not> sendBusy s" using i line_silent_more [of s s0] by (auto simp: bystanders_def line_silent_def)
  show ?thesis
  proof (cases "handler p")
    case NetworkReadPoll
    from poll_silent [OF _ silent(1)] assms(3) NetworkReadPoll have
      s': "s' = s\<lparr>pending := insert_key (now s + NetworkTime) \<lparr>handler = NetworkReadPoll, arg = 0, int_type = NetworkRecvInt\<rparr> (pending s)\<rparr>" by simp
    have "outstanding (mset (pending s')) = outstanding (add_mset (k, p) (mset (pending s)))"
      using NetworkReadPoll by (simp add: s' outstanding_def insert_key_mset)
    then show ?thesis using assms(1)
      by (auto simp: s' send_inv_def insert_key_mset bystanders_def sender_runs_def sender_asleep_def sender_awake_def stat_def)
  next
    case NetworkSendDone
    then have o: "outstanding (add_mset (k, p) (mset (pending s))) = add_mset k (outstanding (mset (pending s)))" by (simp add: outstanding_def)
    then have a: "waits" "sender_asleep T (add_mset (k, p) (mset (pending s))) s" "outstanding (mset (pending s)) = {#}"
      using assms(1) by (auto simp: send_inv_def sender_runs_def sender_awake_def sender_asleep_def split: if_splits)
    from sent_wakes [OF _ assms(2) a(2) silent(2)] assms(3) NetworkSendDone obtain tcb where tcb: "threads s (currentThread s) = Some tcb"
      "s' = (count_sent s)\<lparr>readyList := [currentThread s], threads := (threads s)(currentThread s \<mapsto> tcb\<lparr>tstatus := READY\<rparr>),
         sems := (sems s)(messageSent := Semaphore_new 1)\<rparr>" by metis
    have "sender_awake (mset (pending s')) s'" using a(3) by (simp add: tcb(2) sender_awake_def stat_def count_sent_def)
    moreover have "bystanders s0 s'" using i(1) tcb(1) by (auto simp: tcb(2) bystanders_def count_sent_def)
    ultimately show ?thesis using i a(1) by (simp add: send_inv_def tcb(2) count_sent_def)
  qed
qed

interpretation sending: device_protocol "post_handler :: net_handler \<Rightarrow> int \<Rightarrow> 'z post_scheme \<Rightarrow> 'z post_scheme option"
    "mail_kept n a taken ls bs" "send_inv waits T s0" for n a taken ls bs waits T s0
proof unfold_locales
  fix s s' :: "'z post_scheme" and M
  assume "hw.more s' = hw.more s"
  then have "readyList s' = readyList s" "threads s' = threads s" "currentThread s' = currentThread s" "sems s' = sems s"
    "threadToBeDestroyed s' = threadToBeDestroyed s" "kernel.more s' = kernel.more s" by (cases s, cases s', simp)+
  then show "send_inv waits T s0 M s' = send_inv waits T s0 M s"
    by (simp add: send_inv_def bystanders_def sender_runs_def sender_asleep_def sender_awake_def stat_def)
qed (use send_inv_law in blast)

section \<open>The wait ends\<close>

definition waits_to_send :: "int \<Rightarrow> word32 \<Rightarrow> letter list \<Rightarrow> MailBox list \<Rightarrow> int \<Rightarrow> 'z post_scheme \<Rightarrow> 'z post_scheme \<Rightarrow> bool" where
  "waits_to_send n a ls bs T s0 s \<longleftrightarrow> hw_ok s \<and> mail_kept n a False ls bs s \<and> level s = IntOff \<and> \<not> inHandler s \<and> settled s
     \<and> send_inv True T s0 (mset (pending s)) s \<and> mach s = mach s0 \<and> now s0 \<le> now s \<and> now s \<le> T
     \<and> (readyList s \<noteq> [] \<longrightarrow> status s = SystemMode \<and> \<not> yieldOnReturn s)"

lemma asleep_outstanding:
  assumes "send_inv True T s0 (mset (pending s)) s" "readyList s = []"
  obtains p where "(T, p) \<in> set (pending s)"
proof -
  have "outstanding (mset (pending s)) = {#T#}" using assms by (auto simp: send_inv_def sender_asleep_def sender_awake_def)
  then have "T \<in># outstanding (mset (pending s))" by simp
  then show thesis using that by (auto simp: outstanding_def)
qed

lemma idle_round_sending:
  assumes i: "waits_to_send n a ls bs T s0 s" and r: "readyList s = []"
  shows "\<exists>s'. Idle post_handler s = Some (True, s') \<and> waits_to_send n a ls bs T s0 s' \<and>
    (readyList s' = [] \<longrightarrow> nat (T - now s') + of_bool (\<not> no_due s') < nat (T - now s) + of_bool (\<not> no_due s))"
proof -
  have w: "send_inv True T s0 (mset (pending s)) s" using i by (simp add: waits_to_send_def)
  from asleep_outstanding [OF w r] obtain q where q: "(T, q) \<in> set (pending s)" .
  then obtain t0 p rest where ps: "pending s = (t0, p) # rest" by (cases "pending s") auto
  have t0: "t0 \<le> T" "int_type p \<noteq> TimerInt" using q ps i by (auto simp: waits_to_send_def hw_ok_def send_inv_def)
  from sending.Idle_J [of s n a False ls bs True T s0, OF _ ps] i t0(2) obtain s' where s': "Idle post_handler s = Some (True, s')"
    "hw_ok s'" "mail_kept n a False ls bs s'" "level s' = IntOff" "\<not> inHandler s'" "settled s'" "send_inv True T s0 (mset (pending s')) s'"
    "mach s' = mach s" "now s' = max (now s) t0" "status s' = SystemMode" "\<not> yieldOnReturn s'"
    "no_due s' \<or> (\<exists>k p. pending s' = [(k, p)] \<and> int_type p = TimerInt)" by (auto simp: waits_to_send_def)
  have nd: "no_due s'" using s'(7,12) by (auto simp: send_inv_def)
  have "waits_to_send n a ls bs T s0 s'" using i s' t0(1) by (auto simp: waits_to_send_def)
  moreover have "nat (T - now s') < nat (T - now s) + of_bool (\<not> no_due s)" if r': "readyList s' = []"
  proof -
    from asleep_outstanding [OF s'(7) r'] obtain u where "(T, u) \<in> set (pending s')" .
    with nd have "now s' < T" by (auto simp: no_due_def)
    moreover have "no_due s \<Longrightarrow> now s < t0" using ps by (simp add: no_due_def)
    ultimately show ?thesis using s'(9) by (auto simp: of_bool_def)
  qed
  ultimately show ?thesis using s'(1) nd by auto
qed

text \<open>The sender runs, alone and with interrupts disabled.\<close>

definition sender_holds :: "int \<Rightarrow> word32 \<Rightarrow> letter list \<Rightarrow> MailBox list \<Rightarrow> 'z post_scheme \<Rightarrow> bool" where
  "sender_holds n a ls bs s \<longleftrightarrow> hw_ok s \<and> mail_kept n a False ls bs s \<and> level s = IntOff \<and> \<not> inHandler s \<and> settled s \<and> status s = SystemMode
     \<and> \<not> yieldOnReturn s \<and> tcb_ok s \<and> threadToBeDestroyed s = None \<and> (\<forall>q \<in> set (pending s). int_type (snd q) \<noteq> TimerInt) \<and> line_silent s
     \<and> readyList s = [] \<and> stat s (currentThread s) = Some RUNNING"

lemma bystanders_tcb_ok:
  assumes "bystanders s0 s" "tcb_ok s0" "mach s = mach s0"
  shows "tcb_ok s"
proof -
  obtain t0 where t0: "threads s0 (currentThread s0) = Some t0" "started t0" "has_stack t0 \<longrightarrow> fencepost t0"
    "\<forall>sp. space t0 = Some sp \<longrightarrow> (\<exists>m pt. mach s0 = Some m \<and> pageTable m = Some pt \<and> pageTableSize m = numPages sp)"
    using assms(2) by (auto simp: tcb_ok_def)
  then obtain t where t: "threads s (currentThread s0) = Some t" "t\<lparr>tstatus := RUNNING\<rparr> = t0\<lparr>tstatus := RUNNING\<rparr>"
    using assms(1) by (auto simp: bystanders_def)
  then have "started t = started t0" "has_stack t = has_stack t0" "fencepost t = fencepost t0" "space t = space t0" by (cases t, cases t0, simp)+
  then show ?thesis using t0 t(1) assms(1,3) by (auto simp: tcb_ok_def bystanders_def)
qed

text \<open>What a sender leaves alone, apart from the network: the machine, the other threads and the other semaphores.\<close>

definition unconcerned :: "'z post_scheme \<Rightarrow> 'z post_scheme \<Rightarrow> bool" where
  "unconcerned s s' \<longleftrightarrow> kernel.more s' = kernel.more s \<and> currentThread s' = currentThread s \<and> mach s' = mach s
     \<and> (\<forall>k. k \<noteq> messageSent \<longrightarrow> sems s' k = sems s k) \<and> (\<forall>t. t \<noteq> currentThread s \<longrightarrow> threads s' t = threads s t)"

lemma unconcerned_trans: "unconcerned s s1 \<Longrightarrow> unconcerned s1 s2 \<Longrightarrow> unconcerned s s2"
  by (simp add: unconcerned_def)

lemma mail_kept_unconcerned:
  assumes "unconcerned s s'" "waiters_exist s'"
  shows "mail_kept n a taken ls bs s \<Longrightarrow> mail_kept n a taken ls bs s'"
proof -
  have "sems s' messageAvailable = sems s messageAvailable" "kernel.more s' = kernel.more s"
    using assms(1) by (simp_all add: unconcerned_def messageSent_def messageAvailable_def)
  then show "mail_kept n a taken ls bs s \<Longrightarrow> mail_kept n a taken ls bs s'"
    using assms(2) post_more [of s' s] by (simp add: mail_kept_def office_ok_def on_the_way_def)
qed

text \<open>\<^verbatim>\<open>messageSent->P()\<close>: to sleep, to be woken, and to take the signal.\<close>

lemma sender_sleeps:
  assumes "sender_holds n a ls bs s" "sems s messageSent = Semaphore_new 0" "outstanding (mset (pending s)) = {#T#}" "now s \<le> T"
  shows "\<exists>s1. P_section messageSent s = Some (False, s1) \<and> waits_to_send n a ls bs T s1 s1 \<and> readyList s1 = [] \<and> tcb_ok s1
    \<and> threadToBeDestroyed s1 = None \<and> unconcerned s s1 \<and> now s1 = now s"
proof -
  have h: "hw_ok s" "mail_kept n a False ls bs s" "level s = IntOff" "\<not> inHandler s" "settled s" "tcb_ok s" "threadToBeDestroyed s = None"
    "\<forall>q \<in> set (pending s). int_type (snd q) \<noteq> TimerInt" "line_silent s" "readyList s = []"
    using assms(1) by (simp_all add: sender_holds_def)
  then obtain t where t: "threads s (currentThread s) = Some t" by (auto simp: tcb_ok_def)
  define s1 where "s1 = s\<lparr>sems := (sems s)(messageSent := \<lparr>sem_value = 0, sem_queue = [currentThread s]\<rparr>),
    threads := (threads s)(currentThread s \<mapsto> t\<lparr>tstatus := BLOCKED\<rparr>)\<rparr>"
  have "s\<lparr>level := IntOff\<rparr> = s" using h(3) by simp
  then have "P_section messageSent s = Some (False, s1)" using assms(2) h(3) t
    by (simp add: P_section_def Let_def Sleep_enter_def set_sem_def setThreadStatus_def set_thread_def s1_def Semaphore_new_def)
  moreover have u: "unconcerned s s1" by (simp add: unconcerned_def s1_def)
  moreover have "waiters_exist s1" using h(2) t by (auto simp: mail_kept_def waiters_exist_def stat_def s1_def split: if_splits)
  moreover have "mail_kept n a False ls bs s1" using mail_kept_unconcerned [OF u \<open>waiters_exist s1\<close> h(2)] .
  moreover have "send_inv True T s1 (mset (pending s1)) s1"
    using h assms(3) line_silent_more [of s1 s] by (simp add: send_inv_def sender_asleep_def stat_def s1_def)
  ultimately have "waits_to_send n a ls bs T s1 s1" "P_section messageSent s = Some (False, s1)"
    using h assms(4) by (auto simp: waits_to_send_def s1_def hw_ok_def ticks_ok_def mach_ok_def settled_mach now_def)
  moreover have "tcb_ok s1" using h(6) t by (auto simp: tcb_ok_def s1_def)
  ultimately show ?thesis using h u by (auto simp: s1_def now_def)
qed

lemma sender_wakes:
  assumes "waits_to_send n a ls bs T s1 s1" "readyList s1 = []" "tcb_ok s1" "threadToBeDestroyed s1 = None"
  shows "\<exists>s3. Sleep_loop post_handler s1 = Some (Returns () s3) \<and> sender_holds n a ls bs s3 \<and> sems s3 messageSent = Semaphore_new 1
    \<and> outstanding (mset (pending s3)) = {#} \<and> unconcerned s1 s3 \<and> now s1 \<le> now s3 \<and> now s3 \<le> T"
proof -
  have "\<exists>s' t ts. waits_to_send n a ls bs T s1 s' \<and> readyList s' = t # ts
      \<and> Sleep_loop post_handler s1 = map_option (Returns ()) (Run t (s'\<lparr>readyList := ts\<rparr>))"
    by (rule Sleep_loop_wakes [where I = "waits_to_send n a ls bs T s1" and f = "\<lambda>s. nat (T - now s) + of_bool (\<not> no_due s)", OF assms(1)])
      (rule idle_round_sending)
  then obtain s2 u us where s2: "waits_to_send n a ls bs T s1 s2" "readyList s2 = u # us"
    "Sleep_loop post_handler s1 = map_option (Returns ()) (Run u (s2\<lparr>readyList := us\<rparr>))" by blast
  have w: "sender_awake (mset (pending s2)) s2" "bystanders s1 s2" "mach s2 = mach s1" "now s1 \<le> now s2" "now s2 \<le> T" "line_silent s1"
    "hw_ok s2" "mail_kept n a False ls bs s2" "level s2 = IntOff" "\<not> inHandler s2" "settled s2" "status s2 = SystemMode" "\<not> yieldOnReturn s2"
    "\<forall>q \<in> set (pending s2). int_type (snd q) \<noteq> TimerInt"
    using s2(1,2) by (auto simp: waits_to_send_def send_inv_def sender_asleep_def)
  have u: "u = currentThread s2" "us = []" using w(1) s2(2) by (simp_all add: sender_awake_def)
  let ?s = "s2\<lparr>readyList := []\<rparr>"
  from bystanders_tcb_ok [OF w(2) assms(3) w(3)] obtain t where t: "threads s2 (currentThread s2) = Some t" "started t"
    "has_stack t \<longrightarrow> fencepost t"
    "\<forall>sp. space t = Some sp \<longrightarrow> (\<exists>m pt. mach s2 = Some m \<and> pageTable m = Some pt \<and> pageTableSize m = numPages sp)"
    by (auto simp: tcb_ok_def)
  have d: "threadToBeDestroyed s2 = None" using w(2) assms(4) by (simp add: bystanders_def)
  from Run_self [of ?s t] t d obtain t' where r: "Run (currentThread s2) ?s = Some (?s\<lparr>threads := (threads s2)(currentThread s2 \<mapsto> t')\<rparr>)"
    "tstatus t' = RUNNING" "started t'" "has_stack t' \<longrightarrow> fencepost t'" "map_option numPages (space t') = map_option numPages (space t)"
    by auto
  let ?s3 = "?s\<lparr>threads := (threads s2)(currentThread s2 \<mapsto> t')\<rparr>"
  have "tcb_ok ?s3" using r(3-5) t(4) by (cases "space t'"; cases "space t") (auto simp: tcb_ok_def)
  moreover have "waiters_exist ?s3" using w(8) by (auto simp: mail_kept_def waiters_exist_def stat_def)
  moreover have "unconcerned s2 ?s3" by (simp add: unconcerned_def)
  moreover have "mail_kept n a False ls bs ?s3" by (rule mail_kept_unconcerned [OF calculation(3,2) w(8)])
  moreover have "line_silent ?s3" using line_silent_more [of ?s3 s1] w(2,6) by (simp add: bystanders_def)
  ultimately have "sender_holds n a ls bs ?s3"
    using w d r(2) by (simp add: sender_holds_def hw_ok_def ticks_ok_def mach_ok_def settled_mach stat_def)
  moreover have "unconcerned s1 ?s3" using w(2,3) by (simp add: unconcerned_def bystanders_def)
  moreover have "now ?s3 = now s2" by (simp add: now_def)
  ultimately show ?thesis using s2(3) u r(1) w(1,4,5) by (auto simp: sender_awake_def)
qed

lemma P_sent:
  assumes "sender_holds n a ls bs s" "sems s messageSent = Semaphore_new 0" "outstanding (mset (pending s)) = {#T#}" "now s \<le> T"
  shows "\<exists>s'. P_loop post_handler others messageSent s = Some (Returns () s') \<and> sender_holds n a ls bs s' \<and> sems s' messageSent = Semaphore_new 0
    \<and> outstanding (mset (pending s')) = {#} \<and> unconcerned s s' \<and> now s \<le> now s' \<and> now s' \<le> T"
proof -
  from sender_sleeps [OF assms] obtain s1 where s1: "P_section messageSent s = Some (False, s1)" "waits_to_send n a ls bs T s1 s1" "readyList s1 = []"
    "tcb_ok s1" "threadToBeDestroyed s1 = None" "unconcerned s s1" "now s1 = now s" by blast
  from sender_wakes [OF s1(2-5)] obtain s3 where s3: "Sleep_loop post_handler s1 = Some (Returns () s3)" "sender_holds n a ls bs s3"
    "sems s3 messageSent = Semaphore_new 1" "outstanding (mset (pending s3)) = {#}" "unconcerned s1 s3" "now s1 \<le> now s3" "now s3 \<le> T" by blast
  let ?s4 = "set_sem messageSent (Semaphore_new 0) s3"
  have "s3\<lparr>level := IntOff\<rparr> = s3" using s3(2) by (simp add: sender_holds_def)
  then have "P_section messageSent s3 = Some (True, ?s4)" using s3(3) by (simp add: P_section_def Let_def Semaphore_new_def)
  moreover have "currentThread s3 = currentThread s" using s1(6) s3(5) by (simp add: unconcerned_def)
  ultimately have "P_loop post_handler others messageSent s = Some (Returns () ?s4)"
    using s1(1) s3(1) by (subst P_loop.simps, simp) (subst P_loop.simps, simp)
  moreover have u: "unconcerned s3 ?s4" by (simp add: unconcerned_def set_sem_def)
  moreover have "waiters_exist ?s4" using s3(2) by (auto simp: sender_holds_def mail_kept_def waiters_exist_def set_sem_def Semaphore_new_def stat_def)
  from mail_kept_unconcerned [OF u this, of n a False ls bs] s3(2) line_silent_more [of ?s4 s3] have "sender_holds n a ls bs ?s4"
    by (simp add: sender_holds_def set_sem_def hw_ok_def ticks_ok_def mach_ok_def settled_mach stat_def tcb_ok_def)
  ultimately show ?thesis using s3(4-7) s1(6,7) unconcerned_trans [OF s1(6) unconcerned_trans [OF s3(5) u]] by (auto simp: set_sem_def now_def)
qed

text \<open>Enabling interrupts again: one tick of the clock.\<close>

lemma sender_resumes:
  assumes "sender_holds n a ls bs s" "sems s messageSent = Semaphore_new 0" "outstanding (mset (pending s)) = {#}"
  shows "\<exists>s'. SetLevel post_handler Y IntOn s = Some (IntOff, s') \<and> level s' = IntOn \<and> sender_holds n a ls bs (s'\<lparr>level := IntOff\<rparr>)
    \<and> sems s' messageSent = Semaphore_new 0 \<and> outstanding (mset (pending s')) = {#} \<and> unconcerned s s' \<and> now s' = now s + SystemTick"
proof -
  let ?s = "s\<lparr>level := IntOn\<rparr>"
  have off: "?s\<lparr>level := IntOff\<rparr> = s" using assms(1) by (simp add: sender_holds_def)
  have i: "send_inv False 0 s (mset (pending s)) s" using assms by (simp add: send_inv_def sender_runs_def sender_holds_def)
  then have "hw_ok s \<and> mail_kept n a False ls bs s \<and> level s = IntOff \<and> \<not> inHandler s \<and> settled s \<and> send_inv False 0 s (mset (pending s)) s"
    using assms(1) by (simp add: sender_holds_def)
  from sending.OneTick_J [of ?s n a False ls bs False 0 s Y, unfolded off, OF this] assms(1) obtain s' where s': "OneTick post_handler Y ?s = Some s'"
    "hw_ok (s'\<lparr>level := IntOff\<rparr>)" "mail_kept n a False ls bs (s'\<lparr>level := IntOff\<rparr>)" "\<not> inHandler s'" "settled (s'\<lparr>level := IntOff\<rparr>)"
    "send_inv False 0 s (mset (pending s')) (s'\<lparr>level := IntOff\<rparr>)" "level s' = IntOn" "mach s' = mach s" "now s' = now s + SystemTick"
    "status s' = SystemMode" "\<not> yieldOnReturn s'" by (auto simp: sender_holds_def now_def)
  have b: "bystanders s s'" "sender_runs (mset (pending s')) s'" "\<forall>q \<in> set (pending s'). int_type (snd q) \<noteq> TimerInt"
    using s'(6) by (auto simp: send_inv_def bystanders_def sender_runs_def stat_def)
  have "tcb_ok (s'\<lparr>level := IntOff\<rparr>)" using bystanders_tcb_ok [OF b(1)] assms(1) s'(8) by (simp add: sender_holds_def tcb_ok_def)
  moreover have "threadToBeDestroyed s' = None" "line_silent (s'\<lparr>level := IntOff\<rparr>)"
    using assms(1) b(1) line_silent_more [of "s'\<lparr>level := IntOff\<rparr>" s] by (simp_all add: sender_holds_def bystanders_def)
  ultimately have "sender_holds n a ls bs (s'\<lparr>level := IntOff\<rparr>)"
    using s' b(2,3) by (simp add: sender_holds_def sender_runs_def stat_def)
  moreover have "SetLevel post_handler Y IntOn s = Some (IntOff, s')"
    using s'(1) assms(1) by (simp add: SetLevel_def ChangeLevel_def sender_holds_def Let_def)
  moreover have "unconcerned s s'" using b(1) s'(8) by (simp add: unconcerned_def bystanders_def)
  ultimately show ?thesis using s'(7,9) b(2) by (auto simp: sender_runs_def)
qed

section \<open>Sending a message\<close>

text \<open>Post office \<open>a\<close>, of \<open>n\<close> boxes, at a moment when its machine's only runnable thread is about to send.\<close>

definition may_send :: "int \<Rightarrow> word32 \<Rightarrow> 'z post_scheme \<Rightarrow> bool" where
  "may_send n a s \<longleftrightarrow> level s = IntOn \<and> hw_ok s \<and> settled s \<and> \<not> inHandler s \<and> status s = SystemMode \<and> \<not> yieldOnReturn s
     \<and> tcb_ok s \<and> threadToBeDestroyed s = None \<and> readyList s = [] \<and> stat s (currentThread s) = Some RUNNING \<and> waiters_exist s
     \<and> (\<forall>q \<in> set (pending s). int_type (snd q) \<noteq> TimerInt) \<and> outstanding (mset (pending s)) = {#} \<and> sems s messageSent = Semaphore_new 0
     \<and> line_silent s \<and> (\<exists>q. sockets s a = Some q \<and> office_ok n a False q s)"

text \<open>A message that the checks of \<^verbatim>\<open>PostOffice::Send\<close> and \<^verbatim>\<open>Network::Send\<close> accept, for a machine that exists and is not the sender.\<close>

definition sendable :: "int \<Rightarrow> word32 \<Rightarrow> PacketHeader \<Rightarrow> MailHeader \<Rightarrow> byte list \<Rightarrow> 'z post_scheme \<Rightarrow> bool" where
  "sendable n a p m d s \<longleftrightarrow> unat (mail_length m) \<le> MaxMailSize \<and> unat (mail_length m) \<le> length d \<and> 0 \<le> sint (mail_to m) \<and> sint (mail_to m) < n
     \<and> pkt_to p \<noteq> a \<and> sockets s (pkt_to p) \<noteq> None"

lemma may_send_holds:
  "may_send n a s \<longleftrightarrow> level s = IntOn \<and> outstanding (mset (pending s)) = {#} \<and> sems s messageSent = Semaphore_new 0
     \<and> (\<exists>ls bs. sender_holds n a ls bs (s\<lparr>level := IntOff\<rparr>))"
  by (auto simp: may_send_def sender_holds_def mail_kept_def office_ok_def on_the_way_def hw_ok_def ticks_ok_def mach_ok_def settled_mach tcb_ok_def
    stat_def waiters_exist_def line_silent_def)

lemma hand_over_succeeds:
  assumes "may_send n a s" "sendable n a p m d s" "length junk = MaxPacketSize" "length wire_junk = MaxWireSize"
  shows "\<exists>numbers socks. hand_over rnd junk wire_junk p m d s = Some (s\<lparr>pending := insert_key (now s + NetworkTime)
      \<lparr>handler = NetworkSendDone, arg = 0, int_type = NetworkSendInt\<rparr> (pending s), randoms := numbers, sockets := socks\<rparr>) \<and> socks a = sockets s a"
proof -
  obtain q where q: "sockets s (pkt_to p) = Some q" "pkt_to p \<noteq> a" using assms(2) by (auto simp: sendable_def)
  have m: "unat (mail_length m) \<le> MaxMailSize" "unat (mail_length m) \<le> length d" "0 \<le> sint (mail_to m)" "sint (mail_to m) < n"
    using assms(2) by (simp_all add: sendable_def)
  note l = packet_length_word [OF m(1)]
  have s: "\<not> sendBusy s" "ident s = a" "netAddr s = a" "numBoxes s = n" using assms(1) by (auto simp: may_send_def line_silent_def office_ok_def)
  define numbers where "numbers = randoms (snd (Random s))"
  let ?s1 = "s\<lparr>pending := insert_key (now s + NetworkTime) \<lparr>handler = NetworkSendDone, arg = 0, int_type = NetworkSendInt\<rparr> (pending s)\<rparr>"
  have r1: "snd (Random ?s1) = ?s1\<lparr>randoms := numbers\<rparr>" by (auto simp: Random_def numbers_def split: list.splits)
  have "Schedule NetworkSendDone 0 NetworkTime NetworkSendInt s = Some ?s1" by (simp add: Schedule_def NetworkTime_def)
  then show ?thesis
    using q m l s assms(3,4) r1
    by (cases "drops rnd ?s1")
      (auto simp: hand_over_def Network_Send_def Lock_Acquire_def SendToSocket_def Let_def mail_sizes intro!: exI)
qed

lemma unconcerned_mail: "unconcerned s s' \<Longrightarrow> mail_state s' = mail_state s \<and> sockets s' = sockets s"
  using post_more [of s' s] by (simp add: unconcerned_def mail_state_def messageSent_def messageAvailable_def)

text \<open>The whole of \<^verbatim>\<open>PostOffice::Send\<close>.\<close>

lemma send_effect:
  assumes "may_send n a s" "sendable n a p m d s" "length junk = MaxPacketSize" "length wire_junk = MaxWireSize"
  shows "\<exists>s'. PostOffice_Send Y others rnd junk wire_junk p m d s = Some (Returns () s') \<and> may_send n a s'
    \<and> now s + SystemTick \<le> now s' \<and> now s' \<le> now s + NetworkTime + SystemTick
    \<and> (if drops rnd s then sockets s' = sockets s
       else \<exists>q dg. sockets s (pkt_to p) = Some q \<and> sockets s' = (sockets s)(pkt_to p \<mapsto> q @ [dg])
         \<and> length dg = MaxWireSize \<and> wire_letter dg = stamped p m d s)
    \<and> mail_state s' = mail_state s \<and> mach s' = mach s \<and> currentThread s' = currentThread s \<and> (\<forall>t. t \<noteq> currentThread s \<longrightarrow> threads s' t = threads s t)
    \<and> chanceToWork s' = chanceToWork s"
proof -
  from hand_over_succeeds [OF assms, of rnd] obtain numbers socks where h: "socks a = sockets s a" "hand_over rnd junk wire_junk p m d s = Some (s\<lparr>
      pending := insert_key (now s + NetworkTime) \<lparr>handler = NetworkSendDone, arg = 0, int_type = NetworkSendInt\<rparr> (pending s),
      randoms := numbers, sockets := socks\<rparr>)" by blast
  define s1 where "s1 = s\<lparr>pending := insert_key (now s + NetworkTime) \<lparr>handler = NetworkSendDone, arg = 0, int_type = NetworkSendInt\<rparr> (pending s),
      randoms := numbers, sockets := socks\<rparr>"
  let ?s = "s1\<lparr>level := IntOff\<rparr>"
  note sent = hand_over_effect [OF h(2), folded s1_def]
  from assms(1) obtain ls bs where r: "level s = IntOn" "outstanding (mset (pending s)) = {#}" "sems s messageSent = Semaphore_new 0"
    "sender_holds n a ls bs (s\<lparr>level := IntOff\<rparr>)" by (auto simp: may_send_holds)
  have i: "ident s = a" using r(4) by (auto simp: sender_holds_def mail_kept_def office_ok_def)
  have holds: "sender_holds n a ls bs ?s"
    using r(4) h(1) i by (auto simp: s1_def sender_holds_def mail_kept_def office_ok_def on_the_way_def hw_ok_def ticks_ok_def mach_ok_def settled_mach
      tcb_ok_def stat_def waiters_exist_def line_silent_def insert_key_sorted insert_key_set)
  have o: "outstanding (mset (pending ?s)) = {#now ?s + NetworkTime#}" "sems ?s messageSent = Semaphore_new 0"
    using r(2,3) by (simp_all add: s1_def outstanding_def insert_key_mset now_def)
  from P_sent [OF holds o(2,1), of others] obtain s2 where s2: "P_loop post_handler others messageSent ?s = Some (Returns () s2)"
    "sender_holds n a ls bs s2" "sems s2 messageSent = Semaphore_new 0" "outstanding (mset (pending s2)) = {#}" "unconcerned ?s s2"
    "now ?s \<le> now s2" "now s2 \<le> now ?s + NetworkTime" by (auto simp: NetworkTime_def)
  from sender_resumes [OF s2(2-4), of Y] obtain s3 where s3: "SetLevel post_handler Y IntOn s2 = Some (IntOff, s3)" "level s3 = IntOn"
    "sender_holds n a ls bs (s3\<lparr>level := IntOff\<rparr>)" "sems s3 messageSent = Semaphore_new 0" "outstanding (mset (pending s3)) = {#}"
    "unconcerned s2 s3" "now s3 = now s2 + SystemTick" by blast
  have "SetLevel post_handler Y IntOff s1 = Some (IntOn, ?s)" using r(1) by (simp add: s1_def SetLevel_def ChangeLevel_def Let_def)
  then have "PostOffice_Send Y others rnd junk wire_junk p m d s = Some (Returns () s3)"
    using h(2) s2(1) s3(1) by (simp add: PostOffice_Send_def P_with_def Lock_Release_def s1_def)
  moreover have "may_send n a s3" using s3(2-5) by (auto simp: may_send_holds)
  moreover have u: "unconcerned ?s s3" by (rule unconcerned_trans [OF s2(5) s3(6)])
  moreover have "mail_state s3 = mail_state s1" "sockets s3 = sockets s1" using unconcerned_mail [OF u] by (simp_all add: mail_state_def)
  moreover have "chanceToWork s3 = chanceToWork s1" using u by (cases s3, cases s1, simp add: unconcerned_def)
  moreover have "now ?s = now s" by (simp add: s1_def now_def)
  ultimately show ?thesis using sent(1,3,4) s2(6,7) s3(7) by (auto simp: unconcerned_def s1_def)
qed

text \<open>C27. A thread that sends a message gets it sent. It is the only runnable thread of its machine, and no packet arrives at the machine meanwhile.
  Then \<^verbatim>\<open>PostOffice::Send\<close> returns: the sender sleeps, the idle loop serves the network's interrupts, one of them wakes the sender, and all that
  takes no longer than the network's latency and one tick. The message lies at the receiver's socket, last in the queue, with the sender's address
  and the length filled in, unless the network dropped it; the sender's own mail, the other threads and the user program's machine are as before; and
  the thread may send again.\<close>

theorem send_returns:
  assumes "may_send n a s" "sendable n a p m d s" "length junk = MaxPacketSize" "length wire_junk = MaxWireSize"
  shows "\<exists>s'. PostOffice_Send Y others rnd junk wire_junk p m d s = Some (Returns () s') \<and> may_send n a s'
    \<and> now s + SystemTick \<le> now s' \<and> now s' \<le> now s + NetworkTime + SystemTick
    \<and> (if drops rnd s then sockets s' = sockets s
       else \<exists>q dg. sockets s (pkt_to p) = Some q \<and> sockets s' = (sockets s)(pkt_to p \<mapsto> q @ [dg])
         \<and> length dg = MaxWireSize \<and> wire_letter dg = stamped p m d s)
    \<and> mail_state s' = mail_state s \<and> mach s' = mach s \<and> currentThread s' = currentThread s \<and> (\<forall>t. t \<noteq> currentThread s \<longrightarrow> threads s' t = threads s t)"
  using send_effect [OF assms, of Y others rnd] by blast

text \<open>Machine 1, whose postal worker is asleep, sends the greeting to machine 2, and sends it again.\<close>

definition sender_machine :: post where
  "sender_machine = (sample_post 1)\<lparr>level := IntOn, pending := [(100, \<lparr>handler = NetworkReadPoll, arg = 0, int_type = NetworkRecvInt\<rparr>)],
     threads := [0 \<mapsto> (Thread_new (\<lambda>_. 0))\<lparr>tstatus := RUNNING, started := True\<rparr>, 1 \<mapsto> (Thread_new (\<lambda>_. 0))\<lparr>tstatus := BLOCKED, started := True\<rparr>],
     sems := (\<lambda>_. Semaphore_new 0)(messageAvailable := \<lparr>sem_value = 0, sem_queue = [1]\<rparr>), sockets := [1 \<mapsto> [], 2 \<mapsto> []]\<rparr>"

lemma sender_machine_may_send: "may_send 1 1 sender_machine"
  by (auto simp: may_send_def sender_machine_def sample_post_def hw_ok_def ticks_ok_def mach_ok_def settled_mach tcb_ok_def stat_def waiters_exist_def
    outstanding_def line_silent_def office_ok_def buffered_def mail_sizes Semaphore_new_def Thread_new_def Statistics_new_def messageSent_def
    messageAvailable_def split: if_splits)

theorem send_returns_witness:
  "\<exists>s1 s2 dg. PostOffice_Send Some (\<lambda>t s. None) (\<lambda>x. x) (replicate 52 0) (replicate 64 0) \<lparr>pkt_to = 2, pkt_from = 0, pkt_length = 0\<rparr>
       \<lparr>mail_to = 0, mail_from = 0, mail_length = 2\<rparr> [72, 105] sender_machine = Some (Returns () s1) \<and> sockets s1 2 = Some [dg] \<and> wire_letter dg = greeting
     \<and> PostOffice_Send Some (\<lambda>t s. None) (\<lambda>x. x) (replicate 52 0) (replicate 64 0) \<lparr>pkt_to = 2, pkt_from = 0, pkt_length = 0\<rparr>
       \<lparr>mail_to = 0, mail_from = 0, mail_length = 2\<rparr> [72, 105] s1 = Some (Returns () s2) \<and> now s2 \<le> 220"
proof -
  let ?p = "\<lparr>pkt_to = 2, pkt_from = 0, pkt_length = 0\<rparr>" and ?m = "\<lparr>mail_to = 0, mail_from = 0, mail_length = 2\<rparr>"
  have ok: "sendable 1 1 ?p ?m [72, 105] s" if "sockets s 2 \<noteq> None" for s :: post using that by (simp add: sendable_def mail_sizes)
  have st: "sockets sender_machine 2 = Some []" "now sender_machine = 0" "\<not> drops (\<lambda>x. x) sender_machine"
    "stamped ?p ?m [72, 105] sender_machine = greeting"
    by (simp_all add: sender_machine_def sample_post_def now_def Statistics_new_def drops_def Random_def stamped_def greeting_def)
  note send = send_returns [where junk = "replicate 52 0" and wire_junk = "replicate 64 0" and rnd = "\<lambda>x. x" and Y = Some and others = "\<lambda>t s. None"]
  from send [OF sender_machine_may_send ok] st obtain s1 dg where s1: "may_send 1 1 s1" "sockets s1 2 = Some [dg]" "wire_letter dg = greeting" "now s1 \<le> 110"
    "PostOffice_Send Some (\<lambda>t s. None) (\<lambda>x. x) (replicate 52 0) (replicate 64 0) ?p ?m [72, 105] sender_machine = Some (Returns () s1)"
    by (auto simp: mail_sizes NetworkTime_def SystemTick_def)
  from send [OF s1(1) ok] s1(2) obtain s2 where
    "PostOffice_Send Some (\<lambda>t s. None) (\<lambda>x. x) (replicate 52 0) (replicate 64 0) ?p ?m [72, 105] s1 = Some (Returns () s2)"
    "now s2 \<le> now s1 + NetworkTime + SystemTick" by (auto simp: mail_sizes)
  with s1 show ?thesis by (auto simp: NetworkTime_def SystemTick_def)
qed

end
