(* ===== verification/Mail_Test.thy ===== *)
theory Mail_Test
  imports Mail_Sending Thread_Test
begin

text \<open>
  network/nettest.cc: \<^verbatim>\<open>MailTest\<close>, with which two machines exchange a message and its acknowledgement, and the command of threads/main.cc that runs it.

  \<open>raw\<close> is the packet header on the stack, of which only the destination is set. The result are the arguments of the two messages that are
  printed (the data, the sending machine and its box), in the state in which the test calls \<^verbatim>\<open>Halt\<close>.
\<close>

section \<open>The test\<close>

text \<open>\<^verbatim>\<open>"Hello there!"\<close> and \<^verbatim>\<open>"Got it!"\<close>, with the terminating zero.\<close>

definition mail_data_text :: "byte list" where "mail_data_text = [72, 101, 108, 108, 111, 32, 116, 104, 101, 114, 101, 33, 0]"
definition ack_text :: "byte list" where "ack_text = [71, 111, 116, 32, 105, 116, 33, 0]"

definition MailTest ::
    "('z post_scheme \<Rightarrow> 'z post_scheme option) \<Rightarrow> (nat \<Rightarrow> 'z post_scheme \<Rightarrow> (unit, 'z post_scheme) outcome option) \<Rightarrow> (rat \<Rightarrow> rat)
     \<Rightarrow> (nat \<Rightarrow> byte list) \<Rightarrow> (nat \<Rightarrow> byte list) \<Rightarrow> PacketHeader \<Rightarrow> word32 \<Rightarrow> 'z post_scheme
     \<Rightarrow> ((byte list \<times> word32 \<times> word32) list, 'z post_scheme) outcome option" where
  "MailTest Y others rnd junk wire_junk raw farAddr s =
     (let outPktHdr = raw\<lparr>pkt_to := farAddr\<rparr>; outMailHdr = \<lparr>mail_to = 0, mail_from = 1, mail_length = of_nat (length mail_data_text)\<rparr> in
      then_run (PostOffice_Send Y others rnd (junk 0) (wire_junk 0) outPktHdr outMailHdr mail_data_text s) (\<lambda>u s1. do {
        (inPktHdr, inMailHdr, buffer, s2) \<leftarrow> PostOffice_Receive 0 s1;
        let outPktHdr = outPktHdr\<lparr>pkt_to := pkt_from inPktHdr\<rparr>;
        let outMailHdr = outMailHdr\<lparr>mail_to := mail_from inMailHdr, mail_length := of_nat (length ack_text)\<rparr>;
        then_run (PostOffice_Send Y others rnd (junk 1) (wire_junk 1) outPktHdr outMailHdr ack_text s2) (\<lambda>u s3. do {
          (inPktHdr1, inMailHdr1, buffer1, s4) \<leftarrow> PostOffice_Receive 1 s3;
          Some (Returns [(buffer, pkt_from inPktHdr, mail_from inMailHdr), (buffer1, pkt_from inPktHdr1, mail_from inMailHdr1)] s4) }) }))"

text \<open>The command \<^verbatim>\<open>-o\<close> in \<^verbatim>\<open>main\<close>, after the delay that gives the other machine time to start; the arguments begin with the command.\<close>

definition arg_o :: "byte list" where "arg_o = [45, 111]"

definition network_command ::
    "('z post_scheme \<Rightarrow> 'z post_scheme option) \<Rightarrow> (nat \<Rightarrow> 'z post_scheme \<Rightarrow> (unit, 'z post_scheme) outcome option) \<Rightarrow> (rat \<Rightarrow> rat)
     \<Rightarrow> (nat \<Rightarrow> byte list) \<Rightarrow> (nat \<Rightarrow> byte list) \<Rightarrow> PacketHeader \<Rightarrow> byte list list \<Rightarrow> 'z post_scheme
     \<Rightarrow> ((byte list \<times> word32 \<times> word32) list, 'z post_scheme) outcome option" where
  "network_command Y others rnd junk wire_junk raw argv s =
     (if argv ! 0 = arg_o then do {
        ASSERT (length argv > 1);
        MailTest Y others rnd junk wire_junk raw (word_of_int (atoi (argv ! 1))) s }
      else Some (Returns [] s))"

section \<open>What the test does\<close>

lemma may_send_boxes [simp]: "may_send n a (s\<lparr>boxes := bs\<rparr>) = may_send n a s"
  by (simp add: may_send_def hw_ok_def ticks_ok_def mach_ok_def settled_mach tcb_ok_def stat_def waiters_exist_def line_silent_def office_ok_def)

lemma text_lengths: "length mail_data_text = 13" "length ack_text = 8"
  by (simp_all add: mail_data_text_def ack_text_def)

abbreviation reliable :: "(rat \<Rightarrow> rat) \<Rightarrow> 'z post_scheme \<Rightarrow> bool" where
  "reliable rnd s \<equiv> (\<forall>s' :: 'z post_scheme. chanceToWork s' = chanceToWork s \<longrightarrow> \<not> drops rnd s')"

text \<open>With both messages of the other machine in the boxes, the test prints them, its own message and the acknowledgement are on their way, and it ends.\<close>

theorem mail_test_replies:
  assumes "may_send n a s" "boxes_hold (boxes s) (((p, m, d) # ls) # ((p', m', d') # ls') # ms)" "n = int (length ms) + 2"
    "unat (mail_length m) \<le> MaxMailSize" "unat (mail_length m') \<le> MaxMailSize" "farAddr \<noteq> a" "sockets s farAddr = Some q"
    "pkt_from p \<noteq> a" "pkt_from p \<noteq> farAddr" "sockets s (pkt_from p) = Some q'" "0 \<le> sint (mail_from m)" "sint (mail_from m) < n" "reliable rnd s"
    "\<And>i. length (junk i) = MaxPacketSize" "\<And>i. length (wire_junk i) = MaxWireSize"
  shows "\<exists>s' dg dg'. MailTest Y others rnd junk wire_junk raw farAddr s = Some (Returns [(d, pkt_from p, mail_from m), (d', pkt_from p', mail_from m')] s')
    \<and> boxes_hold (boxes s') (ls # ls' # ms) \<and> sockets s' = (sockets s)(farAddr \<mapsto> q @ [dg], pkt_from p \<mapsto> q' @ [dg'])
    \<and> snd (wire_letter dg) = (\<lparr>mail_to = 0, mail_from = 1, mail_length = 13\<rparr>, mail_data_text)
    \<and> snd (wire_letter dg') = (\<lparr>mail_to = mail_from m, mail_from = 1, mail_length = 8\<rparr>, ack_text)"
proof -
  let ?p1 = "raw\<lparr>pkt_to := farAddr\<rparr>" and ?m1 = "\<lparr>mail_to = 0, mail_from = 1, mail_length = 13\<rparr>"
  let ?p2 = "raw\<lparr>pkt_to := pkt_from p\<rparr>" and ?m2 = "\<lparr>mail_to = mail_from m, mail_from = 1, mail_length = 8\<rparr>"
  have nb: "numBoxes s = n" using assms(1) by (auto simp: may_send_def office_ok_def)
  have "sendable n a ?p1 ?m1 mail_data_text s" using assms(3,6,7) by (simp add: sendable_def mail_sizes text_lengths)
  from send_effect [OF assms(1) this assms(14,15), of Y others rnd 0 0] assms(7,13) obtain s1 dg where
    s1: "PostOffice_Send Y others rnd (junk 0) (wire_junk 0) ?p1 ?m1 mail_data_text s = Some (Returns () s1)" "may_send n a s1"
      "sockets s1 = (sockets s)(farAddr \<mapsto> q @ [dg])" "wire_letter dg = stamped ?p1 ?m1 mail_data_text s" "mail_state s1 = mail_state s"
      "chanceToWork s1 = chanceToWork s" by auto
  let ?ms = "((p, m, d) # ls) # ((p', m', d') # ls') # ms"
  have b1: "boxes_hold (boxes s1) ?ms" "numBoxes s1 = int (length ?ms)" using s1(5) assms(2,3) nb by (simp_all add: mail_state_def)
  from Receive_effect(2) [OF b1, of 0 p m d ls] assms(4) obtain bs where
    r1: "PostOffice_Receive 0 s1 = Some (p, m, d, s1\<lparr>boxes := bs\<rparr>)" "boxes_hold bs (ls # ((p', m', d') # ls') # ms)" by auto
  have "sendable n a ?p2 ?m2 ack_text (s1\<lparr>boxes := bs\<rparr>)" using assms(8-12) s1(3) by (simp add: sendable_def mail_sizes text_lengths)
  from send_effect [OF _ this assms(14,15), of Y others rnd 1 1] s1(2,3,6) assms(9,10,13) obtain s2 dg' where
    s2: "PostOffice_Send Y others rnd (junk 1) (wire_junk 1) ?p2 ?m2 ack_text (s1\<lparr>boxes := bs\<rparr>) = Some (Returns () s2)"
      "sockets s2 = (sockets s)(farAddr \<mapsto> q @ [dg], pkt_from p \<mapsto> q' @ [dg'])" "wire_letter dg' = stamped ?p2 ?m2 ack_text (s1\<lparr>boxes := bs\<rparr>)"
      "mail_state s2 = mail_state (s1\<lparr>boxes := bs\<rparr>)" by auto
  have b2: "boxes_hold (boxes s2) (ls # ((p', m', d') # ls') # ms)" "numBoxes s2 = int (length (ls # ((p', m', d') # ls') # ms))"
    using s2(4) r1(2) b1(2) by (simp_all add: mail_state_def)
  from Receive_effect(2) [OF b2, of 1 p' m' d' ls'] assms(5) obtain bs' where
    r2: "PostOffice_Receive 1 s2 = Some (p', m', d', s2\<lparr>boxes := bs'\<rparr>)" "boxes_hold bs' (ls # ls' # ms)" by auto
  have "MailTest Y others rnd junk wire_junk raw farAddr s
      = Some (Returns [(d, pkt_from p, mail_from m), (d', pkt_from p', mail_from m')] (s2\<lparr>boxes := bs'\<rparr>))"
    using s1(1) r1(1) s2(1) r2(1) by (simp add: MailTest_def text_lengths)
  moreover have "snd (wire_letter dg) = (?m1, mail_data_text)" "snd (wire_letter dg') = (?m2, ack_text)"
    using s1(4) s2(3) by (simp_all add: stamped_def text_lengths)
  ultimately show ?thesis using r2(2) s2(2) by auto
qed

text \<open>When the first message of the other machine has not yet arrived, the test does not wait for it: it fails in \<^verbatim>\<open>Receive\<close>.\<close>

theorem mail_test_aborts:
  assumes "may_send n a s" "boxes_hold (boxes s) ([] # ms)" "n = int (length ms) + 1" "farAddr \<noteq> a" "sockets s farAddr \<noteq> None"
    "\<And>i. length (junk i) = MaxPacketSize" "\<And>i. length (wire_junk i) = MaxWireSize"
  shows "MailTest Y others rnd junk wire_junk raw farAddr s = None"
proof -
  let ?p1 = "raw\<lparr>pkt_to := farAddr\<rparr>" and ?m1 = "\<lparr>mail_to = 0, mail_from = 1, mail_length = 13\<rparr>"
  have nb: "numBoxes s = n" using assms(1) by (auto simp: may_send_def office_ok_def)
  have "sendable n a ?p1 ?m1 mail_data_text s" using assms(3-5) by (simp add: sendable_def mail_sizes text_lengths)
  from send_effect [OF assms(1) this assms(6,7), of Y others rnd 0 0] obtain s1 where
    s1: "PostOffice_Send Y others rnd (junk 0) (wire_junk 0) ?p1 ?m1 mail_data_text s = Some (Returns () s1)" "mail_state s1 = mail_state s" by auto
  have "boxes_hold (boxes s1) ([] # ms)" "numBoxes s1 = int (length ([] # ms))" using s1(2) assms(2,3) nb by (simp_all add: mail_state_def)
  from Receive_effect(1) [OF this, of 0] s1(1) show ?thesis by (simp add: MailTest_def text_lengths)
qed

text \<open>A machine that runs the command \<^verbatim>\<open>-o\<close> before mail has arrived in its first box fails.\<close>

corollary network_test_aborts:
  assumes "may_send n a s" "boxes_hold (boxes s) ([] # ms)" "n = int (length ms) + 1" "word_of_int (atoi m) \<noteq> a" "sockets s (word_of_int (atoi m)) \<noteq> None"
    "\<And>i. length (junk i) = MaxPacketSize" "\<And>i. length (wire_junk i) = MaxWireSize"
  shows "network_command Y others rnd junk wire_junk raw (arg_o # m # args) s = None"
  using mail_test_aborts [OF assms] by (simp add: network_command_def)

end
