(* ===== verification/Coff_Noff.thy ===== *)
theory Coff_Noff
  imports Open_File
begin

text \<open>
  bin/coff2noff.c, with bin/coff.h and bin/noff.h: the tool that converts the compiler's COFF files into the executables that the kernel loads.

  A file is the list of its bytes. The tool runs on the same little-endian 32-bit host as the kernel, where \<^verbatim>\<open>long\<close> has four bytes and
  \<^verbatim>\<open>WordToHost\<close> changes nothing. \<open>coff2noff\<close> gives the contents of the file that is written, or the reason for which the tool removes the file and
  exits. \<open>None\<close> is a negative size, for which the tool's buffer does not exist. Writing does not fail. Messages are left out.
\<close>

section \<open>COFF files\<close>

definition MIPSELMAGIC :: nat where "MIPSELMAGIC = 0x0162"
definition OMAGIC :: nat where "OMAGIC = 263"

definition short_at :: "byte list \<Rightarrow> nat \<Rightarrow> nat" where
  "short_at bs i = unat (bs ! i) + 256 * unat (bs ! (i + 1))"

text \<open>The sizes of the three structures.\<close>

definition filehdr_size :: nat where "filehdr_size = 20"
definition aouthdr_size :: nat where "aouthdr_size = 56"
definition scnhdr_size :: nat where "scnhdr_size = 40"

record scnhdr =
  s_name :: "byte list"
  s_paddr :: word32
  s_size :: word32
  s_scnptr :: word32

definition scnhdr_of_bytes :: "byte list \<Rightarrow> scnhdr" where
  "scnhdr_of_bytes bs = \<lparr>s_name = take 8 bs, s_paddr = WordToHost False (word_of_bytes bs 8), s_size = WordToHost False (word_of_bytes bs 16),
     s_scnptr = WordToHost False (word_of_bytes bs 20)\<rparr>"

text \<open>\<^verbatim>\<open>strcmp\<close> with a name of fewer than eight characters.\<close>

definition section_named :: "byte list \<Rightarrow> scnhdr \<Rightarrow> bool" where
  "section_named name sec \<longleftrightarrow> takeWhile (\<lambda>c. c \<noteq> 0) (s_name sec) = name"

definition text_name :: "byte list" where "text_name = [46, 116, 101, 120, 116]"
definition data_name :: "byte list" where "data_name = [46, 100, 97, 116, 97]"
definition rdata_name :: "byte list" where "rdata_name = [46, 114, 100, 97, 116, 97]"
definition bss_name :: "byte list" where "bss_name = [46, 98, 115, 115]"
definition sbss_name :: "byte list" where "sbss_name = [46, 115, 98, 115, 115]"

lemmas section_names = text_name_def data_name_def rdata_name_def bss_name_def sbss_name_def

section \<open>The conversion\<close>

datatype coff_error = TooShort | NotMipsel | NotOmagic | BothData | BothBss | UnknownSegment

text \<open>\<open>in_pos\<close> is the position in the input; \<open>out\<close> is what has been written after the place of the header.\<close>

record conversion =
  in_pos :: nat
  noffH :: NoffHeader
  inNoffFile :: word32
  out :: "byte list"

definition coff_read :: "byte list \<Rightarrow> nat \<Rightarrow> nat \<Rightarrow> coff_error + byte list" where
  "coff_read f pos n = (if pos + n \<le> length f then Inr (take n (drop pos f)) else Inl TooShort)"

text \<open>Seeking to the section, reading it, and appending it to the output; a seek to a negative position fails and changes nothing.\<close>

definition copy_section :: "byte list \<Rightarrow> scnhdr \<Rightarrow> conversion \<Rightarrow> (coff_error + conversion) option" where
  "copy_section f sec c = do {
     ASSERT (0 \<le> sint (s_size sec));
     let pos = (if 0 \<le> sint (s_scnptr sec) then unat (s_scnptr sec) else in_pos c);
     (case coff_read f pos (unat (s_size sec)) of
        Inl e \<Rightarrow> Some (Inl e)
      | Inr bs \<Rightarrow> Some (Inr (c\<lparr>in_pos := pos + length bs, out := out c @ bs, inNoffFile := inNoffFile c + s_size sec\<rparr>))) }"

definition convert_section :: "byte list \<Rightarrow> scnhdr \<Rightarrow> conversion \<Rightarrow> (coff_error + conversion) option" where
  "convert_section f sec c =
     (if s_size sec = 0 then Some (Inr c)
      else if section_named text_name sec then
        copy_section f sec (c\<lparr>noffH := (noffH c)\<lparr>code_seg := \<lparr>virtualAddr = s_paddr sec, inFileAddr = inNoffFile c, seg_size = s_size sec\<rparr>\<rparr>\<rparr>)
      else if section_named data_name sec \<or> section_named rdata_name sec then
        (if seg_size (initData (noffH c)) \<noteq> 0 then Some (Inl BothData)
         else copy_section f sec
           (c\<lparr>noffH := (noffH c)\<lparr>initData := \<lparr>virtualAddr = s_paddr sec, inFileAddr = inNoffFile c, seg_size = s_size sec\<rparr>\<rparr>\<rparr>))
      else if section_named bss_name sec \<or> section_named sbss_name sec then
        (let g = uninitData (noffH c) in
         if seg_size g \<noteq> 0 then
           (if s_paddr sec = virtualAddr g + seg_size g then Some (Inl BothBss)
            else Some (Inr (c\<lparr>noffH := (noffH c)\<lparr>uninitData := g\<lparr>seg_size := seg_size g + s_size sec\<rparr>\<rparr>\<rparr>)))
         else Some (Inr (c\<lparr>noffH := (noffH c)\<lparr>uninitData := g\<lparr>virtualAddr := s_paddr sec, seg_size := s_size sec\<rparr>\<rparr>\<rparr>)))
      else Some (Inl UnknownSegment))"

fun convert_sections :: "byte list \<Rightarrow> scnhdr list \<Rightarrow> conversion \<Rightarrow> (coff_error + conversion) option" where
  "convert_sections f [] c = Some (Inr c)"
| "convert_sections f (sec # secs) c = do {
     r \<leftarrow> convert_section f sec c;
     (case r of Inl e \<Rightarrow> Some (Inl e) | Inr c1 \<Rightarrow> convert_sections f secs c1) }"

definition segment_bytes :: "Segment \<Rightarrow> byte list" where
  "segment_bytes g = bytes_of_word (virtualAddr g) @ bytes_of_word (inFileAddr g) @ bytes_of_word (seg_size g)"

definition noff_bytes :: "NoffHeader \<Rightarrow> byte list" where
  "noff_bytes h = bytes_of_word (noffMagic h) @ segment_bytes (code_seg h) @ segment_bytes (initData h) @ segment_bytes (uninitData h)"

text \<open>The header before the first section; \<open>junk\<close> is the local variable, of which only the sizes are initialised.\<close>

definition empty_header :: "NoffHeader \<Rightarrow> NoffHeader" where
  "empty_header junk = \<lparr>noffMagic = NOFFMAGIC, code_seg = (code_seg junk)\<lparr>seg_size := 0\<rparr>, initData = (initData junk)\<lparr>seg_size := 0\<rparr>,
     uninitData = (uninitData junk)\<lparr>seg_size := 0\<rparr>\<rparr>"

definition coff_sections :: "byte list \<Rightarrow> scnhdr list" where
  "coff_sections f =
     map (\<lambda>i. scnhdr_of_bytes (take scnhdr_size (drop (filehdr_size + aouthdr_size + i * scnhdr_size) f))) [0..<short_at f 2]"

definition coff2noff :: "NoffHeader \<Rightarrow> byte list \<Rightarrow> (coff_error + byte list) option" where
  "coff2noff junk f =
     (case coff_read f 0 filehdr_size of
        Inl e \<Rightarrow> Some (Inl e)
      | Inr fileh \<Rightarrow>
          if short_at fileh 0 \<noteq> MIPSELMAGIC then Some (Inl NotMipsel)
          else (case coff_read f filehdr_size aouthdr_size of
             Inl e \<Rightarrow> Some (Inl e)
           | Inr systemh \<Rightarrow>
               if short_at systemh 0 \<noteq> OMAGIC then Some (Inl NotOmagic)
               else
                 (let numsections = short_at fileh 2; start = filehdr_size + aouthdr_size in
                  case coff_read f start (numsections * scnhdr_size) of
                    Inl e \<Rightarrow> Some (Inl e)
                  | Inr bs \<Rightarrow> do {
                      r \<leftarrow> convert_sections f (coff_sections f)
                        \<lparr>in_pos = start + length bs, noffH = empty_header junk, inNoffFile = 40, out = []\<rparr>;
                      (case r of
                         Inl e \<Rightarrow> Some (Inl e)
                       | Inr c \<Rightarrow> Some (Inr (noff_bytes (noffH c) @ out c))) })))"

section \<open>The segments are the sections\<close>

definition section_bytes :: "byte list \<Rightarrow> scnhdr \<Rightarrow> byte list" where
  "section_bytes f sec = take (unat (s_size sec)) (drop (unat (s_scnptr sec)) f)"

definition named_one_of :: "byte list list \<Rightarrow> scnhdr \<Rightarrow> bool" where
  "named_one_of names sec \<longleftrightarrow> s_size sec \<noteq> 0 \<and> (\<exists>n \<in> set names. section_named n sec)"

text \<open>A segment that is not empty comes from a section: its address and size, and its bytes in what has been written.\<close>

definition segment_from :: "byte list \<Rightarrow> scnhdr list \<Rightarrow> byte list list \<Rightarrow> byte list \<Rightarrow> Segment \<Rightarrow> bool" where
  "segment_from f secs names bs g \<longleftrightarrow> (if seg_size g = 0 then \<forall>sec \<in> set secs. \<not> named_one_of names sec
     else \<exists>sec \<in> set secs. \<exists>pos. named_one_of names sec \<and> g = \<lparr>virtualAddr = s_paddr sec, inFileAddr = of_nat (40 + pos), seg_size = s_size sec\<rparr>
       \<and> 0 \<le> sint (s_size sec) \<and> pos + unat (s_size sec) \<le> length bs
       \<and> (0 \<le> sint (s_scnptr sec) \<longrightarrow> unat (s_scnptr sec) + unat (s_size sec) \<le> length f
          \<and> take (unat (s_size sec)) (drop pos bs) = section_bytes f sec))"

definition converted :: "byte list \<Rightarrow> scnhdr list \<Rightarrow> conversion \<Rightarrow> bool" where
  "converted f secs c \<longleftrightarrow> inNoffFile c = of_nat (40 + length (out c)) \<and> noffMagic (noffH c) = NOFFMAGIC
     \<and> segment_from f secs [text_name] (out c) (code_seg (noffH c)) \<and> segment_from f secs [data_name, rdata_name] (out c) (initData (noffH c))
     \<and> seg_size (uninitData (noffH c)) = sum_list (map s_size (filter (named_one_of [bss_name, sbss_name]) secs))"

lemma segment_from_more:
  assumes "segment_from f secs names bs g" "\<not> named_one_of names sec"
  shows "segment_from f (secs @ [sec]) names (bs @ more_bytes) g"
  using assms unfolding segment_from_def by (auto split: if_splits intro!: bexI)

lemma segment_fromI:
  assumes "sec \<in> set secs" "named_one_of names sec" "0 \<le> sint (s_size sec)" "pos + unat (s_size sec) \<le> length bs"
    "0 \<le> sint (s_scnptr sec) \<Longrightarrow> unat (s_scnptr sec) + unat (s_size sec) \<le> length f \<and> take (unat (s_size sec)) (drop pos bs) = section_bytes f sec"
  shows "segment_from f secs names bs \<lparr>virtualAddr = s_paddr sec, inFileAddr = of_nat (40 + pos), seg_size = s_size sec\<rparr>"
proof -
  have "s_size sec \<noteq> 0" using assms(2) by (simp add: named_one_of_def)
  then show ?thesis using assms unfolding segment_from_def by (subst if_not_P) (simp, blast)
qed

lemma section_named_unique: "section_named n sec \<Longrightarrow> section_named n' sec \<Longrightarrow> n = n'"
  by (simp add: section_named_def)

lemma names_differ:
  "text_name \<noteq> data_name" "text_name \<noteq> rdata_name" "text_name \<noteq> bss_name" "text_name \<noteq> sbss_name" "data_name \<noteq> bss_name" "data_name \<noteq> sbss_name"
  "rdata_name \<noteq> bss_name" "rdata_name \<noteq> sbss_name"
  by (simp_all add: section_names)

lemma copy_section_segment:
  assumes "copy_section f sec c = Some (Inr c')" "inNoffFile c = of_nat (40 + length (out c))" "s_size sec \<noteq> 0" "named_one_of names sec"
  shows "\<exists>bs. out c' = out c @ bs \<and> inNoffFile c' = of_nat (40 + length (out c')) \<and> noffH c' = noffH c
    \<and> segment_from f (secs @ [sec]) names (out c') \<lparr>virtualAddr = s_paddr sec, inFileAddr = inNoffFile c, seg_size = s_size sec\<rparr>"
proof -
  let ?n = "unat (s_size sec)" and ?pos = "if 0 \<le> sint (s_scnptr sec) then unat (s_scnptr sec) else in_pos c"
  have p: "0 \<le> sint (s_size sec)" "?pos + ?n \<le> length f" "out c' = out c @ take ?n (drop ?pos f)" "inNoffFile c' = inNoffFile c + s_size sec"
    "noffH c' = noffH c"
    using assms(1) by (auto simp: copy_section_def coff_read_def Let_def bind_eq_Some_conv split: sum.splits if_splits)
  have l: "length (take ?n (drop ?pos f)) = ?n" using p(2) by simp
  have "segment_from f (secs @ [sec]) names (out c') \<lparr>virtualAddr = s_paddr sec, inFileAddr = of_nat (40 + length (out c)), seg_size = s_size sec\<rparr>"
    using assms(3,4) p(1-3) l by (intro segment_fromI) (auto simp: section_bytes_def)
  then have "segment_from f (secs @ [sec]) names (out c') \<lparr>virtualAddr = s_paddr sec, inFileAddr = inNoffFile c, seg_size = s_size sec\<rparr>"
    using assms(2) by (simp del: of_nat_add)
  moreover have "inNoffFile c' = of_nat (40 + length (out c'))" using p(3,4) l assms(2) by simp
  ultimately show ?thesis using p(3,5) by blast
qed

lemma named_cases:
  assumes "s_size sec \<noteq> 0"
  shows "section_named text_name sec \<Longrightarrow> named_one_of [text_name] sec \<and> \<not> named_one_of [data_name, rdata_name] sec \<and> \<not> named_one_of [bss_name, sbss_name] sec"
    "section_named data_name sec \<or> section_named rdata_name sec \<Longrightarrow>
      named_one_of [data_name, rdata_name] sec \<and> \<not> named_one_of [text_name] sec \<and> \<not> named_one_of [bss_name, sbss_name] sec"
    "section_named bss_name sec \<or> section_named sbss_name sec \<Longrightarrow>
      named_one_of [bss_name, sbss_name] sec \<and> \<not> named_one_of [text_name] sec \<and> \<not> named_one_of [data_name, rdata_name] sec"
  using assms names_differ section_named_unique [of _ sec] by (auto simp: named_one_of_def)

lemma convert_section_keeps:
  assumes "convert_section f sec c = Some (Inr c')" "converted f secs c"
  shows "converted f (secs @ [sec]) c'"
proof (cases "s_size sec = 0")
  case True
  then have "\<not> named_one_of names sec" for names by (simp add: named_one_of_def)
  with True assms segment_from_more [where more_bytes = "[]"] show ?thesis by (simp add: convert_section_def converted_def)
next
  case False
  note c = assms(2) [unfolded converted_def]
  have position: "inNoffFile (c\<lparr>noffH := h\<rparr>) = of_nat (40 + length (out (c\<lparr>noffH := h\<rparr>)))" for h using c by simp
  consider (code) "section_named text_name sec" | (data) "section_named data_name sec \<or> section_named rdata_name sec"
    | (bss) "section_named bss_name sec \<or> section_named sbss_name sec" "\<not> section_named text_name sec" "\<not> (section_named data_name sec \<or> section_named rdata_name sec)"
    using assms(1) False by (auto simp: convert_section_def split: if_splits)
  then show ?thesis
  proof cases
    case code
    note n = named_cases(1) [OF False code]
    let ?c = "c\<lparr>noffH := (noffH c)\<lparr>code_seg := \<lparr>virtualAddr = s_paddr sec, inFileAddr = inNoffFile c, seg_size = s_size sec\<rparr>\<rparr>\<rparr>"
    have "copy_section f sec ?c = Some (Inr c')" using assms(1) code False by (simp add: convert_section_def)
    from copy_section_segment [OF this position False n [THEN conjunct1], of secs] c n show ?thesis
      by (auto simp: converted_def intro: segment_from_more)
  next
    case data
    note n = named_cases(2) [OF False data]
    let ?c = "c\<lparr>noffH := (noffH c)\<lparr>initData := \<lparr>virtualAddr = s_paddr sec, inFileAddr = inNoffFile c, seg_size = s_size sec\<rparr>\<rparr>\<rparr>"
    have "\<not> section_named text_name sec" using data names_differ section_named_unique by metis
    then have "copy_section f sec ?c = Some (Inr c')" using assms(1) data False by (auto simp: convert_section_def split: if_splits)
    from copy_section_segment [OF this position False n [THEN conjunct1], of secs] c n show ?thesis
      by (auto simp: converted_def intro: segment_from_more)
  next
    case bss
    note n = named_cases(3) [OF False bss(1)]
    have "out c' = out c" "inNoffFile c' = inNoffFile c" "noffMagic (noffH c') = noffMagic (noffH c)" "code_seg (noffH c') = code_seg (noffH c)"
      "initData (noffH c') = initData (noffH c)" "seg_size (uninitData (noffH c')) = seg_size (uninitData (noffH c)) + s_size sec"
      using assms(1) bss False by (auto simp: convert_section_def Let_def split: if_splits)
    with c n segment_from_more [where more_bytes = "[]"] show ?thesis by (simp add: converted_def)
  qed
qed

lemma convert_sections_keep:
  "convert_sections f secs c = Some (Inr c') \<Longrightarrow> converted f before c \<Longrightarrow> converted f (before @ secs) c'"
proof (induction secs arbitrary: c before)
  case (Cons sec secs)
  from Cons.prems(1) obtain r where r: "convert_section f sec c = Some r" by (auto simp: bind_eq_Some_conv)
  with Cons.prems(1) obtain c1 where c1: "convert_section f sec c = Some (Inr c1)" "convert_sections f secs c1 = Some (Inr c')" by (cases r) auto
  from Cons.IH [OF c1(2) convert_section_keeps [OF c1(1) Cons.prems(2)]] show ?case by simp
qed simp

lemma word_of_words:
  assumes "i < length ws"
  shows "word_of_bytes (concat (map bytes_of_word ws) @ rest) (4 * i) = ws ! i"
proof -
  have "length (concat (map bytes_of_word (take i ws))) = 4 * i" using assms by (induction ws arbitrary: i) (auto simp: take_Cons' length_concat comp_def sum_list_triv)
  moreover have "concat (map bytes_of_word ws) = concat (map bytes_of_word (take i ws)) @ bytes_of_word (ws ! i) @ concat (map bytes_of_word (drop (Suc i) ws))"
    using assms by (subst id_take_nth_drop [OF assms]) simp
  ultimately show ?thesis by (intro word_of_bytes_of_word [of _ _ _ "concat (map bytes_of_word (drop (Suc i) ws)) @ rest"]) simp
qed

lemma noff_round_trip: "header_of_bytes (noff_bytes h @ rest) = h"
proof -
  let ?ws = "[noffMagic h, virtualAddr (code_seg h), inFileAddr (code_seg h), seg_size (code_seg h), virtualAddr (initData h), inFileAddr (initData h),
    seg_size (initData h), virtualAddr (uninitData h), inFileAddr (uninitData h), seg_size (uninitData h)]"
  have b: "noff_bytes h = concat (map bytes_of_word ?ws)" by (simp add: noff_bytes_def segment_bytes_def)
  have w: "word_of_bytes (noff_bytes h @ rest) k = ?ws ! (k div 4)" if "k mod 4 = 0" "k div 4 < 10" for k
  proof -
    have "4 * (k div 4) = k" using that(1) by auto
    then show ?thesis using word_of_words [of "k div 4" ?ws rest] that(2) unfolding b by (simp del: concat.simps list.map)
  qed
  show ?thesis unfolding header_of_bytes_def Let_def by (simp add: w)
qed

lemma length_noff_bytes [simp]: "length (noff_bytes h) = 40"
  by (simp add: noff_bytes_def segment_bytes_def)

lemma coff2noff_converts:
  assumes "coff2noff junk f = Some (Inr f')"
  obtains c where "f' = noff_bytes (noffH c) @ out c" "converted f (coff_sections f) c" "noffMagic (noffH c) = NOFFMAGIC"
proof -
  obtain fileh where r1: "coff_read f 0 filehdr_size = Inr fileh" "short_at fileh 0 = MIPSELMAGIC"
    using assms by (cases "coff_read f 0 filehdr_size") (auto simp: coff2noff_def split: if_splits)
  obtain systemh where r2: "coff_read f filehdr_size aouthdr_size = Inr systemh" "short_at systemh 0 = OMAGIC"
    using assms r1 by (cases "coff_read f filehdr_size aouthdr_size") (auto simp: coff2noff_def split: if_splits)
  obtain bs where r3: "coff_read f (filehdr_size + aouthdr_size) (short_at fileh 2 * scnhdr_size) = Inr bs"
    using assms r1 r2 by (cases "coff_read f (filehdr_size + aouthdr_size) (short_at fileh 2 * scnhdr_size)") (auto simp: coff2noff_def Let_def)
  define pos where "pos = filehdr_size + aouthdr_size + length bs"
  obtain r where "convert_sections f (coff_sections f) \<lparr>in_pos = pos, noffH = empty_header junk, inNoffFile = 40, out = []\<rparr> = Some r"
    "(case r of Inl e \<Rightarrow> Some (Inl e) | Inr c \<Rightarrow> Some (Inr (noff_bytes (noffH c) @ out c))) = Some (Inr f')"
    using assms r1 r2 r3 unfolding pos_def by (auto simp: coff2noff_def Let_def bind_eq_Some_conv)
  then obtain c where c: "convert_sections f (coff_sections f) \<lparr>in_pos = pos, noffH = empty_header junk, inNoffFile = 40, out = []\<rparr> = Some (Inr c)"
    "f' = noff_bytes (noffH c) @ out c" by (cases r) auto
  have "converted f [] \<lparr>in_pos = pos, noffH = empty_header junk, inNoffFile = 40, out = []\<rparr>"
    by (simp add: converted_def empty_header_def segment_from_def)
  from convert_sections_keep [OF c(1) this] c(2) that show ?thesis by (auto simp: converted_def)
qed

lemma read_noff_header:
  assumes "noffMagic h = NOFFMAGIC"
  shows "read_header False junk (noff_bytes h @ rest) = Some h"
  using assms by (simp add: read_header_def ReadAt_stub_def noff_round_trip Let_def)

text \<open>The code segment of the executable when exactly one section has code.\<close>

lemma only_text_section:
  assumes "converted f secs c" "sec \<in> set secs" "named_one_of [text_name] sec" "\<forall>x \<in> set secs. named_one_of [text_name] x \<longrightarrow> x = sec"
    "0 \<le> sint (s_scnptr sec)" "length (out c) < 2 ^ 31 - 40"
  obtains pos where "code_seg (noffH c) = \<lparr>virtualAddr = s_paddr sec, inFileAddr = of_nat (40 + pos), seg_size = s_size sec\<rparr>" "0 < sint (s_size sec)"
    "pos + unat (s_size sec) \<le> length (out c)" "unat (of_nat (40 + pos) :: word32) = 40 + pos"
    "\<And>i. i < unat (s_size sec) \<Longrightarrow> out c ! (pos + i) = f ! (unat (s_scnptr sec) + i)"
proof -
  have "segment_from f secs [text_name] (out c) (code_seg (noffH c))" using assms(1) by (simp add: converted_def)
  then obtain x pos where x: "x \<in> set secs" "named_one_of [text_name] x" "0 \<le> sint (s_size x)" "pos + unat (s_size x) \<le> length (out c)"
    "code_seg (noffH c) = \<lparr>virtualAddr = s_paddr x, inFileAddr = of_nat (40 + pos), seg_size = s_size x\<rparr>"
    "0 \<le> sint (s_scnptr x) \<longrightarrow> unat (s_scnptr x) + unat (s_size x) \<le> length f \<and> take (unat (s_size x)) (drop pos (out c)) = section_bytes f x"
    using assms(2,3) unfolding segment_from_def by (auto split: if_splits)
  have sec: "x = sec" using x(1,2) assms(4) by blast
  have "s_size sec \<noteq> 0" using assms(3) by (simp add: named_one_of_def)
  then have "0 < sint (s_size sec)" using x(3) sec by (simp add: order_less_le signed_eq_0_iff)
  moreover have "unat (of_nat (40 + pos) :: word32) = 40 + pos" using x(4) assms(6) by (simp add: unat_of_nat take_bit_nat_eq_self del: of_nat_add)
  moreover have "out c ! (pos + i) = f ! (unat (s_scnptr sec) + i)" if i: "i < unat (s_size sec)" for i
  proof -
    have "take (unat (s_size sec)) (drop pos (out c)) ! i = section_bytes f sec ! i" using x(6) assms(5) sec by simp
    then show ?thesis using i x(4,6) sec assms(5) by (simp add: section_bytes_def)
  qed
  ultimately show ?thesis using that x(4,5) sec by blast
qed

section \<open>Property of the conversion\<close>

text \<open>C11. A compiled program is in memory as it was compiled. A COFF file with exactly one section of code, linked at address 0 and with contents in the file, and no section
  of initialised or read-only data is converted by \<open>coff2noff\<close> into a file of less than 2 GB, and the constructor of the address space, on a bitmap of any size, such as the
  256 bits of the kernel, accepts it without writing outside of the memory of the machine. Then the program, on a machine without TLB, reads at every virtual address of
  its code that lies in the address space the byte of that section in the COFF file.\<close>

theorem compiled_program_in_memory:
  assumes "coff2noff noff_junk f = Some (Inr f')" "length f' < 2 ^ 31" "sec \<in> set (coff_sections f)" "named_one_of [text_name] sec"
    "\<forall>x \<in> set (coff_sections f). (named_one_of [text_name] x \<longrightarrow> x = sec) \<and> \<not> named_one_of [data_name, rdata_name] x"
    "s_paddr sec = 0" "0 \<le> sint (s_scnptr sec)"
    "wf_bitmap (gPhysPageBitMap s)" "numBits (gPhysPageBitMap s) \<le> 2147483648" "AddrSpace_open False junk (Some f') s = Some (Loaded sp s')"
    "tlb m = None" "mainMemory m = memory s'" "unat a < unat (s_size sec)" "unat a div PageSize < numPages sp"
  shows "\<exists>m'. ReadMem (RestoreState sp m) a 1 = Some (Inr (scast (f ! (unat (s_scnptr sec) + unat a)), m'))"
proof -
  from assms(1) obtain c where c: "f' = noff_bytes (noffH c) @ out c" "converted f (coff_sections f) c" "noffMagic (noffH c) = NOFFMAGIC"
    by (rule coff2noff_converts)
  let ?h = "noffH c"
  have "length (out c) < 2 ^ 31 - 40" using assms(2) c(1) by simp
  from only_text_section [OF c(2) assms(3,4) _ assms(7) this] assms(5) obtain pos where
    g: "code_seg ?h = \<lparr>virtualAddr = s_paddr sec, inFileAddr = of_nat (40 + pos), seg_size = s_size sec\<rparr>" "0 < sint (s_size sec)"
      "pos + unat (s_size sec) \<le> length (out c)" "unat (of_nat (40 + pos) :: word32) = 40 + pos"
      "\<And>i. i < unat (s_size sec) \<Longrightarrow> out c ! (pos + i) = f ! (unat (s_scnptr sec) + i)" by blast
  have "segment_from f (coff_sections f) [data_name, rdata_name] (out c) (initData ?h)" using c(2) by (simp add: converted_def)
  then have i: "seg_size (initData ?h) = 0" using assms(5) unfolding segment_from_def by (auto split: if_splits)
  have p: "file_pos (code_seg ?h) (unat a div PageSize) (unat a mod PageSize) = 40 + pos + unat a"
  proof -
    have "unat a div PageSize * PageSize \<le> unat a" "length (out c) < 2147483648" using assms(2) c(1) by simp_all
    then have "40 + pos + unat a div PageSize * PageSize < 4294967296" using g(3) assms(13) by linarith
    then have "unat (of_nat (40 + pos + unat a div PageSize * PageSize) :: word32) = 40 + pos + unat a div PageSize * PageSize"
      by (simp add: unat_of_nat del: of_nat_add)
    then show ?thesis using g(1) by (simp add: file_pos_def add.assoc [symmetric])
  qed
  have "f' ! (40 + pos + unat a) = f ! (unat (s_scnptr sec) + unat a)" using c(1) g(5) assms(13) by (simp add: nth_append add.assoc)
  moreover have "40 + pos + unat a < length f'" using c(1) g(3) assms(13) by simp
  ultimately show ?thesis
    using loaded_program_is_file [OF assms(8-10) read_noff_header [OF c(3), of junk "out c", folded c(1)] _ _ _ assms(11,12,14)] g(1,2) i assms(6) p by simp
qed

definition sample_scnhdr :: "byte list" where
  "sample_scnhdr = [46, 116, 101, 120, 116, 0, 0, 0, 0, 0, 0, 0, 0, 0, 0, 0, 4, 0, 0, 0, 116, 0, 0, 0] @ replicate 16 0"

definition sample_coff :: "byte list" where
  "sample_coff = [0x62, 1, 1, 0] @ replicate 16 0 @ [7, 1] @ replicate 54 0 @ sample_scnhdr @ [11, 22, 33, 44]"

definition sample_section :: scnhdr where
  "sample_section = \<lparr>s_name = [46, 116, 101, 120, 116, 0, 0, 0], s_paddr = 0, s_size = 4, s_scnptr = 116\<rparr>"

lemma sample_sections: "coff_sections sample_coff = [sample_section]"
proof -
  have "short_at sample_coff 2 = 1" by (simp add: short_at_def sample_coff_def)
  moreover have "take scnhdr_size (drop (filehdr_size + aouthdr_size) sample_coff) = sample_scnhdr"
    by (simp add: scnhdr_size_def filehdr_size_def aouthdr_size_def sample_coff_def sample_scnhdr_def)
  moreover have "scnhdr_of_bytes sample_scnhdr = sample_section"
    by (simp add: scnhdr_of_bytes_def sample_section_def sample_scnhdr_def WordToHost_def word_of_bytes_def load32_def)
  ultimately show ?thesis by (simp add: coff_sections_def)
qed

lemma sample_text: "section_named text_name sample_section" "named_one_of [text_name] sample_section" "\<not> named_one_of [data_name, rdata_name] sample_section"
  by (simp_all add: section_named_def named_one_of_def section_names sample_section_def)

lemma sample_converts: "coff2noff code_header sample_coff = Some (Inr code_file)"
proof -
  let ?c = "\<lparr>in_pos = 116, noffH = empty_header code_header, inNoffFile = 40, out = []\<rparr>"
  have r: "coff_read sample_coff 0 filehdr_size = Inr ([0x62, 1, 1, 0] @ replicate 16 0)"
    "coff_read sample_coff filehdr_size aouthdr_size = Inr ([7, 1] @ replicate 54 0)"
    "coff_read sample_coff 76 40 = Inr sample_scnhdr" "coff_read sample_coff 116 4 = Inr [11, 22, 33, 44]"
    by (simp_all add: coff_read_def filehdr_size_def aouthdr_size_def sample_coff_def sample_scnhdr_def)
  have "convert_section sample_coff sample_section ?c = Some (Inr \<lparr>in_pos = 120, noffH = code_header, inNoffFile = 44, out = [11, 22, 33, 44]\<rparr>)"
    using r(4) sample_text(1)
    by (simp add: convert_section_def copy_section_def sample_section_def empty_header_def code_header_def Let_def)
  moreover have "noff_bytes code_header @ [11, 22, 33, 44] = code_file"
  proof -
    have "replicate 4 (0 :: byte) = [0, 0, 0, 0]" "replicate 24 (0 :: byte) = [0, 0, 0, 0, 0, 0, 0, 0, 0, 0, 0, 0, 0, 0, 0, 0, 0, 0, 0, 0, 0, 0, 0, 0]"
      by (simp_all add: eval_nat_numeral)
    then show ?thesis by (simp add: noff_bytes_def segment_bytes_def bytes_of_word_def code_header_def code_file_def NOFFMAGIC_def)
  qed
  ultimately show ?thesis
    using r(1-3) sample_sections by (simp add: coff2noff_def short_at_def MIPSELMAGIC_def OMAGIC_def Let_def filehdr_size_def aouthdr_size_def
      scnhdr_size_def sample_scnhdr_def)
qed

theorem compiled_program_in_memory_witness:
  "\<exists>f' sp s' m'. coff2noff code_header sample_coff = Some (Inr f') \<and> AddrSpace_open False [] (Some f') empty_frames = Some (Loaded sp s')
     \<and> ReadMem (RestoreState sp ((Machine_new 0 0 False)\<lparr>mainMemory := memory s'\<rparr>)) 2 1 = Some (Inr (33, m'))"
proof -
  from code_load obtain sp s' where l: "AddrSpace_open False [] (Some code_file) empty_frames = Some (Loaded sp s')" "numPages sp = 3" by blast
  have s: "length code_file < 2 ^ 31" "sample_section \<in> set (coff_sections sample_coff)" "s_paddr sample_section = 0"
    "0 \<le> sint (s_scnptr sample_section)" "unat (2 :: word32) < unat (s_size sample_section)" "unat (2 :: word32) div PageSize < numPages sp"
    using l(2) by (simp_all add: code_file_def sample_sections sample_section_def machine_sizes)
  have u: "\<forall>x \<in> set (coff_sections sample_coff). (named_one_of [text_name] x \<longrightarrow> x = sample_section) \<and> \<not> named_one_of [data_name, rdata_name] x"
    using sample_text(3) by (simp add: sample_sections)
  let ?m = "(Machine_new 0 0 False)\<lparr>mainMemory := memory s'\<rparr>"
  have m: "tlb ?m = None" "mainMemory ?m = memory s'" by (simp_all add: Machine_new_def)
  have "sample_coff ! (unat (s_scnptr sample_section) + unat (2 :: word32)) = 33"
    by (simp add: sample_section_def sample_coff_def sample_scnhdr_def nth_append)
  with compiled_program_in_memory [OF sample_converts s(1,2) sample_text(2) u s(3,4) empty_frames_wf l(1) m s(5,6)] sample_converts l(1)
  show ?thesis by auto
qed

end
