(* ===== verification/Coff_Flat.thy ===== *)
theory Coff_Flat
  imports Coff_Noff
begin

text \<open>
  bin/coff2flat.c: the tool that converts a COFF file into the image of a program's memory. It reads the same structures as bin/coff2noff.c, so
  their definitions are those of theory \<open>Coff_Noff\<close>; the conventions on files, messages and results are the same.
\<close>

section \<open>The conversion\<close>

definition flat_StackSize :: int where "flat_StackSize = 1024"

text \<open>The position in the input, the variable \<^verbatim>\<open>top\<close>, and what has been written.\<close>

record flat =
  flat_pos :: nat
  top_address :: int
  flat_out :: "byte list"

text \<open>Writing at a position; the host fills the gap after the end of the file with zeros.\<close>

definition write_at :: "byte list \<Rightarrow> nat \<Rightarrow> byte list \<Rightarrow> byte list" where
  "write_at bs pos data = take pos (bs @ replicate (pos - length bs) 0) @ data @ drop (pos + length data) bs"

definition no_copy :: "scnhdr \<Rightarrow> bool" where
  "no_copy sec \<longleftrightarrow> section_named bss_name sec \<or> section_named sbss_name sec"

definition flat_section :: "byte list \<Rightarrow> scnhdr \<Rightarrow> flat \<Rightarrow> (coff_error + flat) option" where
  "flat_section f sec c =
     (let finish = sint (s_paddr sec + s_size sec); c1 = (if finish > top_address c then c\<lparr>top_address := finish\<rparr> else c) in
      if no_copy sec then Some (Inr c1)
      else do {
        ASSERT (0 \<le> sint (s_size sec));
        let pos = (if 0 \<le> sint (s_scnptr sec) then unat (s_scnptr sec) else flat_pos c1);
        (case coff_read f pos (unat (s_size sec)) of
           Inl e \<Rightarrow> Some (Inl e)
         | Inr bs \<Rightarrow> Some (Inr (c1\<lparr>flat_pos := pos + length bs, flat_out := flat_out c1 @ bs\<rparr>))) })"

fun flat_sections :: "byte list \<Rightarrow> scnhdr list \<Rightarrow> flat \<Rightarrow> (coff_error + flat) option" where
  "flat_sections f [] c = Some (Inr c)"
| "flat_sections f (sec # secs) c = do {
     r \<leftarrow> flat_section f sec c;
     (case r of Inl e \<Rightarrow> Some (Inl e) | Inr c1 \<Rightarrow> flat_sections f secs c1) }"

text \<open>The word at the end of the stack; a seek to a negative position fails and the word follows the last section.\<close>

definition add_stack :: "flat \<Rightarrow> byte list" where
  "add_stack c = (let pos = top_address c + flat_StackSize - 4 in
     write_at (flat_out c) (if 0 \<le> pos then nat pos else length (flat_out c)) [0, 0, 0, 0])"

definition coff2flat :: "byte list \<Rightarrow> (coff_error + byte list) option" where
  "coff2flat f =
     (case coff_read f 0 filehdr_size of
        Inl e \<Rightarrow> Some (Inl e)
      | Inr fileh \<Rightarrow>
          if short_at fileh 0 \<noteq> MIPSELMAGIC then Some (Inl NotMipsel)
          else (case coff_read f filehdr_size aouthdr_size of
             Inl e \<Rightarrow> Some (Inl e)
           | Inr systemh \<Rightarrow>
               if short_at systemh 0 \<noteq> OMAGIC then Some (Inl NotOmagic)
               else
                 (let numsections = short_at fileh 2; start = filehdr_size + aouthdr_size in
                  case coff_read f start (numsections * scnhdr_size) of
                    Inl e \<Rightarrow> Some (Inl e)
                  | Inr bs \<Rightarrow> do {
                      r \<leftarrow> flat_sections f (coff_sections f) \<lparr>flat_pos = start + length bs, top_address = 0, flat_out = []\<rparr>;
                      (case r of Inl e \<Rightarrow> Some (Inl e) | Inr c \<Rightarrow> Some (Inr (add_stack c))) })))"

section \<open>The image\<close>

definition copied_bytes :: "byte list \<Rightarrow> scnhdr list \<Rightarrow> byte list" where
  "copied_bytes f secs = concat (map (section_bytes f) (filter (\<lambda>sec. \<not> no_copy sec) secs))"

fun top_of :: "int \<Rightarrow> scnhdr list \<Rightarrow> int" where
  "top_of t [] = t"
| "top_of t (sec # secs) = top_of (max t (sint (s_paddr sec + s_size sec))) secs"

text \<open>The sections follow each other in the image, whatever their addresses are.\<close>

lemma flat_section_Inr:
  assumes "flat_section f sec c = Some (Inr c')" "\<not> no_copy sec \<Longrightarrow> 0 \<le> sint (s_scnptr sec)"
  shows "flat_out c' = flat_out c @ copied_bytes f [sec]" "top_address c' = max (top_address c) (sint (s_paddr sec + s_size sec))"
    "\<not> no_copy sec \<Longrightarrow> length (section_bytes f sec) = unat (s_size sec)"
  using assms by (auto simp: flat_section_def Let_def bind_eq_Some_conv coff_read_def copied_bytes_def section_bytes_def max_def split: if_splits sum.splits)

lemma flat_sections_Inr:
  assumes "flat_sections f secs c = Some (Inr c')" "\<forall>sec \<in> set secs. \<not> no_copy sec \<longrightarrow> 0 \<le> sint (s_scnptr sec)"
  shows "flat_out c' = flat_out c @ copied_bytes f secs \<and> top_address c' = top_of (top_address c) secs
    \<and> (\<forall>sec \<in> set secs. \<not> no_copy sec \<longrightarrow> length (section_bytes f sec) = unat (s_size sec))"
  using assms
proof (induction secs arbitrary: c)
  case (Cons sec secs)
  from Cons.prems(1) obtain r where r: "flat_section f sec c = Some r" by (auto simp: bind_eq_Some_conv)
  with Cons.prems(1) obtain c1 where c1: "flat_section f sec c = Some (Inr c1)" "flat_sections f secs c1 = Some (Inr c')" by (cases r) auto
  have "\<not> no_copy sec \<Longrightarrow> 0 \<le> sint (s_scnptr sec)" using Cons.prems(2) by simp
  note h = flat_section_Inr [OF c1(1) this]
  from Cons.IH [OF c1(2)] Cons.prems(2) h show ?case by (auto simp: copied_bytes_def)
qed (simp add: copied_bytes_def)

lemma coff2flat_Inr:
  assumes "coff2flat f = Some (Inr img)"
  obtains c0 c where "flat_sections f (coff_sections f) c0 = Some (Inr c)" "top_address c0 = 0" "flat_out c0 = []" "img = add_stack c"
  using assms unfolding coff2flat_def Let_def
  apply (simp add: bind_eq_Some_conv split: sum.split_asm if_split_asm)
  subgoal for x y z by (elim exE conjE) (metis flat.select_convs(2,3) sum.exhaust)
  done

lemma top_of_le: "t \<le> top_of t secs"
  by (induction secs arbitrary: t) (auto intro: order_trans [OF max.cobounded1])

lemma top_of_ge: "sec \<in> set secs \<Longrightarrow> sint (s_paddr sec + s_size sec) \<le> top_of t secs"
proof -
  show "sint (s_paddr sec + s_size sec) \<le> top_of t secs" if "sec \<in> set secs"
    using that
  proof (induction secs arbitrary: t)
    case (Cons x xs)
    then show ?case using order_trans [OF max.cobounded2 top_of_le] by auto
  qed simp
qed

lemma sint_small_sum:
  fixes x y :: word32
  assumes "unat x + unat y < 2147483648"
  shows "sint (x + y) = int (unat x + unat y)"
proof -
  have u: "unat (x + y) = unat x + unat y" using assms by (simp add: unat_word_ariths)
  then have v: "uint (x + y) = int (unat x + unat y)" by (simp only: uint_nat)
  have "int (unat x + unat y) < 2147483648" using assms by linarith
  then show ?thesis using sint_eq_uint32 [of "x + y"] unfolding v by blast
qed

text \<open>A section starts in memory where the sections copied before it end.\<close>

definition consecutive :: "byte list \<Rightarrow> scnhdr list \<Rightarrow> bool" where
  "consecutive f secs \<longleftrightarrow> (\<forall>xs sec ys. secs = xs @ sec # ys \<longrightarrow> \<not> no_copy sec \<longrightarrow>
     unat (s_paddr sec) = length (copied_bytes f xs) \<and> unat (s_paddr sec) + unat (s_size sec) < 2147483648)"

text \<open>When the linker has laid out the sections without gaps from address 0, in the order of the file, the image has every section at its address,
  and the stack above.\<close>

theorem flat_image_correct:
  assumes "coff2flat f = Some (Inr img)" "consecutive f (coff_sections f)"
    "\<forall>sec \<in> set (coff_sections f). \<not> no_copy sec \<longrightarrow> 0 \<le> sint (s_scnptr sec)"
    "sec \<in> set (coff_sections f)" "\<not> no_copy sec"
  shows "take (unat (s_size sec)) (drop (unat (s_paddr sec)) img) = section_bytes f sec
    \<and> int (length img) = top_of 0 (coff_sections f) + flat_StackSize"
proof -
  obtain c0 c where c: "flat_sections f (coff_sections f) c0 = Some (Inr c)" "top_address c0 = 0" "flat_out c0 = []" "img = add_stack c"
    using coff2flat_Inr [OF assms(1)] .
  let ?secs = "coff_sections f" and ?top = "top_of 0 (coff_sections f)"
  have o: "flat_out c = copied_bytes f ?secs" "top_address c = ?top" "\<forall>sec \<in> set ?secs. \<not> no_copy sec \<longrightarrow> length (section_bytes f sec) = unat (s_size sec)"
    using flat_sections_Inr [OF c(1) assms(3)] c(2,3) by simp_all
  have below: "length (copied_bytes f xs) \<le> nat ?top" if "?secs = xs @ ys" for xs ys
    using that
  proof (induction xs arbitrary: ys rule: rev_induct)
    case (snoc x xs)
    show ?case
    proof (cases "no_copy x")
      case True
      then show ?thesis using snoc.IH [of "x # ys"] snoc.prems by (simp add: copied_bytes_def)
    next
      case False
      have u: "unat (s_paddr x) = length (copied_bytes f xs)" "unat (s_paddr x) + unat (s_size x) < 2147483648"
        using assms(2) snoc.prems False by (auto simp: consecutive_def)
      then have "sint (s_paddr x + s_size x) = int (unat (s_paddr x) + unat (s_size x))"
        using sint_small_sum by blast
      moreover have "sint (s_paddr x + s_size x) \<le> ?top" using top_of_ge snoc.prems by simp
      moreover have "length (section_bytes f x) = unat (s_size x)" using o(3) snoc.prems False by simp
      moreover have "length (copied_bytes f (xs @ [x])) = length (copied_bytes f xs) + length (section_bytes f x)"
        using False by (simp add: copied_bytes_def)
      ultimately have "int (length (copied_bytes f (xs @ [x]))) \<le> ?top" using u(1) by presburger
      then show ?thesis by linarith
    qed
  qed (simp add: copied_bytes_def)
  have len: "length (flat_out c) \<le> nat ?top" "0 \<le> ?top" using below [of ?secs "[]"] o(1) top_of_le [of 0] by simp_all
  have img: "img = flat_out c @ replicate (nat (?top + 1020) - length (flat_out c)) 0 @ [0, 0, 0, 0]"
    using len c(4) o(2) by (simp add: add_stack_def write_at_def flat_StackSize_def Let_def nat_diff_distrib)
  obtain xs ys where s: "?secs = xs @ sec # ys" using assms(4) by (meson split_list)
  have p: "unat (s_paddr sec) = length (copied_bytes f xs)" using assms(2,5) s by (auto simp: consecutive_def)
  have "flat_out c = copied_bytes f xs @ section_bytes f sec @ copied_bytes f ys" using o(1) s assms(5) by (simp add: copied_bytes_def)
  then have "take (unat (s_size sec)) (drop (unat (s_paddr sec)) img) = section_bytes f sec" using img p o(3) assms(4,5) by simp
  moreover have "int (length img) = ?top + flat_StackSize" using img len by (simp add: flat_StackSize_def)
  ultimately show ?thesis by blast
qed

end
