(* ===== verification/Example_Stacks.thy ===== *)
theory Example_Stacks
  imports Nachos_Prelude
begin

text \<open>
  c++example/inheritstack.cc and c++example/list.cc, the example from which readers of the kernel learn its C++: an abstract class \<^verbatim>\<open>Stack\<close>, its
  implementations by an array and by a list of cells, and a self test that is written once for both. The abstract class is the locale
  \<open>stack_class\<close>; the self test is a function of the virtual methods, and its theorem is proved once in the locale.

  Integers stay far below the bounds of \<^verbatim>\<open>int\<close>. Cells of a list are in a store; \<open>fresh_cell\<close> is the next address that \<^verbatim>\<open>new\<close> returns.
\<close>

section \<open>Array stacks\<close>

record ArrayStack =
  as_size :: int
  as_top :: int
  as_stack :: "int list"

definition ArrayStack_new :: "int list \<Rightarrow> int \<Rightarrow> ArrayStack option" where
  "ArrayStack_new junk sz = do {
     ASSERT (sz \<ge> 1);
     ASSERT (int (length junk) = sz);
     Some \<lparr>as_size = sz, as_top = 0, as_stack = junk\<rparr> }"

definition ArrayStack_Full :: "ArrayStack \<Rightarrow> bool" where "ArrayStack_Full s \<longleftrightarrow> as_top s = as_size s"
definition ArrayStack_Empty :: "ArrayStack \<Rightarrow> bool" where "ArrayStack_Empty s \<longleftrightarrow> as_top s = 0"

definition ArrayStack_Push :: "int \<Rightarrow> ArrayStack \<Rightarrow> ArrayStack option" where
  "ArrayStack_Push v s = do {
     ASSERT (\<not> ArrayStack_Full s);
     a \<leftarrow> array_set (as_stack s) (nat (as_top s)) v;
     Some (s\<lparr>as_stack := a, as_top := as_top s + 1\<rparr>) }"

definition ArrayStack_Pop :: "ArrayStack \<Rightarrow> (int \<times> ArrayStack) option" where
  "ArrayStack_Pop s = do {
     ASSERT (\<not> ArrayStack_Empty s);
     v \<leftarrow> array_get (as_stack s) (nat (as_top s - 1));
     Some (v, s\<lparr>as_top := as_top s - 1\<rparr>) }"

section \<open>Lists of integers\<close>

record element =
  el_next :: "nat option"
  el_item :: int

record IntList =
  il_first :: "nat option"
  il_last :: "nat option"
  il_store :: "nat \<rightharpoonup> element"
  fresh_cell :: nat

definition IntList_new :: IntList where
  "IntList_new = \<lparr>il_first = None, il_last = None, il_store = Map.empty, fresh_cell = 0\<rparr>"

definition IntList_Empty :: "IntList \<Rightarrow> bool" where "IntList_Empty l \<longleftrightarrow> il_first l = None"

definition IntList_Prepend :: "int \<Rightarrow> IntList \<Rightarrow> IntList" where
  "IntList_Prepend v l =
     (let e = fresh_cell l; element = \<lparr>el_next = None, el_item = v\<rparr>; l1 = l\<lparr>fresh_cell := e + 1\<rparr> in
      if IntList_Empty l then l1\<lparr>il_first := Some e, il_last := Some e, il_store := (il_store l)(e \<mapsto> element)\<rparr>
      else l1\<lparr>il_first := Some e, il_store := (il_store l)(e \<mapsto> element\<lparr>el_next := il_first l\<rparr>)\<rparr>)"

definition IntList_Remove :: "IntList \<Rightarrow> (int \<times> IntList) option" where
  "IntList_Remove l = do {
     ASSERT (\<not> IntList_Empty l);
     e \<leftarrow> il_first l;
     element \<leftarrow> il_store l e;
     let l1 = (if il_first l = il_last l then l\<lparr>il_first := None, il_last := None\<rparr> else l\<lparr>il_first := el_next element\<rparr>);
     Some (el_item element, l1\<lparr>il_store := (il_store l)(e := None)\<rparr>) }"

partial_function (option) IntList_delete :: "IntList \<Rightarrow> IntList option" where
  "IntList_delete l = (if IntList_Empty l then Some l else do { (v, l1) \<leftarrow> IntList_Remove l; IntList_delete l1 })"

section \<open>List stacks\<close>

definition ListStack_new :: IntList where "ListStack_new = IntList_new"
definition ListStack_Push :: "int \<Rightarrow> IntList \<Rightarrow> IntList option" where "ListStack_Push v s = Some (IntList_Prepend v s)"
definition ListStack_Full :: "IntList \<Rightarrow> bool" where "ListStack_Full s \<longleftrightarrow> False"
definition ListStack_Empty :: "IntList \<Rightarrow> bool" where "ListStack_Empty s \<longleftrightarrow> IntList_Empty s"

definition ListStack_Pop :: "IntList \<Rightarrow> (int \<times> IntList) option" where
  "ListStack_Pop s = do { ASSERT (\<not> ListStack_Empty s); IntList_Remove s }"

section \<open>The self test\<close>

text \<open>The lines that the test prints.\<close>

datatype stack_line = Pushing int | Popping int

fun push_numbers :: "('s \<Rightarrow> bool) \<Rightarrow> (int \<Rightarrow> 's \<Rightarrow> 's option) \<Rightarrow> nat \<Rightarrow> int \<Rightarrow> 's \<Rightarrow> (stack_line list \<times> 's) option" where
  "push_numbers full push 0 k s = Some ([], s)"
| "push_numbers full push (Suc n) k s = do {
     ASSERT (\<not> full s);
     s1 \<leftarrow> push k s;
     (out, s2) \<leftarrow> push_numbers full push n (k + 1) s1;
     Some (Pushing k # out, s2) }"

partial_function (option) pop_numbers :: "('s \<Rightarrow> bool) \<Rightarrow> ('s \<Rightarrow> (int \<times> 's) option) \<Rightarrow> 's \<Rightarrow> (stack_line list \<times> 's) option" where
  "pop_numbers no_item pop s =
     (if no_item s then Some ([], s)
      else do { (v, s1) \<leftarrow> pop s; (out, s2) \<leftarrow> pop_numbers no_item pop s1; Some (Popping v # out, s2) })"

definition SelfTest ::
    "('s \<Rightarrow> bool) \<Rightarrow> ('s \<Rightarrow> bool) \<Rightarrow> (int \<Rightarrow> 's \<Rightarrow> 's option) \<Rightarrow> ('s \<Rightarrow> (int \<times> 's) option) \<Rightarrow> int \<Rightarrow> 's \<Rightarrow> (stack_line list \<times> 's) option" where
  "SelfTest full no_item push pop numToPush s = do {
     (out, s1) \<leftarrow> push_numbers full push (nat numToPush) 17 s;
     (out1, s2) \<leftarrow> pop_numbers no_item pop s1;
     Some (out @ out1, s2) }"

text \<open>\<^verbatim>\<open>main\<close>; \<open>junk\<close> is the array of the new stack.\<close>

definition stack_main :: "int list \<Rightarrow> (stack_line list \<times> stack_line list) option" where
  "stack_main junk = do {
     s1 \<leftarrow> ArrayStack_new junk 10;
     (out1, s1) \<leftarrow> SelfTest ArrayStack_Full ArrayStack_Empty ArrayStack_Push ArrayStack_Pop 10 s1;
     (out2, s2) \<leftarrow> SelfTest ListStack_Full ListStack_Empty ListStack_Push ListStack_Pop 10 ListStack_new;
     s3 \<leftarrow> IntList_delete s2;
     Some (out1, out2) }"

section \<open>The abstract class\<close>

lemma map_from: "map (\<lambda>i. f (k + int i)) [0..<Suc n] = f k # map (\<lambda>i. f (k + 1 + int i)) [0..<n]"
  unfolding upt_conv_Cons [OF zero_less_Suc] map_Suc_upt [symmetric] by (simp add: comp_def algebra_simps)

text \<open>\<open>rep s xs\<close>: the stack \<open>s\<close> holds \<open>xs\<close>, the top first, and has room for \<open>room s\<close> more at least.\<close>

locale stack_class =
  fixes full no_item :: "'s \<Rightarrow> bool" and push :: "int \<Rightarrow> 's \<Rightarrow> 's option" and pop :: "'s \<Rightarrow> (int \<times> 's) option"
    and rep :: "'s \<Rightarrow> int list \<Rightarrow> bool" and fits :: "'s \<Rightarrow> nat \<Rightarrow> bool"
  assumes empty_iff: "rep s xs \<Longrightarrow> no_item s \<longleftrightarrow> xs = []"
    and push_puts: "rep s xs \<Longrightarrow> fits s (Suc (length xs)) \<Longrightarrow> \<not> full s \<and> (\<exists>s'. push v s = Some s' \<and> rep s' (v # xs) \<and> fits s' = fits s)"
    and pop_takes: "rep s (v # xs) \<Longrightarrow> \<exists>s'. pop s = Some (v, s') \<and> rep s' xs \<and> fits s' = fits s"
    and fits_less: "fits s n \<Longrightarrow> m \<le> n \<Longrightarrow> fits s m"
begin

lemma pushes:
  assumes "rep s xs" "fits s (length xs + n)"
  shows "\<exists>s'. push_numbers full push n k s = Some (map (\<lambda>i. Pushing (k + int i)) [0..<n], s') \<and> rep s' (rev (map (\<lambda>i. k + int i) [0..<n]) @ xs) \<and> fits s' = fits s"
  using assms
proof (induction n arbitrary: s xs k)
  case (Suc n)
  have "fits s (Suc (length xs))" using fits_less [OF Suc.prems(2)] by simp
  from push_puts [OF Suc.prems(1) this, of k] obtain s1 where s1: "\<not> full s" "push k s = Some s1" "rep s1 (k # xs)" "fits s1 = fits s" by blast
  from Suc.IH [OF s1(3), of "k + 1"] s1(4) Suc.prems(2) obtain s2 where s2: "push_numbers full push n (k + 1) s1 = Some (map (\<lambda>i. Pushing (k + 1 + int i)) [0..<n], s2)"
    "rep s2 (rev (map (\<lambda>i. k + 1 + int i) [0..<n]) @ k # xs)" "fits s2 = fits s" by auto
  show ?case unfolding map_from [where f = Pushing] map_from [where f = "\<lambda>x. x"] using s1 s2 by simp
qed simp

lemma pops:
  assumes "rep s xs"
  shows "\<exists>s'. pop_numbers no_item pop s = Some (map Popping xs, s') \<and> rep s' []"
  using assms
proof (induction xs arbitrary: s)
  case Nil
  then show ?case using empty_iff [of s "[]"] by (subst pop_numbers.simps) simp
next
  case (Cons v xs)
  from pop_takes [OF Cons.prems] obtain s1 where s1: "pop s = Some (v, s1)" "rep s1 xs" by blast
  from Cons.IH [OF s1(2)] obtain s2 where "pop_numbers no_item pop s1 = Some (map Popping xs, s2)" "rep s2 []" by blast
  then show ?case using s1(1) empty_iff [OF Cons.prems] by (subst pop_numbers.simps) simp
qed

text \<open>The self test pushes the numbers from 17 on and gets them back in the opposite order.\<close>

lemma self_test:
  assumes "rep s []" "fits s (nat n)"
  shows "\<exists>s'. SelfTest full no_item push pop n s = Some (map (\<lambda>i. Pushing (17 + int i)) [0..<nat n] @ map (\<lambda>i. Popping (17 + int i)) (rev [0..<nat n]), s') \<and> rep s' []"
proof -
  from pushes [OF assms(1), of "nat n" 17] assms(2) obtain s1 where
    s1: "push_numbers full push (nat n) 17 s = Some (map (\<lambda>i. Pushing (17 + int i)) [0..<nat n], s1)" "rep s1 (rev (map (\<lambda>i. 17 + int i) [0..<nat n]))" by auto
  from pops [OF s1(2)] obtain s2 where s2: "pop_numbers no_item pop s1 = Some (map Popping (rev (map (\<lambda>i. 17 + int i) [0..<nat n])), s2)" "rep s2 []" by blast
  have "map Popping (rev (map (\<lambda>i. 17 + int i) [0..<nat n])) = map (\<lambda>i. Popping (17 + int i)) (rev [0..<nat n])" by (simp add: rev_map comp_def)
  with s1(1) s2 show ?thesis by (simp add: SelfTest_def)
qed

end

section \<open>The array implements it\<close>

definition array_rep :: "ArrayStack \<Rightarrow> int list \<Rightarrow> bool" where
  "array_rep s xs \<longleftrightarrow> as_size s = int (length (as_stack s)) \<and> as_top s = int (length xs) \<and> length xs \<le> length (as_stack s)
     \<and> take (length xs) (as_stack s) = rev xs"

definition array_fits :: "ArrayStack \<Rightarrow> nat \<Rightarrow> bool" where "array_fits s n \<longleftrightarrow> int n \<le> as_size s"

interpretation array: stack_class ArrayStack_Full ArrayStack_Empty ArrayStack_Push ArrayStack_Pop array_rep array_fits
proof
  fix s xs v
  assume r: "array_rep s xs" and f: "array_fits s (Suc (length xs))"
  let ?s = "s\<lparr>as_stack := (as_stack s)[length xs := v], as_top := as_top s + 1\<rparr>"
  have "ArrayStack_Push v s = Some ?s" "\<not> ArrayStack_Full s"
    using r f by (simp_all add: ArrayStack_Push_def ArrayStack_Full_def array_rep_def array_fits_def array_set_def)
  moreover have "array_rep ?s (v # xs)" using r f by (auto simp: array_rep_def array_fits_def take_Suc_conv_app_nth)
  moreover have "array_fits ?s = array_fits s" by (simp add: fun_eq_iff array_fits_def)
  ultimately show "\<not> ArrayStack_Full s \<and> (\<exists>s'. ArrayStack_Push v s = Some s' \<and> array_rep s' (v # xs) \<and> array_fits s' = array_fits s)" by blast
next
  fix s v xs
  assume r: "array_rep s (v # xs)"
  then have t: "length xs < length (as_stack s)" "take (length xs) (as_stack s) = rev xs" "as_stack s ! length xs = v"
    by (auto simp: array_rep_def take_Suc_conv_app_nth)
  then show "\<exists>s'. ArrayStack_Pop s = Some (v, s') \<and> array_rep s' xs \<and> array_fits s' = array_fits s"
    using r by (auto simp: ArrayStack_Pop_def ArrayStack_Empty_def array_rep_def array_fits_def array_get_def fun_eq_iff)
qed (auto simp: array_rep_def array_fits_def ArrayStack_Empty_def)

section \<open>The list implements it\<close>

text \<open>The cells from a pointer on, with their addresses and items.\<close>

fun chain :: "(nat \<rightharpoonup> element) \<Rightarrow> nat option \<Rightarrow> nat list \<Rightarrow> int list \<Rightarrow> bool" where
  "chain m p [] xs \<longleftrightarrow> p = None \<and> xs = []"
| "chain m p (a # as) xs \<longleftrightarrow> p = Some a \<and> (\<exists>q v ys. xs = v # ys \<and> m a = Some \<lparr>el_next = q, el_item = v\<rparr> \<and> chain m q as ys)"

definition cells_rep :: "IntList \<Rightarrow> int list \<Rightarrow> bool" where
  "cells_rep l xs \<longleftrightarrow> (\<exists>as. chain (il_store l) (il_first l) as xs \<and> distinct as \<and> dom (il_store l) = set as \<and> (\<forall>a \<in> set as. a < fresh_cell l)
     \<and> (as \<noteq> [] \<longrightarrow> il_last l = Some (last as)))"

lemma chain_upd: "a \<notin> set as \<Longrightarrow> chain (m(a := c)) p as xs = chain m p as xs"
  by (induction as arbitrary: p xs) auto

interpretation cells: stack_class ListStack_Full ListStack_Empty ListStack_Push ListStack_Pop cells_rep "\<lambda>s n. True"
proof
  fix s xs assume "cells_rep s xs"
  then obtain as where "chain (il_store s) (il_first s) as xs" by (auto simp: cells_rep_def)
  then show "ListStack_Empty s \<longleftrightarrow> xs = []" by (cases as) (auto simp: ListStack_Empty_def IntList_Empty_def)
next
  fix s xs v assume "cells_rep s xs"
  then obtain as where c: "chain (il_store s) (il_first s) as xs" "distinct as" "dom (il_store s) = set as" "\<forall>a \<in> set as. a < fresh_cell s"
    "as \<noteq> [] \<longrightarrow> il_last s = Some (last as)" by (auto simp: cells_rep_def)
  have n: "fresh_cell s \<notin> set as" using c(4) by blast
  have "cells_rep (IntList_Prepend v s) (v # xs)" unfolding cells_rep_def
    using c n by (intro exI [of _ "fresh_cell s # as"], cases as) (auto simp: IntList_Prepend_def IntList_Empty_def Let_def chain_upd less_SucI)
  then show "\<not> ListStack_Full s \<and> (\<exists>s'. ListStack_Push v s = Some s' \<and> cells_rep s' (v # xs) \<and> (\<lambda>n :: nat. True) = (\<lambda>n. True))"
    by (simp add: ListStack_Full_def ListStack_Push_def)
next
  fix s v xs assume "cells_rep s (v # xs)"
  then obtain bs where bs: "chain (il_store s) (il_first s) bs (v # xs)" "distinct bs" "dom (il_store s) = set bs" "\<forall>b \<in> set bs. b < fresh_cell s"
    "bs \<noteq> [] \<longrightarrow> il_last s = Some (last bs)" unfolding cells_rep_def by blast
  then obtain a as where "bs = a # as" by (cases bs) auto
  with bs obtain q where c: "il_first s = Some a" "il_store s a = Some \<lparr>el_next = q, el_item = v\<rparr>" "chain (il_store s) q as xs" "a \<notin> set as"
    "distinct as" "dom (il_store s) = insert a (set as)" "\<forall>b \<in> set as. b < fresh_cell s" "il_last s = Some (last (a # as))"
    by auto
  let ?s = "(if as = [] then s\<lparr>il_first := None, il_last := None\<rparr> else s\<lparr>il_first := q\<rparr>)\<lparr>il_store := (il_store s)(a := None)\<rparr>"
  have "il_first s = il_last s \<longleftrightarrow> as = []" using c(1,4,8) by (cases as rule: rev_cases) auto
  then have "ListStack_Pop s = Some (v, ?s)"
    using c(1,2) by (simp add: ListStack_Pop_def ListStack_Empty_def IntList_Remove_def IntList_Empty_def)
  moreover have "cells_rep ?s xs" unfolding cells_rep_def
    using c by (intro exI [of _ as]) (auto simp: chain_upd)
  ultimately show "\<exists>s'. ListStack_Pop s = Some (v, s') \<and> cells_rep s' xs \<and> (\<lambda>n :: nat. True) = (\<lambda>n. True)" by blast
qed simp

section \<open>The program\<close>

text \<open>The destructor of a list ends, and no cell is left.\<close>

lemma IntList_delete_frees:
  assumes "cells_rep l xs"
  shows "\<exists>l'. IntList_delete l = Some l' \<and> il_store l' = Map.empty"
  using assms
proof (induction xs arbitrary: l)
  case Nil
  then obtain as where "chain (il_store l) (il_first l) as []" "dom (il_store l) = set as" by (auto simp: cells_rep_def)
  then have "il_store l = Map.empty" by (cases as) auto
  then show ?case using cells.empty_iff [OF Nil] by (subst IntList_delete.simps) (simp add: ListStack_Empty_def)
next
  case (Cons v xs)
  from cells.pop_takes [OF Cons.prems] obtain l1 where l1: "ListStack_Pop l = Some (v, l1)" "cells_rep l1 xs" by blast
  have "\<not> IntList_Empty l" using cells.empty_iff [OF Cons.prems] by (simp add: ListStack_Empty_def)
  then have "IntList_delete l = IntList_delete l1"
    using l1(1) by (subst IntList_delete.simps) (simp add: ListStack_Pop_def ListStack_Empty_def)
  with Cons.IH [OF l1(2)] show ?case by simp
qed

text \<open>Both stacks pass the test: each prints the numbers 17 to 26 as they are pushed and 26 to 17 as they are popped.\<close>

theorem stacks_pass_self_test:
  assumes "length junk = 10"
  shows "stack_main junk = Some (map Pushing [17..26] @ map Popping (rev [17..26]), map Pushing [17..26] @ map Popping (rev [17..26]))"
proof -
  let ?out = "map Pushing [17..26] @ map Popping (rev [17..26])"
  have out: "map (\<lambda>i. Pushing (17 + int i)) [0..<nat 10] @ map (\<lambda>i. Popping (17 + int i)) (rev [0..<nat 10]) = ?out"
    by (simp add: upt_rec upto_rec1)
  let ?a = "\<lparr>as_size = 10, as_top = 0, as_stack = junk\<rparr>"
  have "ArrayStack_new junk 10 = Some ?a" "array_rep ?a []" "array_fits ?a (nat 10)"
    using assms by (simp_all add: ArrayStack_new_def array_rep_def array_fits_def)
  with array.self_test [OF this(2,3)] obtain s1 where
    a: "ArrayStack_new junk 10 = Some ?a" "SelfTest ArrayStack_Full ArrayStack_Empty ArrayStack_Push ArrayStack_Pop 10 ?a = Some (?out, s1)"
    unfolding out by blast
  have "cells_rep ListStack_new []" by (auto simp: cells_rep_def ListStack_new_def IntList_new_def)
  from cells.self_test [OF this, of 10] obtain s2 where
    l: "SelfTest ListStack_Full ListStack_Empty ListStack_Push ListStack_Pop 10 ListStack_new = Some (?out, s2)" "cells_rep s2 []"
    unfolding out by blast
  obtain s3 where "IntList_delete s2 = Some s3" using IntList_delete_frees [OF l(2)] by blast
  then show ?thesis using a l(1) by (simp add: stack_main_def)
qed

end
