(* ===== verification/Spec2Isabelle.thy ===== *)
theory Spec2Isabelle
  imports File_Tools Join_Exit Kernel_Start Mail_Test Thread_Test Coff_Flat Example_Stacks
begin

text \<open>
  A verification development for the Nachos 3.4 teaching kernel in this repository, a C++ program that simulates a MIPS machine with its devices
  and runs a small multiprogrammed operating system on it. File names below are relative to the directory \<^verbatim>\<open>code\<close> of the source tree (c++example is beside it). The
  configuration is the one of the makefiles: user programs, the file system stub of the host in the kernel that is built, a little-endian
  32-bit host; the real file system and the network are part of the source and are modelled beside it. The file system is used by the builds of filesys/Makefile,
  which defines \<^verbatim>\<open>THREADS\<close> and so never reaches the command loop, and of network/Makefile.

  \<^bold>\<open>The program and its theories.\<close>

  \<^item> Foundations. \<open>Nachos_Prelude\<close> has failing assertions as \<open>None\<close> (\<open>ASSERT\<close>), checked array accesses, rounding (threads/utility.h) and the
    list and word lemmas that the components share. \<open>Bitmap\<close> is userprog/bitmap.cc. \<open>Linked_List\<close> is threads/list.cc with its cells and pointers in a
    store; its locale \<open>kernel_list\<close> is the contract of queue and priority queue that the rest of the kernel relies on, so that other theories
    hold such lists as plain lists.
  \<^item> The machine. \<open>Machine\<close> is machine/machine.cc and machine/translate.cc: registers, memory, page table and TLB, address translation with its
    exceptions. \<open>Mips\<close>, \<open>Mips_Multiply\<close> and \<open>Mips_Correct\<close> are machine/mipssim.cc: decoding, every instruction, delayed loads and branches.
    \<open>Interrupts\<close> is machine/interrupt.cc, machine/stats.cc and machine/timer.cc: the clock, the pending interrupts and the idle loop, over any table of
    handlers (locales \<open>device_handlers\<close> and \<open>device_protocol\<close>). \<open>Devices\<close> is machine/disk.cc and machine/console.cc with the handlers of
    filesys/synchdisk.cc and threads/synchcons.cc.
  \<^item> Threads. \<open>Threads\<close> is threads/thread.cc, threads/scheduler.cc and threads/synch.cc: control blocks, ready list, context switch and semaphores as
    atomic sections, whose interleavings are the step relation \<open>kstep\<close>. \<open>Thread_Test\<close> is threads/threadtest.cc. \<open>Synch_Devices\<close> has \<^verbatim>\<open>P\<close>, \<^verbatim>\<open>V\<close>, the synchronous disk and the
    synchronous console as whole operations, through sleep, idle loop, interrupt and wake-up. \<open>Synch_List\<close> is threads/synchlist.cc.
  \<^item> Files. \<open>Open_File\<close>, \<open>Directory\<close> and \<open>File_System\<close> are filesys/filehdr.cc, filesys/openfile.cc, filesys/directory.cc and filesys/filesys.cc over
    the sectors of the disk; \<open>File_Tools\<close> has the commands on files of filesys/fstest.cc and threads/main.cc. \<open>Host_Files\<close> is the stub that the configured kernel uses: the wrappers of machine/sysdep.cc and the inline classes of
    filesys/openfile.h and filesys/filesys.h over the files of the host.
  \<^item> User programs. \<open>Coff_Noff\<close> is bin/coff2noff.c, which makes the executables, and \<open>Coff_Flat\<close> its sibling bin/coff2flat.c. \<open>Address_Space\<close> is userprog/addrspace.cc. \<open>Kernel_State\<close> is the record
    of the global objects of threads/system.h; \<open>Semaphore_Table\<close> and \<open>Process_Table\<close> are userprog/stable.cc, userprog/pcb.cc and userprog/ptable.cc,
    and \<open>Join_Exit\<close> has the interleavings of processes that join and exit, as the step relation \<open>pstep\<close>.
    \<open>Syscalls\<close> is userprog/exception.cc: every system call, the copying of strings across the boundary, the trap and the loop
    \<^verbatim>\<open>Machine::Run\<close>; \<open>Syscall_Correct\<close> has its theorems. \<open>Kernel_Start\<close> is threads/main.cc, \<^verbatim>\<open>Initialize\<close> of threads/system.cc and
    userprog/progtest.cc.
  \<^item> Network. \<open>Network\<close> is machine/network.cc with the sockets of machine/sysdep.cc, \<open>Post_Office\<close> is network/post.cc, and \<open>Mail_Delivery\<close> has
    several machines that exchange mail, with their interleavings as the step relation \<open>net_step\<close>. \<open>Mail_Sending\<close> has the whole of
    \<^verbatim>\<open>PostOffice::Send\<close>, through sleep, idle loop, interrupt and wake-up, and \<open>Mail_Test\<close> is network/nettest.cc.
  \<^item> Examples. \<open>Example_Stacks\<close> is c++example/inheritstack.cc and c++example/list.cc: an abstract class, as a locale, and its two implementations.

  \<^bold>\<open>How the code is represented.\<close> A class is a record and its state is passed explicitly; the state of the kernel is one record that grows by
  extension: hardware (\<open>hw\<close>), threads and semaphores (\<open>kernel\<close>), devices (\<open>devices\<close>), global tables (\<open>nachos\<close>), or, for the network,
  \<open>net\<close> and \<open>post\<close>. Operations return \<open>option\<close>: \<open>None\<close> is a failed \<^verbatim>\<open>ASSERT\<close>, an access outside an array or another undefined behaviour
  of C++. Machine integers are words of their width where they wrap, and integers elsewhere. Exceptions of the simulated machine are values of a
  sum type. An access to a control block that is gone, in the step relation \<open>pstep\<close>, is an event that ends the run. Operations that can wait or halt the machine return an \<open>outcome\<close>. Memory that the code reads without having written it is a parameter,
  and so is what a caller receives from a function that ends without a return statement. The host follows POSIX: descriptors do not run out, writes are not short, and sockets that exist accept every datagram.
  What the other threads do while a thread waits is a parameter of the operations that wait; \<open>kstep\<close>, \<open>pstep\<close> and \<open>net_step\<close>
  have all interleavings.

  \<^bold>\<open>What the theorems show.\<close> Isolation: programs that are loaded together cannot change each other's memory (this theory), an unreadable string given to a
  system call halts the machine. The machine: translation is total and raises the specified exceptions, instructions are precise,
  multiplication and overflow are exact, the simulator does not abort on a machine with a page table. Threads: semaphore values, scheduling order, status invariants, no lost
  wake-up, transparent context switches. Devices: a tick runs exactly the handlers of the interrupts that are due, in order, and the synchronous disk and console return and
  do what they promise. Files: open files are byte arrays, create and remove implement a map from names to contents, and every sequence of them with sizes that
  a header can hold keeps the disk consistent; such a file that is copied in is printed as it was. System calls: strings and integers survive the crossing of the boundary in both
  directions, file contents up to their first zero byte, and refused calls have the stated effect. Tables: processes and semaphores, the latter for every value that the function
  without a return statement may give; parent and child meet in \<open>Join\<close> and \<open>Exit\<close>
  under every schedule of a fixed set of processes, none joined twice. Start-up: the kernel reaches a well-formed state from the command
  line and the named program starts as loaded; a compiled program is in memory as it was compiled. Tests: what the self tests print. Network: mail arrives in order, unaltered and
  in its box, its delivery never aborts, and a thread that sends comes back.

  \<^bold>\<open>Loops and bounds.\<close> No definition uses fuel. Loops whose end is not structural are \<open>partial_function (option)\<close>, and their theorems
  state that they return: the loop over due interrupts, the idle loop, the loop of \<^verbatim>\<open>P\<close>, reading a line, sending a message, printing a file, the self tests. The run of a user program and the postal
  worker are such loops without a theorem that they end, as they need not. The sizes are those of the source: 128 frames of 512 bytes, 40 registers, 1024 sectors of 512
  bytes, ten processes, ten semaphores, ten open files, packets of 64 bytes.

  \<^bold>\<open>Not modelled.\<close> Printing, debugging output and the interactive debugger only write to the host's terminal. The assembly routine
  \<^verbatim>\<open>SWITCH\<close> and the host stacks (threads/switch.c) appear only through the sections between which threads are switched. Signals, random
  number seeds and process control of machine/sysdep.cc are the host. \<^verbatim>\<open>Cleanup\<close> ends the process. The console test of
  userprog/progtest.cc, which opens a second console, is a parameter of \<^verbatim>\<open>main\<close>. The user programs in test/, and the disassembler and
  stand-alone simulator in bin/ are not part of the kernel.

  \<^bold>\<open>Possible extensions.\<close> \<open>Join\<close> and \<open>Exit\<close> while processes are created, and \<^verbatim>\<open>PostOffice::Send\<close> while packets arrive or other
  threads run.
\<close>

section \<open>Isolation of processes\<close>

text \<open>Two programs without segments, loaded one after the other into an empty memory of five frames.\<close>

definition first_space :: AddrSpace where
  "first_space = \<lparr>space_table = [new_entry 0 0, new_entry 1 1], numPages = 2\<rparr>"
definition second_space :: AddrSpace where
  "second_space = \<lparr>space_table = [new_entry 0 2, new_entry 1 3], numPages = 2\<rparr>"
definition frames_used :: "word32 \<Rightarrow> frames" where
  "frames_used w = \<lparr>gPhysPageBitMap = \<lparr>numBits = 5, numWords = 1, map_words = [w]\<rparr>, addrLock = 1, memory = (\<lambda>_. 0)\<rparr>"

lemma frames_used_wf: "wf_bitmap (gPhysPageBitMap (frames_used w))" "numBits (gPhysPageBitMap (frames_used w)) \<le> 2147483648"
  by (simp_all add: frames_used_def wf_bitmap_def divRoundUp_nonneg)

lemma frames_numclear: "NumClear (gPhysPageBitMap (frames_used 0)) = Some 5" "NumClear (gPhysPageBitMap (frames_used 3)) = Some 3"
  by (simp_all add: frames_used_def NumClear_def NumClear_from.simps Test_def BitsInWord_def monad_simps)

lemma collect_two: "collect_n f 2 s = do { (x, s1) \<leftarrow> f s; (y, s2) \<leftarrow> f s1; Some ([x, y], s2) }"
  by (simp add: numeral_2_eq_2 bind_eq_Some_conv split: bind_splits prod.splits)

lemma two_tables:
  "alloc_table 2 (gPhysPageBitMap (frames_used 0)) = Some (space_table first_space, gPhysPageBitMap (frames_used 3))"
  "alloc_table 2 (gPhysPageBitMap (frames_used 3)) = Some (space_table second_space, gPhysPageBitMap (frames_used 15))"
  by (simp_all add: alloc_table_def frames_used_def collect_two Find_def Find_from.simps Test_def Mark_def BitsInWord_def
    monad_simps first_space_def second_space_def upt_rec)

lemma sample_pages: "space_pages \<lparr>noffMagic = NOFFMAGIC, code_seg = \<lparr>virtualAddr = 0, inFileAddr = 0, seg_size = 0\<rparr>,
    initData = \<lparr>virtualAddr = 0, inFileAddr = 0, seg_size = 0\<rparr>, uninitData = \<lparr>virtualAddr = 0, inFileAddr = 0, seg_size = 0\<rparr>\<rparr> = 2"
  by (simp add: space_pages_def divRoundUp_nonneg machine_sizes UserStackSize_def)

lemma two_loads:
  "AddrSpace_open False [] (Some sample_file) (frames_used 0) = Some (Loaded first_space (frames_used 3))"
  "AddrSpace_open False [] (Some sample_file) (frames_used 3) = Some (Loaded second_space (frames_used 15))"
  by (simp_all add: AddrSpace_open_def sample_header lock_P_def lock_V_def frames_numclear sample_pages two_tables copy_segment_def
    Let_def) (simp_all add: frames_used_def first_space_def second_space_def)

text \<open>C1. Processes are isolated: of two programs loaded one after the other into the same memory, neither can change
  what the other reads. Whatever one of them stores, at any virtual address and of any size,
  the other reads at every address of its own what it would have read before.\<close>

theorem processes_are_isolated:
  assumes "wf_bitmap (gPhysPageBitMap s)" "numBits (gPhysPageBitMap s) \<le> 2147483648"
    "AddrSpace_open be junk1 (Some f1) s = Some (Loaded sp1 s1)" "AddrSpace_open be junk2 (Some f2) s1 = Some (Loaded sp2 s2)"
    "(p, q) \<in> {(sp1, sp2), (sp2, sp1)}" "tlb m = None" "valid_size sz1" "valid_size sz2"
    "WriteMem (RestoreState p m) a sz1 v = Some (Inr m1)" "ReadMem (RestoreState q m) b sz2 = Some (Inr (x, m2))"
  shows "\<exists>m3. ReadMem (RestoreState q m1) b sz2 = Some (Inr (x, m3))"
proof -
  note l1 = load_allocates [OF assms(1-3)]
  have "numBits (gPhysPageBitMap s1) \<le> 2147483648" using l1(6) assms(2) by simp
  note l2 = load_allocates [OF l1(5) this assms(4)]
  have "set (frame_list sp1) \<inter> set (frame_list sp2) = {}" using l1(4) l2(3) by blast
  with assms(5) l1(1) l2(1) show ?thesis
    by (intro isolation [OF assms(6) _ _ _ assms(7-10)]) auto
qed

theorem processes_are_isolated_witness:
  "\<exists>m1 m3. WriteMem (RestoreState first_space (Machine_new 0 0 False)) 8 4 77 = Some (Inr m1)
     \<and> ReadMem (RestoreState second_space m1) 8 4 = Some (Inr (0, m3))"
proof -
  let ?m = "Machine_new 0 0 False"
  have t: "tlb ?m = None" by (simp add: Machine_new_def)
  have ok: "page_tables_ok (RestoreState first_space ?m)" "page_tables_ok (RestoreState second_space ?m)"
    by (rule RestoreState_ok [OF t], simp add: first_space_def second_space_def)+
  have "\<exists>m1. WriteMem (RestoreState first_space ?m) 8 4 77 = Some (Inr m1)"
    by (subst WriteMem_spec [OF ok(1) valid_sizes(3)])
      (simp add: translate_spec_def first_space_def new_entry_def RestoreState_def Machine_new_def machine_sizes)
  then obtain m1 where w: "WriteMem (RestoreState first_space ?m) 8 4 77 = Some (Inr m1)" ..
  have "\<exists>m2. ReadMem (RestoreState second_space ?m) 8 4 = Some (Inr (0, m2))"
    by (subst ReadMem_spec [OF ok(2) valid_sizes(3)])
      (simp add: translate_spec_def loaded_def load32_def second_space_def new_entry_def RestoreState_def Machine_new_def machine_sizes)
  then obtain m2 where r: "ReadMem (RestoreState second_space ?m) 8 4 = Some (Inr (0, m2))" ..
  have "(first_space, second_space) \<in> {(first_space, second_space), (second_space, first_space)}" by simp
  from processes_are_isolated [OF frames_used_wf two_loads this t valid_sizes(3,3) w r] w show ?thesis by blast
qed

end
